(* ===== verification/Prelude.thy ===== *)
theory Prelude
  imports Complex_Main "HOL-Library.Monad_Syntax"
begin

text \<open>
  Shared ground of the development: the machine integers of the C++ code, exceptions as
  \<open>None\<close> of the option monad, and the interface of the libraries that the code calls
  (\<^verbatim>\<open>fc\<close> and \<^verbatim>\<open>boost::rational\<close>), which are git submodules or external packages and hence
  parameters of the model.

  All integers are mathematical integers of type \<open>int\<close>; every wrap-around and narrowing
  conversion of the source is written out with the functions \<open>u32\<close>, \<open>u64\<close>, \<open>u128\<close> and
  \<open>s64\<close>. A thrown exception (\<^verbatim>\<open>FC_ASSERT\<close>, \<^verbatim>\<open>FC_THROW\<close>, an overflow in \<^verbatim>\<open>fc::safe\<close>) is
  \<open>None\<close>: the transaction that threw is rolled back as a whole by the undo database.
\<close>

named_theorems chain_consts "numeric constants of the configuration headers"
named_theorems int_ranges "the ranges of the machine integer types"

section \<open>Names of the model's types\<close>

type_synonym share_type = int
type_synonym uint16 = int
type_synonym uint32 = int
type_synonym uint64 = int
type_synonym uint128 = int
type_synonym time_point_sec = int
type_synonym account_id_type = nat
type_synonym asset_id_type = nat

text \<open>The accounts with a special meaning, from \<^verbatim>\<open>config.hpp\<close>.\<close>

definition GRAPHENE_COMMITTEE_ACCOUNT :: account_id_type where [chain_consts]: "GRAPHENE_COMMITTEE_ACCOUNT = 0"
definition GRAPHENE_WITNESS_ACCOUNT :: account_id_type where [chain_consts]: "GRAPHENE_WITNESS_ACCOUNT = 1"
definition GRAPHENE_RELAXED_COMMITTEE_ACCOUNT :: account_id_type where [chain_consts]: "GRAPHENE_RELAXED_COMMITTEE_ACCOUNT = 2"
definition GRAPHENE_NULL_ACCOUNT :: account_id_type where [chain_consts]: "GRAPHENE_NULL_ACCOUNT = 3"
definition GRAPHENE_TEMP_ACCOUNT :: account_id_type where [chain_consts]: "GRAPHENE_TEMP_ACCOUNT = 4"

section \<open>Exceptions\<close>

definition fc_assert :: "bool \<Rightarrow> unit option" where
  "fc_assert b = (if b then Some () else None)"

lemma fc_assert_eq_Some [simp]: "fc_assert b = Some u \<longleftrightarrow> b"
  by (simp add: fc_assert_def)

lemma fc_assert_True [simp]: "fc_assert True = Some ()"
  by (simp add: fc_assert_def)

lemma fc_assert_False [simp]: "fc_assert False = None"
  by (simp add: fc_assert_def)

lemma fc_assert_bind [simp]: "(fc_assert b \<bind> f) = (if b then f () else None)"
  by (simp add: fc_assert_def)

lemma fc_assert_bind_eq_Some:
  "(fc_assert b \<bind> f) = Some y \<longleftrightarrow> b \<and> f () = Some y"
  by simp

lemma if_None_eq_Some [simp]:
  "(if b then x else None) = Some y \<longleftrightarrow> b \<and> x = Some y"
  "(if b then None else x) = Some y \<longleftrightarrow> \<not> b \<and> x = Some y"
  by auto

lemmas opt_bind = Option.bind_eq_Some_conv

section \<open>Machine integers\<close>

definition u32 :: "int \<Rightarrow> int" where "u32 x = x mod 2 ^ 32"
definition u64 :: "int \<Rightarrow> int" where "u64 x = x mod 2 ^ 64"
definition u128 :: "int \<Rightarrow> int" where "u128 x = x mod 2 ^ 128"

text \<open>The conversion to a signed 64-bit integer (two's complement).\<close>

definition s64 :: "int \<Rightarrow> int" where
  "s64 x = (x + 2 ^ 63) mod 2 ^ 64 - 2 ^ 63"

definition in_s64 :: "int \<Rightarrow> bool" where
  "in_s64 x \<longleftrightarrow> - (2 ^ 63) \<le> x \<and> x < 2 ^ 63"
definition in_u32 :: "int \<Rightarrow> bool" where
  "in_u32 x \<longleftrightarrow> 0 \<le> x \<and> x < 2 ^ 32"
definition in_u64 :: "int \<Rightarrow> bool" where
  "in_u64 x \<longleftrightarrow> 0 \<le> x \<and> x < 2 ^ 64"
definition in_u128 :: "int \<Rightarrow> bool" where
  "in_u128 x \<longleftrightarrow> 0 \<le> x \<and> x < 2 ^ 128"

text \<open>A signed integer type of \<open>w\<close> bits, and one whose smallest value is not used.\<close>

definition fits :: "nat \<Rightarrow> int \<Rightarrow> bool" where
  "fits w x \<longleftrightarrow> \<bar>x\<bar> < 2 ^ (w - 1)"

text \<open>Division of C++ integers truncates towards zero.\<close>

definition tdiv :: "int \<Rightarrow> int \<Rightarrow> int" where
  "tdiv a b = sgn a * sgn b * (\<bar>a\<bar> div \<bar>b\<bar>)"

lemma tdiv_nonneg [simp]: "0 \<le> a \<Longrightarrow> 0 < b \<Longrightarrow> tdiv a b = a div b"
  by (cases "a = 0") (simp_all add: tdiv_def)

lemma u32_id [simp]: "0 \<le> x \<Longrightarrow> x < 4294967296 \<Longrightarrow> u32 x = x"
  by (simp add: u32_def)

lemma u64_id [simp]: "0 \<le> x \<Longrightarrow> x < 18446744073709551616 \<Longrightarrow> u64 x = x"
  by (simp add: u64_def)

lemma u128_id [simp]:
  "0 \<le> x \<Longrightarrow> x < 340282366920938463463374607431768211456 \<Longrightarrow> u128 x = x"
  by (simp add: u128_def)

lemma s64_id [simp]:
  "- 9223372036854775808 \<le> x \<Longrightarrow> x < 9223372036854775808 \<Longrightarrow> s64 x = x"
  by (simp add: s64_def)

lemma u32_bounds [simp]: "0 \<le> u32 x" "u32 x < 4294967296"
  by (simp_all add: u32_def)

lemma u64_bounds [simp]: "0 \<le> u64 x" "u64 x < 18446744073709551616"
  by (simp_all add: u64_def)

lemma u128_nonneg [simp]: "0 \<le> u128 x"
  by (simp add: u128_def)

text \<open>Narrowing to a signed and back to an unsigned 64-bit integer loses nothing.\<close>

lemma u64_s64 [simp]: "u64 (s64 x) = u64 x"
proof -
  have "(s64 x) mod 2 ^ 64 = (x + 2 ^ 63 - 2 ^ 63) mod 2 ^ 64"
    unfolding s64_def by (rule mod_diff_cong) simp_all
  then show ?thesis by (simp add: u64_def)
qed

lemma mult_bound_126:
  fixes a b :: int
  assumes "0 \<le> a" "a < 2 ^ 63" "0 \<le> b" "b < 2 ^ 63"
  shows "0 \<le> a * b \<and> a * b < 2 ^ 126"
proof -
  have "a * b < 2 ^ 63 * 2 ^ 63"
    using assms by (intro mult_strict_mono) auto
  then show ?thesis using assms by simp
qed

lemma u128_mult_63 [simp]:
  assumes "0 \<le> a" "a < 9223372036854775808" "0 \<le> b" "b < 9223372036854775808"
  shows "u128 (a * b) = a * b"
  using mult_bound_126 [of a b] assms by simp

lemma u128_mult_add_63:
  assumes "0 \<le> a" "a < 9223372036854775808" "0 \<le> b" "b < 9223372036854775808"
    and "0 \<le> c" "c < 9223372036854775808"
  shows "u128 (a * b + c) = a * b + c"
  using mult_bound_126 [of a b] assms by simp

section \<open>Division with rounding\<close>

definition div_up :: "int \<Rightarrow> int \<Rightarrow> int" where
  "div_up a b = (a + b - 1) div b"

lemma int_div_less_iff: "0 < b \<Longrightarrow> a div b < c \<longleftrightarrow> a < c * b" for a b c :: int
proof
  assume b: "0 < b" and "a div b < c"
  then have "a div b + 1 \<le> c" by simp
  with b have "(a div b + 1) * b \<le> c * b" by (intro mult_right_mono) auto
  moreover have "a < (a div b + 1) * b"
    using b div_mult_mod_eq [of a b] pos_mod_bound [of b a] unfolding distrib_right by linarith
  ultimately show "a < c * b" by linarith
next
  assume b: "0 < b" and a: "a < c * b"
  have "a div b * b \<le> a"
    using b div_mult_mod_eq [of a b] pos_mod_sign [of b a] by linarith
  with a have "a div b * b < c * b" by linarith
  with b show "a div b < c" by simp
qed

lemma int_le_div_iff: "0 < b \<Longrightarrow> c \<le> a div b \<longleftrightarrow> c * b \<le> a" for a b c :: int
  using int_div_less_iff [of b a c] by auto

lemma div_up_le_iff: "0 < b \<Longrightarrow> div_up a b \<le> c \<longleftrightarrow> a \<le> c * b" for a b c :: int
  using int_div_less_iff [of b "a + b - 1" "c + 1"]
  by (auto simp: div_up_def algebra_simps)

lemma less_div_up_iff: "0 < b \<Longrightarrow> c < div_up a b \<longleftrightarrow> c * b < a" for a b c :: int
  using div_up_le_iff [of b a c] by auto

lemma div_up_nonneg [simp]: "0 \<le> a \<Longrightarrow> 0 < b \<Longrightarrow> 0 \<le> div_up a b"
  by (simp add: div_up_def pos_imp_zdiv_nonneg_iff)

lemma div_up_ge: "0 < b \<Longrightarrow> a \<le> div_up a b * b"
  using div_up_le_iff [of b a "div_up a b"] by simp

text \<open>
  Rounding down at a ratio \<open>q / b\<close> and rounding up on the way back never gives more than
  the start, and going forth again gives the same amount: what every exchange of the code
  relies on.
\<close>

lemma div_up_div_le:
  fixes x b q :: int
  assumes "0 < b" "0 < q" "0 \<le> x"
  shows "div_up (x * q div b * b) q \<le> x"
  using assms int_le_div_iff [of b "x * q div b" "x * q"] by (simp add: div_up_le_iff)

lemma div_div_up_div:
  fixes x b q :: int
  assumes "0 < b" "0 < q" "0 \<le> x"
  shows "div_up (x * q div b * b) q * q div b = x * q div b"
proof (rule antisym)
  have "div_up (x * q div b * b) q * q \<le> x * q"
    using assms by (intro mult_right_mono div_up_div_le) auto
  then show "div_up (x * q div b * b) q * q div b \<le> x * q div b"
    using assms by (intro zdiv_mono1) auto
  show "x * q div b \<le> div_up (x * q div b * b) q * q div b"
    using assms by (simp add: int_le_div_iff div_up_ge)
qed

lemma set_fold_insert [simp]: "set (fold List.insert xs ys) = set xs \<union> set ys"
  by (induction xs arbitrary: ys) auto

end
