(* ===== verification/External.thy ===== *)
theory External
  imports Prelude
begin

text \<open>
  The libraries the code calls and that are not part of the repository. A record
  \<open>fc_lib\<close> holds one function per library operation; the definitions of the model take
  such a record as an argument. What the code relies on is stated as locales over the
  record: \<open>fc_safe\<close> for the overflow-checked integers \<^verbatim>\<open>fc::safe<T>\<close> (the behaviour that
  \<^verbatim>\<open>tests/tests/asset_price_tests.cpp\<close>, test case \<^verbatim>\<open>overflow_test\<close>, documents), \<open>fc_time\<close> for
  \<^verbatim>\<open>fc::time_point_sec\<close> (a 32-bit count of seconds) and \<open>boost_rational\<close> for
  \<^verbatim>\<open>boost::rational<T>\<close> (a fraction kept in lowest terms with a positive denominator).

  The operations of \<^verbatim>\<open>fc::safe<int64_t>\<close> are only ever applied to 64-bit values; the laws
  are written for all integers, which restricts a library on no value it can be given.
  The laws of \<^verbatim>\<open>boost::rational\<close> say nothing where an intermediate product leaves the
  integer type, since its arithmetic is not checked.
\<close>

record fc_lib =
  safe_add :: "int \<Rightarrow> int \<Rightarrow> int option"
  safe_sub :: "int \<Rightarrow> int \<Rightarrow> int option"
  safe_neg :: "int \<Rightarrow> int option"
  safe_u32_mul :: "int \<Rightarrow> int \<Rightarrow> int option"
  safe_u128_mul :: "int \<Rightarrow> int \<Rightarrow> int option"
  tps_add :: "int \<Rightarrow> int \<Rightarrow> int"
  rat_make :: "nat \<Rightarrow> int \<Rightarrow> int \<Rightarrow> (int \<times> int) option"
  rat_mul :: "nat \<Rightarrow> int \<times> int \<Rightarrow> int \<times> int \<Rightarrow> int \<times> int"
  rat_add :: "nat \<Rightarrow> int \<times> int \<Rightarrow> int \<times> int \<Rightarrow> int \<times> int"
  rat_sub :: "nat \<Rightarrow> int \<times> int \<Rightarrow> int \<times> int \<Rightarrow> int \<times> int"
  rat_mul_int :: "nat \<Rightarrow> int \<times> int \<Rightarrow> int \<Rightarrow> int \<times> int"
  rat_div_int :: "nat \<Rightarrow> int \<times> int \<Rightarrow> int \<Rightarrow> int \<times> int"
  rat_abs :: "nat \<Rightarrow> int \<times> int \<Rightarrow> int \<times> int"
  rat_less :: "nat \<Rightarrow> int \<times> int \<Rightarrow> int \<times> int \<Rightarrow> bool"

section \<open>The contracts\<close>

locale fc_safe =
  fixes L :: fc_lib
  assumes safe_add: "safe_add L a b = (if in_s64 (a + b) then Some (a + b) else None)"
    and safe_sub: "safe_sub L a b = (if in_s64 (a - b) then Some (a - b) else None)"
    and safe_neg: "safe_neg L a = (if in_s64 (- a) then Some (- a) else None)"
    and safe_u32_mul: "safe_u32_mul L a b = (if in_u32 (a * b) then Some (a * b) else None)"
    and safe_u128_mul: "safe_u128_mul L a b = (if in_u128 (a * b) then Some (a * b) else None)"
begin

lemma safe_add_Some: "safe_add L a b = Some c \<longleftrightarrow> c = a + b \<and> in_s64 (a + b)"
  by (auto simp: safe_add)

lemma safe_sub_Some: "safe_sub L a b = Some c \<longleftrightarrow> c = a - b \<and> in_s64 (a - b)"
  by (auto simp: safe_sub)

lemma safe_neg_Some: "safe_neg L a = Some c \<longleftrightarrow> c = - a \<and> in_s64 (- a)"
  by (auto simp: safe_neg)

lemma safe_u32_mul_Some: "safe_u32_mul L a b = Some c \<longleftrightarrow> c = a * b \<and> in_u32 (a * b)"
  by (auto simp: safe_u32_mul)

lemma safe_u128_mul_Some: "safe_u128_mul L a b = Some c \<longleftrightarrow> c = a * b \<and> in_u128 (a * b)"
  by (auto simp: safe_u128_mul)

lemmas safe_Some =
  safe_add_Some safe_sub_Some safe_neg_Some safe_u32_mul_Some safe_u128_mul_Some

end

locale fc_time =
  fixes L :: fc_lib
  assumes tps_add: "tps_add L t d = u32 (t + d)"

text \<open>The value of a fraction does not depend on the representative.\<close>

definition in_lowest_terms :: "int \<times> int \<Rightarrow> bool" where
  "in_lowest_terms r \<longleftrightarrow> 0 < snd r \<and> coprime (fst r) (snd r)"

lemma normalize_lowest: "in_lowest_terms (Rat.normalize (n, d))"
  using normalize_denom_pos [of "(n, d)"] normalize_coprime [of "(n, d)"]
  by (cases "Rat.normalize (n, d)") (simp add: in_lowest_terms_def)

lemma normalize_cross:
  assumes "d \<noteq> 0"
  shows "fst (Rat.normalize (n, d)) * d = n * snd (Rat.normalize (n, d))"
proof -
  obtain a b where ab: "Rat.normalize (n, d) = (a, b)" by (cases "Rat.normalize (n, d)")
  have "Rat.Fract a b = Rat.Fract n d"
    using quotient_of_eq ab assms by (metis Fract_of_int_quotient normalize_eq)
  moreover have "b \<noteq> 0" using normalize_denom_pos [OF ab] by simp
  ultimately show ?thesis using ab assms by (simp add: eq_rat)
qed

lemma normalize_pos:
  assumes "0 < n" "0 < d"
  shows "0 < fst (Rat.normalize (n, d))" "fst (Rat.normalize (n, d)) \<le> n"
    and "0 < snd (Rat.normalize (n, d))" "snd (Rat.normalize (n, d)) \<le> d"
proof -
  have g: "0 < gcd n d" using assms by simp
  then have g1: "1 \<le> gcd n d" by linarith
  have nd: "Rat.normalize (n, d) = (n div gcd n d, d div gcd n d)"
    using assms by (simp add: Rat.normalize_def Let_def)
  have "gcd n d \<le> n" "gcd n d \<le> d"
    using assms by (auto intro: zdvd_imp_le)
  then show "0 < fst (Rat.normalize (n, d))" "0 < snd (Rat.normalize (n, d))"
    using g by (simp_all add: nd pos_imp_zdiv_pos_iff)
  show "fst (Rat.normalize (n, d)) \<le> n" "snd (Rat.normalize (n, d)) \<le> d"
    using g1 assms zdiv_mono2 [of n 1 "gcd n d"] zdiv_mono2 [of d 1 "gcd n d"]
    by (simp_all add: nd del: gcd_pos_int)
qed

locale boost_rational =
  fixes L :: fc_lib
  assumes rat_make: "fits w n \<Longrightarrow> fits w d \<Longrightarrow>
      rat_make L w n d = (if d = 0 then None else Some (Rat.normalize (n, d)))"
    and rat_mul: "in_lowest_terms (n1, d1) \<Longrightarrow> in_lowest_terms (n2, d2) \<Longrightarrow>
      fits w (n1 * n2) \<Longrightarrow> fits w (d1 * d2) \<Longrightarrow>
      rat_mul L w (n1, d1) (n2, d2) = Rat.normalize (n1 * n2, d1 * d2)"
    and rat_add: "in_lowest_terms (n1, d1) \<Longrightarrow> in_lowest_terms (n2, d2) \<Longrightarrow>
      fits w (n1 * d2) \<Longrightarrow> fits w (n2 * d1) \<Longrightarrow> fits w (n1 * d2 + n2 * d1) \<Longrightarrow> fits w (d1 * d2) \<Longrightarrow>
      rat_add L w (n1, d1) (n2, d2) = Rat.normalize (n1 * d2 + n2 * d1, d1 * d2)"
    and rat_mul_int: "in_lowest_terms (n, d) \<Longrightarrow> fits w (n * k) \<Longrightarrow> fits w d \<Longrightarrow>
      rat_mul_int L w (n, d) k = Rat.normalize (n * k, d)"
    and rat_div_int: "in_lowest_terms (n, d) \<Longrightarrow> 0 < k \<Longrightarrow> fits w n \<Longrightarrow> fits w (d * k) \<Longrightarrow>
      rat_div_int L w (n, d) k = Rat.normalize (n, d * k)"
begin

lemma rat_make_pos:
  assumes "0 < n" "0 < d" "fits w n" "fits w d"
  shows "rat_make L w n d = Some (Rat.normalize (n, d))"
  using assms by (simp add: rat_make)

end

locale ext_laws = fc_safe L + fc_time L + boost_rational L
  for L :: fc_lib

section \<open>A library that meets the contracts\<close>

text \<open>
  The documented behaviour as functions that compute, used where a theorem is applied to
  a concrete input.
\<close>

definition checked_lib :: fc_lib where
  "checked_lib = \<lparr>
     safe_add = (\<lambda>a b. if in_s64 (a + b) then Some (a + b) else None),
     safe_sub = (\<lambda>a b. if in_s64 (a - b) then Some (a - b) else None),
     safe_neg = (\<lambda>a. if in_s64 (- a) then Some (- a) else None),
     safe_u32_mul = (\<lambda>a b. if in_u32 (a * b) then Some (a * b) else None),
     safe_u128_mul = (\<lambda>a b. if in_u128 (a * b) then Some (a * b) else None),
     tps_add = (\<lambda>t d. u32 (t + d)),
     rat_make = (\<lambda>w n d. if d = 0 then None else Some (Rat.normalize (n, d))),
     rat_mul = (\<lambda>w (n1, d1) (n2, d2). Rat.normalize (n1 * n2, d1 * d2)),
     rat_add = (\<lambda>w (n1, d1) (n2, d2). Rat.normalize (n1 * d2 + n2 * d1, d1 * d2)),
     rat_sub = (\<lambda>w (n1, d1) (n2, d2). Rat.normalize (n1 * d2 - n2 * d1, d1 * d2)),
     rat_mul_int = (\<lambda>w (n, d) k. Rat.normalize (n * k, d)),
     rat_div_int = (\<lambda>w (n, d) k. Rat.normalize (n, d * k)),
     rat_abs = (\<lambda>w (n, d). (\<bar>n\<bar>, d)),
     rat_less = (\<lambda>w (n1, d1) (n2, d2). n1 * d2 < n2 * d1) \<rparr>"

interpretation checked: ext_laws checked_lib
  by unfold_locales (simp_all add: checked_lib_def)

lemma checked_lib_laws: "ext_laws checked_lib"
  by (rule checked.ext_laws_axioms)

lemma checked_lib_safe: "fc_safe checked_lib"
  by (rule checked.fc_safe_axioms)

lemma checked_lib_rational: "boost_rational checked_lib"
  by (rule checked.boost_rational_axioms)

lemmas checked_lib_simps =
  checked.safe_add checked.safe_sub checked.safe_neg checked.safe_u32_mul checked.safe_u128_mul
  checked.tps_add

end
