(* ===== verification/Asset.thy ===== *)
theory Asset
  imports External "HOL-Library.Product_Lexorder"
begin

text \<open>
  Amounts, prices and price feeds: \<^verbatim>\<open>libraries/protocol/include/graphene/protocol/asset.hpp\<close>
  and \<^verbatim>\<open>libraries/protocol/asset.cpp\<close>. Products of 64-bit amounts are taken in 128 unsigned
  bits as in the code (\<open>u128\<close>); comparisons of assets of different types throw.
\<close>

section \<open>Constants of config.hpp\<close>

definition GRAPHENE_MAX_SHARE_SUPPLY :: int where
  [chain_consts]: "GRAPHENE_MAX_SHARE_SUPPLY = 9000000000000000000"
definition GRAPHENE_100_PERCENT :: int where
  [chain_consts]: "GRAPHENE_100_PERCENT = 10000"
definition GRAPHENE_COLLATERAL_RATIO_DENOM :: int where
  [chain_consts]: "GRAPHENE_COLLATERAL_RATIO_DENOM = 1000"
definition GRAPHENE_MIN_COLLATERAL_RATIO :: int where
  [chain_consts]: "GRAPHENE_MIN_COLLATERAL_RATIO = 1001"
definition GRAPHENE_MAX_COLLATERAL_RATIO :: int where
  [chain_consts]: "GRAPHENE_MAX_COLLATERAL_RATIO = 32000"

section \<open>struct asset\<close>

record asset =
  amount :: share_type
  asset_id :: asset_id_type

abbreviation mk_asset :: "share_type \<Rightarrow> asset_id_type \<Rightarrow> asset" where
  "mk_asset a i \<equiv> \<lparr>amount = a, asset_id = i\<rparr>"

definition asset_add :: "fc_lib \<Rightarrow> asset \<Rightarrow> asset \<Rightarrow> asset option" where
  "asset_add L a b = do {
     fc_assert (asset_id a = asset_id b);
     s \<leftarrow> safe_add L (amount a) (amount b);
     Some (mk_asset s (asset_id a))
   }"

definition asset_sub :: "fc_lib \<Rightarrow> asset \<Rightarrow> asset \<Rightarrow> asset option" where
  "asset_sub L a b = do {
     fc_assert (asset_id a = asset_id b);
     s \<leftarrow> safe_sub L (amount a) (amount b);
     Some (mk_asset s (asset_id a))
   }"

definition asset_neg :: "fc_lib \<Rightarrow> asset \<Rightarrow> asset option" where
  "asset_neg L a = do {
     s \<leftarrow> safe_neg L (amount a);
     Some (mk_asset s (asset_id a))
   }"

definition asset_lt :: "asset \<Rightarrow> asset \<Rightarrow> bool option" where
  "asset_lt a b = do {
     fc_assert (asset_id a = asset_id b);
     Some (amount a < amount b)
   }"

definition asset_le :: "asset \<Rightarrow> asset \<Rightarrow> bool option" where
  "asset_le a b = map_option Not (asset_lt b a)"

definition asset_gt :: "asset \<Rightarrow> asset \<Rightarrow> bool option" where
  "asset_gt a b = asset_lt b a"

definition asset_ge :: "asset \<Rightarrow> asset \<Rightarrow> bool option" where
  "asset_ge a b = map_option Not (asset_lt a b)"

text \<open>The compile-time table of powers of ten.\<close>

fun p10 :: "nat \<Rightarrow> int" where
  "p10 0 = 1"
| "p10 (Suc n) = 10 * p10 n"

definition scaled_precision_lut :: "int list" where
  "scaled_precision_lut = map p10 [0..<19]"

definition scaled_precision :: "nat \<Rightarrow> share_type option" where
  "scaled_precision precision = do {
     fc_assert (precision < 19);
     Some (scaled_precision_lut ! precision)
   }"

section \<open>struct price\<close>

record price =
  base :: asset
  quote :: asset

abbreviation mk_price :: "asset \<Rightarrow> asset \<Rightarrow> price" where
  "mk_price b q \<equiv> \<lparr>base = b, quote = q\<rparr>"

definition null_price :: price where
  "null_price = mk_price (mk_asset 0 0) (mk_asset 0 0)"

definition price_invert :: "price \<Rightarrow> price" where
  "price_invert p = mk_price (quote p) (base p)"

definition price_eq :: "price \<Rightarrow> price \<Rightarrow> bool" where
  "price_eq a b =
     (if (asset_id (base a), asset_id (quote a)) \<noteq> (asset_id (base b), asset_id (quote b)) then False
      else (let amult = u128 (amount (quote b) * amount (base a));
                bmult = u128 (amount (quote a) * amount (base b))
            in amult = bmult))"

definition price_lt :: "price \<Rightarrow> price \<Rightarrow> bool" where
  "price_lt a b =
     (if asset_id (base a) < asset_id (base b) then True
      else if asset_id (base a) > asset_id (base b) then False
      else if asset_id (quote a) < asset_id (quote b) then True
      else if asset_id (quote a) > asset_id (quote b) then False
      else (let amult = u128 (amount (quote b) * amount (base a));
                bmult = u128 (amount (quote a) * amount (base b))
            in amult < bmult))"

definition price_gt :: "price \<Rightarrow> price \<Rightarrow> bool" where
  "price_gt a b = price_lt b a"
definition price_le :: "price \<Rightarrow> price \<Rightarrow> bool" where
  "price_le a b = (\<not> price_lt b a)"
definition price_ge :: "price \<Rightarrow> price \<Rightarrow> bool" where
  "price_ge a b = (\<not> price_lt a b)"

definition is_null :: "price \<Rightarrow> bool" where
  "is_null p \<longleftrightarrow> asset_id (base p) = 0 \<and> asset_id (quote p) = 0"

definition price_validate :: "price \<Rightarrow> unit option" where
  "price_validate p = do {
     fc_assert (amount (base p) > 0);
     fc_assert (amount (quote p) > 0);
     fc_assert (asset_id (base p) \<noteq> asset_id (quote p))
   }"

text \<open>\<^verbatim>\<open>operator / ( const asset& base, const asset& quote )\<close>\<close>

definition asset_div :: "asset \<Rightarrow> asset \<Rightarrow> price option" where
  "asset_div b q = do {
     fc_assert (asset_id b \<noteq> asset_id q);
     Some (mk_price b q)
   }"

definition price_max :: "asset_id_type \<Rightarrow> asset_id_type \<Rightarrow> price option" where
  "price_max b q = asset_div (mk_asset GRAPHENE_MAX_SHARE_SUPPLY b) (mk_asset 1 q)"

definition price_min :: "asset_id_type \<Rightarrow> asset_id_type \<Rightarrow> price option" where
  "price_min b q = asset_div (mk_asset 1 b) (mk_asset GRAPHENE_MAX_SHARE_SUPPLY q)"

definition unit_price :: "asset_id_type \<Rightarrow> price" where
  "unit_price a = mk_price (mk_asset 1 a) (mk_asset 1 a)"

section \<open>Conversion of an amount at a price\<close>

text \<open>\<^verbatim>\<open>operator * ( const asset& a, const price& b )\<close>, rounding down.\<close>

definition asset_mul :: "asset \<Rightarrow> price \<Rightarrow> asset option" where
  "asset_mul a b =
     (if asset_id a = asset_id (base b) then do {
        fc_assert (amount (base b) > 0);
        let result = u128 (amount a * amount (quote b)) div u128 (amount (base b));
        fc_assert (result \<le> GRAPHENE_MAX_SHARE_SUPPLY);
        Some (mk_asset (s64 result) (asset_id (quote b)))
      }
      else if asset_id a = asset_id (quote b) then do {
        fc_assert (amount (quote b) > 0);
        let result = u128 (amount a * amount (base b)) div u128 (amount (quote b));
        fc_assert (result \<le> GRAPHENE_MAX_SHARE_SUPPLY);
        Some (mk_asset (s64 result) (asset_id (base b)))
      }
      else None)"

definition multiply_and_round_up :: "asset \<Rightarrow> price \<Rightarrow> asset option" where
  "multiply_and_round_up a b =
     (if asset_id a = asset_id (base b) then do {
        fc_assert (amount (base b) > 0);
        let result = u128 (amount a * amount (quote b) + amount (base b) - 1) div u128 (amount (base b));
        fc_assert (result \<le> GRAPHENE_MAX_SHARE_SUPPLY);
        Some (mk_asset (s64 result) (asset_id (quote b)))
      }
      else if asset_id a = asset_id (quote b) then do {
        fc_assert (amount (quote b) > 0);
        let result = u128 (amount a * amount (base b) + amount (quote b) - 1) div u128 (amount (quote b));
        fc_assert (result \<le> GRAPHENE_MAX_SHARE_SUPPLY);
        Some (mk_asset (s64 result) (asset_id (base b)))
      }
      else None)"

section \<open>Scaling a price by a ratio\<close>

text \<open>
  A \<^verbatim>\<open>boost::rational\<close> is the pair of its numerator and denominator. The loops of the code
  halve 128-bit numbers until they fit into a share amount; they run on fuel, one unit
  per iteration. \<open>rational_fuel\<close> iterations are enough for every 128-bit fraction
  (\<open>shrink_price_terminates\<close>, \<open>halve_terminates\<close>).
\<close>

type_synonym rational = "int \<times> int"

definition rational_fuel :: nat where
  "rational_fuel = 128"

text \<open>The loop of \<^verbatim>\<open>operator * ( const price& p, const ratio_type& r )\<close>; the result also says
  whether the fraction was halved (\<^verbatim>\<open>shrinked\<close>) and whether an end of the range was taken
  (\<^verbatim>\<open>using_max\<close>).\<close>

fun shrink_price :: "fc_lib \<Rightarrow> nat \<Rightarrow> rational \<Rightarrow> bool \<Rightarrow> (rational \<times> bool \<times> bool) option" where
  "shrink_price L 0 cp shrinked = None"
| "shrink_price L (Suc fuel) cp shrinked =
     (if fst cp > GRAPHENE_MAX_SHARE_SUPPLY \<or> snd cp > GRAPHENE_MAX_SHARE_SUPPLY then
        if fst cp = 1 then do {
          cp' \<leftarrow> rat_make L 128 1 GRAPHENE_MAX_SHARE_SUPPLY;
          Some (cp', shrinked, True)
        }
        else if snd cp = 1 then do {
          cp' \<leftarrow> rat_make L 128 GRAPHENE_MAX_SHARE_SUPPLY 1;
          Some (cp', shrinked, True)
        }
        else do {
          cp' \<leftarrow> rat_make L 128 (fst cp div 2) (snd cp div 2);
          shrink_price L fuel cp' True
        }
      else Some (cp, shrinked, False))"

text \<open>The checks after a halving, for the cases where rounding lost too much.\<close>

definition refine_price :: "fc_lib \<Rightarrow> rational \<Rightarrow> rational \<Rightarrow> rational option" where
  "refine_price L ocp cp =
     (let num = fst ocp; den = snd ocp;
          (num', den') =
            (if num > den
             then (if tdiv num den > GRAPHENE_MAX_SHARE_SUPPLY then GRAPHENE_MAX_SHARE_SUPPLY else tdiv num den, 1)
             else (1, if tdiv den num > GRAPHENE_MAX_SHARE_SUPPLY then GRAPHENE_MAX_SHARE_SUPPLY else tdiv den num))
      in do {
        ncp \<leftarrow> rat_make L 128 num' den';
        if num' = GRAPHENE_MAX_SHARE_SUPPLY \<or> den' = GRAPHENE_MAX_SHARE_SUPPLY then Some ncp
        else let diff1 = rat_abs L 128 (rat_sub L 128 ncp ocp);
                 diff2 = rat_abs L 128 (rat_sub L 128 cp ocp)
             in Some (if rat_less L 128 diff1 diff2 then ncp else cp)
      })"

text \<open>\<^verbatim>\<open>price operator * ( const price& p, const ratio_type& r )\<close>\<close>

definition price_mul_ratio :: "fc_lib \<Rightarrow> price \<Rightarrow> rational \<Rightarrow> price option" where
  "price_mul_ratio L p r = do {
     price_validate p;
     fc_assert (fst r > 0 \<and> snd r > 0);
     if fst r = snd r then Some p
     else do {
       p128 \<leftarrow> rat_make L 128 (amount (base p)) (amount (quote p));
       r128 \<leftarrow> rat_make L 128 (fst r) (snd r);
       let ocp = rat_mul L 128 p128 r128;
       (cp, shrinked, using_max) \<leftarrow> shrink_price L rational_fuel ocp False;
       cp' \<leftarrow> (if shrinked then refine_price L ocp cp else Some cp);
       np \<leftarrow> asset_div (mk_asset (s64 (fst cp')) (asset_id (base p)))
                      (mk_asset (s64 (snd cp')) (asset_id (quote p)));
       let np' = (if (shrinked \<or> using_max) \<and>
                     ((fst r > snd r \<and> price_lt np p) \<or> (fst r < snd r \<and> price_gt np p))
                  then p else np);
       price_validate np';
       Some np'
     }
   }"

text \<open>\<^verbatim>\<open>price operator / ( const price& p, const ratio_type& r )\<close>: the inverted ratio is built by
  the constructor of \<^verbatim>\<open>boost::rational<int32_t>\<close>.\<close>

definition price_div_ratio :: "fc_lib \<Rightarrow> price \<Rightarrow> rational \<Rightarrow> price option" where
  "price_div_ratio L p r = do {
     r' \<leftarrow> rat_make L 32 (snd r) (fst r);
     price_mul_ratio L p r'
   }"

text \<open>The loops of \<^verbatim>\<open>price::call_price\<close> and \<^verbatim>\<open>price_feed::max_short_squeeze_price_before_hf_1270\<close>
  differ in how they round a halved number.\<close>

fun halve_price :: "fc_lib \<Rightarrow> (int \<Rightarrow> int) \<Rightarrow> nat \<Rightarrow> rational \<Rightarrow> rational option" where
  "halve_price L half 0 cp = None"
| "halve_price L half (Suc fuel) cp =
     (if fst cp > GRAPHENE_MAX_SHARE_SUPPLY \<or> snd cp > GRAPHENE_MAX_SHARE_SUPPLY then do {
        cp' \<leftarrow> rat_make L 128 (half (fst cp)) (half (snd cp));
        halve_price L half fuel cp'
      }
      else Some cp)"

definition call_price :: "fc_lib \<Rightarrow> asset \<Rightarrow> asset \<Rightarrow> uint16 \<Rightarrow> price option" where
  "call_price L debt collateral collateral_ratio = do {
     swan \<leftarrow> rat_make L 128 (amount debt) (amount collateral);
     ratio \<leftarrow> rat_make L 128 collateral_ratio GRAPHENE_COLLATERAL_RATIO_DENOM;
     cp \<leftarrow> halve_price L (\<lambda>x. x div 2 + 1) rational_fuel (rat_mul L 128 swan ratio);
     asset_div (mk_asset (s64 (snd cp)) (asset_id collateral))
               (mk_asset (s64 (fst cp)) (asset_id debt))
   }"

section \<open>struct price\_feed\<close>

record price_feed =
  settlement_price :: price
  core_exchange_rate :: price
  maintenance_collateral_ratio :: uint16
  maximum_short_squeeze_ratio :: uint16

definition price_feed_validate :: "price_feed \<Rightarrow> unit option" where
  "price_feed_validate f = do {
     (if \<not> is_null (settlement_price f) then price_validate (settlement_price f) else Some ());
     fc_assert (maximum_short_squeeze_ratio f \<ge> GRAPHENE_MIN_COLLATERAL_RATIO);
     fc_assert (maximum_short_squeeze_ratio f \<le> GRAPHENE_MAX_COLLATERAL_RATIO);
     fc_assert (maintenance_collateral_ratio f \<ge> GRAPHENE_MIN_COLLATERAL_RATIO);
     fc_assert (maintenance_collateral_ratio f \<le> GRAPHENE_MAX_COLLATERAL_RATIO)
   }"

definition price_feed_is_for :: "price_feed \<Rightarrow> asset_id_type \<Rightarrow> bool" where
  "price_feed_is_for f i =
     (if \<not> is_null (settlement_price f) then asset_id (base (settlement_price f)) = i
      else if \<not> is_null (core_exchange_rate f) then asset_id (base (core_exchange_rate f)) = i
      else True)"

definition max_short_squeeze_price_before_hf_1270 :: "fc_lib \<Rightarrow> price_feed \<Rightarrow> price option" where
  "max_short_squeeze_price_before_hf_1270 L f = do {
     sp \<leftarrow> rat_make L 128 (amount (base (settlement_price f))) (amount (quote (settlement_price f)));
     ratio \<leftarrow> rat_make L 128 GRAPHENE_COLLATERAL_RATIO_DENOM (maximum_short_squeeze_ratio f);
     cp \<leftarrow> halve_price L (\<lambda>x. x div 2 + x mod 2) rational_fuel (rat_mul L 128 sp ratio);
     asset_div (mk_asset (s64 (fst cp)) (asset_id (base (settlement_price f))))
               (mk_asset (s64 (snd cp)) (asset_id (quote (settlement_price f))))
   }"

definition max_short_squeeze_price :: "fc_lib \<Rightarrow> price_feed \<Rightarrow> price option" where
  "max_short_squeeze_price L f = do {
     r \<leftarrow> rat_make L 32 GRAPHENE_COLLATERAL_RATIO_DENOM (maximum_short_squeeze_ratio f);
     price_mul_ratio L (settlement_price f) r
   }"

definition maintenance_collateralization :: "fc_lib \<Rightarrow> price_feed \<Rightarrow> price option" where
  "maintenance_collateralization L f =
     (if is_null (settlement_price f) then Some null_price
      else do {
        r \<leftarrow> rat_make L 32 (maintenance_collateral_ratio f) GRAPHENE_COLLATERAL_RATIO_DENOM;
        price_mul_ratio L (price_invert (settlement_price f)) r
      })"

section \<open>Prices are a linear order\<close>

text \<open>A price that passes \<^verbatim>\<open>validate\<close> and whose amounts are 64-bit integers.\<close>

definition price_ok :: "price \<Rightarrow> bool" where
  "price_ok p \<longleftrightarrow> 0 < amount (base p) \<and> amount (base p) < 2 ^ 63 \<and>
     0 < amount (quote p) \<and> amount (quote p) < 2 ^ 63 \<and> asset_id (base p) \<noteq> asset_id (quote p)"

lemma price_ok_validate: "price_ok p \<Longrightarrow> price_validate p = Some ()"
  by (simp add: price_ok_def price_validate_def)

lemma price_invert_simps [simp]:
  "base (price_invert p) = quote p" "quote (price_invert p) = base p"
  by (simp_all add: price_invert_def)

lemma price_ok_invert [simp]: "price_ok (price_invert p) = price_ok p"
  by (auto simp: price_ok_def price_invert_def)

text \<open>The market of a price and its value as a rational number.\<close>

definition price_key :: "price \<Rightarrow> nat \<times> nat \<times> rat" where
  "price_key p = (asset_id (base p), asset_id (quote p), Rat.Fract (amount (base p)) (amount (quote p)))"

lemma price_lt_cross:
  assumes "price_ok a" "price_ok b"
    and "asset_id (base a) = asset_id (base b)" "asset_id (quote a) = asset_id (quote b)"
  shows "price_lt a b \<longleftrightarrow> amount (base a) * amount (quote b) < amount (base b) * amount (quote a)"
  using assms by (simp add: price_lt_def price_ok_def mult.commute)

lemma Fract_less_iff: "0 < b \<Longrightarrow> 0 < d \<Longrightarrow> Rat.Fract a b < Rat.Fract c d \<longleftrightarrow> a * d < c * b"
  by (simp add: mult_less_cancel_right_pos mult_pos_pos del: mult_less_cancel_right)

lemma price_lt_iff_key:
  assumes "price_ok a" "price_ok b"
  shows "price_lt a b \<longleftrightarrow> price_key a < price_key b"
proof (cases "asset_id (base a) = asset_id (base b) \<and> asset_id (quote a) = asset_id (quote b)")
  case True
  with assms have "price_lt a b \<longleftrightarrow> amount (base a) * amount (quote b) < amount (base b) * amount (quote a)"
    by (simp add: price_lt_cross)
  also have "\<dots> \<longleftrightarrow> Rat.Fract (amount (base a)) (amount (quote a)) < Rat.Fract (amount (base b)) (amount (quote b))"
    using assms by (intro Fract_less_iff [symmetric]) (simp_all add: price_ok_def)
  finally show ?thesis using True by (simp add: price_key_def)
next
  case False
  then show ?thesis by (auto simp: price_lt_def price_key_def)
qed

lemma price_eq_iff_key:
  assumes "price_ok a" "price_ok b"
  shows "price_eq a b \<longleftrightarrow> price_key a = price_key b"
  using assms by (auto simp: price_eq_def price_key_def price_ok_def eq_rat mult.commute)

section \<open>Conversion rounds down, or up\<close>

text \<open>An amount that an account may hold or trade.\<close>

definition share_ok :: "asset \<Rightarrow> bool" where
  "share_ok a \<longleftrightarrow> 0 \<le> amount a \<and> amount a \<le> GRAPHENE_MAX_SHARE_SUPPLY"

text \<open>The code accepts an asset of either side of the price; a price and its inverse convert
  alike.\<close>

lemma asset_mul_invert: "price_ok p \<Longrightarrow> asset_mul a (price_invert p) = asset_mul a p"
  by (simp add: asset_mul_def price_invert_def price_ok_def)

lemma round_up_invert:
  "price_ok p \<Longrightarrow> multiply_and_round_up a (price_invert p) = multiply_and_round_up a p"
  by (simp add: multiply_and_round_up_def price_invert_def price_ok_def)

lemma asset_mul_base:
  assumes "price_ok p" "share_ok a" "asset_id a = asset_id (base p)"
  shows "asset_mul a p =
    (let r = amount a * amount (quote p) div amount (base p)
     in if r \<le> GRAPHENE_MAX_SHARE_SUPPLY then Some (mk_asset r (asset_id (quote p))) else None)"
proof -
  have "0 \<le> amount a * amount (quote p) div amount (base p)"
    using assms by (simp add: price_ok_def share_ok_def pos_imp_zdiv_nonneg_iff)
  then show ?thesis
    using assms by (simp add: asset_mul_def price_ok_def share_ok_def Let_def chain_consts)
qed

lemma round_up_base:
  assumes "price_ok p" "share_ok a" "asset_id a = asset_id (base p)"
  shows "multiply_and_round_up a p =
    (let r = div_up (amount a * amount (quote p)) (amount (base p))
     in if r \<le> GRAPHENE_MAX_SHARE_SUPPLY then Some (mk_asset r (asset_id (quote p))) else None)"
proof -
  have "u128 (amount a * amount (quote p) + (amount (base p) - 1)) =
      amount a * amount (quote p) + (amount (base p) - 1)"
    using assms by (intro u128_mult_add_63) (simp_all add: price_ok_def share_ok_def chain_consts)
  moreover have "0 \<le> div_up (amount a * amount (quote p)) (amount (base p))"
    using assms by (simp add: price_ok_def share_ok_def)
  ultimately show ?thesis
    using assms
    by (simp add: multiply_and_round_up_def price_ok_def share_ok_def Let_def chain_consts
        div_up_def add_diff_eq)
qed

lemma round_trip_base:
  assumes p: "price_ok p" and x: "share_ok x" "asset_id x = asset_id (base p)"
    and y: "asset_mul x p = Some y"
  shows "\<exists>x'. multiply_and_round_up y p = Some x' \<and> asset_id x' = asset_id x \<and>
           amount x' \<le> amount x \<and> asset_mul x' p = Some y"
proof -
  let ?b = "amount (base p)" and ?q = "amount (quote p)"
  have bq: "0 < ?b" "0 < ?q" "0 \<le> amount x" using p x by (auto simp: price_ok_def share_ok_def)
  from y have r: "y = mk_asset (amount x * ?q div ?b) (asset_id (quote p))" "amount y \<le> GRAPHENE_MAX_SHARE_SUPPLY"
    by (auto simp: asset_mul_base [OF p x] Let_def split: if_splits)
  let ?x' = "mk_asset (div_up (amount x * ?q div ?b * ?b) ?q) (asset_id x)"
  have le: "amount ?x' \<le> amount x" using div_up_div_le [OF bq] by simp
  have yok: "share_ok y" using r bq by (simp add: share_ok_def pos_imp_zdiv_nonneg_iff)
  have xok: "share_ok ?x'" using le x bq by (simp add: share_ok_def pos_imp_zdiv_nonneg_iff)
  have "multiply_and_round_up y (price_invert p) = Some ?x'"
    using yok p x le r(1) xok by (subst round_up_base) (auto simp: share_ok_def Let_def)
  moreover have "asset_mul ?x' p = Some y"
    using xok p x r div_div_up_div [OF bq] by (subst asset_mul_base) (auto simp: Let_def)
  ultimately show ?thesis using le p by (auto simp: round_up_invert)
qed

section \<open>Scaling a price: termination, range and direction\<close>

definition in_share_range :: "rational \<Rightarrow> bool" where
  "in_share_range r \<longleftrightarrow> 0 < fst r \<and> fst r \<le> GRAPHENE_MAX_SHARE_SUPPLY \<and>
     0 < snd r \<and> snd r \<le> GRAPHENE_MAX_SHARE_SUPPLY"

text \<open>The ratios that \<^verbatim>\<open>boost::rational<int32_t>\<close> can hold and that the code lets through.\<close>

definition ratio_ok :: "rational \<Rightarrow> bool" where
  "ratio_ok r \<longleftrightarrow> 0 < fst r \<and> fst r < 2 ^ 31 \<and> 0 < snd r \<and> snd r < 2 ^ 31"

lemma ratio_pos: "ratio_ok r \<Longrightarrow> 0 < fst r \<and> 0 < snd r"
  by (simp add: ratio_ok_def)

lemma fits_128_share: "0 \<le> x \<Longrightarrow> x \<le> GRAPHENE_MAX_SHARE_SUPPLY \<Longrightarrow> fits 128 x"
  by (simp add: fits_def chain_consts)

lemma fits_le: "fits w y \<Longrightarrow> 0 \<le> x \<Longrightarrow> x \<le> y \<Longrightarrow> fits w x"
  by (simp add: fits_def)

lemma shrink_price_unchanged:
  "shrink_price L fuel cp s = Some (cp', sh, um) \<Longrightarrow> (s \<longrightarrow> sh) \<and> (\<not> sh \<longrightarrow> \<not> um \<longrightarrow> cp' = cp)"
proof (induction fuel arbitrary: cp s)
  case (Suc fuel)
  then show ?case by (fastforce simp: opt_bind split: if_splits)
qed simp

text \<open>An exactly scaled price lies on the side of the old one that the ratio says.\<close>

lemma exact_direction:
  assumes "price_ok p" "price_ok np"
    and ids: "asset_id (base np) = asset_id (base p) \<and> asset_id (quote np) = asset_id (quote p)"
    and cross: "amount (base np) * (amount (quote p) * rd) = amount (base p) * rn * amount (quote np)"
    and "0 < rn \<and> 0 < rd"
  shows "(rd \<le> rn \<longrightarrow> \<not> price_lt np p) \<and> (rn \<le> rd \<longrightarrow> \<not> price_lt p np)"
proof -
  let ?x = "amount (base np) * amount (quote p)" and ?y = "amount (base p) * amount (quote np)"
  have xy: "?x * rd = ?y * rn" using cross by (simp add: mult.assoc mult.left_commute mult.commute)
  have pos: "0 < ?x" "0 < ?y" using assms(1,2) by (simp_all add: price_ok_def)
  have "\<not> ?x < ?y" if "rd \<le> rn"
  proof
    assume "?x < ?y"
    then have "?x * rd < ?y * rn" by (rule mult_less_le_imp_less) (use that pos assms(5) in auto)
    then show False using xy by simp
  qed
  moreover have "\<not> ?y < ?x" if "rn \<le> rd"
  proof
    assume "?y < ?x"
    then have "?y * rn < ?x * rd" by (rule mult_less_le_imp_less) (use that pos assms(5) in auto)
    then show False using xy by simp
  qed
  ultimately show ?thesis using assms(1,2) ids by (simp add: price_lt_cross)
qed

lemma cross_product:
  fixes a b :: int
  assumes "n * (d1 * d2) = n1 * n2 * d" "n1 * q = b * d1" "n2 * s = f * d2" "0 < d1" "0 < d2"
  shows "n * (q * s) = b * f * d"
proof -
  have "n * (q * s) * (d1 * d2) = (n1 * q) * (n2 * s) * d"
    using assms(1) by (metis (no_types, lifting) mult.assoc mult.commute)
  also have "\<dots> = b * f * d * (d1 * d2)"
    unfolding assms(2,3) by (simp add: mult.assoc mult.left_commute mult.commute)
  finally show ?thesis using assms(4,5) by simp
qed

context boost_rational
begin

lemma make_in_range:
  assumes "in_share_range (n, d)"
  shows "\<exists>r. rat_make L 128 n d = Some r \<and> in_share_range r"
proof -
  have "rat_make L 128 n d = Some (Rat.normalize (n, d))"
    using assms by (intro rat_make_pos) (auto simp: in_share_range_def intro: fits_128_share)
  moreover have "in_share_range (Rat.normalize (n, d))"
    using assms normalize_pos [of n d] by (auto simp: in_share_range_def)
  ultimately show ?thesis by blast
qed

lemma make_halved:
  assumes "2 \<le> fst cp" "2 \<le> snd cp" "fits 128 (fst cp)" "fits 128 (snd cp)"
  shows "\<exists>r. rat_make L 128 (fst cp div 2) (snd cp div 2) = Some r \<and>
    0 < fst r \<and> fst r \<le> fst cp div 2 \<and> 0 < snd r \<and> snd r \<le> snd cp div 2"
proof -
  have pos: "0 < fst cp div 2" "0 < snd cp div 2" using assms by auto
  moreover have "fits 128 (fst cp div 2)" "fits 128 (snd cp div 2)"
    using assms by (auto intro: fits_le)
  ultimately show ?thesis using normalize_pos [OF pos] by (auto simp: rat_make_pos)
qed

lemma shrink_price_terminates:
  assumes "0 < fst cp" "0 < snd cp" "fits 128 (fst cp)" "fits 128 (snd cp)" "fst cp < 2 ^ fuel"
  shows "\<exists>cp' sh um. shrink_price L fuel cp s = Some (cp', sh, um) \<and> in_share_range cp'"
  using assms
proof (induction fuel arbitrary: cp s)
  case 0
  then show ?case by simp
next
  case (Suc fuel)
  have ends: "in_share_range (1, GRAPHENE_MAX_SHARE_SUPPLY)" "in_share_range (GRAPHENE_MAX_SHARE_SUPPLY, 1)"
    by (simp_all add: in_share_range_def chain_consts)
  consider "fst cp \<le> GRAPHENE_MAX_SHARE_SUPPLY \<and> snd cp \<le> GRAPHENE_MAX_SHARE_SUPPLY"
    | "\<not> (fst cp \<le> GRAPHENE_MAX_SHARE_SUPPLY \<and> snd cp \<le> GRAPHENE_MAX_SHARE_SUPPLY)" "fst cp = 1 \<or> snd cp = 1"
    | "\<not> (fst cp \<le> GRAPHENE_MAX_SHARE_SUPPLY \<and> snd cp \<le> GRAPHENE_MAX_SHARE_SUPPLY)" "2 \<le> fst cp" "2 \<le> snd cp"
    using Suc.prems by linarith
  then show ?case
  proof cases
    case 1
    then show ?thesis using Suc.prems by (auto simp: in_share_range_def)
  next
    case 2
    then show ?thesis using make_in_range [OF ends(1)] make_in_range [OF ends(2)] by auto
  next
    case 3
    then obtain r where r: "rat_make L 128 (fst cp div 2) (snd cp div 2) = Some r"
      and b: "0 < fst r" "fst r \<le> fst cp div 2" "0 < snd r" "snd r \<le> snd cp div 2"
      using make_halved [of cp] Suc.prems by blast
    have "fits 128 (fst r)" "fits 128 (snd r)"
      using b Suc.prems by (auto intro: fits_le [of _ "fst cp"] fits_le [of _ "snd cp"])
    moreover have "fst r < 2 ^ fuel" using b Suc.prems by simp
    ultimately have "\<exists>cp' sh um. shrink_price L fuel r True = Some (cp', sh, um) \<and> in_share_range cp'"
      using b by (intro Suc.IH) auto
    then show ?thesis using 3 r by auto
  qed
qed

lemma refine_price_range:
  assumes "0 < fst ocp" "0 < snd ocp" "in_share_range cp"
  shows "\<exists>r. refine_price L ocp cp = Some r \<and> in_share_range r"
proof -
  let ?q = "\<lambda>a b. if tdiv a b > GRAPHENE_MAX_SHARE_SUPPLY then GRAPHENE_MAX_SHARE_SUPPLY else tdiv a b"
  have q: "0 < ?q a b" "?q a b \<le> GRAPHENE_MAX_SHARE_SUPPLY" if "0 < b" "b \<le> a" for a b
    using that pos_imp_zdiv_pos_iff [of b a] by (auto simp: chain_consts)
  define nd where "nd = (if fst ocp > snd ocp then (?q (fst ocp) (snd ocp), 1) else (1, ?q (snd ocp) (fst ocp)))"
  have "in_share_range nd"
    using q [of "snd ocp" "fst ocp"] q [of "fst ocp" "snd ocp"] assms
    by (auto simp: nd_def in_share_range_def chain_consts)
  then obtain r where "rat_make L 128 (fst nd) (snd nd) = Some r" "in_share_range r"
    using make_in_range [of "fst nd" "snd nd"] by auto
  then show ?thesis using assms(3)
    by (cases r; cases cp) (auto simp: refine_price_def nd_def [symmetric] Let_def split_beta)
qed

lemma scaled_price:
  assumes p: "price_ok p" and r: "ratio_ok r"
  obtains p128 r128 ocp where
    "rat_make L 128 (amount (base p)) (amount (quote p)) = Some p128"
    "rat_make L 128 (fst r) (snd r) = Some r128"
    "rat_mul L 128 p128 r128 = ocp" "0 < fst ocp" "0 < snd ocp"
    "fits 128 (fst ocp)" "fits 128 (snd ocp)"
    "fst ocp * (amount (quote p) * snd r) = amount (base p) * fst r * snd ocp"
proof -
  let ?b = "amount (base p)" and ?q = "amount (quote p)"
  have b: "0 < ?b" "?b < 2 ^ 63" "0 < ?q" "?q < 2 ^ 63" using p by (auto simp: price_ok_def)
  have r': "0 < fst r" "fst r < 2 ^ 31" "0 < snd r" "snd r < 2 ^ 31" using r by (auto simp: ratio_ok_def)
  obtain n1 d1 where pn: "Rat.normalize (?b, ?q) = (n1, d1)" by (cases "Rat.normalize (?b, ?q)")
  obtain n2 d2 where rn: "Rat.normalize r = (n2, d2)" by (cases "Rat.normalize r")
  have p1: "0 < n1" "n1 \<le> ?b" "0 < d1" "d1 \<le> ?q" using normalize_pos [OF b(1) b(3)] by (simp_all add: pn)
  have p2: "0 < n2" "n2 \<le> fst r" "0 < d2" "d2 \<le> snd r"
    using normalize_pos [OF r'(1) r'(3)] by (simp_all add: rn)
  have "n1 * n2 \<le> 2 ^ 63 * 2 ^ 31" by (intro mult_mono) (use p1 p2 b r' in auto)
  moreover have "d1 * d2 \<le> 2 ^ 63 * 2 ^ 31" by (intro mult_mono) (use p1 p2 b r' in auto)
  ultimately have f: "fits 128 (n1 * n2)" "fits 128 (d1 * d2)" using p1 p2 by (auto simp: fits_def abs_mult)
  define ocp where "ocp = Rat.normalize (n1 * n2, d1 * d2)"
  have o: "0 < fst ocp" "fst ocp \<le> n1 * n2" "0 < snd ocp" "snd ocp \<le> d1 * d2"
    using normalize_pos [of "n1 * n2" "d1 * d2"] p1 p2 by (simp_all add: ocp_def)
  have cross: "fst ocp * (d1 * d2) = n1 * n2 * snd ocp"
    using normalize_cross [of "d1 * d2" "n1 * n2"] p1 p2 by (simp add: ocp_def)
  have c1: "n1 * ?q = ?b * d1" using normalize_cross [of ?q ?b] b by (simp add: pn)
  have c2: "n2 * snd r = fst r * d2" using normalize_cross [of "snd r" "fst r"] r' by (simp add: rn)
  have "fst ocp * (?q * snd r) = ?b * fst r * snd ocp"
    using cross_product [OF cross c1 c2] p1 p2 by simp
  moreover have "rat_make L 128 ?b ?q = Some (n1, d1)" "rat_make L 128 (fst r) (snd r) = Some (n2, d2)"
    using b r' pn rn by (auto simp: rat_make fits_def)
  moreover have "rat_mul L 128 (n1, d1) (n2, d2) = ocp"
    using f normalize_lowest [of ?b ?q] normalize_lowest [of "fst r" "snd r"]
    by (simp add: rat_mul ocp_def pn rn)
  moreover have "fits 128 (fst ocp)" "fits 128 (snd ocp)" using f o by (auto intro: fits_le)
  ultimately show thesis using that o by blast
qed

lemma price_mul_ratio_steps:
  assumes p: "price_ok p" and r: "ratio_ok r" "fst r \<noteq> snd r"
  obtains ocp cp sh um where
    "fst ocp * (amount (quote p) * snd r) = amount (base p) * fst r * snd ocp"
    "in_share_range cp" "\<not> sh \<and> \<not> um \<longrightarrow> cp = ocp"
    "price_mul_ratio L p r =
      (let np = mk_price (mk_asset (fst cp) (asset_id (base p))) (mk_asset (snd cp) (asset_id (quote p)))
       in Some (if (sh \<or> um) \<and> ((fst r > snd r \<and> price_lt np p) \<or> (fst r < snd r \<and> price_gt np p))
                then p else np))"
proof -
  obtain p128 r128 ocp where o: "rat_make L 128 (amount (base p)) (amount (quote p)) = Some p128"
    "rat_make L 128 (fst r) (snd r) = Some r128" "rat_mul L 128 p128 r128 = ocp" "0 < fst ocp" "0 < snd ocp"
    "fits 128 (fst ocp)" "fits 128 (snd ocp)"
    "fst ocp * (amount (quote p) * snd r) = amount (base p) * fst r * snd ocp"
    using scaled_price [OF p r(1)] .
  have "fst ocp < 2 ^ rational_fuel" using o(6) by (simp add: fits_def rational_fuel_def)
  then obtain cp0 sh um where s: "shrink_price L rational_fuel ocp False = Some (cp0, sh, um)"
    and c0: "in_share_range cp0"
    using shrink_price_terminates [OF o(4-7)] by blast
  obtain cp where c: "(if sh then refine_price L ocp cp0 else Some cp0) = Some cp" "in_share_range cp"
    using refine_price_range [OF o(4,5) c0] c0 by (cases sh) auto
  have eq: "\<not> sh \<and> \<not> um \<longrightarrow> cp = ocp" using shrink_price_unchanged [OF s] c(1) by auto
  have s64: "s64 (fst cp) = fst cp" "s64 (snd cp) = snd cp"
    using c(2) by (auto simp: in_share_range_def chain_consts)
  define np where "np = mk_price (mk_asset (fst cp) (asset_id (base p))) (mk_asset (snd cp) (asset_id (quote p)))"
  define c where "c \<longleftrightarrow> (sh \<or> um) \<and> ((fst r > snd r \<and> price_lt np p) \<or> (fst r < snd r \<and> price_gt np p))"
  have ids: "asset_div (mk_asset (fst cp) (asset_id (base p))) (mk_asset (snd cp) (asset_id (quote p))) = Some np"
    using p by (simp add: price_ok_def asset_div_def np_def)
  have v: "price_validate p = Some ()" "price_validate (if c then p else np) = Some ()"
    using p c(2) by (auto simp: price_ok_def price_validate_def in_share_range_def np_def)
  have "price_mul_ratio L p r = Some (if c then p else np)"
    using r(2) ratio_pos [OF r(1)]
    by (simp only: price_mul_ratio_def v(1) o(1-3) Option.bind.bind_lunit fc_assert_True simp_thms
        if_False Let_def s prod.case c(1) s64 ids c_def [symmetric] v)
  then have "price_mul_ratio L p r =
      (let np = mk_price (mk_asset (fst cp) (asset_id (base p))) (mk_asset (snd cp) (asset_id (quote p)))
       in Some (if (sh \<or> um) \<and> ((fst r > snd r \<and> price_lt np p) \<or> (fst r < snd r \<and> price_gt np p))
                then p else np))"
    by (simp only: Let_def np_def c_def)
  with o(8) c(2) eq show thesis by (rule that)
qed

lemma mul_ratio_total:
  assumes p: "price_ok p" and r: "ratio_ok r"
  shows "\<exists>np. price_mul_ratio L p r = Some np \<and> price_ok np \<and>
    asset_id (base np) = asset_id (base p) \<and> asset_id (quote np) = asset_id (quote p) \<and>
    (snd r \<le> fst r \<longrightarrow> price_ge np p) \<and> (fst r \<le> snd r \<longrightarrow> price_le np p)"
proof (cases "fst r = snd r")
  case True
  then have "price_mul_ratio L p r = Some p"
    using ratio_pos [OF r] p by (simp add: price_mul_ratio_def price_ok_validate)
  then show ?thesis using p by (auto simp: price_le_def price_ge_def price_lt_iff_key)
next
  case False
  obtain ocp cp sh um where cross: "fst ocp * (amount (quote p) * snd r) = amount (base p) * fst r * snd ocp"
    and cp: "in_share_range cp" and eq: "\<not> sh \<and> \<not> um \<longrightarrow> cp = ocp"
    and res: "price_mul_ratio L p r =
      (let np = mk_price (mk_asset (fst cp) (asset_id (base p))) (mk_asset (snd cp) (asset_id (quote p)))
       in Some (if (sh \<or> um) \<and> ((fst r > snd r \<and> price_lt np p) \<or> (fst r < snd r \<and> price_gt np p))
                then p else np))"
    using price_mul_ratio_steps [OF p r False] .
  define np where "np = mk_price (mk_asset (fst cp) (asset_id (base p))) (mk_asset (snd cp) (asset_id (quote p)))"
  have ok: "price_ok np" using p cp by (auto simp: price_ok_def np_def in_share_range_def chain_consts)
  have dir: "(snd r \<le> fst r \<longrightarrow> \<not> price_lt np p) \<and> (fst r \<le> snd r \<longrightarrow> \<not> price_lt p np)" if "\<not> (sh \<or> um)"
    using exact_direction [OF p ok _ _ ratio_pos [OF r]] eq that cross
    by (auto simp: np_def)
  have refl: "\<not> price_lt p p" using p by (simp add: price_lt_iff_key)
  have ids: "asset_id (base np) = asset_id (base p)" "asset_id (quote np) = asset_id (quote p)"
    by (simp_all add: np_def)
  have "price_mul_ratio L p r = Some (if (sh \<or> um) \<and> ((fst r > snd r \<and> price_lt np p) \<or>
      (fst r < snd r \<and> price_gt np p)) then p else np)"
    unfolding res Let_def np_def ..
  then show ?thesis using False dir refl ok p ids by (auto simp: price_ge_def price_le_def price_gt_def)
qed

lemma halve_terminates:
  assumes half: "\<And>x. 0 < x \<Longrightarrow> 0 < half x \<and> half x \<le> x div 2 + 1"
    and "0 < fst cp" "0 < snd cp" "fits 128 (fst cp)" "fits 128 (snd cp)"
    and "fst cp - 2 < 2 ^ (62 + fuel)" "snd cp - 2 < 2 ^ (62 + fuel)"
  shows "\<exists>r. halve_price L half (Suc fuel) cp = Some r \<and> in_share_range r"
  using assms(2-)
proof (induction fuel arbitrary: cp)
  case 0
  then show ?case by (simp add: in_share_range_def chain_consts)
next
  case (Suc fuel)
  show ?case
  proof (cases "fst cp > GRAPHENE_MAX_SHARE_SUPPLY \<or> snd cp > GRAPHENE_MAX_SHARE_SUPPLY")
    case True
    have pos: "0 < half (fst cp)" "0 < half (snd cp)" using half Suc.prems by auto
    have le: "half (fst cp) \<le> fst cp div 2 + 1" "half (snd cp) \<le> snd cp div 2 + 1"
      using half Suc.prems by auto
    have f: "fits 128 (half (fst cp))" "fits 128 (half (snd cp))"
      using Suc.prems(3,4) pos le by (auto simp: fits_def)
    define r where "r = Rat.normalize (half (fst cp), half (snd cp))"
    have b: "0 < fst r" "fst r \<le> half (fst cp)" "0 < snd r" "snd r \<le> half (snd cp)"
      using normalize_pos [OF pos] by (simp_all add: r_def)
    have "fst r - 2 < 2 ^ (62 + fuel)" "snd r - 2 < 2 ^ (62 + fuel)"
      using b le Suc.prems(5,6) by (simp_all add: power_add)
    moreover have "fits 128 (fst r)" "fits 128 (snd r)" using b f by (auto intro: fits_le)
    ultimately have "\<exists>q. halve_price L half (Suc fuel) r = Some q \<and> in_share_range q"
      using b by (intro Suc.IH) auto
    then show ?thesis using True rat_make_pos [OF pos f] by (auto simp: r_def)
  next
    case False
    then show ?thesis using Suc.prems by (auto simp: in_share_range_def)
  qed
qed

lemma halve_enough:
  assumes "\<And>x. 0 < x \<Longrightarrow> 0 < half x \<and> half x \<le> x div 2 + 1"
    and "0 < fst cp" "0 < snd cp" "fits 128 (fst cp)" "fits 128 (snd cp)"
  shows "\<exists>r. halve_price L half rational_fuel cp = Some r \<and> in_share_range r"
proof -
  have "fst cp - 2 < 2 ^ (62 + 127)" "snd cp - 2 < 2 ^ (62 + 127)"
    using assms(4,5) by (auto simp: fits_def)
  then show ?thesis
    using halve_terminates [OF assms, of 127] by (simp add: rational_fuel_def)
qed

lemma call_price_range:
  assumes d: "0 < amount debt" "amount debt < 2 ^ 63"
    and c: "0 < amount collateral" "amount collateral < 2 ^ 63"
    and ids: "asset_id debt \<noteq> asset_id collateral" and k: "0 < k" "k < 2 ^ 16"
  shows "\<exists>p. call_price L debt collateral k = Some p \<and> price_ok p \<and>
    asset_id (base p) = asset_id collateral \<and> asset_id (quote p) = asset_id debt"
proof -
  let ?dc = "mk_price debt collateral" and ?r = "(k, GRAPHENE_COLLATERAL_RATIO_DENOM)"
  have ok: "price_ok ?dc" "ratio_ok ?r" using d c ids k by (simp_all add: price_ok_def ratio_ok_def chain_consts)
  obtain s t cp0 where m: "rat_make L 128 (amount (base ?dc)) (amount (quote ?dc)) = Some s"
    "rat_make L 128 (fst ?r) (snd ?r) = Some t" "rat_mul L 128 s t = cp0"
    and b: "0 < fst cp0" "0 < snd cp0" "fits 128 (fst cp0)" "fits 128 (snd cp0)"
    using scaled_price [OF ok] by metis
  obtain cp where cp: "halve_price L (\<lambda>x. x div 2 + 1) rational_fuel cp0 = Some cp" "in_share_range cp"
    using halve_enough [OF _ b, of "\<lambda>x. x div 2 + 1"] by auto
  have "s64 (fst cp) = fst cp" "s64 (snd cp) = snd cp"
    using cp(2) by (auto simp: in_share_range_def chain_consts)
  then show ?thesis
    using m cp ids
    by (auto simp: call_price_def asset_div_def price_ok_def in_share_range_def chain_consts)
qed

end

section \<open>Properties\<close>

text \<open>On valid prices \<^verbatim>\<open>operator <\<close> and \<^verbatim>\<open>operator ==\<close> of \<^verbatim>\<open>price\<close> are the linear order and
  the equality of the market (base type, quote type) followed by the exact rational value:
  the 128-bit cross products never wrap, so the order book is totally ordered.\<close>

theorem price_order_total:
  assumes "price_ok a" and "price_ok b"
  shows "(price_lt a b \<longleftrightarrow> price_key a < price_key b) \<and> (price_eq a b \<longleftrightarrow> price_key a = price_key b)"
  using assms by (simp add: price_lt_iff_key price_eq_iff_key)

theorem price_order_total_witness:
  "price_lt (mk_price (mk_asset 1 0) (mk_asset 9000000000000000000 1))
            (mk_price (mk_asset 9000000000000000000 0) (mk_asset 1 1))"
  using price_order_total
    [of "mk_price (mk_asset 1 0) (mk_asset 9000000000000000000 1)"
        "mk_price (mk_asset 9000000000000000000 0) (mk_asset 1 1)"]
  by (simp add: price_ok_def price_key_def Fract_less_iff)

text \<open>An exchange creates no value: converting \<open>x\<close> at a price rounds down to \<open>y\<close>; paying for
  \<open>y\<close> with \<^verbatim>\<open>multiply_and_round_up\<close> at the same price always succeeds, costs at most \<open>x\<close>, and
  what it costs still converts to exactly \<open>y\<close>. It holds for either side of the price.\<close>

theorem exchange_round_trip:
  assumes p: "price_ok p" and x: "share_ok x" and y: "asset_mul x p = Some y"
  shows "\<exists>x'. multiply_and_round_up y p = Some x' \<and> asset_id x' = asset_id x \<and>
           amount x' \<le> amount x \<and> asset_mul x' p = Some y"
proof (cases "asset_id x = asset_id (base p)")
  case True
  then show ?thesis using round_trip_base [OF p x _ y] by blast
next
  case False
  with y have q: "asset_id x = asset_id (base (price_invert p))"
    by (auto simp: asset_mul_def split: if_splits)
  show ?thesis
    using round_trip_base [of "price_invert p", OF _ x q] p y by (simp add: asset_mul_invert round_up_invert)
qed

theorem exchange_round_trip_witness:
  "\<exists>x'. multiply_and_round_up (mk_asset 6 1) (mk_price (mk_asset 3 0) (mk_asset 2 1)) = Some x' \<and>
     asset_id x' = 0 \<and> amount x' \<le> 10 \<and>
     asset_mul x' (mk_price (mk_asset 3 0) (mk_asset 2 1)) = Some (mk_asset 6 1)"
  using exchange_round_trip [of "mk_price (mk_asset 3 0) (mk_asset 2 1)" "mk_asset 10 0" "mk_asset 6 1"]
  by (simp add: price_ok_def share_ok_def asset_mul_def chain_consts)

text \<open>Scaling a valid price by a positive ratio (\<^verbatim>\<open>operator *\<close>) always returns: the halving
  loop ends within its fuel, no exception is thrown, the result is a valid price of the same
  market, and it moved in the direction of the ratio (a ratio of at least one never lowers a
  price, one of at most one never raises it), whatever the overflow behaviour of the
  unchecked accuracy comparison.\<close>

theorem price_scaling_total:
  assumes "boost_rational L" and "price_ok p" and "ratio_ok r"
  shows "\<exists>np. price_mul_ratio L p r = Some np \<and> price_ok np \<and>
    asset_id (base np) = asset_id (base p) \<and> asset_id (quote np) = asset_id (quote p) \<and>
    (snd r \<le> fst r \<longrightarrow> price_ge np p) \<and> (fst r \<le> snd r \<longrightarrow> price_le np p)"
  using assms by (rule boost_rational.mul_ratio_total)

theorem price_scaling_total_witness:
  "\<exists>np. price_mul_ratio checked_lib (mk_price (mk_asset 9000000000000000000 0) (mk_asset 7 1)) (1750, 1000) = Some np
     \<and> price_ok np \<and> price_ge np (mk_price (mk_asset 9000000000000000000 0) (mk_asset 7 1))"
  using price_scaling_total [OF checked_lib_rational,
      of "mk_price (mk_asset 9000000000000000000 0) (mk_asset 7 1)" "(1750, 1000)"]
  by (auto simp: price_ok_def ratio_ok_def)

text \<open>\<^verbatim>\<open>price::call_price\<close> returns for every positive debt and collateral and every positive
  collateral ratio: its loop ends, and the result is a valid price of collateral in debt.\<close>

theorem call_price_total:
  assumes "boost_rational L"
    and "0 < amount debt" "amount debt < 2 ^ 63" "0 < amount collateral" "amount collateral < 2 ^ 63"
    and "asset_id debt \<noteq> asset_id collateral" "0 < k" "k < 2 ^ 16"
  shows "\<exists>p. call_price L debt collateral k = Some p \<and> price_ok p \<and>
    asset_id (base p) = asset_id collateral \<and> asset_id (quote p) = asset_id debt"
  using assms by (rule boost_rational.call_price_range)

theorem call_price_total_witness:
  "\<exists>p. call_price checked_lib (mk_asset 9223372036854775807 1) (mk_asset 9223372036854775805 0) 1750 = Some p \<and> price_ok p"
  using call_price_total [OF checked_lib_rational,
      of "mk_asset 9223372036854775807 1" "mk_asset 9223372036854775805 0" 1750]
  by auto

end
