(* ===== verification/Object_Id.thy ===== *)
theory Object_Id
  imports Prelude "HOL-Library.Word"
begin

unbundle bit_operations_syntax

text \<open>
  The packed identifiers of database objects,
  \<^verbatim>\<open>libraries/protocol/include/graphene/protocol/object_id.hpp\<close>: 8 bits of space, 8 bits of
  type and 48 bits of instance in one 64-bit word. The other theories use the triple
  (space, type, instance) or the instance alone; the lemmas here justify it.
\<close>

definition oid_make :: "8 word \<Rightarrow> 8 word \<Rightarrow> 64 word \<Rightarrow> 64 word option" where
  "oid_make s t i = do {
     fc_assert (drop_bit 48 i = 0);
     Some (push_bit 56 (ucast s) OR push_bit 48 (ucast t) OR i)
   }"

definition oid_space :: "64 word \<Rightarrow> 8 word" where
  "oid_space n = ucast (drop_bit 56 n)"

definition oid_type :: "64 word \<Rightarrow> 8 word" where
  "oid_type n = ucast (drop_bit 48 n AND 0xff)"

definition oid_instance :: "64 word \<Rightarrow> 64 word" where
  "oid_instance n = n AND mask 48"

definition oid_plus :: "64 word \<Rightarrow> 64 word \<Rightarrow> 64 word option" where
  "oid_plus a delta = oid_make (oid_space a) (oid_type a) (oid_instance a + delta)"

lemma oid_instance_bits:
  assumes "oid_make s t i = Some n" "48 \<le> m"
  shows "\<not> bit i m"
proof
  assume "bit i m"
  then have "bit (drop_bit 48 i) (m - 48)" using assms(2) by (simp add: bit_simps)
  moreover have "drop_bit 48 i = 0" using assms(1) by (simp add: oid_make_def)
  ultimately show False by simp
qed

lemma oid_bits:
  assumes "oid_make s t i = Some n" "m < 64"
  shows "bit n m \<longleftrightarrow> (if m < 48 then bit i m else if m < 56 then bit t (m - 48) else bit s (m - 56))"
proof -
  have n: "n = push_bit 56 (ucast s) OR push_bit 48 (ucast t) OR i"
    using assms(1) by (simp add: oid_make_def)
  show ?thesis
    using oid_instance_bits [OF assms(1)] assms(2) by (auto simp: n bit_simps dest: bit_imp_le_length)
qed

lemma low_byte: "(0xff :: 64 word) = mask 8"
  by (simp add: mask_eq_exp_minus_1)

text \<open>Packing an object identifier loses nothing: whenever the constructor accepts the
  instance number, space, type and instance are read back from the packed word.\<close>

theorem oid_round_trip:
  assumes "oid_make s t i = Some n"
  shows "oid_space n = s \<and> oid_type n = t \<and> oid_instance n = i"
proof (intro conjI)
  show "oid_space n = s"
    by (rule bit_word_eqI) (auto simp: oid_space_def bit_simps oid_bits [OF assms])
  show "oid_type n = t"
    by (rule bit_word_eqI) (auto simp: oid_type_def low_byte bit_simps oid_bits [OF assms])
  show "oid_instance n = i"
    by (rule bit_word_eqI)
      (auto simp: oid_instance_def bit_simps oid_bits [OF assms] oid_instance_bits [OF assms])
qed

theorem oid_round_trip_witness:
  "oid_space (0x0102000000000005 :: 64 word) = 1 \<and> oid_type (0x0102000000000005 :: 64 word) = 2 \<and>
   oid_instance (0x0102000000000005 :: 64 word) = 5"
proof -
  have "oid_make 1 2 5 = Some 0x0102000000000005"
    by (simp add: oid_make_def)
  then show ?thesis by (rule oid_round_trip)
qed

end
