(* ===== verification/Undo_Database.thy ===== *)
theory Undo_Database
  imports Prelude "HOL-Library.AList"
begin

text \<open>
  The object database with multi-level rollback: \<^verbatim>\<open>libraries/db/undo_database.cpp\<close>,
  \<^verbatim>\<open>libraries/db/object_database.cpp\<close>, \<^verbatim>\<open>libraries/db/index.cpp\<close> and the index templates
  \<^verbatim>\<open>generic_index.hpp\<close>, \<^verbatim>\<open>index.hpp\<close> under \<^verbatim>\<open>libraries/db/include/graphene/db/\<close>.

  The objects of all indexes are one map from identifiers (space, type, instance) to
  values; every index, named by its identifier with instance 0, has its next identifier.
  The hash maps of an undo state are association lists, so the loops over them compute;
  the order of a list stands for the unspecified iteration order and no theorem depends
  on it. The deque of undo states is a list whose head is its back. Observers and
  secondary indexes are told of changes and change nothing here.

  The theorems: undoing a session gives back every object and every next identifier
  whatever was created, modified and removed in it, and merging two sessions is the
  composition of the two (the 4x4 matrix in the comments of \<^verbatim>\<open>undo_database::merge\<close>).
\<close>

section \<open>State\<close>

datatype oid = Oid (id_space: nat) (id_type: nat) (id_instance: nat)

definition index_of :: "oid \<Rightarrow> oid" where
  "index_of i = Oid (id_space i) (id_type i) 0"

definition oid_succ :: "oid \<Rightarrow> oid" where
  "oid_succ i = Oid (id_space i) (id_type i) (Suc (id_instance i))"

record 'o undo_state =
  old_values :: "(oid \<times> 'o) list"
  old_index_next_ids :: "(oid \<times> oid) list"
  new_ids :: "oid list"
  removed_values :: "(oid \<times> 'o) list"

definition empty_undo_state :: "'o undo_state" where
  "empty_undo_state = \<lparr>old_values = [], old_index_next_ids = [], new_ids = [], removed_values = []\<rparr>"

record 'o undo_database =
  objects :: "oid \<rightharpoonup> 'o"
  next_ids :: "oid \<rightharpoonup> oid"
  undo_stack :: "'o undo_state list"
  active_sessions :: nat
  undo_disabled :: bool
  max_undo_size :: nat

record session =
  apply_undo :: bool
  disable_on_exit :: bool

definition undo_enable :: "'o undo_database \<Rightarrow> 'o undo_database" where
  "undo_enable d = d\<lparr>undo_disabled := False\<rparr>"

definition undo_disable :: "'o undo_database \<Rightarrow> 'o undo_database" where
  "undo_disable d = d\<lparr>undo_disabled := True\<rparr>"

section \<open>Recording changes\<close>

text \<open>\<^verbatim>\<open>if( _stack.empty() ) _stack.emplace_back(); auto& state = _stack.back();\<close> and an update of
  that state.\<close>

definition on_back :: "('o undo_state \<Rightarrow> 'o undo_state) \<Rightarrow> 'o undo_database \<Rightarrow> 'o undo_database" where
  "on_back f d =
     (case undo_stack d of
        [] \<Rightarrow> d\<lparr>undo_stack := [f empty_undo_state]\<rparr>
      | st # rest \<Rightarrow> d\<lparr>undo_stack := f st # rest\<rparr>)"

definition record_create :: "oid \<Rightarrow> 'o undo_state \<Rightarrow> 'o undo_state" where
  "record_create i st =
     st\<lparr>old_index_next_ids :=
          (if map_of (old_index_next_ids st) (index_of i) = None
           then AList.update (index_of i) i (old_index_next_ids st) else old_index_next_ids st),
        new_ids := List.insert i (new_ids st)\<rparr>"

definition record_modify :: "oid \<Rightarrow> 'o \<Rightarrow> 'o undo_state \<Rightarrow> 'o undo_state" where
  "record_modify i v st =
     (if i \<in> set (new_ids st) then st
      else if map_of (old_values st) i \<noteq> None then st
      else st\<lparr>old_values := AList.update i v (old_values st)\<rparr>)"

definition record_remove :: "oid \<Rightarrow> 'o \<Rightarrow> 'o undo_state \<Rightarrow> 'o undo_state" where
  "record_remove i v st =
     (if i \<in> set (new_ids st) then st\<lparr>new_ids := removeAll i (new_ids st)\<rparr>
      else case map_of (old_values st) i of
        Some w \<Rightarrow> st\<lparr>removed_values := AList.update i w (removed_values st),
                     old_values := AList.delete i (old_values st)\<rparr>
      | None \<Rightarrow>
          if map_of (removed_values st) i \<noteq> None then st
          else st\<lparr>removed_values := AList.update i v (removed_values st)\<rparr>)"

definition on_create :: "oid \<Rightarrow> 'o undo_database \<Rightarrow> 'o undo_database" where
  "on_create i d = (if undo_disabled d then d else on_back (record_create i) d)"

definition on_modify :: "oid \<Rightarrow> 'o \<Rightarrow> 'o undo_database \<Rightarrow> 'o undo_database" where
  "on_modify i v d = (if undo_disabled d then d else on_back (record_modify i v) d)"

definition on_remove :: "oid \<Rightarrow> 'o \<Rightarrow> 'o undo_database \<Rightarrow> 'o undo_database" where
  "on_remove i v d = (if undo_disabled d then d else on_back (record_remove i v) d)"

section \<open>The object database\<close>

definition get_object :: "oid \<Rightarrow> 'o undo_database \<Rightarrow> 'o option" where
  "get_object i d = do {
     fc_assert (next_ids d (index_of i) \<noteq> None);
     objects d i
   }"

definition db_create :: "oid \<Rightarrow> (oid \<Rightarrow> 'o) \<Rightarrow> 'o undo_database \<Rightarrow> (oid \<times> 'o undo_database) option" where
  "db_create idx constructor d = do {
     i \<leftarrow> next_ids d idx;
     fc_assert (objects d i = None);
     Some (i, on_create i (d\<lparr>objects := (objects d)(i \<mapsto> constructor i),
                              next_ids := (next_ids d)(idx \<mapsto> oid_succ i)\<rparr>))
   }"

definition db_insert :: "oid \<Rightarrow> 'o \<Rightarrow> 'o undo_database \<Rightarrow> 'o undo_database option" where
  "db_insert i v d = do {
     fc_assert (next_ids d (index_of i) \<noteq> None);
     fc_assert (objects d i = None);
     Some (on_create i (d\<lparr>objects := (objects d)(i \<mapsto> v)\<rparr>))
   }"

definition db_modify :: "oid \<Rightarrow> ('o \<Rightarrow> 'o) \<Rightarrow> 'o undo_database \<Rightarrow> 'o undo_database option" where
  "db_modify i m d = do {
     v \<leftarrow> get_object i d;
     let d' = on_modify i v d;
     Some (d'\<lparr>objects := (objects d')(i \<mapsto> m v)\<rparr>)
   }"

definition db_remove :: "oid \<Rightarrow> 'o undo_database \<Rightarrow> 'o undo_database option" where
  "db_remove i d = do {
     v \<leftarrow> get_object i d;
     let d' = on_remove i v d;
     Some (d'\<lparr>objects := (objects d')(i := None)\<rparr>)
   }"

definition set_next_id :: "oid \<Rightarrow> oid \<Rightarrow> 'o undo_database \<Rightarrow> 'o undo_database option" where
  "set_next_id idx i d = do {
     fc_assert (next_ids d idx \<noteq> None);
     Some (d\<lparr>next_ids := (next_ids d)(idx \<mapsto> i)\<rparr>)
   }"

section \<open>Sessions\<close>

text \<open>\<^verbatim>\<open>while( size() > max_size() ) _stack.pop_front();\<close>\<close>

function trim_stack :: "nat \<Rightarrow> 'a list \<Rightarrow> 'a list" where
  "trim_stack m st = (if length st > m then trim_stack m (butlast st) else st)"
  by pat_completeness auto
termination
  by (relation "measure (\<lambda>(m, st). length st)") auto

declare trim_stack.simps [simp del]

definition start_undo_session :: "bool \<Rightarrow> 'o undo_database \<Rightarrow> session \<times> 'o undo_database" where
  "start_undo_session force_enable d =
     (if undo_disabled d \<and> \<not> force_enable then (\<lparr>apply_undo = True, disable_on_exit = False\<rparr>, d)
      else
        (\<lparr>apply_undo = True, disable_on_exit = undo_disabled d \<and> force_enable\<rparr>,
         d\<lparr>undo_disabled := (if force_enable then False else undo_disabled d),
           undo_stack := empty_undo_state # trim_stack (max_undo_size d) (undo_stack d),
           active_sessions := active_sessions d + 1\<rparr>))"

text \<open>The four loops that \<^verbatim>\<open>undo()\<close> and \<^verbatim>\<open>pop_commit()\<close> share.\<close>

fun restore_old_values :: "(oid \<times> 'o) list \<Rightarrow> 'o undo_database \<Rightarrow> 'o undo_database option" where
  "restore_old_values [] d = Some d"
| "restore_old_values ((i, v) # xs) d = do {
     d' \<leftarrow> db_modify i (\<lambda>_. v) d;
     restore_old_values xs d'
   }"

fun remove_new_ids :: "oid list \<Rightarrow> 'o undo_database \<Rightarrow> 'o undo_database option" where
  "remove_new_ids [] d = Some d"
| "remove_new_ids (i # xs) d = do {
     d' \<leftarrow> db_remove i d;
     remove_new_ids xs d'
   }"

fun restore_next_ids :: "(oid \<times> oid) list \<Rightarrow> 'o undo_database \<Rightarrow> 'o undo_database option" where
  "restore_next_ids [] d = Some d"
| "restore_next_ids ((idx, i) # xs) d = do {
     d' \<leftarrow> set_next_id idx i d;
     restore_next_ids xs d'
   }"

fun reinsert_removed :: "(oid \<times> 'o) list \<Rightarrow> 'o undo_database \<Rightarrow> 'o undo_database option" where
  "reinsert_removed [] d = Some d"
| "reinsert_removed ((i, v) # xs) d = do {
     d' \<leftarrow> db_insert i v d;
     reinsert_removed xs d'
   }"

definition revert_state :: "'o undo_state \<Rightarrow> 'o undo_database \<Rightarrow> 'o undo_database option" where
  "revert_state st d = do {
     d1 \<leftarrow> restore_old_values (old_values st) d;
     d2 \<leftarrow> remove_new_ids (new_ids st) d1;
     d3 \<leftarrow> restore_next_ids (old_index_next_ids st) d2;
     reinsert_removed (removed_values st) d3
   }"

definition undo :: "'o undo_database \<Rightarrow> 'o undo_database option" where
  "undo d = do {
     fc_assert (\<not> undo_disabled d);
     fc_assert (active_sessions d > 0);
     case undo_stack d of
       [] \<Rightarrow> None
     | st # rest \<Rightarrow> do {
         d' \<leftarrow> revert_state st (undo_disable d);
         let d'' = undo_enable (d'\<lparr>undo_stack := rest\<rparr>);
         Some (d''\<lparr>active_sessions := active_sessions d'' - 1\<rparr>)
       }
   }"

text \<open>The three loops of \<^verbatim>\<open>merge()\<close> over the newer state \<open>B\<close>, into the older one.\<close>

fun merge_old_values :: "(oid \<times> 'o) list \<Rightarrow> 'o undo_state \<Rightarrow> 'o undo_state" where
  "merge_old_values [] A = A"
| "merge_old_values ((i, v) # xs) A =
     merge_old_values xs
       (if i \<in> set (new_ids A) then A
        else if map_of (old_values A) i \<noteq> None then A
        else A\<lparr>old_values := AList.update i v (old_values A)\<rparr>)"

fun merge_next_ids :: "(oid \<times> oid) list \<Rightarrow> 'o undo_state \<Rightarrow> 'o undo_state" where
  "merge_next_ids [] A = A"
| "merge_next_ids ((idx, i) # xs) A =
     merge_next_ids xs
       (if map_of (old_index_next_ids A) idx = None
        then A\<lparr>old_index_next_ids := AList.update idx i (old_index_next_ids A)\<rparr> else A)"

fun merge_removed :: "(oid \<times> 'o) list \<Rightarrow> 'o undo_state \<Rightarrow> 'o undo_state" where
  "merge_removed [] A = A"
| "merge_removed ((i, v) # xs) A =
     merge_removed xs
       (if i \<in> set (new_ids A) then A\<lparr>new_ids := removeAll i (new_ids A)\<rparr>
        else case map_of (old_values A) i of
          Some w \<Rightarrow> A\<lparr>removed_values := AList.update i w (removed_values A),
                     old_values := AList.delete i (old_values A)\<rparr>
        | None \<Rightarrow> A\<lparr>removed_values := AList.update i v (removed_values A)\<rparr>)"

definition merge_states :: "'o undo_state \<Rightarrow> 'o undo_state \<Rightarrow> 'o undo_state" where
  "merge_states A B =
     (let A1 = merge_old_values (old_values B) A;
          A2 = A1\<lparr>new_ids := fold List.insert (new_ids B) (new_ids A1)\<rparr>;
          A3 = merge_next_ids (old_index_next_ids B) A2
      in merge_removed (removed_values B) A3)"

definition merge :: "'o undo_database \<Rightarrow> 'o undo_database option" where
  "merge d = do {
     fc_assert (active_sessions d > 0);
     if active_sessions d = 1 \<and> length (undo_stack d) = 1
     then Some (d\<lparr>undo_stack := [], active_sessions := active_sessions d - 1\<rparr>)
     else do {
       fc_assert (length (undo_stack d) \<ge> 2);
       case undo_stack d of
         B # A # rest \<Rightarrow>
           Some (d\<lparr>undo_stack := merge_states A B # rest, active_sessions := active_sessions d - 1\<rparr>)
       | _ \<Rightarrow> None
     }
   }"

definition commit :: "'o undo_database \<Rightarrow> 'o undo_database option" where
  "commit d = do {
     fc_assert (active_sessions d > 0);
     Some (d\<lparr>active_sessions := active_sessions d - 1\<rparr>)
   }"

definition pop_commit :: "'o undo_database \<Rightarrow> 'o undo_database option" where
  "pop_commit d = do {
     fc_assert (active_sessions d = 0);
     fc_assert (undo_stack d \<noteq> []);
     case undo_stack d of
       [] \<Rightarrow> None
     | st # rest \<Rightarrow> do {
         d' \<leftarrow> revert_state st (undo_disable d);
         Some (undo_enable (d'\<lparr>undo_stack := rest\<rparr>))
       }
   }"

definition session_commit :: "session \<Rightarrow> 'o undo_database \<Rightarrow> (session \<times> 'o undo_database) option" where
  "session_commit s d = do {
     d' \<leftarrow> commit d;
     Some (s\<lparr>apply_undo := False\<rparr>, d')
   }"

definition session_undo :: "session \<Rightarrow> 'o undo_database \<Rightarrow> (session \<times> 'o undo_database) option" where
  "session_undo s d = do {
     d' \<leftarrow> (if apply_undo s then undo d else Some d);
     Some (s\<lparr>apply_undo := False\<rparr>, d')
   }"

definition session_merge :: "session \<Rightarrow> 'o undo_database \<Rightarrow> (session \<times> 'o undo_database) option" where
  "session_merge s d = do {
     d' \<leftarrow> (if apply_undo s then merge d else Some d);
     Some (s\<lparr>apply_undo := False\<rparr>, d')
   }"

text \<open>\<^verbatim>\<open>session::~session\<close>: an exception in \<^verbatim>\<open>undo()\<close> terminates the process.\<close>

definition session_destroy :: "session \<Rightarrow> 'o undo_database \<Rightarrow> 'o undo_database option" where
  "session_destroy s d = do {
     d' \<leftarrow> (if apply_undo s then undo d else Some d);
     Some (if disable_on_exit s then undo_disable d' else d')
   }"

section \<open>What an undo state says of an object\<close>

text \<open>The relationship of an object to an undo state, as the comments of \<^verbatim>\<open>merge()\<close> name it.\<close>

datatype 'o change = Nop | New | Upd 'o | Del 'o

definition change_of :: "'o undo_state \<Rightarrow> oid \<Rightarrow> 'o change" where
  "change_of st i =
     (if i \<in> set (new_ids st) then New
      else case map_of (old_values st) i of
        Some v \<Rightarrow> Upd v
      | None \<Rightarrow> (case map_of (removed_values st) i of Some v \<Rightarrow> Del v | None \<Rightarrow> Nop))"

fun change_ok :: "'o change \<Rightarrow> 'o option \<Rightarrow> 'o option \<Rightarrow> bool" where
  "change_ok Nop cur old \<longleftrightarrow> cur = old"
| "change_ok New cur old \<longleftrightarrow> cur \<noteq> None \<and> old = None"
| "change_ok (Upd v) cur old \<longleftrightarrow> cur \<noteq> None \<and> old = Some v"
| "change_ok (Del v) cur old \<longleftrightarrow> cur = None \<and> old = Some v"

definition disjoint_state :: "'o undo_state \<Rightarrow> bool" where
  "disjoint_state st \<longleftrightarrow>
     distinct (map fst (old_values st)) \<and> distinct (map fst (removed_values st)) \<and>
     distinct (map fst (old_index_next_ids st)) \<and> distinct (new_ids st) \<and>
     (\<forall>i. i \<in> set (new_ids st) \<longrightarrow> map_of (old_values st) i = None \<and> map_of (removed_values st) i = None) \<and>
     (\<forall>i. map_of (old_values st) i \<noteq> None \<longrightarrow> map_of (removed_values st) i = None)"

definition next_ok :: "oid option \<Rightarrow> oid option \<Rightarrow> oid option \<Rightarrow> bool" where
  "next_ok saved cur old \<longleftrightarrow>
     (case saved of None \<Rightarrow> cur = old | Some n \<Rightarrow> old = Some n \<and> cur \<noteq> None)"

text \<open>\<open>undoes st d b\<close>: the undo state \<open>st\<close> leads from the database \<open>d\<close> back to \<open>b\<close>, and the
  identifiers that are new in it were handed out after \<open>b\<close>.\<close>

definition handed_out_after :: "'o undo_database \<Rightarrow> oid \<Rightarrow> bool" where
  "handed_out_after b i \<longleftrightarrow> (\<exists>n. next_ids b (index_of i) = Some n \<and> id_instance n \<le> id_instance i)"

definition undoes :: "'o undo_state \<Rightarrow> 'o undo_database \<Rightarrow> 'o undo_database \<Rightarrow> bool" where
  "undoes st d b \<longleftrightarrow> disjoint_state st \<and>
     (\<forall>i. change_ok (change_of st i) (objects d i) (objects b i)) \<and>
     (\<forall>i. change_of st i = New \<longrightarrow> handed_out_after b i) \<and>
     (\<forall>idx. next_ok (map_of (old_index_next_ids st) idx) (next_ids d idx) (next_ids b idx))"

text \<open>Identifiers are handed out in increasing order and never reused.\<close>

definition fresh_ids :: "'o undo_database \<Rightarrow> bool" where
  "fresh_ids d \<longleftrightarrow>
     (\<forall>i. objects d i \<noteq> None \<longrightarrow>
        (\<exists>n. next_ids d (index_of i) = Some n \<and> id_instance i < id_instance n)) \<and>
     (\<forall>idx n. next_ids d idx = Some n \<longrightarrow> index_of n = idx)"

definition next_mono :: "'o undo_database \<Rightarrow> 'o undo_database \<Rightarrow> bool" where
  "next_mono b d \<longleftrightarrow>
     (\<forall>idx n. next_ids b idx = Some n \<longrightarrow> (\<exists>m. next_ids d idx = Some m \<and> id_instance n \<le> id_instance m))"

named_theorems undo_defs
lemmas [undo_defs] = undoes_def disjoint_state_def change_of_def next_ok_def

declare map_of_eq_Some_iff [simp del] Some_eq_map_of_iff [simp del]

lemma update_conv_fun [simp]: "map_of (AList.update k v al) = (map_of al)(k \<mapsto> v)"
  by (rule AList.update_conv')

lemma delete_conv_fun [simp]: "map_of (AList.delete k al) = (map_of al)(k := None)"
  by (rule AList.delete_conv')

lemma index_of_idem [simp]: "index_of (index_of i) = index_of i"
  by (simp add: index_of_def)

lemma index_of_succ [simp]: "index_of (oid_succ i) = index_of i" "id_instance (oid_succ i) = Suc (id_instance i)"
  by (simp_all add: index_of_def oid_succ_def)

lemma oid_eqI: "index_of i = index_of j \<Longrightarrow> id_instance i = id_instance j \<Longrightarrow> i = j"
  by (cases i; cases j) (auto simp: index_of_def)

section \<open>Recording keeps the way back\<close>

lemma undoes_change: "undoes st d b \<Longrightarrow> change_ok (change_of st i) (objects d i) (objects b i)"
  by (simp add: undoes_def)

lemma undoes_New: "undoes st d b \<Longrightarrow> change_of st i = New \<Longrightarrow> handed_out_after b i"
  by (simp add: undoes_def)

lemma undoes_next: "undoes st d b \<Longrightarrow> next_ok (map_of (old_index_next_ids st) idx) (next_ids d idx) (next_ids b idx)"
  by (simp add: undoes_def)

lemma undoes_empty: "objects d = objects b \<Longrightarrow> next_ids d = next_ids b \<Longrightarrow> undoes empty_undo_state d b"
  by (simp add: undo_defs empty_undo_state_def)

text \<open>An identifier that is not handed out yet had no object.\<close>

lemma handed_out_after_mono: "handed_out_after d i \<Longrightarrow> next_mono b d \<Longrightarrow> fresh_ids b \<Longrightarrow> objects b i = None"
  by (cases "objects b i") (fastforce simp: fresh_ids_def next_mono_def handed_out_after_def)+

lemma fresh_not_deleted:
  assumes "undoes st d b" "fresh_ids b" "next_mono b d" "next_ids d (index_of i) = Some i" "objects d i = None"
  shows "change_of st i = Nop"
proof -
  have "objects b i = None"
    using assms by (intro handed_out_after_mono [of d]) (auto simp: handed_out_after_def)
  then show ?thesis
    using undoes_change [OF assms(1), of i] assms(5) by (cases "change_of st i") auto
qed

lemma undoes_step:
  assumes "undoes st d b" "disjoint_state st'"
    and "\<And>j. j \<noteq> i \<Longrightarrow> change_of st' j = change_of st j"
    and "objects d' = (objects d)(i := x)" "change_ok (change_of st' i) x (objects b i)"
    and "change_of st' i = New \<Longrightarrow> handed_out_after b i"
    and "\<And>idx. next_ok (map_of (old_index_next_ids st') idx) (next_ids d' idx) (next_ids b idx)"
  shows "undoes st' d' b"
proof -
  have "change_of st' j = New \<longrightarrow> handed_out_after b j" for j
    using assms(1,3,6) by (cases "j = i") (auto simp: undoes_def)
  then show ?thesis using assms by (simp add: undoes_def)
qed

lemma change_of_create: "change_of (record_create i st) j = (if j = i then New else change_of st j)"
  by (cases "map_of (old_index_next_ids st) (index_of i)")
    (auto simp: change_of_def record_create_def split: option.splits)

lemma change_of_NopD:
  "change_of st i = Nop \<Longrightarrow>
     i \<notin> set (new_ids st) \<and> map_of (old_values st) i = None \<and> map_of (removed_values st) i = None"
  by (auto simp: change_of_def split: if_splits option.splits)

lemma disjoint_create: "disjoint_state st \<Longrightarrow> change_of st i = Nop \<Longrightarrow> disjoint_state (record_create i st)"
  using change_of_NopD [of st i] by (auto simp: disjoint_state_def record_create_def distinct_update)

lemma change_of_modify:
  "change_of st i \<noteq> New \<Longrightarrow> \<nexists>w. change_of st i = Del w \<Longrightarrow> change_of (record_modify i v st) j =
     (if j = i \<and> change_of st i = Nop then Upd v else change_of st j)"
  by (auto simp: change_of_def record_modify_def split: if_splits option.splits)

lemma change_of_modify_New: "change_of st i = New \<Longrightarrow> record_modify i v st = st"
  by (auto simp: change_of_def record_modify_def split: if_splits option.splits)

lemma disjoint_modify:
  "disjoint_state st \<Longrightarrow> \<nexists>w. change_of st i = Del w \<Longrightarrow> disjoint_state (record_modify i v st)"
  by (auto simp: disjoint_state_def record_modify_def change_of_def distinct_update split: if_splits option.splits)

text \<open>What a removal turns each change into (\<open>v\<close> is the object as it was just before).\<close>

fun remove_change :: "'o \<Rightarrow> 'o change \<Rightarrow> 'o change" where
  "remove_change v Nop = Del v"
| "remove_change v New = Nop"
| "remove_change v (Upd w) = Del w"
| "remove_change v (Del w) = Del w"

lemma change_of_remove:
  "disjoint_state st \<Longrightarrow>
     change_of (record_remove i v st) j = (if j = i then remove_change v (change_of st i) else change_of st j)"
  by (cases "i \<in> set (new_ids st)"; cases "map_of (old_values st) i"; cases "map_of (removed_values st) i"; cases "j = i")
    (simp_all add: change_of_def record_remove_def disjoint_state_def split: option.splits)

lemma disjoint_remove: "disjoint_state st \<Longrightarrow> disjoint_state (record_remove i v st)"
  by (auto simp: disjoint_state_def record_remove_def distinct_update distinct_delete distinct_removeAll
      split: option.splits)

lemma record_next_ids [simp]:
  "old_index_next_ids (record_modify i v st) = old_index_next_ids st"
  "old_index_next_ids (record_remove i v st) = old_index_next_ids st"
  by (simp_all add: record_modify_def record_remove_def split: option.splits)

lemma undoes_create:
  assumes "undoes st d b" "change_of st i = Nop" "objects d i = None" "next_ids d (index_of i) = Some i"
    and "handed_out_after b i"
    and "objects d' = (objects d)(i \<mapsto> v)" "next_ids d' = (next_ids d)(index_of i \<mapsto> k)"
  shows "undoes (record_create i st) d' b"
proof (rule undoes_step [OF assms(1)])
  show "disjoint_state (record_create i st)" using assms(1,2) by (simp add: disjoint_create undoes_def)
  show "change_ok (change_of (record_create i st) i) (Some v) (objects b i)"
    using undoes_change [OF assms(1), of i] assms(2,3) by (simp add: change_of_create)
  show "next_ok (map_of (old_index_next_ids (record_create i st)) idx) (next_ids d' idx) (next_ids b idx)" for idx
    using undoes_next [OF assms(1), of idx] assms(4,7)
    by (auto simp: record_create_def next_ok_def split: option.splits)
qed (use assms in \<open>auto simp: change_of_create\<close>)

lemma undoes_modify:
  assumes "undoes st d b" "objects d i = Some v" "objects d' = (objects d)(i \<mapsto> w)" "next_ids d' = next_ids d"
  shows "undoes (record_modify i v st) d' b"
proof (rule undoes_step [OF assms(1)])
  have ok: "change_ok (change_of st i) (Some v) (objects b i)"
    using undoes_change [OF assms(1), of i] assms(2) by simp
  then have nd: "\<nexists>w. change_of st i = Del w" by auto
  show "disjoint_state (record_modify i v st)" using assms(1) nd by (simp add: disjoint_modify undoes_def)
  show "change_of (record_modify i v st) j = change_of st j" if "j \<noteq> i" for j
    using that nd by (cases "change_of st i = New") (simp_all add: change_of_modify change_of_modify_New)
  show "change_ok (change_of (record_modify i v st) i) (Some w) (objects b i)"
    using ok nd by (cases "change_of st i") (simp_all add: change_of_modify change_of_modify_New)
  show "handed_out_after b i" if "change_of (record_modify i v st) i = New"
    using that nd undoes_New [OF assms(1), of i]
    by (cases "change_of st i") (simp_all add: change_of_modify change_of_modify_New)
qed (use assms undoes_next [OF assms(1)] in auto)

lemma undoes_remove:
  assumes "undoes st d b" "objects d i = Some v" "objects d' = (objects d)(i := None)" "next_ids d' = next_ids d"
  shows "undoes (record_remove i v st) d' b"
proof (rule undoes_step [OF assms(1)])
  have ds: "disjoint_state st" using assms(1) by (simp add: undoes_def)
  show "disjoint_state (record_remove i v st)" using ds by (rule disjoint_remove)
  show "change_of (record_remove i v st) j = change_of st j" if "j \<noteq> i" for j
    using that ds by (simp add: change_of_remove)
  show "change_ok (change_of (record_remove i v st) i) None (objects b i)"
    using undoes_change [OF assms(1), of i] assms(2) ds by (cases "change_of st i") (simp_all add: change_of_remove)
  show "handed_out_after b i" if "change_of (record_remove i v st) i = New"
    using that ds by (cases "change_of st i") (simp_all add: change_of_remove)
qed (use assms undoes_next [OF assms(1)] in auto)

section \<open>Operations within a session\<close>

datatype 'o db_op = Create oid "oid \<Rightarrow> 'o" | Modify oid "'o \<Rightarrow> 'o" | Remove oid

fun apply_op :: "'o db_op \<Rightarrow> 'o undo_database \<Rightarrow> 'o undo_database option" where
  "apply_op (Create idx c) d = do { (i, d') \<leftarrow> db_create idx c d; Some d' }"
| "apply_op (Modify i m) d = db_modify i m d"
| "apply_op (Remove i) d = db_remove i d"

text \<open>The database \<open>d\<close> is within a session that began at \<open>b\<close>, above the states \<open>rest\<close>.\<close>

definition in_session :: "'o undo_database \<Rightarrow> 'o undo_state list \<Rightarrow> 'o undo_database \<Rightarrow> bool" where
  "in_session b rest d \<longleftrightarrow>
     \<not> undo_disabled d \<and> fresh_ids b \<and> fresh_ids d \<and> next_mono b d \<and>
     (\<exists>st. undo_stack d = st # rest \<and> undoes st d b)"

lemma on_op_simps [simp]:
  "\<not> undo_disabled d \<Longrightarrow> undo_stack d = st # rest \<Longrightarrow> on_create i d = d\<lparr>undo_stack := record_create i st # rest\<rparr>"
  "\<not> undo_disabled d \<Longrightarrow> undo_stack d = st # rest \<Longrightarrow> on_modify i v d = d\<lparr>undo_stack := record_modify i v st # rest\<rparr>"
  "\<not> undo_disabled d \<Longrightarrow> undo_stack d = st # rest \<Longrightarrow> on_remove i v d = d\<lparr>undo_stack := record_remove i v st # rest\<rparr>"
  by (simp_all add: on_create_def on_modify_def on_remove_def on_back_def)

lemma fresh_ids_next: "fresh_ids d \<Longrightarrow> next_ids d idx = Some n \<Longrightarrow> index_of n = idx"
  by (simp add: fresh_ids_def)

lemma fresh_ids_create:
  assumes "fresh_ids d" "next_ids d (index_of i) = Some i"
    and "objects d' = (objects d)(i \<mapsto> v)" "next_ids d' = (next_ids d)(index_of i \<mapsto> oid_succ i)"
  shows "fresh_ids d'"
proof -
  have "\<exists>n. next_ids d' (index_of j) = Some n \<and> id_instance j < id_instance n" if "objects d' j \<noteq> None" for j
  proof (cases "j = i")
    case False
    with that assms(3) have "objects d j \<noteq> None" by simp
    with assms(1) obtain n where "next_ids d (index_of j) = Some n" "id_instance j < id_instance n"
      unfolding fresh_ids_def by blast
    with assms(2,4) show ?thesis by (cases "index_of j = index_of i") auto
  qed (use assms in simp)
  then show ?thesis using assms(1,4) by (auto simp: fresh_ids_def)
qed

lemma undoes_dom: "undoes st d b \<Longrightarrow> next_ids d idx \<noteq> None \<Longrightarrow> next_ids b idx \<noteq> None"
  using undoes_next [of st d b idx] by (auto simp: next_ok_def split: option.splits)

lemma in_session_create:
  assumes "in_session b rest d" "db_create idx c d = Some (i, d')"
  shows "in_session b rest d'"
proof -
  obtain st where st: "undo_stack d = st # rest" "undoes st d b"
    using assms(1) by (auto simp: in_session_def)
  have en: "\<not> undo_disabled d" and fr: "fresh_ids b" "fresh_ids d" and mono: "next_mono b d"
    using assms(1) by (simp_all add: in_session_def)
  have i: "next_ids d idx = Some i" "objects d i = None"
    using assms(2) by (auto simp: db_create_def opt_bind split: if_splits)
  have idx: "index_of i = idx" using fr(2) i(1) by (rule fresh_ids_next)
  define d1 where "d1 = d\<lparr>objects := (objects d)(i \<mapsto> c i), next_ids := (next_ids d)(idx \<mapsto> oid_succ i)\<rparr>"
  have d': "d' = d1\<lparr>undo_stack := record_create i st # rest\<rparr>"
    using assms(2) i st(1) en by (simp add: db_create_def d1_def)
  have hand: "handed_out_after b i"
    using undoes_dom [OF st(2), of idx] i(1) idx mono by (fastforce simp: handed_out_after_def next_mono_def)
  have "undoes (record_create i st) d' b"
    using fresh_not_deleted [OF st(2) fr(1) mono, of i] i idx hand
    by (intro undoes_create [OF st(2), where k = "oid_succ i" and v = "c i"]) (simp_all add: d' d1_def)
  moreover have "fresh_ids d'"
    by (rule fresh_ids_create [OF fr(2), of i _ "c i"]) (use i(1) idx in \<open>simp_all add: d' d1_def\<close>)
  moreover have "next_mono b d'"
    unfolding next_mono_def
  proof (intro allI impI)
    fix k n assume "next_ids b k = Some n"
    with mono obtain m where "next_ids d k = Some m" "id_instance n \<le> id_instance m"
      unfolding next_mono_def by blast
    then show "\<exists>m. next_ids d' k = Some m \<and> id_instance n \<le> id_instance m"
      using i(1) by (cases "k = idx") (simp_all add: d' d1_def)
  qed
  ultimately show ?thesis using en fr by (simp add: in_session_def d' d1_def)
qed

lemma fresh_ids_keep: "fresh_ids d \<Longrightarrow> dom (objects d') \<subseteq> dom (objects d) \<Longrightarrow> next_ids d' = next_ids d \<Longrightarrow> fresh_ids d'"
  by (auto simp: fresh_ids_def subset_iff)

lemma in_session_keep:
  assumes "in_session b rest d" "dom (objects d') \<subseteq> dom (objects d)" "next_ids d' = next_ids d"
    and "undo_disabled d' = undo_disabled d" "undo_stack d' = st' # rest" "undoes st' d' b"
  shows "in_session b rest d'"
  using assms fresh_ids_keep [of d d'] by (auto simp: in_session_def next_mono_def)

lemma in_session_modify:
  assumes "in_session b rest d" "db_modify i m d = Some d'"
  shows "in_session b rest d'"
proof -
  obtain st v where st: "undo_stack d = st # rest" "undoes st d b" "\<not> undo_disabled d" "objects d i = Some v"
    and d': "d' = d\<lparr>undo_stack := record_modify i v st # rest, objects := (objects d)(i \<mapsto> m v)\<rparr>"
    using assms by (auto simp: in_session_def db_modify_def get_object_def opt_bind split: if_splits)
  show ?thesis
    by (rule in_session_keep [OF assms(1), of d' "record_modify i v st"])
      (use st d' in \<open>auto intro!: undoes_modify [OF st(2,4), of _ "m v"]\<close>)
qed

lemma in_session_remove:
  assumes "in_session b rest d" "db_remove i d = Some d'"
  shows "in_session b rest d'"
proof -
  obtain st v where st: "undo_stack d = st # rest" "undoes st d b" "\<not> undo_disabled d" "objects d i = Some v"
    and d': "d' = d\<lparr>undo_stack := record_remove i v st # rest, objects := (objects d)(i := None)\<rparr>"
    using assms by (auto simp: in_session_def db_remove_def get_object_def opt_bind split: if_splits)
  show ?thesis
    by (rule in_session_keep [OF assms(1), of d' "record_remove i v st"])
      (use st d' in \<open>auto intro!: undoes_remove [OF st(2,4)]\<close>)
qed

lemma in_session_op: "in_session b rest d \<Longrightarrow> apply_op c d = Some d' \<Longrightarrow> in_session b rest d'"
  by (cases c) (auto simp: opt_bind intro: in_session_create in_session_modify in_session_remove)

section \<open>Going back\<close>

lemma disabled_ops [simp]:
  "undo_disabled d \<Longrightarrow> on_create i d = d" "undo_disabled d \<Longrightarrow> on_modify i v d = d"
  "undo_disabled d \<Longrightarrow> on_remove i v d = d"
  by (simp_all add: on_create_def on_modify_def on_remove_def)

lemma upd_map_add: "i \<notin> fst ` set xs \<Longrightarrow> m(i \<mapsto> v) ++ map_of xs = (m ++ map_of xs)(i \<mapsto> v)"
  by (rule ext) (auto simp: map_add_def map_of_eq_None_iff [symmetric] split: option.splits)

lemma map_add_if: "m ++ (\<lambda>a. if a = i then Some v else f a) = (m ++ f)(i \<mapsto> v)"
  by (rule ext) (simp add: map_add_def)

lemma restore_old_values_conv:
  "undo_disabled d \<Longrightarrow> distinct (map fst xs) \<Longrightarrow>
   (\<And>i. i \<in> fst ` set xs \<Longrightarrow> objects d i \<noteq> None \<and> next_ids d (index_of i) \<noteq> None) \<Longrightarrow>
   restore_old_values xs d = Some (d\<lparr>objects := objects d ++ map_of xs\<rparr>)"
proof (induction xs d rule: restore_old_values.induct)
  case (2 i v xs d)
  obtain w n where w: "objects d i = Some w" "next_ids d (index_of i) = Some n"
    using 2(4) [of i] by auto
  define d' where "d' = d\<lparr>objects := (objects d)(i \<mapsto> v)\<rparr>"
  have step: "db_modify i (\<lambda>_. v) d = Some d'"
    using w 2(2) by (simp add: db_modify_def get_object_def d'_def)
  have "restore_old_values xs d' = Some (d'\<lparr>objects := objects d' ++ map_of xs\<rparr>)"
    by (rule 2(1)) (use step 2(2-4) in \<open>auto simp: d'_def\<close>)
  then show ?case using step 2(3) upd_map_add [of i xs] by (simp add: d'_def map_add_if fun_upd_def)
qed simp

lemma remove_new_ids_conv:
  "undo_disabled d \<Longrightarrow> distinct xs \<Longrightarrow>
   (\<And>i. i \<in> set xs \<Longrightarrow> objects d i \<noteq> None \<and> next_ids d (index_of i) \<noteq> None) \<Longrightarrow>
   remove_new_ids xs d = Some (d\<lparr>objects := objects d |` (- set xs)\<rparr>)"
proof (induction xs d rule: remove_new_ids.induct)
  case (2 i xs d)
  obtain w n where w: "objects d i = Some w" "next_ids d (index_of i) = Some n"
    using 2(4) [of i] by auto
  define d' where "d' = d\<lparr>objects := (objects d)(i := None)\<rparr>"
  have step: "db_remove i d = Some d'"
    using w 2(2) by (simp add: db_remove_def get_object_def d'_def)
  have "remove_new_ids xs d' = Some (d'\<lparr>objects := objects d' |` (- set xs)\<rparr>)"
    by (rule 2(1)) (use step 2(2-4) in \<open>auto simp: d'_def\<close>)
  moreover have "((objects d)(i := None)) |` (- set xs) = objects d |` (- set (i # xs))"
    by (rule ext) (simp add: restrict_map_def)
  ultimately show ?case using step by (simp add: d'_def)
qed (simp add: restrict_map_def)

lemma restore_next_ids_conv:
  "distinct (map fst xs) \<Longrightarrow> (\<And>idx. idx \<in> fst ` set xs \<Longrightarrow> next_ids d idx \<noteq> None) \<Longrightarrow>
   restore_next_ids xs d = Some (d\<lparr>next_ids := next_ids d ++ map_of xs\<rparr>)"
proof (induction xs d rule: restore_next_ids.induct)
  case (2 idx i xs d)
  define d' where "d' = d\<lparr>next_ids := (next_ids d)(idx \<mapsto> i)\<rparr>"
  have step: "set_next_id idx i d = Some d'"
    using 2(3) [of idx] by (auto simp: set_next_id_def d'_def)
  have "restore_next_ids xs d' = Some (d'\<lparr>next_ids := next_ids d' ++ map_of xs\<rparr>)"
    by (rule 2(1)) (use step 2(2,3) in \<open>auto simp: d'_def\<close>)
  then show ?case using step 2(2) upd_map_add [of idx xs] by (simp add: d'_def map_add_if fun_upd_def)
qed simp

lemma reinsert_removed_conv:
  "undo_disabled d \<Longrightarrow> distinct (map fst xs) \<Longrightarrow>
   (\<And>i. i \<in> fst ` set xs \<Longrightarrow> objects d i = None \<and> next_ids d (index_of i) \<noteq> None) \<Longrightarrow>
   reinsert_removed xs d = Some (d\<lparr>objects := objects d ++ map_of xs\<rparr>)"
proof (induction xs d rule: reinsert_removed.induct)
  case (2 i v xs d)
  define d' where "d' = d\<lparr>objects := (objects d)(i \<mapsto> v)\<rparr>"
  have step: "db_insert i v d = Some d'"
    using 2(4) [of i] 2(2) by (auto simp: db_insert_def d'_def)
  have "reinsert_removed xs d' = Some (d'\<lparr>objects := objects d' ++ map_of xs\<rparr>)"
    by (rule 2(1)) (use step 2(2-4) in \<open>auto simp: d'_def\<close>)
  then show ?case using step 2(3) upd_map_add [of i xs] by (simp add: d'_def map_add_if fun_upd_def)
qed simp

lemma undoes_objects:
  assumes "undoes st d b"
  shows "(objects d ++ map_of (old_values st)) |` (- set (new_ids st)) ++ map_of (removed_values st) = objects b"
proof (rule ext)
  fix i
  have "disjoint_state st" using assms by (simp add: undoes_def)
  then show "((objects d ++ map_of (old_values st)) |` (- set (new_ids st)) ++ map_of (removed_values st)) i = objects b i"
    using undoes_change [OF assms, of i]
    by (auto simp: change_of_def disjoint_state_def map_add_def restrict_map_def split: if_splits option.splits)
qed

lemma undoes_next_ids: "undoes st d b \<Longrightarrow> next_ids d ++ map_of (old_index_next_ids st) = next_ids b"
  by (rule ext) (use undoes_next in \<open>fastforce simp: next_ok_def map_add_def split: option.splits\<close>)

lemma fst_set_conv: "i \<in> fst ` set xs \<longleftrightarrow> map_of xs i \<noteq> None"
  by (simp add: map_of_eq_None_iff)

lemma revert_state_back:
  assumes st: "undoes st d b" and fr: "fresh_ids b" "fresh_ids d" and dis: "undo_disabled d"
  shows "revert_state st d = Some (d\<lparr>objects := objects b, next_ids := next_ids b\<rparr>)"
proof -
  define d1 where "d1 = d\<lparr>objects := objects d ++ map_of (old_values st)\<rparr>"
  define d2 where "d2 = d1\<lparr>objects := objects d1 |` (- set (new_ids st))\<rparr>"
  define d3 where "d3 = d2\<lparr>next_ids := next_ids d2 ++ map_of (old_index_next_ids st)\<rparr>"
  have ds: "disjoint_state st" using st by (simp add: undoes_def)
  have known: "next_ids d (index_of i) \<noteq> None" if "objects d i \<noteq> None" for i
    using that fr(2) by (fastforce simp: fresh_ids_def)
  have old: "objects d i \<noteq> None" if "i \<in> fst ` set (old_values st)" for i
    using that ds undoes_change [OF st, of i]
    by (auto simp: change_of_def fst_set_conv disjoint_state_def split: if_splits)
  have new: "objects d i \<noteq> None" if "i \<in> set (new_ids st)" for i
    using that undoes_change [OF st, of i] by (simp add: change_of_def)
  have nxt: "next_ids d idx \<noteq> None" if "idx \<in> fst ` set (old_index_next_ids st)" for idx
    using that undoes_next [OF st, of idx] by (auto simp: fst_set_conv next_ok_def)
  have del: "objects d i = None \<and> objects b i \<noteq> None" if "i \<in> fst ` set (removed_values st)" for i
    using that ds undoes_change [OF st, of i]
    by (auto simp: change_of_def fst_set_conv disjoint_state_def split: if_splits option.splits)
  have r1: "restore_old_values (old_values st) d = Some d1"
    unfolding d1_def using ds dis old known by (intro restore_old_values_conv) (auto simp: disjoint_state_def)
  have r2: "remove_new_ids (new_ids st) d1 = Some d2"
    unfolding d2_def using ds dis new known by (intro remove_new_ids_conv) (auto simp: disjoint_state_def d1_def)
  have r3: "restore_next_ids (old_index_next_ids st) d2 = Some d3"
    unfolding d3_def using ds nxt by (intro restore_next_ids_conv) (auto simp: disjoint_state_def d2_def d1_def)
  have n3: "next_ids d3 = next_ids b" using undoes_next_ids [OF st] by (simp add: d3_def d2_def d1_def)
  have o3: "objects d3 i = None" if "i \<in> fst ` set (removed_values st)" for i
    using del [OF that] that ds
    by (auto simp: d3_def d2_def d1_def restrict_map_def map_add_def fst_set_conv disjoint_state_def split: option.splits)
  have "reinsert_removed (removed_values st) d3 = Some (d3\<lparr>objects := objects d3 ++ map_of (removed_values st)\<rparr>)"
  proof (rule reinsert_removed_conv)
    show "undo_disabled d3" using dis by (simp add: d3_def d2_def d1_def)
    show "distinct (map fst (removed_values st))" using ds by (simp add: disjoint_state_def)
    show "objects d3 i = None \<and> next_ids d3 (index_of i) \<noteq> None" if "i \<in> fst ` set (removed_values st)" for i
      using del [OF that] o3 [OF that] n3 fr(1) by (fastforce simp: fresh_ids_def)
  qed
  then show ?thesis
    using r1 r2 r3 undoes_objects [OF st] undoes_next_ids [OF st]
    by (simp add: revert_state_def d3_def d2_def d1_def)
qed

lemma fresh_ids_cong: "objects d = objects e \<Longrightarrow> next_ids d = next_ids e \<Longrightarrow> fresh_ids d = fresh_ids e"
  by (simp add: fresh_ids_def)

lemma undoes_cong: "objects d = objects e \<Longrightarrow> next_ids d = next_ids e \<Longrightarrow> undoes st d b = undoes st e b"
  by (simp add: undoes_def)

lemma undo_back:
  assumes "in_session b rest d" "active_sessions d > 0"
  shows "undo d = Some (d\<lparr>objects := objects b, next_ids := next_ids b, undo_stack := rest,
                         active_sessions := active_sessions d - 1\<rparr>)"
proof -
  obtain st where st: "undo_stack d = st # rest" "undoes st d b" using assms(1) by (auto simp: in_session_def)
  have "undoes st (undo_disable d) b" "fresh_ids (undo_disable d)"
    using st(2) assms(1) by (auto simp: undo_disable_def in_session_def undoes_def fresh_ids_def)
  from revert_state_back [OF this(1) _ this(2)] show ?thesis
    using st(1) assms by (simp add: undo_def undo_enable_def undo_disable_def in_session_def)
qed

section \<open>Merging\<close>

lemma merge_old_values_rest [simp]:
  "new_ids (merge_old_values xs A) = new_ids A" "removed_values (merge_old_values xs A) = removed_values A"
  "old_index_next_ids (merge_old_values xs A) = old_index_next_ids A"
  by (induction xs A rule: merge_old_values.induct) auto

lemma merge_old_values_conv:
  "map_of (old_values (merge_old_values xs A)) i =
     (if i \<in> set (new_ids A) then map_of (old_values A) i
      else case map_of (old_values A) i of Some v \<Rightarrow> Some v | None \<Rightarrow> map_of xs i)"
  by (induction xs A rule: merge_old_values.induct) (auto split: option.splits)

lemma merge_old_values_distinct:
  "distinct (map fst (old_values A)) \<Longrightarrow> distinct (map fst (old_values (merge_old_values xs A)))"
  by (induction xs A rule: merge_old_values.induct) (auto simp: distinct_update)

lemma merge_next_ids_rest [simp]:
  "new_ids (merge_next_ids xs A) = new_ids A" "removed_values (merge_next_ids xs A) = removed_values A"
  "old_values (merge_next_ids xs A) = old_values A"
  by (induction xs A rule: merge_next_ids.induct) auto

lemma merge_next_ids_conv:
  "map_of (old_index_next_ids (merge_next_ids xs A)) i =
     (case map_of (old_index_next_ids A) i of Some v \<Rightarrow> Some v | None \<Rightarrow> map_of xs i)"
  by (induction xs A rule: merge_next_ids.induct) (auto split: option.splits)

lemma merge_next_ids_distinct:
  "distinct (map fst (old_index_next_ids A)) \<Longrightarrow>
     distinct (map fst (old_index_next_ids (merge_next_ids xs A)))"
  by (induction xs A rule: merge_next_ids.induct) (auto simp: distinct_update)

lemma merge_removed_next [simp]: "old_index_next_ids (merge_removed xs A) = old_index_next_ids A"
  by (induction xs A rule: merge_removed.induct) (auto split: option.splits)

text \<open>One removed object of the newer state is recorded as a removal of it.\<close>

lemma merge_removed_step:
  "map_of (removed_values A) i = None \<Longrightarrow>
   merge_removed ((i, v) # xs) A = merge_removed xs (record_remove i v A)"
  by (simp add: record_remove_def)

lemma record_remove_absent: "j \<noteq> i \<Longrightarrow> map_of (removed_values (record_remove i v A)) j = map_of (removed_values A) j"
  by (simp add: record_remove_def split: option.splits)

lemma merge_removed_conv:
  "disjoint_state A \<Longrightarrow> distinct (map fst xs) \<Longrightarrow> (\<And>i. i \<in> fst ` set xs \<Longrightarrow> map_of (removed_values A) i = None) \<Longrightarrow>
   disjoint_state (merge_removed xs A) \<and>
   change_of (merge_removed xs A) j =
     (case map_of xs j of Some v \<Rightarrow> remove_change v (change_of A j) | None \<Rightarrow> change_of A j)"
proof (induction xs arbitrary: A)
  case (Cons x xs)
  obtain i v where x: "x = (i, v)" by (cases x)
  have none: "map_of (removed_values A) i = None" using Cons(4) x by simp
  have "map_of (removed_values (record_remove i v A)) k = None" if "k \<in> fst ` set xs" for k
    using that Cons(3,4) x by (subst record_remove_absent) auto
  then have "disjoint_state (merge_removed xs (record_remove i v A)) \<and>
    change_of (merge_removed xs (record_remove i v A)) j =
      (case map_of xs j of Some v' \<Rightarrow> remove_change v' (change_of (record_remove i v A) j)
       | None \<Rightarrow> change_of (record_remove i v A) j)"
    using Cons(2,3) x by (intro Cons(1) disjoint_remove) auto
  moreover have "map_of xs j = None" if "j = i"
    using that Cons(3) x by (auto simp: map_of_eq_None_iff)
  ultimately show ?case
    using none by (auto simp: x merge_removed_step change_of_remove [OF Cons(2)] simp del: merge_removed.simps split: option.splits)
qed simp

text \<open>The matrix in the comments of \<^verbatim>\<open>merge()\<close>: the change of the older state, then that of the newer.\<close>

fun compose_change :: "'o change \<Rightarrow> 'o change \<Rightarrow> 'o change" where
  "compose_change a Nop = a"
| "compose_change Nop b = b"
| "compose_change New (Upd w) = New"
| "compose_change New (Del w) = Nop"
| "compose_change New New = New"
| "compose_change (Upd v) (Upd w) = Upd v"
| "compose_change (Upd v) (Del w) = Del v"
| "compose_change (Upd v) New = New"
| "compose_change (Del v) b = Del v"

text \<open>Which pairs of changes meet: the older state leads from \<open>m\<close> to \<open>b\<close>, the newer from \<open>d\<close> to \<open>m\<close>.\<close>

definition changes_meet :: "'o undo_state \<Rightarrow> 'o undo_state \<Rightarrow> bool" where
  "changes_meet A B \<longleftrightarrow> (\<forall>i. case change_of A i of
      Nop \<Rightarrow> True
    | New \<Rightarrow> change_of B i \<noteq> New
    | Upd v \<Rightarrow> change_of B i \<noteq> New
    | Del v \<Rightarrow> change_of B i = Nop)"

lemma undoes_meet:
  assumes "undoes B d m" "undoes A m b" "fresh_ids b" "next_mono b m"
  shows "changes_meet A B"
  unfolding changes_meet_def
proof
  fix i
  have "change_of B i \<noteq> New" if "objects b i \<noteq> None"
    using that undoes_New [OF assms(1), of i] handed_out_after_mono [of m i b] assms(3,4) by auto
  then show "case change_of A i of Nop \<Rightarrow> True | New \<Rightarrow> change_of B i \<noteq> New | Upd v \<Rightarrow> change_of B i \<noteq> New
      | Del v \<Rightarrow> change_of B i = Nop"
    using undoes_change [OF assms(1), of i] undoes_change [OF assms(2), of i]
    by (cases "change_of A i"; cases "change_of B i") auto
qed

lemma change_of_iffs:
  assumes "disjoint_state st"
  shows "i \<in> set (new_ids st) \<longleftrightarrow> change_of st i = New"
    and "map_of (old_values st) i = (case change_of st i of Upd v \<Rightarrow> Some v | _ \<Rightarrow> None)"
    and "map_of (removed_values st) i = (case change_of st i of Del v \<Rightarrow> Some v | _ \<Rightarrow> None)"
  using assms by (auto simp: change_of_def disjoint_state_def split: option.splits)

definition merge_upto_removed :: "'o undo_state \<Rightarrow> 'o undo_state \<Rightarrow> 'o undo_state" where
  "merge_upto_removed A B =
     (let A1 = merge_old_values (old_values B) A
      in merge_next_ids (old_index_next_ids B) (A1\<lparr>new_ids := fold List.insert (new_ids B) (new_ids A1)\<rparr>))"

lemma merge_states_conv: "merge_states A B = merge_removed (removed_values B) (merge_upto_removed A B)"
  by (simp add: merge_states_def merge_upto_removed_def Let_def)

lemma distinct_fold_insert: "distinct ys \<Longrightarrow> distinct (fold List.insert xs ys)"
  by (induction xs arbitrary: ys) auto

lemma merge_upto_removed_sel:
  "set (new_ids (merge_upto_removed A B)) = set (new_ids A) \<union> set (new_ids B)"
  "removed_values (merge_upto_removed A B) = removed_values A"
  "map_of (old_values (merge_upto_removed A B)) i =
     (if i \<in> set (new_ids A) then map_of (old_values A) i
      else case map_of (old_values A) i of Some v \<Rightarrow> Some v | None \<Rightarrow> map_of (old_values B) i)"
  by (auto simp: merge_upto_removed_def Let_def merge_old_values_conv)

lemma merge_upto_removed_disjoint:
  assumes "disjoint_state A" "disjoint_state B" "changes_meet A B"
  shows "disjoint_state (merge_upto_removed A B)"
proof -
  have "i \<in> set (new_ids (merge_upto_removed A B)) \<longrightarrow>
      map_of (old_values (merge_upto_removed A B)) i = None \<and> map_of (removed_values (merge_upto_removed A B)) i = None"
    and "map_of (old_values (merge_upto_removed A B)) i \<noteq> None \<longrightarrow>
      map_of (removed_values (merge_upto_removed A B)) i = None" for i
    using assms(3) unfolding merge_upto_removed_sel change_of_iffs [OF assms(1)] change_of_iffs [OF assms(2)] Un_iff
      changes_meet_def
    by (auto dest: spec [of _ i] split: change.splits)
  then show ?thesis
    using assms(1,2) unfolding disjoint_state_def
    by (auto simp: merge_upto_removed_def Let_def merge_old_values_distinct merge_next_ids_distinct distinct_fold_insert)
qed

lemma change_of_merge_upto:
  assumes "disjoint_state A" "disjoint_state B" "changes_meet A B"
  shows "change_of (merge_upto_removed A B) i =
    (case change_of B i of Del v \<Rightarrow> change_of A i | c \<Rightarrow> compose_change (change_of A i) c)"
proof -
  have "case change_of A i of Nop \<Rightarrow> True | New \<Rightarrow> change_of B i \<noteq> New | Upd v \<Rightarrow> change_of B i \<noteq> New
      | Del v \<Rightarrow> change_of B i = Nop"
    using assms(3) by (simp add: changes_meet_def)
  then show ?thesis
    unfolding change_of_def [of "merge_upto_removed A B"] merge_upto_removed_sel Un_iff
      change_of_iffs [OF assms(1)] change_of_iffs [OF assms(2)]
    by (cases "change_of A i"; cases "change_of B i") simp_all
qed

lemma merge_states_change:
  assumes "disjoint_state A" "disjoint_state B" "changes_meet A B"
  shows "disjoint_state (merge_states A B) \<and>
    change_of (merge_states A B) i = compose_change (change_of A i) (change_of B i)"
proof -
  have "map_of (removed_values (merge_upto_removed A B)) j = None" if "j \<in> fst ` set (removed_values B)" for j
    using that assms(3) unfolding fst_set_conv merge_upto_removed_sel change_of_iffs [OF assms(1)]
      change_of_iffs [OF assms(2)] changes_meet_def
    by (auto dest: spec [of _ j] split: change.splits)
  then have "disjoint_state (merge_states A B) \<and> change_of (merge_states A B) i =
      (case map_of (removed_values B) i of Some v \<Rightarrow> remove_change v (change_of (merge_upto_removed A B) i)
       | None \<Rightarrow> change_of (merge_upto_removed A B) i)"
    unfolding merge_states_conv using assms(2)
    by (intro merge_removed_conv merge_upto_removed_disjoint assms) (auto simp: disjoint_state_def)
  moreover have "case change_of A i of Nop \<Rightarrow> True | New \<Rightarrow> change_of B i \<noteq> New | Upd v \<Rightarrow> change_of B i \<noteq> New
      | Del v \<Rightarrow> change_of B i = Nop"
    using assms(3) by (simp add: changes_meet_def)
  ultimately show ?thesis
    unfolding change_of_iffs(3) [OF assms(2)] change_of_merge_upto [OF assms]
    by (cases "change_of A i"; cases "change_of B i") simp_all
qed

lemma merge_states_next:
  "map_of (old_index_next_ids (merge_states A B)) i =
     (case map_of (old_index_next_ids A) i of Some v \<Rightarrow> Some v | None \<Rightarrow> map_of (old_index_next_ids B) i)"
  by (simp add: merge_states_def Let_def merge_next_ids_conv)

lemma handed_out_after_back: "handed_out_after m i \<Longrightarrow> undoes A m b \<Longrightarrow> next_mono b m \<Longrightarrow> handed_out_after b i"
  using undoes_dom [of A m b "index_of i"] by (fastforce simp: handed_out_after_def next_mono_def)

lemma undoes_merge:
  assumes "undoes B d m" "undoes A m b" "fresh_ids b" "next_mono b m"
  shows "undoes (merge_states A B) d b"
proof -
  have meet: "changes_meet A B" using assms by (rule undoes_meet)
  have ds: "disjoint_state A" "disjoint_state B" using assms by (simp_all add: undoes_def)
  note chg = merge_states_change [OF ds meet]
  have "change_ok (change_of (merge_states A B) i) (objects d i) (objects b i)" for i
    using undoes_change [OF assms(1), of i] undoes_change [OF assms(2), of i] chg [of i]
      meet [unfolded changes_meet_def, rule_format, of i]
    by (cases "change_of A i"; cases "change_of B i") auto
  moreover have "handed_out_after b i" if "change_of (merge_states A B) i = New" for i
    using that chg [of i] undoes_New [OF assms(1), of i] undoes_New [OF assms(2), of i]
      handed_out_after_back [of m i A b] assms(2,4)
    by (cases "change_of A i"; cases "change_of B i") auto
  moreover have "next_ok (map_of (old_index_next_ids (merge_states A B)) idx) (next_ids d idx) (next_ids b idx)" for idx
    using undoes_next [OF assms(1), of idx] undoes_next [OF assms(2), of idx]
    by (auto simp: merge_states_next next_ok_def split: option.splits)
  ultimately show ?thesis using chg by (simp add: undoes_def)
qed

section \<open>Nested sessions\<close>

text \<open>
  What the chain does between the start and the end of a session: operations on objects and
  nested sessions. A nested session ends with \<^verbatim>\<open>merge()\<close> (\<open>mrg\<close>) or \<^verbatim>\<open>undo()\<close>; when an operation in it
  throws, its destructor runs and the exception goes on, unless it is caught (\<open>caught\<close>). The result
  \<open>None\<close> is an exception that leaves a destructor, which terminates the process.
\<close>

datatype 'o cmd = Op "'o db_op" | Nested bool bool "'o cmd list"

definition finish_session :: "bool \<Rightarrow> session \<Rightarrow> 'o undo_database \<Rightarrow> 'o undo_database option" where
  "finish_session mrg s d = do {
     (s', d') \<leftarrow> (if mrg then session_merge s d else session_undo s d);
     session_destroy s' d'
   }"

fun exec :: "'o cmd \<Rightarrow> 'o undo_database \<Rightarrow> (bool \<times> 'o undo_database) option"
  and execs :: "'o cmd list \<Rightarrow> 'o undo_database \<Rightarrow> (bool \<times> 'o undo_database) option" where
  "exec (Op c) d = Some (case apply_op c d of None \<Rightarrow> (False, d) | Some d' \<Rightarrow> (True, d'))"
| "exec (Nested mrg caught cs) d = (
     case start_undo_session False d of (s, d1) \<Rightarrow> do {
       (ok, d2) \<leftarrow> execs cs d1;
       if ok then do {
         d3 \<leftarrow> finish_session mrg s d2;
         Some (True, d3)
       } else do {
         d3 \<leftarrow> session_destroy s d2;
         Some (caught, d3)
       }
     })"
| "execs [] d = Some (True, d)"
| "execs (c # cs) d = do {
     (ok, d') \<leftarrow> exec c d;
     if ok then execs cs d' else Some (False, d')
   }"

fun depth :: "'o cmd \<Rightarrow> nat" and depths :: "'o cmd list \<Rightarrow> nat" where
  "depth (Op c) = 0"
| "depth (Nested mrg caught cs) = Suc (depths cs)"
| "depths [] = 0"
| "depths (c # cs) = max (depth c) (depths cs)"

lemma trim_stack_take: "trim_stack m st = take m st"
proof (induction m st rule: trim_stack.induct)
  case (1 m st)
  then show ?case
    by (subst trim_stack.simps) (auto simp: butlast_conv_take min_def)
qed

text \<open>What a step within a session keeps: the way back, and the states below down to \<open>n\<close>.\<close>

definition session_step :: "'o undo_database \<Rightarrow> 'o undo_state list \<Rightarrow> nat \<Rightarrow> 'o undo_database \<Rightarrow> 'o undo_database \<Rightarrow> bool" where
  "session_step b rest n d d' \<longleftrightarrow>
     (\<exists>k \<ge> n. in_session b (take k rest) d') \<and>
     active_sessions d' = active_sessions d \<and> max_undo_size d' = max_undo_size d"

lemma apply_op_frame:
  "apply_op c d = Some d' \<Longrightarrow> active_sessions d' = active_sessions d \<and> max_undo_size d' = max_undo_size d"
  by (cases c) (auto simp: opt_bind db_create_def db_modify_def db_remove_def on_create_def on_modify_def
    on_remove_def on_back_def split: if_splits list.splits)

lemma in_session_cong:
  assumes "in_session b rest d" "objects d' = objects d" "next_ids d' = next_ids d" "\<not> undo_disabled d'"
    and "undo_stack d' = st # rest'" "undo_stack d = st # rest"
  shows "in_session b rest' d'"
  using assms fresh_ids_cong [of d' d] undoes_cong [of d' d] by (auto simp: in_session_def next_mono_def)

lemma in_session_start:
  assumes "fresh_ids d" "\<not> undo_disabled d \<or> f"
  shows "in_session d (take (max_undo_size d) (undo_stack d)) (snd (start_undo_session f d))"
  using assms fresh_ids_cong [of d "snd (start_undo_session f d)"]
  by (auto simp: start_undo_session_def in_session_def trim_stack_take next_mono_def intro: undoes_empty)

lemma start_session_frame:
  "\<not> undo_disabled d \<or> f \<Longrightarrow> active_sessions (snd (start_undo_session f d)) = Suc (active_sessions d)"
  "max_undo_size (snd (start_undo_session f d)) = max_undo_size d"
  "fst (start_undo_session f d) = \<lparr>apply_undo = True, disable_on_exit = undo_disabled d \<and> f\<rparr>"
  by (auto simp: start_undo_session_def)

lemma in_session_merge:
  assumes "in_session d (st # rest') d2" "undo_stack d = st # rest" "in_session b rest d" "active_sessions d2 > 0"
  shows "\<exists>d3. merge d2 = Some d3 \<and> in_session b rest' d3 \<and>
    active_sessions d3 = active_sessions d2 - 1 \<and> max_undo_size d3 = max_undo_size d2"
proof -
  obtain st2 where st2: "undo_stack d2 = st2 # st # rest'" "undoes st2 d2 d"
    using assms(1) by (auto simp: in_session_def)
  have A: "undoes st d b" "next_mono b d" "fresh_ids b" using assms(2,3) by (auto simp: in_session_def)
  define d3 where "d3 = d2\<lparr>undo_stack := merge_states st st2 # rest', active_sessions := active_sessions d2 - 1\<rparr>"
  have "merge d2 = Some d3" using st2(1) assms(4) by (simp add: merge_def d3_def)
  moreover have "undoes (merge_states st st2) d3 b"
    using undoes_merge [OF st2(2) A(1,3,2)] undoes_cong [of d3 d2] by (simp add: d3_def)
  moreover have "fresh_ids d3" "\<not> undo_disabled d3"
    using assms(1) fresh_ids_cong [of d3 d2] by (auto simp: in_session_def d3_def)
  moreover have "next_mono b d3"
    using A(2) assms(1) unfolding in_session_def next_mono_def d3_def by (fastforce intro: order_trans)
  ultimately show ?thesis using A(3) by (auto simp: in_session_def d3_def)
qed

lemma in_session_undo:
  assumes "in_session d (st # rest') d2" "undo_stack d = st # rest" "in_session b rest d" "active_sessions d2 > 0"
  shows "\<exists>d3. undo d2 = Some d3 \<and> in_session b rest' d3 \<and>
    active_sessions d3 = active_sessions d2 - 1 \<and> max_undo_size d3 = max_undo_size d2"
proof -
  have "\<not> undo_disabled d2" using assms(1) by (simp add: in_session_def)
  then have "in_session b rest' (d2\<lparr>objects := objects d, next_ids := next_ids d, undo_stack := st # rest',
      active_sessions := active_sessions d2 - 1\<rparr>)"
    by (intro in_session_cong [OF assms(3) _ _ _ _ assms(2)]) simp_all
  with undo_back [OF assms(1,4)] show ?thesis by simp
qed

lemma session_end:
  assumes "s = \<lparr>apply_undo = True, disable_on_exit = False\<rparr>"
    and "in_session d (st # rest') d2" "undo_stack d = st # rest" "in_session b rest d" "active_sessions d2 > 0"
  shows "\<exists>d3. finish_session mrg s d2 = Some d3 \<and>
      in_session b rest' d3 \<and> active_sessions d3 = active_sessions d2 - 1 \<and> max_undo_size d3 = max_undo_size d2"
    and "\<exists>d3. session_destroy s d2 = Some d3 \<and>
      in_session b rest' d3 \<and> active_sessions d3 = active_sessions d2 - 1 \<and> max_undo_size d3 = max_undo_size d2"
  using in_session_merge [OF assms(2-5)] in_session_undo [OF assms(2-5)]
  by (auto simp: assms(1) finish_session_def session_merge_def session_undo_def session_destroy_def)

lemma exec_in_session:
  "in_session b rest d \<Longrightarrow> active_sessions d > 0 \<Longrightarrow> depth c \<le> max_undo_size d \<Longrightarrow>
     \<exists>ok d'. exec c d = Some (ok, d') \<and> session_step b rest (max_undo_size d - depth c) d d'"
  "in_session b rest d \<Longrightarrow> active_sessions d > 0 \<Longrightarrow> depths cs \<le> max_undo_size d \<Longrightarrow>
     \<exists>ok d'. execs cs d = Some (ok, d') \<and> session_step b rest (max_undo_size d - depths cs) d d'"
proof (induction c d and cs d arbitrary: b rest and b rest rule: exec_execs.induct)
  case (1 c d)
  have "in_session b (take (length rest + max_undo_size d) rest) d'" if "in_session b rest d'" for d'
    using that by simp
  moreover have "in_session b rest d'" if "apply_op c d = Some d'" for d' using in_session_op [OF 1(1) that] .
  ultimately show ?case using 1(1) apply_op_frame [of c d]
    by (cases "apply_op c d") (fastforce simp: session_step_def intro: exI [of _ "length rest + max_undo_size d"])+
next
  case (2 mrg caught cs d)
  define s d1 where "s = fst (start_undo_session False d)" and "d1 = snd (start_undo_session False d)"
  let ?m = "max_undo_size d"
  obtain st where st: "undo_stack d = st # rest" "\<not> undo_disabled d" "fresh_ids d"
    using 2(2) by (auto simp: in_session_def)
  have s: "s = \<lparr>apply_undo = True, disable_on_exit = False\<rparr>"
    and d1: "active_sessions d1 = Suc (active_sessions d)" "max_undo_size d1 = ?m"
    using st(2) by (simp_all add: s_def d1_def start_session_frame)
  have start: "(s, d1) = start_undo_session False d" by (simp add: s_def d1_def)
  have "in_session d (take ?m (st # rest)) d1"
    using in_session_start [OF st(3), of False] st(1,2) by (simp add: d1_def)
  from 2(1) [OF start this] obtain ok d2 where d2: "execs cs d1 = Some (ok, d2)"
    "session_step d (take ?m (st # rest)) (?m - depths cs) d1 d2"
    using 2(4) d1 by auto
  then obtain k where k: "k \<ge> ?m - depths cs" "in_session d (take (min k ?m) (st # rest)) d2"
    "active_sessions d2 = Suc (active_sessions d)" "max_undo_size d2 = ?m"
    using d1 by (auto simp: session_step_def)
  define j where "j = min k ?m - 1"
  have j: "min k ?m = Suc j" "j \<ge> ?m - Suc (depths cs)" using k(1) 2(4) by (auto simp: j_def)
  have k2: "in_session d (st # take j rest) d2" using k(2) j(1) by simp
  have pos: "active_sessions d2 > 0" using k(3) by simp
  note ends = session_end [OF s k2 st(1) 2(2) pos]
  show ?case
    using ends(1) [of mrg] ends(2) d2(1) j(2) k(3,4) by (cases ok) (auto simp: start [symmetric] session_step_def)
next
  case (3 d)
  then show ?case by (auto simp: session_step_def intro!: exI [of _ "length rest + max_undo_size d"])
next
  case (4 c cs d)
  let ?m = "max_undo_size d"
  have "depth c \<le> ?m" "depths cs \<le> ?m" using 4(5) by auto
  from 4(1) [OF 4(3,4) this(1)] obtain ok d' k where d': "exec c d = Some (ok, d')" "k \<ge> ?m - depth c"
    "in_session b (take k rest) d'" "active_sessions d' = active_sessions d" "max_undo_size d' = ?m"
    by (auto simp: session_step_def)
  show ?case
  proof (cases ok)
    case True
    from 4(2) [OF d'(1) _ True d'(3)] obtain ok2 d2 k2 where d2: "execs cs d' = Some (ok2, d2)" "k2 \<ge> ?m - depths cs"
      "in_session b (take (min k2 k) rest) d2" "active_sessions d2 = active_sessions d" "max_undo_size d2 = ?m"
      using d' 4(4) \<open>depths cs \<le> ?m\<close> by (auto simp: session_step_def)
    moreover have "min k2 k \<ge> ?m - depths (c # cs)" using d'(2) d2(2) by auto
    ultimately show ?thesis using True d'(1) by (auto simp: session_step_def intro!: exI [of _ "min k2 k"])
  next
    case False
    moreover have "k \<ge> ?m - depths (c # cs)" using d'(2) by auto
    ultimately show ?thesis using d' by (auto simp: session_step_def)
  qed
qed

lemma session_runs:
  assumes "fresh_ids b" "\<not> undo_disabled b \<or> f" "depths cs \<le> max_undo_size b" "start_undo_session f b = (s, d)"
  obtains ok d' k where "execs cs d = Some (ok, d')" "in_session b (take k (undo_stack b)) d'"
    "k \<ge> max_undo_size b - depths cs" "active_sessions d' = Suc (active_sessions b)"
proof -
  have d: "active_sessions d = Suc (active_sessions b)" "max_undo_size d = max_undo_size b"
    using start_session_frame [where d = b and f = f] assms(2,4) by auto
  have "in_session b (take (max_undo_size b) (undo_stack b)) d"
    using in_session_start [OF assms(1,2)] assms(4) by simp
  from exec_in_session(2) [OF this, of cs] obtain ok d' k where d': "execs cs d = Some (ok, d')"
    "k \<ge> max_undo_size b - depths cs" "active_sessions d' = Suc (active_sessions b)"
    "in_session b (take (min k (max_undo_size b)) (undo_stack b)) d'"
    using d assms(3) by (auto simp: session_step_def)
  have "min k (max_undo_size b) \<ge> max_undo_size b - depths cs" using d'(2) by auto
  from that [OF d'(1,4) this d'(3)] show ?thesis .
qed

section \<open>Properties\<close>

text \<open>
  (C1) A session that is destroyed without a commit restores the database: whatever was created,
  modified and removed in it and in the sessions nested in it (merged, undone or left by an
  exception), its destructor returns and every object, every index's next identifier, the number of
  active sessions and the enabled flag are those of its start, and the states below it are
  only trimmed from the bottom, provided the nesting is within the maximal size of the undo stack.
\<close>

theorem session_restores:
  assumes "fresh_ids b" "\<not> undo_disabled b \<or> f" "depths cs \<le> max_undo_size b"
    and "start_undo_session f b = (s, d)"
  shows "\<exists>ok d' d'' k. execs cs d = Some (ok, d') \<and> session_destroy s d' = Some d'' \<and>
    objects d'' = objects b \<and> next_ids d'' = next_ids b \<and> active_sessions d'' = active_sessions b \<and>
    undo_disabled d'' = undo_disabled b \<and> undo_stack d'' = take k (undo_stack b) \<and>
    k \<ge> max_undo_size b - depths cs"
proof -
  have s: "s = \<lparr>apply_undo = True, disable_on_exit = undo_disabled b \<and> f\<rparr>"
    using start_session_frame(3) [where d = b and f = f] assms(4) by simp
  obtain ok d' k where d': "execs cs d = Some (ok, d')" "in_session b (take k (undo_stack b)) d'"
    "k \<ge> max_undo_size b - depths cs" "active_sessions d' = Suc (active_sessions b)"
    using session_runs [OF assms] .
  moreover have "\<not> undo_disabled d'" using d'(2) by (simp add: in_session_def)
  ultimately show ?thesis
    using s assms(2) undo_back [OF d'(2)] by (auto simp: session_destroy_def undo_disable_def)
qed

definition demo_db :: "nat undo_database" where
  "demo_db = \<lparr>objects = [Oid 1 2 0 \<mapsto> 10, Oid 1 2 1 \<mapsto> 11], next_ids = [Oid 1 2 0 \<mapsto> Oid 1 2 2],
     undo_stack = [], active_sessions = 0, undo_disabled = False, max_undo_size = 256\<rparr>"

lemma demo_db_fresh: "fresh_ids demo_db"
  by (auto simp: fresh_ids_def demo_db_def index_of_def)

definition demo_cmds :: "nat cmd list" where
  "demo_cmds = [Op (Create (Oid 1 2 0) (\<lambda>_. 12)), Op (Modify (Oid 1 2 0) (\<lambda>x. x + 1)),
     Nested True False [Op (Remove (Oid 1 2 0)), Op (Modify (Oid 1 2 2) (\<lambda>x. x + 1))]]"

theorem session_restores_witness:
  "\<exists>ok d' d'' k. execs demo_cmds (snd (start_undo_session False demo_db)) = Some (ok, d') \<and>
    session_destroy (fst (start_undo_session False demo_db)) d' = Some d'' \<and>
    objects d'' = objects demo_db \<and> next_ids d'' = next_ids demo_db \<and> active_sessions d'' = active_sessions demo_db \<and>
    undo_disabled d'' = undo_disabled demo_db \<and> undo_stack d'' = take k (undo_stack demo_db) \<and>
    k \<ge> max_undo_size demo_db - depths demo_cmds"
  by (rule session_restores [where f = False])
    (simp_all add: demo_db_fresh, simp_all add: demo_db_def demo_cmds_def)

text \<open>
  (C24) Merging implements the matrix in the comments of \<^verbatim>\<open>undo_database::merge\<close>: when the newer state
  leads from \<open>d\<close> back to \<open>m\<close> and the older from \<open>m\<close> back to \<open>b\<close>, the merged state leads from \<open>d\<close>
  back to \<open>b\<close>, and it records for each object the composition of the two changes.
\<close>

theorem merge_composes:
  assumes "undoes B d m" "undoes A m b" "fresh_ids b" "next_mono b m"
  shows "undoes (merge_states A B) d b \<and>
    change_of (merge_states A B) i = compose_change (change_of A i) (change_of B i)"
  using undoes_merge [OF assms] merge_states_change [of A B] undoes_meet [OF assms] assms(1,2)
  by (simp add: undoes_def)

definition demo_older :: "nat undo_state" where
  "demo_older = empty_undo_state\<lparr>old_values := [(Oid 1 2 0, 10)]\<rparr>"

definition demo_newer :: "nat undo_state" where
  "demo_newer = empty_undo_state\<lparr>removed_values := [(Oid 1 2 0, 11)]\<rparr>"

theorem merge_composes_witness:
  "undoes (merge_states demo_older demo_newer) (demo_db\<lparr>objects := [Oid 1 2 1 \<mapsto> 11]\<rparr>) demo_db \<and>
   change_of (merge_states demo_older demo_newer) (Oid 1 2 0) = Del 10"
proof -
  let ?m = "demo_db\<lparr>objects := [Oid 1 2 0 \<mapsto> 11, Oid 1 2 1 \<mapsto> 11]\<rparr>"
  have "undoes demo_newer (demo_db\<lparr>objects := [Oid 1 2 1 \<mapsto> 11]\<rparr>) ?m"
    and "undoes demo_older ?m demo_db" and "next_mono demo_db ?m"
    by (simp_all add: undo_defs next_mono_def demo_newer_def demo_older_def empty_undo_state_def demo_db_def)
  from merge_composes [OF this(1,2) demo_db_fresh this(3), of "Oid 1 2 0"] show ?thesis
    by (simp add: change_of_def demo_newer_def demo_older_def empty_undo_state_def)
qed

text \<open>
  (C25) A committed session is undone by \<^verbatim>\<open>pop_commit()\<close>: after any operations, \<^verbatim>\<open>commit()\<close> and
  \<^verbatim>\<open>pop_commit()\<close> both return, and every object and every next identifier is that of the start of the
  session, on the stack of undo states below it. This is how a block is popped.
\<close>

theorem pop_commit_restores:
  assumes "fresh_ids b" "\<not> undo_disabled b" "depths cs \<le> max_undo_size b" "active_sessions b = 0"
    and "start_undo_session f b = (s, d)"
  shows "\<exists>ok d1 d2 d3 k. execs cs d = Some (ok, d1) \<and> session_commit s d1 = Some (s\<lparr>apply_undo := False\<rparr>, d2) \<and>
    pop_commit d2 = Some d3 \<and> objects d2 = objects d1 \<and>
    objects d3 = objects b \<and> next_ids d3 = next_ids b \<and> active_sessions d3 = 0 \<and>
    \<not> undo_disabled d3 \<and> undo_stack d3 = take k (undo_stack b) \<and> k \<ge> max_undo_size b - depths cs"
proof -
  obtain ok d' k where d': "execs cs d = Some (ok, d')" "in_session b (take k (undo_stack b)) d'"
    "k \<ge> max_undo_size b - depths cs" "active_sessions d' = Suc (active_sessions b)"
    using session_runs [OF assms(1) disjI1 [OF assms(2)] assms(3,5)] .
  obtain st where st: "undo_stack d' = st # take k (undo_stack b)" "undoes st d' b" "fresh_ids d'"
    using d'(2) by (auto simp: in_session_def)
  let ?d = "d'\<lparr>active_sessions := 0, undo_disabled := True\<rparr>"
  have "revert_state st ?d = Some (?d\<lparr>objects := objects b, next_ids := next_ids b\<rparr>)"
    using st assms(1) undoes_cong [of ?d d'] fresh_ids_cong [of ?d d'] by (intro revert_state_back) simp_all
  then show ?thesis
    using d' st(1) assms(4) by (auto simp: session_commit_def commit_def pop_commit_def undo_disable_def undo_enable_def)
qed

theorem pop_commit_restores_witness:
  "\<exists>ok d1 d2 d3 k. execs demo_cmds (snd (start_undo_session False demo_db)) = Some (ok, d1) \<and>
    session_commit (fst (start_undo_session False demo_db)) d1
      = Some ((fst (start_undo_session False demo_db))\<lparr>apply_undo := False\<rparr>, d2) \<and>
    pop_commit d2 = Some d3 \<and> objects d2 = objects d1 \<and>
    objects d3 = objects demo_db \<and> next_ids d3 = next_ids demo_db \<and> active_sessions d3 = 0 \<and>
    \<not> undo_disabled d3 \<and> undo_stack d3 = take k (undo_stack demo_db) \<and>
    k \<ge> max_undo_size demo_db - depths demo_cmds"
  by (rule pop_commit_restores [where f = False])
    (simp_all add: demo_db_fresh, simp_all add: demo_db_def demo_cmds_def)

end
