(* ===== verification/Allocation.thy ===== *)
theory Allocation
  imports External
begin

text \<open>
  The META1 smooth allocation of backing properties: \<^verbatim>\<open>libraries/chain/allocation.cpp\<close>,
  \<^verbatim>\<open>property_object.cpp\<close>, the object of \<^verbatim>\<open>property_object.hpp\<close> and the options of
  \<^verbatim>\<open>libraries/protocol/property_ops.hpp\<close>.

  A property's contribution grows in one-minute steps: the first quarter over its initial
  counter, the other three quarters over its approval counter. The theorems: the progress is the
  exact fraction with no overflow of its 32-bit rational, and the contribution is ten times the
  appraised value times the progress, rounded up by less than one satoshi.
\<close>

section \<open>The property object\<close>

record property_options =
  description :: string
  title :: string
  owner_contact_email :: string
  custodian :: string
  detailed_document_link :: string
  image_url :: string
  property_assignee :: string
  property_surety_bond_value :: uint64
  property_surety_bond_number :: uint64

record property_object =
  property_id :: uint32
  prop_issuer :: account_id_type
  appraised_property_value :: uint64
  allocation_duration_minutes :: uint32
  backed_by_asset_symbol :: string
  options :: property_options
  creation_date :: time_point_sec
  approval_date :: "time_point_sec option"
  expired :: bool
  initial_end_date :: time_point_sec
  initial_counter :: uint32
  initial_counter_max :: uint32
  approval_end_date :: time_point_sec
  approval_counter :: uint32
  approval_counter_max :: uint32
  next_allocation_date :: time_point_sec

section \<open>Start times and parameters\<close>

record appreciation_period_parameters =
  time_to_25_percent :: time_point_sec
  time_to_25_percent_intervals :: uint32
  time_to_100_percent :: time_point_sec
  time_to_100_percent_intervals :: uint32

record appreciation_restart_parameters =
  restart_time :: time_point_sec
  intervals_to_end :: uint32

definition META1_REFERENCE_TIME :: time_point_sec where
  [chain_consts]: "META1_REFERENCE_TIME = 0"
definition META1_INTERVAL_BETWEEN_ALLOCATION_SECONDS :: uint32 where
  [chain_consts]: "META1_INTERVAL_BETWEEN_ALLOCATION_SECONDS = 60"

definition calc_next_start_time :: "fc_lib \<Rightarrow> time_point_sec \<Rightarrow> time_point_sec \<Rightarrow> uint32 \<Rightarrow> time_point_sec" where
  "calc_next_start_time L current_time epoch interval_seconds =
     (let duration_since_epoch_seconds = u32 (current_time - epoch);
          intervals_since_epoch = duration_since_epoch_seconds div interval_seconds;
          next_interval = u32 (intervals_since_epoch + 1);
          duration_to_next_interval_seconds = u32 (next_interval * interval_seconds)
      in tps_add L epoch duration_to_next_interval_seconds)"

definition calc_preceding_start_time :: "fc_lib \<Rightarrow> time_point_sec \<Rightarrow> time_point_sec \<Rightarrow> uint32 \<Rightarrow> time_point_sec" where
  "calc_preceding_start_time L current_time epoch interval_seconds =
     (let duration_since_epoch_seconds = u32 (current_time - epoch);
          intervals_since_epoch = duration_since_epoch_seconds div interval_seconds;
          duration_to_preceding_interval_seconds = u32 (intervals_since_epoch * interval_seconds)
      in tps_add L epoch duration_to_preceding_interval_seconds)"

definition calc_meta1_next_start_time :: "fc_lib \<Rightarrow> time_point_sec \<Rightarrow> time_point_sec" where
  "calc_meta1_next_start_time L current_time =
     calc_next_start_time L current_time META1_REFERENCE_TIME META1_INTERVAL_BETWEEN_ALLOCATION_SECONDS"

definition calc_meta1_preceding_start_time :: "fc_lib \<Rightarrow> time_point_sec \<Rightarrow> time_point_sec" where
  "calc_meta1_preceding_start_time L current_time =
     calc_preceding_start_time L current_time META1_REFERENCE_TIME META1_INTERVAL_BETWEEN_ALLOCATION_SECONDS"

definition calc_meta1_allocation_initial_parameters ::
  "fc_lib \<Rightarrow> time_point_sec \<Rightarrow> uint32 \<Rightarrow> appreciation_period_parameters option" where
  "calc_meta1_allocation_initial_parameters L start_time duration_seconds = do {
     let duration_since_reference_seconds = u32 (start_time - META1_REFERENCE_TIME);
     fc_assert (duration_since_reference_seconds mod META1_INTERVAL_BETWEEN_ALLOCATION_SECONDS = 0);
     fc_assert (duration_seconds mod META1_INTERVAL_BETWEEN_ALLOCATION_SECONDS = 0);
     let total = duration_seconds div META1_INTERVAL_BETWEEN_ALLOCATION_SECONDS;
     Some \<lparr>time_to_25_percent = tps_add L start_time (duration_seconds div 4),
           time_to_25_percent_intervals = total div 4,
           time_to_100_percent = tps_add L start_time duration_seconds,
           time_to_100_percent_intervals = total\<rparr>
   }"

definition calc_meta1_allocation_restart_parameters ::
  "fc_lib \<Rightarrow> time_point_sec \<Rightarrow> time_point_sec \<Rightarrow> appreciation_restart_parameters option" where
  "calc_meta1_allocation_restart_parameters L current_time end_time = do {
     fc_assert (current_time < end_time);
     let restart = calc_meta1_preceding_start_time L current_time;
     let duration_seconds = u32 (end_time - restart);
     Some \<lparr>restart_time = restart,
           intervals_to_end = duration_seconds div META1_INTERVAL_BETWEEN_ALLOCATION_SECONDS\<rparr>
   }"

section \<open>Progress and contribution\<close>

text \<open>The conversion of a \<^verbatim>\<open>uint32_t\<close> to the \<^verbatim>\<open>int32_t\<close> of \<^verbatim>\<open>ratio_type\<close>.\<close>

definition s32 :: "int \<Rightarrow> int" where
  "s32 x = (x + 2 ^ 31) mod 2 ^ 32 - 2 ^ 31"

text \<open>The result \<open>None\<close> is \<^verbatim>\<open>boost::bad_rational\<close>, a zero denominator.\<close>

definition get_allocation_progress :: "fc_lib \<Rightarrow> property_object \<Rightarrow> (int \<times> int) option" where
  "get_allocation_progress L p = do {
     initial \<leftarrow> rat_make L 32 (s32 (initial_counter p)) (s32 (initial_counter_max p));
     approval \<leftarrow> rat_make L 32 (s32 (approval_counter p)) (s32 (approval_counter_max p));
     let a = rat_div_int L 32 initial 4;
     let b = rat_div_int L 32 (rat_mul_int L 32 approval 3) 4;
     Some (rat_add L 32 a b)
   }"

text \<open>
  The exceptions of \<^verbatim>\<open>calc_meta1_contribution\<close> are of two kinds, which its callers treat
  differently: \<open>Inl False\<close> is \<^verbatim>\<open>boost::bad_rational\<close>, \<open>Inl True\<close> an \<^verbatim>\<open>fc::exception\<close>.
\<close>

definition calc_meta1_contribution :: "fc_lib \<Rightarrow> property_object \<Rightarrow> bool + uint64" where
  "calc_meta1_contribution L p =
     (let c128 = u128 (appraised_property_value p * 10)
      in case get_allocation_progress L p of
        None \<Rightarrow> Inl False
      | Some (num, den) \<Rightarrow>
          (let multiplication_result = u128 (u128 (u128 (c128 * num) + den) - 1) div den
           in if multiplication_result \<le> 2 ^ 64 - 1 then Inr (u64 (s64 multiplication_result)) else Inl True))"

section \<open>The exact progress\<close>

definition MAX_INTERVALS :: int where
  [chain_consts]: "MAX_INTERVALS = 2 ^ 32 div 60"

text \<open>What the evaluators and the allocation keep true of every property.\<close>

definition property_wf :: "property_object \<Rightarrow> bool" where
  "property_wf p \<longleftrightarrow>
     0 \<le> appraised_property_value p \<and> appraised_property_value p < 2 ^ 64 \<and>
     0 \<le> initial_counter p \<and> initial_counter p \<le> initial_counter_max p \<and>
     1 \<le> initial_counter_max p \<and> initial_counter_max p \<le> MAX_INTERVALS \<and>
     0 \<le> approval_counter p \<and> approval_counter p \<le> approval_counter_max p \<and>
     1 \<le> approval_counter_max p \<and> approval_counter_max p \<le> MAX_INTERVALS \<and>
     (0 < approval_counter p \<longrightarrow> initial_counter p = initial_counter_max p)"

definition progress :: "property_object \<Rightarrow> rat" where
  "progress p = of_int (initial_counter p) / of_int (initial_counter_max p) / 4 +
     3 * (of_int (approval_counter p) / of_int (approval_counter_max p)) / 4"

definition contribution :: "property_object \<Rightarrow> int" where
  "contribution p = \<lceil>of_int (10 * appraised_property_value p) * progress p\<rceil>"

lemma progress_range: "property_wf p \<Longrightarrow> 0 \<le> progress p \<and> progress p \<le> 1"
proof -
  assume wf: "property_wf p"
  have "of_int (initial_counter p) / of_int (initial_counter_max p) \<le> (1::rat)"
    "of_int (approval_counter p) / of_int (approval_counter_max p) \<le> (1::rat)"
    "0 \<le> of_int (initial_counter p) / (of_int (initial_counter_max p) :: rat)"
    "0 \<le> of_int (approval_counter p) / (of_int (approval_counter_max p) :: rat)"
    using wf by (simp_all add: property_wf_def)
  then show ?thesis by (simp add: progress_def)
qed

lemma contribution_nonneg: "property_wf p \<Longrightarrow> 0 \<le> contribution p"
proof -
  assume wf: "property_wf p"
  then have "0 \<le> of_int (10 * appraised_property_value p) * progress p"
    using progress_range [OF wf] by (intro mult_nonneg_nonneg) (simp_all add: property_wf_def)
  then show ?thesis unfolding contribution_def by linarith
qed

text \<open>The value of a fraction, and the bounds of its lowest terms.\<close>

definition frac_value :: "int \<times> int \<Rightarrow> rat" where
  "frac_value r = of_int (fst r) / of_int (snd r)"

lemma normalize_value: "d \<noteq> 0 \<Longrightarrow> frac_value (Rat.normalize (n, d)) = of_int n / of_int d"
proof -
  assume d: "d \<noteq> 0"
  have "snd (Rat.normalize (n, d)) > 0" using normalize_lowest [of n d] by (simp add: in_lowest_terms_def)
  moreover have "(of_int (fst (Rat.normalize (n, d)) * d) :: rat) = of_int (n * snd (Rat.normalize (n, d)))"
    using normalize_cross [OF d, of n] by simp
  ultimately show ?thesis using d by (simp add: frac_value_def frac_eq_eq)
qed

lemma normalize_bounds:
  assumes "0 \<le> n" "0 < d"
  shows "0 \<le> fst (Rat.normalize (n, d))" "fst (Rat.normalize (n, d)) \<le> n"
    and "0 < snd (Rat.normalize (n, d))" "snd (Rat.normalize (n, d)) \<le> d"
  using assms normalize_pos [of n d] by (cases "n = 0"; simp add: Rat.normalize_def)+

lemma s32_id: "0 \<le> x \<Longrightarrow> x \<le> MAX_INTERVALS \<Longrightarrow> s32 x = x"
  by (simp add: s32_def chain_consts)

lemma fits_32: "\<bar>x\<bar> < 2147483648 \<Longrightarrow> fits 32 x"
  by (simp add: fits_def)

lemma div_up_neg: "0 < d \<Longrightarrow> - ((- a) div d) = (a + d - 1) div d" for a d :: int
  using div_up_le_iff [of d a] int_le_div_iff [of d _ "- a"] unfolding div_up_def
  by (metis add.inverse_inverse antisym minus_le_iff mult_minus_left neg_le_iff_le order_refl)

context boost_rational
begin

text \<open>Dividing, scaling and adding the small fractions of the allocation is exact.\<close>

lemma div4_exact:
  assumes "in_lowest_terms (n, d)" "0 \<le> n" "n < 2 ^ 29" "d < 2 ^ 29"
  obtains n' d' where "rat_div_int L 32 (n, d) 4 = (n', d')" "in_lowest_terms (n', d')"
    "frac_value (n', d') = frac_value (n, d) / 4" "0 \<le> n'" "n' \<le> n" "0 < d'" "d' \<le> 4 * d"
proof -
  have d: "0 < d" using assms(1) by (simp add: in_lowest_terms_def)
  have e: "rat_div_int L 32 (n, d) 4 = Rat.normalize (n, d * 4)"
    using assms d by (intro rat_div_int) (auto intro!: fits_32)
  show ?thesis
    using that [of "fst (Rat.normalize (n, d * 4))" "snd (Rat.normalize (n, d * 4))"]
      e normalize_bounds [of n "d * 4"] normalize_lowest [of n "d * 4"] normalize_value [of "d * 4" n] assms d
    by (simp add: frac_value_def mult.commute)
qed

lemma mul3_exact:
  assumes "in_lowest_terms (n, d)" "0 \<le> n" "n < 2 ^ 29" "d < 2 ^ 29"
  obtains n' d' where "rat_mul_int L 32 (n, d) 3 = (n', d')" "in_lowest_terms (n', d')"
    "frac_value (n', d') = 3 * frac_value (n, d)" "0 \<le> n'" "n' \<le> 3 * n" "0 < d'" "d' \<le> d"
proof -
  have d: "0 < d" using assms(1) by (simp add: in_lowest_terms_def)
  have e: "rat_mul_int L 32 (n, d) 3 = Rat.normalize (n * 3, d)"
    using assms d by (intro rat_mul_int) (auto intro!: fits_32)
  show ?thesis
    using that [of "fst (Rat.normalize (n * 3, d))" "snd (Rat.normalize (n * 3, d))"]
      e normalize_bounds [of "n * 3" d] normalize_lowest [of "n * 3" d] normalize_value [of d "n * 3"] assms d
    by (simp add: frac_value_def mult.commute)
qed

lemma add_exact:
  assumes "in_lowest_terms (n1, d1)" "in_lowest_terms (n2, d2)" "0 \<le> n1" "0 \<le> n2"
    and "n1 * d2 + n2 * d1 < 2 ^ 31" "d1 * d2 < 2 ^ 31"
  obtains n d where "rat_add L 32 (n1, d1) (n2, d2) = (n, d)"
    "frac_value (n, d) = frac_value (n1, d1) + frac_value (n2, d2)" "0 \<le> n" "0 < d" "d < 2 ^ 31" "n < 2 ^ 31"
proof -
  have d: "0 < d1" "0 < d2" using assms(1,2) by (simp_all add: in_lowest_terms_def)
  then have nn: "0 \<le> n1 * d2" "0 \<le> n2 * d1" "0 < d1 * d2" using assms(3,4) by simp_all
  have e: "rat_add L 32 (n1, d1) (n2, d2) = Rat.normalize (n1 * d2 + n2 * d1, d1 * d2)"
    using assms nn by (intro rat_add) (auto intro!: fits_32)
  have "(of_int (n1 * d2 + n2 * d1) :: rat) / of_int (d1 * d2) = of_int n1 / of_int d1 + of_int n2 / of_int d2"
    using d by (simp add: field_simps)
  then show ?thesis
    using that [of "fst (Rat.normalize (n1 * d2 + n2 * d1, d1 * d2))" "snd (Rat.normalize (n1 * d2 + n2 * d1, d1 * d2))"]
      e normalize_bounds [of "n1 * d2 + n2 * d1" "d1 * d2"] normalize_value [of "d1 * d2" "n1 * d2 + n2 * d1"] assms(5,6) nn d
    by (simp add: frac_value_def)
qed

lemma make_exact:
  assumes "0 \<le> n" "n \<le> d" "1 \<le> d" "d \<le> MAX_INTERVALS"
  obtains n' d' where "rat_make L 32 (s32 n) (s32 d) = Some (n', d')" "in_lowest_terms (n', d')"
    "frac_value (n', d') = of_int n / of_int d" "0 \<le> n'" "n' \<le> d'" "d' \<le> MAX_INTERVALS"
    "n = 0 \<longrightarrow> (n', d') = (0, 1)" "n = d \<longrightarrow> (n', d') = (1, 1)"
proof -
  have "rat_make L 32 (s32 n) (s32 d) = Some (Rat.normalize (n, d))"
    using assms by (subst rat_make) (auto simp: s32_id chain_consts intro!: fits_32)
  moreover have "fst (Rat.normalize (n, d)) \<le> snd (Rat.normalize (n, d))"
    using assms by (auto simp: Rat.normalize_def Let_def intro!: zdiv_mono1)
  moreover have "n = d \<longrightarrow> Rat.normalize (n, d) = (1, 1)" "n = 0 \<longrightarrow> Rat.normalize (n, d) = (0, 1)"
    using assms by (auto simp: Rat.normalize_def)
  ultimately show ?thesis
    using that [of "fst (Rat.normalize (n, d))" "snd (Rat.normalize (n, d))"]
      normalize_bounds [of n d] normalize_lowest [of n d] normalize_value [of d n] assms
    by auto
qed

lemma progress_exact:
  assumes wf: "property_wf p"
  obtains n d where "get_allocation_progress L p = Some (n, d)" "frac_value (n, d) = progress p"
    "0 \<le> n" "n < 2 ^ 31" "0 < d" "d < 2 ^ 31"
proof -
  have b: "0 \<le> initial_counter p" "initial_counter p \<le> initial_counter_max p" "1 \<le> initial_counter_max p"
    "initial_counter_max p \<le> MAX_INTERVALS" "0 \<le> approval_counter p" "approval_counter p \<le> approval_counter_max p"
    "1 \<le> approval_counter_max p" "approval_counter_max p \<le> MAX_INTERVALS"
    using wf by (simp_all add: property_wf_def)
  obtain n1 d1 where r1: "rat_make L 32 (s32 (initial_counter p)) (s32 (initial_counter_max p)) = Some (n1, d1)"
    "in_lowest_terms (n1, d1)" "frac_value (n1, d1) = of_int (initial_counter p) / of_int (initial_counter_max p)"
    "0 \<le> n1" "n1 \<le> d1" "d1 \<le> MAX_INTERVALS" "initial_counter p = initial_counter_max p \<longrightarrow> (n1, d1) = (1, 1)"
    using make_exact [OF b(1-4)] .
  obtain n2 d2 where r2: "rat_make L 32 (s32 (approval_counter p)) (s32 (approval_counter_max p)) = Some (n2, d2)"
    "in_lowest_terms (n2, d2)" "frac_value (n2, d2) = of_int (approval_counter p) / of_int (approval_counter_max p)"
    "0 \<le> n2" "n2 \<le> d2" "d2 \<le> MAX_INTERVALS" "approval_counter p = 0 \<longrightarrow> (n2, d2) = (0, 1)"
    using make_exact [OF b(5-8)] .
  obtain n3 d3 where r3: "rat_div_int L 32 (n1, d1) 4 = (n3, d3)" "in_lowest_terms (n3, d3)"
    "frac_value (n3, d3) = frac_value (n1, d1) / 4" "0 \<le> n3" "n3 \<le> n1" "0 < d3" "d3 \<le> 4 * d1"
    by (rule div4_exact [OF r1(2,4)]) (use r1 in \<open>auto simp: chain_consts\<close>)
  obtain n4 d4 where r4: "rat_mul_int L 32 (n2, d2) 3 = (n4, d4)" "in_lowest_terms (n4, d4)"
    "frac_value (n4, d4) = 3 * frac_value (n2, d2)" "0 \<le> n4" "n4 \<le> 3 * n2" "0 < d4" "d4 \<le> d2"
    by (rule mul3_exact [OF r2(2,4)]) (use r2 in \<open>auto simp: chain_consts\<close>)
  obtain n5 d5 where r5: "rat_div_int L 32 (n4, d4) 4 = (n5, d5)" "in_lowest_terms (n5, d5)"
    "frac_value (n5, d5) = frac_value (n4, d4) / 4" "0 \<le> n5" "n5 \<le> n4" "0 < d5" "d5 \<le> 4 * d4"
    by (rule div4_exact [OF r4(2,4)]) (use r2 r4 in \<open>auto simp: chain_consts\<close>)
  have small: "n3 * d5 + n5 * d3 < 2 ^ 31 \<and> d3 * d5 < 2 ^ 31"
  proof (cases "approval_counter p = 0")
    case True
    then have "n5 = 0" using r2 r4 r5 by auto
    then have "d5 = 1" using r5(2,6) by (simp add: in_lowest_terms_def)
    then show ?thesis using \<open>n5 = 0\<close> r1 r3 by (auto simp: chain_consts)
  next
    case False
    then have "(n1, d1) = (1, 1)" using wf b r1(7) by (simp add: property_wf_def)
    then have l: "n3 \<le> 1" "d3 \<le> 4" "d5 \<le> 4 * MAX_INTERVALS" "n5 \<le> 3 * MAX_INTERVALS" using r2 r3 r4 r5 by auto
    then have "n3 * d5 \<le> 1 * (4 * MAX_INTERVALS)" "n5 * d3 \<le> 3 * MAX_INTERVALS * 4" "d3 * d5 \<le> 4 * (4 * MAX_INTERVALS)"
      using r3 r5 by (intro mult_mono; simp add: chain_consts)+
    then show ?thesis by (simp add: chain_consts)
  qed
  obtain n d where r6: "rat_add L 32 (n3, d3) (n5, d5) = (n, d)"
    "frac_value (n, d) = frac_value (n3, d3) + frac_value (n5, d5)" "0 \<le> n" "0 < d" "d < 2 ^ 31" "n < 2 ^ 31"
    by (rule add_exact [OF r3(2) r5(2) r3(4) r5(4)]) (use small in auto)
  show ?thesis
    using that [of n d] r1(1,3) r2(1,3) r3(1,3) r4(1,3) r5(1,3) r6
    by (simp add: get_allocation_progress_def progress_def)
qed

text \<open>The contribution is the exact product rounded up; it is refused when it exceeds 64 bits.\<close>

lemma contribution_exact:
  assumes wf: "property_wf p"
  shows "calc_meta1_contribution L p = (if contribution p < 2 ^ 64 then Inr (contribution p) else Inl True)"
proof -
  obtain n d where nd: "get_allocation_progress L p = Some (n, d)" "frac_value (n, d) = progress p"
    "0 \<le> n" "n < 2 ^ 31" "0 < d" "d < 2 ^ 31"
    using progress_exact [OF wf] .
  let ?c = "appraised_property_value p * 10"
  have c: "0 \<le> ?c" "?c < 2 ^ 68" using wf by (simp_all add: property_wf_def)
  have prod: "0 \<le> ?c * n" "?c * n < 2 ^ 68 * 2 ^ 31"
    using c nd(3,4) by (simp, intro mult_strict_mono') auto
  have "u128 (u128 (u128 x + d) - 1) = x + d - 1" if "0 \<le> x" "x < 2 ^ 68 * 2 ^ 31" for x
    using that nd(5,6) by simp
  from this [OF prod] have "u128 (u128 (u128 (u128 ?c * n) + d) - 1) = ?c * n + d - 1"
    using c by simp
  moreover have "(?c * n + d - 1) div d = contribution p"
  proof -
    have "of_int (10 * appraised_property_value p) * progress p = of_int (?c * n) / of_int d"
      unfolding nd(2) [symmetric] by (simp add: frac_value_def mult.commute)
    then have "contribution p = \<lceil>(of_int (?c * n) :: rat) / of_int d\<rceil>" by (simp add: contribution_def)
    also have "\<dots> = - ((- (?c * n)) div d)" by (rule ceiling_divide_eq_div)
    also have "\<dots> = (?c * n + d - 1) div d"
      using nd(5) by (simp add: div_up_neg)
    finally show ?thesis by simp
  qed
  moreover have "0 \<le> contribution p" by (rule contribution_nonneg [OF wf])
  ultimately show ?thesis using nd(1) by (auto simp: calc_meta1_contribution_def Let_def)
qed

end

section \<open>Properties\<close>

definition demo_options :: property_options where
  "demo_options = \<lparr>description = ''gold'', title = ''bar'', owner_contact_email = ''a@b.c'', custodian = ''vault'',
     detailed_document_link = ''doc'', image_url = ''i'', property_assignee = ''x'',
     property_surety_bond_value = 1, property_surety_bond_number = 1\<rparr>"

definition demo_property :: property_object where
  "demo_property = \<lparr>property_id = 7, prop_issuer = 3, appraised_property_value = 33, allocation_duration_minutes = 4,
     backed_by_asset_symbol = ''META1'', options = demo_options, creation_date = 60, approval_date = Some 60,
     expired = False, initial_end_date = 120, initial_counter = 1, initial_counter_max = 1, approval_end_date = 300,
     approval_counter = 1, approval_counter_max = 3, next_allocation_date = 240\<rparr>"

lemma demo_property_wf: "property_wf demo_property"
  by (simp add: property_wf_def demo_property_def chain_consts)

text \<open>
  The allocation progress of a well-formed property is the exact fraction
  \<open>initial / initial_max / 4 + 3 * approval / approval_max / 4\<close>, between 0 and 1: none of the
  32-bit operations of \<^verbatim>\<open>ratio_type\<close> overflows, because the approval counter only moves once the
  initial counter is at its maximum.
\<close>

theorem allocation_progress_exact:
  assumes "boost_rational L" "property_wf p"
  shows "\<exists>n d. get_allocation_progress L p = Some (n, d) \<and> 0 < d \<and>
    of_int n / of_int d = progress p \<and> 0 \<le> progress p \<and> progress p \<le> 1"
  using boost_rational.progress_exact [OF assms] progress_range [OF assms(2)]
  by (metis frac_value_def fst_conv snd_conv)

theorem allocation_progress_exact_witness:
  "\<exists>n d. get_allocation_progress checked_lib demo_property = Some (n, d) \<and> 0 < d \<and> (of_int n / of_int d :: rat) = 1 / 2"
  using allocation_progress_exact [OF checked_lib_rational demo_property_wf]
  by (simp add: progress_def demo_property_def)

text \<open>
  (C40) \<^verbatim>\<open>calc_meta1_contribution\<close> is ten times the appraised value times the progress, rounded up, so
  it exceeds the exact value by less than one satoshi, and it never exceeds ten times the
  appraised value; it throws an \<^verbatim>\<open>fc::exception\<close> exactly when the result does not fit 64 bits, and the
  128-bit product and the casts lose nothing.
\<close>

theorem contribution_error_below_one:
  assumes "boost_rational L" "property_wf p"
  shows "(contribution p < 2 ^ 64 \<longrightarrow> calc_meta1_contribution L p = Inr (contribution p)) \<and>
    (2 ^ 64 \<le> contribution p \<longrightarrow> calc_meta1_contribution L p = Inl True) \<and>
    of_int (10 * appraised_property_value p) * progress p \<le> of_int (contribution p) \<and>
    of_int (contribution p) < of_int (10 * appraised_property_value p) * progress p + 1 \<and>
    0 \<le> contribution p \<and> contribution p \<le> 10 * appraised_property_value p"
proof -
  have v: "0 \<le> appraised_property_value p" using assms(2) by (simp add: property_wf_def)
  then have "of_int (10 * appraised_property_value p) * progress p \<le> of_int (10 * appraised_property_value p)"
    using progress_range [OF assms(2)] by (intro mult_left_le) simp_all
  then have "contribution p \<le> 10 * appraised_property_value p"
    unfolding contribution_def by (simp add: ceiling_le_iff)
  moreover have "0 \<le> contribution p" by (rule contribution_nonneg [OF assms(2)])
  moreover have "of_int (10 * appraised_property_value p) * progress p \<le> of_int (contribution p)"
    unfolding contribution_def by (rule le_of_int_ceiling)
  moreover have "of_int (contribution p) < of_int (10 * appraised_property_value p) * progress p + 1"
    unfolding contribution_def by linarith
  ultimately show ?thesis using boost_rational.contribution_exact [OF assms] by simp
qed

theorem contribution_error_below_one_witness: "calc_meta1_contribution checked_lib demo_property = Inr 165"
proof -
  have "contribution demo_property = 165"
    by (simp add: contribution_def progress_def demo_property_def ceiling_eq_iff)
  then show ?thesis
    using contribution_error_below_one [OF checked_lib_rational demo_property_wf] by simp
qed

end
