(* ===== verification/Tables.thy ===== *)
theory Tables
  imports Prelude
begin

text \<open>
  Tables of chain objects: the typed view of the object database that the evaluators work
  on. A table holds its objects in the order of their instance numbers, which is the order
  in which the code iterates over the index \<^verbatim>\<open>by_id\<close>, and the next instance number. The
  unique secondary indexes (by name, by symbol) are searches for the first match; the
  evaluators check for an existing key before they create an object.
\<close>

record 'o tbl =
  rows :: "(nat \<times> 'o) list"
  next_instance :: nat

definition tbl_empty :: "'o tbl" where
  "tbl_empty = \<lparr>rows = [], next_instance = 0\<rparr>"

definition tbl_get :: "nat \<Rightarrow> 'o tbl \<Rightarrow> 'o option" where
  "tbl_get i t = map_of (rows t) i"

definition tbl_find :: "('o \<Rightarrow> bool) \<Rightarrow> 'o tbl \<Rightarrow> (nat \<times> 'o) option" where
  "tbl_find P t = List.find (\<lambda>r. P (snd r)) (rows t)"

definition tbl_create :: "'o \<Rightarrow> 'o tbl \<Rightarrow> nat \<times> 'o tbl" where
  "tbl_create v t = (next_instance t, \<lparr>rows = rows t @ [(next_instance t, v)], next_instance = Suc (next_instance t)\<rparr>)"

definition tbl_modify :: "nat \<Rightarrow> ('o \<Rightarrow> 'o) \<Rightarrow> 'o tbl \<Rightarrow> 'o tbl" where
  "tbl_modify i f t = t\<lparr>rows := map (\<lambda>(j, v). (j, if j = i then f v else v)) (rows t)\<rparr>"

definition tbl_remove :: "nat \<Rightarrow> 'o tbl \<Rightarrow> 'o tbl" where
  "tbl_remove i t = t\<lparr>rows := filter (\<lambda>r. fst r \<noteq> i) (rows t)\<rparr>"

text \<open>The well-formed tables: instance numbers are ascending and were all handed out.\<close>

definition tbl_wf :: "'o tbl \<Rightarrow> bool" where
  "tbl_wf t \<longleftrightarrow> sorted_wrt (<) (map fst (rows t)) \<and> (\<forall>r \<in> set (rows t). fst r < next_instance t)"

section \<open>The contract of a table\<close>

text \<open>What the evaluators rely on, for any implementation of the five operations.\<close>

locale object_table =
  fixes wf :: "'t \<Rightarrow> bool"
    and get :: "nat \<Rightarrow> 't \<Rightarrow> 'o option"
    and create :: "'o \<Rightarrow> 't \<Rightarrow> nat \<times> 't"
    and modify :: "nat \<Rightarrow> ('o \<Rightarrow> 'o) \<Rightarrow> 't \<Rightarrow> 't"
    and remove :: "nat \<Rightarrow> 't \<Rightarrow> 't"
  assumes create_wf: "wf t \<Longrightarrow> wf (snd (create v t))"
    and modify_wf: "wf t \<Longrightarrow> wf (modify i f t)"
    and remove_wf: "wf t \<Longrightarrow> wf (remove i t)"
    and create_fresh: "wf t \<Longrightarrow> get (fst (create v t)) t = None"
    and get_create: "wf t \<Longrightarrow> get j (snd (create v t)) = (if j = fst (create v t) then Some v else get j t)"
    and get_modify: "get j (modify i f t) = (if j = i then map_option f (get i t) else get j t)"
    and get_remove: "wf t \<Longrightarrow> get j (remove i t) = (if j = i then None else get j t)"
begin

lemma create_remove: "wf t \<Longrightarrow> get j (remove (fst (create v t)) (snd (create v t))) = get j t"
  by (auto simp: get_remove get_create create_wf create_fresh)

lemma modify_modify: "get j (modify i g (modify i f t)) = get j (modify i (g \<circ> f) t)"
  by (simp add: get_modify option.map_comp)

end

lemma tbl_wf_distinct: "tbl_wf t \<Longrightarrow> distinct (map fst (rows t))"
  unfolding tbl_wf_def using strict_sorted_iff by blast

lemma map_of_map_key: "map_of (map (\<lambda>(j, v). (j, if j = i then f v else v)) xs) j =
    (if j = i then map_option f (map_of xs i) else map_of xs j)"
  by (induction xs) auto

lemma map_of_filter_key: "map_of (filter (\<lambda>r. fst r \<noteq> i) xs) j = (if j = i then None else map_of xs j)"
  by (induction xs) auto

interpretation tbl: object_table tbl_wf tbl_get tbl_create tbl_modify tbl_remove
proof
  fix t :: "'o tbl" and v :: 'o and i j :: nat and f :: "'o \<Rightarrow> 'o"
  show "tbl_wf (snd (tbl_create v t))" if "tbl_wf t"
    using that by (auto simp: tbl_wf_def tbl_create_def sorted_wrt_append less_Suc_eq)
  show "tbl_wf (tbl_modify i f t)" if "tbl_wf t"
    using that by (auto simp: tbl_wf_def tbl_modify_def case_prod_unfold comp_def)
  show "tbl_wf (tbl_remove i t)" if "tbl_wf t"
    using that by (auto simp: tbl_wf_def tbl_remove_def sorted_wrt_map sorted_wrt_filter)
  show "tbl_get (fst (tbl_create v t)) t = None" if "tbl_wf t"
    using that by (fastforce simp: tbl_wf_def tbl_create_def tbl_get_def map_of_eq_None_iff)
  then show "tbl_get j (snd (tbl_create v t)) = (if j = fst (tbl_create v t) then Some v else tbl_get j t)" if "tbl_wf t"
    using that by (auto simp: tbl_create_def tbl_get_def map_add_def split: option.splits)
  show "tbl_get j (tbl_modify i f t) = (if j = i then map_option f (tbl_get i t) else tbl_get j t)"
    by (simp add: tbl_get_def tbl_modify_def map_of_map_key)
  show "tbl_get j (tbl_remove i t) = (if j = i then None else tbl_get j t)" if "tbl_wf t"
    by (simp add: tbl_get_def tbl_remove_def map_of_filter_key)
qed

lemma tbl_find_SomeD:
  assumes "tbl_wf t" "tbl_find P t = Some (i, v)"
  shows "tbl_get i t = Some v" "P v"
proof -
  obtain k where k: "k < length (rows t)" "rows t ! k = (i, v)" "P (snd (rows t ! k))"
    using assms(2) unfolding tbl_find_def find_Some_iff by metis
  then show "P v" by simp
  show "tbl_get i t = Some v"
    using k tbl_wf_distinct [OF assms(1)] nth_mem [OF k(1)] by (simp add: tbl_get_def)
qed

lemma tbl_find_None: "tbl_find P t = None \<longleftrightarrow> (\<forall>(i, v) \<in> set (rows t). \<not> P v)"
  by (auto simp: tbl_find_def find_None_iff)

lemma tbl_modify_rows: "snd ` set (rows (tbl_modify i f t)) \<subseteq> snd ` set (rows t) \<union> f ` snd ` set (rows t)"
  by (force simp: tbl_modify_def)

section \<open>Searching a table\<close>

lemma find_map: "(\<And>x. x \<in> set xs \<Longrightarrow> P (f x) = P x) \<Longrightarrow> List.find P (map f xs) = map_option f (List.find P xs)"
  by (induction xs) auto

lemma find_append: "List.find P (xs @ ys) = (case List.find P xs of Some x \<Rightarrow> Some x | None \<Rightarrow> List.find P ys)"
  by (induction xs) auto

lemma tbl_find_create:
  "tbl_find P (snd (tbl_create v t)) =
     (case tbl_find P t of Some r \<Rightarrow> Some r | None \<Rightarrow> if P v then Some (next_instance t, v) else None)"
  by (simp add: tbl_find_def tbl_create_def find_append split: option.splits)

lemma tbl_find_modify:
  assumes "tbl_wf t" "tbl_get i t = Some v" "P (f v) = P v"
  shows "tbl_find P (tbl_modify i f t) = map_option (\<lambda>(j, w). (j, if j = i then f w else w)) (tbl_find P t)"
proof -
  have "w = v" if "(i, w) \<in> set (rows t)" for w
    using that assms(2) tbl_wf_distinct [OF assms(1)] by (simp add: tbl_get_def)
  then have "P (snd (case r of (j, w) \<Rightarrow> (j, if j = i then f w else w))) = P (snd r)" if "r \<in> set (rows t)" for r
    using that assms(3) by (cases r) auto
  then show ?thesis unfolding tbl_find_def tbl_modify_def by (simp add: find_map)
qed

section \<open>Sums over a table\<close>

definition tbl_sum :: "('o \<Rightarrow> int) \<Rightarrow> 'o tbl \<Rightarrow> int" where
  "tbl_sum f t = (\<Sum>r \<leftarrow> rows t. f (snd r))"

lemma tbl_sum_create [simp]: "tbl_sum f (snd (tbl_create v t)) = tbl_sum f t + f v"
  by (simp add: tbl_sum_def tbl_create_def)

lemma sum_list_map_key:
  "distinct (map fst xs) \<Longrightarrow> map_of xs i = Some v \<Longrightarrow>
   (\<Sum>r \<leftarrow> map (\<lambda>(j, w). (j, if j = i then g w else w)) xs. f (snd r)) = (\<Sum>r \<leftarrow> xs. f (snd r)) - f v + f (g v)" for f :: "'o \<Rightarrow> int"
proof (induction xs)
  case (Cons x xs)
  obtain j w where x: "x = (j, w)" by (cases x)
  show ?case
  proof (cases "j = i")
    case True
    then have "map (\<lambda>(j, w). (j, if j = i then g w else w)) xs = xs"
      using Cons(2) x by (force intro!: map_idI)
    then show ?thesis using Cons(3) x True by simp
  qed (use Cons x in auto)
qed simp

lemma sum_list_filter_key:
  "distinct (map fst xs) \<Longrightarrow> map_of xs i = Some v \<Longrightarrow>
   (\<Sum>r \<leftarrow> filter (\<lambda>r. fst r \<noteq> i) xs. f (snd r)) = (\<Sum>r \<leftarrow> xs. f (snd r)) - f v" for f :: "'o \<Rightarrow> int"
proof (induction xs)
  case (Cons x xs)
  obtain j w where x: "x = (j, w)" by (cases x)
  show ?case
  proof (cases "j = i")
    case True
    then have "filter (\<lambda>r. fst r \<noteq> i) xs = xs"
      using Cons(2) x by (force intro!: filter_True)
    then show ?thesis using Cons(3) x True by simp
  qed (use Cons x in auto)
qed simp

lemma tbl_sum_modify:
  "tbl_wf t \<Longrightarrow> tbl_get i t = Some v \<Longrightarrow> tbl_sum f (tbl_modify i g t) = tbl_sum f t - f v + f (g v)"
  using sum_list_map_key [of "rows t" i v f g] tbl_wf_distinct [of t]
  by (simp add: tbl_sum_def tbl_modify_def tbl_get_def)

lemma tbl_sum_remove:
  "tbl_wf t \<Longrightarrow> tbl_get i t = Some v \<Longrightarrow> tbl_sum f (tbl_remove i t) = tbl_sum f t - f v"
  using sum_list_filter_key [of "rows t" i v f] tbl_wf_distinct [of t]
  by (simp add: tbl_sum_def tbl_remove_def tbl_get_def)

lemma tbl_sum_nonneg: "(\<And>i v. (i, v) \<in> set (rows t) \<Longrightarrow> 0 \<le> f v) \<Longrightarrow> 0 \<le> tbl_sum f t"
  unfolding tbl_sum_def by (intro sum_list_nonneg) auto

section \<open>Non-unique ordered indexes\<close>

text \<open>The first object of an index ordered by a key and then by identifier, such as \<^verbatim>\<open>by_expiration\<close>.\<close>

fun first_by :: "('o \<Rightarrow> int) \<Rightarrow> (nat \<times> 'o) list \<Rightarrow> (nat \<times> 'o) option" where
  "first_by k [] = None"
| "first_by k (r # rs) =
     (case first_by k rs of
        None \<Rightarrow> Some r
      | Some s \<Rightarrow> if k (snd s) < k (snd r) then Some s else Some r)"

definition tbl_first_by :: "('o \<Rightarrow> int) \<Rightarrow> 'o tbl \<Rightarrow> (nat \<times> 'o) option" where
  "tbl_first_by k t = first_by k (rows t)"

lemma first_by_None: "first_by k rs = None \<longleftrightarrow> rs = []"
  by (cases rs) (auto split: option.splits)

lemma first_by_Some: "first_by k rs = Some r \<Longrightarrow> r \<in> set rs \<and> (\<forall>s \<in> set rs. k (snd r) \<le> k (snd s))"
proof (induction rs arbitrary: r)
  case (Cons x xs)
  then show ?case
  proof (cases "first_by k xs")
    case None
    with Cons(2) show ?thesis by (simp add: first_by_None)
  next
    case (Some s)
    with Cons(1) [OF Some] Cons(2) show ?thesis by (fastforce split: if_splits)
  qed
qed simp

lemma tbl_first_by_Some:
  assumes "tbl_wf t" "tbl_first_by k t = Some (i, v)"
  shows "tbl_get i t = Some v" "\<And>j w. tbl_get j t = Some w \<Longrightarrow> k v \<le> k w"
proof -
  have f: "(i, v) \<in> set (rows t)" "\<forall>s \<in> set (rows t). k v \<le> k (snd s)"
    using first_by_Some [of k "rows t" "(i, v)"] assms(2) by (auto simp: tbl_first_by_def)
  show "tbl_get i t = Some v" using f(1) tbl_wf_distinct [OF assms(1)] by (simp add: tbl_get_def)
  show "k v \<le> k w" if "tbl_get j t = Some w" for j w
    using f(2) map_of_SomeD [OF that [unfolded tbl_get_def]] by fastforce
qed

lemma tbl_first_by_None: "tbl_first_by k t = None \<Longrightarrow> tbl_get i t = None"
  by (simp add: tbl_first_by_def first_by_None tbl_get_def)

lemma tbl_remove_shorter:
  assumes "tbl_first_by k t = Some (i, v)"
  shows "length (rows (tbl_remove i t)) < length (rows t)"
proof -
  have "(i, v) \<in> set (rows t)" using first_by_Some [of k "rows t" "(i, v)"] assms by (simp add: tbl_first_by_def)
  then show ?thesis unfolding tbl_remove_def by (auto intro: length_filter_less)
qed

text \<open>The same for a key that is compared by a relation, such as a price: the first object, and all objects in order.\<close>

fun first_lt :: "('o \<Rightarrow> 'o \<Rightarrow> bool) \<Rightarrow> (nat \<times> 'o) list \<Rightarrow> (nat \<times> 'o) option" where
  "first_lt lt [] = None"
| "first_lt lt (r # rs) =
     (case first_lt lt rs of
        None \<Rightarrow> Some r
      | Some s \<Rightarrow> if lt (snd s) (snd r) then Some s else Some r)"

fun insert_lt :: "('o \<Rightarrow> 'o \<Rightarrow> bool) \<Rightarrow> nat \<times> 'o \<Rightarrow> (nat \<times> 'o) list \<Rightarrow> (nat \<times> 'o) list" where
  "insert_lt lt r [] = [r]"
| "insert_lt lt r (s # ss) = (if lt (snd s) (snd r) then s # insert_lt lt r ss else r # s # ss)"

definition sort_lt :: "('o \<Rightarrow> 'o \<Rightarrow> bool) \<Rightarrow> (nat \<times> 'o) list \<Rightarrow> (nat \<times> 'o) list" where
  "sort_lt lt rs = foldr (insert_lt lt) rs []"

lemma first_lt_in: "first_lt lt rs = Some r \<Longrightarrow> r \<in> set rs"
  by (induction rs arbitrary: r) (auto split: option.splits if_splits)

lemma set_insert_lt: "set (insert_lt lt r rs) = insert r (set rs)"
  by (induction rs) auto

lemma set_sort_lt: "set (sort_lt lt rs) = set rs"
  by (induction rs) (simp_all add: sort_lt_def set_insert_lt)

lemma insert_lt_sorted:
  assumes "\<And>x y z. lt x y \<Longrightarrow> lt y z \<Longrightarrow> lt x z" "\<And>x y. lt x y \<Longrightarrow> \<not> lt y x" "sorted_wrt (\<lambda>a b. \<not> lt (snd b) (snd a)) rs"
    and tot: "\<And>x y z. lt x y \<Longrightarrow> lt x z \<or> lt z y"
  shows "sorted_wrt (\<lambda>a b. \<not> lt (snd b) (snd a)) (insert_lt lt r rs)"
  using assms(3)
proof (induction rs)
  case (Cons s ss)
  then show ?case
  proof (cases "lt (snd s) (snd r)")
    case True
    then show ?thesis using Cons assms(2) by (auto simp: set_insert_lt)
  next
    case False
    then show ?thesis using Cons tot assms(1) by (fastforce simp: set_insert_lt)
  qed
qed simp

lemma sort_lt_sorted:
  assumes "\<And>x y z. lt x y \<Longrightarrow> lt y z \<Longrightarrow> lt x z" "\<And>x y. lt x y \<Longrightarrow> \<not> lt y x" "\<And>x y z. lt x y \<Longrightarrow> lt x z \<or> lt z y"
  shows "sorted_wrt (\<lambda>a b. \<not> lt (snd b) (snd a)) (sort_lt lt rs)"
proof (induction rs)
  case (Cons r rs)
  then show ?case using insert_lt_sorted [OF assms(1,2) _ assms(3)] by (simp add: sort_lt_def)
qed (simp add: sort_lt_def)

end
