(* ===== verification/Vesting.thy ===== *)
theory Vesting
  imports Asset
begin

text \<open>
  Vesting balances: \<^verbatim>\<open>libraries/chain/vesting_balance_object.cpp\<close> and its header. The three
  policies (linear with a cliff, coin-days destroyed, instant) are separate records with one
  function per member function; the static variant is a datatype and the visitors are
  functions by cases. The contract of a policy is the locale \<open>vesting_contract\<close>, which each policy and
  the variant meet: what may be withdrawn is between zero and the balance, and deposits and withdrawals keep the policy's state
  consistent.

  The C \<^verbatim>\<open>assert\<close>s are not part of the definitions (they are compiled out of a release build). Those that bound what is
  withdrawn by the balance and by the coin seconds follow from the contract; \<^verbatim>\<open>assert( withdrawn_already >= 0 )\<close> of the linear policy
  holds as long as nothing is deposited to a linear balance, which the header forbids and \<^verbatim>\<open>is_deposit_allowed\<close> permits
  (\<open>linear_deposit_breaks_assert\<close>).
\<close>

section \<open>Policies\<close>

record vesting_policy_context =
  ctx_balance :: asset
  ctx_now :: time_point_sec
  ctx_amount :: asset

record linear_vesting_policy =
  begin_timestamp :: time_point_sec
  vesting_cliff_seconds :: uint32
  vesting_duration_seconds :: uint32
  begin_balance :: share_type

record cdd_vesting_policy =
  vesting_seconds :: uint32
  coin_seconds_earned :: uint128
  start_claim :: time_point_sec
  coin_seconds_earned_last_update :: time_point_sec

datatype vesting_policy =
    Linear linear_vesting_policy
  | Cdd cdd_vesting_policy
  | Instant

datatype vesting_balance_type = VB_unspecified | VB_cashback | VB_worker | VB_witness | VB_market_fee_sharing

record vesting_balance_object =
  vbo_owner :: account_id_type
  vbo_balance :: asset
  vbo_policy :: vesting_policy
  vbo_balance_type :: vesting_balance_type

definition sum_below_max_shares :: "fc_lib \<Rightarrow> asset \<Rightarrow> asset \<Rightarrow> bool option" where
  "sum_below_max_shares L a b =
     (if amount a \<le> GRAPHENE_MAX_SHARE_SUPPLY \<and> amount b \<le> GRAPHENE_MAX_SHARE_SUPPLY
      then do { s \<leftarrow> safe_add L (amount a) (amount b); Some (s \<le> GRAPHENE_MAX_SHARE_SUPPLY) }
      else Some False)"

subsection \<open>Linear\<close>

definition linear_get_allowed_withdraw :: "fc_lib \<Rightarrow> linear_vesting_policy \<Rightarrow> vesting_policy_context \<Rightarrow> asset option" where
  "linear_get_allowed_withdraw L p ctx =
     (if ctx_now ctx > begin_timestamp p then
        (let elapsed_seconds = ctx_now ctx - begin_timestamp p in
         if elapsed_seconds \<ge> vesting_cliff_seconds p then do {
           let total_vested =
             (if elapsed_seconds < vesting_duration_seconds p
              then s64 (u64 (u128 (u128 (begin_balance p) * elapsed_seconds) div vesting_duration_seconds p))
              else begin_balance p);
           withdrawn_already \<leftarrow> safe_sub L (begin_balance p) (amount (ctx_balance ctx));
           allowed_withdraw \<leftarrow> safe_sub L total_vested withdrawn_already;
           Some (mk_asset allowed_withdraw (asset_id (ctx_balance ctx)))
         }
         else Some (mk_asset 0 (asset_id (ctx_balance ctx))))
      else Some (mk_asset 0 (asset_id (ctx_balance ctx))))"

definition linear_on_deposit :: "linear_vesting_policy \<Rightarrow> vesting_policy_context \<Rightarrow> linear_vesting_policy" where
  "linear_on_deposit p ctx = p"

definition linear_is_deposit_allowed :: "fc_lib \<Rightarrow> vesting_policy_context \<Rightarrow> bool option" where
  "linear_is_deposit_allowed L ctx =
     (if asset_id (ctx_amount ctx) = asset_id (ctx_balance ctx)
      then sum_below_max_shares L (ctx_amount ctx) (ctx_balance ctx) else Some False)"

definition linear_on_withdraw :: "linear_vesting_policy \<Rightarrow> vesting_policy_context \<Rightarrow> linear_vesting_policy" where
  "linear_on_withdraw p ctx = p"

definition linear_is_withdraw_allowed :: "fc_lib \<Rightarrow> linear_vesting_policy \<Rightarrow> vesting_policy_context \<Rightarrow> bool option" where
  "linear_is_withdraw_allowed L p ctx =
     (if asset_id (ctx_amount ctx) = asset_id (ctx_balance ctx)
      then do { a \<leftarrow> linear_get_allowed_withdraw L p ctx; asset_le (ctx_amount ctx) a }
      else Some False)"

subsection \<open>Coin-days destroyed\<close>

definition compute_coin_seconds_earned :: "cdd_vesting_policy \<Rightarrow> vesting_policy_context \<Rightarrow> uint128" where
  "compute_coin_seconds_earned p ctx =
     (let delta_seconds = ctx_now ctx - coin_seconds_earned_last_update p;
          delta_coin_seconds = u128 (u128 (amount (ctx_balance ctx)) * u128 delta_seconds);
          coin_seconds_earned_cap = u128 (u128 (amount (ctx_balance ctx)) * max (vesting_seconds p) 1)
      in min (u128 (coin_seconds_earned p + delta_coin_seconds)) coin_seconds_earned_cap)"

definition update_coin_seconds_earned :: "cdd_vesting_policy \<Rightarrow> vesting_policy_context \<Rightarrow> cdd_vesting_policy" where
  "update_coin_seconds_earned p ctx =
     p\<lparr>coin_seconds_earned := compute_coin_seconds_earned p ctx, coin_seconds_earned_last_update := ctx_now ctx\<rparr>"

definition cdd_get_allowed_withdraw :: "cdd_vesting_policy \<Rightarrow> vesting_policy_context \<Rightarrow> asset" where
  "cdd_get_allowed_withdraw p ctx =
     (if ctx_now ctx \<le> start_claim p then mk_asset 0 (asset_id (ctx_balance ctx))
      else
        (let withdraw_available = compute_coin_seconds_earned p ctx div max (vesting_seconds p) 1
         in mk_asset (s64 (u64 withdraw_available)) (asset_id (ctx_balance ctx))))"

definition cdd_on_deposit :: "cdd_vesting_policy \<Rightarrow> vesting_policy_context \<Rightarrow> cdd_vesting_policy" where
  "cdd_on_deposit p ctx = update_coin_seconds_earned p ctx"

text \<open>The product of the amount and the seconds is computed with 64 bits.\<close>

definition cdd_on_deposit_vested :: "cdd_vesting_policy \<Rightarrow> vesting_policy_context \<Rightarrow> cdd_vesting_policy" where
  "cdd_on_deposit_vested p ctx =
     (let p' = cdd_on_deposit p ctx
      in p'\<lparr>coin_seconds_earned := u128 (coin_seconds_earned p' + u128 (s64 (amount (ctx_amount ctx) * max (vesting_seconds p') 1)))\<rparr>)"

definition cdd_on_withdraw :: "cdd_vesting_policy \<Rightarrow> vesting_policy_context \<Rightarrow> cdd_vesting_policy" where
  "cdd_on_withdraw p ctx =
     (let p' = update_coin_seconds_earned p ctx;
          coin_seconds_needed = u128 (u128 (amount (ctx_amount ctx)) * max (vesting_seconds p') 1)
      in p'\<lparr>coin_seconds_earned := u128 (coin_seconds_earned p' - coin_seconds_needed)\<rparr>)"

definition cdd_is_deposit_allowed :: "fc_lib \<Rightarrow> vesting_policy_context \<Rightarrow> bool option" where
  "cdd_is_deposit_allowed L ctx =
     (if asset_id (ctx_amount ctx) = asset_id (ctx_balance ctx)
      then sum_below_max_shares L (ctx_amount ctx) (ctx_balance ctx) else Some False)"

definition cdd_is_deposit_vested_allowed :: "fc_lib \<Rightarrow> vesting_policy_context \<Rightarrow> bool option" where
  "cdd_is_deposit_vested_allowed L ctx = cdd_is_deposit_allowed L ctx"

definition cdd_is_withdraw_allowed :: "cdd_vesting_policy \<Rightarrow> vesting_policy_context \<Rightarrow> bool option" where
  "cdd_is_withdraw_allowed p ctx = asset_le (ctx_amount ctx) (cdd_get_allowed_withdraw p ctx)"

subsection \<open>Instant\<close>

definition instant_get_allowed_withdraw :: "vesting_policy_context \<Rightarrow> asset" where
  "instant_get_allowed_withdraw ctx = ctx_balance ctx"

definition instant_is_deposit_allowed :: "fc_lib \<Rightarrow> vesting_policy_context \<Rightarrow> bool option" where
  "instant_is_deposit_allowed L ctx =
     (if asset_id (ctx_amount ctx) = asset_id (ctx_balance ctx)
      then sum_below_max_shares L (ctx_amount ctx) (ctx_balance ctx) else Some False)"

definition instant_is_withdraw_allowed :: "vesting_policy_context \<Rightarrow> bool option" where
  "instant_is_withdraw_allowed ctx =
     (if asset_id (ctx_amount ctx) = asset_id (ctx_balance ctx)
      then asset_le (ctx_amount ctx) (instant_get_allowed_withdraw ctx) else Some False)"

section \<open>The visitors\<close>

fun on_deposit :: "vesting_policy \<Rightarrow> vesting_policy_context \<Rightarrow> vesting_policy" where
  "on_deposit (Linear p) ctx = Linear (linear_on_deposit p ctx)"
| "on_deposit (Cdd p) ctx = Cdd (cdd_on_deposit p ctx)"
| "on_deposit Instant ctx = Instant"

fun on_deposit_vested :: "vesting_policy \<Rightarrow> vesting_policy_context \<Rightarrow> vesting_policy option" where
  "on_deposit_vested (Linear p) ctx = None"
| "on_deposit_vested (Cdd p) ctx = Some (Cdd (cdd_on_deposit_vested p ctx))"
| "on_deposit_vested Instant ctx = Some Instant"

fun on_withdraw :: "vesting_policy \<Rightarrow> vesting_policy_context \<Rightarrow> vesting_policy" where
  "on_withdraw (Linear p) ctx = Linear (linear_on_withdraw p ctx)"
| "on_withdraw (Cdd p) ctx = Cdd (cdd_on_withdraw p ctx)"
| "on_withdraw Instant ctx = Instant"

fun is_deposit_allowed :: "fc_lib \<Rightarrow> vesting_policy \<Rightarrow> vesting_policy_context \<Rightarrow> bool option" where
  "is_deposit_allowed L (Linear p) ctx = linear_is_deposit_allowed L ctx"
| "is_deposit_allowed L (Cdd p) ctx = cdd_is_deposit_allowed L ctx"
| "is_deposit_allowed L Instant ctx = instant_is_deposit_allowed L ctx"

fun is_deposit_vested_allowed :: "fc_lib \<Rightarrow> vesting_policy \<Rightarrow> vesting_policy_context \<Rightarrow> bool option" where
  "is_deposit_vested_allowed L (Linear p) ctx = Some False"
| "is_deposit_vested_allowed L (Cdd p) ctx = cdd_is_deposit_vested_allowed L ctx"
| "is_deposit_vested_allowed L Instant ctx = Some False"

fun is_withdraw_allowed :: "fc_lib \<Rightarrow> vesting_policy \<Rightarrow> vesting_policy_context \<Rightarrow> bool option" where
  "is_withdraw_allowed L (Linear p) ctx = linear_is_withdraw_allowed L p ctx"
| "is_withdraw_allowed L (Cdd p) ctx = cdd_is_withdraw_allowed p ctx"
| "is_withdraw_allowed L Instant ctx = instant_is_withdraw_allowed ctx"

fun get_allowed_withdraw :: "fc_lib \<Rightarrow> vesting_policy \<Rightarrow> vesting_policy_context \<Rightarrow> asset option" where
  "get_allowed_withdraw L (Linear p) ctx = linear_get_allowed_withdraw L p ctx"
| "get_allowed_withdraw L (Cdd p) ctx = Some (cdd_get_allowed_withdraw p ctx)"
| "get_allowed_withdraw L Instant ctx = Some (instant_get_allowed_withdraw ctx)"

section \<open>The vesting balance object\<close>

definition vbo_context :: "vesting_balance_object \<Rightarrow> time_point_sec \<Rightarrow> asset \<Rightarrow> vesting_policy_context" where
  "vbo_context v now amt = \<lparr>ctx_balance = vbo_balance v, ctx_now = now, ctx_amount = amt\<rparr>"

definition vbo_is_deposit_allowed :: "fc_lib \<Rightarrow> vesting_balance_object \<Rightarrow> time_point_sec \<Rightarrow> asset \<Rightarrow> bool option" where
  "vbo_is_deposit_allowed L v now amt = is_deposit_allowed L (vbo_policy v) (vbo_context v now amt)"

definition vbo_is_withdraw_allowed :: "fc_lib \<Rightarrow> vesting_balance_object \<Rightarrow> time_point_sec \<Rightarrow> asset \<Rightarrow> bool option" where
  "vbo_is_withdraw_allowed L v now amt = is_withdraw_allowed L (vbo_policy v) (vbo_context v now amt)"

definition vbo_deposit :: "fc_lib \<Rightarrow> vesting_balance_object \<Rightarrow> time_point_sec \<Rightarrow> asset \<Rightarrow> vesting_balance_object option" where
  "vbo_deposit L v now amt = do {
     b \<leftarrow> asset_add L (vbo_balance v) amt;
     Some (v\<lparr>vbo_policy := on_deposit (vbo_policy v) (vbo_context v now amt), vbo_balance := b\<rparr>)
   }"

definition vbo_deposit_vested :: "fc_lib \<Rightarrow> vesting_balance_object \<Rightarrow> time_point_sec \<Rightarrow> asset \<Rightarrow> vesting_balance_object option" where
  "vbo_deposit_vested L v now amt = do {
     p \<leftarrow> on_deposit_vested (vbo_policy v) (vbo_context v now amt);
     b \<leftarrow> asset_add L (vbo_balance v) amt;
     Some (v\<lparr>vbo_policy := p, vbo_balance := b\<rparr>)
   }"

definition vbo_is_deposit_vested_allowed :: "fc_lib \<Rightarrow> vesting_balance_object \<Rightarrow> time_point_sec \<Rightarrow> asset \<Rightarrow> bool option" where
  "vbo_is_deposit_vested_allowed L v now amt = is_deposit_vested_allowed L (vbo_policy v) (vbo_context v now amt)"

definition vbo_withdraw :: "fc_lib \<Rightarrow> vesting_balance_object \<Rightarrow> time_point_sec \<Rightarrow> asset \<Rightarrow> vesting_balance_object option" where
  "vbo_withdraw L v now amt = do {
     b \<leftarrow> asset_sub L (vbo_balance v) amt;
     Some (v\<lparr>vbo_policy := on_withdraw (vbo_policy v) (vbo_context v now amt), vbo_balance := b\<rparr>)
   }"

definition vbo_get_allowed_withdraw :: "fc_lib \<Rightarrow> vesting_balance_object \<Rightarrow> time_point_sec \<Rightarrow> asset option" where
  "vbo_get_allowed_withdraw L v now = get_allowed_withdraw L (vbo_policy v) (vbo_context v now (mk_asset 0 0))"

section \<open>The contract of a policy\<close>

abbreviation mk_ctx :: "asset \<Rightarrow> time_point_sec \<Rightarrow> asset \<Rightarrow> vesting_policy_context" where
  "mk_ctx b now amt \<equiv> \<lparr>ctx_balance = b, ctx_now = now, ctx_amount = amt\<rparr>"

definition share_range :: "asset \<Rightarrow> bool" where
  "share_range b \<longleftrightarrow> 0 \<le> amount b \<and> amount b \<le> GRAPHENE_MAX_SHARE_SUPPLY"

text \<open>
  \<open>ok now p b\<close>: at the time \<open>now\<close> the state \<open>p\<close> of the policy fits the balance \<open>b\<close>. The laws: time may
  pass; what may be withdrawn is between zero and the balance; withdrawing no more than that,
  and depositing, keep the state consistent.
\<close>

locale vesting_contract =
  fixes ok :: "time_point_sec \<Rightarrow> 'p \<Rightarrow> asset \<Rightarrow> bool"
    and allowed :: "'p \<Rightarrow> vesting_policy_context \<Rightarrow> asset option"
    and dep :: "'p \<Rightarrow> vesting_policy_context \<Rightarrow> 'p"
    and wd :: "'p \<Rightarrow> vesting_policy_context \<Rightarrow> 'p"
  assumes ok_later: "ok t p b \<Longrightarrow> t \<le> t' \<Longrightarrow> t' < 2 ^ 32 \<Longrightarrow> ok t' p b"
    and ok_share: "ok t p b \<Longrightarrow> share_range b"
    and allowed_range: "ok now p b \<Longrightarrow>
      \<exists>a. allowed p (mk_ctx b now amt) = Some a \<and> asset_id a = asset_id b \<and> 0 \<le> amount a \<and> amount a \<le> amount b"
    and allowed_amt: "allowed p (mk_ctx b now amt) = allowed p (mk_ctx b now amt')"
    and dep_ok: "ok now p b \<Longrightarrow> 0 \<le> x \<Longrightarrow> amount b + x \<le> GRAPHENE_MAX_SHARE_SUPPLY \<Longrightarrow>
      ok now (dep p (mk_ctx b now (mk_asset x (asset_id b)))) (mk_asset (amount b + x) (asset_id b))"
    and wd_ok: "ok now p b \<Longrightarrow> allowed p (mk_ctx b now amt) = Some a \<Longrightarrow> 0 \<le> x \<Longrightarrow> x \<le> amount a \<Longrightarrow>
      ok now (wd p (mk_ctx b now (mk_asset x (asset_id b)))) (mk_asset (amount b - x) (asset_id b))"
begin

text \<open>What is allowed can be withdrawn at once, and then nothing more is allowed than the rest.\<close>

lemma withdraw_all:
  assumes "ok now p b" "allowed p (mk_ctx b now amt) = Some a"
  shows "ok now (wd p (mk_ctx b now (mk_asset (amount a) (asset_id b)))) (mk_asset (amount b - amount a) (asset_id b))"
    and "0 \<le> amount b - amount a"
  using assms allowed_range [OF assms(1), of amt] wd_ok [OF assms(1,2), of "amount a"] by auto

text \<open>A deposit followed by any allowed withdrawal never pays out more than was put in.\<close>

lemma deposit_withdraw:
  assumes "ok now p b" "0 \<le> x" "amount b + x \<le> GRAPHENE_MAX_SHARE_SUPPLY"
    and "allowed (dep p (mk_ctx b now (mk_asset x (asset_id b)))) (mk_ctx (mk_asset (amount b + x) (asset_id b)) now amt) = Some a"
  shows "amount a \<le> amount b + x"
  using allowed_range [OF dep_ok [OF assms(1-3)], of amt] assms(4) by auto

end

section \<open>The policies meet the contract\<close>

definition linear_vested :: "linear_vesting_policy \<Rightarrow> time_point_sec \<Rightarrow> int" where
  "linear_vested p now =
     (let e = now - begin_timestamp p in
      if 0 < e \<and> vesting_cliff_seconds p \<le> e
      then (if e < vesting_duration_seconds p then begin_balance p * e div vesting_duration_seconds p else begin_balance p)
      else 0)"

definition linear_ok :: "time_point_sec \<Rightarrow> linear_vesting_policy \<Rightarrow> asset \<Rightarrow> bool" where
  "linear_ok now p b \<longleftrightarrow>
     share_range b \<and> 0 \<le> begin_balance p \<and> begin_balance p \<le> GRAPHENE_MAX_SHARE_SUPPLY \<and>
     0 \<le> begin_timestamp p \<and> now < 2 ^ 32 \<and> 0 \<le> vesting_cliff_seconds p \<and> 0 \<le> vesting_duration_seconds p \<and>
     begin_balance p - amount b \<le> linear_vested p now"

definition cdd_ok :: "time_point_sec \<Rightarrow> cdd_vesting_policy \<Rightarrow> asset \<Rightarrow> bool" where
  "cdd_ok now p b \<longleftrightarrow>
     share_range b \<and> in_u32 (vesting_seconds p) \<and> 0 \<le> coin_seconds_earned_last_update p \<and>
     coin_seconds_earned_last_update p \<le> now \<and> now < 2 ^ 32 \<and>
     0 \<le> coin_seconds_earned p \<and> coin_seconds_earned p \<le> amount b * max (vesting_seconds p) 1"

fun policy_ok :: "time_point_sec \<Rightarrow> vesting_policy \<Rightarrow> asset \<Rightarrow> bool" where
  "policy_ok now (Linear p) b = linear_ok now p b"
| "policy_ok now (Cdd p) b = cdd_ok now p b"
| "policy_ok now Instant b = share_range b"

lemma linear_vested_le: "linear_ok now p b \<Longrightarrow> 0 \<le> linear_vested p now \<and> linear_vested p now \<le> begin_balance p"
proof -
  assume ok: "linear_ok now p b"
  have "begin_balance p * e div d \<le> begin_balance p" if "0 < e" "e < d" for e d
  proof -
    have "begin_balance p * e div d \<le> begin_balance p * d div d"
      using that ok by (intro zdiv_mono1 mult_left_mono) (auto simp: linear_ok_def)
    then show ?thesis using that by simp
  qed
  with ok show ?thesis by (auto simp: linear_vested_def linear_ok_def Let_def pos_imp_zdiv_nonneg_iff)
qed

lemma linear_vested_mono: "linear_ok t p b \<Longrightarrow> t \<le> t' \<Longrightarrow> linear_vested p t \<le> linear_vested p t'"
proof -
  assume ok: "linear_ok t p b" and le: "t \<le> t'"
  have e: "0 \<le> begin_balance p" "0 \<le> vesting_duration_seconds p" using ok by (simp_all add: linear_ok_def)
  have ok': "0 \<le> begin_balance p * (t' - begin_timestamp p) div vesting_duration_seconds p"
    if "0 < t' - begin_timestamp p"
    using that e by (cases "vesting_duration_seconds p = 0") (auto simp: pos_imp_zdiv_nonneg_iff)
  have m: "begin_balance p * (t - begin_timestamp p) div vesting_duration_seconds p
      \<le> begin_balance p * (t' - begin_timestamp p) div vesting_duration_seconds p"
    using e le by (cases "vesting_duration_seconds p = 0") (auto intro!: zdiv_mono1 mult_left_mono)
  have "linear_vested p t \<le> begin_balance p" using linear_vested_le [OF ok] by simp
  with ok' m le e show ?thesis by (auto simp: linear_vested_def Let_def)
qed

context fc_safe
begin

lemma linear_allowed:
  assumes "linear_ok now p b"
  shows "linear_get_allowed_withdraw L p (mk_ctx b now amt) = Some (mk_asset
    (if 0 < now - begin_timestamp p \<and> vesting_cliff_seconds p \<le> now - begin_timestamp p
     then linear_vested p now - (begin_balance p - amount b) else 0) (asset_id b))"
proof -
  let ?e = "now - begin_timestamp p"
  have r: "0 \<le> begin_balance p" "begin_balance p \<le> GRAPHENE_MAX_SHARE_SUPPLY" "share_range b" "?e < 2 ^ 32"
    "begin_balance p - amount b \<le> linear_vested p now"
    using assms by (simp_all add: linear_ok_def)
  note v = linear_vested_le [OF assms]
  have t: "(if ?e < vesting_duration_seconds p
            then s64 (u64 (u128 (u128 (begin_balance p) * ?e) div vesting_duration_seconds p))
            else begin_balance p) = linear_vested p now"
    if "0 < ?e" "vesting_cliff_seconds p \<le> ?e"
    using v that r by (auto simp: linear_vested_def Let_def chain_consts)
  have "in_s64 (begin_balance p - amount b)" "in_s64 (linear_vested p now - (begin_balance p - amount b))"
    using r v by (auto simp: in_s64_def share_range_def chain_consts)
  then show ?thesis
    using t by (auto simp: linear_get_allowed_withdraw_def Let_def safe_sub)
qed

end

sublocale fc_safe \<subseteq> linear: vesting_contract linear_ok "linear_get_allowed_withdraw L" linear_on_deposit linear_on_withdraw
proof
  fix t t' p b
  assume "linear_ok t p b" "t \<le> t'" "t' < 2 ^ 32"
  then show "linear_ok t' p b" using linear_vested_mono [of t p b t'] by (auto simp: linear_ok_def)
next
  fix t p b
  assume "linear_ok t p b"
  then show "share_range b" by (simp add: linear_ok_def)
next
  fix now p b amt
  assume ok: "linear_ok now p b"
  then show "\<exists>a. linear_get_allowed_withdraw L p (mk_ctx b now amt) = Some a \<and> asset_id a = asset_id b \<and>
      0 \<le> amount a \<and> amount a \<le> amount b"
    using linear_vested_le [OF ok] by (auto simp: linear_allowed linear_ok_def share_range_def)
next
  fix p b now amt amt'
  show "linear_get_allowed_withdraw L p (mk_ctx b now amt) = linear_get_allowed_withdraw L p (mk_ctx b now amt')"
    by (simp add: linear_get_allowed_withdraw_def Let_def)
next
  fix now p b x
  assume "linear_ok now p b" "0 \<le> x" "amount b + x \<le> GRAPHENE_MAX_SHARE_SUPPLY"
  then show "linear_ok now (linear_on_deposit p (mk_ctx b now (mk_asset x (asset_id b)))) (mk_asset (amount b + x) (asset_id b))"
    by (auto simp: linear_ok_def linear_on_deposit_def share_range_def)
next
  fix now p b amt a x
  assume ok: "linear_ok now p b" and a: "linear_get_allowed_withdraw L p (mk_ctx b now amt) = Some a"
    and x: "0 \<le> x" "x \<le> amount a"
  then have "x \<le> amount b" "begin_balance p - (amount b - x) \<le> linear_vested p now"
    using linear_vested_le [OF ok] by (auto simp: linear_allowed linear_ok_def share_range_def split: if_splits)
  with ok x(1) show "linear_ok now (linear_on_withdraw p (mk_ctx b now (mk_asset x (asset_id b)))) (mk_asset (amount b - x) (asset_id b))"
    by (auto simp: linear_ok_def linear_on_withdraw_def share_range_def)
qed

text \<open>The coin seconds are computed without overflow: the exact minimum of accrual and cap.\<close>

lemma cdd_computed:
  assumes "cdd_ok now p b"
  shows "compute_coin_seconds_earned p (mk_ctx b now amt) =
    min (coin_seconds_earned p + amount b * (now - coin_seconds_earned_last_update p)) (amount b * max (vesting_seconds p) 1)"
proof -
  let ?m = "max (vesting_seconds p) 1" and ?d = "now - coin_seconds_earned_last_update p"
  have r: "0 \<le> amount b" "amount b < 2 ^ 63" "1 \<le> ?m" "?m < 2 ^ 32" "0 \<le> ?d" "?d < 2 ^ 32"
    "0 \<le> coin_seconds_earned p" "coin_seconds_earned p \<le> amount b * ?m"
    using assms by (auto simp: cdd_ok_def share_range_def in_u32_def chain_consts)
  have le: "amount b * ?m \<le> 2 ^ 63 * 2 ^ 32" "amount b * ?d \<le> 2 ^ 63 * 2 ^ 32" "0 \<le> amount b * ?m" "0 \<le> amount b * ?d"
    using r by (intro mult_mono mult_nonneg_nonneg; simp)+
  have small: "u128 x = x" if "0 \<le> x" "x \<le> 2 ^ 63 * 2 ^ 32 + 2 ^ 63 * 2 ^ 32" for x
    using that by simp
  have u: "u128 (amount b) = amount b" "u128 ?d = ?d" "u128 (amount b * ?d) = amount b * ?d"
    "u128 (amount b * ?m) = amount b * ?m"
    using small [of "amount b"] small [of ?d] small [of "amount b * ?d"] small [of "amount b * ?m"] r le by auto
  have u': "u128 (coin_seconds_earned p + amount b * ?d) = coin_seconds_earned p + amount b * ?d"
    using small [of "coin_seconds_earned p + amount b * ?d"] r le by linarith
  show ?thesis unfolding compute_coin_seconds_earned_def Let_def vesting_policy_context.simps u u' ..
qed

lemma cdd_allowed:
  assumes "cdd_ok now p b"
  shows "cdd_get_allowed_withdraw p (mk_ctx b now amt) = mk_asset
    (if now \<le> start_claim p then 0 else compute_coin_seconds_earned p (mk_ctx b now amt) div max (vesting_seconds p) 1) (asset_id b)"
    and "0 \<le> compute_coin_seconds_earned p (mk_ctx b now amt) div max (vesting_seconds p) 1"
    and "compute_coin_seconds_earned p (mk_ctx b now amt) div max (vesting_seconds p) 1 \<le> amount b"
proof -
  let ?m = "max (vesting_seconds p) 1" and ?c = "compute_coin_seconds_earned p (mk_ctx b now amt)"
  have m: "0 < ?m" by simp
  have c: "0 \<le> ?c" "?c \<le> amount b * ?m"
    using assms by (auto simp: cdd_computed cdd_ok_def share_range_def)
  then show *: "0 \<le> ?c div ?m" "?c div ?m \<le> amount b"
    using m zdiv_mono1 [OF c(2) m] by (simp_all add: pos_imp_zdiv_nonneg_iff)
  have "amount b < 2 ^ 63" using assms by (simp add: cdd_ok_def share_range_def chain_consts)
  then have "s64 (u64 (?c div ?m)) = ?c div ?m" using * by simp
  then show "cdd_get_allowed_withdraw p (mk_ctx b now amt) = mk_asset
    (if now \<le> start_claim p then 0 else ?c div ?m) (asset_id b)"
    by (simp add: cdd_get_allowed_withdraw_def Let_def)
qed

lemma cdd_update_ok:
  assumes "cdd_ok now p b"
  shows "cdd_ok now (update_coin_seconds_earned p (mk_ctx b now amt)) b"
proof -
  have "0 \<le> compute_coin_seconds_earned p (mk_ctx b now amt)"
    "compute_coin_seconds_earned p (mk_ctx b now amt) \<le> amount b * max (vesting_seconds p) 1"
    using assms by (auto simp: cdd_computed cdd_ok_def share_range_def)
  with assms show ?thesis by (auto simp: cdd_ok_def update_coin_seconds_earned_def)
qed

lemma cdd_withdraw_ok:
  assumes ok: "cdd_ok now p b" and x: "0 \<le> x" "x \<le> amount (cdd_get_allowed_withdraw p (mk_ctx b now amt))"
  shows "x * max (vesting_seconds p) 1 \<le> coin_seconds_earned (update_coin_seconds_earned p (mk_ctx b now (mk_asset x (asset_id b))))"
    and "cdd_ok now (cdd_on_withdraw p (mk_ctx b now (mk_asset x (asset_id b)))) (mk_asset (amount b - x) (asset_id b))"
proof -
  let ?m = "max (vesting_seconds p) 1" and ?c = "compute_coin_seconds_earned p (mk_ctx b now (mk_asset x (asset_id b)))"
  have c: "?c \<le> amount b * ?m" "0 \<le> ?c" "?c = compute_coin_seconds_earned p (mk_ctx b now amt)"
    using ok by (auto simp: cdd_computed cdd_ok_def share_range_def)
  have "0 \<le> amount b" using ok by (simp add: cdd_ok_def share_range_def)
  have "0 \<le> ?c div ?m" "?c div ?m \<le> amount b" using cdd_allowed(2,3) [OF ok] .
  then have xa: "x \<le> ?c div ?m" "x \<le> amount b"
    using x(2) c(3) \<open>0 \<le> amount b\<close> unfolding cdd_allowed(1) [OF ok] by (auto split: if_splits)
  then have need: "x * ?m \<le> ?c" using int_le_div_iff [of ?m x ?c] by simp
  then show "x * ?m \<le> coin_seconds_earned (update_coin_seconds_earned p (mk_ctx b now (mk_asset x (asset_id b))))"
    by (simp add: update_coin_seconds_earned_def)
  have b: "amount b < 2 ^ 63" "?m < 2 ^ 63" "0 \<le> ?m" "0 \<le> amount b"
    using ok by (auto simp: cdd_ok_def share_range_def in_u32_def chain_consts)
  then have "u128 x = x" "u128 (x * ?m) = x * ?m" using x(1) xa(2) u128_mult_63 [of x ?m] by auto
  moreover have "u128 (?c - x * ?m) = ?c - x * ?m"
  proof (rule u128_id)
    have "0 \<le> x * ?m" using x(1) b(3) by (rule mult_nonneg_nonneg)
    moreover have "amount b * ?m < 85070591730234615865843651857942052864"
      using mult_bound_126 [OF b(4,1,3,2)] by simp
    ultimately show "?c - x * ?m < 340282366920938463463374607431768211456" "0 \<le> ?c - x * ?m"
      using need c(1) by linarith+
  qed
  ultimately have "coin_seconds_earned (cdd_on_withdraw p (mk_ctx b now (mk_asset x (asset_id b)))) = ?c - x * ?m"
    by (simp add: cdd_on_withdraw_def update_coin_seconds_earned_def Let_def)
  moreover have "?c - x * ?m \<le> (amount b - x) * ?m" using c(1) by (simp add: left_diff_distrib)
  ultimately show "cdd_ok now (cdd_on_withdraw p (mk_ctx b now (mk_asset x (asset_id b)))) (mk_asset (amount b - x) (asset_id b))"
    using ok need x(1) xa(2)
    by (auto simp: cdd_ok_def share_range_def cdd_on_withdraw_def update_coin_seconds_earned_def Let_def)
qed

lemma cdd_deposit_ok:
  assumes "cdd_ok now p b" "0 \<le> x" "amount b + x \<le> GRAPHENE_MAX_SHARE_SUPPLY"
  shows "cdd_ok now (cdd_on_deposit p (mk_ctx b now amt)) (mk_asset (amount b + x) (asset_id b))"
proof -
  have "amount b * max (vesting_seconds p) 1 \<le> (amount b + x) * max (vesting_seconds p) 1"
    using assms(2) by (intro mult_right_mono) auto
  then show ?thesis
    using cdd_update_ok [OF assms(1), of amt] assms
    by (auto simp: cdd_ok_def share_range_def cdd_on_deposit_def update_coin_seconds_earned_def)
qed

interpretation cdd: vesting_contract cdd_ok "\<lambda>p ctx. Some (cdd_get_allowed_withdraw p ctx)" cdd_on_deposit cdd_on_withdraw
proof
  fix now p b amt
  assume ok: "cdd_ok now p b"
  then have "0 \<le> amount b" by (simp add: cdd_ok_def share_range_def)
  with cdd_allowed [OF ok, of amt]
  show "\<exists>a. Some (cdd_get_allowed_withdraw p (mk_ctx b now amt)) = Some a \<and> asset_id a = asset_id b \<and>
      0 \<le> amount a \<and> amount a \<le> amount b" by auto
next
  fix p b now amt amt'
  show "Some (cdd_get_allowed_withdraw p (mk_ctx b now amt)) = Some (cdd_get_allowed_withdraw p (mk_ctx b now amt'))"
    by (simp add: cdd_get_allowed_withdraw_def compute_coin_seconds_earned_def Let_def)
next
  fix now p b amt a x
  assume "cdd_ok now p b" "Some (cdd_get_allowed_withdraw p (mk_ctx b now amt)) = Some a" "0 \<le> x" "x \<le> amount a"
  then show "cdd_ok now (cdd_on_withdraw p (mk_ctx b now (mk_asset x (asset_id b)))) (mk_asset (amount b - x) (asset_id b))"
    using cdd_withdraw_ok(2) [of now p b x amt] by simp
qed (auto simp: cdd_deposit_ok, auto simp: cdd_ok_def)

interpretation instant: vesting_contract "\<lambda>now p b. share_range b" "\<lambda>p ctx. Some (instant_get_allowed_withdraw ctx)"
    "\<lambda>p ctx. p" "\<lambda>p ctx. p"
  by unfold_locales (auto simp: share_range_def instant_get_allowed_withdraw_def)

sublocale fc_safe \<subseteq> policy: vesting_contract policy_ok "get_allowed_withdraw L" on_deposit on_withdraw
proof
  fix t t' p b
  assume "policy_ok t p b" "t \<le> t'" "t' < 2 ^ 32"
  then show "policy_ok t' p b" using linear.ok_later cdd.ok_later by (cases p) auto
next
  fix t p b
  assume "policy_ok t p b"
  then show "share_range b" using linear.ok_share cdd.ok_share by (cases p) auto
next
  fix now p b amt
  assume "policy_ok now p b"
  then show "\<exists>a. get_allowed_withdraw L p (mk_ctx b now amt) = Some a \<and> asset_id a = asset_id b \<and>
      0 \<le> amount a \<and> amount a \<le> amount b"
    using linear.allowed_range cdd.allowed_range instant.allowed_range [where b = b and amt = amt] by (cases p) auto
next
  fix p b now amt amt'
  show "get_allowed_withdraw L p (mk_ctx b now amt) = get_allowed_withdraw L p (mk_ctx b now amt')"
    using linear.allowed_amt cdd.allowed_amt by (cases p) (auto simp: instant_get_allowed_withdraw_def)
next
  fix now p b x
  assume "policy_ok now p b" "0 \<le> x" "amount b + x \<le> GRAPHENE_MAX_SHARE_SUPPLY"
  then show "policy_ok now (on_deposit p (mk_ctx b now (mk_asset x (asset_id b)))) (mk_asset (amount b + x) (asset_id b))"
    using linear.dep_ok cdd.dep_ok instant.dep_ok by (cases p) auto
next
  fix now p b amt a x
  assume "policy_ok now p b" "get_allowed_withdraw L p (mk_ctx b now amt) = Some a" "0 \<le> x" "x \<le> amount a"
  then show "policy_ok now (on_withdraw p (mk_ctx b now (mk_asset x (asset_id b)))) (mk_asset (amount b - x) (asset_id b))"
    using linear.wd_ok [of now _ b amt a x] cdd.wd_ok [of now _ b amt a x] instant.wd_ok [where b = b and amt = amt and a = a and x = x]
    by (cases p) simp_all
qed

section \<open>Histories of a vesting balance\<close>

text \<open>
  What happens to a vesting balance: a deposit or a withdrawal that is checked first, or a deposit of vested funds, which
  \<^verbatim>\<open>deposit_lazy_vesting\<close> and \<^verbatim>\<open>deposit_market_fee_vesting_balance\<close> make without a check.
\<close>

datatype vbo_action = Vb_deposit int | Vb_deposit_vested int | Vb_withdraw int

fun vbo_step :: "fc_lib \<Rightarrow> time_point_sec \<Rightarrow> vbo_action \<Rightarrow> vesting_balance_object \<Rightarrow> vesting_balance_object option" where
  "vbo_step L now (Vb_deposit x) v = do {
     al \<leftarrow> vbo_is_deposit_allowed L v now (mk_asset x (asset_id (vbo_balance v)));
     fc_assert al;
     vbo_deposit L v now (mk_asset x (asset_id (vbo_balance v)))
   }"
| "vbo_step L now (Vb_deposit_vested x) v = vbo_deposit_vested L v now (mk_asset x (asset_id (vbo_balance v)))"
| "vbo_step L now (Vb_withdraw x) v = do {
     al \<leftarrow> vbo_is_withdraw_allowed L v now (mk_asset x (asset_id (vbo_balance v)));
     fc_assert al;
     vbo_withdraw L v now (mk_asset x (asset_id (vbo_balance v)))
   }"

fun vbo_steps :: "fc_lib \<Rightarrow> (time_point_sec \<times> vbo_action) list \<Rightarrow> vesting_balance_object \<Rightarrow> vesting_balance_object option" where
  "vbo_steps L [] v = Some v"
| "vbo_steps L ((t, a) # ts) v = do { v' \<leftarrow> vbo_step L t a v; vbo_steps L ts v' }"

fun put_in :: "vbo_action \<Rightarrow> int" where
  "put_in (Vb_deposit x) = x"
| "put_in (Vb_deposit_vested x) = x"
| "put_in (Vb_withdraw x) = 0"

fun taken_out :: "vbo_action \<Rightarrow> int" where
  "taken_out (Vb_withdraw x) = x"
| "taken_out _ = 0"

text \<open>
  The actions considered: amounts are not negative, nothing is deposited to a linear balance, and the product of vested funds and the vesting
  period fits the 64 bits in which the code computes it.
\<close>

fun action_ok :: "vesting_policy \<Rightarrow> vbo_action \<Rightarrow> bool" where
  "action_ok p (Vb_deposit x) \<longleftrightarrow> 0 \<le> x \<and> \<not> (\<exists>q. p = Linear q)"
| "action_ok p (Vb_deposit_vested x) \<longleftrightarrow> 0 \<le> x \<and> (\<forall>q. p = Cdd q \<longrightarrow> x * max (vesting_seconds q) 1 < 2 ^ 63)"
| "action_ok p (Vb_withdraw x) \<longleftrightarrow> 0 \<le> x"

text \<open>The terms of a policy are what its operations leave alone.\<close>

fun same_terms :: "vesting_policy \<Rightarrow> vesting_policy \<Rightarrow> bool" where
  "same_terms (Linear p) (Linear q) = (p = q)"
| "same_terms (Cdd p) (Cdd q) = (vesting_seconds p = vesting_seconds q)"
| "same_terms Instant Instant = True"
| "same_terms _ _ = False"

text \<open>What \<^verbatim>\<open>assert( withdrawn_already >= 0 )\<close> says.\<close>

definition linear_funded :: "vesting_balance_object \<Rightarrow> bool" where
  "linear_funded v \<longleftrightarrow> (\<forall>p. vbo_policy v = Linear p \<longrightarrow> amount (vbo_balance v) \<le> begin_balance p)"

definition vbo_ok :: "time_point_sec \<Rightarrow> vesting_balance_object \<Rightarrow> bool" where
  "vbo_ok now v \<longleftrightarrow> policy_ok now (vbo_policy v) (vbo_balance v)"

lemma is_deposit_allowed_eq: "is_deposit_allowed L p ctx =
    (if asset_id (ctx_amount ctx) = asset_id (ctx_balance ctx)
     then sum_below_max_shares L (ctx_amount ctx) (ctx_balance ctx) else Some False)"
  by (cases p) (simp_all add: linear_is_deposit_allowed_def cdd_is_deposit_allowed_def instant_is_deposit_allowed_def)

lemma is_withdraw_allowed_True: "is_withdraw_allowed L p ctx = Some True \<Longrightarrow>
    \<exists>a. get_allowed_withdraw L p ctx = Some a \<and> asset_id (ctx_amount ctx) = asset_id a \<and> amount (ctx_amount ctx) \<le> amount a"
  by (cases p) (auto simp: linear_is_withdraw_allowed_def cdd_is_withdraw_allowed_def instant_is_withdraw_allowed_def
    asset_le_def asset_lt_def opt_bind split: if_splits)

context fc_safe
begin

lemma vbo_withdraw_safe:
  assumes ok: "vbo_ok now v" and x: "0 \<le> amount amt" and al: "vbo_is_withdraw_allowed L v now amt = Some True"
  shows "asset_id amt = asset_id (vbo_balance v) \<and> amount amt \<le> amount (vbo_balance v) \<and>
    (\<exists>v'. vbo_withdraw L v now amt = Some v' \<and> vbo_ok now v' \<and>
       vbo_balance v' = mk_asset (amount (vbo_balance v) - amount amt) (asset_id (vbo_balance v)))"
proof -
  obtain a where a: "get_allowed_withdraw L (vbo_policy v) (mk_ctx (vbo_balance v) now amt) = Some a"
    "asset_id amt = asset_id a" "amount amt \<le> amount a"
    using is_withdraw_allowed_True al by (fastforce simp: vbo_is_withdraw_allowed_def vbo_context_def)
  have p: "policy_ok now (vbo_policy v) (vbo_balance v)" using ok by (simp add: vbo_ok_def)
  with policy.allowed_range [OF p, of amt] a have le: "asset_id amt = asset_id (vbo_balance v)"
    "amount amt \<le> amount (vbo_balance v)" by auto
  have amt: "amt = mk_asset (amount amt) (asset_id (vbo_balance v))" using le(1) by simp
  have "in_s64 (amount (vbo_balance v) - amount amt)"
    using policy.ok_share [OF p] le(2) x by (simp add: share_range_def in_s64_def chain_consts)
  then show ?thesis
    using le policy.wd_ok [OF p a(1) x a(3)] amt
    by (auto simp: vbo_withdraw_def asset_sub_def safe_sub vbo_ok_def vbo_context_def)
qed

lemma vbo_deposit_safe:
  assumes ok: "vbo_ok now v" and x: "0 \<le> x"
    and al: "vbo_is_deposit_allowed L v now (mk_asset x (asset_id (vbo_balance v))) = Some True"
  shows "\<exists>v'. vbo_deposit L v now (mk_asset x (asset_id (vbo_balance v))) = Some v' \<and> vbo_ok now v' \<and>
    vbo_balance v' = mk_asset (amount (vbo_balance v) + x) (asset_id (vbo_balance v))"
proof -
  have p: "policy_ok now (vbo_policy v) (vbo_balance v)" using ok by (simp add: vbo_ok_def)
  have "amount (vbo_balance v) + x \<le> GRAPHENE_MAX_SHARE_SUPPLY"
    using al by (auto simp: vbo_is_deposit_allowed_def is_deposit_allowed_eq vbo_context_def sum_below_max_shares_def
        safe_add opt_bind split: if_splits)
  moreover from this have "in_s64 (amount (vbo_balance v) + x)"
    using policy.ok_share [OF p] x by (simp add: share_range_def in_s64_def chain_consts)
  ultimately show ?thesis
    using policy.dep_ok [OF p x]
    by (auto simp: vbo_deposit_def asset_add_def safe_add vbo_ok_def vbo_context_def)
qed

lemma cdd_deposit_vested_ok:
  assumes ok: "cdd_ok now p b" and x: "0 \<le> x" "amount b + x \<le> GRAPHENE_MAX_SHARE_SUPPLY" "x * max (vesting_seconds p) 1 < 2 ^ 63"
  shows "cdd_ok now (cdd_on_deposit_vested p (mk_ctx b now (mk_asset x i))) (mk_asset (amount b + x) (asset_id b))"
proof -
  let ?m = "max (vesting_seconds p) 1" and ?c = "compute_coin_seconds_earned p (mk_ctx b now (mk_asset x i))"
  have c: "0 \<le> ?c" "?c \<le> amount b * ?m" using ok by (auto simp: cdd_computed cdd_ok_def share_range_def)
  have b: "0 \<le> amount b" "amount b < 2 ^ 63" "?m < 2 ^ 63" "0 \<le> ?m" using ok by (auto simp: cdd_ok_def share_range_def in_u32_def chain_consts)
  have xm: "0 \<le> x * ?m" using x(1) b(4) by (rule mult_nonneg_nonneg)
  have "amount b * ?m < 2 ^ 126" using mult_bound_126 [OF b(1,2,4,3)] by simp
  then have "u128 (?c + u128 (s64 (x * ?m))) = ?c + x * ?m" using c xm x(3) by simp
  moreover have "?c + x * ?m \<le> (amount b + x) * ?m" using c(2) by (simp add: distrib_right)
  ultimately show ?thesis
    using ok x(1,2) c(1) xm
    by (auto simp: cdd_ok_def share_range_def cdd_on_deposit_vested_def cdd_on_deposit_def update_coin_seconds_earned_def Let_def)
qed

lemma vbo_deposit_vested_safe:
  assumes ok: "vbo_ok now v" and a: "action_ok (vbo_policy v) (Vb_deposit_vested x)" "amount (vbo_balance v) + x \<le> GRAPHENE_MAX_SHARE_SUPPLY"
    and run: "vbo_deposit_vested L v now (mk_asset x (asset_id (vbo_balance v))) = Some v'"
  shows "vbo_ok now v' \<and> vbo_balance v' = mk_asset (amount (vbo_balance v) + x) (asset_id (vbo_balance v))"
  using assms cdd_deposit_vested_ok [of now _ "vbo_balance v" x]
  by (cases "vbo_policy v") (auto simp: vbo_deposit_vested_def vbo_ok_def vbo_context_def asset_add_def opt_bind safe_Some share_range_def)

text \<open>The terms of the policy stay.\<close>

lemma terms_stay:
  "same_terms p (on_deposit p ctx)" "on_deposit_vested p ctx = Some q \<Longrightarrow> same_terms p q" "same_terms p (on_withdraw p ctx)"
  by (cases p; auto simp: linear_on_deposit_def linear_on_withdraw_def cdd_on_deposit_def cdd_on_deposit_vested_def
      cdd_on_withdraw_def update_coin_seconds_earned_def Let_def)+

lemma vbo_step_same_terms: "vbo_step L t a v = Some v' \<Longrightarrow> same_terms (vbo_policy v) (vbo_policy v')"
  using terms_stay by (cases a) (auto simp: vbo_deposit_def vbo_deposit_vested_def vbo_withdraw_def opt_bind)

lemma same_terms_action_ok: "same_terms p q \<Longrightarrow> action_ok q c = action_ok p c"
  by (cases p; cases q; cases c; simp)

lemma same_terms_linear: "same_terms p (Linear r) \<Longrightarrow> p = Linear r"
  by (cases p) simp_all

lemmas vbo_step_terms = same_terms_action_ok [OF vbo_step_same_terms]

lemma vbo_step_ok:
  assumes ok: "vbo_ok t v" "linear_funded v" and a: "action_ok (vbo_policy v) a" "amount (vbo_balance v) + put_in a \<le> GRAPHENE_MAX_SHARE_SUPPLY"
    and run: "vbo_step L t a v = Some v'"
  shows "vbo_ok t v' \<and> linear_funded v' \<and> amount (vbo_balance v') = amount (vbo_balance v) + put_in a - taken_out a"
proof -
  have e: "vbo_ok t v' \<and> amount (vbo_balance v') = amount (vbo_balance v) + put_in a - taken_out a"
  proof (cases a)
    case (Vb_deposit x)
    then show ?thesis using a run vbo_deposit_safe [OF ok(1), of x] by (auto simp: opt_bind)
  next
    case (Vb_deposit_vested x)
    then show ?thesis using a run vbo_deposit_vested_safe [OF ok(1), of x v'] by simp
  next
    case (Vb_withdraw x)
    then show ?thesis using a run vbo_withdraw_safe [OF ok(1), of "mk_asset x (asset_id (vbo_balance v))"] by (auto simp: opt_bind)
  qed
  moreover have "linear_funded v'"
    unfolding linear_funded_def
  proof (intro allI impI)
    fix p
    assume "vbo_policy v' = Linear p"
    then have p: "vbo_policy v = Linear p" using vbo_step_same_terms [OF run] same_terms_linear by simp
    then have "put_in a = 0" "0 \<le> taken_out a" using a run by (cases a; auto simp: vbo_deposit_vested_def opt_bind)+
    then show "amount (vbo_balance v') \<le> begin_balance p" using ok(2) p e by (simp add: linear_funded_def)
  qed
  ultimately show ?thesis by blast
qed

lemma put_in_nonneg: "action_ok p a \<Longrightarrow> 0 \<le> put_in a" "action_ok p a \<Longrightarrow> 0 \<le> taken_out a"
  by (cases a; simp)+

lemma vbo_steps_ok:
  "vbo_ok t v \<Longrightarrow> linear_funded v \<Longrightarrow> sorted (t # map fst ts) \<Longrightarrow> \<forall>(u, a) \<in> set ts. u < 2 ^ 32 \<and> action_ok (vbo_policy v) a \<Longrightarrow>
   amount (vbo_balance v) + (\<Sum>x \<leftarrow> ts. put_in (snd x)) \<le> GRAPHENE_MAX_SHARE_SUPPLY \<Longrightarrow> vbo_steps L ts v = Some v' \<Longrightarrow>
   vbo_ok (last (t # map fst ts)) v' \<and> linear_funded v' \<and> 0 \<le> amount (vbo_balance v') \<and>
   amount (vbo_balance v') = amount (vbo_balance v) + (\<Sum>x \<leftarrow> ts. put_in (snd x)) - (\<Sum>x \<leftarrow> ts. taken_out (snd x))"
proof (induction ts arbitrary: t v)
  case Nil
  then show ?case using policy.ok_share by (auto simp: vbo_ok_def share_range_def)
next
  case (Cons tx ts)
  obtain u a where tx: "tx = (u, a)" by (cases tx)
  obtain v1 where s: "vbo_step L u a v = Some v1" "vbo_steps L ts v1 = Some v'"
    using Cons.prems(6) tx by (auto simp: opt_bind)
  have ao: "action_ok (vbo_policy v) a" "u < 2 ^ 32" "\<forall>(u, c) \<in> set ts. u < 2 ^ 32 \<and> action_ok (vbo_policy v) c" using Cons.prems(4) tx by auto
  then have nn: "0 \<le> (\<Sum>x \<leftarrow> ts. put_in (snd x))" using put_in_nonneg(1) by (intro sum_list_nonneg) auto
  have "vbo_ok u v" using policy.ok_later [of t "vbo_policy v" "vbo_balance v" u] Cons.prems(1,3) ao(2) tx by (simp add: vbo_ok_def)
  moreover have "amount (vbo_balance v) + put_in a \<le> GRAPHENE_MAX_SHARE_SUPPLY" using Cons.prems(5) nn tx by simp
  ultimately have e: "vbo_ok u v1" "linear_funded v1" "amount (vbo_balance v1) = amount (vbo_balance v) + put_in a - taken_out a"
    using vbo_step_ok [OF _ Cons.prems(2) ao(1) _ s(1)] by simp_all
  have "\<forall>(u, c) \<in> set ts. u < 2 ^ 32 \<and> action_ok (vbo_policy v1) c" using ao(3) vbo_step_terms [OF s(1)] by simp
  moreover have "amount (vbo_balance v1) + (\<Sum>x \<leftarrow> ts. put_in (snd x)) \<le> GRAPHENE_MAX_SHARE_SUPPLY"
    using e(3) Cons.prems(5) put_in_nonneg(2) [OF ao(1)] tx by simp
  ultimately show ?case using Cons.IH [OF e(1,2) _ _ _ s(2)] e(3) Cons.prems(3) tx by simp
qed

end

section \<open>Properties\<close>

text \<open>
  A withdrawal that the policy allows is within the balance and of its asset, succeeds, takes
  exactly the amount off and leaves a consistent vesting balance, for each of the three
  policies. So the C \<^verbatim>\<open>assert\<close>s of \<^verbatim>\<open>is_withdraw_allowed\<close> and \<^verbatim>\<open>withdraw\<close> of \<^verbatim>\<open>vesting_balance_object\<close> hold: what a policy allows is
  never more than the balance.
\<close>

theorem vesting_withdraw_sound:
  assumes "fc_safe L" "vbo_ok now v" "0 \<le> amount amt" "vbo_is_withdraw_allowed L v now amt = Some True"
  shows "asset_id amt = asset_id (vbo_balance v) \<and> amount amt \<le> amount (vbo_balance v) \<and>
    (\<exists>v'. vbo_withdraw L v now amt = Some v' \<and> vbo_ok now v' \<and>
       vbo_balance v' = mk_asset (amount (vbo_balance v) - amount amt) (asset_id (vbo_balance v)))"
  using assms by (rule fc_safe.vbo_withdraw_safe)

definition demo_linear :: vesting_balance_object where
  "demo_linear = \<lparr>vbo_owner = 4, vbo_balance = mk_asset 1000 0,
     vbo_policy = Linear \<lparr>begin_timestamp = 100, vesting_cliff_seconds = 10, vesting_duration_seconds = 100, begin_balance = 1000\<rparr>,
     vbo_balance_type = VB_unspecified\<rparr>"

definition demo_cdd :: vesting_balance_object where
  "demo_cdd = \<lparr>vbo_owner = 4, vbo_balance = mk_asset 1000 0,
     vbo_policy = Cdd \<lparr>vesting_seconds = 100, coin_seconds_earned = 0, start_claim = 0, coin_seconds_earned_last_update = 100\<rparr>,
     vbo_balance_type = VB_unspecified\<rparr>"

lemmas vesting_eval = vbo_is_withdraw_allowed_def vbo_context_def linear_is_withdraw_allowed_def linear_get_allowed_withdraw_def
  cdd_is_withdraw_allowed_def cdd_get_allowed_withdraw_def compute_coin_seconds_earned_def asset_le_def asset_lt_def
  vbo_withdraw_def asset_sub_def checked_lib_simps in_s64_def

theorem vesting_withdraw_sound_witness:
  "\<exists>v'. vbo_withdraw checked_lib demo_linear 150 (mk_asset 500 0) = Some v' \<and> vbo_ok 150 v' \<and> vbo_balance v' = mk_asset 500 0"
proof -
  have "vbo_ok 150 demo_linear"
    by (simp add: vbo_ok_def demo_linear_def linear_ok_def share_range_def linear_vested_def chain_consts)
  moreover have "vbo_is_withdraw_allowed checked_lib demo_linear 150 (mk_asset 500 0) = Some True"
    by (simp add: vesting_eval demo_linear_def)
  ultimately show ?thesis
    using vesting_withdraw_sound [OF checked_lib_safe, of 150 demo_linear "mk_asset 500 0"]
    by (simp add: demo_linear_def)
qed

text \<open>
  (C31) Over any history of allowed deposits, deposits of vested funds and allowed withdrawals at non-decreasing times, the balance is
  exactly the initial balance plus what was deposited less what was withdrawn, and it never becomes negative: nothing vests that was not put
  in. Nothing is deposited to a linear balance, as its header asks, and such a balance never exceeds what it began with. The
  deposits keep the balance within the maximum supply, and vested funds times the vesting period fit 64 bits.
\<close>

theorem vesting_history_conserves:
  assumes "fc_safe L" "vbo_ok t v" "linear_funded v" "sorted (t # map fst ts)"
    and "\<forall>(u, a) \<in> set ts. u < 2 ^ 32 \<and> action_ok (vbo_policy v) a"
    and "amount (vbo_balance v) + (\<Sum>x \<leftarrow> ts. put_in (snd x)) \<le> GRAPHENE_MAX_SHARE_SUPPLY"
    and "vbo_steps L ts v = Some v'"
  shows "vbo_ok (last (t # map fst ts)) v' \<and> linear_funded v' \<and> 0 \<le> amount (vbo_balance v') \<and>
    amount (vbo_balance v') = amount (vbo_balance v) + (\<Sum>x \<leftarrow> ts. put_in (snd x)) - (\<Sum>x \<leftarrow> ts. taken_out (snd x))"
  using assms by (rule fc_safe.vbo_steps_ok)

definition demo_actions :: "(time_point_sec \<times> vbo_action) list" where
  "demo_actions = [(150, Vb_withdraw 500), (160, Vb_deposit_vested 40), (160, Vb_withdraw 40), (170, Vb_deposit 10), (200, Vb_withdraw 250)]"

theorem vesting_history_conserves_witness:
  "\<exists>v'. vbo_steps checked_lib demo_actions demo_cdd = Some v' \<and> amount (vbo_balance v') = 260"
proof -
  have ok: "vbo_ok 100 demo_cdd" "linear_funded demo_cdd"
    by (simp_all add: vbo_ok_def demo_cdd_def cdd_ok_def share_range_def in_u32_def chain_consts linear_funded_def)
  have "vbo_steps checked_lib demo_actions demo_cdd \<noteq> None" by code_simp
  then obtain v' where v': "vbo_steps checked_lib demo_actions demo_cdd = Some v'" by blast
  from vesting_history_conserves [OF checked_lib_safe ok _ _ _ v'] show ?thesis
    using v' by (simp add: demo_cdd_def demo_actions_def chain_consts)
qed

text \<open>A deposit to a linear balance passes the check, and afterwards \<^verbatim>\<open>withdrawn_already\<close> is negative.\<close>

lemma linear_deposit_breaks_assert:
  "\<exists>v'. vbo_step checked_lib 150 (Vb_deposit 10) demo_linear = Some v' \<and> \<not> linear_funded v'"
proof -
  have "vbo_step checked_lib 150 (Vb_deposit 10) demo_linear = Some (demo_linear\<lparr>vbo_balance := mk_asset 1010 0\<rparr>)" by code_simp
  then show ?thesis by (simp add: linear_funded_def demo_linear_def)
qed

end
