(* ===== verification/Bitasset.thy ===== *)
theory Bitasset
  imports Asset
begin

text \<open>
  Market-issued assets: the object with their price feeds and settlement state
  (\<^verbatim>\<open>libraries/chain/include/graphene/chain/asset_object.hpp\<close>, \<^verbatim>\<open>asset_object.cpp\<close>) and their options
  (\<^verbatim>\<open>libraries/protocol/include/graphene/protocol/asset_ops.hpp\<close>).
\<close>

section \<open>Objects\<close>

record bitasset_options =
  feed_lifetime_sec :: uint32
  minimum_feeds :: nat
  force_settlement_delay_sec :: uint32
  force_settlement_offset_percent :: uint16
  maximum_force_settlement_volume :: uint16
  short_backing_asset :: asset_id_type

definition bitasset_options_validate :: "bitasset_options \<Rightarrow> unit option" where
  "bitasset_options_validate o' = do {
     fc_assert (minimum_feeds o' > 0);
     fc_assert (force_settlement_offset_percent o' \<le> GRAPHENE_100_PERCENT);
     fc_assert (maximum_force_settlement_volume o' \<le> GRAPHENE_100_PERCENT)
   }"

record asset_bitasset_data_object =
  bda_asset_id :: asset_id_type
  bda_options :: bitasset_options
  feeds :: "(account_id_type \<times> time_point_sec \<times> price_feed) list"
  current_feed :: price_feed
  current_feed_publication_time :: time_point_sec
  current_maintenance_collateralization :: price
  is_prediction_market :: bool
  force_settled_volume :: share_type
  bda_settlement_price :: price
  settlement_fund :: share_type
  asset_cer_updated :: bool
  feed_cer_updated :: bool

definition has_settlement :: "asset_bitasset_data_object \<Rightarrow> bool" where
  "has_settlement b \<longleftrightarrow> \<not> is_null (bda_settlement_price b)"

definition max_force_settlement_volume :: "fc_lib \<Rightarrow> asset_bitasset_data_object \<Rightarrow> share_type \<Rightarrow> share_type option" where
  "max_force_settlement_volume L b current_supply =
     (if maximum_force_settlement_volume (bda_options b) = 0 then Some 0
      else if maximum_force_settlement_volume (bda_options b) = GRAPHENE_100_PERCENT
      then safe_add L current_supply (force_settled_volume b)
      else
        (let volume = u128 (u128 current_supply + u128 (force_settled_volume b));
             volume' = u128 (volume * maximum_force_settlement_volume (bda_options b))
         in Some (s64 (u64 (volume' div GRAPHENE_100_PERCENT)))))"

definition need_to_update_cer :: "asset_bitasset_data_object \<Rightarrow> bool" where
  "need_to_update_cer b \<longleftrightarrow> (feed_cer_updated b \<or> asset_cer_updated b) \<and> \<not> is_null (core_exchange_rate (current_feed b))"

definition feed_expiration_time :: "fc_lib \<Rightarrow> asset_bitasset_data_object \<Rightarrow> time_point_sec" where
  "feed_expiration_time L b =
     (if 2 ^ 32 - 1 - current_feed_publication_time b \<le> feed_lifetime_sec (bda_options b) then 2 ^ 32 - 1
      else tps_add L (current_feed_publication_time b) (feed_lifetime_sec (bda_options b)))"

definition feed_is_expired :: "fc_lib \<Rightarrow> asset_bitasset_data_object \<Rightarrow> time_point_sec \<Rightarrow> bool" where
  "feed_is_expired L b current_time \<longleftrightarrow> feed_expiration_time L b \<le> current_time"

end
