(* ===== verification/Call_Order.thy ===== *)
theory Call_Order
  imports Asset
begin

text \<open>
  Margin positions: the object (\<^verbatim>\<open>libraries/chain/include/graphene/chain/market_object.hpp\<close>) and how much of its debt a
  margin call has to cover (\<^verbatim>\<open>call_order_object::get_max_debt_to_cover\<close> of \<^verbatim>\<open>libraries/chain/market_object.cpp\<close>).
\<close>

section \<open>The object\<close>

record call_order_object =
  borrower :: account_id_type
  collateral :: share_type
  debt :: share_type
  co_call_price :: price
  target_collateral_ratio :: "uint16 option"

definition debt_type :: "call_order_object \<Rightarrow> asset_id_type" where
  "debt_type c = asset_id (quote (co_call_price c))"

definition collateral_type :: "call_order_object \<Rightarrow> asset_id_type" where
  "collateral_type c = asset_id (base (co_call_price c))"

definition get_collateral :: "call_order_object \<Rightarrow> asset" where
  "get_collateral c = mk_asset (collateral c) (collateral_type c)"

definition get_debt :: "call_order_object \<Rightarrow> asset" where
  "get_debt c = mk_asset (debt c) (debt_type c)"

definition collateralization :: "call_order_object \<Rightarrow> price option" where
  "collateralization c = asset_div (get_collateral c) (get_debt c)"

section \<open>The debt to cover\<close>

text \<open>
  The asset types of \<^verbatim>\<open>to_pay\<close> and \<^verbatim>\<open>to_cover\<close> never change, so the amounts stand for them: \<open>cover_at\<close> is
  \<^verbatim>\<open>to_pay * match_price\<close> and \<open>pay_at\<close> is \<^verbatim>\<open>to_cover.multiply_and_round_up( match_price )\<close>. The 256-bit integers of the code
  are unbounded here; with 64-bit amounts and a 16-bit ratio every product stays below 2 to the power of 206.
\<close>

definition cover_at :: "call_order_object \<Rightarrow> price \<Rightarrow> share_type \<Rightarrow> share_type option" where
  "cover_at c mp to_pay = map_option amount (asset_mul (mk_asset to_pay (collateral_type c)) mp)"

definition pay_at :: "call_order_object \<Rightarrow> price \<Rightarrow> share_type \<Rightarrow> share_type option" where
  "pay_at c mp to_cover = map_option amount (multiply_and_round_up (mk_asset to_cover (debt_type c)) mp)"

text \<open>\<^verbatim>\<open>result_is_good\<close>: whether the position is above its target after paying \<open>to_pay\<close> to cover \<open>to_cover\<close>.\<close>

definition result_is_good ::
  "fc_lib \<Rightarrow> call_order_object \<Rightarrow> bool \<Rightarrow> price \<Rightarrow> price \<Rightarrow> uint16 \<Rightarrow> share_type \<Rightarrow> share_type \<Rightarrow> bool option" where
  "result_is_good L c after_core_hardfork_1270 target_collateralization feed_price tcr to_pay to_cover = do {
     nc \<leftarrow> asset_sub L (get_collateral c) (mk_asset to_pay (collateral_type c));
     nd \<leftarrow> asset_sub L (get_debt c) (mk_asset to_cover (debt_type c));
     if after_core_hardfork_1270
     then do { p \<leftarrow> asset_div nc nd; Some (price_gt p target_collateralization) }
     else do { p \<leftarrow> call_price L nd nc tcr; Some (price_gt p feed_price) }
   }"

record cover_bounds =
  min_to_pay :: share_type
  min_to_cover :: share_type
  max_to_pay :: share_type
  max_to_cover :: share_type
  max_is_ok :: bool

definition cover_mean :: "fc_lib \<Rightarrow> call_order_object \<Rightarrow> price \<Rightarrow> cover_bounds \<Rightarrow> (share_type \<times> share_type) option" where
  "cover_mean L c mp b =
     (if amount (base mp) < amount (quote mp) then do {
        s \<leftarrow> safe_add L (min_to_pay b) (max_to_pay b);
        s1 \<leftarrow> safe_add L s 1;
        let to_pay = tdiv s1 2;
        if to_pay = max_to_pay b then Some (to_pay, max_to_cover b)
        else do {
          to_cover \<leftarrow> cover_at c mp to_pay;
          if to_cover \<ge> max_to_cover b then Some (max_to_pay b, max_to_cover b)
          else do {
            to_pay' \<leftarrow> pay_at c mp to_cover;
            fc_assert (to_pay' < max_to_pay b);
            Some (to_pay', to_cover)
          }
        }
      } else do {
        s \<leftarrow> safe_add L (min_to_cover b) (max_to_cover b);
        let to_cover = tdiv s 2;
        if to_cover = max_to_cover b then Some (max_to_pay b, to_cover)
        else do {
          to_pay \<leftarrow> pay_at c mp to_cover;
          if to_pay \<ge> max_to_pay b then Some (max_to_pay b, max_to_cover b)
          else do {
            to_cover' \<leftarrow> cover_at c mp to_pay;
            if to_cover' \<ge> max_to_cover b then Some (max_to_pay b, max_to_cover b)
            else Some (to_pay, to_cover')
          }
        }
      })"

definition cover_clamp :: "cover_bounds \<Rightarrow> share_type \<times> share_type \<Rightarrow> share_type \<times> share_type" where
  "cover_clamp b pc =
     (if fst pc \<le> min_to_pay b \<or> snd pc \<le> min_to_cover b \<or> fst pc > max_to_pay b \<or> snd pc > max_to_cover b
      then (max_to_pay b, max_to_cover b) else pc)"

text \<open>The binary search. It returns the result (\<open>Inl\<close>) or leaves the loop with the last values (\<open>Inr\<close>).\<close>

function cover_search ::
  "fc_lib \<Rightarrow> call_order_object \<Rightarrow> price \<Rightarrow> (share_type \<Rightarrow> share_type \<Rightarrow> bool option) \<Rightarrow> cover_bounds \<Rightarrow>
     (share_type + share_type \<times> share_type) option" where
  "cover_search L c mp good b = do {
     m \<leftarrow> cover_mean L c mp b;
     let pc = cover_clamp b m;
     if fst pc = max_to_pay b \<and> (max_is_ok b \<or> fst pc = collateral c) then Some (Inl (snd pc))
     else do {
       fc_assert (fst pc < collateral c \<and> snd pc < debt c);
       g \<leftarrow> good (fst pc) (snd pc);
       if g then
         (if fst pc = max_to_pay b then Some (Inl (snd pc))
          else cover_search L c mp good (b\<lparr>max_to_pay := fst pc, max_to_cover := snd pc, max_is_ok := True\<rparr>))
       else
         (if fst pc = max_to_pay b then Some (Inr pc)
          else cover_search L c mp good (b\<lparr>min_to_pay := fst pc, min_to_cover := snd pc\<rparr>))
     }
   }"
  by pat_completeness auto
termination
  by (relation "measure (\<lambda>(L, c, mp, good, b). nat (max_to_pay b - min_to_pay b))")
    (auto simp: cover_clamp_def split: if_splits)

declare cover_search.simps [simp del]

text \<open>The search forward, with steps that grow like the Fibonacci numbers. \<open>cover_fuel\<close> rounds are enough: the step exceeds
  every share amount before that (\<open>cover_forward_returns\<close>).\<close>

definition cover_fuel :: nat where
  "cover_fuel = 128"

definition cover_advance :: "fc_lib \<Rightarrow> call_order_object \<Rightarrow> price \<Rightarrow> uint64 \<Rightarrow> share_type \<times> share_type \<Rightarrow>
    (share_type \<times> share_type) option option" where
  "cover_advance L c mp d2 pc =
     (if amount (base mp) > amount (quote mp) then do {
        to_pay \<leftarrow> safe_add L (fst pc) (s64 d2);
        if to_pay \<ge> collateral c then Some None
        else do {
          to_cover \<leftarrow> cover_at c mp to_pay;
          if to_cover \<ge> debt c then Some None
          else do {
            to_pay' \<leftarrow> pay_at c mp to_cover;
            if to_pay' \<ge> collateral c then Some None else Some (Some (to_pay', to_cover))
          }
        }
      } else do {
        to_cover \<leftarrow> safe_add L (snd pc) (s64 d2);
        if to_cover \<ge> debt c then Some None
        else do {
          to_pay \<leftarrow> pay_at c mp to_cover;
          if to_pay \<ge> collateral c then Some None
          else do {
            to_cover' \<leftarrow> cover_at c mp to_pay;
            if to_cover' \<ge> debt c then Some None else Some (Some (to_pay, to_cover'))
          }
        }
      })"

fun cover_forward ::
  "fc_lib \<Rightarrow> call_order_object \<Rightarrow> price \<Rightarrow> (share_type \<Rightarrow> share_type \<Rightarrow> bool option) \<Rightarrow> nat \<Rightarrow> uint64 \<Rightarrow> uint64 \<Rightarrow>
     share_type \<times> share_type \<Rightarrow> share_type option" where
  "cover_forward L c mp good 0 d2 d3 pc = None"
| "cover_forward L c mp good (Suc fuel) d2 d3 pc = do {
     r \<leftarrow> cover_advance L c mp d2 pc;
     case r of None \<Rightarrow> Some (debt c)
     | Some pc' \<Rightarrow> do {
         fc_assert (fst pc' < collateral c \<and> snd pc' < debt c);
         g \<leftarrow> good (fst pc') (snd pc');
         if g then Some (snd pc') else cover_forward L c mp good fuel d3 (u64 (d2 + d3)) pc'
       }
   }"

text \<open>From the first estimate that is too small on: the upper bounds, the binary search and the search forward.\<close>

definition cover_by_search ::
  "fc_lib \<Rightarrow> call_order_object \<Rightarrow> price \<Rightarrow> (share_type \<Rightarrow> share_type \<Rightarrow> bool option) \<Rightarrow> int \<Rightarrow> share_type \<times> share_type \<Rightarrow>
     share_type option" where
  "cover_by_search L c mp good to_cover_i256 pc = do {
     let to_cover_amt = s64 (if to_cover_i256 \<ge> debt c then debt c else to_cover_i256);
     max_pay \<leftarrow> (if to_cover_amt = debt c then Some (collateral c) else pay_at c mp to_cover_amt);
     let max_pay = (if max_pay > collateral c then collateral c else max_pay);
     max_cover \<leftarrow> (if max_pay = collateral c then Some (debt c) else cover_at c mp max_pay);
     let (max_pay, max_cover) = (if max_cover \<ge> debt c then (collateral c, debt c) else (max_pay, max_cover));
     if max_pay \<le> fst pc \<or> max_cover \<le> snd pc then Some (debt c)
     else do {
       r \<leftarrow> cover_search L c mp good \<lparr>min_to_pay = fst pc, min_to_cover = snd pc, max_to_pay = max_pay,
              max_to_cover = max_cover, max_is_ok = False\<rparr>;
       case r of Inl x \<Rightarrow> Some x | Inr pc' \<Rightarrow> cover_forward L c mp good cover_fuel 1 1 pc'
     }
   }"

definition cover_for_target ::
  "fc_lib \<Rightarrow> call_order_object \<Rightarrow> price \<Rightarrow> price \<Rightarrow> uint16 \<Rightarrow> (share_type \<Rightarrow> share_type \<Rightarrow> bool option) \<Rightarrow> share_type option" where
  "cover_for_target L c mp fp tcr good = do {
     let numerator = amount (base fp) * amount (quote mp) * debt c * tcr -
       amount (quote fp) * amount (quote mp) * collateral c * GRAPHENE_COLLATERAL_RATIO_DENOM;
     if numerator < 0 then Some 0
     else do {
       let denominator = amount (base fp) * amount (quote mp) * tcr -
         amount (quote fp) * amount (base mp) * GRAPHENE_COLLATERAL_RATIO_DENOM;
       if denominator \<le> 0 then Some (debt c)
       else do {
         let to_cover_i256 = tdiv numerator denominator;
         if to_cover_i256 \<ge> debt c then Some (debt c)
         else do {
           to_pay0 \<leftarrow> map_option amount (asset_mul (mk_asset (s64 to_cover_i256) (debt_type c)) mp);
           to_cover \<leftarrow> cover_at c mp to_pay0;
           to_pay \<leftarrow> pay_at c mp to_cover;
           if to_cover \<ge> debt c \<or> to_pay \<ge> collateral c then Some (debt c)
           else do {
             g \<leftarrow> good to_pay to_cover;
             if g then Some to_cover
             else cover_by_search L c mp good
               (tdiv (numerator + amount (base fp) * amount (quote mp) * tcr) denominator + 1) (to_pay, to_cover)
           }
         }
       }
     }
   }"

text \<open>A price in the format collateral / debt.\<close>

definition collateral_format :: "call_order_object \<Rightarrow> price \<Rightarrow> price option" where
  "collateral_format c p = do {
     let p' = (if asset_id (base p) \<noteq> collateral_type c then price_invert p else p);
     fc_assert (asset_id (base p') = collateral_type c \<and> asset_id (quote p') = debt_type c);
     Some p'
   }"

definition target_collateralization :: "fc_lib \<Rightarrow> price \<Rightarrow> uint16 \<Rightarrow> bool \<Rightarrow> price option" where
  "target_collateralization L fp tcr after_core_hardfork_1270 =
     (if after_core_hardfork_1270
      then do { r \<leftarrow> rat_make L 32 tcr GRAPHENE_COLLATERAL_RATIO_DENOM; price_mul_ratio L fp r } else Some null_price)"

definition get_max_debt_to_cover ::
  "fc_lib \<Rightarrow> call_order_object \<Rightarrow> price \<Rightarrow> price \<Rightarrow> uint16 \<Rightarrow> price option \<Rightarrow> share_type option" where
  "get_max_debt_to_cover L c match_price feed_price mcr maintenance = do {
     fp \<leftarrow> collateral_format c feed_price;
     (case maintenance of None \<Rightarrow> Some ()
      | Some m \<Rightarrow> fc_assert (asset_id (base m) = collateral_type c \<and> asset_id (quote m) = debt_type c));
     protected \<leftarrow> (case maintenance of None \<Rightarrow> Some (price_gt (co_call_price c) fp)
      | Some m \<Rightarrow> do { z \<leftarrow> collateralization c; Some (price_gt z m) });
     if protected then Some 0
     else
       (case target_collateral_ratio c of None \<Rightarrow> Some (debt c)
        | Some t \<Rightarrow> do {
            let tcr = max t mcr;
            target \<leftarrow> target_collateralization L fp tcr (maintenance \<noteq> None);
            mp \<leftarrow> collateral_format c match_price;
            cover_for_target L c mp fp tcr (result_is_good L c (maintenance \<noteq> None) target fp tcr)
          })
   }"

section \<open>Rounding at the match price\<close>

text \<open>The rounded amounts as integer functions.\<close>

definition floor_cover :: "price \<Rightarrow> int \<Rightarrow> int" where
  "floor_cover mp p = p * amount (quote mp) div amount (base mp)"

definition ceil_pay :: "price \<Rightarrow> int \<Rightarrow> int" where
  "ceil_pay mp x = div_up (x * amount (base mp)) (amount (quote mp))"

text \<open>Rounding a price conversion up on the way there and down on the way back is a Galois connection.\<close>

locale rounding =
  fixes up down :: "int \<Rightarrow> int"
  assumes galois: "up x \<le> p \<longleftrightarrow> x \<le> down p"
begin

lemma up_mono: "x \<le> y \<Longrightarrow> up x \<le> up y"
  using galois by (meson order_trans order_refl)

lemma down_mono: "p \<le> q \<Longrightarrow> down p \<le> down q"
  using galois by (meson order_trans order_refl)

lemma up_down: "up (down p) \<le> p"
  by (simp add: galois)

lemma down_up: "x \<le> down (up x)"
  using galois [of x "up x"] by simp

lemma up_down_up: "up (down (up x)) = up x"
  by (rule antisym [OF up_down up_mono [OF down_up]])

end

lemma price_rounding: "price_ok mp \<Longrightarrow> rounding (ceil_pay mp) (floor_cover mp)"
  by unfold_locales (simp add: ceil_pay_def floor_cover_def price_ok_def div_up_le_iff int_le_div_iff)

text \<open>A margin position and a match price at which its debt and its collateral convert to amounts in range.\<close>

locale margin_call = fc_safe L for L :: fc_lib +
  fixes c :: call_order_object and mp :: price and good :: "share_type \<Rightarrow> share_type \<Rightarrow> bool option"
  assumes mp: "price_ok mp" "asset_id (base mp) = collateral_type c" "asset_id (quote mp) = debt_type c"
    and collateral_range: "0 < collateral c" "collateral c \<le> 3000000000000000000"
    and debt_range: "0 < debt c" "debt c \<le> 3000000000000000000"
    and in_range: "floor_cover mp (collateral c) \<le> GRAPHENE_MAX_SHARE_SUPPLY" "ceil_pay mp (debt c) \<le> GRAPHENE_MAX_SHARE_SUPPLY"
    and good_total: "0 \<le> p \<Longrightarrow> p < collateral c \<Longrightarrow> 0 \<le> x \<Longrightarrow> x < debt c \<Longrightarrow> good p x \<noteq> None"

sublocale margin_call \<subseteq> rounding "ceil_pay mp" "floor_cover mp"
  by (rule price_rounding [OF mp(1)])

context margin_call
begin

lemma nonneg: "0 \<le> p \<Longrightarrow> 0 \<le> floor_cover mp p" "0 \<le> x \<Longrightarrow> 0 \<le> ceil_pay mp x"
  using mp(1) by (simp_all add: floor_cover_def ceil_pay_def price_ok_def pos_imp_zdiv_nonneg_iff)

lemma cover_at_Some:
  assumes "0 \<le> p" "p \<le> GRAPHENE_MAX_SHARE_SUPPLY" "floor_cover mp p \<le> GRAPHENE_MAX_SHARE_SUPPLY"
  shows "cover_at c mp p = Some (floor_cover mp p)"
  using asset_mul_base [OF mp(1), of "mk_asset p (collateral_type c)"] assms mp
  by (simp add: cover_at_def share_ok_def floor_cover_def Let_def)

lemma pay_at_Some:
  assumes "0 \<le> x" "x \<le> debt c"
  shows "pay_at c mp x = Some (ceil_pay mp x)"
proof -
  have "ceil_pay mp x \<le> GRAPHENE_MAX_SHARE_SUPPLY" using up_mono [OF assms(2)] in_range(2) by simp
  moreover have "share_ok (mk_asset x (debt_type c))" using assms debt_range by (simp add: share_ok_def chain_consts)
  ultimately show ?thesis
    using round_up_base [of "price_invert mp" "mk_asset x (debt_type c)"] round_up_invert [OF mp(1)] mp
    by (simp add: pay_at_def ceil_pay_def Let_def)
qed

lemma cover_at_below: "0 \<le> p \<Longrightarrow> p \<le> collateral c \<Longrightarrow> cover_at c mp p = Some (floor_cover mp p)"
  using down_mono [of p "collateral c"] in_range(1) collateral_range by (intro cover_at_Some) (auto simp: chain_consts)

text \<open>A pair of amounts that a match trades: what is paid for \<open>x\<close> is \<open>p\<close>, and both leave some of the position.\<close>

definition partial :: "share_type \<Rightarrow> share_type \<Rightarrow> bool" where
  "partial p x \<longleftrightarrow> 0 \<le> x \<and> x < debt c \<and> 0 \<le> p \<and> p < collateral c \<and> p = ceil_pay mp x"

definition bounds_ok :: "cover_bounds \<Rightarrow> bool" where
  "bounds_ok b \<longleftrightarrow>
     0 \<le> min_to_pay b \<and> min_to_pay b < max_to_pay b \<and> 0 \<le> min_to_cover b \<and> min_to_cover b < max_to_cover b \<and>
     (max_to_pay b = collateral c \<and> max_to_cover b = debt c \<or> partial (max_to_pay b) (max_to_cover b)) \<and>
     (max_is_ok b \<longrightarrow> good (max_to_pay b) (max_to_cover b) = Some True \<and> partial (max_to_pay b) (max_to_cover b))"

lemma max_le: "bounds_ok b \<Longrightarrow> max_to_pay b \<le> collateral c \<and> max_to_cover b \<le> debt c"
  by (auto simp: bounds_ok_def partial_def)

lemma cover_mean_ok:
  assumes b: "bounds_ok b"
  shows "\<exists>p x. cover_mean L c mp b = Some (p, x) \<and>
    (p = max_to_pay b \<and> x = max_to_cover b \<or> p < max_to_pay b \<and> x < max_to_cover b \<and> partial p x)"
proof (cases "amount (base mp) < amount (quote mp)")
  case True
  let ?m = "(min_to_pay b + max_to_pay b + 1) div 2"
  note r = max_le [OF b] collateral_range debt_range
  have m: "0 \<le> min_to_pay b" "min_to_pay b < max_to_pay b" using b by (auto simp: bounds_ok_def)
  have add: "safe_add L (min_to_pay b) (max_to_pay b) = Some (min_to_pay b + max_to_pay b)"
    "safe_add L (min_to_pay b + max_to_pay b) 1 = Some (min_to_pay b + max_to_pay b + 1)"
    using r m by (simp_all add: safe_add in_s64_def)
  have ml: "0 \<le> ?m" "?m \<le> max_to_pay b" using m by auto
  show ?thesis
  proof (cases "?m = max_to_pay b \<or> max_to_cover b \<le> floor_cover mp ?m")
    case False
    let ?x = "floor_cover mp ?m"
    have x: "0 \<le> ?x" "?x < max_to_cover b" using False nonneg(1) [OF ml(1)] by auto
    have p: "ceil_pay mp ?x < max_to_pay b" using up_down [of ?m] ml(2) False by auto
    have "partial (ceil_pay mp ?x) ?x" using x p r nonneg(2) [OF x(1)] by (auto simp: partial_def)
    then show ?thesis
      using True False add m ml x p r
      by (simp add: cover_mean_def cover_at_below pay_at_Some Let_def)
  qed (use True add m ml r in \<open>auto simp: cover_mean_def cover_at_below Let_def\<close>)
next
  case False
  let ?m = "(min_to_cover b + max_to_cover b) div 2"
  note r = max_le [OF b] collateral_range debt_range
  have m: "0 \<le> min_to_cover b" "min_to_cover b < max_to_cover b" using b by (auto simp: bounds_ok_def)
  have add: "safe_add L (min_to_cover b) (max_to_cover b) = Some (min_to_cover b + max_to_cover b)"
    using r m by (simp add: safe_add in_s64_def)
  have ml: "0 \<le> ?m" "?m < max_to_cover b" using m by auto
  let ?p = "ceil_pay mp ?m"
  have pay: "pay_at c mp ?m = Some ?p" using ml r by (intro pay_at_Some) auto
  show ?thesis
  proof (cases "max_to_pay b \<le> ?p \<or> max_to_cover b \<le> floor_cover mp ?p")
    case nm: False
    have p: "0 \<le> ?p" "?p \<le> collateral c" using nm nonneg(2) [OF ml(1)] r by auto
    have "partial ?p (floor_cover mp ?p)"
      using nm p r nonneg(1) [OF p(1)] by (auto simp: partial_def up_down_up)
    then show ?thesis
      using False add m ml nm p pay by (simp add: cover_mean_def cover_at_below Let_def)
  next
    case True
    then show ?thesis
    proof (cases "max_to_pay b \<le> ?p")
      case le: False
      have p: "0 \<le> ?p" "?p \<le> collateral c" using le nonneg(2) [OF ml(1)] r by auto
      then show ?thesis using False add m ml pay True le by (simp add: cover_mean_def cover_at_below Let_def)
    qed (use False add m ml pay in \<open>simp add: cover_mean_def Let_def\<close>)
  qed
qed

definition result_ok :: "share_type \<Rightarrow> bool" where
  "result_ok x \<longleftrightarrow> x = 0 \<or> x = debt c \<or> (\<exists>p. partial p x \<and> good p x = Some True)"

lemma cover_clamp_ok:
  assumes "bounds_ok b"
  obtains m p x where "cover_mean L c mp b = Some m" "cover_clamp b m = (p, x)"
    "p = max_to_pay b \<and> x = max_to_cover b \<or>
     min_to_pay b < p \<and> p < max_to_pay b \<and> min_to_cover b < x \<and> x < max_to_cover b \<and> partial p x"
proof -
  obtain p x where m: "cover_mean L c mp b = Some (p, x)"
    "p = max_to_pay b \<and> x = max_to_cover b \<or> p < max_to_pay b \<and> x < max_to_cover b \<and> partial p x"
    using cover_mean_ok [OF assms] by blast
  show ?thesis
    by (rule that [OF m(1), of "fst (cover_clamp b (p, x))" "snd (cover_clamp b (p, x))"])
      (use m(2) in \<open>auto simp: cover_clamp_def\<close>)
qed

lemma cover_search_ok:
  "bounds_ok b \<Longrightarrow> \<exists>r. cover_search L c mp good b = Some r \<and> (case r of Inl x \<Rightarrow> result_ok x | Inr pc \<Rightarrow> partial (fst pc) (snd pc))"
proof (induction "nat (max_to_pay b - min_to_pay b)" arbitrary: b rule: less_induct)
  case less
  obtain m p x where m: "cover_mean L c mp b = Some m" "cover_clamp b m = (p, x)"
    and px: "p = max_to_pay b \<and> x = max_to_cover b \<or>
      min_to_pay b < p \<and> p < max_to_pay b \<and> min_to_cover b < x \<and> x < max_to_cover b \<and> partial p x"
    using cover_clamp_ok [OF less(2)] by blast
  have b: "0 \<le> min_to_pay b" "0 \<le> min_to_cover b"
    "max_to_pay b = collateral c \<and> max_to_cover b = debt c \<or> partial (max_to_pay b) (max_to_cover b)"
    "max_is_ok b \<longrightarrow> good (max_to_pay b) (max_to_cover b) = Some True \<and> partial (max_to_pay b) (max_to_cover b)"
    using less(2) by (auto simp: bounds_ok_def)
  show ?case
  proof (cases "p = max_to_pay b \<and> (max_is_ok b \<or> p = collateral c)")
    case True
    then have "result_ok x" using px b(3,4) by (auto simp: result_ok_def partial_def)
    then show ?thesis using True m by (subst cover_search.simps) auto
  next
    case False
    then have pt: "partial p x" using px b(3,4) by auto
    then obtain g where g: "good p x = Some g" using good_total [of p x] by (auto simp: partial_def)
    have lt: "p < collateral c \<and> x < debt c" using pt by (simp add: partial_def)
    show ?thesis
    proof (cases "p = max_to_pay b")
      case True
      then show ?thesis using False m g lt pt
        by (subst cover_search.simps, cases g) (auto simp: result_ok_def Let_def)
    next
      case np: False
      with px have in_b: "min_to_pay b < p" "p < max_to_pay b" "min_to_cover b < x" "x < max_to_cover b" by auto
      let ?b = "if g then b\<lparr>max_to_pay := p, max_to_cover := x, max_is_ok := True\<rparr> else b\<lparr>min_to_pay := p, min_to_cover := x\<rparr>"
      have "bounds_ok ?b" using less(2) in_b pt g b by (auto simp: bounds_ok_def)
      moreover have "nat (max_to_pay ?b - min_to_pay ?b) < nat (max_to_pay b - min_to_pay b)" using in_b by auto
      ultimately obtain r where r: "cover_search L c mp good ?b = Some r" "case r of Inl x \<Rightarrow> result_ok x | Inr pc \<Rightarrow> partial (fst pc) (snd pc)"
        using less(1) by blast
      have "cover_search L c mp good b = cover_search L c mp good ?b"
        using False m g lt np by (subst cover_search.simps) simp
      then show ?thesis using r by auto
    qed
  qed
qed

text \<open>The search forward: the step grows by half in every round and is then larger than the position.\<close>

lemma cover_advance_ok:
  assumes "partial p x" "0 < d" "d \<le> 6000000000000000000"
  shows "\<exists>r. cover_advance L c mp d (p, x) = Some r \<and>
    (case r of None \<Rightarrow> True | Some pc \<Rightarrow> partial (fst pc) (snd pc) \<and> (d < collateral c \<or> d < debt c))"
proof (cases "amount (quote mp) < amount (base mp)")
  case True
  have px: "0 \<le> p" "p < collateral c" using assms(1) by (auto simp: partial_def)
  have s: "s64 d = d" using assms by simp
  have a: "safe_add L p d = Some (p + d)" using assms px collateral_range by (simp add: safe_add in_s64_def)
  let ?x = "floor_cover mp (p + d)"
  show ?thesis
  proof (cases "collateral c \<le> p + d \<or> debt c \<le> ?x")
    case True
    then show ?thesis using \<open>amount (quote mp) < amount (base mp)\<close> a s px assms
      by (cases "collateral c \<le> p + d") (auto simp: cover_advance_def cover_at_below)
  next
    case False
    have x: "0 \<le> ?x" "?x \<le> debt c" using False px assms nonneg(1) [of "p + d"] by auto
    have q: "ceil_pay mp ?x < collateral c" using up_down [of "p + d"] False by auto
    have "partial (ceil_pay mp ?x) ?x" using x q False nonneg(2) [OF x(1)] by (auto simp: partial_def)
    then show ?thesis using True a s px assms False x q by (simp add: cover_advance_def cover_at_below pay_at_Some)
  qed
next
  case False
  have px: "0 \<le> x" "x < debt c" using assms(1) by (auto simp: partial_def)
  have s: "s64 d = d" using assms by simp
  have a: "safe_add L x d = Some (x + d)" using assms px debt_range by (simp add: safe_add in_s64_def)
  let ?p = "ceil_pay mp (x + d)"
  have p0: "0 \<le> ?p" using px assms by (intro nonneg) simp
  show ?thesis
  proof (cases "debt c \<le> x + d \<or> collateral c \<le> ?p \<or> debt c \<le> floor_cover mp ?p")
    case True
    then show ?thesis using False a s px assms p0
      by (cases "debt c \<le> x + d"; cases "collateral c \<le> ?p") (auto simp: cover_advance_def pay_at_Some cover_at_below)
  next
    case nf: False
    have "partial ?p (floor_cover mp ?p)" using nf p0 nonneg(1) [OF p0] by (auto simp: partial_def up_down_up)
    then show ?thesis using False a s px assms nf p0 by (simp add: cover_advance_def cover_at_below pay_at_Some)
  qed
qed

lemma cover_forward_returns:
  "partial p x \<Longrightarrow> 0 < d2 \<Longrightarrow> d2 \<le> d3 \<Longrightarrow> d3 \<le> 2 * d2 \<Longrightarrow> d2 \<le> 6000000000000000000 \<Longrightarrow>
   9000000000000000000 * 2 ^ n \<le> (d2 + d3) * 3 ^ n \<Longrightarrow>
   \<exists>r. cover_forward L c mp good (Suc n) d2 d3 (p, x) = Some r \<and> result_ok r"
proof (induction n arbitrary: p x d2 d3)
  case (0 p x d2 d3)
  obtain r where r: "cover_advance L c mp d2 (p, x) = Some r"
    "case r of None \<Rightarrow> True | Some pc \<Rightarrow> partial (fst pc) (snd pc) \<and> (d2 < collateral c \<or> d2 < debt c)"
    using cover_advance_ok [OF 0(1,2,5)] by blast
  have "\<not> (d2 < collateral c \<or> d2 < debt c)" using 0(4,6) collateral_range debt_range by auto
  with r have "r = None" by (cases r) auto
  with r show ?case by (simp add: result_ok_def)
next
  case (Suc n p x d2 d3)
  obtain r where r: "cover_advance L c mp d2 (p, x) = Some r"
    "case r of None \<Rightarrow> True | Some pc \<Rightarrow> partial (fst pc) (snd pc) \<and> (d2 < collateral c \<or> d2 < debt c)"
    using cover_advance_ok [OF Suc.prems(1,2,5)] by blast
  show ?case
  proof (cases r)
    case None
    with r show ?thesis by (simp add: result_ok_def)
  next
    case (Some pc)
    then have pt: "partial (fst pc) (snd pc)" and d: "d2 < 3000000000000000000"
      using r(2) collateral_range debt_range by auto
    obtain g where g: "good (fst pc) (snd pc) = Some g" using good_total [of "fst pc" "snd pc"] pt by (auto simp: partial_def)
    have u: "u64 (d2 + d3) = d2 + d3" using d Suc.prems by simp
    have "3 * (d2 + d3) * 3 ^ n \<le> 2 * (d3 + (d2 + d3)) * 3 ^ n" using Suc.prems(3) by (intro mult_right_mono) auto
    moreover have "2 * (9000000000000000000 * 2 ^ n) \<le> 3 * (d2 + d3) * 3 ^ n"
      using Suc.prems(6) by (simp only: power_Suc mult.assoc mult.commute mult.left_commute)
    ultimately have "2 * (9000000000000000000 * 2 ^ n) \<le> 2 * ((d3 + (d2 + d3)) * 3 ^ n)" by (simp only: mult.assoc)
    then have "9000000000000000000 * 2 ^ n \<le> (d3 + (d2 + d3)) * 3 ^ n" by (simp only: mult_le_cancel_left_pos zero_less_numeral)
    then obtain r' where r': "cover_forward L c mp good (Suc n) d3 (d2 + d3) (fst pc, snd pc) = Some r'" "result_ok r'"
      using Suc.IH [OF pt, of d3 "d2 + d3"] Suc.prems d by auto
    have step: "cover_forward L c mp good (Suc (Suc n)) d2 d3 (p, x) =
        (if g then Some (snd pc) else cover_forward L c mp good (Suc n) d3 (d2 + d3) pc)"
      using r(1) Some g pt u by (subst cover_forward.simps) (simp add: partial_def del: cover_forward.simps)
    show ?thesis using step r' g pt by (auto simp: result_ok_def simp del: cover_forward.simps)
  qed
qed

lemma cover_by_search_ok:
  assumes pt: "partial p x" and i: "0 \<le> i"
  shows "\<exists>r. cover_by_search L c mp good i (p, x) = Some r \<and> result_ok r"
proof -
  define amt where "amt = (if i \<ge> debt c then debt c else i)"
  have amt: "s64 amt = amt" "0 \<le> amt" "amt \<le> debt c" using i debt_range by (auto simp: amt_def)
  define q0 where "q0 = (if amt = debt c then collateral c else ceil_pay mp amt)"
  define q where "q = (if q0 > collateral c then collateral c else q0)"
  define y where "y = (if q = collateral c then debt c else floor_cover mp q)"
  have q0: "(if amt = debt c then Some (collateral c) else pay_at c mp amt) = Some q0"
    using amt by (simp add: q0_def pay_at_Some)
  have q: "0 \<le> q" "q \<le> collateral c" using amt collateral_range nonneg(2) [OF amt(2)] by (auto simp: q_def q0_def)
  have y: "(if q = collateral c then Some (debt c) else cover_at c mp q) = Some y" "0 \<le> y"
    using q nonneg(1) [OF q(1)] debt_range by (auto simp: y_def cover_at_below)
  define qm where "qm = (if y \<ge> debt c then collateral c else q)"
  define ym where "ym = (if y \<ge> debt c then debt c else y)"
  have m: "(if y \<ge> debt c then (collateral c, debt c) else (q, y)) = (qm, ym)" by (simp add: qm_def ym_def)
  have "qm = collateral c \<and> ym = debt c \<or> partial qm ym"
  proof (cases "y \<ge> debt c")
    case False
    then have "q \<noteq> collateral c" "amt \<noteq> debt c" by (auto simp: y_def q_def q0_def split: if_splits)
    then have "q = ceil_pay mp amt" "y = floor_cover mp q" "q < collateral c" using q by (auto simp: q_def q0_def y_def split: if_splits)
    then show ?thesis using False q y by (auto simp: partial_def qm_def ym_def up_down_up)
  qed (simp add: qm_def ym_def)
  then have ok: "bounds_ok \<lparr>min_to_pay = p, min_to_cover = x, max_to_pay = qm, max_to_cover = ym, max_is_ok = False\<rparr>"
    if "p < qm" "x < ym" using that pt by (auto simp: bounds_ok_def partial_def)
  have run: "cover_by_search L c mp good i (p, x) =
      (if qm \<le> p \<or> ym \<le> x then Some (debt c)
       else cover_search L c mp good \<lparr>min_to_pay = p, min_to_cover = x, max_to_pay = qm, max_to_cover = ym, max_is_ok = False\<rparr> \<bind>
         (\<lambda>r. case r of Inl x \<Rightarrow> Some x | Inr pc' \<Rightarrow> cover_forward L c mp good cover_fuel 1 1 pc'))"
    unfolding cover_by_search_def amt_def [symmetric] Let_def amt(1) q0 bind.bind_lunit q_def [symmetric] y(1) m by simp
  show ?thesis
  proof (cases "qm \<le> p \<or> ym \<le> x")
    case True
    then show ?thesis using run by (simp add: result_ok_def)
  next
    case False
    then obtain r where r: "cover_search L c mp good \<lparr>min_to_pay = p, min_to_cover = x, max_to_pay = qm, max_to_cover = ym,
        max_is_ok = False\<rparr> = Some r" "case r of Inl x \<Rightarrow> result_ok x | Inr pc \<Rightarrow> partial (fst pc) (snd pc)"
      using cover_search_ok [OF ok] by fastforce
    have fwd: "\<exists>r. cover_forward L c mp good cover_fuel 1 1 pc = Some r \<and> result_ok r" if "partial (fst pc) (snd pc)" for pc
    proof -
      have "cover_fuel = Suc 127" by (simp add: cover_fuel_def)
      then show ?thesis using cover_forward_returns [OF that, of 1 1 127] by (simp del: cover_forward.simps)
    qed
    show ?thesis using run False r fwd by (cases r) auto
  qed
qed

lemma cover_for_target_ok:
  assumes fp: "0 \<le> amount (base fp)" and tcr: "0 \<le> tcr"
  shows "\<exists>r. cover_for_target L c mp fp tcr good = Some r \<and> result_ok r"
proof -
  let ?b = "amount (base mp)" and ?q = "amount (quote mp)"
  define num where "num = amount (base fp) * ?q * debt c * tcr - amount (quote fp) * ?q * collateral c * GRAPHENE_COLLATERAL_RATIO_DENOM"
  define den where "den = amount (base fp) * ?q * tcr - amount (quote fp) * ?b * GRAPHENE_COLLATERAL_RATIO_DENOM"
  have bq: "0 < ?b" "0 < ?q" using mp(1) by (auto simp: price_ok_def)
  show ?thesis
  proof (cases "num < 0 \<or> den \<le> 0 \<or> debt c \<le> tdiv num den")
    case True
    then show ?thesis
      by (cases "num < 0"; cases "den \<le> 0") (auto simp: cover_for_target_def num_def [symmetric] den_def [symmetric] result_ok_def Let_def)
  next
    case False
    define x where "x = tdiv num den"
    define p where "p = x * ?b div ?q"
    have x0: "0 \<le> x" "x < debt c" using False by (auto simp: x_def pos_imp_zdiv_nonneg_iff)
    then have x: "0 \<le> x" "x < debt c" "s64 x = x" using debt_range by auto
    have "p \<le> ceil_pay mp x" using bq by (auto simp: p_def ceil_pay_def div_up_def intro!: zdiv_mono1)
    then have p: "0 \<le> p" "p \<le> GRAPHENE_MAX_SHARE_SUPPLY" "p \<le> ceil_pay mp x"
      using x bq up_mono [of x "debt c"] in_range(2) by (auto simp: p_def pos_imp_zdiv_nonneg_iff)
    have "p * ?q \<le> x * ?b" using int_le_div_iff [of ?q p "x * ?b"] bq by (simp add: p_def)
    then have fc: "floor_cover mp p \<le> x" using bq zdiv_mono1 [of "p * ?q" "x * ?b" ?b] by (simp add: floor_cover_def)
    have f0: "0 \<le> floor_cover mp p" by (rule nonneg(1) [OF p(1)])
    have "asset_mul (mk_asset x (debt_type c)) mp = Some (mk_asset p (collateral_type c))"
      using asset_mul_base [of "price_invert mp" "mk_asset x (debt_type c)"] asset_mul_invert [OF mp(1)] mp x p debt_range
      by (simp add: share_ok_def p_def chain_consts Let_def)
    moreover have "cover_at c mp p = Some (floor_cover mp p)"
      using p fc x debt_range by (intro cover_at_Some) (auto simp: chain_consts)
    moreover have "pay_at c mp (floor_cover mp p) = Some (ceil_pay mp (floor_cover mp p))"
      using f0 fc x by (intro pay_at_Some) auto
    ultimately have run: "cover_for_target L c mp fp tcr good =
      (if debt c \<le> floor_cover mp p \<or> collateral c \<le> ceil_pay mp (floor_cover mp p) then Some (debt c)
       else good (ceil_pay mp (floor_cover mp p)) (floor_cover mp p) \<bind> (\<lambda>g. if g then Some (floor_cover mp p)
         else cover_by_search L c mp good (tdiv (num + amount (base fp) * ?q * tcr) den + 1)
           (ceil_pay mp (floor_cover mp p), floor_cover mp p)))"
      using False x(3) by (simp add: cover_for_target_def num_def [symmetric] den_def [symmetric] x_def [symmetric] Let_def)
    show ?thesis
    proof (cases "debt c \<le> floor_cover mp p \<or> collateral c \<le> ceil_pay mp (floor_cover mp p)")
      case True
      then show ?thesis using run by (simp add: result_ok_def)
    next
      case nf: False
      then have pt: "partial (ceil_pay mp (floor_cover mp p)) (floor_cover mp p)" using f0 nonneg(2) [OF f0] by (simp add: partial_def)
      obtain g where g: "good (ceil_pay mp (floor_cover mp p)) (floor_cover mp p) = Some g"
        using good_total pt by (fastforce simp: partial_def)
      have "0 \<le> num + amount (base fp) * ?q * tcr" using False fp tcr bq by simp
      then have "0 \<le> tdiv (num + amount (base fp) * ?q * tcr) den + 1" using False by (simp add: pos_imp_zdiv_nonneg_iff)
      from cover_by_search_ok [OF pt this] show ?thesis using run nf g pt by (auto simp: result_ok_def)
    qed
  qed
qed

end

section \<open>Properties\<close>

text \<open>What the search needs of a margin position, a match price and a feed price.\<close>

definition margin_ok :: "call_order_object \<Rightarrow> price \<Rightarrow> price \<Rightarrow> bool" where
  "margin_ok c mp fp \<longleftrightarrow>
     0 < collateral c \<and> collateral c \<le> 3000000000000000000 \<and> 0 < debt c \<and> debt c \<le> 3000000000000000000 \<and>
     price_ok mp \<and> price_ok fp \<and>
     floor_cover mp (collateral c) \<le> GRAPHENE_MAX_SHARE_SUPPLY \<and> ceil_pay mp (debt c) \<le> GRAPHENE_MAX_SHARE_SUPPLY"

lemma collateral_format_ids:
  "collateral_format c p = Some q \<Longrightarrow> asset_id (base q) = collateral_type c \<and> asset_id (quote q) = debt_type c"
  by (auto simp: collateral_format_def opt_bind Let_def)

lemma target_total:
  assumes "ext_laws L" "price_ok fp" "0 < tcr" "tcr < 2 ^ 16"
  shows "target_collateralization L fp tcr after \<noteq> None"
proof -
  have r: "rat_make L 32 tcr GRAPHENE_COLLATERAL_RATIO_DENOM = Some (Rat.normalize (tcr, GRAPHENE_COLLATERAL_RATIO_DENOM))"
    using boost_rational.rat_make [OF ext_laws.axioms(3) [OF assms(1)], of 32] assms by (simp add: fits_def chain_consts)
  have "ratio_ok (Rat.normalize (tcr, GRAPHENE_COLLATERAL_RATIO_DENOM))"
    using normalize_pos [of tcr GRAPHENE_COLLATERAL_RATIO_DENOM] assms by (simp add: ratio_ok_def chain_consts)
  from boost_rational.mul_ratio_total [OF ext_laws.axioms(3) [OF assms(1)] assms(2) this] show ?thesis
    by (auto simp: target_collateralization_def r)
qed

lemma result_is_good_total:
  assumes "ext_laws L" "collateral_type c \<noteq> debt_type c" "0 < tcr" "tcr < 2 ^ 16"
    and "0 \<le> p" "p < collateral c" "0 \<le> x" "x < debt c" "collateral c < 2 ^ 63" "debt c < 2 ^ 63"
  shows "result_is_good L c after target fp tcr p x \<noteq> None"
proof -
  have s: "safe_sub L (collateral c) p = Some (collateral c - p)" "safe_sub L (debt c) x = Some (debt c - x)"
    using assms fc_safe.safe_sub [OF ext_laws.axioms(1) [OF assms(1)]] by (auto simp: in_s64_def)
  obtain q where "call_price L (mk_asset (debt c - x) (debt_type c)) (mk_asset (collateral c - p) (collateral_type c)) tcr = Some q"
    using boost_rational.call_price_range [OF ext_laws.axioms(3) [OF assms(1)],
        of "mk_asset (debt c - x) (debt_type c)" "mk_asset (collateral c - p) (collateral_type c)" tcr] assms by auto
  then show ?thesis using s assms(2) by (simp add: result_is_good_def asset_sub_def get_collateral_def get_debt_def asset_div_def)
qed

lemma margin_call_intro:
  assumes "ext_laws L" "margin_ok c mp fp" "collateral_format c p = Some mp" "0 < tcr" "tcr < 2 ^ 16"
  shows "margin_call L c mp (result_is_good L c after target fp tcr)"
proof (intro margin_call.intro margin_call_axioms.intro)
  show "fc_safe L" by (rule ext_laws.axioms(1) [OF assms(1)])
next
  fix p x assume "0 \<le> p" "p < collateral c" "0 \<le> x" "x < debt c"
  moreover have "collateral_type c \<noteq> debt_type c" using collateral_format_ids [OF assms(3)] assms(2) by (auto simp: margin_ok_def price_ok_def)
  ultimately show "result_is_good L c after target fp tcr p x \<noteq> None"
    using assms(2) by (intro result_is_good_total [OF assms(1) _ assms(4,5)]) (auto simp: margin_ok_def)
qed (use assms(2) collateral_format_ids [OF assms(3)] in \<open>auto simp: margin_ok_def\<close>)

text \<open>
  (C19) A margin call covers what it has to. For a position of at most a third of the maximum supply on either side, whose conversions at
  the match price stay within the maximum supply (\<open>margin_ok\<close>), \<^verbatim>\<open>get_max_debt_to_cover\<close> returns, both of its search loops end, and its result is
  nothing (a protected position), the whole debt, or a part of the debt such that the position, after paying for it at the
  match price with the rounding that the match uses, is above its target collateral ratio and keeps collateral. Above half of the 64-bit range
  the mean of the bounds can overflow and the calculation throws (\<open>large_position_throws\<close>).
\<close>

theorem margin_call_covers:
  assumes "ext_laws L" "margin_ok c mp fp" "collateral_format c match_price = Some mp" "collateral_format c feed_price = Some fp"
    and "0 < mcr" "mcr < 2 ^ 16" "\<forall>t. target_collateral_ratio c = Some t \<longrightarrow> 0 \<le> t \<and> t < 2 ^ 16"
    and "\<forall>m. maintenance = Some m \<longrightarrow> asset_id (base m) = collateral_type c \<and> asset_id (quote m) = debt_type c"
  shows "\<exists>r. get_max_debt_to_cover L c match_price feed_price mcr maintenance = Some r \<and>
    (r = 0 \<or> r = debt c \<or> 0 \<le> r \<and> r < debt c \<and>
      (\<exists>t target p. target_collateral_ratio c = Some t \<and> target_collateralization L fp (max t mcr) (maintenance \<noteq> None) = Some target \<and>
        pay_at c mp r = Some p \<and> p < collateral c \<and>
        result_is_good L c (maintenance \<noteq> None) target fp (max t mcr) p r = Some True))"
proof -
  have ids: "collateral_type c \<noteq> debt_type c" using collateral_format_ids [OF assms(3)] assms(2) by (auto simp: margin_ok_def price_ok_def)
  define prot where "prot = (case maintenance of None \<Rightarrow> price_gt (co_call_price c) fp
    | Some m \<Rightarrow> price_gt (mk_price (get_collateral c) (get_debt c)) m)"
  have pr: "(case maintenance of None \<Rightarrow> Some (price_gt (co_call_price c) fp)
      | Some m \<Rightarrow> do { z \<leftarrow> collateralization c; Some (price_gt z m) }) = Some prot"
    "(case maintenance of None \<Rightarrow> Some ()
      | Some m \<Rightarrow> fc_assert (asset_id (base m) = collateral_type c \<and> asset_id (quote m) = debt_type c)) = Some ()"
    using ids assms(8) by (auto simp: prot_def collateralization_def asset_div_def get_collateral_def get_debt_def split: option.splits)
  show ?thesis
  proof (cases "prot \<or> target_collateral_ratio c = None")
    case True
    then show ?thesis using assms(4) pr by (cases prot) (auto simp: get_max_debt_to_cover_def)
  next
    case False
    then obtain t where t: "target_collateral_ratio c = Some t" by auto
    have tcr: "0 < max t mcr" "max t mcr < 2 ^ 16" using assms(5-7) t by auto
    obtain target where tg: "target_collateralization L fp (max t mcr) (maintenance \<noteq> None) = Some target"
      using target_total [OF assms(1) _ tcr] assms(2) by (fastforce simp: margin_ok_def)
    let ?good = "result_is_good L c (maintenance \<noteq> None) target fp (max t mcr)"
    have mc: "margin_call L c mp ?good" by (rule margin_call_intro [OF assms(1-3) tcr])
    have "0 \<le> amount (base fp)" using assms(2) by (simp add: margin_ok_def price_ok_def)
    then obtain r where r: "cover_for_target L c mp fp (max t mcr) ?good = Some r" "margin_call.result_ok c mp ?good r"
      using margin_call.cover_for_target_ok [OF mc, of fp "max t mcr"] tcr(1) by auto
    have "get_max_debt_to_cover L c match_price feed_price mcr maintenance = Some r"
      using False t tg r(1) assms(3,4) pr by (simp add: get_max_debt_to_cover_def Let_def)
    moreover have "r = 0 \<or> r = debt c \<or> 0 \<le> r \<and> r < debt c \<and> (\<exists>p. pay_at c mp r = Some p \<and> p < collateral c \<and> ?good p r = Some True)"
      using r(2) margin_call.pay_at_Some [OF mc, of r] unfolding margin_call.result_ok_def [OF mc] margin_call.partial_def [OF mc] by auto
    ultimately show ?thesis using t tg by blast
  qed
qed

definition demo_call :: call_order_object where
  "demo_call = \<lparr>borrower = 7, collateral = 17003, debt = 10001, co_call_price = mk_price (mk_asset 1 0) (mk_asset 1 1),
     target_collateral_ratio = Some 1900\<rparr>"

abbreviation demo_match_price :: price where
  "demo_match_price \<equiv> mk_price (mk_asset 100 1) (mk_asset 110 0)"

abbreviation demo_feed_price :: price where
  "demo_feed_price \<equiv> mk_price (mk_asset 1 1) (mk_asset 1 0)"

abbreviation demo_maintenance :: price where
  "demo_maintenance \<equiv> mk_price (mk_asset 175 0) (mk_asset 100 1)"

lemma demo_margin_ok:
  "margin_ok demo_call (price_invert demo_match_price) (price_invert demo_feed_price)"
  "collateral_format demo_call demo_match_price = Some (price_invert demo_match_price)"
  "collateral_format demo_call demo_feed_price = Some (price_invert demo_feed_price)"
  by (simp_all add: margin_ok_def demo_call_def price_ok_def floor_cover_def ceil_pay_def div_up_def price_invert_def
      collateral_format_def collateral_type_def debt_type_def chain_consts)

interpretation demo_margin: margin_call checked_lib demo_call "price_invert demo_match_price"
    "result_is_good checked_lib demo_call False null_price (price_invert demo_feed_price) 1900"
  by (rule margin_call_intro [OF checked_lib_laws demo_margin_ok(1,2)]) simp_all

theorem margin_call_covers_witness:
  "get_max_debt_to_cover checked_lib demo_call demo_match_price demo_feed_price 1750 (Some demo_maintenance) = Some 2499 \<and>
   (\<exists>target p. pay_at demo_call (price_invert demo_match_price) 2499 = Some p \<and> p < 17003 \<and>
     result_is_good checked_lib demo_call True target (price_invert demo_feed_price) 1900 p 2499 = Some True)"
proof -
  have r: "get_max_debt_to_cover checked_lib demo_call demo_match_price demo_feed_price 1750 (Some demo_maintenance) = Some 2499"
    by code_simp
  have t: "target_collateral_ratio demo_call = Some 1900" "debt demo_call = 10001" "collateral demo_call = 17003"
    "collateral_type demo_call = 0" "debt_type demo_call = 1"
    by (simp_all add: demo_call_def collateral_type_def debt_type_def)
  show ?thesis
    using margin_call_covers [OF checked_lib_laws demo_margin_ok, of 1750 "Some demo_maintenance"] r t by auto
qed

text \<open>A position with more than half of the 64-bit range of debt: the sum of the bounds of the search overflows.\<close>

definition demo_large_call :: call_order_object where
  "demo_large_call = demo_call\<lparr>collateral := 8500000000000000000, debt := 8000000000000000000\<rparr>"

lemma large_position_throws:
  "get_max_debt_to_cover checked_lib demo_large_call (mk_price (mk_asset 100 1) (mk_asset 101 0)) (mk_price (mk_asset 107 1) (mk_asset 101 0))
     1750 (Some demo_maintenance) = None"
  by code_simp

end
