(* ===== verification/Chain_State.thy ===== *)
theory Chain_State
  imports Tables Allocation Vesting Bitasset Call_Order
begin

text \<open>
  The state of the chain that the evaluators read and change: one table per object type, as the
  header files under \<^verbatim>\<open>libraries/chain/include/graphene/chain/\<close> declare the objects, and the
  values of the global property objects. Fields are prefixed where two classes share a name. The
  database record is threaded through every operation; an exception is \<open>None\<close> and the whole
  transaction is rolled back (theory \<open>Undo_Database\<close>).

  The second half is the ledger: how much of an asset the chain holds, in balances, vesting balances,
  hashed time-locked contracts, pools, orders, margin positions, settlement funds and fee accounts, against the recorded supply.
\<close>

section \<open>Objects\<close>

record account_object =
  acct_name :: string
  membership_expiration_date :: time_point_sec
  registrar :: account_id_type
  referrer :: account_id_type
  lifetime_referrer :: account_id_type
  network_fee_percentage :: uint16
  lifetime_referrer_fee_percentage :: uint16
  referrer_rewards_percentage :: uint16
  whitelisting_accounts :: "account_id_type list"
  blacklisting_accounts :: "account_id_type list"
  allowed_assets :: "asset_id_type list option"
  cashback_vb :: "nat option"
  statistics :: nat

record account_statistics_object =
  stat_owner :: account_id_type
  total_core_in_orders :: share_type
  has_cashback_vb :: bool
  lifetime_fees_paid :: share_type
  pending_fees :: share_type
  pending_vested_fees :: share_type

record account_balance_object =
  abo_owner :: account_id_type
  abo_asset_type :: asset_id_type
  abo_balance :: share_type
  maintenance_flag :: bool

record asset_options =
  max_supply :: share_type
  market_fee_percent :: uint16
  max_market_fee :: share_type
  issuer_permissions :: uint16
  asset_flags :: uint16
  core_exchange_rate_opt :: price
  whitelist_authorities :: "account_id_type list"
  blacklist_authorities :: "account_id_type list"
  whitelist_markets :: "asset_id_type list"
  blacklist_markets :: "asset_id_type list"
  reward_percent :: "uint16 option"
  whitelist_market_fee_sharing :: "account_id_type list option"
  taker_fee_percent_opt :: "uint16 option"

record asset_dynamic_data_object =
  current_supply :: share_type
  confidential_supply :: share_type
  accumulated_fees :: share_type
  fee_pool :: share_type

record asset_object =
  symbol :: string
  precision :: nat
  ao_issuer :: account_id_type
  ao_options :: asset_options
  dynamic_asset_data_id :: nat
  bitasset_data_id :: "nat option"
  buyback_account :: "account_id_type option"
  for_liquidity_pool :: "nat option"

record asset_limitation_object =
  limit_symbol :: string
  alo_issuer :: account_id_type
  cumulative_sell_limit :: uint64

record price_ratio =
  pr_numerator :: uint64
  pr_denominator :: uint64

record asset_price =
  ap_symbol :: string
  usd_price :: price_ratio
  publication_time :: time_point_sec

datatype htlc_hash = Ripemd160 "char list" | Sha1 "char list" | Sha256 "char list"

record htlc_object =
  htlc_from :: account_id_type
  htlc_to :: account_id_type
  htlc_amount :: share_type
  htlc_asset_id :: asset_id_type
  htlc_preimage_hash :: htlc_hash
  htlc_preimage_size :: uint16
  htlc_expiration :: time_point_sec

record liquidity_pool_object =
  asset_a :: asset_id_type
  asset_b :: asset_id_type
  balance_a :: share_type
  balance_b :: share_type
  share_asset :: asset_id_type
  lp_taker_fee_percent :: uint16
  withdrawal_fee_percent :: uint16
  virtual_value :: uint128

record limit_order_object =
  lo_expiration :: time_point_sec
  seller :: account_id_type
  for_sale :: share_type
  sell_price :: price
  deferred_fee :: share_type
  deferred_paid_fee :: asset

record force_settlement_object =
  fs_owner :: account_id_type
  fs_balance :: asset
  settlement_date :: time_point_sec

record collateral_bid_object =
  bidder :: account_id_type
  inv_swan_price :: price

record witness_object =
  witness_account :: account_id_type
  last_aslot :: uint64
  pay_vb :: "nat option"
  total_missed :: int
  last_confirmed_block_num :: uint32

record withdraw_permission_object =
  withdraw_from_account :: account_id_type
  authorized_account :: account_id_type
  withdrawal_limit :: asset
  withdrawal_period_sec :: uint32
  period_start_time :: time_point_sec
  wp_expiration :: time_point_sec
  claimed_this_period :: share_type

record htlc_options =
  max_timeout_secs :: uint32
  max_preimage_size :: uint32

section \<open>The database\<close>

text \<open>\<open>issue_453_affected_assets\<close> is a member of the class \<^verbatim>\<open>database\<close>; the fields from \<open>head_block_time\<close> on are values of
  the (dynamic) global property objects.\<close>

record database =
  accounts :: "account_object tbl"
  account_statistics :: "account_statistics_object tbl"
  account_balances :: "account_balance_object tbl"
  assets :: "asset_object tbl"
  asset_dynamic_data :: "asset_dynamic_data_object tbl"
  properties :: "property_object tbl"
  asset_limitations :: "asset_limitation_object tbl"
  asset_prices :: "asset_price tbl"
  vesting_balances :: "vesting_balance_object tbl"
  htlcs :: "htlc_object tbl"
  liquidity_pools :: "liquidity_pool_object tbl"
  limit_orders :: "limit_order_object tbl"
  witnesses :: "witness_object tbl"
  call_orders :: "call_order_object tbl"
  bitassets :: "asset_bitasset_data_object tbl"
  force_settlements :: "force_settlement_object tbl"
  collateral_bids :: "collateral_bid_object tbl"
  withdraw_permissions :: "withdraw_permission_object tbl"
  issue_453_affected_assets :: "asset_id_type list"
  head_block_time :: time_point_sec
  next_maintenance_time :: time_point_sec
  updatable_htlc_options :: "htlc_options option"
  cashback_vesting_period_seconds :: uint32
  cashback_vesting_threshold :: share_type
  witness_pay_vesting_seconds :: uint32
  limit_order_cancel_fee :: share_type

definition empty_database :: database where
  "empty_database = \<lparr>accounts = tbl_empty, account_statistics = tbl_empty, account_balances = tbl_empty,
     assets = tbl_empty, asset_dynamic_data = tbl_empty, properties = tbl_empty, asset_limitations = tbl_empty,
     asset_prices = tbl_empty, vesting_balances = tbl_empty, htlcs = tbl_empty, liquidity_pools = tbl_empty,
     limit_orders = tbl_empty, witnesses = tbl_empty, call_orders = tbl_empty,
     bitassets = tbl_empty, force_settlements = tbl_empty, collateral_bids = tbl_empty, withdraw_permissions = tbl_empty, issue_453_affected_assets = [],
     head_block_time = 0, next_maintenance_time = 0,
     updatable_htlc_options = None, cashback_vesting_period_seconds = 0, cashback_vesting_threshold = 0,
     witness_pay_vesting_seconds = 0, limit_order_cancel_fee = 0\<rparr>"

text \<open>Each asset has dynamic data of its own.\<close>

definition assets_linked :: "database \<Rightarrow> bool" where
  "assets_linked d \<longleftrightarrow>
     (\<forall>i a. tbl_get i (assets d) = Some a \<longrightarrow> tbl_get (dynamic_asset_data_id a) (asset_dynamic_data d) \<noteq> None) \<and>
     (\<forall>i j a b. tbl_get i (assets d) = Some a \<longrightarrow> tbl_get j (assets d) = Some b \<longrightarrow>
        dynamic_asset_data_id a = dynamic_asset_data_id b \<longrightarrow> i = j)"

definition db_wf :: "database \<Rightarrow> bool" where
  "db_wf d \<longleftrightarrow>
     tbl_wf (accounts d) \<and> tbl_wf (account_statistics d) \<and> tbl_wf (account_balances d) \<and> tbl_wf (assets d) \<and>
     tbl_wf (asset_dynamic_data d) \<and> tbl_wf (properties d) \<and> tbl_wf (asset_limitations d) \<and>
     tbl_wf (asset_prices d) \<and> tbl_wf (vesting_balances d) \<and> tbl_wf (htlcs d) \<and> tbl_wf (liquidity_pools d) \<and>
     tbl_wf (limit_orders d) \<and> tbl_wf (witnesses d) \<and> tbl_wf (call_orders d) \<and> tbl_wf (bitassets d) \<and>
     tbl_wf (force_settlements d) \<and> tbl_wf (collateral_bids d) \<and> tbl_wf (withdraw_permissions d) \<and> assets_linked d"

text \<open>The core asset has instance 0; its dynamic data is that of the asset object.\<close>

definition get_dynamic_data :: "database \<Rightarrow> asset_id_type \<Rightarrow> (nat \<times> asset_dynamic_data_object) option" where
  "get_dynamic_data d a = do {
     ao \<leftarrow> tbl_get a (assets d);
     dd \<leftarrow> tbl_get (dynamic_asset_data_id ao) (asset_dynamic_data d);
     Some (dynamic_asset_data_id ao, dd)
   }"

definition find_account_by_name :: "database \<Rightarrow> string \<Rightarrow> (nat \<times> account_object) option" where
  "find_account_by_name d n = tbl_find (\<lambda>a. acct_name a = n) (accounts d)"

definition find_asset_by_symbol :: "database \<Rightarrow> string \<Rightarrow> (nat \<times> asset_object) option" where
  "find_asset_by_symbol d s = tbl_find (\<lambda>a. symbol a = s) (assets d)"

definition find_limitation_by_symbol :: "database \<Rightarrow> string \<Rightarrow> (nat \<times> asset_limitation_object) option" where
  "find_limitation_by_symbol d s = tbl_find (\<lambda>a. limit_symbol a = s) (asset_limitations d)"

definition is_market_issued :: "asset_object \<Rightarrow> bool" where
  "is_market_issued a \<longleftrightarrow> bitasset_data_id a \<noteq> None"

definition is_liquidity_pool_share_asset :: "asset_object \<Rightarrow> bool" where
  "is_liquidity_pool_share_asset a \<longleftrightarrow> for_liquidity_pool a \<noteq> None"

text \<open>The flags of \<^verbatim>\<open>types.hpp\<close>: \<^verbatim>\<open>override_authority\<close> is bit 2 and \<^verbatim>\<open>transfer_restricted\<close> bit 3.\<close>

definition is_transfer_restricted :: "asset_object \<Rightarrow> bool" where
  "is_transfer_restricted a \<longleftrightarrow> bit (asset_flags (ao_options a)) 3"

definition charges_market_fees :: "asset_object \<Rightarrow> bool" where
  "charges_market_fees a \<longleftrightarrow> bit (asset_flags (ao_options a)) 0"

section \<open>Authorisation to hold an asset\<close>

definition is_authorized_asset_slow :: "account_object \<Rightarrow> asset_id_type \<Rightarrow> asset_object \<Rightarrow> bool" where
  "is_authorized_asset_slow acct aid a =
     (if (case allowed_assets acct of Some al \<Rightarrow> aid \<notin> set al | None \<Rightarrow> False) then False
      else if \<exists>i \<in> set (blacklisting_accounts acct). i \<in> set (blacklist_authorities (ao_options a)) then False
      else if length (whitelist_authorities (ao_options a)) = 0 then True
      else if \<exists>i \<in> set (whitelisting_accounts acct). i \<in> set (whitelist_authorities (ao_options a)) then True
      else False)"

definition is_authorized_asset :: "account_object \<Rightarrow> asset_id_type \<Rightarrow> asset_object \<Rightarrow> bool" where
  "is_authorized_asset acct aid a =
     (let fast_check = (\<not> bit (asset_flags (ao_options a)) 1 \<and> allowed_assets acct = None)
      in if fast_check then True else is_authorized_asset_slow acct aid a)"

section \<open>The ledger\<close>

definition of_asset :: "asset_id_type \<Rightarrow> asset \<Rightarrow> int" where
  "of_asset a x = (if asset_id x = a then amount x else 0)"

lemma of_asset_mk [simp]: "of_asset a (mk_asset x i) = (if i = a then x else 0)"
  by (simp add: of_asset_def)

text \<open>What the chain holds of an asset, part by part.\<close>

definition in_balances :: "asset_id_type \<Rightarrow> database \<Rightarrow> int" where
  "in_balances a d = tbl_sum (\<lambda>b. if abo_asset_type b = a then abo_balance b else 0) (account_balances d)"

definition in_vesting :: "asset_id_type \<Rightarrow> database \<Rightarrow> int" where
  "in_vesting a d = tbl_sum (\<lambda>v. of_asset a (vbo_balance v)) (vesting_balances d)"

definition in_htlcs :: "asset_id_type \<Rightarrow> database \<Rightarrow> int" where
  "in_htlcs a d = tbl_sum (\<lambda>h. if htlc_asset_id h = a then htlc_amount h else 0) (htlcs d)"

definition in_pools :: "asset_id_type \<Rightarrow> database \<Rightarrow> int" where
  "in_pools a d = tbl_sum (\<lambda>p. (if asset_a p = a then balance_a p else 0) + (if asset_b p = a then balance_b p else 0))
     (liquidity_pools d)"

definition in_orders :: "asset_id_type \<Rightarrow> database \<Rightarrow> int" where
  "in_orders a d = tbl_sum (\<lambda>o'. (if asset_id (base (sell_price o')) = a then for_sale o' else 0) +
     (if a = 0 then deferred_fee o' else 0) + of_asset a (deferred_paid_fee o')) (limit_orders d)"

definition in_calls :: "asset_id_type \<Rightarrow> database \<Rightarrow> int" where
  "in_calls a d = tbl_sum (\<lambda>c. if collateral_type c = a then collateral c else 0) (call_orders d)"

definition in_settlement_funds :: "asset_id_type \<Rightarrow> database \<Rightarrow> int" where
  "in_settlement_funds a d = tbl_sum (\<lambda>b. if short_backing_asset (bda_options b) = a then settlement_fund b else 0) (bitassets d)"

definition in_settlements :: "asset_id_type \<Rightarrow> database \<Rightarrow> int" where
  "in_settlements a d = tbl_sum (\<lambda>s. of_asset a (fs_balance s)) (force_settlements d)"

definition in_bids :: "asset_id_type \<Rightarrow> database \<Rightarrow> int" where
  "in_bids a d = tbl_sum (\<lambda>b. of_asset a (base (inv_swan_price b))) (collateral_bids d)"

definition in_pending_fees :: "asset_id_type \<Rightarrow> database \<Rightarrow> int" where
  "in_pending_fees a d = (if a = 0 then tbl_sum (\<lambda>s. pending_fees s + pending_vested_fees s) (account_statistics d) else 0)"

definition in_fee_pools :: "asset_id_type \<Rightarrow> database \<Rightarrow> int" where
  "in_fee_pools a d = (if a = 0 then tbl_sum fee_pool (asset_dynamic_data d) else 0)"

definition in_accumulated :: "asset_id_type \<Rightarrow> database \<Rightarrow> int" where
  "in_accumulated a d = (case get_dynamic_data d a of Some (i, dd) \<Rightarrow> accumulated_fees dd | None \<Rightarrow> 0)"

definition supply_of :: "asset_id_type \<Rightarrow> database \<Rightarrow> int" where
  "supply_of a d = (case get_dynamic_data d a of Some (i, dd) \<Rightarrow> current_supply dd | None \<Rightarrow> 0)"

definition held :: "asset_id_type \<Rightarrow> database \<Rightarrow> int" where
  "held a d = in_balances a d + in_vesting a d + in_htlcs a d + in_pools a d + in_orders a d +
     in_calls a d + in_settlement_funds a d + in_settlements a d + in_bids a d + in_pending_fees a d + in_fee_pools a d + in_accumulated a d"

named_theorems ledger
lemmas [ledger] = in_balances_def in_vesting_def in_htlcs_def in_pools_def in_orders_def
  in_calls_def in_settlement_funds_def in_settlements_def in_bids_def in_pending_fees_def in_fee_pools_def in_accumulated_def supply_of_def

text \<open>What the chain holds beyond the recorded supply; the operations that move value keep it.\<close>

definition gap :: "asset_id_type \<Rightarrow> database \<Rightarrow> int" where
  "gap a d = held a d - supply_of a d"

text \<open>The share of one object of each table in what is held of \<open>a\<close>.\<close>

definition bal_of :: "asset_id_type \<Rightarrow> account_balance_object \<Rightarrow> int" where
  "bal_of a b = (if abo_asset_type b = a then abo_balance b else 0)"

definition htlc_of :: "asset_id_type \<Rightarrow> htlc_object \<Rightarrow> int" where
  "htlc_of a h = (if htlc_asset_id h = a then htlc_amount h else 0)"

definition pool_of :: "asset_id_type \<Rightarrow> liquidity_pool_object \<Rightarrow> int" where
  "pool_of a p = (if asset_a p = a then balance_a p else 0) + (if asset_b p = a then balance_b p else 0)"

definition order_of :: "asset_id_type \<Rightarrow> limit_order_object \<Rightarrow> int" where
  "order_of a x = (if asset_id (base (sell_price x)) = a then for_sale x else 0) +
     (if a = 0 then deferred_fee x else 0) + of_asset a (deferred_paid_fee x)"

definition call_of :: "asset_id_type \<Rightarrow> call_order_object \<Rightarrow> int" where
  "call_of a c = (if collateral_type c = a then collateral c else 0)"

definition fund_of :: "asset_id_type \<Rightarrow> asset_bitasset_data_object \<Rightarrow> int" where
  "fund_of a b = (if short_backing_asset (bda_options b) = a then settlement_fund b else 0)"

definition pending_of :: "asset_id_type \<Rightarrow> account_statistics_object \<Rightarrow> int" where
  "pending_of a s = (if a = 0 then pending_fees s + pending_vested_fees s else 0)"

lemma in_tables:
  "in_balances a d = tbl_sum (bal_of a) (account_balances d)"
  "in_vesting a d = tbl_sum (\<lambda>v. of_asset a (vbo_balance v)) (vesting_balances d)"
  "in_htlcs a d = tbl_sum (htlc_of a) (htlcs d)"
  "in_pools a d = tbl_sum (pool_of a) (liquidity_pools d)"
  "in_orders a d = tbl_sum (order_of a) (limit_orders d)"
  "in_calls a d = tbl_sum (call_of a) (call_orders d)"
  "in_settlement_funds a d = tbl_sum (fund_of a) (bitassets d)"
  "in_settlements a d = tbl_sum (\<lambda>s. of_asset a (fs_balance s)) (force_settlements d)"
  "in_bids a d = tbl_sum (\<lambda>b. of_asset a (base (inv_swan_price b))) (collateral_bids d)"
  "in_pending_fees a d = tbl_sum (pending_of a) (account_statistics d)"
  by (simp_all add: ledger bal_of_def [abs_def] htlc_of_def [abs_def] pool_of_def [abs_def] order_of_def [abs_def] call_of_def [abs_def] fund_of_def [abs_def]
    pending_of_def [abs_def] tbl_sum_def)

lemma gap_upd:
  "gap a (d\<lparr>account_balances := t1\<rparr>) = gap a d - tbl_sum (bal_of a) (account_balances d) + tbl_sum (bal_of a) t1"
  "gap a (d\<lparr>vesting_balances := t2\<rparr>) =
     gap a d - tbl_sum (\<lambda>v. of_asset a (vbo_balance v)) (vesting_balances d) + tbl_sum (\<lambda>v. of_asset a (vbo_balance v)) t2"
  "gap a (d\<lparr>htlcs := t3\<rparr>) = gap a d - tbl_sum (htlc_of a) (htlcs d) + tbl_sum (htlc_of a) t3"
  "gap a (d\<lparr>liquidity_pools := t4\<rparr>) = gap a d - tbl_sum (pool_of a) (liquidity_pools d) + tbl_sum (pool_of a) t4"
  "gap a (d\<lparr>limit_orders := t5\<rparr>) = gap a d - tbl_sum (order_of a) (limit_orders d) + tbl_sum (order_of a) t5"
  "gap a (d\<lparr>account_statistics := t6\<rparr>) = gap a d - tbl_sum (pending_of a) (account_statistics d) + tbl_sum (pending_of a) t6"
  "gap a (d\<lparr>accounts := t7\<rparr>) = gap a d"
  "gap a (d\<lparr>witnesses := t8\<rparr>) = gap a d"
  "gap a (d\<lparr>properties := t9\<rparr>) = gap a d"
  "gap a (d\<lparr>asset_limitations := t10\<rparr>) = gap a d"
  "gap a (d\<lparr>asset_prices := t11\<rparr>) = gap a d"
  "gap a (d\<lparr>call_orders := t12\<rparr>) = gap a d - tbl_sum (call_of a) (call_orders d) + tbl_sum (call_of a) t12"
  "gap a (d\<lparr>bitassets := t13\<rparr>) = gap a d - tbl_sum (fund_of a) (bitassets d) + tbl_sum (fund_of a) t13"
  "gap a (d\<lparr>force_settlements := t14\<rparr>) =
     gap a d - tbl_sum (\<lambda>s. of_asset a (fs_balance s)) (force_settlements d) + tbl_sum (\<lambda>s. of_asset a (fs_balance s)) t14"
  "gap a (d\<lparr>collateral_bids := t15\<rparr>) =
     gap a d - tbl_sum (\<lambda>b. of_asset a (base (inv_swan_price b))) (collateral_bids d) + tbl_sum (\<lambda>b. of_asset a (base (inv_swan_price b))) t15"
  "gap a (d\<lparr>withdraw_permissions := t16\<rparr>) = gap a d"
  "gap a (d\<lparr>issue_453_affected_assets := x\<rparr>) = gap a d"
  by (simp_all add: gap_def held_def in_tables, simp_all add: in_fee_pools_def in_accumulated_def supply_of_def get_dynamic_data_def)

lemma db_wf_upd:
  assumes "db_wf d"
  shows "tbl_wf t1 \<Longrightarrow> db_wf (d\<lparr>account_balances := t1\<rparr>)"
    and "tbl_wf t2 \<Longrightarrow> db_wf (d\<lparr>vesting_balances := t2\<rparr>)"
    and "tbl_wf t3 \<Longrightarrow> db_wf (d\<lparr>htlcs := t3\<rparr>)"
    and "tbl_wf t4 \<Longrightarrow> db_wf (d\<lparr>liquidity_pools := t4\<rparr>)"
    and "tbl_wf t5 \<Longrightarrow> db_wf (d\<lparr>limit_orders := t5\<rparr>)"
    and "tbl_wf t6 \<Longrightarrow> db_wf (d\<lparr>account_statistics := t6\<rparr>)"
    and "tbl_wf t7 \<Longrightarrow> db_wf (d\<lparr>accounts := t7\<rparr>)"
    and "tbl_wf t8 \<Longrightarrow> db_wf (d\<lparr>witnesses := t8\<rparr>)"
    and "tbl_wf t9 \<Longrightarrow> db_wf (d\<lparr>properties := t9\<rparr>)"
    and "tbl_wf t10 \<Longrightarrow> db_wf (d\<lparr>asset_limitations := t10\<rparr>)"
    and "tbl_wf t11 \<Longrightarrow> db_wf (d\<lparr>asset_prices := t11\<rparr>)"
    and "tbl_wf t12 \<Longrightarrow> db_wf (d\<lparr>call_orders := t12\<rparr>)"
    and "tbl_wf t13 \<Longrightarrow> db_wf (d\<lparr>bitassets := t13\<rparr>)"
    and "tbl_wf t14 \<Longrightarrow> db_wf (d\<lparr>force_settlements := t14\<rparr>)"
    and "tbl_wf t15 \<Longrightarrow> db_wf (d\<lparr>collateral_bids := t15\<rparr>)"
    and "tbl_wf t16 \<Longrightarrow> db_wf (d\<lparr>withdraw_permissions := t16\<rparr>)"
    and "db_wf (d\<lparr>issue_453_affected_assets := x\<rparr>)"
  using assms by (simp_all add: db_wf_def assets_linked_def)

lemma db_wf_tables:
  assumes "db_wf d"
  shows "tbl_wf (accounts d)" "tbl_wf (account_statistics d)" "tbl_wf (account_balances d)" "tbl_wf (assets d)"
    "tbl_wf (asset_dynamic_data d)" "tbl_wf (properties d)" "tbl_wf (asset_limitations d)" "tbl_wf (asset_prices d)"
    "tbl_wf (vesting_balances d)" "tbl_wf (htlcs d)" "tbl_wf (liquidity_pools d)" "tbl_wf (limit_orders d)"
    "tbl_wf (witnesses d)" "tbl_wf (call_orders d)" "tbl_wf (bitassets d)" "tbl_wf (force_settlements d)" "tbl_wf (collateral_bids d)"
    "tbl_wf (withdraw_permissions d)"
  using assms by (simp_all add: db_wf_def)

lemmas tbl_wf_ops = tbl.create_wf tbl.modify_wf tbl.remove_wf

lemma get_dynamic_data_Some:
  "get_dynamic_data d a = Some (i, dd) \<longleftrightarrow>
     (\<exists>ao. tbl_get a (assets d) = Some ao \<and> dynamic_asset_data_id ao = i \<and> tbl_get i (asset_dynamic_data d) = Some dd)"
  by (auto simp: get_dynamic_data_def opt_bind)

text \<open>An update of the dynamic data of one asset.\<close>

lemma dynamic_data_update:
  fixes f :: "asset_dynamic_data_object \<Rightarrow> asset_dynamic_data_object"
  assumes wf: "db_wf d" and dd: "get_dynamic_data d a = Some (i, dd)"
  defines "d' \<equiv> d\<lparr>asset_dynamic_data := tbl_modify i f (asset_dynamic_data d)\<rparr>"
  shows "db_wf d'"
    and "gap b d' = gap b d +
      (if b = a then (accumulated_fees (f dd) - accumulated_fees dd) - (current_supply (f dd) - current_supply dd) else 0) +
      (if b = 0 then fee_pool (f dd) - fee_pool dd else 0)"
    and "get_dynamic_data d' a = Some (i, f dd)"
    and "b \<noteq> a \<Longrightarrow> get_dynamic_data d' b = get_dynamic_data d b"
proof -
  obtain ao where ao: "tbl_get a (assets d) = Some ao" "dynamic_asset_data_id ao = i" "tbl_get i (asset_dynamic_data d) = Some dd"
    using dd by (auto simp: get_dynamic_data_Some)
  show "db_wf d'"
    using wf by (auto simp: d'_def db_wf_def assets_linked_def tbl_wf_ops tbl.get_modify)
  have other: "get_dynamic_data d' b = get_dynamic_data d b" if "b \<noteq> a" for b
  proof (cases "tbl_get b (assets d)")
    case (Some bo)
    then have "dynamic_asset_data_id bo \<noteq> i" using that wf ao by (auto simp: db_wf_def assets_linked_def)
    then show ?thesis using Some by (simp add: d'_def get_dynamic_data_def tbl.get_modify)
  qed (simp add: d'_def get_dynamic_data_def)
  then show "b \<noteq> a \<Longrightarrow> get_dynamic_data d' b = get_dynamic_data d b" .
  show self: "get_dynamic_data d' a = Some (i, f dd)"
    using ao by (simp add: d'_def get_dynamic_data_def tbl.get_modify)
  have fp: "in_fee_pools b d' = in_fee_pools b d + (if b = 0 then fee_pool (f dd) - fee_pool dd else 0)"
    using wf ao(3) by (simp add: in_fee_pools_def d'_def tbl_sum_modify db_wf_tables)
  have "in_accumulated b d' - supply_of b d' = in_accumulated b d - supply_of b d +
      (if b = a then (accumulated_fees (f dd) - accumulated_fees dd) - (current_supply (f dd) - current_supply dd) else 0)"
    using self dd other [of b] by (cases "b = a") (simp_all add: in_accumulated_def supply_of_def)
  moreover have "in_balances b d' = in_balances b d" "in_vesting b d' = in_vesting b d" "in_htlcs b d' = in_htlcs b d"
    "in_pools b d' = in_pools b d" "in_orders b d' = in_orders b d" "in_pending_fees b d' = in_pending_fees b d"
    "in_calls b d' = in_calls b d" "in_settlement_funds b d' = in_settlement_funds b d"
    "in_settlements b d' = in_settlements b d" "in_bids b d' = in_bids b d"
    by (simp_all add: in_tables d'_def)
  ultimately show "gap b d' = gap b d +
      (if b = a then (accumulated_fees (f dd) - accumulated_fees dd) - (current_supply (f dd) - current_supply dd) else 0) +
      (if b = 0 then fee_pool (f dd) - fee_pool dd else 0)"
    using fp by (simp add: gap_def held_def)
qed

lemma head_block_time_effect:
  "db_wf d \<Longrightarrow> db_wf (d\<lparr>head_block_time := t\<rparr>)" "gap b (d\<lparr>head_block_time := t\<rparr>) = gap b d"
  by (simp_all add: db_wf_def assets_linked_def gap_def held_def in_tables in_fee_pools_def in_accumulated_def supply_of_def get_dynamic_data_def)

end
