(* ===== verification/Balances.thy ===== *)
theory Balances
  imports Chain_State
begin

text \<open>
  Account balances and deposits to vesting balances: \<^verbatim>\<open>libraries/chain/db_balance.cpp\<close>, and
  \<^verbatim>\<open>account_balance_object\<close> of \<^verbatim>\<open>account_object.cpp\<close>. Each operation is shown to change what the chain
  holds of each asset by exactly the amount it is given, which is what the conservation theorems of the
  other components rest on.
\<close>

section \<open>Operations\<close>


definition find_balance :: "database \<Rightarrow> account_id_type \<Rightarrow> asset_id_type \<Rightarrow> (nat \<times> account_balance_object) option" where
  "find_balance d owner aid = tbl_find (\<lambda>b. abo_owner b = owner \<and> abo_asset_type b = aid) (account_balances d)"

definition get_balance :: "database \<Rightarrow> account_id_type \<Rightarrow> asset_id_type \<Rightarrow> asset" where
  "get_balance d owner aid =
     (case find_balance d owner aid of
        None \<Rightarrow> mk_asset 0 aid
      | Some (i, b) \<Rightarrow> mk_asset (abo_balance b) (abo_asset_type b))"

text \<open>\<^verbatim>\<open>account_balance_object::adjust_balance\<close>\<close>

definition abo_adjust_balance :: "fc_lib \<Rightarrow> account_balance_object \<Rightarrow> asset \<Rightarrow> account_balance_object option" where
  "abo_adjust_balance L b delta = do {
     s \<leftarrow> safe_add L (abo_balance b) (amount delta);
     Some (b\<lparr>abo_balance := s, maintenance_flag := (if abo_asset_type b = 0 then True else maintenance_flag b)\<rparr>)
   }"

definition adjust_balance :: "fc_lib \<Rightarrow> account_id_type \<Rightarrow> asset \<Rightarrow> database \<Rightarrow> database option" where
  "adjust_balance L account delta d =
     (if amount delta = 0 then Some d
      else case find_balance d account (asset_id delta) of
        None \<Rightarrow> do {
          fc_assert (amount delta > 0);
          Some (d\<lparr>account_balances := snd (tbl_create
            \<lparr>abo_owner = account, abo_asset_type = asset_id delta, abo_balance = amount delta,
             maintenance_flag = (asset_id delta = 0)\<rparr> (account_balances d))\<rparr>)
        }
      | Some (i, b) \<Rightarrow> do {
          (if amount delta < 0 then do {
             n \<leftarrow> asset_neg L delta;
             ge \<leftarrow> asset_ge (mk_asset (abo_balance b) (abo_asset_type b)) n;
             fc_assert ge
           } else Some ());
          b' \<leftarrow> abo_adjust_balance L b delta;
          Some (d\<lparr>account_balances := tbl_modify i (\<lambda>_. b') (account_balances d)\<rparr>)
        })"

definition vbo_mfs_key :: "account_id_type \<Rightarrow> asset_id_type \<Rightarrow> vesting_balance_object \<Rightarrow> bool" where
  "vbo_mfs_key account aid v \<longleftrightarrow>
     vbo_balance_type v = VB_market_fee_sharing \<and> aid = asset_id (vbo_balance v) \<and> account = vbo_owner v"

definition get_market_fee_vesting_balance :: "account_id_type \<Rightarrow> asset_id_type \<Rightarrow> database \<Rightarrow> asset" where
  "get_market_fee_vesting_balance account aid d =
     (case tbl_find (vbo_mfs_key account aid) (vesting_balances d) of
        None \<Rightarrow> mk_asset 0 aid
      | Some (i, v) \<Rightarrow> vbo_balance v)"

definition deposit_market_fee_vesting_balance :: "fc_lib \<Rightarrow> account_id_type \<Rightarrow> asset \<Rightarrow> database \<Rightarrow> database option" where
  "deposit_market_fee_vesting_balance L account delta d = do {
     fc_assert (amount delta \<ge> 0);
     if amount delta = 0 then Some d
     else case tbl_find (vbo_mfs_key account (asset_id delta)) (vesting_balances d) of
       None \<Rightarrow> Some (d\<lparr>vesting_balances := snd (tbl_create
           \<lparr>vbo_owner = account, vbo_balance = delta, vbo_policy = Instant, vbo_balance_type = VB_market_fee_sharing\<rparr>
           (vesting_balances d))\<rparr>)
     | Some (i, v) \<Rightarrow> do {
         v' \<leftarrow> vbo_deposit_vested L v (head_block_time d) delta;
         Some (d\<lparr>vesting_balances := tbl_modify i (\<lambda>_. v') (vesting_balances d)\<rparr>)
       }
   }"

text \<open>The conditions of the \<^verbatim>\<open>while( true )\<close> block under which the deposit goes to the existing balance.\<close>

definition lazy_vesting_fits :: "vesting_balance_object \<Rightarrow> uint32 \<Rightarrow> account_id_type \<Rightarrow> bool" where
  "lazy_vesting_fits v req_vesting_seconds req_owner \<longleftrightarrow>
     vbo_owner v = req_owner \<and>
     (case vbo_policy v of Cdd p \<Rightarrow> vesting_seconds p = req_vesting_seconds | _ \<Rightarrow> False)"

definition deposit_lazy_vesting ::
  "fc_lib \<Rightarrow> nat option \<Rightarrow> share_type \<Rightarrow> uint32 \<Rightarrow> vesting_balance_type \<Rightarrow> account_id_type \<Rightarrow> bool \<Rightarrow> database
    \<Rightarrow> (nat option \<times> database) option" where
  "deposit_lazy_vesting L ovbid amt req_vesting_seconds balance_type req_owner require_vesting d =
     (if amt = 0 then Some (None, d)
      else do {
        let now = head_block_time d;
        existing \<leftarrow> (case ovbid of
            None \<Rightarrow> Some None
          | Some i \<Rightarrow> do {
              v \<leftarrow> tbl_get i (vesting_balances d);
              Some (if lazy_vesting_fits v req_vesting_seconds req_owner then Some (i, v) else None)
            });
        case existing of
          Some (i, v) \<Rightarrow> do {
            v' \<leftarrow> (if require_vesting then vbo_deposit L v now (mk_asset amt 0)
                   else vbo_deposit_vested L v now (mk_asset amt 0));
            Some (None, d\<lparr>vesting_balances := tbl_modify i (\<lambda>_. v') (vesting_balances d)\<rparr>)
          }
        | None \<Rightarrow>
            (let vbo = \<lparr>vbo_owner = req_owner, vbo_balance = mk_asset amt 0,
                   vbo_policy = Cdd \<lparr>vesting_seconds = req_vesting_seconds,
                     coin_seconds_earned = (if require_vesting then 0 else u128 (s64 (amt * req_vesting_seconds))),
                     start_claim = 0, coin_seconds_earned_last_update = now\<rparr>,
                   vbo_balance_type = balance_type\<rparr>;
                 (i, t) = tbl_create vbo (vesting_balances d)
             in Some (Some i, d\<lparr>vesting_balances := t\<rparr>))
      })"

text \<open>The accounts of the blockchain itself get no cashback.\<close>

definition is_chain_account :: "account_id_type \<Rightarrow> bool" where
  "is_chain_account i \<longleftrightarrow> i = GRAPHENE_COMMITTEE_ACCOUNT \<or> i = GRAPHENE_WITNESS_ACCOUNT \<or>
     i = GRAPHENE_RELAXED_COMMITTEE_ACCOUNT \<or> i = GRAPHENE_NULL_ACCOUNT \<or> i = GRAPHENE_TEMP_ACCOUNT"

definition deposit_cashback :: "fc_lib \<Rightarrow> account_id_type \<Rightarrow> share_type \<Rightarrow> bool \<Rightarrow> database \<Rightarrow> database option" where
  "deposit_cashback L acct_id amt require_vesting d =
     (if amt = 0 then Some d
      else if is_chain_account acct_id then do {
        (i, dd) \<leftarrow> get_dynamic_data d 0;
        s \<leftarrow> safe_sub L (current_supply dd) amt;
        Some (d\<lparr>asset_dynamic_data := tbl_modify i (\<lambda>x. x\<lparr>current_supply := s\<rparr>) (asset_dynamic_data d)\<rparr>)
      }
      else do {
        acct \<leftarrow> tbl_get acct_id (accounts d);
        (new_vbid, d1) \<leftarrow> deposit_lazy_vesting L (cashback_vb acct) amt (cashback_vesting_period_seconds d)
                            VB_cashback acct_id require_vesting d;
        case new_vbid of
          None \<Rightarrow> Some d1
        | Some i \<Rightarrow> do {
            let d2 = d1\<lparr>accounts := tbl_modify acct_id (\<lambda>a. a\<lparr>cashback_vb := Some i\<rparr>) (accounts d1)\<rparr>;
            st \<leftarrow> tbl_get (statistics acct) (account_statistics d2);
            Some (d2\<lparr>account_statistics := tbl_modify (statistics acct) (\<lambda>s. s\<lparr>has_cashback_vb := True\<rparr>) (account_statistics d2)\<rparr>)
          }
      })"

definition deposit_witness_pay :: "fc_lib \<Rightarrow> nat \<Rightarrow> share_type \<Rightarrow> database \<Rightarrow> database option" where
  "deposit_witness_pay L wit_id amt d =
     (if amt = 0 then Some d
      else do {
        wit \<leftarrow> tbl_get wit_id (witnesses d);
        (new_vbid, d1) \<leftarrow> deposit_lazy_vesting L (pay_vb wit) amt (witness_pay_vesting_seconds d)
                            VB_witness (witness_account wit) True d;
        case new_vbid of
          None \<Rightarrow> Some d1
        | Some i \<Rightarrow> Some (d1\<lparr>witnesses := tbl_modify wit_id (\<lambda>w. w\<lparr>pay_vb := Some i\<rparr>) (witnesses d1)\<rparr>)
      })"

section \<open>The ledger of the balance operations\<close>

text \<open>No balance is negative, in any account.\<close>

definition balances_nonneg :: "database \<Rightarrow> bool" where
  "balances_nonneg d \<longleftrightarrow> (\<forall>i b. tbl_get i (account_balances d) = Some b \<longrightarrow> 0 \<le> abo_balance b)"

lemma find_balance_Some:
  "db_wf d \<Longrightarrow> find_balance d o' a = Some (i, b) \<Longrightarrow>
     tbl_get i (account_balances d) = Some b \<and> abo_owner b = o' \<and> abo_asset_type b = a"
  using tbl_find_SomeD [of "account_balances d" _ i b] by (auto simp: find_balance_def db_wf_tables)

lemma adjust_balance_frame: "adjust_balance L acc x d = Some d' \<Longrightarrow> d' = d\<lparr>account_balances := account_balances d'\<rparr>"
  by (auto simp: adjust_balance_def opt_bind split: if_splits option.splits)

context fc_safe
begin

lemma adjust_balance_effect:
  assumes wf: "db_wf d" and run: "adjust_balance L acc x d = Some d'"
  shows "db_wf d'" and "gap a d' = gap a d + of_asset a x"
    and "balances_nonneg d \<Longrightarrow> balances_nonneg d'"
proof -
  have "db_wf d' \<and> gap a d' = gap a d + of_asset a x \<and> (balances_nonneg d \<longrightarrow> balances_nonneg d')"
  proof (cases "amount x = 0")
    case True
    with run wf show ?thesis by (auto simp: adjust_balance_def of_asset_def)
  next
    case nz: False
    show ?thesis
    proof (cases "find_balance d acc (asset_id x)")
      case None
      define b where "b = \<lparr>abo_owner = acc, abo_asset_type = asset_id x, abo_balance = amount x, maintenance_flag = (asset_id x = 0)\<rparr>"
      have d': "d' = d\<lparr>account_balances := snd (tbl_create b (account_balances d))\<rparr>" and pos: "amount x > 0"
        using run nz None by (auto simp: adjust_balance_def b_def split: if_splits)
      show ?thesis
        using wf pos by (auto simp: d' gap_upd bal_of_def of_asset_def b_def db_wf_upd db_wf_tables tbl_wf_ops
            balances_nonneg_def tbl.get_create)
    next
      case (Some ib)
      obtain i b where ib: "ib = (i, b)" by (cases ib)
      have b: "tbl_get i (account_balances d) = Some b" "abo_asset_type b = asset_id x"
        using find_balance_Some [OF wf Some [unfolded ib]] by auto
      obtain b' where d': "d' = d\<lparr>account_balances := tbl_modify i (\<lambda>_. b') (account_balances d)\<rparr>"
        and b': "abo_balance b' = abo_balance b + amount x" "abo_asset_type b' = abo_asset_type b"
        and suff: "amount x < 0 \<Longrightarrow> 0 \<le> abo_balance b'"
        using run nz Some ib by (auto simp: adjust_balance_def abo_adjust_balance_def opt_bind safe_Some asset_neg_def
            asset_ge_def asset_lt_def split: if_splits)
      have "gap a d' = gap a d + of_asset a x"
        using wf b b' by (simp add: d' gap_upd tbl_sum_modify db_wf_tables bal_of_def of_asset_def)
      moreover have "balances_nonneg d \<longrightarrow> balances_nonneg d'"
        using b b' suff unfolding balances_nonneg_def
        by (cases "amount x < 0") (fastforce simp: d' tbl.get_modify split: if_splits)+
      ultimately show ?thesis using wf by (simp add: d' db_wf_upd db_wf_tables tbl_wf_ops)
    qed
  qed
  then show "db_wf d'" "gap a d' = gap a d + of_asset a x" "balances_nonneg d \<Longrightarrow> balances_nonneg d'" by auto
qed

lemma vbo_deposit_balance:
  "vbo_deposit L v now x = Some v' \<Longrightarrow> of_asset a (vbo_balance v') = of_asset a (vbo_balance v) + of_asset a x"
  "vbo_deposit_vested L v now x = Some v' \<Longrightarrow> of_asset a (vbo_balance v') = of_asset a (vbo_balance v) + of_asset a x"
  by (auto simp: vbo_deposit_def vbo_deposit_vested_def asset_add_def opt_bind safe_Some of_asset_def)

lemma deposit_market_fee_effect:
  assumes wf: "db_wf d" and run: "deposit_market_fee_vesting_balance L acc x d = Some d'"
  shows "db_wf d'" "gap a d' = gap a d + of_asset a x" "d' = d\<lparr>vesting_balances := vesting_balances d'\<rparr>"
proof -
  have "db_wf d' \<and> gap a d' = gap a d + of_asset a x \<and> d' = d\<lparr>vesting_balances := vesting_balances d'\<rparr>"
  proof (cases "amount x = 0")
    case True
    with run wf show ?thesis by (auto simp: deposit_market_fee_vesting_balance_def of_asset_def)
  next
    case nz: False
    show ?thesis
    proof (cases "tbl_find (vbo_mfs_key acc (asset_id x)) (vesting_balances d)")
      case None
      with run nz wf show ?thesis
        by (auto simp: deposit_market_fee_vesting_balance_def gap_upd db_wf_upd db_wf_tables tbl_wf_ops split: if_splits)
    next
      case (Some iv)
      obtain i v where iv: "iv = (i, v)" by (cases iv)
      obtain v' where v': "vbo_deposit_vested L v (head_block_time d) x = Some v'"
        and d': "d' = d\<lparr>vesting_balances := tbl_modify i (\<lambda>_. v') (vesting_balances d)\<rparr>"
        using run nz Some iv by (auto simp: deposit_market_fee_vesting_balance_def opt_bind split: if_splits)
      show ?thesis
        using wf tbl_find_SomeD(1) [OF db_wf_tables(9) [OF wf] Some [unfolded iv]] vbo_deposit_balance(2) [OF v', of a]
        by (simp add: d' gap_upd tbl_sum_modify db_wf_upd db_wf_tables tbl_wf_ops)
    qed
  qed
  then show "db_wf d'" "gap a d' = gap a d + of_asset a x" "d' = d\<lparr>vesting_balances := vesting_balances d'\<rparr>" by auto
qed

lemma deposit_lazy_vesting_effect:
  assumes wf: "db_wf d" and run: "deposit_lazy_vesting L ov amt secs ty own rv d = Some (r, d')"
  shows "db_wf d'" "gap a d' = gap a d + (if a = 0 then amt else 0)" "d' = d\<lparr>vesting_balances := vesting_balances d'\<rparr>"
proof -
  have "db_wf d' \<and> gap a d' = gap a d + (if a = 0 then amt else 0) \<and> d' = d\<lparr>vesting_balances := vesting_balances d'\<rparr>"
  proof (cases "\<exists>i v. ov = Some i \<and> tbl_get i (vesting_balances d) = Some v \<and> lazy_vesting_fits v secs own \<and> amt \<noteq> 0")
    case True
    then obtain i v v' where v: "tbl_get i (vesting_balances d) = Some v"
      and v': "(if rv then vbo_deposit L v (head_block_time d) (mk_asset amt 0)
                else vbo_deposit_vested L v (head_block_time d) (mk_asset amt 0)) = Some v'"
      and d': "d' = d\<lparr>vesting_balances := tbl_modify i (\<lambda>_. v') (vesting_balances d)\<rparr>"
      using run by (auto simp: deposit_lazy_vesting_def opt_bind Let_def)
    have "of_asset a (vbo_balance v') = of_asset a (vbo_balance v) + (if a = 0 then amt else 0)"
      using v' vbo_deposit_balance(1) [of v "head_block_time d" "mk_asset amt 0" v' a]
        vbo_deposit_balance(2) [of v "head_block_time d" "mk_asset amt 0" v' a] by (auto split: if_splits)
    then show ?thesis
      using wf v by (simp add: d' gap_upd tbl_sum_modify db_wf_upd db_wf_tables tbl_wf_ops)
  next
    case False
    then show ?thesis
      using run wf by (auto simp: deposit_lazy_vesting_def opt_bind gap_upd db_wf_upd db_wf_tables tbl_wf_ops Let_def
          case_prod_unfold split: if_splits option.splits)
  qed
  then show "db_wf d'" "gap a d' = gap a d + (if a = 0 then amt else 0)" "d' = d\<lparr>vesting_balances := vesting_balances d'\<rparr>" by auto
qed

end

context fc_safe
begin

lemma deposit_cashback_effect:
  assumes wf: "db_wf d" and run: "deposit_cashback L acct_id amt rv d = Some d'"
  shows "db_wf d'" and "gap a d' = gap a d + (if a = 0 then amt else 0)"
proof -
  have "db_wf d' \<and> gap a d' = gap a d + (if a = 0 then amt else 0)"
  proof (cases "amt = 0 \<or> is_chain_account acct_id")
    case True
    then show ?thesis
    proof (cases "amt = 0")
      case False
      with True run obtain i dd where dd: "get_dynamic_data d 0 = Some (i, dd)"
        and d': "d' = d\<lparr>asset_dynamic_data := tbl_modify i (\<lambda>x. x\<lparr>current_supply := current_supply dd - amt\<rparr>) (asset_dynamic_data d)\<rparr>"
        by (auto simp: deposit_cashback_def opt_bind safe_Some)
      show ?thesis unfolding d'
        using dynamic_data_update(1,2) [OF wf dd, where f = "\<lambda>x. x\<lparr>current_supply := current_supply dd - amt\<rparr>"] by simp
    qed (use run wf in \<open>simp add: deposit_cashback_def\<close>)
  next
    case False
    with run obtain acct r d1 where d1: "tbl_get acct_id (accounts d) = Some acct"
      "deposit_lazy_vesting L (cashback_vb acct) amt (cashback_vesting_period_seconds d) VB_cashback acct_id rv d = Some (r, d1)"
      by (auto simp: deposit_cashback_def opt_bind)
    note e = deposit_lazy_vesting_effect [OF wf d1(2)]
    show ?thesis
    proof (cases r)
      case None
      with run False d1 e show ?thesis by (simp add: deposit_cashback_def)
    next
      case (Some i)
      then obtain st where st: "tbl_get (statistics acct) (account_statistics d1) = Some st"
        and d': "d' = d1\<lparr>accounts := tbl_modify acct_id (\<lambda>a. a\<lparr>cashback_vb := Some i\<rparr>) (accounts d1),
            account_statistics := tbl_modify (statistics acct) (\<lambda>s. s\<lparr>has_cashback_vb := True\<rparr>) (account_statistics d1)\<rparr>"
        using run False d1 by (auto simp: deposit_cashback_def opt_bind Let_def)
      let ?d2 = "d1\<lparr>accounts := tbl_modify acct_id (\<lambda>a. a\<lparr>cashback_vb := Some i\<rparr>) (accounts d1)\<rparr>"
      have wf2: "db_wf ?d2" using e(1) by (simp add: db_wf_upd db_wf_tables tbl_wf_ops)
      have "gap a d' = gap a ?d2"
        using st db_wf_tables(2) [OF e(1)] unfolding d'
        by (subst gap_upd) (simp add: tbl_sum_modify pending_of_def)
      moreover have "db_wf d'" unfolding d' using wf2 e(1) by (intro db_wf_upd) (simp_all add: db_wf_tables tbl_wf_ops)
      ultimately show ?thesis using e(2) by (simp add: gap_upd)
    qed
  qed
  then show "db_wf d'" "gap a d' = gap a d + (if a = 0 then amt else 0)" by auto
qed

lemma deposit_witness_pay_effect:
  assumes wf: "db_wf d" and run: "deposit_witness_pay L w amt d = Some d'"
  shows "db_wf d'" and "gap a d' = gap a d + (if a = 0 then amt else 0)"
proof -
  have "db_wf d' \<and> gap a d' = gap a d + (if a = 0 then amt else 0)"
  proof (cases "amt = 0")
    case False
    with run obtain wit r d1 where d1: "tbl_get w (witnesses d) = Some wit"
      "deposit_lazy_vesting L (pay_vb wit) amt (witness_pay_vesting_seconds d) VB_witness (witness_account wit) True d = Some (r, d1)"
      and d': "d' = (case r of None \<Rightarrow> d1 | Some i \<Rightarrow> d1\<lparr>witnesses := tbl_modify w (\<lambda>w. w\<lparr>pay_vb := Some i\<rparr>) (witnesses d1)\<rparr>)"
      by (auto simp: deposit_witness_pay_def opt_bind split: option.splits)
    note e = deposit_lazy_vesting_effect [OF wf d1(2)]
    show ?thesis
      using e(1,2) by (cases r) (simp_all add: d' gap_upd db_wf_upd db_wf_tables tbl_wf_ops)
  qed (use run wf in \<open>simp add: deposit_witness_pay_def\<close>)
  then show "db_wf d'" "gap a d' = gap a d + (if a = 0 then amt else 0)" by auto
qed

end

section \<open>Reading a balance\<close>

context fc_safe
begin

lemma adjust_balance_read:
  assumes wf: "db_wf d" and run: "adjust_balance L acc x d = Some d'"
  shows "amount (get_balance d' o' a) = amount (get_balance d o' a) + (if o' = acc then of_asset a x else 0)"
proof (cases "amount x = 0")
  case True
  with run show ?thesis by (auto simp: adjust_balance_def of_asset_def)
next
  case nz: False
  let ?P = "\<lambda>b. abo_owner b = o' \<and> abo_asset_type b = a"
  show ?thesis
  proof (cases "find_balance d acc (asset_id x)")
    case None
    then have "account_balances d' = snd (tbl_create \<lparr>abo_owner = acc, abo_asset_type = asset_id x,
        abo_balance = amount x, maintenance_flag = (asset_id x = 0)\<rparr> (account_balances d))"
      using run nz by (auto simp: adjust_balance_def split: if_splits)
    then have f: "find_balance d' o' a = (case find_balance d o' a of Some r \<Rightarrow> Some r
        | None \<Rightarrow> if acc = o' \<and> asset_id x = a then Some (next_instance (account_balances d), \<lparr>abo_owner = acc,
            abo_asset_type = asset_id x, abo_balance = amount x, maintenance_flag = (asset_id x = 0)\<rparr>) else None)"
      by (auto simp: find_balance_def tbl_find_create split: option.splits)
    show ?thesis
    proof (cases "o' = acc \<and> asset_id x = a")
      case True
      then show ?thesis using f None by (simp add: get_balance_def of_asset_def)
    next
      case False
      then show ?thesis using f by (auto simp: get_balance_def of_asset_def split: option.splits)
    qed
  next
    case (Some ib)
    obtain i b where ib: "ib = (i, b)" by (cases ib)
    note b = find_balance_Some [OF wf Some [unfolded ib]]
    obtain b' where d': "account_balances d' = tbl_modify i (\<lambda>_. b') (account_balances d)"
      and b': "abo_balance b' = abo_balance b + amount x" "abo_asset_type b' = abo_asset_type b" "abo_owner b' = abo_owner b"
      using run nz Some ib by (auto simp: adjust_balance_def abo_adjust_balance_def opt_bind safe_Some split: if_splits)
    have f: "find_balance d' o' a = map_option (\<lambda>(j, w). (j, if j = i then b' else w)) (find_balance d o' a)"
      unfolding find_balance_def d'
      using b b' by (subst tbl_find_modify [OF db_wf_tables(3) [OF wf], of i b]) auto
    show ?thesis
    proof (cases "find_balance d o' a")
      case None
      then show ?thesis using f Some b by (auto simp: get_balance_def of_asset_def)
    next
      case (Some jw)
      obtain j w where jw: "jw = (j, w)" by (cases jw)
      note w = find_balance_Some [OF wf Some [unfolded jw]]
      show ?thesis
        using f Some jw b w b' \<open>find_balance d acc (asset_id x) = Some ib\<close> ib
        by (cases "j = i") (auto simp: get_balance_def of_asset_def)
    qed
  qed
qed

lemma adjust_balance_total:
  assumes wf: "db_wf d" and nn: "balances_nonneg d" and rng: "- (2 ^ 63) < amount x" "amount x < 2 ^ 63"
    and bal: "amount (get_balance d acc (asset_id x)) < 2 ^ 63"
  shows "adjust_balance L acc x d \<noteq> None \<longleftrightarrow>
    0 \<le> amount (get_balance d acc (asset_id x)) + amount x \<and> amount (get_balance d acc (asset_id x)) + amount x < 2 ^ 63"
proof (cases "find_balance d acc (asset_id x)")
  case None
  then show ?thesis using rng by (auto simp: adjust_balance_def get_balance_def)
next
  case (Some ib)
  obtain i b where ib: "ib = (i, b)" by (cases ib)
  note b = find_balance_Some [OF wf Some [unfolded ib]]
  have "0 \<le> abo_balance b" using nn b by (auto simp: balances_nonneg_def)
  then show ?thesis
    using Some ib rng bal b
    by (auto simp: adjust_balance_def get_balance_def abo_adjust_balance_def safe_add safe_neg asset_neg_def asset_ge_def
        asset_lt_def in_s64_def opt_bind split: if_splits)
qed

end

lemma adjust_balance_keeps:
  assumes "adjust_balance L acc x d = Some d'"
  shows "assets d' = assets d" "asset_dynamic_data d' = asset_dynamic_data d" "liquidity_pools d' = liquidity_pools d"
    "accounts d' = accounts d" "get_dynamic_data d' b = get_dynamic_data d b" "supply_of b d' = supply_of b d"
    "limit_orders d' = limit_orders d" "htlcs d' = htlcs d" "account_statistics d' = account_statistics d"
    "vesting_balances d' = vesting_balances d" "head_block_time d' = head_block_time d"
  by (subst adjust_balance_frame [OF assms], simp add: get_dynamic_data_def supply_of_def)+

lemma supply_of_Some: "get_dynamic_data d a = Some (i, dd) \<Longrightarrow> supply_of a d = current_supply dd"
  by (simp add: supply_of_def)

lemma get_balance_cong: "account_balances d' = account_balances d \<Longrightarrow> get_balance d' o' a = get_balance d o' a"
  by (simp add: get_balance_def find_balance_def)

section \<open>Properties\<close>

text \<open>
  \<^verbatim>\<open>adjust_balance\<close> is exact: it changes the balance of one account in one asset by the given amount
  and no other balance, changes what the chain holds by that amount, and keeps every balance
  non-negative; and it succeeds exactly when the account can afford it and the result is
  within 64 bits.
\<close>

theorem adjust_balance_exact:
  assumes "fc_safe L" "db_wf d" "balances_nonneg d" "- (2 ^ 63) < amount x" "amount x < 2 ^ 63"
    and "amount (get_balance d acc (asset_id x)) < 2 ^ 63"
  shows "(adjust_balance L acc x d \<noteq> None \<longleftrightarrow>
      0 \<le> amount (get_balance d acc (asset_id x)) + amount x \<and>
      amount (get_balance d acc (asset_id x)) + amount x < 2 ^ 63) \<and>
    (\<forall>d'. adjust_balance L acc x d = Some d' \<longrightarrow>
      db_wf d' \<and> balances_nonneg d' \<and>
      (\<forall>o' a. amount (get_balance d' o' a) =
         amount (get_balance d o' a) + (if o' = acc then of_asset a x else 0)) \<and>
      (\<forall>a. gap a d' = gap a d + of_asset a x))"
  using fc_safe.adjust_balance_total [OF assms] fc_safe.adjust_balance_read [OF assms(1,2)]
    fc_safe.adjust_balance_effect [OF assms(1,2)] assms(3)
  by blast

definition demo_balances :: database where
  "demo_balances = empty_database\<lparr>account_balances :=
     \<lparr>rows = [(0, \<lparr>abo_owner = 7, abo_asset_type = 1, abo_balance = 100, maintenance_flag = False\<rparr>)], next_instance = 1\<rparr>\<rparr>"

lemma demo_balances_wf: "db_wf demo_balances" "balances_nonneg demo_balances"
  by (simp_all add: demo_balances_def empty_database_def db_wf_def tbl_wf_def tbl_empty_def assets_linked_def tbl_get_def
      balances_nonneg_def)

theorem adjust_balance_exact_witness:
  "\<exists>d'. adjust_balance checked_lib 7 (mk_asset (- 40) 1) demo_balances = Some d' \<and> amount (get_balance d' 7 1) = 60"
proof -
  have b: "amount (get_balance demo_balances 7 1) = 100"
    by (simp add: get_balance_def find_balance_def tbl_find_def demo_balances_def)
  then show ?thesis
    using adjust_balance_exact [OF checked_lib_safe demo_balances_wf, of "mk_asset (- 40) 1" 7] by auto
qed

text \<open>
  Cashback loses nothing: \<^verbatim>\<open>deposit_cashback\<close> and \<^verbatim>\<open>deposit_witness_pay\<close> put the whole amount into a
  vesting balance of the receiver, or, for the accounts of the blockchain itself, take it off
  the core asset's supply; what is held beyond the supply grows by exactly the amount, and
  no other asset is touched.
\<close>

theorem cashback_conserves:
  assumes "fc_safe L" "db_wf d" "deposit_cashback L acct amt rv d = Some d' \<or> deposit_witness_pay L wit amt d = Some d'"
  shows "db_wf d' \<and> (\<forall>a. gap a d' = gap a d + (if a = 0 then amt else 0))"
  using assms fc_safe.deposit_cashback_effect [OF assms(1,2)] fc_safe.deposit_witness_pay_effect [OF assms(1,2)] by blast

definition demo_account :: account_object where
  "demo_account = \<lparr>acct_name = ''meta1'', membership_expiration_date = 0, registrar = 7, referrer = 7, lifetime_referrer = 7,
     network_fee_percentage = 2000, lifetime_referrer_fee_percentage = 3000, referrer_rewards_percentage = 5000,
     whitelisting_accounts = [], blacklisting_accounts = [], allowed_assets = None, cashback_vb = None, statistics = 0\<rparr>"

definition demo_stat :: account_statistics_object where
  "demo_stat = \<lparr>stat_owner = 7, total_core_in_orders = 0, has_cashback_vb = False, lifetime_fees_paid = 0,
     pending_fees = 0, pending_vested_fees = 0\<rparr>"

definition demo_accounts :: database where
  "demo_accounts = demo_balances\<lparr>accounts := \<lparr>rows = [(7, demo_account)], next_instance = 8\<rparr>,
     account_statistics := \<lparr>rows = [(0, demo_stat)], next_instance = 1\<rparr>, cashback_vesting_period_seconds := 100\<rparr>"

theorem cashback_conserves_witness:
  "\<exists>d'. deposit_cashback checked_lib 7 500 True demo_accounts = Some d' \<and> gap 0 d' = gap 0 demo_accounts + 500 \<and>
    vesting_balances d' \<noteq> tbl_empty"
proof -
  have wf: "db_wf demo_accounts"
    by (simp add: demo_accounts_def demo_balances_def empty_database_def db_wf_def tbl_wf_def tbl_empty_def assets_linked_def
        tbl_get_def)
  have "\<exists>d'. deposit_cashback checked_lib 7 500 True demo_accounts = Some d' \<and> vesting_balances d' \<noteq> tbl_empty"
    by (simp add: deposit_cashback_def deposit_lazy_vesting_def is_chain_account_def demo_accounts_def demo_balances_def
        empty_database_def tbl_empty_def tbl_get_def demo_account_def tbl_create_def chain_consts)
  then show ?thesis using cashback_conserves [OF checked_lib_safe wf] by fastforce
qed

end
