(* ===== verification/Property_Ops.thy ===== *)
theory Property_Ops
  imports Chain_State "HOL-Library.AList" "HOL-Library.List_Lexorder" "HOL-Library.Char_ord"
begin

text \<open>
  The META1 backing properties on the chain: the operations of \<^verbatim>\<open>libraries/protocol/property_ops.cpp\<close> and
  \<^verbatim>\<open>asset_limitation_ops.cpp\<close>, their evaluators (\<^verbatim>\<open>property_evaluator.cpp\<close>,
  \<^verbatim>\<open>asset_limitation_evaluator.cpp\<close>) and the allocation of every block
  (\<^verbatim>\<open>db_smooth_allocation.cpp\<close>).

  An evaluator is two functions, for \<^verbatim>\<open>do_evaluate\<close> and \<^verbatim>\<open>do_apply\<close>. Where the source dereferences an
  iterator that may be the end of an index, which is undefined, the model throws.

  \<^verbatim>\<open>update_smooth_allocation\<close> catches \<^verbatim>\<open>fc::exception\<close> and keeps the changes made before it; its result
  here is \<open>None\<close> when it does not return: its loop does not end, or \<^verbatim>\<open>boost::bad_rational\<close>, which
  is not caught, leaves it.
\<close>

section \<open>Validation\<close>

definition word_char :: "char \<Rightarrow> bool" where
  "word_char c \<longleftrightarrow>
     (let n = (of_char c :: nat) in 48 \<le> n \<and> n \<le> 57 \<or> 65 \<le> n \<and> n \<le> 90 \<or> 97 \<le> n \<and> n \<le> 122 \<or> n = 95)"

fun split_dots :: "string \<Rightarrow> string list" where
  "split_dots [] = [[]]"
| "split_dots (c # s) =
     (if c = CHR ''.'' then [] # split_dots s
      else case split_dots s of [] \<Rightarrow> [[c]] | w # ws \<Rightarrow> (c # w) # ws)"

text \<open>The parts before and after the at sign of \<^verbatim>\<open>(\w+)(\.|_)?(\w*)@(\w+)(\.(\w+))+\<close>; the character class
  \<^verbatim>\<open>\w\<close> contains the underscore and not the dot.\<close>

definition email_local :: "string \<Rightarrow> bool" where
  "email_local s \<longleftrightarrow>
     takeWhile word_char s \<noteq> [] \<and>
     (case dropWhile word_char s of [] \<Rightarrow> True | c # r \<Rightarrow> c = CHR ''.'' \<and> list_all word_char r)"

definition email_domain :: "string \<Rightarrow> bool" where
  "email_domain s \<longleftrightarrow>
     (let ws = split_dots s in 2 \<le> length ws \<and> list_all (\<lambda>w. w \<noteq> [] \<and> list_all word_char w) ws)"

definition is_email_valid :: "string \<Rightarrow> bool" where
  "is_email_valid s \<longleftrightarrow>
     (case dropWhile (\<lambda>c. c \<noteq> CHR ''@'') s of
        [] \<Rightarrow> False
      | c # r \<Rightarrow> email_local (takeWhile (\<lambda>c. c \<noteq> CHR ''@'') s) \<and> email_domain r)"

definition property_options_validate :: "property_options \<Rightarrow> unit option" where
  "property_options_validate p = do {
     fc_assert (owner_contact_email p \<noteq> []);
     fc_assert (is_email_valid (owner_contact_email p));
     fc_assert (description p \<noteq> []);
     fc_assert (custodian p \<noteq> []);
     fc_assert (title p \<noteq> []);
     fc_assert (detailed_document_link p \<noteq> []);
     fc_assert (property_assignee p \<noteq> []);
     fc_assert (property_surety_bond_value p \<ge> 0);
     fc_assert (property_surety_bond_number p \<ge> 0)
   }"

record property_create_operation =
  pco_fee :: asset
  pco_property_id :: uint32
  pco_issuer :: account_id_type
  pco_appraised_property_value :: uint64
  pco_allocation_duration_minutes :: uint32
  pco_backed_by_asset_symbol :: string
  pco_common_options :: property_options

record property_update_operation =
  puo_fee :: asset
  puo_issuer :: account_id_type
  property_to_update :: nat
  puo_new_options :: property_options

record property_approve_operation =
  pao_fee :: asset
  pao_issuer :: account_id_type
  property_to_approve :: nat

record property_delete_operation =
  pdo_fee :: asset
  pdo_property :: nat
  pdo_fee_paying_account :: account_id_type

record asset_limitation_object_create_operation =
  alc_fee :: asset
  alc_limit_symbol :: string
  alc_issuer :: account_id_type

record asset_limitation_object_update_operation =
  alu_fee :: asset
  alu_issuer :: account_id_type
  asset_limitation_object_to_update :: nat

record asset_price_publish_operation =
  app_fee :: asset
  app_fee_paying_account :: account_id_type
  app_symbol :: string
  app_usd_price :: price_ratio

definition property_create_validate :: "property_create_operation \<Rightarrow> unit option" where
  "property_create_validate op = do {
     fc_assert (amount (pco_fee op) \<ge> 0);
     fc_assert (pco_appraised_property_value op \<ge> 0);
     fc_assert (pco_allocation_duration_minutes op \<ge> 4);
     fc_assert (pco_allocation_duration_minutes op mod 4 = 0);
     property_options_validate (pco_common_options op)
   }"

definition property_update_validate :: "property_update_operation \<Rightarrow> unit option" where
  "property_update_validate op = do {
     fc_assert (amount (puo_fee op) \<ge> 0);
     property_options_validate (puo_new_options op)
   }"

definition property_approve_validate :: "property_approve_operation \<Rightarrow> unit option" where
  "property_approve_validate op = fc_assert (amount (pao_fee op) \<ge> 0)"

definition property_delete_validate :: "property_delete_operation \<Rightarrow> unit option" where
  "property_delete_validate op = fc_assert (amount (pdo_fee op) \<ge> 0)"

definition asset_limitation_create_validate :: "asset_limitation_object_create_operation \<Rightarrow> unit option" where
  "asset_limitation_create_validate op = fc_assert (amount (alc_fee op) \<ge> 0)"

definition asset_limitation_update_validate :: "asset_limitation_object_update_operation \<Rightarrow> unit option" where
  "asset_limitation_update_validate op = fc_assert (amount (alu_fee op) \<ge> 0)"

definition price_ratio_validate :: "price_ratio \<Rightarrow> unit option" where
  "price_ratio_validate r = do {
     fc_assert (pr_numerator r \<ge> 0);
     fc_assert (pr_denominator r > 0)
   }"

definition asset_price_publish_validate :: "asset_price_publish_operation \<Rightarrow> unit option" where
  "asset_price_publish_validate op = do {
     fc_assert (amount (app_fee op) \<ge> 0);
     fc_assert (app_symbol op \<noteq> []);
     price_ratio_validate (app_usd_price op)
   }"

section \<open>Evaluators of the property operations\<close>

definition find_property :: "database \<Rightarrow> uint32 \<Rightarrow> (nat \<times> property_object) option" where
  "find_property d pid = tbl_find (\<lambda>p. property_id p = pid) (properties d)"

definition is_meta1_account :: "database \<Rightarrow> account_id_type \<Rightarrow> bool option" where
  "is_meta1_account d i = do {
     (j, a) \<leftarrow> find_account_by_name d ''meta1'';
     Some (j = i)
   }"

definition property_create_evaluate :: "property_create_operation \<Rightarrow> database \<Rightarrow> unit option" where
  "property_create_evaluate op d = do {
     fc_assert (find_property d (pco_property_id op) = None);
     property_create_validate op;
     fc_assert (find_limitation_by_symbol d (pco_backed_by_asset_symbol op) \<noteq> None);
     m \<leftarrow> is_meta1_account d (pco_issuer op);
     fc_assert m;
     fc_assert (pco_allocation_duration_minutes op \<ge> 4)
   }"

definition new_property :: "fc_lib \<Rightarrow> property_create_operation \<Rightarrow> time_point_sec \<Rightarrow> property_object option" where
  "new_property L op now = do {
     full_duration_seconds \<leftarrow> safe_u32_mul L (pco_allocation_duration_minutes op) 60;
     let start_time = calc_meta1_next_start_time L now;
     period \<leftarrow> calc_meta1_allocation_initial_parameters L start_time full_duration_seconds;
     Some \<lparr>property_id = pco_property_id op, prop_issuer = pco_issuer op,
       appraised_property_value = pco_appraised_property_value op,
       allocation_duration_minutes = pco_allocation_duration_minutes op,
       backed_by_asset_symbol = pco_backed_by_asset_symbol op, options = pco_common_options op,
       creation_date = start_time, approval_date = None, expired = False,
       initial_end_date = time_to_25_percent period, initial_counter = 0,
       initial_counter_max = time_to_25_percent_intervals period,
       approval_end_date = time_to_100_percent period, approval_counter = 0,
       approval_counter_max = u32 (time_to_100_percent_intervals period - time_to_25_percent_intervals period),
       next_allocation_date = tps_add L start_time META1_INTERVAL_BETWEEN_ALLOCATION_SECONDS\<rparr>
   }"

definition property_create_apply :: "fc_lib \<Rightarrow> property_create_operation \<Rightarrow> database \<Rightarrow> (nat \<times> database) option" where
  "property_create_apply L op d = do {
     p \<leftarrow> new_property L op (head_block_time d);
     let (i, t) = tbl_create p (properties d);
     Some (i, d\<lparr>properties := t\<rparr>)
   }"

definition property_update_evaluate :: "property_update_operation \<Rightarrow> database \<Rightarrow> unit option" where
  "property_update_evaluate op d = do {
     p \<leftarrow> tbl_get (property_to_update op) (properties d);
     fc_assert (puo_issuer op = prop_issuer p);
     property_update_validate op;
     fc_assert (find_limitation_by_symbol d (backed_by_asset_symbol p) \<noteq> None);
     m \<leftarrow> is_meta1_account d (puo_issuer op);
     fc_assert m
   }"

definition property_update_apply :: "property_update_operation \<Rightarrow> database \<Rightarrow> database option" where
  "property_update_apply op d =
     Some (d\<lparr>properties := tbl_modify (property_to_update op) (\<lambda>p. p\<lparr>options := puo_new_options op\<rparr>) (properties d)\<rparr>)"

definition property_approve_evaluate :: "property_approve_operation \<Rightarrow> database \<Rightarrow> unit option" where
  "property_approve_evaluate op d = do {
     p \<leftarrow> tbl_get (property_to_approve op) (properties d);
     fc_assert (pao_issuer op = prop_issuer p);
     property_approve_validate op;
     fc_assert (head_block_time d < approval_end_date p);
     fc_assert (approval_date p = None)
   }"

definition approve_property :: "fc_lib \<Rightarrow> time_point_sec \<Rightarrow> property_object \<Rightarrow> property_object option" where
  "approve_property L now p =
     (if now < initial_end_date p then Some (p\<lparr>approval_date := Some now\<rparr>)
      else do {
        restart \<leftarrow> calc_meta1_allocation_restart_parameters L now (approval_end_date p);
        fc_assert (approval_counter p = 0);
        Some (p\<lparr>approval_date := Some (restart_time restart),
                approval_counter_max := intervals_to_end restart,
                next_allocation_date := tps_add L (restart_time restart) META1_INTERVAL_BETWEEN_ALLOCATION_SECONDS\<rparr>)
      })"

definition property_approve_apply :: "fc_lib \<Rightarrow> property_approve_operation \<Rightarrow> database \<Rightarrow> database option" where
  "property_approve_apply L op d = do {
     p \<leftarrow> tbl_get (property_to_approve op) (properties d);
     p' \<leftarrow> approve_property L (head_block_time d) p;
     Some (d\<lparr>properties := tbl_modify (property_to_approve op) (\<lambda>_. p') (properties d)\<rparr>)
   }"

definition property_delete_evaluate :: "property_delete_operation \<Rightarrow> database \<Rightarrow> unit option" where
  "property_delete_evaluate op d = do {
     p \<leftarrow> tbl_get (pdo_property op) (properties d);
     fc_assert (prop_issuer p = pdo_fee_paying_account op)
   }"

definition property_delete_apply :: "fc_lib \<Rightarrow> property_delete_operation \<Rightarrow> database \<Rightarrow> database option" where
  "property_delete_apply L op d = do {
     p \<leftarrow> tbl_get (pdo_property op) (properties d);
     d1 \<leftarrow> (case find_limitation_by_symbol d (backed_by_asset_symbol p) of
         None \<Rightarrow> Some d
       | Some (i, alo) \<Rightarrow>
           (case calc_meta1_contribution L p of
              Inl e \<Rightarrow> None
            | Inr c \<Rightarrow> Some (d\<lparr>asset_limitations :=
                tbl_modify i (\<lambda>x. x\<lparr>cumulative_sell_limit := u64 (cumulative_sell_limit alo - c)\<rparr>) (asset_limitations d)\<rparr>)));
     Some (d1\<lparr>properties := tbl_remove (pdo_property op) (properties d1)\<rparr>)
   }"

section \<open>Evaluators of the limitations and prices\<close>

definition asset_limitation_create_evaluate :: "asset_limitation_object_create_operation \<Rightarrow> database \<Rightarrow> unit option" where
  "asset_limitation_create_evaluate op d = do {
     fc_assert (find_limitation_by_symbol d (alc_limit_symbol op) = None);
     m \<leftarrow> is_meta1_account d (alc_issuer op);
     fc_assert m
   }"

definition asset_limitation_create_apply :: "asset_limitation_object_create_operation \<Rightarrow> database \<Rightarrow> (nat \<times> database) option" where
  "asset_limitation_create_apply op d =
     (let (i, t) = tbl_create \<lparr>limit_symbol = alc_limit_symbol op, alo_issuer = alc_issuer op, cumulative_sell_limit = 0\<rparr>
                     (asset_limitations d)
      in Some (i, d\<lparr>asset_limitations := t\<rparr>))"

definition asset_limitation_update_evaluate :: "asset_limitation_object_update_operation \<Rightarrow> database \<Rightarrow> unit option" where
  "asset_limitation_update_evaluate op d = do {
     a \<leftarrow> tbl_get (asset_limitation_object_to_update op) (asset_limitations d);
     fc_assert (alu_issuer op = alo_issuer a);
     m \<leftarrow> is_meta1_account d (alu_issuer op);
     fc_assert m
   }"

definition asset_limitation_update_apply :: "asset_limitation_object_update_operation \<Rightarrow> database \<Rightarrow> database option" where
  "asset_limitation_update_apply op d =
     Some (d\<lparr>asset_limitations := tbl_modify (asset_limitation_object_to_update op) (\<lambda>a. a) (asset_limitations d)\<rparr>)"

definition HF_ASSET_PRICE_PUBLISHERS_TIME :: time_point_sec where
  [chain_consts]: "HF_ASSET_PRICE_PUBLISHERS_TIME = 1601557200"

definition publisher_is :: "database \<Rightarrow> account_id_type \<Rightarrow> string \<Rightarrow> bool" where
  "publisher_is d fee_payer n = (case find_account_by_name d n of None \<Rightarrow> False | Some (i, a) \<Rightarrow> i = fee_payer)"

definition asset_price_publish_evaluate :: "asset_price_publish_operation \<Rightarrow> database \<Rightarrow> unit option" where
  "asset_price_publish_evaluate op d = do {
     (if head_block_time d < HF_ASSET_PRICE_PUBLISHERS_TIME
      then fc_assert (publisher_is d (app_fee_paying_account op) ''meta1'')
      else fc_assert (list_ex (publisher_is d (app_fee_paying_account op))
        [''meta1'', ''freedom'', ''peace'', ''love'', ''unity'', ''abundance'', ''victory'', ''awareness'',
         ''destiny'', ''strength'', ''clarity'', ''truth'']));
     (i, a) \<leftarrow> find_asset_by_symbol d (app_symbol op);
     fc_assert (\<not> is_market_issued a);
     fc_assert (i \<noteq> 0)
   }"

definition asset_price_publish_apply :: "asset_price_publish_operation \<Rightarrow> database \<Rightarrow> database option" where
  "asset_price_publish_apply op d =
     (case tbl_find (\<lambda>p. ap_symbol p = app_symbol op) (asset_prices d) of
        None \<Rightarrow> Some (d\<lparr>asset_prices := snd (tbl_create
            \<lparr>ap_symbol = app_symbol op, usd_price = app_usd_price op, publication_time = head_block_time d\<rparr> (asset_prices d))\<rparr>)
      | Some (i, p) \<Rightarrow> Some (d\<lparr>asset_prices := tbl_modify i
            (\<lambda>p. p\<lparr>usd_price := app_usd_price op, publication_time := head_block_time d\<rparr>) (asset_prices d)\<rparr>))"

section \<open>The allocation of every block\<close>

text \<open>One round of the \<^verbatim>\<open>while\<close> loop, and the loop; \<open>None\<close> is a loop that does not end.\<close>

definition allocate_step :: "fc_lib \<Rightarrow> property_object \<Rightarrow> property_object" where
  "allocate_step L p =
     (let q = p\<lparr>next_allocation_date := tps_add L (next_allocation_date p) META1_INTERVAL_BETWEEN_ALLOCATION_SECONDS\<rparr>
      in if initial_counter q < initial_counter_max q then q\<lparr>initial_counter := u32 (initial_counter q + 1)\<rparr>
         else if approval_date q \<noteq> None \<and> approval_counter q < approval_counter_max q
         then q\<lparr>approval_counter := u32 (approval_counter q + 1)\<rparr>
         else q)"

partial_function (option) allocate_loop :: "fc_lib \<Rightarrow> time_point_sec \<Rightarrow> property_object \<Rightarrow> property_object option" where
  "allocate_loop L hbt p =
     (if hbt \<ge> next_allocation_date p then allocate_loop L hbt (allocate_step L p) else Some p)"

definition allocate_property :: "fc_lib \<Rightarrow> time_point_sec \<Rightarrow> property_object \<Rightarrow> property_object option" where
  "allocate_property L hbt p =
     (if expired p then Some p
      else if hbt \<ge> approval_end_date p then
        (if approval_date p = None then Some (p\<lparr>expired := True, initial_counter := 0, approval_counter := 0\<rparr>)
         else Some (p\<lparr>expired := True, initial_counter := initial_counter_max p, approval_counter := approval_counter_max p\<rparr>))
      else if hbt > initial_end_date p \<and> approval_date p = None then Some p
      else allocate_loop L hbt p)"

fun allocate_rows :: "fc_lib \<Rightarrow> time_point_sec \<Rightarrow> (nat \<times> property_object) list \<Rightarrow> (nat \<times> property_object) list option" where
  "allocate_rows L hbt [] = Some []"
| "allocate_rows L hbt ((i, p) # ps) = do {
     p' \<leftarrow> allocate_property L hbt p;
     ps' \<leftarrow> allocate_rows L hbt ps;
     Some ((i, p') # ps')
   }"

text \<open>\<^verbatim>\<open>mapSymbolToContribution\<close>: the sums are 128 bits wide and no number of properties overflows them.\<close>

fun add_contributions :: "fc_lib \<Rightarrow> (nat \<times> property_object) list \<Rightarrow> (string \<times> int) list \<Rightarrow> bool + (string \<times> int) list" where
  "add_contributions L [] m = Inr m"
| "add_contributions L ((i, p) # ps) m =
     (case calc_meta1_contribution L p of
        Inl e \<Rightarrow> Inl e
      | Inr c \<Rightarrow> add_contributions L ps
          (AList.update (backed_by_asset_symbol p)
            ((case map_of m (backed_by_asset_symbol p) of None \<Rightarrow> 0 | Some s \<Rightarrow> s) + c) m))"

text \<open>The loop over the map in the order of its keys; it stops at the first failing assertion.\<close>

fun update_limits :: "(string \<times> int) list \<Rightarrow> database \<Rightarrow> database" where
  "update_limits [] d = d"
| "update_limits ((smb, c) # m) d =
     (if c \<le> 2 ^ 64 - 1 then
        (case find_limitation_by_symbol d smb of
           None \<Rightarrow> d
         | Some (i, alo) \<Rightarrow> update_limits m (d\<lparr>asset_limitations :=
             tbl_modify i (\<lambda>a. a\<lparr>cumulative_sell_limit := u64 (s64 c)\<rparr>) (asset_limitations d)\<rparr>))
      else d)"

definition update_smooth_allocation :: "fc_lib \<Rightarrow> database \<Rightarrow> database option" where
  "update_smooth_allocation L d =
     (if list_ex (\<lambda>r. find_asset_by_symbol d (limit_symbol (snd r)) = None) (rows (asset_limitations d)) then Some d
      else do {
        ps \<leftarrow> allocate_rows L (head_block_time d) (rows (properties d));
        let d1 = d\<lparr>properties := (properties d)\<lparr>rows := ps\<rparr>\<rparr>;
        (case add_contributions L ps [] of
           Inl True \<Rightarrow> Some d1
         | Inl False \<Rightarrow> None
         | Inr m \<Rightarrow> Some (update_limits (sort_key fst m) d1))
      })"

section \<open>The loop in closed form\<close>

lemma allocate_step_wf: "property_wf p \<Longrightarrow> property_wf (allocate_step L p)"
  by (auto simp: property_wf_def allocate_step_def Let_def chain_consts)

lemma allocate_step_frame:
  "initial_counter_max (allocate_step L p) = initial_counter_max p"
  "approval_counter_max (allocate_step L p) = approval_counter_max p"
  "approval_date (allocate_step L p) = approval_date p"
  "approval_end_date (allocate_step L p) = approval_end_date p"
  "initial_end_date (allocate_step L p) = initial_end_date p"
  "backed_by_asset_symbol (allocate_step L p) = backed_by_asset_symbol p"
  "appraised_property_value (allocate_step L p) = appraised_property_value p"
  "expired (allocate_step L p) = expired p"
  "next_allocation_date (allocate_step L p) = tps_add L (next_allocation_date p) 60"
  by (simp_all add: allocate_step_def Let_def chain_consts)

lemma allocate_step_counters:
  assumes "property_wf p"
  shows "initial_counter (allocate_step L p) =
      (if initial_counter p < initial_counter_max p then initial_counter p + 1 else initial_counter p)"
    and "approval_counter (allocate_step L p) =
      (if \<not> initial_counter p < initial_counter_max p \<and> approval_date p \<noteq> None \<and> approval_counter p < approval_counter_max p
       then approval_counter p + 1 else approval_counter p)"
  using assms by (auto simp: property_wf_def allocate_step_def Let_def chain_consts)

lemma allocate_steps_wf: "property_wf p \<Longrightarrow> property_wf ((allocate_step L ^^ n) p)"
  by (induction n) (simp_all add: allocate_step_wf)

lemma allocate_steps_frame:
  "initial_counter_max ((allocate_step L ^^ n) p) = initial_counter_max p"
  "approval_counter_max ((allocate_step L ^^ n) p) = approval_counter_max p"
  "approval_date ((allocate_step L ^^ n) p) = approval_date p"
  "backed_by_asset_symbol ((allocate_step L ^^ n) p) = backed_by_asset_symbol p"
  "appraised_property_value ((allocate_step L ^^ n) p) = appraised_property_value p"
  by (induction n) (simp_all add: allocate_step_frame)

lemma allocate_steps_counters:
  "property_wf p \<Longrightarrow>
     initial_counter ((allocate_step L ^^ n) p) = min (initial_counter_max p) (initial_counter p + int n) \<and>
     approval_counter ((allocate_step L ^^ n) p) =
       (if approval_date p = None then approval_counter p
        else min (approval_counter_max p)
          (approval_counter p + max 0 (int n - (initial_counter_max p - initial_counter p))))"
proof (induction n arbitrary: p)
  case 0
  then show ?case by (auto simp: property_wf_def)
next
  case (Suc n)
  have wf: "property_wf (allocate_step L p)" using Suc(2) by (rule allocate_step_wf)
  show ?case
    unfolding funpow_Suc_right comp_def
    using Suc(1) [OF wf] allocate_step_counters [OF Suc(2), of L] Suc(2)
    by (auto simp: allocate_step_frame property_wf_def)
qed

definition elapsed_intervals :: "time_point_sec \<Rightarrow> property_object \<Rightarrow> nat" where
  "elapsed_intervals hbt p = (if next_allocation_date p \<le> hbt then nat ((hbt - next_allocation_date p) div 60 + 1) else 0)"

context fc_time
begin

lemma allocate_loop_steps:
  "0 \<le> next_allocation_date p \<Longrightarrow> hbt + 60 < 2 ^ 32 \<Longrightarrow> hbt < next_allocation_date p + 60 * int n \<Longrightarrow>
   (0 < n \<longrightarrow> next_allocation_date p + 60 * (int n - 1) \<le> hbt) \<Longrightarrow>
   allocate_loop L hbt p = Some ((allocate_step L ^^ n) p)"
proof (induction n arbitrary: p)
  case 0
  then show ?case by (subst allocate_loop.simps) simp
next
  case (Suc n)
  have le: "next_allocation_date p \<le> hbt" using Suc(5) by simp
  have n: "next_allocation_date (allocate_step L p) = next_allocation_date p + 60"
    using le Suc(2,3) by (simp add: allocate_step_frame tps_add)
  have "allocate_loop L hbt (allocate_step L p) = Some ((allocate_step L ^^ n) (allocate_step L p))"
    using Suc(2-5) by (intro Suc(1)) (auto simp: n)
  then show ?case using le by (subst allocate_loop.simps) (simp add: funpow_swap1)
qed

lemma allocate_loop_ends:
  assumes "0 \<le> next_allocation_date p" "hbt + 60 < 2 ^ 32"
  shows "allocate_loop L hbt p = Some ((allocate_step L ^^ elapsed_intervals hbt p) p)"
proof (rule allocate_loop_steps [OF assms])
  let ?m = "hbt - next_allocation_date p"
  have m: "60 * (?m div 60) \<le> ?m" "?m < 60 * (?m div 60) + 60"
    using mult_div_mod_eq [of 60 ?m] pos_mod_bound [of 60 ?m] pos_mod_sign [of 60 ?m] by linarith+
  show "hbt < next_allocation_date p + 60 * int (elapsed_intervals hbt p)"
    using m by (auto simp: elapsed_intervals_def pos_imp_zdiv_nonneg_iff)
  show "0 < elapsed_intervals hbt p \<longrightarrow> next_allocation_date p + 60 * (int (elapsed_intervals hbt p) - 1) \<le> hbt"
    using m by (auto simp: elapsed_intervals_def pos_imp_zdiv_nonneg_iff)
qed

end

section \<open>One block's allocation\<close>

definition property_inv :: "property_object \<Rightarrow> bool" where
  "property_inv p \<longleftrightarrow>
     property_wf p \<and> 0 \<le> next_allocation_date p \<and>
     0 \<le> approval_end_date p \<and> approval_end_date p < 2 ^ 32 \<and> approval_end_date p mod 60 = 0"

definition props_ok :: "database \<Rightarrow> bool" where
  "props_ok d \<longleftrightarrow> (\<forall>r \<in> set (rows (properties d)). property_inv (snd r))"

lemma allocate_steps_next: "fc_time L \<Longrightarrow> 0 \<le> next_allocation_date p \<Longrightarrow> 0 \<le> next_allocation_date ((allocate_step L ^^ n) p)"
  by (induction n) (simp_all add: allocate_step_frame fc_time.tps_add)

lemma allocate_steps_end: "approval_end_date ((allocate_step L ^^ n) p) = approval_end_date p"
  by (induction n) (simp_all add: allocate_step_frame)

lemma property_inv_cong:
  assumes "property_inv p" "property_wf q" "0 \<le> next_allocation_date q" "approval_end_date q = approval_end_date p"
  shows "property_inv q"
  using assms by (simp add: property_inv_def)

lemma property_wf_expired:
  assumes "property_wf p"
  shows "property_wf (p\<lparr>expired := True, initial_counter := 0, approval_counter := 0\<rparr>)"
    and "property_wf (p\<lparr>expired := True, initial_counter := initial_counter_max p, approval_counter := approval_counter_max p\<rparr>)"
  using assms by (simp_all add: property_wf_def)

context fc_time
begin

lemma allocate_property_inv:
  assumes inv: "property_inv p" and t: "hbt + 60 < 2 ^ 32"
  shows "\<exists>p'. allocate_property L hbt p = Some p' \<and> property_inv p' \<and> backed_by_asset_symbol p' = backed_by_asset_symbol p \<and>
    appraised_property_value p' = appraised_property_value p"
proof -
  have wf: "property_wf p" "0 \<le> next_allocation_date p" using inv by (simp_all add: property_inv_def)
  have loop: "property_inv ((allocate_step L ^^ n) p)" for n
    using allocate_steps_wf [OF wf(1)] allocate_steps_next [OF fc_time_axioms wf(2)]
    by (intro property_inv_cong [OF inv]) (simp_all add: allocate_steps_end)
  have "property_inv (p\<lparr>expired := True, initial_counter := 0, approval_counter := 0\<rparr>)"
    "property_inv (p\<lparr>expired := True, initial_counter := initial_counter_max p, approval_counter := approval_counter_max p\<rparr>)"
    using property_wf_expired [OF wf(1)] wf(2) by (auto intro!: property_inv_cong [OF inv])
  then show ?thesis
    using inv loop allocate_loop_ends [OF wf(2) t] by (simp add: allocate_property_def allocate_steps_frame)
qed

lemma allocate_rows_inv:
  assumes "\<forall>r \<in> set ps. property_inv (snd r)" "hbt + 60 < 2 ^ 32"
  shows "\<exists>ps'. allocate_rows L hbt ps = Some ps' \<and> (\<forall>r \<in> set ps'. property_inv (snd r)) \<and> map fst ps' = map fst ps \<and>
    map (\<lambda>r. backed_by_asset_symbol (snd r)) ps' = map (\<lambda>r. backed_by_asset_symbol (snd r)) ps"
  using assms(1)
proof (induction ps)
  case (Cons x ps)
  obtain i p where x: "x = (i, p)" by (cases x)
  obtain p' where p': "allocate_property L hbt p = Some p'" "property_inv p'"
    "backed_by_asset_symbol p' = backed_by_asset_symbol p"
    using allocate_property_inv [of p hbt] assms(2) Cons(2) x by auto
  obtain ps' where "allocate_rows L hbt ps = Some ps'" "\<forall>r \<in> set ps'. property_inv (snd r)" "map fst ps' = map fst ps"
    "map (\<lambda>r. backed_by_asset_symbol (snd r)) ps' = map (\<lambda>r. backed_by_asset_symbol (snd r)) ps"
    using Cons by auto
  with p' x show ?case by simp
qed simp

end

section \<open>Contributions and sell limits\<close>

definition contributed :: "string \<Rightarrow> (nat \<times> property_object) list \<Rightarrow> int" where
  "contributed s ps = (\<Sum>r \<leftarrow> ps. if backed_by_asset_symbol (snd r) = s then contribution (snd r) else 0)"

definition total_at :: "(string \<times> int) list \<Rightarrow> string \<Rightarrow> int" where
  "total_at m s = (case map_of m s of None \<Rightarrow> 0 | Some x \<Rightarrow> x)"

lemma contributed_Cons [simp]:
  "contributed s (r # ps) = (if backed_by_asset_symbol (snd r) = s then contribution (snd r) else 0) + contributed s ps"
  by (simp add: contributed_def)

context boost_rational
begin

lemma add_contributions_sum:
  assumes "\<forall>r \<in> set ps. property_wf (snd r) \<and> contribution (snd r) < 2 ^ 64" "distinct (map fst m)"
  shows "\<exists>m'. add_contributions L ps m = Inr m' \<and> distinct (map fst m') \<and>
    (\<forall>s. total_at m' s = total_at m s + contributed s ps) \<and>
    dom (map_of m') = dom (map_of m) \<union> (\<lambda>r. backed_by_asset_symbol (snd r)) ` set ps"
  using assms
proof (induction ps arbitrary: m)
  case Nil
  then show ?case by (simp add: contributed_def)
next
  case (Cons x ps)
  obtain i p where x: "x = (i, p)" by (cases x)
  let ?s = "backed_by_asset_symbol p"
  define m1 where "m1 = AList.update ?s (total_at m ?s + contribution p) m"
  have "distinct (map fst m1)" using Cons(3) by (simp add: m1_def distinct_update)
  with Cons(1) [of m1] Cons(2) obtain m' where m': "add_contributions L ps m1 = Inr m'" "distinct (map fst m')"
    "\<forall>s. total_at m' s = total_at m1 s + contributed s ps"
    "dom (map_of m') = dom (map_of m1) \<union> (\<lambda>r. backed_by_asset_symbol (snd r)) ` set ps" by auto
  have "calc_meta1_contribution L p = Inr (contribution p)" using Cons(2) x contribution_exact [of p] by simp
  then have "add_contributions L (x # ps) m = Inr m'" using m'(1) x by (simp add: m1_def total_at_def)
  moreover have "total_at m1 s = total_at m s + (if ?s = s then contribution p else 0)" for s
    by (simp add: m1_def total_at_def update_conv')
  moreover have "dom (map_of m1) = insert ?s (dom (map_of m))" by (auto simp: m1_def update_conv')
  ultimately show ?case using m' x by auto
qed

text \<open>In every other case one of the contributions does not fit 64 bits, and the block goes on without
  new limits.\<close>

lemma add_contributions_cases:
  assumes "\<forall>r \<in> set ps. property_wf (snd r)"
  shows "add_contributions L ps m \<noteq> Inl False"
  using assms
proof (induction ps arbitrary: m)
  case (Cons x ps)
  then show ?case using contribution_exact [of "snd x"] by (cases x) auto
qed simp

end

lemma update_limits_frame:
  "db_wf d \<Longrightarrow> db_wf (update_limits m d) \<and> properties (update_limits m d) = properties d"
proof (induction m d rule: update_limits.induct)
  case (2 smb c m d)
  then show ?case by (auto simp: db_wf_upd db_wf_tables tbl_wf_ops split: option.splits)
qed simp

lemma update_limits_find:
  assumes "db_wf d" "distinct (map fst m)" "\<forall>(s, c) \<in> set m. 0 \<le> c \<and> c < 2 ^ 64 \<and> find_limitation_by_symbol d s \<noteq> None"
  shows "find_limitation_by_symbol (update_limits m d) s =
    (case map_of m s of None \<Rightarrow> find_limitation_by_symbol d s
     | Some c \<Rightarrow> map_option (\<lambda>(i, a). (i, a\<lparr>cumulative_sell_limit := c\<rparr>)) (find_limitation_by_symbol d s))"
  using assms
proof (induction m arbitrary: d)
  case (Cons x m)
  obtain smb c where x: "x = (smb, c)" by (cases x)
  obtain i alo where f: "find_limitation_by_symbol d smb = Some (i, alo)" and c: "0 \<le> c" "c < 2 ^ 64"
    using Cons(4) x by fastforce
  define d1 where "d1 = d\<lparr>asset_limitations := tbl_modify i (\<lambda>a. a\<lparr>cumulative_sell_limit := c\<rparr>) (asset_limitations d)\<rparr>"
  have g: "tbl_get i (asset_limitations d) = Some alo" "limit_symbol alo = smb"
    using tbl_find_SomeD [OF db_wf_tables(7) [OF Cons(2)], of "\<lambda>a. limit_symbol a = smb" i alo] f
    by (auto simp: find_limitation_by_symbol_def)
  have wf: "db_wf d1" using Cons(2) by (simp add: d1_def db_wf_upd db_wf_tables tbl_wf_ops)
  have fd1: "find_limitation_by_symbol d1 s' =
      map_option (\<lambda>(j, w). (j, if j = i then w\<lparr>cumulative_sell_limit := c\<rparr> else w)) (find_limitation_by_symbol d s')" for s'
    unfolding find_limitation_by_symbol_def d1_def
    using g by (simp add: tbl_find_modify [OF db_wf_tables(7) [OF Cons(2)], of i alo])
  have step: "update_limits (x # m) d = update_limits m d1"
    using f c x by (simp add: d1_def)
  have "find_limitation_by_symbol (update_limits m d1) s =
    (case map_of m s of None \<Rightarrow> find_limitation_by_symbol d1 s
     | Some c \<Rightarrow> map_option (\<lambda>(i, a). (i, a\<lparr>cumulative_sell_limit := c\<rparr>)) (find_limitation_by_symbol d1 s))"
    using Cons(3,4) x fd1 by (intro Cons(1) [OF wf]) auto
  moreover have "s \<noteq> smb \<Longrightarrow> find_limitation_by_symbol d1 s = find_limitation_by_symbol d s"
  proof -
    assume ne: "s \<noteq> smb"
    have "j \<noteq> i" if "find_limitation_by_symbol d s = Some (j, w)" for j w
      using that tbl_find_SomeD [OF db_wf_tables(7) [OF Cons(2)], of "\<lambda>a. limit_symbol a = s" j w] g ne
      by (auto simp: find_limitation_by_symbol_def)
    then show ?thesis using fd1 [of s] by (cases "find_limitation_by_symbol d s") auto
  qed
  moreover have "s = smb \<Longrightarrow> map_of m s = None" using Cons(3) x by (auto simp: map_of_eq_None_iff)
  ultimately show ?case unfolding step using x f fd1 [of s] by (cases "s = smb") (auto split: option.splits)
qed simp

context fc_time
begin

lemma allocate_steps_date:
  "0 \<le> next_allocation_date p \<Longrightarrow> next_allocation_date p + 60 * int n < 2 ^ 32 \<Longrightarrow>
   next_allocation_date ((allocate_step L ^^ n) p) = next_allocation_date p + 60 * int n"
  by (induction n) (simp_all add: allocate_step_frame tps_add)

lemma elapsed_bounds:
  assumes "next_allocation_date p \<le> hbt"
  shows "hbt < next_allocation_date p + 60 * int (elapsed_intervals hbt p)"
    and "next_allocation_date p + 60 * int (elapsed_intervals hbt p) \<le> hbt + 60"
proof -
  let ?m = "hbt - next_allocation_date p"
  have m: "60 * (?m div 60) \<le> ?m" "?m < 60 * (?m div 60) + 60"
    using mult_div_mod_eq [of 60 ?m] pos_mod_bound [of 60 ?m] pos_mod_sign [of 60 ?m] by linarith+
  moreover have "int (elapsed_intervals hbt p) = ?m div 60 + 1"
    using assms by (simp add: elapsed_intervals_def pos_imp_zdiv_nonneg_iff)
  ultimately show "hbt < next_allocation_date p + 60 * int (elapsed_intervals hbt p)"
    "next_allocation_date p + 60 * int (elapsed_intervals hbt p) \<le> hbt + 60" by auto
qed

lemma allocate_active:
  assumes inv: "property_inv p" and act: "\<not> expired p" "hbt < approval_end_date p" "approval_date p \<noteq> None \<or> hbt \<le> initial_end_date p"
    and t: "hbt + 60 < 2 ^ 32"
  shows "\<exists>p'. allocate_property L hbt p = Some p' \<and> hbt < next_allocation_date p' \<and>
    initial_counter p' = min (initial_counter_max p) (initial_counter p + int (elapsed_intervals hbt p)) \<and>
    approval_counter p' = (if approval_date p = None then approval_counter p
      else min (approval_counter_max p) (approval_counter p +
        max 0 (int (elapsed_intervals hbt p) - (initial_counter_max p - initial_counter p))))"
proof -
  let ?q = "(allocate_step L ^^ elapsed_intervals hbt p) p"
  have wf: "property_wf p" "0 \<le> next_allocation_date p" using inv by (simp_all add: property_inv_def)
  have "allocate_property L hbt p = Some ?q"
    using act allocate_loop_ends [OF wf(2) t] by (auto simp: allocate_property_def)
  moreover have "hbt < next_allocation_date ?q"
  proof (cases "next_allocation_date p \<le> hbt")
    case True
    then show ?thesis using elapsed_bounds [OF True] wf(2) t by (simp add: allocate_steps_date)
  qed (simp add: elapsed_intervals_def)
  ultimately show ?thesis using allocate_steps_counters [OF wf(1), of "elapsed_intervals hbt p" L] by simp
qed

lemma next_start_time:
  assumes "0 \<le> now" "now + 60 < 2 ^ 32"
  shows "calc_meta1_next_start_time L now = 60 * (now div 60 + 1)"
proof -
  have "60 * (now div 60) \<le> now" using mult_div_mod_eq [of 60 now] pos_mod_sign [of 60 now] by linarith
  then show ?thesis
    using assms by (simp add: calc_meta1_next_start_time_def calc_next_start_time_def Let_def tps_add chain_consts
        pos_imp_zdiv_nonneg_iff mult.commute)
qed

lemma preceding_start_time:
  assumes "0 \<le> now" "now < 2 ^ 32"
  shows "calc_meta1_preceding_start_time L now = 60 * (now div 60)"
proof -
  have "60 * (now div 60) \<le> now" using mult_div_mod_eq [of 60 now] pos_mod_sign [of 60 now] by linarith
  then show ?thesis
    using assms by (simp add: calc_meta1_preceding_start_time_def calc_preceding_start_time_def Let_def tps_add chain_consts
        pos_imp_zdiv_nonneg_iff mult.commute)
qed

lemma approve_property_ok:
  assumes inv: "property_inv p" and now: "0 \<le> now" "now < approval_end_date p" and late: "initial_end_date p \<le> now"
    and c: "approval_counter p = 0"
  shows "\<exists>p'. approve_property L now p = Some p' \<and> property_inv p' \<and> approval_date p' = Some (60 * (now div 60)) \<and>
    60 * (now div 60) + 60 * approval_counter_max p' = approval_end_date p \<and>
    (60 * (now div 60) + 60 < 2 ^ 32 \<longrightarrow> next_allocation_date p' = 60 * (now div 60) + 60)"
proof -
  obtain k where k: "approval_end_date p = 60 * k" using inv by (auto simp: property_inv_def mod_eq_0_iff_dvd elim: dvdE)
  have r: "60 * (now div 60) \<le> now" using mult_div_mod_eq [of 60 now] pos_mod_sign [of 60 now] by linarith
  have lt: "60 * (now div 60) < 60 * k" using r now(2) k by linarith
  have e: "approval_end_date p < 2 ^ 32" "0 \<le> now div 60"
    using inv now(1) by (simp_all add: property_inv_def pos_imp_zdiv_nonneg_iff)
  have d: "u32 (60 * k - 60 * (now div 60)) div 60 = k - now div 60"
  proof -
    have "u32 (60 * k - 60 * (now div 60)) = 60 * (k - now div 60)"
      using lt e k by (subst u32_id) (simp_all add: right_diff_distrib)
    then show ?thesis by simp
  qed
  have "approve_property L now p = Some (p\<lparr>approval_date := Some (60 * (now div 60)), approval_counter_max := k - now div 60,
      next_allocation_date := u32 (60 * (now div 60) + 60)\<rparr>)"
    using late now k d c preceding_start_time [OF now(1)] e
    by (simp add: approve_property_def calc_meta1_allocation_restart_parameters_def Let_def tps_add chain_consts)
  moreover have "k - now div 60 \<le> MAX_INTERVALS" "1 \<le> k - now div 60"
    using lt e k by (simp_all add: chain_consts)
  ultimately show ?thesis using inv c k e by (auto simp: property_inv_def property_wf_def)
qed

end

lemma map_of_sort_key: "distinct (map fst m) \<Longrightarrow> map_of (sort_key fst m) = map_of m"
  by (rule map_of_inject_set [THEN iffD2]) (simp_all add: distinct_map distinct_sort)

lemma distinct_sort_key: "distinct (map fst (sort_key fst m)) = distinct (map fst m)"
  by (simp add: distinct_map)

lemma contributed_nonneg: "\<forall>r \<in> set ps. property_wf (snd r) \<Longrightarrow> 0 \<le> contributed s ps"
  using contribution_nonneg unfolding contributed_def by (intro sum_list_nonneg) auto

lemma contribution_le_contributed:
  "\<forall>r \<in> set ps. property_wf (snd r) \<Longrightarrow> r \<in> set ps \<Longrightarrow> contribution (snd r) \<le> contributed (backed_by_asset_symbol (snd r)) ps"
proof (induction ps)
  case (Cons x xs)
  have "0 \<le> contributed s xs" for s using Cons(2) by (intro contributed_nonneg) simp
  with Cons contribution_nonneg show ?case by (auto simp: add_increasing)
qed simp

lemma smooth_properties:
  assumes "update_smooth_allocation L d = Some d'" "allocate_rows L (head_block_time d) (rows (properties d)) = Some ps"
    and "db_wf (d\<lparr>properties := (properties d)\<lparr>rows := ps\<rparr>\<rparr>)"
    and "\<forall>r \<in> set (rows (asset_limitations d)). find_asset_by_symbol d (limit_symbol (snd r)) \<noteq> None"
  shows "properties d' = (properties d)\<lparr>rows := ps\<rparr>"
proof -
  have "\<not> list_ex (\<lambda>r. find_asset_by_symbol d (limit_symbol (snd r)) = None) (rows (asset_limitations d))"
    using assms(4) by (auto simp: list_ex_iff)
  then show ?thesis
    using assms(1,2) update_limits_frame [OF assms(3)]
    by (auto simp: update_smooth_allocation_def Let_def split: sum.splits bool.splits)
qed

context ext_laws
begin

lemma allocated_tables:
  assumes wf: "db_wf d" and ok: "props_ok d" and t: "head_block_time d + 60 < 2 ^ 32"
  obtains ps where "allocate_rows L (head_block_time d) (rows (properties d)) = Some ps"
    "\<forall>r \<in> set ps. property_inv (snd r)"
    "(\<lambda>r. backed_by_asset_symbol (snd r)) ` set ps = (\<lambda>r. backed_by_asset_symbol (snd r)) ` set (rows (properties d))"
    "db_wf (d\<lparr>properties := (properties d)\<lparr>rows := ps\<rparr>\<rparr>)"
proof -
  obtain ps where ps: "allocate_rows L (head_block_time d) (rows (properties d)) = Some ps"
    "\<forall>r \<in> set ps. property_inv (snd r)" "map fst ps = map fst (rows (properties d))"
    "map (\<lambda>r. backed_by_asset_symbol (snd r)) ps = map (\<lambda>r. backed_by_asset_symbol (snd r)) (rows (properties d))"
    using allocate_rows_inv [OF ok [unfolded props_ok_def] t] by blast
  have "fst ` set ps = fst ` set (rows (properties d))" using ps(3) by (metis list.set_map)
  then have "tbl_wf ((properties d)\<lparr>rows := ps\<rparr>)"
    using db_wf_tables(6) [OF wf] ps(3) unfolding tbl_wf_def by (simp, metis image_iff fst_conv)
  then have "db_wf (d\<lparr>properties := (properties d)\<lparr>rows := ps\<rparr>\<rparr>)" using wf by (simp add: db_wf_upd)
  moreover have "(\<lambda>r. backed_by_asset_symbol (snd r)) ` set ps = (\<lambda>r. backed_by_asset_symbol (snd r)) ` set (rows (properties d))"
    using ps(4) by (metis list.set_map)
  ultimately show ?thesis using that ps(1,2) by blast
qed

lemma smooth_allocation_total:
  assumes wf: "db_wf d" and ok: "props_ok d" and t: "head_block_time d + 60 < 2 ^ 32"
  shows "\<exists>d'. update_smooth_allocation L d = Some d' \<and> db_wf d' \<and> props_ok d'"
proof -
  obtain ps where ps: "allocate_rows L (head_block_time d) (rows (properties d)) = Some ps"
    "\<forall>r \<in> set ps. property_inv (snd r)" "db_wf (d\<lparr>properties := (properties d)\<lparr>rows := ps\<rparr>\<rparr>)"
    using allocated_tables [OF assms] by metis
  define d1 where "d1 = d\<lparr>properties := (properties d)\<lparr>rows := ps\<rparr>\<rparr>"
  have wf1: "db_wf d1" using ps(3) by (simp add: d1_def)
  have ok1: "props_ok d1" using ps(2) by (simp add: props_ok_def d1_def)
  have "add_contributions L ps [] \<noteq> Inl False"
    using add_contributions_cases [of ps] ps(2) by (auto simp: property_inv_def)
  then consider "add_contributions L ps [] = Inl True" | m where "add_contributions L ps [] = Inr m"
    by (metis (full_types) obj_sumE)
  then show ?thesis
  proof cases
    case 1
    then show ?thesis using ps(1) wf ok wf1 ok1 by (simp add: update_smooth_allocation_def d1_def Let_def)
  next
    case (2 m)
    then show ?thesis
      using ps(1) wf ok ok1 update_limits_frame [OF wf1, of "sort_key fst m"]
      by (simp add: update_smooth_allocation_def d1_def props_ok_def Let_def)
  qed
qed

lemma sell_limit_sum:
  assumes wf: "db_wf d" and ok: "props_ok d" and t: "head_block_time d + 60 < 2 ^ 32"
    and ast: "\<forall>r \<in> set (rows (asset_limitations d)). find_asset_by_symbol d (limit_symbol (snd r)) \<noteq> None"
    and lims: "\<forall>r \<in> set (rows (properties d)). find_limitation_by_symbol d (backed_by_asset_symbol (snd r)) \<noteq> None"
    and run: "update_smooth_allocation L d = Some d'"
    and fit: "\<forall>s. contributed s (rows (properties d')) < 2 ^ 64"
    and bk: "\<exists>r \<in> set (rows (properties d)). backed_by_asset_symbol (snd r) = s"
  shows "\<exists>i a. find_limitation_by_symbol d' s = Some (i, a) \<and> cumulative_sell_limit a = contributed s (rows (properties d'))"
proof -
  obtain ps where ps: "allocate_rows L (head_block_time d) (rows (properties d)) = Some ps"
    "\<forall>r \<in> set ps. property_inv (snd r)"
    "(\<lambda>r. backed_by_asset_symbol (snd r)) ` set ps = (\<lambda>r. backed_by_asset_symbol (snd r)) ` set (rows (properties d))"
    "db_wf (d\<lparr>properties := (properties d)\<lparr>rows := ps\<rparr>\<rparr>)"
    using allocated_tables [OF wf ok t] by metis
  define d1 where "d1 = d\<lparr>properties := (properties d)\<lparr>rows := ps\<rparr>\<rparr>"
  have lim1: "find_limitation_by_symbol d1 x = find_limitation_by_symbol d x" for x
    by (simp add: d1_def find_limitation_by_symbol_def)
  have wf1: "db_wf d1" using ps(4) by (simp add: d1_def)
  have nex: "\<not> list_ex (\<lambda>r. find_asset_by_symbol d (limit_symbol (snd r)) = None) (rows (asset_limitations d))"
    using ast by (auto simp: list_ex_iff)
  have wfp: "\<forall>r \<in> set ps. property_wf (snd r)" using ps(2) by (simp add: property_inv_def)
  have pr: "properties d' = (properties d)\<lparr>rows := ps\<rparr>"
    by (rule smooth_properties [OF run ps(1,4) ast])
  have fit': "contributed x ps < 2 ^ 64" for x using fit pr by simp
  have "\<forall>r \<in> set ps. property_wf (snd r) \<and> contribution (snd r) < 2 ^ 64"
    using wfp fit' contribution_le_contributed [OF wfp] by (meson order.strict_trans1)
  from add_contributions_sum [OF this, of "[]"] obtain m where m: "add_contributions L ps [] = Inr m" "distinct (map fst m)"
    "\<forall>s. total_at m s = contributed s ps" "dom (map_of m) = (\<lambda>r. backed_by_asset_symbol (snd r)) ` set ps"
    by (auto simp: total_at_def)
  have d': "d' = update_limits (sort_key fst m) d1"
    using run ps(1) nex m(1) by (simp add: update_smooth_allocation_def d1_def Let_def)
  have val: "c = contributed x ps" if "map_of m x = Some c" for x c
    using that m(3) by (metis total_at_def option.simps(5))
  have lim: "find_limitation_by_symbol d x \<noteq> None" if "map_of m x \<noteq> None" for x
  proof -
    have "x \<in> (\<lambda>r. backed_by_asset_symbol (snd r)) ` set (rows (properties d))"
      using that m(4) ps(3) by (metis domIff)
    then show ?thesis using lims by auto
  qed
  have "0 \<le> c \<and> c < 2 ^ 64 \<and> find_limitation_by_symbol d1 x \<noteq> None" if "(x, c) \<in> set m" for x c
    using that val [of x c] lim [of x] fit' [of x] contributed_nonneg [OF wfp, of x] m(2) lim1 by simp
  then have "find_limitation_by_symbol d' s = (case map_of m s of None \<Rightarrow> find_limitation_by_symbol d1 s
     | Some c \<Rightarrow> map_option (\<lambda>(i, a). (i, a\<lparr>cumulative_sell_limit := c\<rparr>)) (find_limitation_by_symbol d1 s))"
    unfolding d' using m(2) by (subst update_limits_find [OF wf1]) (auto simp: map_of_sort_key distinct_sort_key)
  moreover obtain c where "map_of m s = Some c" using bk m(4) ps(3) by (metis (mono_tags, lifting) domIff image_eqI option.exhaust)
  ultimately show ?thesis using val [of s c] lim [of s] lim1 pr by auto
qed

end


section \<open>Schedules of blocks\<close>

lemma elapsed_int:
  "int (elapsed_intervals hbt p) = (if next_allocation_date p \<le> hbt then (hbt - next_allocation_date p) div 60 + 1 else 0)"
  by (simp add: elapsed_intervals_def pos_imp_zdiv_nonneg_iff)

context fc_time
begin

text \<open>The intervals counted at two blocks are those counted at the later one alone.\<close>

lemma elapsed_compose:
  assumes n: "0 \<le> next_allocation_date p" and t: "t1 \<le> t2" "t2 + 60 < 2 ^ 32"
  shows "elapsed_intervals t2 p =
    elapsed_intervals t1 p + elapsed_intervals t2 ((allocate_step L ^^ elapsed_intervals t1 p) p)"
proof (cases "next_allocation_date p \<le> t1")
  case True
  let ?n = "next_allocation_date p" and ?k = "int (elapsed_intervals t1 p)"
  note b = elapsed_bounds [OF True]
  have q: "next_allocation_date ((allocate_step L ^^ elapsed_intervals t1 p) p) = ?n + 60 * ?k"
    using b n t by (intro allocate_steps_date) auto
  have "(t2 - ?n) div 60 + 1 = ?k + (if ?n + 60 * ?k \<le> t2 then (t2 - (?n + 60 * ?k)) div 60 + 1 else 0)"
  proof (cases "?n + 60 * ?k \<le> t2")
    case True
    have "t2 - ?n = (t2 - (?n + 60 * ?k)) + 60 * ?k" by simp
    then have "(t2 - ?n) div 60 = (t2 - (?n + 60 * ?k)) div 60 + ?k" by (metis div_mult_self2 zero_neq_numeral add.commute)
    with True show ?thesis by simp
  next
    case False
    have "(t2 - ?n) div 60 = ?k - 1"
      using False b t(1) by (intro int_div_pos_eq [where r = "t2 - ?n - 60 * (?k - 1)"]) auto
    with False show ?thesis by simp
  qed
  then have "int (elapsed_intervals t2 p) =
      int (elapsed_intervals t1 p) + int (elapsed_intervals t2 ((allocate_step L ^^ elapsed_intervals t1 p) p))"
    using True t(1) unfolding elapsed_int [of t2] q by simp
  then show ?thesis by linarith
qed (simp add: elapsed_intervals_def)

lemma allocate_compose:
  assumes inv: "property_inv p" and act: "\<not> expired p" "t2 < approval_end_date p" "approval_date p \<noteq> None \<or> t2 \<le> initial_end_date p"
    and t: "t1 \<le> t2" "t2 + 60 < 2 ^ 32"
  shows "(allocate_property L t1 p \<bind> allocate_property L t2) = allocate_property L t2 p"
proof -
  let ?q = "(allocate_step L ^^ elapsed_intervals t1 p) p"
  have n: "0 \<le> next_allocation_date p" using inv by (simp add: property_inv_def)
  have fr: "expired ((allocate_step L ^^ k) p) = expired p" "initial_end_date ((allocate_step L ^^ k) p) = initial_end_date p" for k
    by (induction k) (simp_all add: allocate_step_frame)
  have "allocate_property L t1 p = Some ?q"
    using act t allocate_loop_ends [OF n, of t1] by (auto simp: allocate_property_def)
  moreover have "allocate_property L t2 ?q = Some ((allocate_step L ^^ elapsed_intervals t2 ?q) ?q)"
    using act t allocate_loop_ends [OF allocate_steps_next [OF fc_time_axioms n], of t2]
    by (auto simp: allocate_property_def fr allocate_steps_frame allocate_steps_end)
  moreover have "(allocate_step L ^^ elapsed_intervals t2 ?q) ?q = (allocate_step L ^^ elapsed_intervals t2 p) p"
    unfolding elapsed_compose [OF n t] by (simp add: funpow_add add.commute [of "elapsed_intervals t1 p"])
  moreover have "allocate_property L t2 p = Some ((allocate_step L ^^ elapsed_intervals t2 p) p)"
    using act t allocate_loop_ends [OF n, of t2] by (auto simp: allocate_property_def)
  ultimately show ?thesis by simp
qed

end

context ext_laws
begin

lemma new_property_ok:
  assumes op: "property_create_validate op = Some ()" and v: "pco_appraised_property_value op < 2 ^ 64"
    and now: "0 \<le> now" "now + 60 + 60 * pco_allocation_duration_minutes op < 2 ^ 32"
  shows "\<exists>p. new_property L op now = Some p \<and> property_inv p \<and> contribution p = 0 \<and>
    creation_date p = 60 * (now div 60 + 1) \<and> next_allocation_date p = creation_date p + 60 \<and>
    4 * initial_counter_max p = pco_allocation_duration_minutes op \<and>
    initial_counter_max p + approval_counter_max p = pco_allocation_duration_minutes op \<and>
    initial_end_date p = creation_date p + 60 * initial_counter_max p \<and>
    approval_end_date p = creation_date p + 60 * pco_allocation_duration_minutes op"
proof -
  define m where "m = pco_allocation_duration_minutes op div 4"
  have mins: "pco_allocation_duration_minutes op = 4 * m" and m1: "1 \<le> m"
    using op by (auto simp: property_create_validate_def m_def)
  define s where "s = now div 60 + 1"
  have s: "0 \<le> s" "60 * s \<le> now + 60"
    using now(1) mult_div_mod_eq [of 60 now] pos_mod_sign [of 60 now] by (simp_all add: s_def pos_imp_zdiv_nonneg_iff)
  have start: "calc_meta1_next_start_time L now = 60 * s"
    using next_start_time [OF now(1)] now(2) m1 mins by (simp add: s_def)
  have bnd: "60 * s + 60 * (4 * m) < 2 ^ 32" using s(2) now(2) mins by simp
  have mul: "safe_u32_mul L (4 * m) 60 = Some (240 * m)"
    using bnd s(1) m1 by (simp add: safe_u32_mul in_u32_def)
  have par: "calc_meta1_allocation_initial_parameters L (60 * s) (240 * m) = Some \<lparr>time_to_25_percent = 60 * s + 60 * m,
      time_to_25_percent_intervals = m, time_to_100_percent = 60 * s + 240 * m, time_to_100_percent_intervals = 4 * m\<rparr>"
  proof -
    have "240 * m div 60 = 4 * m" "240 * m div 4 = 60 * m" "4 * m div 4 = m" "240 * m mod 60 = 0" by simp_all
    then show ?thesis
      using bnd s(1) m1 by (simp add: calc_meta1_allocation_initial_parameters_def Let_def tps_add chain_consts)
  qed
  have val: "0 \<le> pco_appraised_property_value op" using op by (simp add: property_create_validate_def)
  have tm: "tps_add L (60 * s) 60 = 60 * s + 60" "u32 (4 * m - m) = 3 * m"
    using bnd s(1) m1 by (simp_all add: tps_add)
  have e60: "(60 * s + 240 * m) mod 60 = 0"
    by (metis dvd_add dvd_mult2 dvd_refl mod_eq_0_iff_dvd dvd_triv_left mult.assoc numeral_times_numeral semiring_norm(11,12,13) mult.commute)
  show ?thesis
    unfolding new_property_def mins start
    using mul par tm e60 bnd s(1) m1 val v
    by (simp add: s_def [symmetric] property_inv_def property_wf_def chain_consts contribution_def progress_def Let_def)
qed

end


lemma contributed_sum:
  "contributed s (rows t) = tbl_sum (\<lambda>p. if backed_by_asset_symbol p = s then contribution p else 0) t"
  by (simp add: contributed_def tbl_sum_def)

context boost_rational
begin

lemma delete_limit:
  assumes wf: "db_wf d" and ok: "props_ok d" and run: "property_delete_apply L op d = Some d'"
    and p: "tbl_get (pdo_property op) (properties d) = Some p"
    and lim: "find_limitation_by_symbol d (backed_by_asset_symbol p) = Some (i, a)"
    and sum: "cumulative_sell_limit a = contributed (backed_by_asset_symbol p) (rows (properties d))"
    and fit: "cumulative_sell_limit a < 2 ^ 64"
  shows "tbl_get (pdo_property op) (properties d') = None \<and>
    (\<exists>a'. find_limitation_by_symbol d' (backed_by_asset_symbol p) = Some (i, a') \<and>
      cumulative_sell_limit a' = contributed (backed_by_asset_symbol p) (rows (properties d')) \<and>
      cumulative_sell_limit a' = cumulative_sell_limit a - contribution p)"
proof -
  let ?s = "backed_by_asset_symbol p"
  have mem: "(pdo_property op, p) \<in> set (rows (properties d))" using p by (simp add: tbl_get_def map_of_SomeD)
  have wfp: "\<forall>r \<in> set (rows (properties d)). property_wf (snd r)" using ok by (auto simp: props_ok_def property_inv_def)
  have pw: "property_wf p" using wfp mem by auto
  have le: "contribution p \<le> cumulative_sell_limit a" "0 \<le> contribution p"
    using contribution_le_contributed [OF wfp mem] contribution_nonneg [OF pw] sum by simp_all
  then have "calc_meta1_contribution L p = Inr (contribution p)" using contribution_exact [OF pw] fit by simp
  then have d': "d' = d\<lparr>asset_limitations := tbl_modify i (\<lambda>x. x\<lparr>cumulative_sell_limit := cumulative_sell_limit a - contribution p\<rparr>)
      (asset_limitations d), properties := tbl_remove (pdo_property op) (properties d)\<rparr>"
    using run p lim le fit by (simp add: property_delete_apply_def)
  have g: "tbl_get i (asset_limitations d) = Some a"
    using tbl_find_SomeD(1) [OF db_wf_tables(7) [OF wf]] lim by (simp add: find_limitation_by_symbol_def)
  have "find_limitation_by_symbol d' ?s = Some (i, a\<lparr>cumulative_sell_limit := cumulative_sell_limit a - contribution p\<rparr>)"
    using lim tbl_find_modify [OF db_wf_tables(7) [OF wf] g, of "\<lambda>a. limit_symbol a = ?s"
        "\<lambda>x. x\<lparr>cumulative_sell_limit := cumulative_sell_limit a - contribution p\<rparr>"]
    by (simp add: d' find_limitation_by_symbol_def)
  moreover have "contributed ?s (rows (properties d')) = contributed ?s (rows (properties d)) - contribution p"
    using tbl_sum_remove [OF db_wf_tables(6) [OF wf] p] by (simp add: d' contributed_sum)
  moreover have "tbl_get (pdo_property op) (properties d') = None"
    using db_wf_tables(6) [OF wf] by (simp add: d' tbl.get_remove)
  ultimately show ?thesis using sum by simp
qed

end

section \<open>Properties\<close>

text \<open>
  Creating a property lays out its whole life: it starts at the next full minute, the
  first quarter of the minutes belongs to the initial phase and the rest to the approved
  phase, the two end dates are exactly that many minutes later, and the new property meets the
  invariant of the allocation and contributes nothing yet. The hypothesis on \<open>now\<close> excludes
  a wrap of the 32-bit time.
\<close>

theorem property_create_plan:
  assumes "ext_laws L" "property_create_validate op = Some ()" "pco_appraised_property_value op < 2 ^ 64"
    and "0 \<le> now" "now + 60 + 60 * pco_allocation_duration_minutes op < 2 ^ 32"
  shows "\<exists>p. new_property L op now = Some p \<and> property_inv p \<and> contribution p = 0 \<and>
    creation_date p = 60 * (now div 60 + 1) \<and> next_allocation_date p = creation_date p + 60 \<and>
    4 * initial_counter_max p = pco_allocation_duration_minutes op \<and>
    initial_counter_max p + approval_counter_max p = pco_allocation_duration_minutes op \<and>
    initial_end_date p = creation_date p + 60 * initial_counter_max p \<and>
    approval_end_date p = creation_date p + 60 * pco_allocation_duration_minutes op"
  by (rule ext_laws.new_property_ok [OF assms])

definition demo_create :: property_create_operation where
  "demo_create = \<lparr>pco_fee = mk_asset 0 0, pco_property_id = 7, pco_issuer = 7, pco_appraised_property_value = 33,
     pco_allocation_duration_minutes = 8, pco_backed_by_asset_symbol = ''META1'', pco_common_options = demo_options\<rparr>"

theorem property_create_plan_witness:
  "\<exists>p. new_property checked_lib demo_create 130 = Some p \<and> creation_date p = 180 \<and> initial_counter_max p = 2 \<and>
    approval_counter_max p = 6 \<and> approval_end_date p = 660"
proof -
  have "property_create_validate demo_create = Some ()"
    by (simp add: property_create_validate_def property_options_validate_def demo_create_def demo_options_def is_email_valid_def
        email_local_def email_domain_def word_char_def Let_def)
  then show ?thesis
    using property_create_plan [OF checked_lib_laws, of demo_create 130] by (auto simp: demo_create_def)
qed

text \<open>
  Approving a property after its initial phase restarts the allocation at the preceding full
  minute with as many intervals as are left, so that the last interval ends exactly at the
  end date fixed at creation.
\<close>

theorem late_approval_ends_on_time:
  assumes "ext_laws L" "property_inv p" "0 \<le> now" "now < approval_end_date p" "initial_end_date p \<le> now" "approval_counter p = 0"
  shows "\<exists>p'. approve_property L now p = Some p' \<and> property_inv p' \<and> approval_date p' = Some (60 * (now div 60)) \<and>
    60 * (now div 60) + 60 * approval_counter_max p' = approval_end_date p \<and>
    (60 * (now div 60) + 60 < 2 ^ 32 \<longrightarrow> next_allocation_date p' = 60 * (now div 60) + 60)"
proof -
  have t: "fc_time L" using assms(1) by (simp add: ext_laws_def)
  show ?thesis by (rule fc_time.approve_property_ok [OF t assms(2-)])
qed


definition demo_late :: property_object where
  "demo_late = demo_property\<lparr>approval_date := None, approval_counter := 0\<rparr>"

lemma demo_property_inv: "property_inv demo_property" "property_inv demo_late"
  by (simp_all add: property_inv_def demo_late_def demo_property_def property_wf_def chain_consts)

theorem late_approval_ends_on_time_witness:
  "\<exists>p'. approve_property checked_lib 200 demo_late = Some p' \<and> approval_date p' = Some 180 \<and> approval_counter_max p' = 2"
  using late_approval_ends_on_time [OF checked_lib_laws demo_property_inv(2), of 200]
  by (auto simp: demo_late_def demo_property_def)

text \<open>
  Between two blocks the loop of \<^verbatim>\<open>update_smooth_allocation\<close> ends, and it counts one interval for each
  full minute that has passed: first for the initial phase, then for the approved phase, neither
  beyond its maximum; the next allocation is in the future.
\<close>

theorem allocation_closed_form:
  assumes "fc_time L" "property_inv p" "\<not> expired p" "hbt < approval_end_date p"
    and "approval_date p \<noteq> None \<or> hbt \<le> initial_end_date p" "hbt + 60 < 2 ^ 32"
  shows "\<exists>p'. allocate_property L hbt p = Some p' \<and> hbt < next_allocation_date p' \<and>
    initial_counter p' = min (initial_counter_max p) (initial_counter p + int (elapsed_intervals hbt p)) \<and>
    approval_counter p' = (if approval_date p = None then approval_counter p
      else min (approval_counter_max p) (approval_counter p +
        max 0 (int (elapsed_intervals hbt p) - (initial_counter_max p - initial_counter p))))"
  by (rule fc_time.allocate_active [OF assms])

theorem allocation_closed_form_witness:
  "\<exists>p'. allocate_property checked_lib 250 demo_property = Some p' \<and> approval_counter p' = 2 \<and> initial_counter p' = 1"
  using allocation_closed_form [OF checked.fc_time_axioms demo_property_inv(1), of 250]
  by (auto simp: demo_property_def elapsed_intervals_def)

text \<open>
  (C27) While it is due, the allocation does not depend on when blocks are produced: running it at an earlier
  block and again at a later one leaves the property as running it once at the later one. It is due before the end date of the
  property and, unless the property is approved, up to the end of its initial phase; a property that is not
  approved and gets no block between an interval and the end of that phase misses the interval
  (\<open>unapproved_depends_on_blocks\<close>). Times stay in the 32-bit range.
\<close>

theorem allocation_schedule_independent:
  assumes "fc_time L" "property_inv p" "\<not> expired p" "t2 < approval_end_date p"
    and "approval_date p \<noteq> None \<or> t2 \<le> initial_end_date p" "t1 \<le> t2" "t2 + 60 < 2 ^ 32"
  shows "(allocate_property L t1 p \<bind> allocate_property L t2) = allocate_property L t2 p"
  by (rule fc_time.allocate_compose [OF assms])

theorem allocation_schedule_independent_witness:
  "(allocate_property checked_lib 245 demo_property \<bind> allocate_property checked_lib 299) =
     allocate_property checked_lib 299 demo_property"
  using allocation_schedule_independent [OF checked.fc_time_axioms demo_property_inv(1), of 299 245]
  by (simp add: demo_property_def)

text \<open>Without a block at time 120, the end of the initial phase, a property that is not approved loses the interval that ends there.\<close>

definition demo_unapproved :: property_object where
  "demo_unapproved = demo_property\<lparr>approval_date := None, approval_counter := 0, initial_counter := 0, next_allocation_date := 120\<rparr>"

lemma unapproved_depends_on_blocks:
  "property_inv demo_unapproved" "allocate_property checked_lib 130 demo_unapproved = Some demo_unapproved"
  "\<exists>p'. (allocate_property checked_lib 120 demo_unapproved \<bind> allocate_property checked_lib 130) = Some p' \<and> initial_counter p' = 1"
proof -
  have "elapsed_intervals 120 demo_unapproved = 1" by (simp add: elapsed_intervals_def demo_unapproved_def)
  then have "allocate_loop checked_lib 120 demo_unapproved = Some (allocate_step checked_lib demo_unapproved)"
    using checked.allocate_loop_ends [of demo_unapproved 120] by (simp add: demo_unapproved_def)
  then show "\<exists>p'. (allocate_property checked_lib 120 demo_unapproved \<bind> allocate_property checked_lib 130) = Some p' \<and> initial_counter p' = 1"
    by (auto simp: allocate_property_def allocate_step_def Let_def demo_unapproved_def demo_property_def)
qed (simp_all add: demo_unapproved_def property_inv_def demo_property_def property_wf_def chain_consts allocate_property_def)

text \<open>
  At its end date a property settles: an approved one is allocated in full and backs ten
  times its appraised value, one that was never approved backs nothing, and no later block
  changes it.
\<close>

theorem matured_property:
  assumes "property_inv p" "\<not> expired p" "approval_end_date p \<le> hbt"
  shows "\<exists>p'. allocate_property L hbt p = Some p' \<and> property_inv p' \<and>
    contribution p' = (if approval_date p = None then 0 else 10 * appraised_property_value p) \<and>
    (\<forall>t. allocate_property L t p' = Some p')"
proof -
  have wf: "property_wf p" using assms(1) by (simp add: property_inv_def)
  show ?thesis
  proof (cases "approval_date p = None")
    case True
    let ?q = "p\<lparr>expired := True, initial_counter := 0, approval_counter := 0\<rparr>"
    have "property_inv ?q" using property_wf_expired(1) [OF wf] assms(1) by (simp add: property_inv_def)
    with True assms(2,3) show ?thesis by (simp add: allocate_property_def contribution_def progress_def)
  next
    case False
    let ?q = "p\<lparr>expired := True, initial_counter := initial_counter_max p, approval_counter := approval_counter_max p\<rparr>"
    have "property_inv ?q" using property_wf_expired(2) [OF wf] assms(1) by (simp add: property_inv_def)
    moreover have "progress ?q = 1" using wf by (simp add: progress_def property_wf_def)
    then have "contribution ?q = 10 * appraised_property_value p" by (simp add: contribution_def del: of_int_mult)
    moreover have "allocate_property L hbt p = Some ?q" "\<forall>t. allocate_property L t ?q = Some ?q"
      using False assms(2,3) by (auto simp: allocate_property_def)
    ultimately show ?thesis using False by auto
  qed
qed

theorem matured_property_witness:
  "(\<exists>p'. allocate_property checked_lib 301 demo_property = Some p' \<and> contribution p' = 330) \<and>
   (\<exists>p'. allocate_property checked_lib 301 demo_late = Some p' \<and> contribution p' = 0)"
  using matured_property [OF demo_property_inv(1), of 301 checked_lib] matured_property [OF demo_property_inv(2), of 301 checked_lib]
  by (auto simp: demo_late_def demo_property_def)

text \<open>
  (C26) The allocation of a block returns: with the invariant on every property, no loop runs
  forever and no \<^verbatim>\<open>boost::bad_rational\<close> escapes, and the invariant holds afterwards. The hypothesis on
  the head time excludes the last minute before the 32-bit time wraps, in which the loop's
  date never passes the head time.
\<close>

theorem smooth_allocation_returns:
  assumes "ext_laws L" "db_wf d" "props_ok d" "head_block_time d + 60 < 2 ^ 32"
  shows "\<exists>d'. update_smooth_allocation L d = Some d' \<and> db_wf d' \<and> props_ok d'"
  by (rule ext_laws.smooth_allocation_total [OF assms])

definition demo_asset :: "string \<Rightarrow> nat \<Rightarrow> asset_object" where
  "demo_asset s dyn = \<lparr>symbol = s, precision = 5, ao_issuer = 7,
     ao_options = \<lparr>max_supply = 1000000, market_fee_percent = 0, max_market_fee = 1000, issuer_permissions = 0, asset_flags = 0,
       core_exchange_rate_opt = \<lparr>base = mk_asset 1 0, quote = mk_asset 1 0\<rparr>, whitelist_authorities = [], blacklist_authorities = [],
       whitelist_markets = [], blacklist_markets = [], reward_percent = None, whitelist_market_fee_sharing = None,
       taker_fee_percent_opt = None\<rparr>,
     dynamic_asset_data_id = dyn, bitasset_data_id = None, buyback_account = None, for_liquidity_pool = None\<rparr>"

definition demo_dyn :: asset_dynamic_data_object where
  "demo_dyn = \<lparr>current_supply = 5000, confidential_supply = 0, accumulated_fees = 0, fee_pool = 0\<rparr>"

definition demo_backed :: database where
  "demo_backed = empty_database\<lparr>assets := \<lparr>rows = [(0, demo_asset ''META1'' 0)], next_instance = 1\<rparr>,
     asset_dynamic_data := \<lparr>rows = [(0, demo_dyn)], next_instance = 1\<rparr>,
     asset_limitations := \<lparr>rows = [(0, \<lparr>limit_symbol = ''META1'', alo_issuer = 7, cumulative_sell_limit = 165\<rparr>)], next_instance = 1\<rparr>,
     properties := \<lparr>rows = [(3, demo_property)], next_instance = 4\<rparr>, head_block_time := 250\<rparr>"

lemmas demo_backed_defs = demo_backed_def empty_database_def tbl_empty_def tbl_get_def tbl_find_def demo_asset_def

lemma demo_backed_ok: "db_wf demo_backed" "props_ok demo_backed"
  using demo_property_inv(1)
  by (simp_all add: demo_backed_defs db_wf_def tbl_wf_def assets_linked_def props_ok_def)

theorem smooth_allocation_returns_witness: "\<exists>d'. update_smooth_allocation checked_lib demo_backed = Some d' \<and> props_ok d'"
  using smooth_allocation_returns [OF checked_lib_laws demo_backed_ok] by (auto simp: demo_backed_def)

text \<open>
  (C12) After a block, the sell limit of every backed asset is the sum of the contributions of
  the properties that back it, rounded up property by property; the sums are those of the
  properties as the block left them. The hypotheses say that the limits name existing assets, that the
  backed symbols have a limit object (which the evaluator of the creation checks), and that the sums fit
  64 bits.
\<close>

theorem sell_limit_is_backing:
  assumes "ext_laws L" "db_wf d" "props_ok d" "head_block_time d + 60 < 2 ^ 32"
    and "\<forall>r \<in> set (rows (asset_limitations d)). find_asset_by_symbol d (limit_symbol (snd r)) \<noteq> None"
    and "\<forall>r \<in> set (rows (properties d)). find_limitation_by_symbol d (backed_by_asset_symbol (snd r)) \<noteq> None"
    and "update_smooth_allocation L d = Some d'"
    and "\<forall>s. contributed s (rows (properties d')) < 2 ^ 64"
    and "\<exists>r \<in> set (rows (properties d)). backed_by_asset_symbol (snd r) = s"
  shows "\<exists>i a. find_limitation_by_symbol d' s = Some (i, a) \<and> cumulative_sell_limit a = contributed s (rows (properties d'))"
  by (rule ext_laws.sell_limit_sum [OF assms])

definition demo_next :: property_object where
  "demo_next = demo_property\<lparr>approval_counter := 2, next_allocation_date := 300\<rparr>"

lemma demo_allocated: "allocate_rows checked_lib 250 (rows (properties demo_backed)) = Some [(3, demo_next)]"
proof -
  have "elapsed_intervals 250 demo_property = 1" by (simp add: elapsed_intervals_def demo_property_def)
  then have "allocate_loop checked_lib 250 demo_property = Some (allocate_step checked_lib demo_property)"
    using checked.allocate_loop_ends [of demo_property 250] by (simp add: demo_property_def)
  moreover have "allocate_step checked_lib demo_property = demo_next"
    by (simp add: allocate_step_def demo_next_def demo_property_def Let_def chain_consts checked_lib_simps)
  ultimately show ?thesis by (simp add: demo_backed_def allocate_property_def) (simp add: demo_property_def)
qed

theorem sell_limit_is_backing_witness:
  "\<exists>d' i a. update_smooth_allocation checked_lib demo_backed = Some d' \<and>
     find_limitation_by_symbol d' ''META1'' = Some (i, a) \<and> cumulative_sell_limit a = 248"
proof -
  have ct: "contribution demo_next = 248"
    by (simp add: contribution_def progress_def demo_next_def demo_property_def ceiling_eq_iff)
  obtain d' where d': "update_smooth_allocation checked_lib demo_backed = Some d'"
    using checked.smooth_allocation_total [OF demo_backed_ok] by (auto simp: demo_backed_def)
  let ?d1 = "demo_backed\<lparr>properties := (properties demo_backed)\<lparr>rows := [(3, demo_next)]\<rparr>\<rparr>"
  have ast: "find_asset_by_symbol demo_backed ''META1'' \<noteq> None" "find_limitation_by_symbol demo_backed ''META1'' \<noteq> None"
    by (simp_all add: demo_backed_defs find_asset_by_symbol_def find_limitation_by_symbol_def)
  have "db_wf ?d1" using demo_backed_ok(1) by (simp add: demo_backed_defs db_wf_def tbl_wf_def assets_linked_def)
  then have ps: "rows (properties d') = [(3, demo_next)]"
    using smooth_properties [OF d', of "[(3, demo_next)]"] demo_allocated ast(1) by (simp add: demo_backed_def)
  have c: "contributed s (rows (properties d')) = (if s = ''META1'' then 248 else 0)" for s
    by (simp add: ps ct contributed_def) (simp add: demo_next_def demo_property_def)
  then show ?thesis
    using sell_limit_is_backing [OF checked_lib_laws demo_backed_ok _ _ _ d', of "''META1''"] d' ast c
    by (auto simp: demo_backed_def demo_property_def)
qed


text \<open>
  Deleting a property takes exactly its contribution off the sell limit of the asset it backs,
  without wrapping, so that a limit that was the sum of the contributions before is the sum of the
  remaining ones after.
\<close>

theorem delete_keeps_backing:
  assumes "boost_rational L" "db_wf d" "props_ok d" "property_delete_apply L op d = Some d'"
    and "tbl_get (pdo_property op) (properties d) = Some p"
    and "find_limitation_by_symbol d (backed_by_asset_symbol p) = Some (i, a)"
    and "cumulative_sell_limit a = contributed (backed_by_asset_symbol p) (rows (properties d))"
    and "cumulative_sell_limit a < 2 ^ 64"
  shows "tbl_get (pdo_property op) (properties d') = None \<and>
    (\<exists>a'. find_limitation_by_symbol d' (backed_by_asset_symbol p) = Some (i, a') \<and>
      cumulative_sell_limit a' = contributed (backed_by_asset_symbol p) (rows (properties d')) \<and>
      cumulative_sell_limit a' = cumulative_sell_limit a - contribution p)"
  by (rule boost_rational.delete_limit [OF assms])

theorem delete_keeps_backing_witness:
  "\<exists>d' a. property_delete_apply checked_lib \<lparr>pdo_fee = mk_asset 0 0, pdo_property = 3, pdo_fee_paying_account = 3\<rparr> demo_backed = Some d' \<and>
     find_limitation_by_symbol d' ''META1'' = Some (0, a) \<and> cumulative_sell_limit a = 0"
proof -
  let ?op = "\<lparr>pdo_fee = mk_asset 0 0, pdo_property = 3, pdo_fee_paying_account = 3\<rparr>"
  let ?a = "\<lparr>limit_symbol = ''META1'', alo_issuer = 7, cumulative_sell_limit = 165\<rparr>"
  have ct: "contribution demo_property = 165"
    by (simp add: contribution_def progress_def demo_property_def ceiling_eq_iff)
  have sy: "backed_by_asset_symbol demo_property = ''META1''" by (simp add: demo_property_def)
  have p: "tbl_get 3 (properties demo_backed) = Some demo_property" by (simp add: demo_backed_defs)
  have l: "find_limitation_by_symbol demo_backed ''META1'' = Some (0, ?a)"
    by (simp add: find_limitation_by_symbol_def demo_backed_defs)
  have ctr: "contributed ''META1'' (rows (properties demo_backed)) = 165"
    using ct sy by (simp add: contributed_def demo_backed_def)
  have "calc_meta1_contribution checked_lib demo_property = Inr 165"
    using checked.contribution_exact [OF demo_property_wf] ct by simp
  then obtain d' where d': "property_delete_apply checked_lib ?op demo_backed = Some d'"
    using p l sy by (simp add: property_delete_apply_def)
  then show ?thesis
    using delete_keeps_backing [OF checked_lib_rational demo_backed_ok d', of demo_property 0 ?a] p l sy ct ctr by auto
qed

end
