(* ===== verification/Market_Fees.thy ===== *)
theory Market_Fees
  imports Balances
begin

text \<open>
  Market fees: \<^verbatim>\<open>calculate_percent\<close>, \<^verbatim>\<open>calculate_market_fee\<close>, \<^verbatim>\<open>pay_market_fees\<close> and \<^verbatim>\<open>pay_order\<close> of
  \<^verbatim>\<open>libraries/chain/db_market.cpp\<close>. A market fee goes to the accumulated fees of the asset, less a reward that is
  shared between the registrar and the referrer of the account; the lemmas show that nothing of it is lost.

  An asset is given by its instance number and its object, an account by its object, as the source's pointers do.
\<close>

section \<open>Operations\<close>

definition HARDFORK_1774_TIME :: time_point_sec where [chain_consts]: "HARDFORK_1774_TIME = 1629043200"

definition calculate_percent :: "share_type \<Rightarrow> uint16 \<Rightarrow> share_type option" where
  "calculate_percent v percent = do {
     let a = u128 (u128 v * percent) div GRAPHENE_100_PERCENT;
     fc_assert (a \<le> GRAPHENE_MAX_SHARE_SUPPLY);
     Some (s64 a)
   }"

definition calculate_market_fee :: "asset_id_type \<Rightarrow> asset_object \<Rightarrow> asset \<Rightarrow> bool \<Rightarrow> asset option" where
  "calculate_market_fee aid a trade_amount is_maker =
     (let opts = ao_options a; taker = taker_fee_percent_opt opts
      in if \<not> charges_market_fees a then Some (mk_asset 0 aid)
         else if is_maker \<and> market_fee_percent opts = 0 then Some (mk_asset 0 aid)
         else if \<not> is_maker \<and> taker = Some 0 then Some (mk_asset 0 aid)
         else do {
           let fee_percent = (if is_maker then market_fee_percent opts
             else case taker of Some p \<Rightarrow> p | None \<Rightarrow> market_fee_percent opts);
           v \<leftarrow> calculate_percent (amount trade_amount) fee_percent;
           Some (mk_asset (if v > max_market_fee opts then max_market_fee opts else v) aid)
         })"

definition is_rewards_allowed :: "account_object option \<Rightarrow> asset_object \<Rightarrow> bool" where
  "is_rewards_allowed trader a =
     (case trader of
        None \<Rightarrow> False
      | Some s \<Rightarrow>
          (case whitelist_market_fee_sharing (ao_options a) of
             None \<Rightarrow> True
           | Some wl \<Rightarrow> wl = [] \<or> registrar s \<in> set wl))"

text \<open>What the referrer gets of the reward; the result holds what is left for the registrar.\<close>

definition pay_referrer ::
  "fc_lib \<Rightarrow> account_object \<Rightarrow> asset_id_type \<Rightarrow> asset_object \<Rightarrow> asset \<Rightarrow> database \<Rightarrow> (asset \<times> database) option" where
  "pay_referrer L s aid a reward d =
     (if referrer s \<noteq> registrar s then do {
        v \<leftarrow> calculate_percent (amount reward) (referrer_rewards_percentage s);
        ok \<leftarrow> (if v > 0 then do {
                ref \<leftarrow> tbl_get (referrer s) (accounts d);
                Some (is_authorized_asset ref aid a)
              } else Some False);
        if ok then do {
          fc_assert (v \<le> amount reward);
          rr \<leftarrow> asset_sub L reward (mk_asset v aid);
          d1 \<leftarrow> deposit_market_fee_vesting_balance L (referrer s) (mk_asset v aid) d;
          Some (rr, d1)
        } else Some (reward, d)
      } else Some (reward, d))"

definition pay_reward :: "fc_lib \<Rightarrow> account_object \<Rightarrow> asset_id_type \<Rightarrow> asset_object \<Rightarrow> asset \<Rightarrow> database \<Rightarrow> database option" where
  "pay_reward L s aid a reward d = do {
     (registrar_reward, d1) \<leftarrow> pay_referrer L s aid a reward d;
     if amount registrar_reward > 0 then deposit_market_fee_vesting_balance L (registrar s) registrar_reward d1
     else Some d1
   }"

text \<open>The part of \<^verbatim>\<open>pay_market_fees\<close> that determines and pays the reward.\<close>

definition market_fee_reward ::
  "fc_lib \<Rightarrow> account_object option \<Rightarrow> asset_id_type \<Rightarrow> asset_object \<Rightarrow> asset \<Rightarrow> database \<Rightarrow> (asset \<times> database) option" where
  "market_fee_reward L trader aid a issuer_fees d =
     (case (if is_rewards_allowed trader a then trader else None, reward_percent (ao_options a)) of
        (Some s, Some rp) \<Rightarrow>
          (if rp = 0 then Some (mk_asset 0 aid, d)
           else do {
             reward_value \<leftarrow> calculate_percent (amount issuer_fees) rp;
             ok \<leftarrow> (if reward_value > 0 then do {
                     reg \<leftarrow> tbl_get (registrar s) (accounts d);
                     Some (is_authorized_asset reg aid a)
                   } else Some False);
             if ok then do {
               let reward = mk_asset reward_value aid;
               (if head_block_time d < HARDFORK_1774_TIME
                then do { b \<leftarrow> asset_lt reward issuer_fees; fc_assert b }
                else do { b \<leftarrow> asset_le reward issuer_fees; fc_assert b });
               d1 \<leftarrow> pay_reward L s aid a reward d;
               Some (reward, d1)
             } else Some (mk_asset 0 aid, d)
           })
      | _ \<Rightarrow> Some (mk_asset 0 aid, d))"

definition pay_market_fees ::
  "fc_lib \<Rightarrow> account_object option \<Rightarrow> asset_id_type \<Rightarrow> asset_object \<Rightarrow> asset \<Rightarrow> bool \<Rightarrow> asset option \<Rightarrow> database
    \<Rightarrow> (asset \<times> database) option" where
  "pay_market_fees L trader aid a receives is_maker calculated d = do {
     issuer_fees \<leftarrow> (case calculated of Some f \<Rightarrow> Some f | None \<Rightarrow> calculate_market_fee aid a receives is_maker);
     le \<leftarrow> asset_le issuer_fees receives;
     fc_assert le;
     d' \<leftarrow> (if amount issuer_fees > 0 then do {
         (reward, d1) \<leftarrow> market_fee_reward L trader aid a issuer_fees d;
         if amount issuer_fees > amount reward then do {
           dd \<leftarrow> tbl_get (dynamic_asset_data_id a) (asset_dynamic_data d1);
           x \<leftarrow> safe_sub L (amount issuer_fees) (amount reward);
           s \<leftarrow> safe_add L (accumulated_fees dd) x;
           Some (d1\<lparr>asset_dynamic_data := tbl_modify (dynamic_asset_data_id a) (\<lambda>o'. o'\<lparr>accumulated_fees := s\<rparr>) (asset_dynamic_data d1)\<rparr>)
         } else Some d1
       } else Some d);
     Some (issuer_fees, d')
   }"

definition pay_order :: "fc_lib \<Rightarrow> nat \<Rightarrow> account_object \<Rightarrow> asset \<Rightarrow> asset \<Rightarrow> database \<Rightarrow> database option" where
  "pay_order L receiver_id receiver receives pays d = do {
     b \<leftarrow> tbl_get (statistics receiver) (account_statistics d);
     c \<leftarrow> (if asset_id pays = 0 then safe_sub L (total_core_in_orders b) (amount pays) else Some (total_core_in_orders b));
     adjust_balance L receiver_id receives
       (d\<lparr>account_statistics := tbl_modify (statistics receiver) (\<lambda>b. b\<lparr>total_core_in_orders := c\<rparr>) (account_statistics d)\<rparr>)
   }"

section \<open>The amount of a fee\<close>

lemma calculate_percent_exact:
  assumes "0 \<le> v" "v \<le> GRAPHENE_MAX_SHARE_SUPPLY" "0 \<le> p" "p \<le> GRAPHENE_100_PERCENT"
  shows "calculate_percent v p = Some (v * p div GRAPHENE_100_PERCENT)"
    and "0 \<le> v * p div GRAPHENE_100_PERCENT" "v * p div GRAPHENE_100_PERCENT \<le> v"
proof -
  have vp: "0 \<le> v * p" "v * p \<le> v * 10000" using assms by (auto simp: chain_consts intro: mult_left_mono)
  then have "v * p div 10000 \<le> v" "0 \<le> v * p div 10000"
    using zdiv_mono1 [of "v * p" "v * 10000" 10000] by (simp_all add: pos_imp_zdiv_nonneg_iff)
  then show "0 \<le> v * p div GRAPHENE_100_PERCENT" "v * p div GRAPHENE_100_PERCENT \<le> v" by (simp_all add: chain_consts)
  with vp assms show "calculate_percent v p = Some (v * p div GRAPHENE_100_PERCENT)"
    by (simp add: calculate_percent_def chain_consts)
qed

text \<open>The percentages and the cap of an asset's options, as their validation leaves them.\<close>

definition fee_options_ok :: "asset_options \<Rightarrow> bool" where
  "fee_options_ok a \<longleftrightarrow>
     0 \<le> market_fee_percent a \<and> market_fee_percent a \<le> GRAPHENE_100_PERCENT \<and> 0 \<le> max_market_fee a \<and>
     (case taker_fee_percent_opt a of None \<Rightarrow> True | Some p \<Rightarrow> 0 \<le> p \<and> p \<le> GRAPHENE_100_PERCENT)"

lemma market_fee_id: "calculate_market_fee aid a x m = Some f \<Longrightarrow> asset_id f = aid"
  by (auto simp: calculate_market_fee_def Let_def opt_bind split: if_splits)

lemma market_fee_bounds:
  assumes "fee_options_ok (ao_options a)" "0 \<le> amount x" "amount x \<le> GRAPHENE_MAX_SHARE_SUPPLY"
  shows "\<exists>f. calculate_market_fee aid a x m = Some f \<and> asset_id f = aid \<and> 0 \<le> amount f \<and> amount f \<le> amount x"
proof -
  let ?o = "ao_options a"
  define p where "p = (if m then market_fee_percent ?o else case taker_fee_percent_opt ?o of Some p \<Rightarrow> p | None \<Rightarrow> market_fee_percent ?o)"
  have "0 \<le> p" "p \<le> GRAPHENE_100_PERCENT"
    using assms(1) by (auto simp: p_def fee_options_ok_def split: option.splits)
  note pc = calculate_percent_exact [OF assms(2,3) this]
  have "0 \<le> max_market_fee ?o" using assms(1) by (simp add: fee_options_ok_def)
  then show ?thesis
    using pc assms(2) by (auto simp: calculate_market_fee_def Let_def p_def [symmetric])
qed

lemma calculate_percent_nonneg: "calculate_percent v p = Some r \<Longrightarrow> 0 \<le> r"
proof -
  assume "calculate_percent v p = Some r"
  then have "r = s64 (u128 (u128 v * p) div 10000)" "u128 (u128 v * p) div 10000 \<le> 9000000000000000000"
    by (simp_all add: calculate_percent_def Let_def chain_consts)
  moreover have "0 \<le> u128 (u128 v * p) div 10000" by (simp add: pos_imp_zdiv_nonneg_iff)
  ultimately show ?thesis by simp
qed

lemma market_fee_nonneg:
  "calculate_market_fee aid a x m = Some f \<Longrightarrow> 0 \<le> max_market_fee (ao_options a) \<Longrightarrow> 0 \<le> amount f"
  by (auto simp: calculate_market_fee_def Let_def opt_bind dest: calculate_percent_nonneg split: if_splits)

text \<open>The comparisons and the difference with the asset identities oriented one way, so that they do not
  rewrite each other.\<close>

lemma asset_cmp_Some:
  "asset_lt a b = Some r \<longleftrightarrow> asset_id a = asset_id b \<and> r = (amount a < amount b)"
  "asset_le a b = Some r \<longleftrightarrow> asset_id a = asset_id b \<and> r = (amount a \<le> amount b)"
  by (auto simp: asset_lt_def asset_le_def)

context fc_safe
begin

lemma asset_sub_Some:
  "asset_sub L a b = Some c \<longleftrightarrow> asset_id b = asset_id a \<and> c = mk_asset (amount a - amount b) (asset_id a) \<and> in_s64 (amount a - amount b)"
  by (auto simp: asset_sub_def opt_bind safe_Some)

end

section \<open>The ledger of the fees\<close>

lemma get_dynamic_data_vesting [simp]:
  "get_dynamic_data (d\<lparr>vesting_balances := t\<rparr>) a = get_dynamic_data d a"
  "supply_of a (d\<lparr>vesting_balances := t\<rparr>) = supply_of a d"
  by (simp_all add: get_dynamic_data_def supply_of_def)

context fc_safe
begin

lemma pay_referrer_effect:
  assumes wf: "db_wf d" and run: "pay_referrer L s aid a r d = Some (rr, d')" and r: "asset_id r = aid" "0 < amount r"
  shows "db_wf d'" "gap b d' = gap b d + of_asset b r - of_asset b rr" "d' = d\<lparr>vesting_balances := vesting_balances d'\<rparr>"
    "0 \<le> amount rr"
proof -
  have "rr = r \<and> d' = d \<or> (\<exists>v. deposit_market_fee_vesting_balance L (referrer s) (mk_asset v aid) d = Some d' \<and>
      v \<le> amount r \<and> rr = mk_asset (amount r - v) aid)"
    using run r(1) unfolding pay_referrer_def opt_bind asset_sub_def safe_Some
    by (cases "referrer s = registrar s") (auto simp: opt_bind safe_Some split: if_splits)
  then have "db_wf d' \<and> gap b d' = gap b d + of_asset b r - of_asset b rr \<and> d' = d\<lparr>vesting_balances := vesting_balances d'\<rparr> \<and> 0 \<le> amount rr"
  proof (elim disjE exE conjE)
    fix v
    assume v: "deposit_market_fee_vesting_balance L (referrer s) (mk_asset v aid) d = Some d'" "v \<le> amount r"
      "rr = mk_asset (amount r - v) aid"
    show ?thesis
      using deposit_market_fee_effect [OF wf v(1)] v(2,3) r by (simp add: of_asset_def)
  qed (use wf r in simp)
  then show "db_wf d'" "gap b d' = gap b d + of_asset b r - of_asset b rr" "d' = d\<lparr>vesting_balances := vesting_balances d'\<rparr>"
    "0 \<le> amount rr" by auto
qed

lemma pay_reward_effect:
  assumes wf: "db_wf d" and run: "pay_reward L s aid a r d = Some d'" and r: "asset_id r = aid" "0 < amount r"
  shows "db_wf d'" "gap b d' = gap b d + of_asset b r" "d' = d\<lparr>vesting_balances := vesting_balances d'\<rparr>"
proof -
  obtain rr d1 where rr: "pay_referrer L s aid a r d = Some (rr, d1)"
    and d': "(if amount rr > 0 then deposit_market_fee_vesting_balance L (registrar s) rr d1 else Some d1) = Some d'"
    using run by (auto simp: pay_reward_def opt_bind)
  note e1 = pay_referrer_effect [OF wf rr r]
  have "db_wf d' \<and> gap b d' = gap b d + of_asset b r \<and> d' = d\<lparr>vesting_balances := vesting_balances d'\<rparr>"
  proof (cases "amount rr > 0")
    case True
    then have "deposit_market_fee_vesting_balance L (registrar s) rr d1 = Some d'" using d' by simp
    note e2 = deposit_market_fee_effect [OF e1(1) this]
    have "d' = d\<lparr>vesting_balances := vesting_balances d'\<rparr>" by (subst e2(3), subst e1(3)) simp
    with e2(1) e2(2) [of b] e1(2) [of b] show ?thesis by simp
  next
    case False
    with e1(1,3,4) e1(2) [of b] d' show ?thesis by (simp add: of_asset_def)
  qed
  then show "db_wf d'" "gap b d' = gap b d + of_asset b r" "d' = d\<lparr>vesting_balances := vesting_balances d'\<rparr>" by auto
qed

lemma market_fee_reward_effect:
  assumes wf: "db_wf d" and run: "market_fee_reward L trader aid a fees d = Some (r, d')"
  shows "db_wf d'" "gap b d' = gap b d + of_asset b r" "d' = d\<lparr>vesting_balances := vesting_balances d'\<rparr>"
    "asset_id r = aid" "0 \<le> amount r" "0 < amount fees \<Longrightarrow> amount r \<le> amount fees"
proof -
  have "r = mk_asset 0 aid \<and> d' = d \<or>
    (\<exists>s v. pay_reward L s aid a r d = Some d' \<and> r = mk_asset v aid \<and> 0 < v \<and> v \<le> amount fees)"
    using run unfolding market_fee_reward_def
    by (auto simp: opt_bind Let_def asset_lt_def asset_le_def split: if_splits option.splits)
  then have "db_wf d' \<and> gap b d' = gap b d + of_asset b r \<and> d' = d\<lparr>vesting_balances := vesting_balances d'\<rparr> \<and>
    asset_id r = aid \<and> 0 \<le> amount r \<and> (0 < amount fees \<longrightarrow> amount r \<le> amount fees)"
  proof (elim disjE exE conjE)
    fix s v
    assume r: "pay_reward L s aid a r d = Some d'" "r = mk_asset v aid" "0 < v" "v \<le> amount fees"
    have "asset_id r = aid" "0 < amount r" using r by simp_all
    from pay_reward_effect [OF wf r(1) this] this r(2,4) show ?thesis by simp
  qed (use wf in simp)
  then show "db_wf d'" "gap b d' = gap b d + of_asset b r" "d' = d\<lparr>vesting_balances := vesting_balances d'\<rparr>"
    "asset_id r = aid" "0 \<le> amount r" "0 < amount fees \<Longrightarrow> amount r \<le> amount fees" by auto
qed

end


text \<open>The operations below leave the assets, and with them the recorded supplies, alone.\<close>

definition same_supplies :: "database \<Rightarrow> database \<Rightarrow> bool" where
  "same_supplies d d' \<longleftrightarrow> assets d' = assets d \<and> (\<forall>b. supply_of b d' = supply_of b d)"

lemma same_supplies_refl [simp]: "same_supplies d d"
  by (simp add: same_supplies_def)

lemma same_supplies_trans: "same_supplies d d1 \<Longrightarrow> same_supplies d1 d2 \<Longrightarrow> same_supplies d d2"
  by (simp add: same_supplies_def)

lemma same_supplies_upd [simp]:
  "same_supplies d (d\<lparr>account_balances := t1\<rparr>)" "same_supplies d (d\<lparr>vesting_balances := t2\<rparr>)"
  "same_supplies d (d\<lparr>account_statistics := t3\<rparr>)" "same_supplies d (d\<lparr>limit_orders := t4\<rparr>)"
  "same_supplies d (d\<lparr>liquidity_pools := t5\<rparr>)" "same_supplies d (d\<lparr>htlcs := t6\<rparr>)" "same_supplies d (d\<lparr>accounts := t7\<rparr>)"
  by (simp_all add: same_supplies_def supply_of_def get_dynamic_data_def)

context fc_safe
begin

lemma accumulate_fees_effect:
  fixes x :: int
  assumes wf: "db_wf d" and a: "tbl_get aid (assets d) = Some a" "tbl_get (dynamic_asset_data_id a) (asset_dynamic_data d) = Some dd"
  defines "d' \<equiv> d\<lparr>asset_dynamic_data :=
    tbl_modify (dynamic_asset_data_id a) (\<lambda>o'. o'\<lparr>accumulated_fees := accumulated_fees dd + x\<rparr>) (asset_dynamic_data d)\<rparr>"
  shows "db_wf d'" "gap b d' = gap b d + of_asset b (mk_asset x aid)" "same_supplies d d'"
proof -
  have g: "get_dynamic_data d aid = Some (dynamic_asset_data_id a, dd)" using a by (simp add: get_dynamic_data_def)
  note u = dynamic_data_update [OF wf g, where f = "\<lambda>o'. o'\<lparr>accumulated_fees := accumulated_fees dd + x\<rparr>", folded d'_def]
  show "db_wf d'" by (rule u(1))
  show "gap b d' = gap b d + of_asset b (mk_asset x aid)" using u(2) [of b] by auto
  have "supply_of b d' = supply_of b d" for b
    using u(3) u(4) [of b] g by (cases "b = aid") (simp_all add: supply_of_def)
  then show "same_supplies d d'" by (simp add: same_supplies_def d'_def)
qed

lemma pay_market_fees_effect:
  assumes wf: "db_wf d" and a: "tbl_get aid (assets d) = Some a"
    and run: "pay_market_fees L trader aid a x m calc d = Some (f, d')" and f: "asset_id f = aid" "0 \<le> amount f"
  shows "db_wf d'" "gap b d' = gap b d + of_asset b f" "same_supplies d d'"
    "d' = d\<lparr>vesting_balances := vesting_balances d', asset_dynamic_data := asset_dynamic_data d'\<rparr>"
    "asset_id x = aid" "amount f \<le> amount x"
proof -
  have le: "asset_id x = aid" "amount f \<le> amount x"
    using run f(1) by (auto simp: pay_market_fees_def opt_bind asset_le_def asset_lt_def)
  have "db_wf d' \<and> gap b d' = gap b d + of_asset b f \<and> same_supplies d d' \<and>
    d' = d\<lparr>vesting_balances := vesting_balances d', asset_dynamic_data := asset_dynamic_data d'\<rparr>"
  proof (cases "amount f > 0")
    case True
    with run obtain r d1 where r: "market_fee_reward L trader aid a f d = Some (r, d1)"
      and d': "(if amount f > amount r then do {
           dd \<leftarrow> tbl_get (dynamic_asset_data_id a) (asset_dynamic_data d1);
           x \<leftarrow> safe_sub L (amount f) (amount r);
           s \<leftarrow> safe_add L (accumulated_fees dd) x;
           Some (d1\<lparr>asset_dynamic_data := tbl_modify (dynamic_asset_data_id a) (\<lambda>o'. o'\<lparr>accumulated_fees := s\<rparr>) (asset_dynamic_data d1)\<rparr>)
         } else Some d1) = Some d'"
      by (auto simp: pay_market_fees_def opt_bind)
    note e = market_fee_reward_effect [OF wf r]
    have s1: "same_supplies d d1" by (subst e(3)) simp
    have a1: "tbl_get aid (assets d1) = Some a" using a s1 by (simp add: same_supplies_def)
    show ?thesis
    proof (cases "amount f > amount r")
      case True
      with d' obtain dd where dd: "tbl_get (dynamic_asset_data_id a) (asset_dynamic_data d1) = Some dd"
        and d'': "d' = d1\<lparr>asset_dynamic_data := tbl_modify (dynamic_asset_data_id a)
          (\<lambda>o'. o'\<lparr>accumulated_fees := accumulated_fees dd + (amount f - amount r)\<rparr>) (asset_dynamic_data d1)\<rparr>"
        by (auto simp: opt_bind safe_Some)
      note u = accumulate_fees_effect [OF e(1) a1 dd, where x = "amount f - amount r", folded d'']
      have "d' = d\<lparr>vesting_balances := vesting_balances d', asset_dynamic_data := asset_dynamic_data d'\<rparr>"
        unfolding d'' by (subst e(3), subst (2) e(3)) simp
      moreover have "gap b d' = gap b d + of_asset b f"
        using u(2) [of b] e(2) [of b] e(4) f(1) by (simp add: of_asset_def)
      ultimately show ?thesis using u(1,3) s1 by (simp add: same_supplies_trans)
    next
      case False
      with d' e(6) True have eq: "d' = d1" "amount r = amount f" by auto
      have "d1 = d\<lparr>vesting_balances := vesting_balances d1, asset_dynamic_data := asset_dynamic_data d1\<rparr>"
        by (subst e(3), subst (2) e(3)) simp
      then show ?thesis using eq e(1,4) e(2) [of b] f(1) s1 by (simp add: of_asset_def)
    qed
  next
    case False
    with run f wf show ?thesis by (auto simp: pay_market_fees_def opt_bind of_asset_def)
  qed
  with le show "db_wf d'" "gap b d' = gap b d + of_asset b f" "same_supplies d d'"
    "d' = d\<lparr>vesting_balances := vesting_balances d', asset_dynamic_data := asset_dynamic_data d'\<rparr>"
    "asset_id x = aid" "amount f \<le> amount x" by auto
qed

lemma pay_order_effect:
  assumes wf: "db_wf d" and run: "pay_order L rid r x pays d = Some d'"
  shows "db_wf d'" "gap b d' = gap b d + of_asset b x" "same_supplies d d'"
    "d' = d\<lparr>account_statistics := account_statistics d', account_balances := account_balances d'\<rparr>"
proof -
  obtain s c where s: "tbl_get (statistics r) (account_statistics d) = Some s"
    and adj: "adjust_balance L rid x (d\<lparr>account_statistics := tbl_modify (statistics r) (\<lambda>b. b\<lparr>total_core_in_orders := c\<rparr>)
      (account_statistics d)\<rparr>) = Some d'"
    using run by (auto simp: pay_order_def opt_bind)
  let ?d1 = "d\<lparr>account_statistics := tbl_modify (statistics r) (\<lambda>b. b\<lparr>total_core_in_orders := c\<rparr>) (account_statistics d)\<rparr>"
  have wf1: "db_wf ?d1" using wf by (simp add: db_wf_upd db_wf_tables tbl_wf_ops)
  have g1: "gap b ?d1 = gap b d" using wf s by (simp add: gap_upd tbl_sum_modify db_wf_tables pending_of_def)
  show "db_wf d'" by (rule adjust_balance_effect(1) [OF wf1 adj])
  show "gap b d' = gap b d + of_asset b x" using adjust_balance_effect(2) [OF wf1 adj] g1 by simp
  show "d' = d\<lparr>account_statistics := account_statistics d', account_balances := account_balances d'\<rparr>"
    by (subst adjust_balance_frame [OF adj], subst (2) adjust_balance_frame [OF adj]) simp
  then show "same_supplies d d'" by (metis same_supplies_upd(1,3) same_supplies_trans)
qed

end

section \<open>Properties\<close>

text \<open>
  Market fees are paid in full: what an asset's market fee takes from a trade is found, to the last
  unit, in the accumulated fees of the asset and in the vesting balances of the registrar and the referrer;
  the fee is never more than the amount traded and the recorded supplies do not change.
\<close>

theorem market_fee_conserves:
  assumes "fc_safe L" "db_wf d" "tbl_get aid (assets d) = Some a" "fee_options_ok (ao_options a)"
    and "0 \<le> amount x" "amount x \<le> GRAPHENE_MAX_SHARE_SUPPLY"
    and "pay_market_fees L trader aid a x is_maker None d = Some (f, d')"
  shows "db_wf d' \<and> (\<forall>b. gap b d' = gap b d + of_asset b f) \<and> (\<forall>b. supply_of b d' = supply_of b d) \<and>
    calculate_market_fee aid a x is_maker = Some f \<and> 0 \<le> amount f \<and> amount f \<le> amount x"
proof -
  obtain g where g: "calculate_market_fee aid a x is_maker = Some g" "asset_id g = aid" "0 \<le> amount g" "amount g \<le> amount x"
    using market_fee_bounds [OF assms(4-6)] by blast
  have f: "f = g" using assms(7) g(1) by (auto simp: pay_market_fees_def opt_bind)
  show ?thesis
    using fc_safe.pay_market_fees_effect [OF assms(1-3,7)] f g by (simp add: same_supplies_def)
qed

definition demo_fee_asset :: asset_object where
  "demo_fee_asset = \<lparr>symbol = ''FEE'', precision = 5, ao_issuer = 7,
     ao_options = \<lparr>max_supply = 1000000, market_fee_percent = 100, max_market_fee = 1000, issuer_permissions = 1, asset_flags = 1,
       core_exchange_rate_opt = mk_price (mk_asset 1 0) (mk_asset 1 0), whitelist_authorities = [], blacklist_authorities = [],
       whitelist_markets = [], blacklist_markets = [], reward_percent = Some 2000, whitelist_market_fee_sharing = None,
       taker_fee_percent_opt = None\<rparr>,
     dynamic_asset_data_id = 0, bitasset_data_id = None, buyback_account = None, for_liquidity_pool = None\<rparr>"

definition demo_fees :: database where
  "demo_fees = demo_accounts\<lparr>assets := \<lparr>rows = [(1, demo_fee_asset)], next_instance = 2\<rparr>,
     asset_dynamic_data := \<lparr>rows = [(0, \<lparr>current_supply = 100, confidential_supply = 0, accumulated_fees = 0, fee_pool = 0\<rparr>)],
       next_instance = 1\<rparr>\<rparr>"

lemma demo_fees_wf: "db_wf demo_fees"
  by (simp add: demo_fees_def demo_accounts_def demo_balances_def empty_database_def db_wf_def tbl_wf_def tbl_empty_def
      assets_linked_def tbl_get_def demo_fee_asset_def)

theorem market_fee_conserves_witness:
  "\<exists>d'. pay_market_fees checked_lib (Some demo_account) 1 demo_fee_asset (mk_asset 50000 1) True None demo_fees =
     Some (mk_asset 500 1, d') \<and> gap 1 d' = gap 1 demo_fees + 500 \<and> supply_of 1 d' = 100"
proof -
  have g: "tbl_get 1 (assets demo_fees) = Some demo_fee_asset" by (simp add: demo_fees_def tbl_get_def)
  have "fee_options_ok (ao_options demo_fee_asset)" by (simp add: fee_options_ok_def demo_fee_asset_def chain_consts)
  note th = market_fee_conserves [OF checked_lib_safe demo_fees_wf g this, of "mk_asset 50000 1"]
  have "\<exists>d'. pay_market_fees checked_lib (Some demo_account) 1 demo_fee_asset (mk_asset 50000 1) True None demo_fees =
     Some (mk_asset 500 1, d')"
    by (simp add: pay_market_fees_def calculate_market_fee_def demo_fee_asset_def charges_market_fees_def calculate_percent_def
        chain_consts asset_le_def asset_lt_def market_fee_reward_def is_rewards_allowed_def demo_account_def demo_fees_def
        demo_accounts_def tbl_get_def is_authorized_asset_def pay_reward_def pay_referrer_def demo_balances_def
        deposit_market_fee_vesting_balance_def tbl_find_def tbl_empty_def empty_database_def checked_lib_simps in_s64_def Let_def)
  moreover have "supply_of 1 demo_fees = 100"
    by (simp add: supply_of_def get_dynamic_data_def demo_fees_def tbl_get_def demo_fee_asset_def)
  ultimately show ?thesis using th by (auto simp: chain_consts)
qed

end
