(* ===== verification/Liquidity_Pool.thy ===== *)
theory Liquidity_Pool
  imports Market_Fees
begin

text \<open>
  Liquidity pools: the operations of \<^verbatim>\<open>libraries/protocol/liquidity_pool.cpp\<close> and their evaluators in
  \<^verbatim>\<open>libraries/chain/liquidity_pool_evaluator.cpp\<close>. What \<^verbatim>\<open>do_evaluate\<close> stores in members of the evaluator for
  \<^verbatim>\<open>do_apply\<close> is the result of the first function and an argument of the second. The amounts are computed in
  functions of their own, which the evaluators call.

  The fee-paying account is the account of the operation in all five operations.
\<close>

section \<open>Operations\<close>

definition HARDFORK_LIQUIDITY_POOL_TIME :: time_point_sec where [chain_consts]: "HARDFORK_LIQUIDITY_POOL_TIME = 1629043200"

record liquidity_pool_create_operation =
  lpc_fee :: asset
  lpc_account :: account_id_type
  lpc_asset_a :: asset_id_type
  lpc_asset_b :: asset_id_type
  lpc_share_asset :: asset_id_type
  lpc_taker_fee_percent :: uint16
  lpc_withdrawal_fee_percent :: uint16

record liquidity_pool_delete_operation =
  lpd_fee :: asset
  lpd_account :: account_id_type
  lpd_pool :: nat

record liquidity_pool_deposit_operation =
  lpp_fee :: asset
  lpp_account :: account_id_type
  lpp_pool :: nat
  amount_a :: asset
  amount_b :: asset

record liquidity_pool_withdraw_operation =
  lpw_fee :: asset
  lpw_account :: account_id_type
  lpw_pool :: nat
  share_amount :: asset

record liquidity_pool_exchange_operation =
  lpx_fee :: asset
  lpx_account :: account_id_type
  lpx_pool :: nat
  lpx_amount_to_sell :: asset
  lpx_min_to_receive :: asset

definition lp_create_validate :: "liquidity_pool_create_operation \<Rightarrow> unit option" where
  "lp_create_validate op = do {
     fc_assert (amount (lpc_fee op) \<ge> 0);
     fc_assert (lpc_asset_a op < lpc_asset_b op);
     fc_assert (lpc_asset_a op \<noteq> lpc_share_asset op \<and> lpc_asset_b op \<noteq> lpc_share_asset op);
     fc_assert (lpc_taker_fee_percent op \<le> GRAPHENE_100_PERCENT);
     fc_assert (lpc_withdrawal_fee_percent op \<le> GRAPHENE_100_PERCENT)
   }"

definition lp_delete_validate :: "liquidity_pool_delete_operation \<Rightarrow> unit option" where
  "lp_delete_validate op = fc_assert (amount (lpd_fee op) \<ge> 0)"

definition lp_deposit_validate :: "liquidity_pool_deposit_operation \<Rightarrow> unit option" where
  "lp_deposit_validate op = do {
     fc_assert (amount (lpp_fee op) \<ge> 0);
     fc_assert (amount (amount_a op) > 0 \<and> amount (amount_b op) > 0);
     fc_assert (asset_id (amount_a op) < asset_id (amount_b op))
   }"

definition lp_withdraw_validate :: "liquidity_pool_withdraw_operation \<Rightarrow> unit option" where
  "lp_withdraw_validate op = do {
     fc_assert (amount (lpw_fee op) \<ge> 0);
     fc_assert (amount (share_amount op) > 0)
   }"

definition lp_exchange_validate :: "liquidity_pool_exchange_operation \<Rightarrow> unit option" where
  "lp_exchange_validate op = do {
     fc_assert (amount (lpx_fee op) \<ge> 0);
     fc_assert (amount (lpx_amount_to_sell op) > 0);
     fc_assert (amount (lpx_min_to_receive op) > 0);
     fc_assert (asset_id (lpx_amount_to_sell op) \<noteq> asset_id (lpx_min_to_receive op))
   }"

definition update_virtual_value :: "liquidity_pool_object \<Rightarrow> liquidity_pool_object" where
  "update_virtual_value p = p\<lparr>virtual_value := u128 (u128 (balance_a p) * balance_b p)\<rparr>"

section \<open>Creation and deletion\<close>

definition lp_create_evaluate :: "liquidity_pool_create_operation \<Rightarrow> database \<Rightarrow> unit option" where
  "lp_create_evaluate op d = do {
     fc_assert (head_block_time d \<ge> HARDFORK_LIQUIDITY_POOL_TIME);
     _ \<leftarrow> tbl_get (lpc_asset_a op) (assets d);
     _ \<leftarrow> tbl_get (lpc_asset_b op) (assets d);
     sa \<leftarrow> tbl_get (lpc_share_asset op) (assets d);
     fc_assert (ao_issuer sa = lpc_account op);
     fc_assert (\<not> is_market_issued sa);
     fc_assert (\<not> is_liquidity_pool_share_asset sa);
     (i, dd) \<leftarrow> get_dynamic_data d (lpc_share_asset op);
     fc_assert (current_supply dd = 0)
   }"

definition lp_create_apply :: "liquidity_pool_create_operation \<Rightarrow> database \<Rightarrow> (nat \<times> database) option" where
  "lp_create_apply op d =
     (let (i, t) = tbl_create \<lparr>asset_a = lpc_asset_a op, asset_b = lpc_asset_b op, balance_a = 0, balance_b = 0,
            share_asset = lpc_share_asset op, lp_taker_fee_percent = lpc_taker_fee_percent op,
            withdrawal_fee_percent = lpc_withdrawal_fee_percent op, virtual_value = 0\<rparr> (liquidity_pools d)
      in Some (i, d\<lparr>liquidity_pools := t,
           assets := tbl_modify (lpc_share_asset op) (\<lambda>a. a\<lparr>for_liquidity_pool := Some i\<rparr>) (assets d)\<rparr>))"

definition lp_delete_evaluate :: "liquidity_pool_delete_operation \<Rightarrow> database \<Rightarrow> liquidity_pool_object option" where
  "lp_delete_evaluate op d = do {
     p \<leftarrow> tbl_get (lpd_pool op) (liquidity_pools d);
     fc_assert (balance_a p = 0 \<and> balance_b p = 0);
     sa \<leftarrow> tbl_get (share_asset p) (assets d);
     fc_assert (ao_issuer sa = lpd_account op);
     Some p
   }"

definition lp_delete_apply :: "liquidity_pool_delete_operation \<Rightarrow> liquidity_pool_object \<Rightarrow> database \<Rightarrow> database option" where
  "lp_delete_apply op p d =
     Some (d\<lparr>assets := tbl_modify (share_asset p) (\<lambda>a. a\<lparr>for_liquidity_pool := None\<rparr>) (assets d),
             liquidity_pools := tbl_remove (lpd_pool op) (liquidity_pools d)\<rparr>)"

definition lp_create :: "liquidity_pool_create_operation \<Rightarrow> database \<Rightarrow> (nat \<times> database) option" where
  "lp_create op d = do {
     lp_create_validate op;
     lp_create_evaluate op d;
     lp_create_apply op d
   }"

definition lp_delete :: "liquidity_pool_delete_operation \<Rightarrow> database \<Rightarrow> database option" where
  "lp_delete op d = do {
     lp_delete_validate op;
     p \<leftarrow> lp_delete_evaluate op d;
     lp_delete_apply op p d
   }"

section \<open>Deposits\<close>

text \<open>What the pool receives of each asset and the shares that are issued.\<close>

definition deposit_amounts ::
  "liquidity_pool_object \<Rightarrow> share_type \<Rightarrow> share_type \<Rightarrow> share_type \<Rightarrow> share_type \<Rightarrow> (share_type \<times> share_type \<times> share_type) option" where
  "deposit_amounts p supply max_sup amt_a amt_b =
     (if balance_a p = 0 then do {
        let share = max amt_a amt_b;
        fc_assert (share \<le> max_sup);
        Some (amt_a, amt_b, share)
      } else do {
        let max128 = u128 (max_sup - supply);
        let supply128 = u128 supply;
        let new_supply_if_a = u128 (supply128 * amt_a) div balance_a p;
        let new_supply_if_b = u128 (supply128 * amt_b) div balance_b p;
        let new_supply = min (min new_supply_if_a new_supply_if_b) max128;
        fc_assert (new_supply > 0);
        let a128 = u128 (u128 (u128 (new_supply * balance_a p) + supply128) - 1) div supply128;
        fc_assert (a128 \<le> u128 amt_a);
        let b128 = u128 (u128 (u128 (new_supply * balance_b p) + supply128) - 1) div supply128;
        fc_assert (b128 \<le> u128 amt_b);
        Some (s64 a128, s64 b128, s64 new_supply)
      })"

definition lp_deposit_evaluate :: "fc_lib \<Rightarrow> liquidity_pool_deposit_operation \<Rightarrow> database \<Rightarrow> (asset \<times> asset \<times> asset) option" where
  "lp_deposit_evaluate L op d = do {
     acct \<leftarrow> tbl_get (lpp_account op) (accounts d);
     p \<leftarrow> tbl_get (lpp_pool op) (liquidity_pools d);
     fc_assert (asset_id (amount_a op) = asset_a p);
     fc_assert (asset_id (amount_b op) = asset_b p);
     fc_assert ((balance_a p = 0) = (balance_b p = 0));
     sa \<leftarrow> tbl_get (share_asset p) (assets d);
     (if balance_a p = 0 then fc_assert (ao_issuer sa = lpp_account op) else Some ());
     (i, dd) \<leftarrow> get_dynamic_data d (share_asset p);
     fc_assert ((balance_a p = 0) = (current_supply dd = 0));
     fc_assert (current_supply dd < max_supply (ao_options sa));
     fc_assert (is_authorized_asset acct (share_asset p) sa);
     aa \<leftarrow> tbl_get (asset_a p) (assets d);
     fc_assert (is_authorized_asset acct (asset_a p) aa);
     ab \<leftarrow> tbl_get (asset_b p) (assets d);
     fc_assert (is_authorized_asset acct (asset_b p) ab);
     _ \<leftarrow> (if balance_a p = 0 then Some 0 else safe_sub L (max_supply (ao_options sa)) (current_supply dd));
     (ra, rb, sh) \<leftarrow> deposit_amounts p (current_supply dd) (max_supply (ao_options sa)) (amount (amount_a op)) (amount (amount_b op));
     Some (mk_asset ra (asset_a p), mk_asset rb (asset_b p), mk_asset sh (share_asset p))
   }"

definition lp_deposit_apply :: "fc_lib \<Rightarrow> liquidity_pool_deposit_operation \<Rightarrow> asset \<times> asset \<times> asset \<Rightarrow> database \<Rightarrow> database option" where
  "lp_deposit_apply L op r d = do {
     let (pool_receives_a, pool_receives_b, account_receives) = r;
     na \<leftarrow> asset_neg L pool_receives_a;
     d1 \<leftarrow> adjust_balance L (lpp_account op) na d;
     nb \<leftarrow> asset_neg L pool_receives_b;
     d2 \<leftarrow> adjust_balance L (lpp_account op) nb d1;
     d3 \<leftarrow> adjust_balance L (lpp_account op) account_receives d2;
     p \<leftarrow> tbl_get (lpp_pool op) (liquidity_pools d3);
     a \<leftarrow> safe_add L (balance_a p) (amount pool_receives_a);
     b \<leftarrow> safe_add L (balance_b p) (amount pool_receives_b);
     let p' = update_virtual_value (p\<lparr>balance_a := a, balance_b := b\<rparr>);
     let d4 = d3\<lparr>liquidity_pools := tbl_modify (lpp_pool op) (\<lambda>_. p') (liquidity_pools d3)\<rparr>;
     (i, dd) \<leftarrow> get_dynamic_data d4 (share_asset p);
     s \<leftarrow> safe_add L (current_supply dd) (amount account_receives);
     fc_assert (a > 0 \<and> b > 0);
     fc_assert (s > 0);
     Some (d4\<lparr>asset_dynamic_data := tbl_modify i (\<lambda>x. x\<lparr>current_supply := s\<rparr>) (asset_dynamic_data d4)\<rparr>)
   }"

definition lp_deposit :: "fc_lib \<Rightarrow> liquidity_pool_deposit_operation \<Rightarrow> database \<Rightarrow> database option" where
  "lp_deposit L op d = do {
     lp_deposit_validate op;
     r \<leftarrow> lp_deposit_evaluate L op d;
     lp_deposit_apply L op r d
   }"


section \<open>Withdrawals\<close>

text \<open>What the pool pays of each asset, and the withdrawal fees, which stay in the pool.\<close>

definition withdraw_side :: "share_type \<Rightarrow> share_type \<Rightarrow> share_type \<Rightarrow> uint16 \<Rightarrow> (uint128 \<times> uint128) option" where
  "withdraw_side share supply bal percent = do {
     let x = u128 (u128 share * bal) div supply;
     fc_assert (x < u128 bal);
     let fee = u128 (x * percent) div GRAPHENE_100_PERCENT;
     fc_assert (fee \<le> x);
     Some (x - fee, fee)
   }"

definition withdraw_amounts ::
  "liquidity_pool_object \<Rightarrow> share_type \<Rightarrow> share_type \<Rightarrow> (share_type \<times> share_type \<times> share_type \<times> share_type) option" where
  "withdraw_amounts p supply share =
     (if supply = share then Some (balance_a p, balance_b p, 0, 0)
      else do {
        (a128, fee_a) \<leftarrow> withdraw_side share supply (balance_a p) (withdrawal_fee_percent p);
        (b128, fee_b) \<leftarrow> withdraw_side share supply (balance_b p) (withdrawal_fee_percent p);
        fc_assert (a128 > 0 \<or> b128 > 0);
        Some (s64 a128, s64 b128, s64 fee_a, s64 fee_b)
      })"

definition lp_withdraw_evaluate ::
  "liquidity_pool_withdraw_operation \<Rightarrow> database \<Rightarrow> (asset \<times> asset \<times> asset \<times> asset) option" where
  "lp_withdraw_evaluate op d = do {
     acct \<leftarrow> tbl_get (lpw_account op) (accounts d);
     p \<leftarrow> tbl_get (lpw_pool op) (liquidity_pools d);
     fc_assert (asset_id (share_amount op) = share_asset p);
     fc_assert (balance_a p > 0 \<and> balance_b p > 0);
     sa \<leftarrow> tbl_get (share_asset p) (assets d);
     fc_assert (is_authorized_asset acct (share_asset p) sa);
     aa \<leftarrow> tbl_get (asset_a p) (assets d);
     fc_assert (is_authorized_asset acct (asset_a p) aa);
     ab \<leftarrow> tbl_get (asset_b p) (assets d);
     fc_assert (is_authorized_asset acct (asset_b p) ab);
     (i, dd) \<leftarrow> get_dynamic_data d (share_asset p);
     fc_assert (current_supply dd \<ge> amount (share_amount op));
     (a, b, fa, fb) \<leftarrow> withdraw_amounts p (current_supply dd) (amount (share_amount op));
     Some (mk_asset a (asset_a p), mk_asset b (asset_b p), mk_asset fa (asset_a p), mk_asset fb (asset_b p))
   }"

definition lp_withdraw_apply ::
  "fc_lib \<Rightarrow> liquidity_pool_withdraw_operation \<Rightarrow> asset \<times> asset \<times> asset \<times> asset \<Rightarrow> database \<Rightarrow> database option" where
  "lp_withdraw_apply L op r d = do {
     let (pool_pays_a, pool_pays_b, fee_a, fee_b) = r;
     ns \<leftarrow> asset_neg L (share_amount op);
     d1 \<leftarrow> adjust_balance L (lpw_account op) ns d;
     d2 \<leftarrow> (if amount pool_pays_a > 0 then adjust_balance L (lpw_account op) pool_pays_a d1 else Some d1);
     d3 \<leftarrow> (if amount pool_pays_b > 0 then adjust_balance L (lpw_account op) pool_pays_b d2 else Some d2);
     p \<leftarrow> tbl_get (lpw_pool op) (liquidity_pools d3);
     (i, dd) \<leftarrow> get_dynamic_data d3 (share_asset p);
     s \<leftarrow> safe_sub L (current_supply dd) (amount (share_amount op));
     let d4 = d3\<lparr>asset_dynamic_data := tbl_modify i (\<lambda>x. x\<lparr>current_supply := s\<rparr>) (asset_dynamic_data d3)\<rparr>;
     a \<leftarrow> safe_sub L (balance_a p) (amount pool_pays_a);
     b \<leftarrow> safe_sub L (balance_b p) (amount pool_pays_b);
     fc_assert ((a = 0) = (b = 0));
     fc_assert ((a = 0) = (s = 0));
     Some (d4\<lparr>liquidity_pools := tbl_modify (lpw_pool op)
       (\<lambda>_. update_virtual_value (p\<lparr>balance_a := a, balance_b := b\<rparr>)) (liquidity_pools d4)\<rparr>)
   }"

definition lp_withdraw :: "fc_lib \<Rightarrow> liquidity_pool_withdraw_operation \<Rightarrow> database \<Rightarrow> database option" where
  "lp_withdraw L op d = do {
     lp_withdraw_validate op;
     r \<leftarrow> lp_withdraw_evaluate op d;
     lp_withdraw_apply L op r d
   }"

section \<open>Exchanges\<close>

text \<open>What leaves the pool's side \<open>bal_out\<close> when \<open>x\<close> comes in on the side \<open>bal_in\<close>, before the pool's fee.\<close>

definition exchange_delta :: "fc_lib \<Rightarrow> uint128 \<Rightarrow> share_type \<Rightarrow> share_type \<Rightarrow> share_type \<Rightarrow> uint128 option" where
  "exchange_delta L vv bal_in bal_out x = do {
     new_in \<leftarrow> safe_add L bal_in x;
     let new_out = u128 (u128 (vv + new_in) - 1) div new_in;
     fc_assert (new_out \<le> bal_out);
     Some (u128 (u128 bal_out - new_out))
   }"

record exchange_amounts =
  maker_market_fee :: asset
  pool_receives :: asset
  pool_pays :: asset
  taker_market_fee :: asset
  account_receives :: asset
  pool_taker_fee :: asset

text \<open>The amounts of an exchange that sells into the side \<open>bi\<close> and pays from the side \<open>bo\<close>; \<open>robj\<close> and \<open>pobj\<close>
  are the assets received and paid by the pool.\<close>

definition exchange_compute ::
  "fc_lib \<Rightarrow> liquidity_pool_object \<Rightarrow> asset \<Rightarrow> asset \<Rightarrow> asset_object \<Rightarrow> asset_object \<Rightarrow> share_type \<Rightarrow> share_type \<Rightarrow> exchange_amounts option" where
  "exchange_compute L p sell min_rec robj pobj bi bo = do {
     maker_fee \<leftarrow> calculate_market_fee (asset_id sell) robj sell True;
     lt \<leftarrow> asset_lt maker_fee sell;
     fc_assert lt;
     recv \<leftarrow> asset_sub L sell maker_fee;
     delta \<leftarrow> exchange_delta L (virtual_value p) bi bo (amount recv);
     let taker_fee = u128 (delta * lp_taker_fee_percent p) div GRAPHENE_100_PERCENT;
     fc_assert (taker_fee \<le> delta);
     let pays = mk_asset (s64 (delta - taker_fee)) (asset_id min_rec);
     taker_mf \<leftarrow> calculate_market_fee (asset_id min_rec) pobj pays False;
     le \<leftarrow> asset_le taker_mf pays;
     fc_assert le;
     acct_rec \<leftarrow> asset_sub L pays taker_mf;
     fc_assert (amount acct_rec \<ge> amount min_rec);
     Some \<lparr>maker_market_fee = maker_fee, pool_receives = recv, pool_pays = pays, taker_market_fee = taker_mf,
           account_receives = acct_rec, pool_taker_fee = mk_asset (s64 taker_fee) (asset_id min_rec)\<rparr>
   }"

definition lp_exchange_evaluate :: "fc_lib \<Rightarrow> liquidity_pool_exchange_operation \<Rightarrow> database \<Rightarrow> exchange_amounts option" where
  "lp_exchange_evaluate L op d = do {
     let sell = lpx_amount_to_sell op;
     let min_rec = lpx_min_to_receive op;
     acct \<leftarrow> tbl_get (lpx_account op) (accounts d);
     p \<leftarrow> tbl_get (lpx_pool op) (liquidity_pools d);
     fc_assert (balance_a p > 0 \<and> balance_b p > 0);
     fc_assert (asset_id sell = asset_a p \<and> asset_id min_rec = asset_b p \<or>
                asset_id sell = asset_b p \<and> asset_id min_rec = asset_a p);
     aa \<leftarrow> tbl_get (asset_a p) (assets d);
     fc_assert (is_authorized_asset acct (asset_a p) aa);
     ab \<leftarrow> tbl_get (asset_b p) (assets d);
     fc_assert (is_authorized_asset acct (asset_b p) ab);
     if asset_id sell = asset_a p then exchange_compute L p sell min_rec aa ab (balance_a p) (balance_b p)
     else exchange_compute L p sell min_rec ab aa (balance_b p) (balance_a p)
   }"

definition lp_exchange_apply :: "fc_lib \<Rightarrow> liquidity_pool_exchange_operation \<Rightarrow> exchange_amounts \<Rightarrow> database \<Rightarrow> database option" where
  "lp_exchange_apply L op r d = do {
     let sell = lpx_amount_to_sell op;
     ns \<leftarrow> asset_neg L sell;
     d1 \<leftarrow> adjust_balance L (lpx_account op) ns d;
     d2 \<leftarrow> adjust_balance L (lpx_account op) (account_receives r) d1;
     p \<leftarrow> tbl_get (lpx_pool op) (liquidity_pools d2);
     sa \<leftarrow> tbl_get (share_asset p) (assets d2);
     owner \<leftarrow> tbl_get (ao_issuer sa) (accounts d2);
     robj \<leftarrow> tbl_get (asset_id sell) (assets d2);
     (_, d3) \<leftarrow> pay_market_fees L (Some owner) (asset_id sell) robj sell True (Some (maker_market_fee r)) d2;
     acct \<leftarrow> tbl_get (lpx_account op) (accounts d3);
     pobj \<leftarrow> tbl_get (asset_id (pool_pays r)) (assets d3);
     (_, d4) \<leftarrow> pay_market_fees L (Some acct) (asset_id (pool_pays r)) pobj (pool_pays r) False (Some (taker_market_fee r)) d3;
     p' \<leftarrow> (if asset_id sell = asset_a p then do {
              a \<leftarrow> safe_add L (balance_a p) (amount (pool_receives r));
              b \<leftarrow> safe_sub L (balance_b p) (amount (pool_pays r));
              Some (update_virtual_value (p\<lparr>balance_a := a, balance_b := b\<rparr>))
            } else do {
              b \<leftarrow> safe_add L (balance_b p) (amount (pool_receives r));
              a \<leftarrow> safe_sub L (balance_a p) (amount (pool_pays r));
              Some (update_virtual_value (p\<lparr>balance_a := a, balance_b := b\<rparr>))
            });
     fc_assert (balance_a p' > 0 \<and> balance_b p' > 0);
     fc_assert (virtual_value p' \<ge> virtual_value p);
     Some (d4\<lparr>liquidity_pools := tbl_modify (lpx_pool op) (\<lambda>_. p') (liquidity_pools d4)\<rparr>)
   }"

definition lp_exchange :: "fc_lib \<Rightarrow> liquidity_pool_exchange_operation \<Rightarrow> database \<Rightarrow> database option" where
  "lp_exchange L op d = do {
     lp_exchange_validate op;
     r \<leftarrow> lp_exchange_evaluate L op d;
     lp_exchange_apply L op r d
   }"

section \<open>The amounts\<close>

lemma share_less: "x \<le> GRAPHENE_MAX_SHARE_SUPPLY \<Longrightarrow> x < 2 ^ 63"
  by (simp add: chain_consts)

definition pool_ok :: "liquidity_pool_object \<Rightarrow> bool" where
  "pool_ok p \<longleftrightarrow>
     0 \<le> balance_a p \<and> balance_a p < 2 ^ 63 \<and> 0 \<le> balance_b p \<and> balance_b p < 2 ^ 63 \<and>
     (balance_a p = 0) = (balance_b p = 0) \<and> virtual_value p = balance_a p * balance_b p \<and>
     asset_a p \<noteq> asset_b p \<and> share_asset p \<noteq> asset_a p \<and> share_asset p \<noteq> asset_b p \<and>
     0 \<le> lp_taker_fee_percent p \<and> lp_taker_fee_percent p \<le> GRAPHENE_100_PERCENT \<and>
     0 \<le> withdrawal_fee_percent p \<and> withdrawal_fee_percent p \<le> GRAPHENE_100_PERCENT"

text \<open>Issuing shares for a rounded-up part of each balance.\<close>

lemma issue_rounding:
  fixes s n bal amt :: int
  assumes s: "0 < s" "s < 2 ^ 63" and b: "0 < bal" "bal < 2 ^ 63" and n: "0 < n" "n \<le> s * amt div bal" and amt: "0 < amt" "amt < 2 ^ 63"
  shows "u128 (u128 (u128 (n * bal) + s) - 1) div s = div_up (n * bal) s"
    and "div_up (n * bal) s \<le> amt" "n * bal \<le> div_up (n * bal) s * s"
proof -
  have "n * bal \<le> s * amt" using n(2) b(1) by (simp add: int_le_div_iff)
  moreover have "0 \<le> s * amt \<and> s * amt < 2 ^ 126" using mult_bound_126 [of s amt] s amt by simp
  ultimately have nb: "0 \<le> n * bal" "n * bal < 2 ^ 126" using n(1) b(1) by simp_all
  then show "u128 (u128 (u128 (n * bal) + s) - 1) div s = div_up (n * bal) s"
    using s by (simp add: div_up_def)
  show "div_up (n * bal) s \<le> amt" using \<open>n * bal \<le> s * amt\<close> s(1) by (simp add: div_up_le_iff mult.commute)
  show "n * bal \<le> div_up (n * bal) s * s" by (rule div_up_ge [OF s(1)])
qed


lemma deposit_amounts_exact:
  assumes p: "pool_ok p" "0 < balance_a p" and s: "0 < supply_now" "supply_now < max_sup" "max_sup < 2 ^ 63"
    and amt: "0 < xa" "xa < 2 ^ 63" "0 < xb" "xb < 2 ^ 63"
  defines "n \<equiv> min (min (supply_now * xa div balance_a p) (supply_now * xb div balance_b p)) (max_sup - supply_now)"
  shows "deposit_amounts p supply_now max_sup xa xb =
    (if 0 < n then Some (div_up (n * balance_a p) supply_now, div_up (n * balance_b p) supply_now, n) else None)"
    and "0 < n \<Longrightarrow> div_up (n * balance_a p) supply_now \<le> xa"
    and "0 < n \<Longrightarrow> div_up (n * balance_b p) supply_now \<le> xb"
proof -
  have bal: "0 < balance_a p" "balance_a p < 2 ^ 63" "0 < balance_b p" "balance_b p < 2 ^ 63" "balance_a p \<noteq> 0"
    using p by (auto simp: pool_ok_def)
  have s63: "supply_now < 2 ^ 63" using s by simp
  have na: "n \<le> supply_now * xa div balance_a p" "n \<le> supply_now * xb div balance_b p" "n \<le> max_sup - supply_now"
    by (simp_all add: n_def)
  have e1: "u128 (u128 supply_now * xa) = supply_now * xa" "u128 (u128 supply_now * xb) = supply_now * xb"
    "u128 (max_sup - supply_now) = max_sup - supply_now" "u128 supply_now = supply_now" "u128 xa = xa" "u128 xb = xb"
    using s amt s63 by simp_all
  note ra = issue_rounding [OF s(1) s63 bal(1,2) _ na(1) amt(1,2)]
  note rb = issue_rounding [OF s(1) s63 bal(3,4) _ na(2) amt(3,4)]
  show a: "div_up (n * balance_a p) supply_now \<le> xa" if "0 < n" by (rule ra(2) [OF that])
  show b: "div_up (n * balance_b p) supply_now \<le> xb" if "0 < n" by (rule rb(2) [OF that])
  show "deposit_amounts p supply_now max_sup xa xb =
    (if 0 < n then Some (div_up (n * balance_a p) supply_now, div_up (n * balance_b p) supply_now, n) else None)"
  proof (cases "0 < n")
    case True
    have "0 \<le> div_up (n * balance_a p) supply_now" "0 \<le> div_up (n * balance_b p) supply_now"
      using True bal s(1) by simp_all
    then have "s64 (div_up (n * balance_a p) supply_now) = div_up (n * balance_a p) supply_now"
      "s64 (div_up (n * balance_b p) supply_now) = div_up (n * balance_b p) supply_now" "s64 n = n"
      using a [OF True] b [OF True] amt na(3) True s by simp_all
    then show ?thesis
      using True bal(5) ra(1) [OF True] rb(1) [OF True] a [OF True] b [OF True] e1
      unfolding deposit_amounts_def Let_def by (simp add: n_def [symmetric])
  next
    case False
    then show ?thesis using bal(5) e1 unfolding deposit_amounts_def Let_def by (simp add: n_def [symmetric])
  qed
qed

lemma deposit_amounts_ok:
  assumes p: "pool_ok p" and s: "0 \<le> supply_now" "supply_now < max_sup" "max_sup < 2 ^ 63" "(balance_a p = 0) = (supply_now = 0)"
    and amt: "0 < xa" "xa < 2 ^ 63" "0 < xb" "xb < 2 ^ 63"
    and run: "deposit_amounts p supply_now max_sup xa xb = Some (ra, rb, sh)"
  shows "0 < ra \<and> ra \<le> xa \<and> 0 < rb \<and> rb \<le> xb \<and> 0 < sh \<and> supply_now + sh \<le> max_sup \<and>
    sh * balance_a p \<le> ra * supply_now \<and> sh * balance_b p \<le> rb * supply_now"
proof (cases "balance_a p = 0")
  case True
  then have "balance_b p = 0" using p by (simp add: pool_ok_def)
  with True run s amt show ?thesis by (auto simp: deposit_amounts_def)
next
  case False
  then have b: "0 < balance_a p" "0 < balance_b p" "0 < supply_now" using p s by (auto simp: pool_ok_def)
  note ex = deposit_amounts_exact [OF p b(1,3) s(2,3) amt]
  define n where "n = min (min (supply_now * xa div balance_a p) (supply_now * xb div balance_b p)) (max_sup - supply_now)"
  have n: "0 < n" "ra = div_up (n * balance_a p) supply_now" "rb = div_up (n * balance_b p) supply_now" "sh = n"
    using run ex(1) by (auto simp: n_def split: if_splits)
  have "n * balance_a p \<le> ra * supply_now" "n * balance_b p \<le> rb * supply_now" using b(3) n by (simp_all add: div_up_ge)
  moreover have "0 < ra" "0 < rb" using n b by (simp_all add: less_div_up_iff)
  moreover have "n \<le> max_sup - supply_now" by (simp add: n_def)
  ultimately show ?thesis using n ex(2,3) by (simp add: n_def [symmetric])
qed

lemma withdraw_side_exact:
  assumes "0 < share" "share < tot" "tot < 2 ^ 63" "0 < bal" "bal < 2 ^ 63" "0 \<le> pct" "pct \<le> GRAPHENE_100_PERCENT"
  defines "x \<equiv> share * bal div tot"
  shows "withdraw_side share tot bal pct = Some (x - x * pct div GRAPHENE_100_PERCENT, x * pct div GRAPHENE_100_PERCENT)"
    and "0 \<le> x - x * pct div GRAPHENE_100_PERCENT" "x - x * pct div GRAPHENE_100_PERCENT < bal"
    "(x - x * pct div GRAPHENE_100_PERCENT) * tot \<le> share * bal"
proof -
  have sb: "0 \<le> share * bal" "u128 (u128 share * bal) = share * bal" using assms(1-5) by simp_all
  have x: "0 \<le> x" "x < bal" "x * tot \<le> share * bal"
    using assms(1-5) sb(1) int_le_div_iff [of tot x "share * bal"]
    by (simp_all add: x_def int_div_less_iff pos_imp_zdiv_nonneg_iff mult.commute [of bal])
  have xp: "0 \<le> x * pct" "x * pct \<le> x * 10000" using x(1) assms(6,7) by (auto simp: chain_consts intro: mult_left_mono)
  have fee: "0 \<le> x * pct div 10000" "x * pct div 10000 \<le> x"
    using xp zdiv_mono1 [of "x * pct" "x * 10000" 10000] by (simp_all add: pos_imp_zdiv_nonneg_iff)
  then show "0 \<le> x - x * pct div GRAPHENE_100_PERCENT" "x - x * pct div GRAPHENE_100_PERCENT < bal"
    using x(2) by (simp_all add: chain_consts)
  have "(x - x * pct div GRAPHENE_100_PERCENT) * tot \<le> x * tot"
    using fee(1) assms(1,2) by (intro mult_right_mono) (simp_all add: chain_consts)
  with x(3) show "(x - x * pct div GRAPHENE_100_PERCENT) * tot \<le> share * bal" by simp
  show "withdraw_side share tot bal pct = Some (x - x * pct div GRAPHENE_100_PERCENT, x * pct div GRAPHENE_100_PERCENT)"
    unfolding withdraw_side_def Let_def sb(2) x_def [symmetric]
    using x fee xp assms(4,5) by (simp add: chain_consts)
qed


lemma withdraw_amounts_ok:
  assumes p: "pool_ok p" "0 < balance_a p" and s: "0 < share" "share \<le> tot" "tot < 2 ^ 63"
    and run: "withdraw_amounts p tot share = Some (a, b, fa, fb)"
  shows "0 \<le> a \<and> a \<le> balance_a p \<and> 0 \<le> b \<and> b \<le> balance_b p \<and>
    a * tot \<le> share * balance_a p \<and> b * tot \<le> share * balance_b p"
proof (cases "tot = share")
  case True
  with run p show ?thesis by (auto simp: withdraw_amounts_def pool_ok_def mult.commute)
next
  case False
  then have lt: "share < tot" using s(2) by simp
  have bal: "0 < balance_a p" "balance_a p < 2 ^ 63" "0 < balance_b p" "balance_b p < 2 ^ 63"
    "0 \<le> withdrawal_fee_percent p" "withdrawal_fee_percent p \<le> GRAPHENE_100_PERCENT"
    using p by (auto simp: pool_ok_def)
  note ea = withdraw_side_exact [OF s(1) lt s(3) bal(1,2,5,6)]
  note eb = withdraw_side_exact [OF s(1) lt s(3) bal(3,4,5,6)]
  let ?xa = "share * balance_a p div tot" and ?xb = "share * balance_b p div tot"
  let ?a = "?xa - ?xa * withdrawal_fee_percent p div GRAPHENE_100_PERCENT"
  let ?b = "?xb - ?xb * withdrawal_fee_percent p div GRAPHENE_100_PERCENT"
  have "a = s64 ?a" "b = s64 ?b" using run False ea(1) eb(1) by (simp_all add: withdraw_amounts_def)
  moreover have "s64 ?a = ?a" "s64 ?b = ?b" using ea(2,3) eb(2,3) bal(2,4) by (simp_all add: s64_id)
  ultimately show ?thesis using ea(2-4) eb(2-4) by simp
qed

context fc_safe
begin

lemma exchange_delta_exact:
  assumes bal: "0 < bi" "0 < bo" "bo < 2 ^ 63" and x: "0 < x" "bi + x < 2 ^ 63"
  shows "exchange_delta L (bi * bo) bi bo x = Some (bo - div_up (bi * bo) (bi + x))"
    and "0 \<le> bo - div_up (bi * bo) (bi + x)" "0 < div_up (bi * bo) (bi + x)"
    "bi * bo \<le> (bi + x) * div_up (bi * bo) (bi + x)"
proof -
  have bb: "0 \<le> bi * bo \<and> bi * bo < 2 ^ 126" using bal x by (intro mult_bound_126) auto
  have pos: "0 < bi + x" using bal x by simp
  have "bi * bo \<le> bo * (bi + x)" using bal(2) x(1) by (simp add: distrib_left mult.commute)
  then have le: "div_up (bi * bo) (bi + x) \<le> bo" by (simp add: div_up_le_iff [OF pos])
  show lt: "0 < div_up (bi * bo) (bi + x)" using bal pos by (simp add: less_div_up_iff)
  show "0 \<le> bo - div_up (bi * bo) (bi + x)" using le by simp
  show "bi * bo \<le> (bi + x) * div_up (bi * bo) (bi + x)" using div_up_ge [OF pos, of "bi * bo"] by (simp add: mult.commute)
  have "u128 (u128 (bi * bo + (bi + x)) - 1) div (bi + x) = div_up (bi * bo) (bi + x)"
    using bb pos x by (simp add: div_up_def add.assoc)
  then show "exchange_delta L (bi * bo) bi bo x = Some (bo - div_up (bi * bo) (bi + x))"
    using le lt bal x pos by (simp add: exchange_delta_def safe_add in_s64_def)
qed

end

section \<open>The ledger of the pools\<close>

definition pools_wf :: "database \<Rightarrow> bool" where
  "pools_wf d \<longleftrightarrow>
     (\<forall>i p. tbl_get i (liquidity_pools d) = Some p \<longrightarrow> pool_ok p) \<and>
     (\<forall>b. 0 \<le> supply_of b d \<and> supply_of b d \<le> GRAPHENE_MAX_SHARE_SUPPLY) \<and>
     (\<forall>i a. tbl_get i (assets d) = Some a \<longrightarrow> max_supply (ao_options a) \<le> GRAPHENE_MAX_SHARE_SUPPLY \<and> 0 \<le> max_market_fee (ao_options a))"

lemma modify_pool_effect:
  assumes wf: "db_wf d" and p: "tbl_get i (liquidity_pools d) = Some p" and ids: "asset_a p' = asset_a p" "asset_b p' = asset_b p"
  defines "d' \<equiv> d\<lparr>liquidity_pools := tbl_modify i (\<lambda>_. p') (liquidity_pools d)\<rparr>"
  shows "db_wf d'" "tbl_get j (liquidity_pools d') = (if j = i then Some p' else tbl_get j (liquidity_pools d))"
    "gap b d' = gap b d + (if asset_a p = b then balance_a p' - balance_a p else 0) + (if asset_b p = b then balance_b p' - balance_b p else 0)"
    "same_supplies d d'"
  using wf p ids
  by (simp_all add: d'_def db_wf_upd db_wf_tables tbl_wf_ops tbl.get_modify gap_upd tbl_sum_modify pool_of_def)

lemma set_supply_effect:
  fixes s :: int
  assumes wf: "db_wf d" and g: "get_dynamic_data d a = Some (i, dd)"
  defines "d' \<equiv> d\<lparr>asset_dynamic_data := tbl_modify i (\<lambda>x. x\<lparr>current_supply := s\<rparr>) (asset_dynamic_data d)\<rparr>"
  shows "db_wf d'" "gap b d' = gap b d - (if b = a then s - supply_of a d else 0)"
    "supply_of b d' = (if b = a then s else supply_of b d)"
proof -
  note u = dynamic_data_update [OF wf g, where f = "\<lambda>x. x\<lparr>current_supply := s\<rparr>", folded d'_def]
  show "db_wf d'" by (rule u(1))
  show "gap b d' = gap b d - (if b = a then s - supply_of a d else 0)" using u(2) [of b] g by (simp add: supply_of_Some)
  show "supply_of b d' = (if b = a then s else supply_of b d)" using u(3) u(4) [of b] by (simp add: supply_of_def)
qed

text \<open>The value of a share never falls when each side grows at least in proportion.\<close>

lemma value_per_share:
  fixes a b a' b' s s' :: int
  assumes "0 \<le> a" "0 \<le> b" "0 \<le> s" "0 \<le> s'" "a * s' \<le> a' * s" "b * s' \<le> b' * s" "0 \<le> a'" "0 \<le> b'"
  shows "a * b * s' ^ 2 \<le> a' * b' * s ^ 2"
proof -
  have "(a * s') * (b * s') \<le> (a' * s) * (b' * s)"
    using assms by (intro mult_mono [OF assms(5,6)] mult_nonneg_nonneg) auto
  then show ?thesis by (simp add: power2_eq_square algebra_simps)
qed


lemma update_virtual_value_ok:
  assumes "pool_ok p" "0 \<le> a" "a < 2 ^ 63" "0 \<le> b" "b < 2 ^ 63" "(a = 0) = (b = 0)"
  shows "pool_ok (update_virtual_value (p\<lparr>balance_a := a, balance_b := b\<rparr>))"
    and "virtual_value (update_virtual_value (p\<lparr>balance_a := a, balance_b := b\<rparr>)) = a * b"
  using assms by (simp_all add: pool_ok_def update_virtual_value_def)

context fc_safe
begin

lemma lp_deposit_apply_effect:
  assumes wf: "db_wf d" and p: "tbl_get (lpp_pool op) (liquidity_pools d) = Some p"
    and run: "lp_deposit_apply L op (mk_asset ra (asset_a p), mk_asset rb (asset_b p), mk_asset sh (share_asset p)) d = Some d'"
  shows "db_wf d'" "gap b d' = gap b d"
    "tbl_get i (liquidity_pools d') = (if i = lpp_pool op
      then Some (update_virtual_value (p\<lparr>balance_a := balance_a p + ra, balance_b := balance_b p + rb\<rparr>))
      else tbl_get i (liquidity_pools d))"
    "supply_of b d' = supply_of b d + (if b = share_asset p then sh else 0)" "assets d' = assets d"
    "balance_a p + ra < 2 ^ 63" "balance_b p + rb < 2 ^ 63"
proof -
  from run obtain d1 d2 d3 q j dd where
    d1: "adjust_balance L (lpp_account op) (mk_asset (- ra) (asset_a p)) d = Some d1" and
    d2: "adjust_balance L (lpp_account op) (mk_asset (- rb) (asset_b p)) d1 = Some d2" and
    d3: "adjust_balance L (lpp_account op) (mk_asset sh (share_asset p)) d2 = Some d3" and
    q: "tbl_get (lpp_pool op) (liquidity_pools d3) = Some q" and
    g3: "get_dynamic_data (d3\<lparr>liquidity_pools := tbl_modify (lpp_pool op) (\<lambda>_. update_virtual_value
        (q\<lparr>balance_a := balance_a q + ra, balance_b := balance_b q + rb\<rparr>)) (liquidity_pools d3)\<rparr>) (share_asset q) = Some (j, dd)" and
    d': "d' = d3\<lparr>liquidity_pools := tbl_modify (lpp_pool op) (\<lambda>_. update_virtual_value
        (q\<lparr>balance_a := balance_a q + ra, balance_b := balance_b q + rb\<rparr>)) (liquidity_pools d3),
        asset_dynamic_data := tbl_modify j (\<lambda>x. x\<lparr>current_supply := current_supply dd + sh\<rparr>) (asset_dynamic_data d3)\<rparr>" and
    r63: "balance_a q + ra < 2 ^ 63" "balance_b q + rb < 2 ^ 63"
    by (auto simp: lp_deposit_apply_def opt_bind asset_neg_def safe_Some Let_def in_s64_def)
  have [simp]: "q = p" using q p by (simp add: adjust_balance_keeps(3) [OF d1] adjust_balance_keeps(3) [OF d2] adjust_balance_keeps(3) [OF d3])
  show "balance_a p + ra < 2 ^ 63" "balance_b p + rb < 2 ^ 63" using r63 by simp_all
  let ?p' = "update_virtual_value (p\<lparr>balance_a := balance_a p + ra, balance_b := balance_b p + rb\<rparr>)"
  define d4 where "d4 = d3\<lparr>liquidity_pools := tbl_modify (lpp_pool op) (\<lambda>_. ?p') (liquidity_pools d3)\<rparr>"
  note k = adjust_balance_keeps [OF d1] adjust_balance_keeps [OF d2] adjust_balance_keeps [OF d3]
  note e1 = adjust_balance_effect [OF wf d1]
  note e2 = adjust_balance_effect [OF e1(1) d2]
  note e3 = adjust_balance_effect [OF e2(1) d3]
  have p3: "tbl_get (lpp_pool op) (liquidity_pools d3) = Some p" using p k by simp
  have ids: "asset_a ?p' = asset_a p" "asset_b ?p' = asset_b p" "balance_a ?p' = balance_a p + ra" "balance_b ?p' = balance_b p + rb"
    by (simp_all add: update_virtual_value_def)
  note m = modify_pool_effect [OF e3(1) p3 ids(1,2), folded d4_def]
  have g4: "get_dynamic_data d4 (share_asset p) = Some (j, dd)" using g3 by (simp add: d4_def)
  have sup: "current_supply dd = supply_of (share_asset p) d"
    using supply_of_Some [OF g4] m(4) k by (simp add: same_supplies_def)
  have d'4: "d' = d4\<lparr>asset_dynamic_data := tbl_modify j (\<lambda>x. x\<lparr>current_supply := current_supply dd + sh\<rparr>) (asset_dynamic_data d4)\<rparr>"
    by (simp add: d' d4_def)
  note s = set_supply_effect [OF m(1) g4, where s = "current_supply dd + sh", folded d'4]
  show "db_wf d'" by (rule s(1))
  show "supply_of b d' = supply_of b d + (if b = share_asset p then sh else 0)"
    using s(3) [of b] sup m(4) k by (simp add: same_supplies_def)
  show "gap b d' = gap b d"
    using s(2) [of b] m(3) [of b] e1(2) [of b] e2(2) [of b] e3(2) [of b] sup supply_of_Some [OF g4] ids(3,4) by auto
  show "tbl_get i (liquidity_pools d') = (if i = lpp_pool op then Some ?p' else tbl_get i (liquidity_pools d))"
    using m(2) [of i] k by (simp add: d'4)
  show "assets d' = assets d" using m(4) k by (simp add: d'4 same_supplies_def)
qed

end


definition op_amounts_ok :: "asset list \<Rightarrow> bool" where
  "op_amounts_ok xs \<longleftrightarrow> list_all (\<lambda>x. in_s64 (amount x)) xs"

lemma pools_wf_step:
  assumes "pools_wf d" "pool_ok p'" "assets d' = assets d"
    and "\<And>i. tbl_get i (liquidity_pools d') = (if i = k then Some p' else tbl_get i (liquidity_pools d))"
    and "\<And>b. 0 \<le> supply_of b d' \<and> supply_of b d' \<le> GRAPHENE_MAX_SHARE_SUPPLY"
  shows "pools_wf d'"
  using assms unfolding pools_wf_def by (metis option.inject)

context fc_safe
begin

lemma lp_deposit_effect:
  assumes wf: "db_wf d" and pw: "pools_wf d" and amt: "op_amounts_ok [amount_a op, amount_b op]"
    and run: "lp_deposit L op d = Some d'"
  obtains p p' where "tbl_get (lpp_pool op) (liquidity_pools d) = Some p" "tbl_get (lpp_pool op) (liquidity_pools d') = Some p'"
    "db_wf d'" "pools_wf d'" "\<And>b. gap b d' = gap b d" "share_asset p' = share_asset p"
    "balance_a p * supply_of (share_asset p) d' \<le> balance_a p' * supply_of (share_asset p) d"
    "balance_b p * supply_of (share_asset p) d' \<le> balance_b p' * supply_of (share_asset p) d"
    "balance_a p \<le> balance_a p'" "balance_a p' \<le> balance_a p + amount (amount_a op)"
    "balance_b p \<le> balance_b p'" "balance_b p' \<le> balance_b p + amount (amount_b op)"
    "supply_of (share_asset p) d < supply_of (share_asset p) d'"
proof -
  from run obtain p sa j dd ra rb sh where
    p: "tbl_get (lpp_pool op) (liquidity_pools d) = Some p" and sa: "tbl_get (share_asset p) (assets d) = Some sa"
    and dd: "get_dynamic_data d (share_asset p) = Some (j, dd)" and iff: "(balance_a p = 0) = (current_supply dd = 0)"
    and mx: "current_supply dd < max_supply (ao_options sa)"
    and am: "deposit_amounts p (current_supply dd) (max_supply (ao_options sa)) (amount (amount_a op)) (amount (amount_b op)) = Some (ra, rb, sh)"
    and ap: "lp_deposit_apply L op (mk_asset ra (asset_a p), mk_asset rb (asset_b p), mk_asset sh (share_asset p)) d = Some d'"
    and va: "amount (amount_a op) > 0" "amount (amount_b op) > 0"
    unfolding lp_deposit_def lp_deposit_validate_def lp_deposit_evaluate_def opt_bind fc_assert_eq_Some
    by (elim exE conjE) (auto simp: opt_bind)
  have s: "supply_of (share_asset p) d = current_supply dd" by (rule supply_of_Some [OF dd])
  have pok: "pool_ok p" and bnd: "max_supply (ao_options sa) \<le> GRAPHENE_MAX_SHARE_SUPPLY" "0 \<le> current_supply dd"
    using pw p sa s unfolding pools_wf_def by (blast, blast, metis)
  have ok: "0 < ra \<and> ra \<le> amount (amount_a op) \<and> 0 < rb \<and> rb \<le> amount (amount_b op) \<and> 0 < sh \<and>
      current_supply dd + sh \<le> max_supply (ao_options sa) \<and>
      sh * balance_a p \<le> ra * current_supply dd \<and> sh * balance_b p \<le> rb * current_supply dd"
    using amt va mx bnd(2) share_less [OF bnd(1)] iff
    by (intro deposit_amounts_ok [OF pok _ _ _ _ _ _ _ _ am]) (simp_all add: op_amounts_ok_def in_s64_def)
  note e = lp_deposit_apply_effect [OF wf p ap]
  let ?p' = "update_virtual_value (p\<lparr>balance_a := balance_a p + ra, balance_b := balance_b p + rb\<rparr>)"
  have p': "tbl_get (lpp_pool op) (liquidity_pools d') = Some ?p'" using e(3) by simp
  have bal: "balance_a ?p' = balance_a p + ra" "balance_b ?p' = balance_b p + rb" "share_asset ?p' = share_asset p"
    by (simp_all add: update_virtual_value_def)
  have pos: "0 \<le> balance_a p" "0 \<le> balance_b p" using pok by (simp_all add: pool_ok_def)
  have "pool_ok ?p'" using e(6,7) ok pos by (intro update_virtual_value_ok [OF pok]) auto
  moreover have "0 \<le> supply_of b d' \<and> supply_of b d' \<le> GRAPHENE_MAX_SHARE_SUPPLY" for b
    using e(4) [of b] ok bnd s pw by (simp add: pools_wf_def)
  ultimately have pw': "pools_wf d'" using e(3,5) by (intro pools_wf_step [OF pw]) auto
  have s': "supply_of (share_asset p) d' = current_supply dd + sh" using e(4) s by simp
  show ?thesis
    by (rule that [OF p p' e(1) pw' e(2)]) (use ok bal s s' in \<open>simp_all add: distrib_left distrib_right mult.commute\<close>)
qed

end


context fc_safe
begin

lemma maybe_adjust_effect:
  assumes wf: "db_wf d" and run: "(if amount x > 0 then adjust_balance L acc x d else Some d) = Some d'" and nn: "0 \<le> amount x"
  shows "db_wf d'" "gap b d' = gap b d + of_asset b x" "liquidity_pools d' = liquidity_pools d" "assets d' = assets d"
    "supply_of b d' = supply_of b d"
  using assms adjust_balance_effect [OF wf] adjust_balance_keeps [of L acc x d d']
  by (auto simp: of_asset_def split: if_splits)

lemma lp_withdraw_apply_effect:
  assumes wf: "db_wf d" and p: "tbl_get (lpw_pool op) (liquidity_pools d) = Some p"
    and sh: "asset_id (share_amount op) = share_asset p" and nn: "0 \<le> a" "0 \<le> b"
    and run: "lp_withdraw_apply L op (mk_asset a (asset_a p), mk_asset b (asset_b p), fa, fb) d = Some d'"
  shows "db_wf d'" "gap c d' = gap c d"
    "tbl_get i (liquidity_pools d') = (if i = lpw_pool op
      then Some (update_virtual_value (p\<lparr>balance_a := balance_a p - a, balance_b := balance_b p - b\<rparr>))
      else tbl_get i (liquidity_pools d))"
    "supply_of c d' = supply_of c d - (if c = share_asset p then amount (share_amount op) else 0)" "assets d' = assets d"
    "(balance_a p - a = 0) = (balance_b p - b = 0)"
proof -
  from run obtain d1 d2 d3 q j dd where
    d1: "adjust_balance L (lpw_account op) (mk_asset (- amount (share_amount op)) (asset_id (share_amount op))) d = Some d1" and
    d2: "(if a > 0 then adjust_balance L (lpw_account op) (mk_asset a (asset_a p)) d1 else Some d1) = Some d2" and
    d3: "(if b > 0 then adjust_balance L (lpw_account op) (mk_asset b (asset_b p)) d2 else Some d2) = Some d3" and
    q: "tbl_get (lpw_pool op) (liquidity_pools d3) = Some q" and
    g3: "get_dynamic_data d3 (share_asset q) = Some (j, dd)" and
    iff: "(balance_a q - a = 0) = (balance_b q - b = 0)" and
    d': "d' = d3\<lparr>asset_dynamic_data := tbl_modify j (\<lambda>x. x\<lparr>current_supply := current_supply dd - amount (share_amount op)\<rparr>)
          (asset_dynamic_data d3),
        liquidity_pools := tbl_modify (lpw_pool op) (\<lambda>_. update_virtual_value
          (q\<lparr>balance_a := balance_a q - a, balance_b := balance_b q - b\<rparr>)) (liquidity_pools d3)\<rparr>"
    by (clarsimp simp: lp_withdraw_apply_def opt_bind asset_neg_def safe_Some Let_def split del: if_split)
  note e1 = adjust_balance_effect [OF wf d1] and k1 = adjust_balance_keeps [OF d1]
  note e2 = maybe_adjust_effect [of d1 "mk_asset a (asset_a p)" "lpw_account op" d2, simplified, OF e1(1) d2 nn(1)]
  note e3 = maybe_adjust_effect [of d2 "mk_asset b (asset_b p)" "lpw_account op" d3, simplified, OF e2(1) d3 nn(2)]
  have [simp]: "q = p" using q p k1 e2(3) e3(3) by simp
  let ?p' = "update_virtual_value (p\<lparr>balance_a := balance_a p - a, balance_b := balance_b p - b\<rparr>)"
  define d4 where "d4 = d3\<lparr>asset_dynamic_data := tbl_modify j (\<lambda>x. x\<lparr>current_supply := current_supply dd - amount (share_amount op)\<rparr>)
    (asset_dynamic_data d3)\<rparr>"
  have g: "get_dynamic_data d3 (share_asset p) = Some (j, dd)" using g3 by simp
  have sup: "current_supply dd = supply_of (share_asset p) d"
    using supply_of_Some [OF g] e2(5) e3(5) k1 by simp
  note s = set_supply_effect [OF e3(1) g, where s = "current_supply dd - amount (share_amount op)", folded d4_def]
  have p4: "tbl_get (lpw_pool op) (liquidity_pools d4) = Some p" using q by (simp add: d4_def)
  have ids: "asset_a ?p' = asset_a p" "asset_b ?p' = asset_b p" "balance_a ?p' = balance_a p - a" "balance_b ?p' = balance_b p - b"
    by (simp_all add: update_virtual_value_def)
  have d'4: "d' = d4\<lparr>liquidity_pools := tbl_modify (lpw_pool op) (\<lambda>_. ?p') (liquidity_pools d4)\<rparr>"
    by (simp add: d' d4_def)
  note m = modify_pool_effect [OF s(1) p4 ids(1,2), folded d'4]
  show "db_wf d'" by (rule m(1))
  show "(balance_a p - a = 0) = (balance_b p - b = 0)" using iff by simp
  show "supply_of c d' = supply_of c d - (if c = share_asset p then amount (share_amount op) else 0)"
    using m(4) s(3) [of c] sup e2(5) e3(5) k1 by (simp add: same_supplies_def)
  show "gap c d' = gap c d"
    using m(3) [of c] s(2) [of c] e1(2) [of c] e2(2) [of c] e3(2) [of c] sup supply_of_Some [OF g] ids(3,4) sh by auto
  show "tbl_get i (liquidity_pools d') = (if i = lpw_pool op then Some ?p' else tbl_get i (liquidity_pools d))"
    using m(2) [of i] k1 e2(3) e3(3) by (simp add: d4_def)
  show "assets d' = assets d" using m(4) k1 e2(4) e3(4) by (simp add: d4_def same_supplies_def)
qed

lemma lp_withdraw_effect:
  assumes wf: "db_wf d" and pw: "pools_wf d" and run: "lp_withdraw L op d = Some d'"
  obtains p p' where "tbl_get (lpw_pool op) (liquidity_pools d) = Some p" "tbl_get (lpw_pool op) (liquidity_pools d') = Some p'"
    "db_wf d'" "pools_wf d'" "\<And>b. gap b d' = gap b d" "share_asset p' = share_asset p"
    "balance_a p * supply_of (share_asset p) d' \<le> balance_a p' * supply_of (share_asset p) d"
    "balance_b p * supply_of (share_asset p) d' \<le> balance_b p' * supply_of (share_asset p) d"
    "supply_of (share_asset p) d' = supply_of (share_asset p) d - amount (share_amount op)"
proof -
  from run obtain p j dd a b fa fb where
    p: "tbl_get (lpw_pool op) (liquidity_pools d) = Some p" and id: "asset_id (share_amount op) = share_asset p"
    and pos: "balance_a p > 0" "amount (share_amount op) > 0"
    and dd: "get_dynamic_data d (share_asset p) = Some (j, dd)" and ge: "amount (share_amount op) \<le> current_supply dd"
    and am: "withdraw_amounts p (current_supply dd) (amount (share_amount op)) = Some (a, b, fa, fb)"
    and ap: "lp_withdraw_apply L op (mk_asset a (asset_a p), mk_asset b (asset_b p), mk_asset fa (asset_a p), mk_asset fb (asset_b p)) d = Some d'"
    unfolding lp_withdraw_def lp_withdraw_validate_def lp_withdraw_evaluate_def opt_bind fc_assert_eq_Some
    by (elim exE conjE) (auto simp: opt_bind)
  have s: "supply_of (share_asset p) d = current_supply dd" by (rule supply_of_Some [OF dd])
  have pok: "pool_ok p" and bnd: "current_supply dd \<le> GRAPHENE_MAX_SHARE_SUPPLY"
    using pw p s unfolding pools_wf_def by (blast, metis)
  have ok: "0 \<le> a \<and> a \<le> balance_a p \<and> 0 \<le> b \<and> b \<le> balance_b p \<and>
      a * current_supply dd \<le> amount (share_amount op) * balance_a p \<and>
      b * current_supply dd \<le> amount (share_amount op) * balance_b p"
    by (rule withdraw_amounts_ok [OF pok pos(1,2) ge share_less [OF bnd] am])
  then have nn: "0 \<le> a" "0 \<le> b" by auto
  note e = lp_withdraw_apply_effect [OF wf p id nn ap]
  let ?p' = "update_virtual_value (p\<lparr>balance_a := balance_a p - a, balance_b := balance_b p - b\<rparr>)"
  have p': "tbl_get (lpw_pool op) (liquidity_pools d') = Some ?p'" using e(3) by simp
  have bal: "balance_a ?p' = balance_a p - a" "balance_b ?p' = balance_b p - b" "share_asset ?p' = share_asset p"
    by (simp_all add: update_virtual_value_def)
  have "balance_a p < 2 ^ 63" "balance_b p < 2 ^ 63" using pok by (simp_all add: pool_ok_def)
  then have "pool_ok ?p'" using e(6) ok by (intro update_virtual_value_ok [OF pok]) auto
  moreover have "0 \<le> supply_of c d' \<and> supply_of c d' \<le> GRAPHENE_MAX_SHARE_SUPPLY" for c
  proof (cases "c = share_asset p")
    case True
    then show ?thesis using e(4) [of c] ge pos(2) s bnd by simp
  next
    case False
    then show ?thesis using e(4) [of c] pw by (simp add: pools_wf_def)
  qed
  ultimately have pw': "pools_wf d'" using e(3,5) by (intro pools_wf_step [OF pw]) auto
  have s': "supply_of (share_asset p) d' = current_supply dd - amount (share_amount op)" using e(4) s by simp
  show ?thesis
    by (rule that [OF p p' e(1) pw' e(2)])
      (use ok bal s s' in \<open>simp_all add: left_diff_distrib right_diff_distrib mult.commute\<close>)
qed

end


definition bal_in :: "liquidity_pool_object \<Rightarrow> asset_id_type \<Rightarrow> share_type" where
  "bal_in p i = (if i = asset_a p then balance_a p else balance_b p)"

definition bal_out :: "liquidity_pool_object \<Rightarrow> asset_id_type \<Rightarrow> share_type" where
  "bal_out p i = (if i = asset_a p then balance_b p else balance_a p)"

context fc_safe
begin

lemma exchange_compute_facts:
  assumes run: "exchange_compute L p sell mn robj pobj bi bo = Some r"
  obtains delta where
    "calculate_market_fee (asset_id sell) robj sell True = Some (maker_market_fee r)"
    "amount (maker_market_fee r) < amount sell" "pool_receives r = mk_asset (amount sell - amount (maker_market_fee r)) (asset_id sell)"
    "exchange_delta L (virtual_value p) bi bo (amount (pool_receives r)) = Some delta"
    "u128 (delta * lp_taker_fee_percent p) div GRAPHENE_100_PERCENT \<le> delta"
    "pool_pays r = mk_asset (s64 (delta - u128 (delta * lp_taker_fee_percent p) div GRAPHENE_100_PERCENT)) (asset_id mn)"
    "calculate_market_fee (asset_id mn) pobj (pool_pays r) False = Some (taker_market_fee r)"
    "account_receives r = mk_asset (amount (pool_pays r) - amount (taker_market_fee r)) (asset_id mn)"
    "amount mn \<le> amount (account_receives r)"
  using run
  by (clarsimp simp: exchange_compute_def opt_bind Let_def asset_cmp_Some asset_sub_Some)

end


context fc_safe
begin

lemma exchange_value:
  assumes run: "exchange_compute L p sell mn robj pobj bi bo = Some r" and vv: "virtual_value p = bi * bo"
    and bal: "0 < bi" "0 < bo" "bo < 2 ^ 63" and pct: "0 \<le> lp_taker_fee_percent p" "lp_taker_fee_percent p \<le> GRAPHENE_100_PERCENT"
  shows "0 \<le> amount (pool_pays r)" "amount (pool_pays r) < bo" "0 < amount (pool_receives r)"
    "bi * bo \<le> (bi + amount (pool_receives r)) * (bo - amount (pool_pays r))"
proof -
  obtain delta where f: "amount (maker_market_fee r) < amount sell"
    "pool_receives r = mk_asset (amount sell - amount (maker_market_fee r)) (asset_id sell)"
    "exchange_delta L (virtual_value p) bi bo (amount (pool_receives r)) = Some delta"
    "pool_pays r = mk_asset (s64 (delta - u128 (delta * lp_taker_fee_percent p) div GRAPHENE_100_PERCENT)) (asset_id mn)"
    using exchange_compute_facts [OF run] by metis
  let ?x = "amount (pool_receives r)" and ?n = "div_up (bi * bo) (bi + amount (pool_receives r))"
  show x: "0 < ?x" using f(1,2) by simp
  have fit: "bi + ?x < 2 ^ 63" using f(3) by (auto simp: exchange_delta_def opt_bind safe_Some in_s64_def)
  note e = exchange_delta_exact [OF bal x fit]
  have dl: "delta = bo - ?n" using f(3) e(1) vv by simp
  have d: "0 \<le> delta" "delta < bo" using e(2,3) dl by simp_all
  have dp: "0 \<le> delta * lp_taker_fee_percent p" "delta * lp_taker_fee_percent p \<le> delta * 10000"
    using d(1) pct by (auto simp: chain_consts intro: mult_left_mono)
  then have fee: "0 \<le> delta * lp_taker_fee_percent p div 10000" "delta * lp_taker_fee_percent p div 10000 \<le> delta"
    "u128 (delta * lp_taker_fee_percent p) = delta * lp_taker_fee_percent p"
    using zdiv_mono1 [of "delta * lp_taker_fee_percent p" "delta * 10000" 10000] d bal(3)
    by (simp_all add: pos_imp_zdiv_nonneg_iff)
  have pays: "amount (pool_pays r) = delta - delta * lp_taker_fee_percent p div 10000"
    using f(4) fee d bal(3) by (simp add: chain_consts)
  show "0 \<le> amount (pool_pays r)" "amount (pool_pays r) < bo" using pays fee d by simp_all
  have "?n \<le> bo - amount (pool_pays r)" using pays fee(1) dl by simp
  then have "(bi + ?x) * ?n \<le> (bi + ?x) * (bo - amount (pool_pays r))" using bal x by (intro mult_left_mono) auto
  with e(4) show "bi * bo \<le> (bi + ?x) * (bo - amount (pool_pays r))" by linarith
qed

lemma lp_exchange_apply_effect:
  assumes wf: "db_wf d" and p: "tbl_get (lpx_pool op) (liquidity_pools d) = Some p" and ab: "asset_a p \<noteq> asset_b p"
    and sides: "asset_id (lpx_amount_to_sell op) = asset_a p \<and> asset_id (pool_pays r) = asset_b p \<or>
      asset_id (lpx_amount_to_sell op) = asset_b p \<and> asset_id (pool_pays r) = asset_a p"
    and mf: "asset_id (maker_market_fee r) = asset_id (lpx_amount_to_sell op)" "0 \<le> amount (maker_market_fee r)"
    and tf: "asset_id (taker_market_fee r) = asset_id (pool_pays r)" "0 \<le> amount (taker_market_fee r)"
    and rc: "pool_receives r = mk_asset (amount (lpx_amount_to_sell op) - amount (maker_market_fee r)) (asset_id (lpx_amount_to_sell op))"
      "account_receives r = mk_asset (amount (pool_pays r) - amount (taker_market_fee r)) (asset_id (pool_pays r))"
    and run: "lp_exchange_apply L op r d = Some d'"
  defines "p' \<equiv> update_virtual_value (if asset_id (lpx_amount_to_sell op) = asset_a p
      then p\<lparr>balance_a := balance_a p + amount (pool_receives r), balance_b := balance_b p - amount (pool_pays r)\<rparr>
      else p\<lparr>balance_a := balance_a p - amount (pool_pays r), balance_b := balance_b p + amount (pool_receives r)\<rparr>)"
  shows "db_wf d'" "gap b d' = gap b d" "same_supplies d d'"
    "tbl_get i (liquidity_pools d') = (if i = lpx_pool op then Some p' else tbl_get i (liquidity_pools d))"
    "0 < balance_a p'" "0 < balance_b p'" "balance_a p' < 2 ^ 63" "balance_b p' < 2 ^ 63"
    "amount (get_balance d' o' c) = amount (get_balance d o' c) + (if o' = lpx_account op
       then of_asset c (account_receives r) - of_asset c (lpx_amount_to_sell op) else 0)"
proof -
  let ?sell = "lpx_amount_to_sell op" and ?pays = "pool_pays r" and ?acc = "lpx_account op"
  from run obtain d1 d2 q sa owner robj f3 d3 acct pobj f4 d4 where
    d1: "adjust_balance L ?acc (mk_asset (- amount ?sell) (asset_id ?sell)) d = Some d1" and
    d2: "adjust_balance L ?acc (account_receives r) d1 = Some d2" and
    q: "tbl_get (lpx_pool op) (liquidity_pools d2) = Some q" and
    ro: "tbl_get (asset_id ?sell) (assets d2) = Some robj" and
    d3: "pay_market_fees L (Some owner) (asset_id ?sell) robj ?sell True (Some (maker_market_fee r)) d2 = Some (f3, d3)" and
    po: "tbl_get (asset_id ?pays) (assets d3) = Some pobj" and
    d4: "pay_market_fees L (Some acct) (asset_id ?pays) pobj ?pays False (Some (taker_market_fee r)) d3 = Some (f4, d4)" and
    md: "(if asset_id ?sell = asset_a q then do {
              a \<leftarrow> safe_add L (balance_a q) (amount (pool_receives r));
              b \<leftarrow> safe_sub L (balance_b q) (amount ?pays);
              Some (update_virtual_value (q\<lparr>balance_a := a, balance_b := b\<rparr>))
            } else do {
              b \<leftarrow> safe_add L (balance_b q) (amount (pool_receives r));
              a \<leftarrow> safe_sub L (balance_a q) (amount ?pays);
              Some (update_virtual_value (q\<lparr>balance_a := a, balance_b := b\<rparr>))
            }) \<bind> (\<lambda>p'. if balance_a p' > 0 \<and> balance_b p' > 0 then if virtual_value p' \<ge> virtual_value q then
              Some (d4\<lparr>liquidity_pools := tbl_modify (lpx_pool op) (\<lambda>_. p') (liquidity_pools d4)\<rparr>) else None else None) = Some d'"
    unfolding lp_exchange_apply_def Let_def
    by (clarsimp simp: opt_bind asset_neg_def safe_Some split del: if_split)
  note k1 = adjust_balance_keeps [OF d1] and k2 = adjust_balance_keeps [OF d2]
  have [simp]: "q = p" using q p k1 k2 by simp
  note e1 = adjust_balance_effect [OF wf d1]
  note e2 = adjust_balance_effect [OF e1(1) d2]
  have f3: "f3 = maker_market_fee r" using d3 by (auto simp: pay_market_fees_def opt_bind)
  have f4: "f4 = taker_market_fee r" using d4 by (auto simp: pay_market_fees_def opt_bind)
  note e3 = pay_market_fees_effect [OF e2(1) ro d3, unfolded f3, OF mf]
  note e4 = pay_market_fees_effect [OF e3(1) po d4, unfolded f4, OF tf]
  have lp: "liquidity_pools d4 = liquidity_pools d" "account_balances d4 = account_balances d2"
    using k1(3) k2(3) by (subst e4(4), subst e3(4), simp)+
  have d': "d' = d4\<lparr>liquidity_pools := tbl_modify (lpx_pool op) (\<lambda>_. p') (liquidity_pools d4)\<rparr>"
    and bd: "0 < balance_a p'" "0 < balance_b p'" "balance_a p' < 2 ^ 63" "balance_b p' < 2 ^ 63"
    using md by (auto simp: p'_def opt_bind safe_Some in_s64_def update_virtual_value_def split: if_splits)
  show "0 < balance_a p'" "0 < balance_b p'" "balance_a p' < 2 ^ 63" "balance_b p' < 2 ^ 63" by (rule bd)+
  have p4: "tbl_get (lpx_pool op) (liquidity_pools d4) = Some p" using lp p by simp
  have ids: "asset_a p' = asset_a p" "asset_b p' = asset_b p"
    "balance_a p' = (if asset_id ?sell = asset_a p then balance_a p + amount (pool_receives r) else balance_a p - amount ?pays)"
    "balance_b p' = (if asset_id ?sell = asset_a p then balance_b p - amount ?pays else balance_b p + amount (pool_receives r))"
    by (simp_all add: p'_def update_virtual_value_def)
  note m = modify_pool_effect [OF e4(1) p4 ids(1,2), folded d']
  show "db_wf d'" by (rule m(1))
  show "tbl_get i (liquidity_pools d') = (if i = lpx_pool op then Some p' else tbl_get i (liquidity_pools d))"
    using m(2) [of i] lp by simp
  have "same_supplies d d2" using k1 k2 by (simp add: same_supplies_def)
  then show "same_supplies d d'" by (intro same_supplies_trans [OF _ m(4)] same_supplies_trans [OF _ e4(3)] same_supplies_trans [OF _ e3(3)])
  have "gap b d' = gap b d - of_asset b ?sell + of_asset b (account_receives r) + of_asset b (maker_market_fee r) + of_asset b (taker_market_fee r) +
      (if asset_a p = b then balance_a p' - balance_a p else 0) + (if asset_b p = b then balance_b p' - balance_b p else 0)"
    using m(3) [of b] e1(2) [of b] e2(2) [of b] e3(2) [of b] e4(2) [of b] by (simp add: of_asset_def)
  then show "gap b d' = gap b d"
    using sides ab mf(1) tf(1) rc ids(3,4) by (cases "b = asset_a p"; cases "b = asset_b p") (auto simp: of_asset_def)
  have "account_balances d' = account_balances d2" using lp(2) by (simp add: d')
  from get_balance_cong [OF this]
  show "amount (get_balance d' o' c) = amount (get_balance d o' c) + (if o' = ?acc
       then of_asset c (account_receives r) - of_asset c ?sell else 0)"
    using adjust_balance_read [OF wf d1, of o' c] adjust_balance_read [OF e1(1) d2, of o' c] by (simp add: of_asset_def)
qed

end


context fc_safe
begin

lemma lp_exchange_effect:
  assumes wf: "db_wf d" and pw: "pools_wf d" and run: "lp_exchange L op d = Some d'"
  obtains p p' where "tbl_get (lpx_pool op) (liquidity_pools d) = Some p" "tbl_get (lpx_pool op) (liquidity_pools d') = Some p'"
    "db_wf d'" "pools_wf d'" "\<And>b. gap b d' = gap b d" "share_asset p' = share_asset p" "same_supplies d d'"
    "virtual_value p \<le> virtual_value p'"
    "amount (get_balance d (lpx_account op) (asset_id (lpx_min_to_receive op))) + amount (lpx_min_to_receive op)
       \<le> amount (get_balance d' (lpx_account op) (asset_id (lpx_min_to_receive op)))"
    "amount (get_balance d' (lpx_account op) (asset_id (lpx_amount_to_sell op))) =
       amount (get_balance d (lpx_account op) (asset_id (lpx_amount_to_sell op))) - amount (lpx_amount_to_sell op)"
proof -
  let ?sell = "lpx_amount_to_sell op" and ?min = "lpx_min_to_receive op"
  from run obtain r p aa ab where
    p: "tbl_get (lpx_pool op) (liquidity_pools d) = Some p" and pos: "0 < balance_a p" "0 < balance_b p"
    and sd: "asset_id ?sell = asset_a p \<and> asset_id ?min = asset_b p \<or> asset_id ?sell = asset_b p \<and> asset_id ?min = asset_a p"
    and aa: "tbl_get (asset_a p) (assets d) = Some aa" and ab: "tbl_get (asset_b p) (assets d) = Some ab"
    and cp: "(if asset_id ?sell = asset_a p then exchange_compute L p ?sell ?min aa ab (balance_a p) (balance_b p)
        else exchange_compute L p ?sell ?min ab aa (balance_b p) (balance_a p)) = Some r"
    and ap: "lp_exchange_apply L op r d = Some d'" and ne: "asset_id ?sell \<noteq> asset_id ?min"
    unfolding lp_exchange_def lp_exchange_validate_def lp_exchange_evaluate_def Let_def
    by (clarsimp simp: opt_bind split del: if_split)
  have pok: "pool_ok p" and mx: "0 \<le> max_market_fee (ao_options aa)" "0 \<le> max_market_fee (ao_options ab)"
    using pw p aa ab unfolding pools_wf_def by blast+
  then have pk: "asset_a p \<noteq> asset_b p" "balance_a p < 2 ^ 63" "balance_b p < 2 ^ 63" "virtual_value p = balance_a p * balance_b p"
    "0 \<le> lp_taker_fee_percent p" "lp_taker_fee_percent p \<le> GRAPHENE_100_PERCENT" by (simp_all add: pool_ok_def)
  define sa where "sa \<longleftrightarrow> asset_id ?sell = asset_a p"
  let ?robj = "if sa then aa else ab" and ?pobj = "if sa then ab else aa"
  let ?bi = "if sa then balance_a p else balance_b p" and ?bo = "if sa then balance_b p else balance_a p"
  have c: "exchange_compute L p ?sell ?min ?robj ?pobj ?bi ?bo = Some r" using cp by (simp add: sa_def split: if_splits)
  have vv: "virtual_value p = ?bi * ?bo" using pk(4) by (simp add: mult.commute)
  have bb: "0 < ?bi" "0 < ?bo" "?bo < 2 ^ 63" using pos pk by simp_all
  note v = exchange_value [OF c vv bb pk(5,6)]
  obtain delta where f: "calculate_market_fee (asset_id ?sell) ?robj ?sell True = Some (maker_market_fee r)"
    "pool_receives r = mk_asset (amount ?sell - amount (maker_market_fee r)) (asset_id ?sell)"
    "pool_pays r = mk_asset (s64 (delta - u128 (delta * lp_taker_fee_percent p) div GRAPHENE_100_PERCENT)) (asset_id ?min)"
    "calculate_market_fee (asset_id ?min) ?pobj (pool_pays r) False = Some (taker_market_fee r)"
    "account_receives r = mk_asset (amount (pool_pays r) - amount (taker_market_fee r)) (asset_id ?min)"
    "amount ?min \<le> amount (account_receives r)"
    using exchange_compute_facts [OF c] by metis
  have pid: "asset_id (pool_pays r) = asset_id ?min" using f(3) by simp
  have mf: "asset_id (maker_market_fee r) = asset_id ?sell" "0 \<le> amount (maker_market_fee r)"
    "asset_id (taker_market_fee r) = asset_id (pool_pays r)" "0 \<le> amount (taker_market_fee r)"
    using market_fee_id [OF f(1)] market_fee_nonneg [OF f(1)] market_fee_id [OF f(4)] market_fee_nonneg [OF f(4)] mx pid
    by simp_all
  note e = lp_exchange_apply_effect [OF wf p pk(1) sd [folded pid] mf f(2) f(5) [folded pid] ap]
  define q where "q = (if asset_id ?sell = asset_a p
      then p\<lparr>balance_a := balance_a p + amount (pool_receives r), balance_b := balance_b p - amount (pool_pays r)\<rparr>
      else p\<lparr>balance_a := balance_a p - amount (pool_pays r), balance_b := balance_b p + amount (pool_receives r)\<rparr>)"
  have qe: "q = p\<lparr>balance_a := balance_a q, balance_b := balance_b q\<rparr>" by (simp add: q_def)
  have qb: "0 < balance_a q" "0 < balance_b q" "balance_a q < 2 ^ 63" "balance_b q < 2 ^ 63"
    using e(5-8) by (simp_all add: q_def [symmetric] update_virtual_value_def)
  have qok: "pool_ok (update_virtual_value q)" "virtual_value (update_virtual_value q) = balance_a q * balance_b q"
    using update_virtual_value_ok [OF pok, of "balance_a q" "balance_b q"] qb qe by simp_all
  have "virtual_value p \<le> balance_a q * balance_b q"
    using v(4) vv by (simp add: q_def sa_def mult.commute split: if_splits)
  moreover have p': "tbl_get (lpx_pool op) (liquidity_pools d') = Some (update_virtual_value q)" using e(4) by (simp add: q_def)
  moreover have "pools_wf d'"
    using e(3,4) pw qok(1) by (intro pools_wf_step [OF pw qok(1), where k = "lpx_pool op"]) (simp_all add: same_supplies_def pools_wf_def q_def [symmetric])
  moreover have "share_asset (update_virtual_value q) = share_asset p" by (simp add: update_virtual_value_def q_def)
  ultimately show ?thesis
    using e(9) [of "lpx_account op" "asset_id ?min"] e(9) [of "lpx_account op" "asset_id ?sell"] f(5,6) ne qok(2)
    by (intro that [OF p p' e(1) _ e(2) _ e(3)]) (simp_all add: of_asset_def)
qed

end

section \<open>Histories of a pool\<close>

datatype pool_op = Deposit liquidity_pool_deposit_operation | Withdraw liquidity_pool_withdraw_operation
  | Exchange liquidity_pool_exchange_operation

fun pool_exec :: "fc_lib \<Rightarrow> pool_op \<Rightarrow> database \<Rightarrow> database option" where
  "pool_exec L (Deposit op) d = lp_deposit L op d"
| "pool_exec L (Withdraw op) d = lp_withdraw L op d"
| "pool_exec L (Exchange op) d = lp_exchange L op d"

fun pool_of_op :: "pool_op \<Rightarrow> nat" where
  "pool_of_op (Deposit op) = lpp_pool op"
| "pool_of_op (Withdraw op) = lpw_pool op"
| "pool_of_op (Exchange op) = lpx_pool op"

fun pool_amounts :: "pool_op \<Rightarrow> asset list" where
  "pool_amounts (Deposit op) = [amount_a op, amount_b op]"
| "pool_amounts (Withdraw op) = [share_amount op]"
| "pool_amounts (Exchange op) = [lpx_amount_to_sell op, lpx_min_to_receive op]"

text \<open>
  The five operations of the life of pools: a pool is created empty, used, and deleted once it is empty again. The fee
  percentages of a creation are unsigned 16-bit fields, the amounts of the other operations signed 64-bit fields.
\<close>

datatype pool_step = Create liquidity_pool_create_operation | Delete liquidity_pool_delete_operation | Use pool_op

fun pool_step_exec :: "fc_lib \<Rightarrow> pool_step \<Rightarrow> database \<Rightarrow> database option" where
  "pool_step_exec L (Create op) d = do { (i, d') \<leftarrow> lp_create op d; Some d' }"
| "pool_step_exec L (Delete op) d = lp_delete op d"
| "pool_step_exec L (Use x) d = pool_exec L x d"

fun pool_step_typed :: "pool_step \<Rightarrow> bool" where
  "pool_step_typed (Create op) \<longleftrightarrow> 0 \<le> lpc_taker_fee_percent op \<and> 0 \<le> lpc_withdrawal_fee_percent op"
| "pool_step_typed (Delete op) \<longleftrightarrow> True"
| "pool_step_typed (Use x) \<longleftrightarrow> op_amounts_ok (pool_amounts x)"

fun pool_run :: "fc_lib \<Rightarrow> pool_step list \<Rightarrow> database \<Rightarrow> database option" where
  "pool_run L [] d = Some d"
| "pool_run L (x # xs) d = (pool_step_exec L x d \<bind> pool_run L xs)"

lemma pool_ok_value: "pools_wf d \<Longrightarrow> tbl_get i (liquidity_pools d) = Some p \<Longrightarrow>
    virtual_value p = balance_a p * balance_b p \<and> 0 \<le> balance_a p \<and> 0 \<le> balance_b p"
  unfolding pools_wf_def pool_ok_def by metis

context fc_safe
begin

lemma pool_exec_effect:
  assumes wf: "db_wf d" and pw: "pools_wf d" and amt: "op_amounts_ok (pool_amounts x)" and run: "pool_exec L x d = Some d'"
  obtains p p' where "tbl_get (pool_of_op x) (liquidity_pools d) = Some p" "tbl_get (pool_of_op x) (liquidity_pools d') = Some p'"
    "db_wf d'" "pools_wf d'" "\<And>b. gap b d' = gap b d" "share_asset p' = share_asset p"
    "virtual_value p * supply_of (share_asset p) d' ^ 2 \<le> virtual_value p' * supply_of (share_asset p) d ^ 2"
proof (cases x)
  case (Deposit op)
  then have r: "lp_deposit L op d = Some d'" "op_amounts_ok [amount_a op, amount_b op]" using run amt by simp_all
  obtain p p' where e: "tbl_get (lpp_pool op) (liquidity_pools d) = Some p" "tbl_get (lpp_pool op) (liquidity_pools d') = Some p'"
    "db_wf d'" "pools_wf d'" "\<And>b. gap b d' = gap b d" "share_asset p' = share_asset p"
    "balance_a p * supply_of (share_asset p) d' \<le> balance_a p' * supply_of (share_asset p) d"
    "balance_b p * supply_of (share_asset p) d' \<le> balance_b p' * supply_of (share_asset p) d"
    using lp_deposit_effect [OF wf pw r(2,1)] by metis
  have "virtual_value p * supply_of (share_asset p) d' ^ 2 \<le> virtual_value p' * supply_of (share_asset p) d ^ 2"
    using value_per_share [OF _ _ _ _ e(7,8)] pool_ok_value [OF pw e(1)] pool_ok_value [OF e(4,2)] pw e(4) by (simp add: pools_wf_def)
  with e Deposit show ?thesis by (intro that [of p p']) simp_all
next
  case (Withdraw op)
  then have r: "lp_withdraw L op d = Some d'" using run by simp
  obtain p p' where e: "tbl_get (lpw_pool op) (liquidity_pools d) = Some p" "tbl_get (lpw_pool op) (liquidity_pools d') = Some p'"
    "db_wf d'" "pools_wf d'" "\<And>b. gap b d' = gap b d" "share_asset p' = share_asset p"
    "balance_a p * supply_of (share_asset p) d' \<le> balance_a p' * supply_of (share_asset p) d"
    "balance_b p * supply_of (share_asset p) d' \<le> balance_b p' * supply_of (share_asset p) d"
    using lp_withdraw_effect [OF wf pw r] by metis
  have "virtual_value p * supply_of (share_asset p) d' ^ 2 \<le> virtual_value p' * supply_of (share_asset p) d ^ 2"
    using value_per_share [OF _ _ _ _ e(7,8)] pool_ok_value [OF pw e(1)] pool_ok_value [OF e(4,2)] pw e(4) by (simp add: pools_wf_def)
  with e Withdraw show ?thesis by (intro that [of p p']) simp_all
next
  case (Exchange op)
  then have r: "lp_exchange L op d = Some d'" using run by simp
  obtain p p' where e: "tbl_get (lpx_pool op) (liquidity_pools d) = Some p" "tbl_get (lpx_pool op) (liquidity_pools d') = Some p'"
    "db_wf d'" "pools_wf d'" "\<And>b. gap b d' = gap b d" "share_asset p' = share_asset p" "same_supplies d d'"
    "virtual_value p \<le> virtual_value p'"
    using lp_exchange_effect [OF wf pw r] by metis
  have "virtual_value p * supply_of (share_asset p) d' ^ 2 \<le> virtual_value p' * supply_of (share_asset p) d ^ 2"
    using e(7,8) by (simp add: same_supplies_def mult_right_mono)
  with e Exchange show ?thesis by (intro that [of p p']) simp_all
qed

end

text \<open>Setting the pool of a share asset, as creation and deletion do, touches neither the ledger nor the supplies.\<close>

lemma link_pool_effect:
  fixes k :: nat and x :: "nat option"
  assumes wf: "db_wf d"
  defines "d' \<equiv> d\<lparr>assets := tbl_modify k (\<lambda>a. a\<lparr>for_liquidity_pool := x\<rparr>) (assets d)\<rparr>"
  shows "db_wf d'" "gap b d' = gap b d" "supply_of b d' = supply_of b d" "liquidity_pools d' = liquidity_pools d"
    "tbl_get i (assets d') = Some a' \<Longrightarrow> \<exists>a. tbl_get i (assets d) = Some a \<and> ao_options a' = ao_options a"
proof -
  have g: "get_dynamic_data d' c = get_dynamic_data d c" for c
    by (cases "tbl_get c (assets d)") (auto simp: d'_def get_dynamic_data_def tbl.get_modify)
  show "db_wf d'"
    using wf by (fastforce simp: d'_def db_wf_def assets_linked_def tbl_wf_ops tbl.get_modify split: if_splits)
  show "supply_of b d' = supply_of b d" by (simp add: supply_of_def g)
  show "gap b d' = gap b d"
    by (simp add: gap_def held_def in_tables in_fee_pools_def in_accumulated_def supply_of_def g, simp add: d'_def)
  show "liquidity_pools d' = liquidity_pools d" by (simp add: d'_def)
  show "\<exists>a. tbl_get i (assets d) = Some a \<and> ao_options a' = ao_options a" if "tbl_get i (assets d') = Some a'"
    using that by (auto simp: d'_def tbl.get_modify split: if_splits)
qed

lemma pools_wf_link:
  assumes "db_wf d" "pools_wf d"
  shows "pools_wf (d\<lparr>assets := tbl_modify k (\<lambda>a. a\<lparr>for_liquidity_pool := x\<rparr>) (assets d)\<rparr>)"
  using assms(2) link_pool_effect(3-5) [OF assms(1)] unfolding pools_wf_def by metis

lemma lp_create_effect:
  assumes wf: "db_wf d" and pw: "pools_wf d" and typed: "pool_step_typed (Create op)" and run: "lp_create op d = Some (i, d')"
  shows "db_wf d' \<and> pools_wf d' \<and> (\<forall>b. gap b d' = gap b d)"
proof -
  define p where "p = \<lparr>asset_a = lpc_asset_a op, asset_b = lpc_asset_b op, balance_a = 0, balance_b = 0,
    share_asset = lpc_share_asset op, lp_taker_fee_percent = lpc_taker_fee_percent op,
    withdrawal_fee_percent = lpc_withdrawal_fee_percent op, virtual_value = 0\<rparr>"
  define d1 where "d1 = d\<lparr>assets := tbl_modify (lpc_share_asset op) (\<lambda>a. a\<lparr>for_liquidity_pool := Some i\<rparr>) (assets d)\<rparr>"
  note l = link_pool_effect [OF wf, where k = "lpc_share_asset op" and x = "Some i", folded d1_def]
  have d': "d' = d1\<lparr>liquidity_pools := snd (tbl_create p (liquidity_pools d1))\<rparr>"
    and ok: "pool_ok p"
    using run typed
    by (auto simp: lp_create_def lp_create_validate_def lp_create_apply_def opt_bind d1_def p_def pool_ok_def Let_def
      split: prod.splits)
  have "tbl_wf (liquidity_pools d1)" using l(1) by (simp add: db_wf_tables)
  then have "pools_wf d'"
    using pools_wf_link [OF wf pw, where k = "lpc_share_asset op" and x = "Some i", folded d1_def] ok
    by (auto simp: d' pools_wf_def tbl.get_create supply_of_def get_dynamic_data_def)
  then show ?thesis
    using l(1,2) \<open>tbl_wf _\<close> by (simp add: d' db_wf_upd tbl_wf_ops gap_upd pool_of_def p_def)
qed

text \<open>Only an empty pool is deleted.\<close>

lemma lp_delete_effect:
  assumes wf: "db_wf d" and pw: "pools_wf d" and run: "lp_delete op d = Some d'"
  shows "db_wf d' \<and> pools_wf d' \<and> (\<forall>b. gap b d' = gap b d)"
proof -
  from run obtain p where p: "tbl_get (lpd_pool op) (liquidity_pools d) = Some p" "balance_a p = 0" "balance_b p = 0"
    and d': "d' = d\<lparr>assets := tbl_modify (share_asset p) (\<lambda>a. a\<lparr>for_liquidity_pool := None\<rparr>) (assets d),
      liquidity_pools := tbl_remove (lpd_pool op) (liquidity_pools d)\<rparr>"
    by (auto simp: lp_delete_def lp_delete_evaluate_def lp_delete_apply_def opt_bind)
  define d1 where "d1 = d\<lparr>assets := tbl_modify (share_asset p) (\<lambda>a. a\<lparr>for_liquidity_pool := None\<rparr>) (assets d)\<rparr>"
  note l = link_pool_effect [OF wf, where k = "share_asset p" and x = None, folded d1_def]
  have d'1: "d' = d1\<lparr>liquidity_pools := tbl_remove (lpd_pool op) (liquidity_pools d1)\<rparr>" by (simp add: d' d1_def)
  have wf1: "tbl_wf (liquidity_pools d1)" using l(1) by (simp add: db_wf_tables)
  then have "pools_wf d'"
    using pools_wf_link [OF wf pw, where k = "share_asset p" and x = None, folded d1_def]
    by (auto simp: d'1 pools_wf_def tbl.get_remove supply_of_def get_dynamic_data_def)
  moreover have "tbl_get (lpd_pool op) (liquidity_pools d1) = Some p" using p(1) l(4) by simp
  ultimately show ?thesis
    using l(1,2) wf1 p(2,3) by (simp add: d'1 db_wf_upd tbl_wf_ops gap_upd tbl_sum_remove pool_of_def)
qed

context fc_safe
begin

lemma pool_step_effect:
  assumes "db_wf d" "pools_wf d" "pool_step_typed x" "pool_step_exec L x d = Some d'"
  shows "db_wf d' \<and> pools_wf d' \<and> (\<forall>b. gap b d' = gap b d)"
proof (cases x)
  case (Create op)
  then obtain i where i: "lp_create op d = Some (i, d')" using assms(4) by (auto simp: opt_bind)
  show ?thesis using lp_create_effect [OF assms(1,2) assms(3) [unfolded Create] i] .
next
  case (Delete op)
  then have "lp_delete op d = Some d'" using assms(4) by simp
  then show ?thesis by (rule lp_delete_effect [OF assms(1,2)])
next
  case (Use y)
  with assms(3,4) have y: "op_amounts_ok (pool_amounts y)" "pool_exec L y d = Some d'" by simp_all
  show ?thesis by (rule pool_exec_effect [OF assms(1,2) y]) simp
qed

lemma pool_run_effect:
  "db_wf d \<Longrightarrow> pools_wf d \<Longrightarrow> \<forall>x \<in> set xs. pool_step_typed x \<Longrightarrow> pool_run L xs d = Some d' \<Longrightarrow>
   db_wf d' \<and> pools_wf d' \<and> (\<forall>b. gap b d' = gap b d)"
proof (induction xs arbitrary: d)
  case (Cons x xs)
  then obtain d1 where d1: "pool_step_exec L x d = Some d1" "pool_run L xs d1 = Some d'" by (auto simp: opt_bind)
  have e: "db_wf d1 \<and> pools_wf d1 \<and> (\<forall>b. gap b d1 = gap b d)" using pool_step_effect [OF Cons(2,3) _ d1(1)] Cons(4) by simp
  with Cons(1) [OF _ _ _ d1(2)] Cons(4) show ?case by simp
qed simp

end


section \<open>Properties\<close>

text \<open>
  (C30) Liquidity pools neither create nor lose value: over any sequence of creations, deposits, withdrawals, exchanges and
  deletions that succeed, what the chain holds of every asset beyond its recorded supply stays the same, share assets included,
  and the pools keep their invariant (balances within 64 bits, both or none zero, the virtual value the product of the balances).
  In particular a deletion that succeeds removes no pool that still holds something. Amounts and fee percentages are within
  the range of their fields.
\<close>

theorem pool_history_conserves:
  assumes "fc_safe L" "db_wf d" "pools_wf d" "\<forall>x \<in> set xs. pool_step_typed x" "pool_run L xs d = Some d'"
  shows "db_wf d' \<and> pools_wf d' \<and> (\<forall>b. gap b d' = gap b d)"
  using fc_safe.pool_run_effect [OF assms] .

definition demo_pool_asset :: "nat \<Rightarrow> asset_object" where
  "demo_pool_asset i = \<lparr>symbol = ''X'', precision = 5, ao_issuer = 7,
     ao_options = \<lparr>max_supply = 1000000, market_fee_percent = 0, max_market_fee = 1000, issuer_permissions = 0, asset_flags = 0,
       core_exchange_rate_opt = mk_price (mk_asset 1 0) (mk_asset 1 0), whitelist_authorities = [], blacklist_authorities = [],
       whitelist_markets = [], blacklist_markets = [], reward_percent = None, whitelist_market_fee_sharing = None,
       taker_fee_percent_opt = None\<rparr>,
     dynamic_asset_data_id = i, bitasset_data_id = None, buyback_account = None, for_liquidity_pool = None\<rparr>"

definition demo_pool :: liquidity_pool_object where
  "demo_pool = \<lparr>asset_a = 1, asset_b = 2, balance_a = 1000, balance_b = 4000, share_asset = 3, lp_taker_fee_percent = 100,
     withdrawal_fee_percent = 100, virtual_value = 4000000\<rparr>"

definition demo_dyn_of :: "share_type \<Rightarrow> asset_dynamic_data_object" where
  "demo_dyn_of s = \<lparr>current_supply = s, confidential_supply = 0, accumulated_fees = 0, fee_pool = 0\<rparr>"

definition demo_pools :: database where
  "demo_pools = demo_accounts\<lparr>
     account_balances := \<lparr>rows = [(0, \<lparr>abo_owner = 7, abo_asset_type = 1, abo_balance = 5000, maintenance_flag = False\<rparr>),
       (1, \<lparr>abo_owner = 7, abo_asset_type = 2, abo_balance = 6000, maintenance_flag = False\<rparr>),
       (2, \<lparr>abo_owner = 7, abo_asset_type = 3, abo_balance = 2000, maintenance_flag = False\<rparr>)], next_instance = 3\<rparr>,
     assets := \<lparr>rows = [(1, demo_pool_asset 1), (2, demo_pool_asset 2), (3, demo_pool_asset 3)], next_instance = 4\<rparr>,
     asset_dynamic_data := \<lparr>rows = [(1, demo_dyn_of 6000), (2, demo_dyn_of 10000), (3, demo_dyn_of 2000)], next_instance = 4\<rparr>,
     liquidity_pools := \<lparr>rows = [(0, demo_pool)], next_instance = 1\<rparr>\<rparr>"

definition demo_exchange :: liquidity_pool_exchange_operation where
  "demo_exchange = \<lparr>lpx_fee = mk_asset 0 0, lpx_account = 7, lpx_pool = 0, lpx_amount_to_sell = mk_asset 250 1,
     lpx_min_to_receive = mk_asset 700 2\<rparr>"

definition demo_deposit :: liquidity_pool_deposit_operation where
  "demo_deposit = \<lparr>lpp_fee = mk_asset 0 0, lpp_account = 7, lpp_pool = 0, amount_a = mk_asset 100 1, amount_b = mk_asset 999 2\<rparr>"

definition demo_withdraw :: liquidity_pool_withdraw_operation where
  "demo_withdraw = \<lparr>lpw_fee = mk_asset 0 0, lpw_account = 7, lpw_pool = 0, share_amount = mk_asset 300 3\<rparr>"

lemma demo_pools_ok: "db_wf demo_pools" "pools_wf demo_pools"
proof -
  have g: "tbl_get i (assets demo_pools) = (if i \<in> {1, 2, 3} then Some (demo_pool_asset i) else None)"
    "tbl_get i (asset_dynamic_data demo_pools) = (if i = 1 then Some (demo_dyn_of 6000) else if i = 2 then Some (demo_dyn_of 10000)
       else if i = 3 then Some (demo_dyn_of 2000) else None)"
    "tbl_get i (liquidity_pools demo_pools) = (if i = 0 then Some demo_pool else None)" for i
    by (auto simp: demo_pools_def tbl_get_def)
  have "assets_linked demo_pools" by (auto simp: assets_linked_def g demo_pool_asset_def split: if_splits)
  then show "db_wf demo_pools"
    by (simp add: db_wf_def demo_pools_def demo_accounts_def demo_balances_def empty_database_def tbl_wf_def tbl_empty_def)
  have "0 \<le> supply_of b demo_pools \<and> supply_of b demo_pools \<le> GRAPHENE_MAX_SHARE_SUPPLY" for b
    by (simp add: supply_of_def get_dynamic_data_def g demo_pool_asset_def demo_dyn_of_def chain_consts)
  moreover have "pool_ok demo_pool" by (simp add: pool_ok_def demo_pool_def chain_consts)
  ultimately show "pools_wf demo_pools"
    by (simp add: pools_wf_def g demo_pool_asset_def chain_consts)
qed

text \<open>The life of a second pool, with share asset 4: created, filled, traded with, emptied by its only shareholder, deleted.\<close>

definition demo_two_pools :: database where
  "demo_two_pools = demo_pools\<lparr>
     assets := \<lparr>rows = [(1, demo_pool_asset 1), (2, demo_pool_asset 2), (3, demo_pool_asset 3), (4, demo_pool_asset 4)], next_instance = 5\<rparr>,
     asset_dynamic_data := \<lparr>rows = [(1, demo_dyn_of 6000), (2, demo_dyn_of 10000), (3, demo_dyn_of 2000), (4, demo_dyn_of 0)],
       next_instance = 5\<rparr>,
     head_block_time := HARDFORK_LIQUIDITY_POOL_TIME\<rparr>"

definition demo_life :: "pool_step list" where
  "demo_life = [
     Create \<lparr>lpc_fee = mk_asset 0 0, lpc_account = 7, lpc_asset_a = 1, lpc_asset_b = 2, lpc_share_asset = 4,
       lpc_taker_fee_percent = 100, lpc_withdrawal_fee_percent = 100\<rparr>,
     Use (Deposit (demo_deposit\<lparr>lpp_pool := 1\<rparr>)), Use (Exchange demo_exchange),
     Use (Exchange (demo_exchange\<lparr>lpx_pool := 1, lpx_amount_to_sell := mk_asset 50 1, lpx_min_to_receive := mk_asset 100 2\<rparr>)),
     Use (Withdraw (demo_withdraw\<lparr>lpw_pool := 1, share_amount := mk_asset 999 4\<rparr>)),
     Delete \<lparr>lpd_fee = mk_asset 0 0, lpd_account = 7, lpd_pool = 1\<rparr>]"

lemma demo_two_pools_ok: "db_wf demo_two_pools" "pools_wf demo_two_pools"
proof -
  have g: "tbl_get i (assets demo_two_pools) = (if i \<in> {1, 2, 3, 4} then Some (demo_pool_asset i) else None)"
    "tbl_get i (asset_dynamic_data demo_two_pools) = (if i = 1 then Some (demo_dyn_of 6000) else if i = 2 then Some (demo_dyn_of 10000)
       else if i = 3 then Some (demo_dyn_of 2000) else if i = 4 then Some (demo_dyn_of 0) else None)"
    "liquidity_pools demo_two_pools = liquidity_pools demo_pools" for i
    by (auto simp: demo_two_pools_def tbl_get_def demo_pools_def)
  have "assets_linked demo_two_pools" by (auto simp: assets_linked_def g demo_pool_asset_def split: if_splits)
  then show "db_wf demo_two_pools"
    using demo_pools_ok(1) by (simp add: db_wf_def, simp add: demo_two_pools_def tbl_wf_def)
  have "0 \<le> supply_of b demo_two_pools \<and> supply_of b demo_two_pools \<le> GRAPHENE_MAX_SHARE_SUPPLY" for b
    by (simp add: supply_of_def get_dynamic_data_def g demo_pool_asset_def demo_dyn_of_def chain_consts)
  then show "pools_wf demo_two_pools"
    using demo_pools_ok(2) by (simp add: pools_wf_def g demo_pool_asset_def chain_consts)
qed

theorem pool_history_conserves_witness:
  "\<exists>d'. pool_run checked_lib demo_life demo_two_pools = Some d' \<and>
     pools_wf d' \<and> gap 1 d' = gap 1 demo_two_pools \<and> gap 4 d' = gap 4 demo_two_pools"
proof -
  have "pool_run checked_lib demo_life demo_two_pools \<noteq> None" by code_simp
  then obtain d' where d': "pool_run checked_lib demo_life demo_two_pools = Some d'" by blast
  have "\<forall>x \<in> set demo_life. pool_step_typed x"
    by (simp add: demo_life_def op_amounts_ok_def in_s64_def demo_exchange_def demo_deposit_def demo_withdraw_def)
  from pool_history_conserves [OF checked_lib_safe demo_two_pools_ok this d'] d' show ?thesis by simp
qed

text \<open>
  (C13) The value of a share never falls: whatever a deposit, a withdrawal or an exchange does to a pool, the product of its
  balances relative to the square of the share supply does not decrease, because every rounding favours the pool. So no
  operation of one account takes from the shares of the others.
\<close>

theorem share_value_never_falls:
  assumes "fc_safe L" "db_wf d" "pools_wf d" "op_amounts_ok (pool_amounts x)" "pool_exec L x d = Some d'"
  shows "\<exists>p p'. tbl_get (pool_of_op x) (liquidity_pools d) = Some p \<and> tbl_get (pool_of_op x) (liquidity_pools d') = Some p' \<and>
    virtual_value p = balance_a p * balance_b p \<and> virtual_value p' = balance_a p' * balance_b p' \<and> share_asset p' = share_asset p \<and>
    virtual_value p * supply_of (share_asset p) d' ^ 2 \<le> virtual_value p' * supply_of (share_asset p) d ^ 2"
  using fc_safe.pool_exec_effect [OF assms] pool_ok_value [OF assms(3)] pool_ok_value by metis

theorem share_value_never_falls_witness:
  "\<exists>d' p'. pool_exec checked_lib (Deposit demo_deposit) demo_pools = Some d' \<and> tbl_get 0 (liquidity_pools d') = Some p' \<and>
     4000000 * supply_of 3 d' ^ 2 \<le> virtual_value p' * 2000 ^ 2"
proof -
  have "pool_exec checked_lib (Deposit demo_deposit) demo_pools \<noteq> None" by code_simp
  then obtain d' where d': "pool_exec checked_lib (Deposit demo_deposit) demo_pools = Some d'" by blast
  have "op_amounts_ok (pool_amounts (Deposit demo_deposit))" by (simp add: op_amounts_ok_def in_s64_def demo_deposit_def)
  moreover have "supply_of 3 demo_pools = 2000" by code_simp
  moreover have "tbl_get 0 (liquidity_pools demo_pools) = Some demo_pool" "virtual_value demo_pool = 4000000" "share_asset demo_pool = 3"
    by (simp_all add: demo_pools_def tbl_get_def demo_pool_def)
  ultimately show ?thesis
    using share_value_never_falls [OF checked_lib_safe demo_pools_ok _ d'] d' by (auto simp: demo_deposit_def)
qed

text \<open>
  An exchange with a pool keeps its word: the account pays exactly what it offered to sell and receives at least the
  minimum it asked for, the product of the pool's balances does not decrease, and no supply changes.
\<close>

theorem pool_exchange_fair:
  assumes "fc_safe L" "db_wf d" "pools_wf d" "lp_exchange L op d = Some d'"
  shows "(\<exists>p p'. tbl_get (lpx_pool op) (liquidity_pools d) = Some p \<and> tbl_get (lpx_pool op) (liquidity_pools d') = Some p' \<and>
      balance_a p * balance_b p \<le> balance_a p' * balance_b p') \<and>
    (\<forall>b. supply_of b d' = supply_of b d) \<and>
    amount (get_balance d (lpx_account op) (asset_id (lpx_min_to_receive op))) + amount (lpx_min_to_receive op)
      \<le> amount (get_balance d' (lpx_account op) (asset_id (lpx_min_to_receive op))) \<and>
    amount (get_balance d' (lpx_account op) (asset_id (lpx_amount_to_sell op))) =
      amount (get_balance d (lpx_account op) (asset_id (lpx_amount_to_sell op))) - amount (lpx_amount_to_sell op)"
proof -
  obtain p p' where e: "tbl_get (lpx_pool op) (liquidity_pools d) = Some p" "tbl_get (lpx_pool op) (liquidity_pools d') = Some p'"
    "pools_wf d'" "same_supplies d d'" "virtual_value p \<le> virtual_value p'"
    "amount (get_balance d (lpx_account op) (asset_id (lpx_min_to_receive op))) + amount (lpx_min_to_receive op)
       \<le> amount (get_balance d' (lpx_account op) (asset_id (lpx_min_to_receive op)))"
    "amount (get_balance d' (lpx_account op) (asset_id (lpx_amount_to_sell op))) =
       amount (get_balance d (lpx_account op) (asset_id (lpx_amount_to_sell op))) - amount (lpx_amount_to_sell op)"
    using fc_safe.lp_exchange_effect [OF assms] by metis
  have "balance_a p * balance_b p \<le> balance_a p' * balance_b p'"
    using e(5) pool_ok_value [OF assms(3) e(1)] pool_ok_value [OF e(3,2)] by simp
  with e show ?thesis by (auto simp: same_supplies_def)
qed

theorem pool_exchange_fair_witness:
  "\<exists>d'. lp_exchange checked_lib demo_exchange demo_pools = Some d' \<and>
     6700 \<le> amount (get_balance d' 7 2) \<and> amount (get_balance d' 7 1) = 4750"
proof -
  have "lp_exchange checked_lib demo_exchange demo_pools \<noteq> None" by code_simp
  then obtain d' where d': "lp_exchange checked_lib demo_exchange demo_pools = Some d'" by blast
  have "amount (get_balance demo_pools 7 2) = 6000" "amount (get_balance demo_pools 7 1) = 5000"
    by (simp_all add: get_balance_def find_balance_def tbl_find_def demo_pools_def)
  then show ?thesis
    using pool_exchange_fair [OF checked_lib_safe demo_pools_ok d'] d' by (auto simp: demo_exchange_def)
qed

text \<open>
  (C39) The amounts of a deposit to a running pool are exact: the shares issued are the largest number that both offers and
  the maximum supply allow, each side pays its part rounded up and never more than it offered, and the deposit fails
  exactly when not even one share can be issued; the two internal checks of the evaluator cannot fail.
\<close>

theorem pool_deposit_amounts:
  assumes "pool_ok p" "0 < balance_a p" "0 < s" "s < max_sup" "max_sup < 2 ^ 63" "0 < xa" "xa < 2 ^ 63" "0 < xb" "xb < 2 ^ 63"
    and "n = min (min (s * xa div balance_a p) (s * xb div balance_b p)) (max_sup - s)"
  shows "deposit_amounts p s max_sup xa xb =
      (if 0 < n then Some (div_up (n * balance_a p) s, div_up (n * balance_b p) s, n) else None) \<and>
    (0 < n \<longrightarrow> div_up (n * balance_a p) s \<le> xa \<and> div_up (n * balance_b p) s \<le> xb)"
  using deposit_amounts_exact [OF assms(1-9)] assms(10) by simp

theorem pool_deposit_amounts_witness: "deposit_amounts demo_pool 2000 1000000 100 999 = Some (100, 400, 200)"
  using pool_deposit_amounts [of demo_pool 2000 1000000 100 999 200]
  by (simp add: demo_pool_def pool_ok_def chain_consts div_up_def)

end
