(* ===== verification/Htlc.thy ===== *)
theory Htlc
  imports Balances
begin

text \<open>
  Hashed time-locked contracts: the operations and fees of \<^verbatim>\<open>libraries/protocol/htlc.cpp\<close>, the evaluators of
  \<^verbatim>\<open>libraries/chain/htlc_evaluator.cpp\<close> and the refund of expired contracts at the end of every block
  (\<^verbatim>\<open>clear_expired_htlcs\<close> of \<^verbatim>\<open>db_update.cpp\<close>).

  The hash functions \<^verbatim>\<open>fc::ripemd160\<close>, \<^verbatim>\<open>fc::sha1\<close> and \<^verbatim>\<open>fc::sha256\<close> are parameters, a record
  \<open>hash_lib\<close>; nothing is assumed of them. Virtual operations, which only notify, are left out.
\<close>

section \<open>Operations\<close>

record hash_lib =
  ripemd160_hash :: "char list \<Rightarrow> char list"
  sha1_hash :: "char list \<Rightarrow> char list"
  sha256_hash :: "char list \<Rightarrow> char list"

record htlc_fee_parameters =
  htlc_fee :: uint64
  fee_per_day :: uint64

record htlc_redeem_fee_parameters =
  redeem_fee :: uint64
  fee_per_kb :: uint64

record htlc_create_operation =
  hc_fee :: asset
  hc_from :: account_id_type
  hc_to :: account_id_type
  hc_amount :: asset
  hc_preimage_hash :: htlc_hash
  hc_preimage_size :: uint16
  claim_period_seconds :: uint32

record htlc_redeem_operation =
  hr_fee :: asset
  hr_htlc_id :: nat
  redeemer :: account_id_type
  preimage :: "char list"

record htlc_extend_operation =
  he_fee :: asset
  he_htlc_id :: nat
  update_issuer :: account_id_type
  seconds_to_add :: uint32

definition htlc_create_validate :: "htlc_create_operation \<Rightarrow> unit option" where
  "htlc_create_validate o' = do {
     fc_assert (amount (hc_fee o') \<ge> 0);
     fc_assert (amount (hc_amount o') > 0)
   }"

definition htlc_redeem_validate :: "htlc_redeem_operation \<Rightarrow> unit option" where
  "htlc_redeem_validate o' = fc_assert (amount (hr_fee o') \<ge> 0)"

definition htlc_extend_validate :: "htlc_extend_operation \<Rightarrow> unit option" where
  "htlc_extend_validate o' = fc_assert (amount (he_fee o') \<ge> 0)"

section \<open>Fees\<close>

definition SECONDS_PER_DAY :: int where [chain_consts]: "SECONDS_PER_DAY = 86400"

text \<open>The additions of a \<^verbatim>\<open>uint32_t\<close> and an \<^verbatim>\<open>int\<close> wrap at 32 bits; the products at 64.\<close>

definition htlc_create_calculate_fee :: "htlc_fee_parameters \<Rightarrow> htlc_create_operation \<Rightarrow> share_type option" where
  "htlc_create_calculate_fee fp o' = do {
     let days = u32 (u32 (claim_period_seconds o' + SECONDS_PER_DAY) - 1) div SECONDS_PER_DAY;
     let per_day_fee = u64 (fee_per_day fp * days);
     fc_assert (days = 0 \<or> per_day_fee div days = fee_per_day fp);
     Some (s64 (u64 (htlc_fee fp + per_day_fee)))
   }"

definition htlc_redeem_calculate_fee :: "htlc_redeem_fee_parameters \<Rightarrow> htlc_redeem_operation \<Rightarrow> share_type option" where
  "htlc_redeem_calculate_fee fp o' = do {
     let kb = u64 (int (length (preimage o')) + 1023) div 1024;
     let product = u64 (kb * fee_per_kb fp);
     fc_assert (kb = 0 \<or> product div kb = fee_per_kb fp);
     Some (s64 (u64 (redeem_fee fp + product)))
   }"

definition htlc_extend_calculate_fee :: "htlc_fee_parameters \<Rightarrow> htlc_extend_operation \<Rightarrow> share_type option" where
  "htlc_extend_calculate_fee fp o' = do {
     let days = u32 (u32 (seconds_to_add o' + SECONDS_PER_DAY) - 1) div SECONDS_PER_DAY;
     let per_day_fee = u64 (fee_per_day fp * days);
     fc_assert (days = 0 \<or> per_day_fee div days = fee_per_day fp);
     Some (s64 (u64 (htlc_fee fp + per_day_fee)))
   }"

section \<open>Evaluators\<close>

definition get_committee_htlc_options :: "database \<Rightarrow> htlc_options option" where
  "get_committee_htlc_options d = updatable_htlc_options d"

definition htlc_create_evaluate :: "htlc_create_operation \<Rightarrow> database \<Rightarrow> unit option" where
  "htlc_create_evaluate o' d = do {
     opts \<leftarrow> get_committee_htlc_options d;
     fc_assert (claim_period_seconds o' \<le> max_timeout_secs opts);
     fc_assert (hc_preimage_size o' \<le> max_preimage_size opts);
     ge \<leftarrow> asset_ge (get_balance d (hc_from o') (asset_id (hc_amount o'))) (hc_amount o');
     fc_assert ge;
     a \<leftarrow> tbl_get (asset_id (hc_amount o')) (assets d);
     from_account \<leftarrow> tbl_get (hc_from o') (accounts d);
     to_account \<leftarrow> tbl_get (hc_to o') (accounts d);
     fc_assert (is_authorized_asset from_account (asset_id (hc_amount o')) a);
     fc_assert (is_authorized_asset to_account (asset_id (hc_amount o')) a)
   }"

definition htlc_create_apply :: "fc_lib \<Rightarrow> htlc_create_operation \<Rightarrow> database \<Rightarrow> (nat \<times> database) option" where
  "htlc_create_apply L o' d = do {
     n \<leftarrow> asset_neg L (hc_amount o');
     d1 \<leftarrow> adjust_balance L (hc_from o') n d;
     let (i, t) = tbl_create \<lparr>htlc_from = hc_from o', htlc_to = hc_to o', htlc_amount = amount (hc_amount o'),
            htlc_asset_id = asset_id (hc_amount o'), htlc_preimage_hash = hc_preimage_hash o',
            htlc_preimage_size = hc_preimage_size o',
            htlc_expiration = tps_add L (head_block_time d1) (claim_period_seconds o')\<rparr> (htlcs d1);
     Some (i, d1\<lparr>htlcs := t\<rparr>)
   }"

fun htlc_redeem_visitor :: "hash_lib \<Rightarrow> char list \<Rightarrow> htlc_hash \<Rightarrow> bool" where
  "htlc_redeem_visitor H data (Ripemd160 h) = (ripemd160_hash H data = h)"
| "htlc_redeem_visitor H data (Sha1 h) = (sha1_hash H data = h)"
| "htlc_redeem_visitor H data (Sha256 h) = (sha256_hash H data = h)"

definition htlc_redeem_evaluate :: "hash_lib \<Rightarrow> htlc_redeem_operation \<Rightarrow> database \<Rightarrow> htlc_object option" where
  "htlc_redeem_evaluate H o' d = do {
     h \<leftarrow> tbl_get (hr_htlc_id o') (htlcs d);
     fc_assert (int (length (preimage o')) = htlc_preimage_size h);
     fc_assert (htlc_redeem_visitor H (preimage o') (htlc_preimage_hash h));
     Some h
   }"

definition htlc_redeem_apply :: "fc_lib \<Rightarrow> htlc_redeem_operation \<Rightarrow> htlc_object \<Rightarrow> database \<Rightarrow> database option" where
  "htlc_redeem_apply L o' h d = do {
     d1 \<leftarrow> adjust_balance L (htlc_to h) (mk_asset (htlc_amount h) (htlc_asset_id h)) d;
     Some (d1\<lparr>htlcs := tbl_remove (hr_htlc_id o') (htlcs d1)\<rparr>)
   }"

definition htlc_extend_evaluate :: "fc_lib \<Rightarrow> htlc_extend_operation \<Rightarrow> database \<Rightarrow> unit option" where
  "htlc_extend_evaluate L o' d = do {
     h \<leftarrow> tbl_get (he_htlc_id o') (htlcs d);
     fc_assert (update_issuer o' = htlc_from h);
     fc_assert (htlc_expiration h + seconds_to_add o' < 2 ^ 32 - 1);
     opts \<leftarrow> get_committee_htlc_options d;
     fc_assert (tps_add L (htlc_expiration h) (seconds_to_add o') \<le> tps_add L (head_block_time d) (max_timeout_secs opts))
   }"

definition htlc_extend_apply :: "fc_lib \<Rightarrow> htlc_extend_operation \<Rightarrow> database \<Rightarrow> database option" where
  "htlc_extend_apply L o' d =
     Some (d\<lparr>htlcs := tbl_modify (he_htlc_id o')
       (\<lambda>h. h\<lparr>htlc_expiration := tps_add L (htlc_expiration h) (seconds_to_add o')\<rparr>) (htlcs d)\<rparr>)"

definition htlc_create :: "fc_lib \<Rightarrow> htlc_create_operation \<Rightarrow> database \<Rightarrow> (nat \<times> database) option" where
  "htlc_create L o' d = do { htlc_create_validate o'; htlc_create_evaluate o' d; htlc_create_apply L o' d }"

definition htlc_redeem :: "fc_lib \<Rightarrow> hash_lib \<Rightarrow> htlc_redeem_operation \<Rightarrow> database \<Rightarrow> database option" where
  "htlc_redeem L H o' d = do { htlc_redeem_validate o'; h \<leftarrow> htlc_redeem_evaluate H o' d; htlc_redeem_apply L o' h d }"

definition htlc_extend :: "fc_lib \<Rightarrow> htlc_extend_operation \<Rightarrow> database \<Rightarrow> database option" where
  "htlc_extend L o' d = do { htlc_extend_validate o'; htlc_extend_evaluate L o' d; htlc_extend_apply L o' d }"

section \<open>Refunds\<close>

function clear_expired_htlcs :: "fc_lib \<Rightarrow> database \<Rightarrow> database option" where
  "clear_expired_htlcs L d =
     (case tbl_first_by htlc_expiration (htlcs d) of
        None \<Rightarrow> Some d
      | Some (i, h) \<Rightarrow>
          if htlc_expiration h \<le> head_block_time d then do {
            d1 \<leftarrow> adjust_balance L (htlc_from h) (mk_asset (htlc_amount h) (htlc_asset_id h)) d;
            clear_expired_htlcs L (d1\<lparr>htlcs := tbl_remove i (htlcs d1)\<rparr>)
          } else Some d)"
  by pat_completeness auto
termination
  by (relation "measure (\<lambda>(L, d). length (rows (htlcs d)))") (auto simp: adjust_balance_keeps tbl_remove_shorter)

declare clear_expired_htlcs.simps [simp del]


section \<open>Fee arithmetic\<close>

text \<open>The overflow checks of the fee calculations are exact: dividing back gives the factor only without a wrap.\<close>

lemma overflow_check_exact:
  fixes f n :: int
  assumes "0 \<le> f" "0 < n" "n < 2 ^ 64"
  shows "u64 (f * n) div n = f \<longleftrightarrow> f * n < 2 ^ 64"
proof
  assume "f * n < 2 ^ 64"
  then show "u64 (f * n) div n = f" using assms by simp
next
  assume eq: "u64 (f * n) div n = f"
  have "f * n \<le> u64 (f * n)" using eq assms(2) by (metis int_le_div_iff order_refl)
  also have "u64 (f * n) < 2 ^ 64" by simp
  finally show "f * n < 2 ^ 64" .
qed

definition days_up :: "int \<Rightarrow> int" where
  "days_up s = div_up s SECONDS_PER_DAY"

lemma days_exact: "0 \<le> s \<Longrightarrow> s + SECONDS_PER_DAY \<le> 2 ^ 32 \<Longrightarrow> s + SECONDS_PER_DAY \<noteq> 2 ^ 32 \<Longrightarrow>
    u32 (u32 (s + SECONDS_PER_DAY) - 1) div SECONDS_PER_DAY = days_up s"
  by (simp add: days_up_def div_up_def chain_consts)

section \<open>The ledger of the contracts\<close>

definition htlcs_ok :: "database \<Rightarrow> bool" where
  "htlcs_ok d \<longleftrightarrow> (\<forall>i h. tbl_get i (htlcs d) = Some h \<longrightarrow> 0 < htlc_amount h \<and> htlc_amount h < 2 ^ 63)"

definition refund_of :: "account_id_type \<Rightarrow> asset_id_type \<Rightarrow> time_point_sec \<Rightarrow> htlc_object \<Rightarrow> int" where
  "refund_of o' a now h = (if htlc_from h = o' \<and> htlc_asset_id h = a \<and> htlc_expiration h \<le> now then htlc_amount h else 0)"

definition refunds :: "account_id_type \<Rightarrow> asset_id_type \<Rightarrow> database \<Rightarrow> int" where
  "refunds o' a d = tbl_sum (refund_of o' a (head_block_time d)) (htlcs d)"

lemma remove_htlc_effect:
  assumes wf: "db_wf d" and h: "tbl_get i (htlcs d) = Some h"
  defines "d' \<equiv> d\<lparr>htlcs := tbl_remove i (htlcs d)\<rparr>"
  shows "db_wf d'" "gap b d' = gap b d - htlc_of b h" "tbl_get j (htlcs d') = (if j = i then None else tbl_get j (htlcs d))"
    "get_balance d' o' a = get_balance d o' a" "refunds o' a d' = refunds o' a d - refund_of o' a (head_block_time d) h"
  using wf h by (simp_all add: d'_def db_wf_upd db_wf_tables tbl_wf_ops gap_upd tbl_sum_remove tbl.get_remove refunds_def
      get_balance_def find_balance_def)

context fc_safe
begin

lemma pay_htlc_effect:
  assumes wf: "db_wf d" and h: "tbl_get i (htlcs d) = Some h"
    and run: "adjust_balance L acc (mk_asset (htlc_amount h) (htlc_asset_id h)) d = Some d1"
  defines "d' \<equiv> d1\<lparr>htlcs := tbl_remove i (htlcs d1)\<rparr>"
  shows "db_wf d'" "gap b d' = gap b d" "tbl_get j (htlcs d') = (if j = i then None else tbl_get j (htlcs d))"
    "amount (get_balance d' o' a) = amount (get_balance d o' a) + (if o' = acc then htlc_of a h else 0)"
    "refunds o' a d' = refunds o' a d - refund_of o' a (head_block_time d) h" "head_block_time d' = head_block_time d"
    "balances_nonneg d \<Longrightarrow> balances_nonneg d'"
proof -
  note k = adjust_balance_keeps [OF run] and e = adjust_balance_effect [OF wf run]
  have h1: "tbl_get i (htlcs d1) = Some h" using h k by simp
  note r = remove_htlc_effect [OF e(1) h1, folded d'_def]
  show "db_wf d'" by (rule r(1))
  show "gap b d' = gap b d" using r(2) [of b] e(2) [of b] by (simp add: htlc_of_def)
  show "tbl_get j (htlcs d') = (if j = i then None else tbl_get j (htlcs d))" using r(3) k by simp
  show "amount (get_balance d' o' a) = amount (get_balance d o' a) + (if o' = acc then htlc_of a h else 0)"
    using r(4) adjust_balance_read [OF wf run, of o' a] by (simp add: htlc_of_def)
  show "refunds o' a d' = refunds o' a d - refund_of o' a (head_block_time d) h" using r(5) [of o' a] k by (simp add: refunds_def)
  show "head_block_time d' = head_block_time d" using k by (simp add: d'_def)
  show "balances_nonneg d \<Longrightarrow> balances_nonneg d'" using e(3) by (simp add: d'_def balances_nonneg_def)
qed

text \<open>One round of the loop, and its end.\<close>

lemma clear_expired_cases:
  assumes wf: "db_wf d"
  obtains (stop) "clear_expired_htlcs L d = Some d" "\<And>i h. tbl_get i (htlcs d) = Some h \<Longrightarrow> head_block_time d < htlc_expiration h"
  | (step) i h where "tbl_get i (htlcs d) = Some h" "htlc_expiration h \<le> head_block_time d"
      "clear_expired_htlcs L d = adjust_balance L (htlc_from h) (mk_asset (htlc_amount h) (htlc_asset_id h)) d \<bind>
         (\<lambda>d1. clear_expired_htlcs L (d1\<lparr>htlcs := tbl_remove i (htlcs d1)\<rparr>))"
      "length (rows (tbl_remove i (htlcs d))) < length (rows (htlcs d))"
proof (cases "tbl_first_by htlc_expiration (htlcs d)")
  case None
  then show ?thesis
    using tbl_first_by_None [OF None] by (intro stop) (auto simp: clear_expired_htlcs.simps [of L d])
next
  case (Some r)
  obtain i h where r: "r = (i, h)" by (cases r)
  note f = tbl_first_by_Some [OF db_wf_tables(10) [OF wf] Some [unfolded r]]
  show ?thesis
  proof (cases "htlc_expiration h \<le> head_block_time d")
    case True
    then show ?thesis
      using f Some r tbl_remove_shorter [OF Some [unfolded r]] by (intro step [of i h]) (simp_all add: clear_expired_htlcs.simps [of L d])
  next
    case False
    then have "clear_expired_htlcs L d = Some d" using Some r by (simp add: clear_expired_htlcs.simps [of L d])
    moreover have "head_block_time d < htlc_expiration k" if "tbl_get j (htlcs d) = Some k" for j k
      using f(2) [OF that] False by simp
    ultimately show ?thesis by (rule stop)
  qed
qed

lemma refunds_none: "(\<And>i h. tbl_get i (htlcs d) = Some h \<Longrightarrow> head_block_time d < htlc_expiration h) \<Longrightarrow> db_wf d \<Longrightarrow> refunds o' a d = 0"
proof -
  assume n: "\<And>i h. tbl_get i (htlcs d) = Some h \<Longrightarrow> head_block_time d < htlc_expiration h" and wf: "db_wf d"
  have "head_block_time d < htlc_expiration h" if "(i, h) \<in> set (rows (htlcs d))" for i h
    using that n [of i h] tbl_wf_distinct [OF db_wf_tables(10) [OF wf]] by (simp add: tbl_get_def)
  then have "refund_of o' a (head_block_time d) (snd r) = 0" if "r \<in> set (rows (htlcs d))" for r
    using that by (cases r) (fastforce simp: refund_of_def)
  then have "map (\<lambda>r. refund_of o' a (head_block_time d) (snd r)) (rows (htlcs d)) = map (\<lambda>r. 0) (rows (htlcs d))" by simp
  then show ?thesis unfolding refunds_def tbl_sum_def by (simp only: sum_list_0)
qed

lemma clear_expired_effect:
  "clear_expired_htlcs L d = Some d' \<Longrightarrow> db_wf d \<Longrightarrow>
   db_wf d' \<and> head_block_time d' = head_block_time d \<and> (\<forall>b. gap b d' = gap b d) \<and>
   (\<forall>i. tbl_get i (htlcs d') = (case tbl_get i (htlcs d) of None \<Rightarrow> None
      | Some h \<Rightarrow> if htlc_expiration h \<le> head_block_time d then None else Some h)) \<and>
   (\<forall>o' a. amount (get_balance d' o' a) = amount (get_balance d o' a) + refunds o' a d)"
proof (induction "length (rows (htlcs d))" arbitrary: d rule: less_induct)
  case less
  note wf = less(3)
  show ?case
  proof (cases rule: clear_expired_cases [OF wf])
    case 1
    then have "d' = d" using less(2) by simp
    then show ?thesis using 1(2) refunds_none [OF 1(2) wf] wf by (fastforce split: option.splits)
  next
    case (2 i h)
    then obtain d1 where d1: "adjust_balance L (htlc_from h) (mk_asset (htlc_amount h) (htlc_asset_id h)) d = Some d1"
      and rest: "clear_expired_htlcs L (d1\<lparr>htlcs := tbl_remove i (htlcs d1)\<rparr>) = Some d'"
      using less(2) unfolding 2(3) by (auto simp: opt_bind)
    let ?d2 = "d1\<lparr>htlcs := tbl_remove i (htlcs d1)\<rparr>"
    note e = pay_htlc_effect [OF wf 2(1) d1]
    have sh: "length (rows (htlcs ?d2)) < length (rows (htlcs d))" using 2(4) adjust_balance_keeps(8) [OF d1] by simp
    note ih = less(1) [OF sh rest e(1)]
    have "refund_of o' a (head_block_time d) h = (if o' = htlc_from h then htlc_of a h else 0)" for o' a
      using 2(2) by (auto simp: refund_of_def htlc_of_def)
    then have "amount (get_balance d' o' a) = amount (get_balance d o' a) + refunds o' a d" for o' a
      using ih e(4) [of o' a] e(5) [of o' a] by simp
    moreover have "tbl_get j (htlcs d') = (case tbl_get j (htlcs d) of None \<Rightarrow> None
        | Some h \<Rightarrow> if htlc_expiration h \<le> head_block_time d then None else Some h)" for j
      using ih e(3) [of j] e(6) 2(1,2) by (cases "j = i"; cases "tbl_get j (htlcs d)") simp_all
    ultimately show ?thesis using ih e(2,6) by simp
  qed
qed

lemma refunds_nonneg: "htlcs_ok d \<Longrightarrow> db_wf d \<Longrightarrow> 0 \<le> refunds o' a d"
  unfolding refunds_def
proof (rule tbl_sum_nonneg)
  fix i h
  assume "htlcs_ok d" "db_wf d" "(i, h) \<in> set (rows (htlcs d))"
  then have "tbl_get i (htlcs d) = Some h" using tbl_wf_distinct [OF db_wf_tables(10), of d] by (simp add: tbl_get_def)
  with \<open>htlcs_ok d\<close> show "0 \<le> refund_of o' a (head_block_time d) h" by (fastforce simp: htlcs_ok_def refund_of_def)
qed

text \<open>The loop returns when no refunded account exceeds 64 bits.\<close>

lemma clear_expired_total:
  "db_wf d \<Longrightarrow> balances_nonneg d \<Longrightarrow> htlcs_ok d \<Longrightarrow>
   \<forall>o' a. 0 \<le> amount (get_balance d o' a) \<and> amount (get_balance d o' a) + refunds o' a d < 2 ^ 63 \<Longrightarrow>
   \<exists>d'. clear_expired_htlcs L d = Some d'"
proof (induction "length (rows (htlcs d))" arbitrary: d rule: less_induct)
  case less
  note wf = less(2)
  show ?case
  proof (cases rule: clear_expired_cases [OF wf])
    case (2 i h)
    let ?x = "mk_asset (htlc_amount h) (htlc_asset_id h)" and ?b = "amount (get_balance d (htlc_from h) (htlc_asset_id h))"
    have am: "0 < htlc_amount h" "htlc_amount h < 2 ^ 63" using less(4) 2(1) by (auto simp: htlcs_ok_def)
    have rf: "refund_of (htlc_from h) (htlc_asset_id h) (head_block_time d) h = htlc_amount h" using 2(2) by (simp add: refund_of_def)
    have ok2: "htlcs_ok (d\<lparr>htlcs := tbl_remove i (htlcs d)\<rparr>)"
      using less(4) remove_htlc_effect(3) [OF wf 2(1)] by (auto simp: htlcs_ok_def split: if_splits)
    have "0 \<le> refunds (htlc_from h) (htlc_asset_id h) (d\<lparr>htlcs := tbl_remove i (htlcs d)\<rparr>)"
      by (rule refunds_nonneg [OF ok2 remove_htlc_effect(1) [OF wf 2(1)]])
    then have "htlc_amount h \<le> refunds (htlc_from h) (htlc_asset_id h) d"
      using remove_htlc_effect(5) [OF wf 2(1), of "htlc_from h" "htlc_asset_id h"] rf by simp
    then have fit: "0 \<le> ?b" "?b + htlc_amount h < 2 ^ 63" using less(5) by (smt (verit))+
    then obtain d1 where d1: "adjust_balance L (htlc_from h) ?x d = Some d1"
      using adjust_balance_total [OF wf less(3), of ?x "htlc_from h"] am by auto
    let ?d2 = "d1\<lparr>htlcs := tbl_remove i (htlcs d1)\<rparr>"
    note e = pay_htlc_effect [OF wf 2(1) d1]
    have "htlcs_ok ?d2" using less(4) e(3) unfolding htlcs_ok_def by (metis option.discI)
    moreover have "length (rows (htlcs ?d2)) < length (rows (htlcs d))" using 2(4) adjust_balance_keeps(8) [OF d1] by simp
    moreover have "0 \<le> amount (get_balance ?d2 o' a) \<and> amount (get_balance ?d2 o' a) + refunds o' a ?d2 < 2 ^ 63" for o' a
    proof -
      have "refund_of o' a (head_block_time d) h = (if o' = htlc_from h then htlc_of a h else 0)" "0 \<le> htlc_of a h"
        using 2(2) am by (auto simp: refund_of_def htlc_of_def)
      then show ?thesis using e(4) [of o' a] e(5) [of o' a] less(5) by (smt (verit))
    qed
    ultimately obtain d' where "clear_expired_htlcs L ?d2 = Some d'"
      using less(1) [of ?d2] e(1) e(7) [OF less(3)] by blast
    then show ?thesis using 2(3) d1 by simp
  qed blast
qed

end


section \<open>The life of a contract\<close>

text \<open>A step is an operation on a contract, the refunds at the end of a block, or the passing of time.\<close>

inductive htlc_step :: "fc_lib \<Rightarrow> hash_lib \<Rightarrow> database \<Rightarrow> database \<Rightarrow> bool" for L H where
  Create: "htlc_create L o' d = Some (i, d') \<Longrightarrow> htlc_step L H d d'"
| Redeem: "htlc_redeem L H o' d = Some d' \<Longrightarrow> htlc_step L H d d'"
| Extend: "htlc_extend L o' d = Some d' \<Longrightarrow> htlc_step L H d d'"
| Expire: "clear_expired_htlcs L d = Some d' \<Longrightarrow> htlc_step L H d d'"
| Block: "htlc_step L H d (d\<lparr>head_block_time := t\<rparr>)"

context fc_safe
begin

lemma htlc_create_effect:
  assumes wf: "db_wf d" and run: "htlc_create L o' d = Some (i, d')"
  shows "db_wf d'" "gap b d' = gap b d" "htlcs_ok d \<Longrightarrow> amount (hc_amount o') < 2 ^ 63 \<Longrightarrow> htlcs_ok d'"
    "tbl_get j (htlcs d) = Some h \<Longrightarrow> tbl_get j (htlcs d') = Some h" "tbl_get i (htlcs d) = None"
    "\<exists>h. tbl_get i (htlcs d') = Some h \<and> htlc_from h = hc_from o' \<and> htlc_to h = hc_to o' \<and> htlc_amount h = amount (hc_amount o') \<and>
      htlc_asset_id h = asset_id (hc_amount o') \<and> htlc_expiration h = tps_add L (head_block_time d) (claim_period_seconds o')"
    "amount (get_balance d' acc a) = amount (get_balance d acc a) - (if acc = hc_from o' then of_asset a (hc_amount o') else 0)"
proof -
  let ?h = "\<lambda>d1. \<lparr>htlc_from = hc_from o', htlc_to = hc_to o', htlc_amount = amount (hc_amount o'),
      htlc_asset_id = asset_id (hc_amount o'), htlc_preimage_hash = hc_preimage_hash o', htlc_preimage_size = hc_preimage_size o',
      htlc_expiration = tps_add L (head_block_time d1) (claim_period_seconds o')\<rparr>"
  from run obtain d1 where pos: "amount (hc_amount o') > 0"
    and d1: "adjust_balance L (hc_from o') (mk_asset (- amount (hc_amount o')) (asset_id (hc_amount o'))) d = Some d1"
    and i: "i = fst (tbl_create (?h d1) (htlcs d1))" and d': "d' = d1\<lparr>htlcs := snd (tbl_create (?h d1) (htlcs d1))\<rparr>"
    by (auto simp: htlc_create_def htlc_create_validate_def htlc_create_apply_def opt_bind asset_neg_def safe_Some Let_def case_prod_unfold)
  note k = adjust_balance_keeps [OF d1] and e = adjust_balance_effect [OF wf d1]
  note w = db_wf_tables(10) [OF e(1)]
  show "db_wf d'" using e(1) by (simp add: d' db_wf_upd db_wf_tables tbl_wf_ops)
  show "gap b d' = gap b d" using e(2) [of b] by (simp add: d' gap_upd htlc_of_def)
  have new: "tbl_get j (htlcs d') = (if j = i then Some (?h d1) else tbl_get j (htlcs d))" for j
    using k tbl.get_create [OF w] by (simp add: d' i)
  show fr: "tbl_get i (htlcs d) = None" using tbl.create_fresh [OF w] k by (simp add: i)
  show "tbl_get j (htlcs d) = Some h \<Longrightarrow> tbl_get j (htlcs d') = Some h" using new [of j] fr by auto
  show "htlcs_ok d \<Longrightarrow> amount (hc_amount o') < 2 ^ 63 \<Longrightarrow> htlcs_ok d'" using new pos by (auto simp: htlcs_ok_def split: if_splits)
  show "\<exists>h. tbl_get i (htlcs d') = Some h \<and> htlc_from h = hc_from o' \<and> htlc_to h = hc_to o' \<and> htlc_amount h = amount (hc_amount o') \<and>
      htlc_asset_id h = asset_id (hc_amount o') \<and> htlc_expiration h = tps_add L (head_block_time d) (claim_period_seconds o')"
    using new [of i] k by simp
  have "get_balance d' acc a = get_balance d1 acc a" by (rule get_balance_cong) (simp add: d')
  then show "amount (get_balance d' acc a) = amount (get_balance d acc a) - (if acc = hc_from o' then of_asset a (hc_amount o') else 0)"
    using adjust_balance_read [OF wf d1, of acc a] by (simp add: of_asset_def)
qed

lemma htlc_redeem_effect:
  assumes wf: "db_wf d" and run: "htlc_redeem L H o' d = Some d'"
  obtains h where "tbl_get (hr_htlc_id o') (htlcs d) = Some h" "int (length (preimage o')) = htlc_preimage_size h"
    "htlc_redeem_visitor H (preimage o') (htlc_preimage_hash h)" "db_wf d'" "\<And>b. gap b d' = gap b d"
    "\<And>j. tbl_get j (htlcs d') = (if j = hr_htlc_id o' then None else tbl_get j (htlcs d))"
    "\<And>o'' a. amount (get_balance d' o'' a) = amount (get_balance d o'' a) + (if o'' = htlc_to h then htlc_of a h else 0)"
proof -
  from run obtain h d1 where h: "tbl_get (hr_htlc_id o') (htlcs d) = Some h" "int (length (preimage o')) = htlc_preimage_size h"
      "htlc_redeem_visitor H (preimage o') (htlc_preimage_hash h)"
    and d1: "adjust_balance L (htlc_to h) (mk_asset (htlc_amount h) (htlc_asset_id h)) d = Some d1"
    and d': "d' = d1\<lparr>htlcs := tbl_remove (hr_htlc_id o') (htlcs d1)\<rparr>"
    by (auto simp: htlc_redeem_def htlc_redeem_evaluate_def htlc_redeem_apply_def opt_bind)
  note e = pay_htlc_effect [OF wf h(1) d1, folded d']
  show ?thesis by (rule that [OF h e(1-4)])
qed

lemma htlc_extend_effect:
  assumes wf: "db_wf d" and run: "htlc_extend L o' d = Some d'"
  shows "db_wf d'" "gap b d' = gap b d"
    "tbl_get j (htlcs d') = map_option (\<lambda>h. if j = he_htlc_id o' then h\<lparr>htlc_expiration := tps_add L (htlc_expiration h) (seconds_to_add o')\<rparr> else h)
       (tbl_get j (htlcs d))" "get_balance d' acc a = get_balance d acc a"
proof -
  obtain h where h: "tbl_get (he_htlc_id o') (htlcs d) = Some h"
    and d': "d' = d\<lparr>htlcs := tbl_modify (he_htlc_id o') (\<lambda>h. h\<lparr>htlc_expiration := tps_add L (htlc_expiration h) (seconds_to_add o')\<rparr>) (htlcs d)\<rparr>"
    using run by (auto simp: htlc_extend_def htlc_extend_evaluate_def htlc_extend_apply_def opt_bind)
  show "db_wf d'" using wf by (simp add: d' db_wf_upd db_wf_tables tbl_wf_ops)
  show "gap b d' = gap b d" using wf h by (simp add: d' gap_upd tbl_sum_modify db_wf_tables htlc_of_def)
  show "tbl_get j (htlcs d') = map_option (\<lambda>h. if j = he_htlc_id o' then h\<lparr>htlc_expiration := tps_add L (htlc_expiration h) (seconds_to_add o')\<rparr> else h)
       (tbl_get j (htlcs d))" by (cases "tbl_get j (htlcs d)") (auto simp: d' tbl.get_modify)
  show "get_balance d' acc a = get_balance d acc a" by (rule get_balance_cong) (simp add: d')
qed

lemma htlc_step_ledger: "htlc_step L H d d' \<Longrightarrow> db_wf d \<Longrightarrow> db_wf d' \<and> (\<forall>b. gap b d' = gap b d)"
proof (induction rule: htlc_step.induct)
  case (Create o' d i d')
  then show ?case using htlc_create_effect(1,2) by blast
next
  case (Redeem o' d d')
  then show ?case using htlc_redeem_effect by metis
next
  case (Extend o' d d')
  then show ?case using htlc_extend_effect(1,2) by blast
next
  case (Expire d d')
  then show ?case using clear_expired_effect by blast
next
  case (Block d t)
  then show ?case by (simp add: head_block_time_effect)
qed

lemma refund_le_refunds:
  assumes "htlcs_ok d" "db_wf d" "tbl_get i (htlcs d) = Some h" "htlc_expiration h \<le> head_block_time d"
  shows "htlc_amount h \<le> refunds (htlc_from h) (htlc_asset_id h) d"
proof -
  note r = remove_htlc_effect [OF assms(2,3)]
  have "htlcs_ok (d\<lparr>htlcs := tbl_remove i (htlcs d)\<rparr>)" using assms(1) r(3) by (auto simp: htlcs_ok_def split: if_splits)
  from refunds_nonneg [OF this r(1)] r(5) [of "htlc_from h" "htlc_asset_id h"] assms(4)
  show ?thesis by (smt (verit) refund_of_def)
qed

lemma htlc_step_settles:
  assumes wf: "db_wf d" and ok: "htlcs_ok d" and st: "htlc_step L H d d'"
    and i: "tbl_get i (htlcs d) = Some h" "tbl_get i (htlcs d') = None"
  shows "(\<exists>pre. int (length pre) = htlc_preimage_size h \<and> htlc_redeem_visitor H pre (htlc_preimage_hash h) \<and>
      amount (get_balance d' (htlc_to h) (htlc_asset_id h)) = amount (get_balance d (htlc_to h) (htlc_asset_id h)) + htlc_amount h) \<or>
    htlc_expiration h \<le> head_block_time d \<and>
      amount (get_balance d (htlc_from h) (htlc_asset_id h)) + htlc_amount h \<le> amount (get_balance d' (htlc_from h) (htlc_asset_id h))"
  using st
proof cases
  case (Create o' j)
  then show ?thesis using htlc_create_effect(4) [OF wf Create i(1)] i(2) by simp
next
  case (Redeem o')
  obtain g where g: "tbl_get (hr_htlc_id o') (htlcs d) = Some g" "int (length (preimage o')) = htlc_preimage_size g"
    "htlc_redeem_visitor H (preimage o') (htlc_preimage_hash g)"
    "\<And>j. tbl_get j (htlcs d') = (if j = hr_htlc_id o' then None else tbl_get j (htlcs d))"
    "\<And>o'' a. amount (get_balance d' o'' a) = amount (get_balance d o'' a) + (if o'' = htlc_to g then htlc_of a g else 0)"
    using htlc_redeem_effect [OF wf Redeem] by metis
  have "i = hr_htlc_id o'" using g(4) [of i] i by (cases "i = hr_htlc_id o'") auto
  then have "g = h" using g(1) i(1) by simp
  then show ?thesis using g(2,3) g(5) [of "htlc_to h" "htlc_asset_id h"] by (auto simp: htlc_of_def)
next
  case (Extend o')
  then show ?thesis using htlc_extend_effect(3) [OF wf Extend, of i] i by simp
next
  case Expire
  note e = clear_expired_effect [OF Expire wf]
  have ex: "htlc_expiration h \<le> head_block_time d" using e i by (auto split: if_splits)
  with e refund_le_refunds [OF ok wf i(1) ex] show ?thesis by simp
next
  case (Block t)
  then show ?thesis using i by simp
qed

end


section \<open>Properties\<close>

text \<open>
  (C21) Contracts hold exactly what was locked in them: over any sequence of creations, redemptions, extensions, refunds and
  blocks, what the chain holds of every asset beyond its supply stays the same.
\<close>

theorem htlc_ledger:
  assumes "fc_safe L" "db_wf d" "(htlc_step L H)\<^sup>*\<^sup>* d d'"
  shows "db_wf d' \<and> (\<forall>b. gap b d' = gap b d)"
  using assms(3,2)
proof (induction rule: rtranclp_induct)
  case (step y z)
  then show ?case using fc_safe.htlc_step_ledger [OF assms(1) step(2)] by simp
qed simp

definition demo_hash :: hash_lib where
  "demo_hash = \<lparr>ripemd160_hash = rev, sha1_hash = rev, sha256_hash = rev\<rparr>"

definition demo_htlc :: htlc_object where
  "demo_htlc = \<lparr>htlc_from = 7, htlc_to = 8, htlc_amount = 40, htlc_asset_id = 1, htlc_preimage_hash = Sha256 ''cba'',
     htlc_preimage_size = 3, htlc_expiration = 150\<rparr>"

definition demo_htlcs :: database where
  "demo_htlcs = demo_balances\<lparr>accounts := \<lparr>rows = [(7, demo_account), (8, demo_account)], next_instance = 9\<rparr>,
     htlcs := \<lparr>rows = [(0, demo_htlc)], next_instance = 1\<rparr>, head_block_time := 200,
     updatable_htlc_options := Some \<lparr>max_timeout_secs = 1000, max_preimage_size = 100\<rparr>\<rparr>"

definition demo_redeem :: htlc_redeem_operation where
  "demo_redeem = \<lparr>hr_fee = mk_asset 0 0, hr_htlc_id = 0, redeemer = 8, preimage = ''abc''\<rparr>"

lemma demo_htlcs_ok: "db_wf demo_htlcs" "htlcs_ok demo_htlcs" "balances_nonneg demo_htlcs"
  by (simp_all add: demo_htlcs_def demo_balances_def empty_database_def db_wf_def tbl_wf_def tbl_empty_def assets_linked_def
      tbl_get_def htlcs_ok_def demo_htlc_def balances_nonneg_def)

lemma demo_redeem_runs:
  "\<exists>d'. htlc_redeem checked_lib demo_hash demo_redeem demo_htlcs = Some d' \<and> tbl_get 0 (htlcs d') = None"
  by (simp add: htlc_redeem_def htlc_redeem_validate_def htlc_redeem_evaluate_def htlc_redeem_apply_def demo_redeem_def demo_htlcs_def
      demo_htlc_def demo_hash_def demo_balances_def tbl_get_def adjust_balance_def find_balance_def tbl_find_def tbl_remove_def)

theorem htlc_ledger_witness:
  "\<exists>d'. htlc_redeem checked_lib demo_hash demo_redeem demo_htlcs = Some d' \<and>
     gap 1 (d'\<lparr>head_block_time := 300\<rparr>) = gap 1 demo_htlcs"
proof -
  obtain d' where d': "htlc_redeem checked_lib demo_hash demo_redeem demo_htlcs = Some d'" using demo_redeem_runs by blast
  have "(htlc_step checked_lib demo_hash)\<^sup>*\<^sup>* demo_htlcs (d'\<lparr>head_block_time := 300\<rparr>)"
    by (rule rtranclp.rtrancl_into_rtrancl [where b = d']) (rule r_into_rtranclp, rule htlc_step.Redeem [OF d'], rule htlc_step.Block)
  from htlc_ledger [OF checked_lib_safe demo_htlcs_ok(1) this] d' show ?thesis by blast
qed

text \<open>
  (C35) A contract is settled in one of two ways only: a step that ends it either was given a preimage of the agreed size
  and hash and paid the whole amount to the receiver, or refunded the sender after the expiration.
\<close>

theorem htlc_settles:
  assumes "fc_safe L" "db_wf d" "htlcs_ok d" "htlc_step L H d d'" "tbl_get i (htlcs d) = Some h" "tbl_get i (htlcs d') = None"
  shows "(\<exists>pre. int (length pre) = htlc_preimage_size h \<and> htlc_redeem_visitor H pre (htlc_preimage_hash h) \<and>
      amount (get_balance d' (htlc_to h) (htlc_asset_id h)) = amount (get_balance d (htlc_to h) (htlc_asset_id h)) + htlc_amount h) \<or>
    htlc_expiration h \<le> head_block_time d \<and>
      amount (get_balance d (htlc_from h) (htlc_asset_id h)) + htlc_amount h \<le> amount (get_balance d' (htlc_from h) (htlc_asset_id h))"
  by (rule fc_safe.htlc_step_settles [OF assms])

theorem htlc_settles_witness:
  "\<exists>d'. htlc_step checked_lib demo_hash demo_htlcs d' \<and> tbl_get 0 (htlcs d') = None \<and>
     (amount (get_balance d' 8 1) = amount (get_balance demo_htlcs 8 1) + 40 \<or>
      amount (get_balance demo_htlcs 7 1) + 40 \<le> amount (get_balance d' 7 1))"
proof -
  obtain d' where d': "htlc_redeem checked_lib demo_hash demo_redeem demo_htlcs = Some d'" "tbl_get 0 (htlcs d') = None"
    using demo_redeem_runs by blast
  have "tbl_get 0 (htlcs demo_htlcs) = Some demo_htlc" by (simp add: demo_htlcs_def tbl_get_def)
  from htlc_settles [OF checked_lib_safe demo_htlcs_ok(1,2) htlc_step.Redeem [OF d'(1)] this d'(2)] d' htlc_step.Redeem [OF d'(1)]
  show ?thesis by (auto simp: demo_htlc_def)
qed

text \<open>
  (C36) Expired contracts are refunded at the end of the block: the loop over them returns, as long as no balance would exceed
  64 bits; afterwards no contract is past its expiration, the others are untouched, and each account has received exactly
  what its expired contracts held.
\<close>

theorem expired_htlcs_refunded:
  assumes "fc_safe L" "db_wf d" "balances_nonneg d" "htlcs_ok d"
    and "\<forall>acc a. 0 \<le> amount (get_balance d acc a) \<and> amount (get_balance d acc a) + refunds acc a d < 2 ^ 63"
  shows "\<exists>d'. clear_expired_htlcs L d = Some d' \<and>
    (\<forall>i. tbl_get i (htlcs d') = (case tbl_get i (htlcs d) of None \<Rightarrow> None
      | Some h \<Rightarrow> if htlc_expiration h \<le> head_block_time d then None else Some h)) \<and>
    (\<forall>acc a. amount (get_balance d' acc a) = amount (get_balance d acc a) + refunds acc a d)"
  using fc_safe.clear_expired_total [OF assms] fc_safe.clear_expired_effect [OF assms(1) _ assms(2)] by blast

theorem expired_htlcs_refunded_witness:
  "\<exists>d'. clear_expired_htlcs checked_lib demo_htlcs = Some d' \<and> tbl_get 0 (htlcs d') = None \<and> amount (get_balance d' 7 1) = 140"
proof -
  have r: "refunds acc a demo_htlcs = (if acc = 7 \<and> a = 1 then 40 else 0)" for acc a
    by (simp add: refunds_def tbl_sum_def refund_of_def demo_htlcs_def demo_htlc_def)
  have b: "amount (get_balance demo_htlcs acc a) = (if acc = 7 \<and> a = 1 then 100 else 0)" for acc a
    by (simp add: get_balance_def find_balance_def tbl_find_def demo_htlcs_def demo_balances_def)
  have "tbl_get 0 (htlcs demo_htlcs) = Some demo_htlc" "htlc_expiration demo_htlc \<le> head_block_time demo_htlcs"
    by (simp_all add: demo_htlcs_def tbl_get_def demo_htlc_def)
  moreover have "\<forall>acc a. 0 \<le> amount (get_balance demo_htlcs acc a) \<and>
      amount (get_balance demo_htlcs acc a) + refunds acc a demo_htlcs < 2 ^ 63" unfolding r b by simp
  from expired_htlcs_refunded [OF checked_lib_safe demo_htlcs_ok(1,3,2) this, unfolded r b] obtain d' where
    "clear_expired_htlcs checked_lib demo_htlcs = Some d'" "\<And>i. tbl_get i (htlcs d') = (case tbl_get i (htlcs demo_htlcs) of None \<Rightarrow> None
      | Some h \<Rightarrow> if htlc_expiration h \<le> head_block_time demo_htlcs then None else Some h)"
    "\<And>acc a. amount (get_balance d' acc a) = (if acc = 7 \<and> a = 1 then 100 else 0) + (if acc = 7 \<and> a = 1 then 40 else 0)" by blast
  ultimately show ?thesis by (intro exI [of _ d']) simp
qed

text \<open>
  The fee of a contract is exact: the base fee plus the daily fee for each day begun, and the calculation is refused
  exactly when the product of days and daily fee does not fit 64 bits. The hypothesis on the period excludes the last day
  before 2 to the power of 32 seconds, where the addition in the code wraps and no day is charged.
\<close>

theorem htlc_fee_exact:
  assumes "0 \<le> htlc_fee fp" "0 \<le> fee_per_day fp" "0 \<le> claim_period_seconds op" "claim_period_seconds op + SECONDS_PER_DAY < 2 ^ 32"
    and "htlc_fee fp + fee_per_day fp * days_up (claim_period_seconds op) < 2 ^ 63 \<or> 2 ^ 64 \<le> fee_per_day fp * days_up (claim_period_seconds op)"
  shows "htlc_create_calculate_fee fp op =
    (if fee_per_day fp * days_up (claim_period_seconds op) < 2 ^ 64
     then Some (htlc_fee fp + fee_per_day fp * days_up (claim_period_seconds op)) else None)"
proof -
  let ?n = "days_up (claim_period_seconds op)"
  have n: "u32 (u32 (claim_period_seconds op + SECONDS_PER_DAY) - 1) div SECONDS_PER_DAY = ?n"
    using assms(3,4) by (intro days_exact) simp_all
  have n0: "0 \<le> ?n" "?n < 2 ^ 64"
    using assms(3,4) by (simp_all add: days_up_def chain_consts div_up_def pos_imp_zdiv_nonneg_iff int_div_less_iff)
  have chk: "(?n = 0 \<or> u64 (fee_per_day fp * ?n) div ?n = fee_per_day fp) \<longleftrightarrow> fee_per_day fp * ?n < 2 ^ 64"
    using overflow_check_exact [OF assms(2) _ n0(2)] n0(1) by (cases "?n = 0") auto
  have p0: "0 \<le> fee_per_day fp * ?n" using assms(2) n0(1) by simp
  show ?thesis
  proof (cases "fee_per_day fp * ?n < 2 ^ 64")
    case True
    with assms(1,5) p0 have "s64 (u64 (htlc_fee fp + u64 (fee_per_day fp * ?n))) = htlc_fee fp + fee_per_day fp * ?n" by simp
    then show ?thesis using True chk by (simp add: htlc_create_calculate_fee_def Let_def n)
  next
    case False
    then show ?thesis using chk by (simp add: htlc_create_calculate_fee_def Let_def n)
  qed
qed

theorem htlc_fee_exact_witness:
  "htlc_create_calculate_fee \<lparr>htlc_fee = 100, fee_per_day = 7\<rparr> \<lparr>hc_fee = mk_asset 0 0, hc_from = 7, hc_to = 8,
     hc_amount = mk_asset 40 1, hc_preimage_hash = Sha256 ''cba'', hc_preimage_size = 3, claim_period_seconds = 86401\<rparr> = Some 114"
  using htlc_fee_exact [of "\<lparr>htlc_fee = 100, fee_per_day = 7\<rparr>" "\<lparr>hc_fee = mk_asset 0 0, hc_from = 7, hc_to = 8,
     hc_amount = mk_asset 40 1, hc_preimage_hash = Sha256 ''cba'', hc_preimage_size = 3, claim_period_seconds = 86401\<rparr>"]
  by (simp add: days_up_def div_up_def chain_consts)

text \<open>The wrap that the hypothesis excludes: a period of the last day of the 32-bit range is charged for no day.\<close>

lemma htlc_fee_wraps:
  "htlc_create_calculate_fee \<lparr>htlc_fee = 100, fee_per_day = 7\<rparr> \<lparr>hc_fee = mk_asset 0 0, hc_from = 7, hc_to = 8,
     hc_amount = mk_asset 40 1, hc_preimage_hash = Sha256 ''cba'', hc_preimage_size = 3, claim_period_seconds = 4294967295\<rparr> = Some 100"
  by (simp add: htlc_create_calculate_fee_def u32_def chain_consts)

end
