(* ===== verification/Fees.thy ===== *)
theory Fees
  imports Market_Fees
begin

text \<open>
  Operation fees: how an evaluator takes the fee of an operation (\<^verbatim>\<open>libraries/chain/evaluator.cpp\<close> and
  \<^verbatim>\<open>evaluator.hpp\<close>), where it is kept until the maintenance interval and how it is then split between the network, the
  lifetime referrer, the referrer and the registrar (\<^verbatim>\<open>account_object.cpp\<close>), and the scaling of the fee schedule
  (\<^verbatim>\<open>libraries/protocol/fee_schedule.cpp\<close>). The fee of an operation before scaling is an argument.
\<close>

section \<open>Pending fees\<close>

definition stat_pay_fee :: "fc_lib \<Rightarrow> share_type \<Rightarrow> share_type \<Rightarrow> account_statistics_object \<Rightarrow> account_statistics_object option" where
  "stat_pay_fee L core_fee threshold s =
     (if core_fee > threshold then do {
        x \<leftarrow> safe_add L (pending_fees s) core_fee;
        Some (s\<lparr>pending_fees := x\<rparr>)
      } else do {
        x \<leftarrow> safe_add L (pending_vested_fees s) core_fee;
        Some (s\<lparr>pending_vested_fees := x\<rparr>)
      })"

definition cut_fee :: "share_type \<Rightarrow> uint16 \<Rightarrow> share_type" where
  "cut_fee a p =
     (if a = 0 \<or> p = 0 then 0
      else if p = GRAPHENE_100_PERCENT then a
      else s64 (u64 (u128 (u128 a * p) div GRAPHENE_100_PERCENT)))"

definition is_lifetime_member :: "account_object \<Rightarrow> bool" where
  "is_lifetime_member a \<longleftrightarrow> membership_expiration_date a = 2 ^ 32 - 1"

definition is_basic_account :: "time_point_sec \<Rightarrow> account_object \<Rightarrow> bool" where
  "is_basic_account now a \<longleftrightarrow> now > membership_expiration_date a"

definition is_annual_member :: "time_point_sec \<Rightarrow> account_object \<Rightarrow> bool" where
  "is_annual_member now a \<longleftrightarrow> \<not> is_lifetime_member a \<and> \<not> is_basic_account now a"

text \<open>The referrer of an account is replaced by its lifetime referrer once it is no longer a member.\<close>

definition refresh_referrer :: "account_id_type \<Rightarrow> database \<Rightarrow> database option" where
  "refresh_referrer acct d = do {
     a \<leftarrow> tbl_get acct (accounts d);
     r \<leftarrow> tbl_get (referrer a) (accounts d);
     Some (if is_basic_account (head_block_time d) r
           then d\<lparr>accounts := tbl_modify acct (\<lambda>a. a\<lparr>referrer := lifetime_referrer a\<rparr>) (accounts d)\<rparr> else d)
   }"

definition pay_out_fees :: "fc_lib \<Rightarrow> account_id_type \<Rightarrow> share_type \<Rightarrow> bool \<Rightarrow> database \<Rightarrow> database option" where
  "pay_out_fees L acct core_fee_total require_vesting d = do {
     d1 \<leftarrow> refresh_referrer acct d;
     a \<leftarrow> tbl_get acct (accounts d1);
     let network_cut = cut_fee core_fee_total (network_fee_percentage a);
     let lifetime_cut = cut_fee core_fee_total (lifetime_referrer_fee_percentage a);
     x \<leftarrow> safe_sub L core_fee_total network_cut;
     referral \<leftarrow> safe_sub L x lifetime_cut;
     (i, dd) \<leftarrow> get_dynamic_data d1 0;
     s \<leftarrow> safe_add L (accumulated_fees dd) network_cut;
     let d2 = d1\<lparr>asset_dynamic_data := tbl_modify i (\<lambda>o'. o'\<lparr>accumulated_fees := s\<rparr>) (asset_dynamic_data d1)\<rparr>;
     let referrer_cut = cut_fee referral (referrer_rewards_percentage a);
     registrar_cut \<leftarrow> safe_sub L referral referrer_cut;
     d3 \<leftarrow> deposit_cashback L (lifetime_referrer a) lifetime_cut require_vesting d2;
     d4 \<leftarrow> deposit_cashback L (referrer a) referrer_cut require_vesting d3;
     deposit_cashback L (registrar a) registrar_cut require_vesting d4
   }"

definition process_fees :: "fc_lib \<Rightarrow> nat \<Rightarrow> account_id_type \<Rightarrow> database \<Rightarrow> database option" where
  "process_fees L stat acct d = do {
     s \<leftarrow> tbl_get stat (account_statistics d);
     if pending_fees s > 0 \<or> pending_vested_fees s > 0 then do {
       d1 \<leftarrow> pay_out_fees L acct (pending_fees s) True d;
       d2 \<leftarrow> pay_out_fees L acct (pending_vested_fees s) False d1;
       t \<leftarrow> safe_add L (pending_fees s) (pending_vested_fees s);
       l \<leftarrow> safe_add L (lifetime_fees_paid s) t;
       Some (d2\<lparr>account_statistics := tbl_modify stat
         (\<lambda>s. s\<lparr>lifetime_fees_paid := l, pending_fees := 0, pending_vested_fees := 0\<rparr>) (account_statistics d2)\<rparr>)
     } else Some d
   }"

section \<open>The fee of an operation\<close>

definition scale_fee :: "uint64 \<Rightarrow> uint32 \<Rightarrow> asset option" where
  "scale_fee required_fee scale =
     (if scale \<noteq> GRAPHENE_100_PERCENT then do {
        let scaled = u128 (required_fee * scale) div GRAPHENE_100_PERCENT;
        fc_assert (scaled \<le> GRAPHENE_MAX_SHARE_SUPPLY);
        Some (mk_asset (s64 (u64 scaled)) 0)
      } else Some (mk_asset (s64 required_fee) 0))"

definition calculate_fee_at :: "uint64 \<Rightarrow> uint32 \<Rightarrow> price \<Rightarrow> asset option" where
  "calculate_fee_at required_fee scale cer = do {
     f \<leftarrow> scale_fee required_fee scale;
     multiply_and_round_up f cer
   }"

text \<open>The search for a fee that covers the operation once the fee itself is part of it. The fee that the operation requires is a
  function of the fee it carries; the result is the fee left in the operation and the fee returned.\<close>

definition MAX_FEE_STABILIZATION_ITERATION :: nat where "MAX_FEE_STABILIZATION_ITERATION = 4"

definition asset_max :: "asset \<Rightarrow> asset \<Rightarrow> asset option" where
  "asset_max a b = do { l \<leftarrow> asset_lt a b; Some (if l then b else a) }"

fun set_fee_loop :: "(asset \<Rightarrow> asset option) \<Rightarrow> nat \<Rightarrow> asset \<Rightarrow> asset \<Rightarrow> asset \<Rightarrow> (asset \<times> asset) option" where
  "set_fee_loop calc 0 op_fee f f_max = Some (op_fee, f_max)"
| "set_fee_loop calc (Suc n) op_fee f f_max = do {
     f2 \<leftarrow> calc f_max;
     if f = f2 then Some (f_max, f_max)
     else do {
       m \<leftarrow> asset_max f_max f2;
       set_fee_loop calc n f_max f2 m
     }
   }"

definition set_fee :: "(asset \<Rightarrow> asset option) \<Rightarrow> asset \<Rightarrow> (asset \<times> asset) option" where
  "set_fee calc op_fee = do {
     f \<leftarrow> calc op_fee;
     set_fee_loop calc MAX_FEE_STABILIZATION_ITERATION op_fee f f
   }"

text \<open>The members of \<^verbatim>\<open>generic_evaluator\<close> that \<^verbatim>\<open>prepare_fee\<close> sets.\<close>

record fee_context =
  fee_payer :: account_id_type
  fee_from_account :: asset
  core_fee_paid :: share_type
  fee_statistics :: nat
  fee_asset_dyn :: nat

definition prepare_fee :: "account_id_type \<Rightarrow> asset \<Rightarrow> database \<Rightarrow> fee_context option" where
  "prepare_fee account fee d = do {
     fc_assert (amount fee \<ge> 0);
     acct \<leftarrow> tbl_get account (accounts d);
     _ \<leftarrow> tbl_get (statistics acct) (account_statistics d);
     fa \<leftarrow> tbl_get (asset_id fee) (assets d);
     dd \<leftarrow> tbl_get (dynamic_asset_data_id fa) (asset_dynamic_data d);
     fc_assert (is_authorized_asset acct (asset_id fee) fa);
     core \<leftarrow> (if asset_id fee = 0 then Some (amount fee)
              else do {
                fee_from_pool \<leftarrow> asset_mul fee (core_exchange_rate_opt (ao_options fa));
                fc_assert (asset_id fee_from_pool = 0);
                fc_assert (amount fee_from_pool \<le> fee_pool dd);
                Some (amount fee_from_pool)
              });
     Some \<lparr>fee_payer = account, fee_from_account = fee, core_fee_paid = core, fee_statistics = statistics acct,
           fee_asset_dyn = dynamic_asset_data_id fa\<rparr>
   }"

definition convert_fee :: "fc_lib \<Rightarrow> bool \<Rightarrow> fee_context \<Rightarrow> database \<Rightarrow> database option" where
  "convert_fee L skip_fee c d =
     (if \<not> skip_fee \<and> asset_id (fee_from_account c) \<noteq> 0 then do {
        dd \<leftarrow> tbl_get (fee_asset_dyn c) (asset_dynamic_data d);
        a \<leftarrow> safe_add L (accumulated_fees dd) (amount (fee_from_account c));
        p \<leftarrow> safe_sub L (fee_pool dd) (core_fee_paid c);
        Some (d\<lparr>asset_dynamic_data := tbl_modify (fee_asset_dyn c)
          (\<lambda>x. x\<lparr>accumulated_fees := a, fee_pool := p\<rparr>) (asset_dynamic_data d)\<rparr>)
      } else Some d)"

definition evaluator_pay_fee :: "fc_lib \<Rightarrow> bool \<Rightarrow> fee_context \<Rightarrow> database \<Rightarrow> database option" where
  "evaluator_pay_fee L skip_fee c d =
     (if \<not> skip_fee then do {
        s \<leftarrow> tbl_get (fee_statistics c) (account_statistics d);
        s' \<leftarrow> stat_pay_fee L (core_fee_paid c) (cashback_vesting_threshold d) s;
        Some (d\<lparr>account_statistics := tbl_modify (fee_statistics c) (\<lambda>_. s') (account_statistics d)\<rparr>)
      } else Some d)"

text \<open>\<^verbatim>\<open>evaluate\<close> and \<^verbatim>\<open>apply\<close> of the evaluator template, over the \<^verbatim>\<open>do_evaluate\<close> and \<^verbatim>\<open>do_apply\<close> of an
  operation. The required fee is that of the fee schedule.\<close>

definition evaluator_evaluate ::
  "share_type option \<Rightarrow> account_id_type \<Rightarrow> asset \<Rightarrow> (database \<Rightarrow> 'e option) \<Rightarrow> database \<Rightarrow> (fee_context \<times> 'e) option" where
  "evaluator_evaluate required payer fee do_evaluate d = do {
     c \<leftarrow> prepare_fee payer fee d;
     (case required of None \<Rightarrow> Some () | Some r \<Rightarrow> fc_assert (core_fee_paid c \<ge> r));
     e \<leftarrow> do_evaluate d;
     Some (c, e)
   }"

definition evaluator_apply ::
  "fc_lib \<Rightarrow> bool \<Rightarrow> ('e \<Rightarrow> database \<Rightarrow> database option) \<Rightarrow> fee_context \<times> 'e \<Rightarrow> database \<Rightarrow> database option" where
  "evaluator_apply L skip_fee do_apply ce d = do {
     d1 \<leftarrow> convert_fee L skip_fee (fst ce) d;
     d2 \<leftarrow> evaluator_pay_fee L skip_fee (fst ce) d1;
     d3 \<leftarrow> do_apply (snd ce) d2;
     n \<leftarrow> asset_neg L (fee_from_account (fst ce));
     adjust_balance L (fee_payer (fst ce)) n d3
   }"

definition start_evaluate ::
  "fc_lib \<Rightarrow> share_type option \<Rightarrow> bool \<Rightarrow> account_id_type \<Rightarrow> asset \<Rightarrow> (database \<Rightarrow> 'e option) \<Rightarrow>
     ('e \<Rightarrow> database \<Rightarrow> database option) \<Rightarrow> database \<Rightarrow> database option" where
  "start_evaluate L required skip_fee payer fee do_evaluate do_apply d = do {
     ce \<leftarrow> evaluator_evaluate required payer fee do_evaluate d;
     evaluator_apply L skip_fee do_apply ce d
   }"


section \<open>The split of the fees\<close>

lemma cut_fee_exact:
  assumes "0 \<le> a" "a < 2 ^ 63" "0 \<le> p" "p \<le> GRAPHENE_100_PERCENT"
  shows "cut_fee a p = a * p div GRAPHENE_100_PERCENT" "0 \<le> cut_fee a p" "cut_fee a p \<le> a"
proof -
  have ap: "0 \<le> a * p" "a * p \<le> a * 10000" using assms by (auto simp: chain_consts intro: mult_left_mono)
  then have b: "0 \<le> a * p div 10000" "a * p div 10000 \<le> a"
    using zdiv_mono1 [of "a * p" "a * 10000" 10000] by (simp_all add: pos_imp_zdiv_nonneg_iff)
  then show e: "cut_fee a p = a * p div GRAPHENE_100_PERCENT"
    using assms ap by (simp add: cut_fee_def chain_consts)
  show "0 \<le> cut_fee a p" "cut_fee a p \<le> a" using b unfolding e by (simp_all add: chain_consts)
qed

text \<open>What the deposit of cashback leaves of the statistics of every account.\<close>

lemma deposit_lazy_vesting_stats:
  "deposit_lazy_vesting L ov amt secs ty own rv d = Some (r, d') \<Longrightarrow> account_statistics d' = account_statistics d \<and> accounts d' = accounts d"
  by (auto simp: deposit_lazy_vesting_def opt_bind Let_def case_prod_unfold split: if_splits option.splits)

lemma deposit_cashback_stats:
  assumes "deposit_cashback L acct amt rv d = Some d'" "tbl_get i (account_statistics d) = Some s"
  shows "\<exists>h. tbl_get i (account_statistics d') = Some (s\<lparr>has_cashback_vb := h\<rparr>)"
proof (cases "amt = 0 \<or> is_chain_account acct")
  case True
  then have "account_statistics d' = account_statistics d" using assms(1) by (auto simp: deposit_cashback_def opt_bind split: if_splits)
  with assms(2) show ?thesis by (intro exI [of _ "has_cashback_vb s"]) simp
next
  case False
  with assms(1) obtain a r d1 where d1: "tbl_get acct (accounts d) = Some a"
    "deposit_lazy_vesting L (cashback_vb a) amt (cashback_vesting_period_seconds d) VB_cashback acct rv d = Some (r, d1)"
    by (auto simp: deposit_cashback_def opt_bind)
  have s1: "tbl_get i (account_statistics d1) = Some s" using deposit_lazy_vesting_stats [OF d1(2)] assms(2) by simp
  show ?thesis
  proof (cases r)
    case None
    with False d1 assms(1) have "d' = d1" by (simp add: deposit_cashback_def)
    with s1 show ?thesis by (intro exI [of _ "has_cashback_vb s"]) simp
  next
    case (Some j)
    then have "account_statistics d' = tbl_modify (statistics a) (\<lambda>s. s\<lparr>has_cashback_vb := True\<rparr>) (account_statistics d1)"
      using assms(1) False d1 by (auto simp: deposit_cashback_def opt_bind Let_def)
    with s1 show ?thesis by (cases "i = statistics a") (auto simp: tbl.get_modify intro: exI [of _ "has_cashback_vb s"])
  qed
qed

lemma refresh_referrer_effect:
  assumes "db_wf d" "refresh_referrer acct d = Some d'"
  shows "db_wf d'" "gap b d' = gap b d" "account_statistics d' = account_statistics d"
    "get_dynamic_data d' a = get_dynamic_data d a"
  using assms by (auto simp: refresh_referrer_def opt_bind db_wf_upd db_wf_tables tbl_wf_ops gap_upd get_dynamic_data_def split: if_splits)

context fc_safe
begin

lemma pay_out_fees_effect:
  assumes wf: "db_wf d" and run: "pay_out_fees L acct tot rv d = Some d'"
  shows "db_wf d'" "gap b d' = gap b d + (if b = 0 then tot else 0)"
    "tbl_get i (account_statistics d) = Some s \<Longrightarrow> \<exists>h. tbl_get i (account_statistics d') = Some (s\<lparr>has_cashback_vb := h\<rparr>)"
proof -
  define nc :: "account_object \<Rightarrow> int" where "nc a = cut_fee tot (network_fee_percentage a)" for a
  define lc :: "account_object \<Rightarrow> int" where "lc a = cut_fee tot (lifetime_referrer_fee_percentage a)" for a
  define rc :: "account_object \<Rightarrow> int" where "rc a = cut_fee (tot - nc a - lc a) (referrer_rewards_percentage a)" for a
  from run obtain d1 a j dd d3 d4 where d1: "refresh_referrer acct d = Some d1"
    and g: "get_dynamic_data d1 0 = Some (j, dd)"
    and d3: "deposit_cashback L (lifetime_referrer a) (lc a) rv (d1\<lparr>asset_dynamic_data :=
        tbl_modify j (\<lambda>o'. o'\<lparr>accumulated_fees := accumulated_fees dd + nc a\<rparr>) (asset_dynamic_data d1)\<rparr>) = Some d3"
    and d4: "deposit_cashback L (referrer a) (rc a) rv d3 = Some d4"
    and d': "deposit_cashback L (registrar a) (tot - nc a - lc a - rc a) rv d4 = Some d'"
    by (auto simp: pay_out_fees_def opt_bind safe_Some Let_def nc_def lc_def rc_def)
  note e1 = refresh_referrer_effect [OF wf d1]
  let ?f = "\<lambda>o'. o'\<lparr>accumulated_fees := accumulated_fees dd + nc a\<rparr>"
  let ?d2 = "d1\<lparr>asset_dynamic_data := tbl_modify j ?f (asset_dynamic_data d1)\<rparr>"
  note e2 = dynamic_data_update(1,2) [OF e1(1) g, where f = ?f]
  note e3 = deposit_cashback_effect [OF e2(1) d3]
  note e4 = deposit_cashback_effect [OF e3(1) d4]
  note e5 = deposit_cashback_effect [OF e4(1) d']
  show "db_wf d'" by (rule e5(1))
  show "gap b d' = gap b d + (if b = 0 then tot else 0)"
    using e1(2) [of b] e2(2) [of b] e3(2) [of b] e4(2) [of b] e5(2) [of b] by auto
  show "\<exists>h. tbl_get i (account_statistics d') = Some (s\<lparr>has_cashback_vb := h\<rparr>)" if s: "tbl_get i (account_statistics d) = Some s"
  proof -
    have "tbl_get i (account_statistics ?d2) = Some s" using s e1(3) by simp
    from deposit_cashback_stats [OF d3 this] obtain h3 where "tbl_get i (account_statistics d3) = Some (s\<lparr>has_cashback_vb := h3\<rparr>)" ..
    from deposit_cashback_stats [OF d4 this] obtain h4 where "tbl_get i (account_statistics d4) = Some (s\<lparr>has_cashback_vb := h4\<rparr>)" by auto
    from deposit_cashback_stats [OF d' this] show ?thesis by auto
  qed
qed

lemma process_fees_effect:
  assumes wf: "db_wf d" and run: "process_fees L i acct d = Some d'"
  shows "db_wf d'" "gap b d' = gap b d"
    "\<exists>s s'. tbl_get i (account_statistics d) = Some s \<and> tbl_get i (account_statistics d') = Some s' \<and>
      (pending_fees s > 0 \<or> pending_vested_fees s > 0 \<longrightarrow> pending_fees s' = 0 \<and> pending_vested_fees s' = 0 \<and>
        lifetime_fees_paid s' = lifetime_fees_paid s + pending_fees s + pending_vested_fees s)"
proof -
  obtain s where s: "tbl_get i (account_statistics d) = Some s" using run by (auto simp: process_fees_def opt_bind)
  have "db_wf d' \<and> gap b d' = gap b d \<and> (\<exists>s'. tbl_get i (account_statistics d') = Some s' \<and>
      (pending_fees s > 0 \<or> pending_vested_fees s > 0 \<longrightarrow> pending_fees s' = 0 \<and> pending_vested_fees s' = 0 \<and>
        lifetime_fees_paid s' = lifetime_fees_paid s + pending_fees s + pending_vested_fees s))"
  proof (cases "pending_fees s > 0 \<or> pending_vested_fees s > 0")
    case True
    with run s obtain d1 d2 where d1: "pay_out_fees L acct (pending_fees s) True d = Some d1"
      and d2: "pay_out_fees L acct (pending_vested_fees s) False d1 = Some d2"
      and d': "d' = d2\<lparr>account_statistics := tbl_modify i (\<lambda>x. x\<lparr>lifetime_fees_paid :=
          lifetime_fees_paid s + (pending_fees s + pending_vested_fees s), pending_fees := 0, pending_vested_fees := 0\<rparr>) (account_statistics d2)\<rparr>"
      by (auto simp: process_fees_def opt_bind safe_Some)
    note e1 = pay_out_fees_effect [OF wf d1] and e2 = pay_out_fees_effect [OF pay_out_fees_effect(1) [OF wf d1] d2]
    obtain h1 where "tbl_get i (account_statistics d1) = Some (s\<lparr>has_cashback_vb := h1\<rparr>)" using e1(3) [OF s] ..
    from e2(3) [OF this] obtain h2 where s2: "tbl_get i (account_statistics d2) = Some (s\<lparr>has_cashback_vb := h2\<rparr>)" by auto
    have "gap b d' = gap b d"
      using e1(2) [of b] e2(2) [of b] s2 db_wf_tables(2) [OF e2(1)] by (simp add: d' gap_upd tbl_sum_modify pending_of_def)
    then show ?thesis using s2 e2(1) by (simp add: d' db_wf_upd db_wf_tables tbl_wf_ops tbl.get_modify)
  next
    case False
    with run s wf show ?thesis by (simp add: process_fees_def)
  qed
  with s show "db_wf d'" "gap b d' = gap b d"
    "\<exists>s s'. tbl_get i (account_statistics d) = Some s \<and> tbl_get i (account_statistics d') = Some s' \<and>
      (pending_fees s > 0 \<or> pending_vested_fees s > 0 \<longrightarrow> pending_fees s' = 0 \<and> pending_vested_fees s' = 0 \<and>
        lifetime_fees_paid s' = lifetime_fees_paid s + pending_fees s + pending_vested_fees s)" by auto
qed

end

section \<open>The contract of an evaluator\<close>

text \<open>What the handling of the fee may change before \<^verbatim>\<open>do_apply\<close> runs on what \<^verbatim>\<open>do_evaluate\<close> has checked.\<close>

definition fee_frame :: "database \<Rightarrow> database \<Rightarrow> bool" where
  "fee_frame d d' \<longleftrightarrow>
     d' = d\<lparr>account_statistics := account_statistics d', asset_dynamic_data := asset_dynamic_data d'\<rparr> \<and> same_supplies d d' \<and>
     (\<forall>i. tbl_get i (account_statistics d') = None \<longleftrightarrow> tbl_get i (account_statistics d) = None)"

lemma fee_frame_refl [simp]: "fee_frame d d"
  by (simp add: fee_frame_def)

lemma fee_frame_keeps:
  assumes "fee_frame d d'"
  shows "accounts d' = accounts d" "account_balances d' = account_balances d" "assets d' = assets d" "properties d' = properties d"
    "asset_limitations d' = asset_limitations d" "asset_prices d' = asset_prices d" "vesting_balances d' = vesting_balances d"
    "htlcs d' = htlcs d" "liquidity_pools d' = liquidity_pools d" "limit_orders d' = limit_orders d"
    "head_block_time d' = head_block_time d" "supply_of b d' = supply_of b d"
proof -
  have eq: "d' = d\<lparr>account_statistics := account_statistics d', asset_dynamic_data := asset_dynamic_data d'\<rparr>"
    using assms by (simp add: fee_frame_def)
  show "accounts d' = accounts d" "account_balances d' = account_balances d" "assets d' = assets d" "properties d' = properties d"
    "asset_limitations d' = asset_limitations d" "asset_prices d' = asset_prices d" "vesting_balances d' = vesting_balances d"
    "htlcs d' = htlcs d" "liquidity_pools d' = liquidity_pools d" "limit_orders d' = limit_orders d"
    "head_block_time d' = head_block_time d" by (subst eq, simp)+
  show "supply_of b d' = supply_of b d" using assms by (simp add: fee_frame_def same_supplies_def)
qed

lemma fee_frame_trans:
  assumes "fee_frame d d1" "fee_frame d1 d2"
  shows "fee_frame d d2"
proof -
  obtain s1 t1 s2 t2 where eq: "d1 = d\<lparr>account_statistics := s1, asset_dynamic_data := t1\<rparr>"
      "d2 = d1\<lparr>account_statistics := s2, asset_dynamic_data := t2\<rparr>"
    using assms unfolding fee_frame_def by blast
  then have "d2 = d\<lparr>account_statistics := account_statistics d2, asset_dynamic_data := asset_dynamic_data d2\<rparr>" by simp
  moreover have "same_supplies d d2" using assms same_supplies_trans unfolding fee_frame_def by blast
  ultimately show ?thesis using assms unfolding fee_frame_def by blast
qed

text \<open>An update of the fees of an asset, which leaves its supply.\<close>

lemma fee_data_update:
  fixes f :: "asset_dynamic_data_object \<Rightarrow> asset_dynamic_data_object"
  assumes wf: "db_wf d" and dd: "get_dynamic_data d a = Some (i, dd)" and f: "current_supply (f dd) = current_supply dd"
    and d': "d' = d\<lparr>asset_dynamic_data := tbl_modify i f (asset_dynamic_data d)\<rparr>"
  shows "db_wf d'" "fee_frame d d'" "account_statistics d' = account_statistics d"
    "gap b d' = gap b d + (if b = a then accumulated_fees (f dd) - accumulated_fees dd else 0) + (if b = 0 then fee_pool (f dd) - fee_pool dd else 0)"
proof -
  note u = dynamic_data_update [OF wf dd, where f = f, folded d']
  show "db_wf d'" by (rule u(1))
  have "supply_of b d' = supply_of b d" for b
    using u(3) u(4) [of b] dd f by (cases "b = a") (simp_all add: supply_of_def)
  then show "fee_frame d d'" by (simp add: fee_frame_def d' same_supplies_def)
  show "account_statistics d' = account_statistics d" by (simp add: d')
  show "gap b d' = gap b d + (if b = a then accumulated_fees (f dd) - accumulated_fees dd else 0) + (if b = 0 then fee_pool (f dd) - fee_pool dd else 0)"
    using u(2) [of b] f by simp
qed

text \<open>The fee handling of the generic evaluator: the fee leaves the payer later, so each step owes it to the ledger.\<close>

lemma prepare_fee_Some:
  assumes "prepare_fee payer fee d = Some c"
  obtains dd where "get_dynamic_data d (asset_id fee) = Some (fee_asset_dyn c, dd)" "fee_payer c = payer" "fee_from_account c = fee"
    "tbl_get (fee_statistics c) (account_statistics d) \<noteq> None" "0 \<le> amount fee" "asset_id fee = 0 \<longrightarrow> core_fee_paid c = amount fee"
    "asset_id fee \<noteq> 0 \<longrightarrow> core_fee_paid c \<le> fee_pool dd"
  using assms that by (fastforce simp: prepare_fee_def opt_bind get_dynamic_data_Some)

context fc_safe
begin

lemma convert_fee_effect:
  assumes wf: "db_wf d" and c: "prepare_fee payer fee d = Some c" and run: "convert_fee L False c d = Some d'"
  shows "db_wf d'" "fee_frame d d'" "account_statistics d' = account_statistics d"
    "gap b d' = gap b d + of_asset b fee - (if b = 0 then core_fee_paid c else 0)"
proof -
  obtain dd where dd: "get_dynamic_data d (asset_id fee) = Some (fee_asset_dyn c, dd)" "fee_from_account c = fee"
      "asset_id fee = 0 \<longrightarrow> core_fee_paid c = amount fee"
    using prepare_fee_Some [OF c] by metis
  have "db_wf d' \<and> fee_frame d d' \<and> account_statistics d' = account_statistics d \<and>
    gap b d' = gap b d + of_asset b fee - (if b = 0 then core_fee_paid c else 0)"
  proof (cases "asset_id fee = 0")
    case True
    with run wf dd show ?thesis by (simp add: convert_fee_def of_asset_def)
  next
    case False
    let ?f = "\<lambda>x. x\<lparr>accumulated_fees := accumulated_fees dd + amount fee, fee_pool := fee_pool dd - core_fee_paid c\<rparr>"
    have d': "d' = d\<lparr>asset_dynamic_data := tbl_modify (fee_asset_dyn c) ?f (asset_dynamic_data d)\<rparr>"
      using run dd False by (auto simp: convert_fee_def opt_bind safe_Some get_dynamic_data_Some)
    note u = fee_data_update [OF wf dd(1) _ d']
    show ?thesis using u(1,2,3) u(4) [of b] by (simp add: of_asset_def)
  qed
  then show "db_wf d'" "fee_frame d d'" "account_statistics d' = account_statistics d"
    "gap b d' = gap b d + of_asset b fee - (if b = 0 then core_fee_paid c else 0)" by auto
qed

lemma pay_stat_effect:
  assumes wf: "db_wf d" and s: "tbl_get i (account_statistics d) = Some s" "stat_pay_fee L x th s = Some s'"
    and d': "d' = d\<lparr>account_statistics := tbl_modify i (\<lambda>_. s') (account_statistics d)\<rparr>"
  shows "db_wf d'" "fee_frame d d'" "gap b d' = gap b d + (if b = 0 then x else 0)"
proof -
  show "db_wf d'" using wf by (simp add: d' db_wf_upd db_wf_tables tbl_wf_ops)
  show "fee_frame d d'" using s by (auto simp: d' fee_frame_def tbl.get_modify)
  have "pending_of b s' = pending_of b s + (if b = 0 then x else 0)"
    using s(2) by (auto simp: stat_pay_fee_def opt_bind safe_Some pending_of_def split: if_splits)
  then show "gap b d' = gap b d + (if b = 0 then x else 0)"
    using wf s(1) by (simp add: d' gap_upd tbl_sum_modify db_wf_tables)
qed

lemma evaluator_pay_fee_effect:
  assumes wf: "db_wf d" and run: "evaluator_pay_fee L False c d = Some d'"
  shows "db_wf d'" "fee_frame d d'" "gap b d' = gap b d + (if b = 0 then core_fee_paid c else 0)"
proof -
  obtain s s' where s: "tbl_get (fee_statistics c) (account_statistics d) = Some s"
      "stat_pay_fee L (core_fee_paid c) (cashback_vesting_threshold d) s = Some s'"
      "d' = d\<lparr>account_statistics := tbl_modify (fee_statistics c) (\<lambda>_. s') (account_statistics d)\<rparr>"
    using run by (auto simp: evaluator_pay_fee_def opt_bind)
  show "db_wf d'" "fee_frame d d'" "gap b d' = gap b d + (if b = 0 then core_fee_paid c else 0)"
    by (rule pay_stat_effect [OF wf s])+
qed

end

text \<open>The stages of an evaluation: the fee is moved, the operation applied, and the payer charged.\<close>

context fc_safe
begin

lemma start_evaluate_cases:
  assumes wf: "db_wf d" and run: "start_evaluate L required False payer fee ev ap d = Some d'"
  obtains e d1 d2 n where "ev d = Some e" "fee_frame d d1" "db_wf d1" "\<And>b. gap b d1 = gap b d + of_asset b fee"
    "ap e d1 = Some d2" "n = mk_asset (- amount fee) (asset_id fee)" "adjust_balance L payer n d2 = Some d'"
proof -
  obtain c e d1 d2 d3 n where c: "prepare_fee payer fee d = Some c" and e: "ev d = Some e"
    and d1: "convert_fee L False c d = Some d1" and d2: "evaluator_pay_fee L False c d1 = Some d2"
    and d3: "ap e d2 = Some d3" and n: "asset_neg L (fee_from_account c) = Some n"
    and d': "adjust_balance L (fee_payer c) n d3 = Some d'"
    using run by (auto simp: start_evaluate_def evaluator_evaluate_def evaluator_apply_def opt_bind)
  have fee: "fee_from_account c = fee" "fee_payer c = payer" using prepare_fee_Some [OF c] by metis+
  note e1 = convert_fee_effect [OF wf c d1] and e2 = evaluator_pay_fee_effect [OF convert_fee_effect(1) [OF wf c d1] d2]
  have "gap b d2 = gap b d + of_asset b fee" for b using e2(3) [of b] e1(4) [of b] by simp
  moreover have "n = mk_asset (- amount fee) (asset_id fee)" using n fee by (auto simp: asset_neg_def opt_bind safe_Some)
  ultimately show ?thesis using that [OF e fee_frame_trans [OF e1(2) e2(2)] e2(1) _ d3 _ d' [unfolded fee]] by blast
qed

end

text \<open>
  The contract: \<^verbatim>\<open>do_apply\<close>, run on what \<^verbatim>\<open>do_evaluate\<close> has accepted and after the fee was moved, keeps the database
  well formed, the ledger as it finds it, and the time of the head block. Every evaluator that keeps it keeps the ledger with its fee as well.
\<close>

locale op_evaluator = fc_safe L for L :: fc_lib +
  fixes valid :: "'op \<Rightarrow> database \<Rightarrow> bool"
    and do_evaluate :: "'op \<Rightarrow> database \<Rightarrow> 'e option"
    and do_apply :: "'op \<Rightarrow> 'e \<Rightarrow> database \<Rightarrow> database option"
  assumes apply_ledger: "db_wf d \<Longrightarrow> valid op d \<Longrightarrow> do_evaluate op d = Some e \<Longrightarrow> fee_frame d d1 \<Longrightarrow> db_wf d1 \<Longrightarrow>
      do_apply op e d1 = Some d2 \<Longrightarrow> db_wf d2 \<and> gap b d2 = gap b d1"
    and apply_time: "do_apply op e d1 = Some d2 \<Longrightarrow> head_block_time d2 = head_block_time d1"
begin

lemma start_evaluate_ledger:
  assumes wf: "db_wf d" and v: "valid op d"
    and run: "start_evaluate L required False payer fee (do_evaluate op) (do_apply op) d = Some d'"
  shows "db_wf d' \<and> gap b d' = gap b d"
proof (rule start_evaluate_cases [OF wf run])
  fix e d1 d2 n
  assume e: "do_evaluate op d = Some e" and d1: "fee_frame d d1" "db_wf d1" "\<And>b. gap b d1 = gap b d + of_asset b fee"
    and d2: "do_apply op e d1 = Some d2" and n: "n = mk_asset (- amount fee) (asset_id fee)" and d': "adjust_balance L payer n d2 = Some d'"
  have "db_wf d2" "gap b d2 = gap b d1" using apply_ledger [OF wf v e d1(1,2) d2] by auto
  then show ?thesis using adjust_balance_effect(1,2) [OF _ d'] d1(3) [of b] n by (auto simp: of_asset_def)
qed

lemma start_evaluate_time:
  assumes wf: "db_wf d" and run: "start_evaluate L required False payer fee (do_evaluate op) (do_apply op) d = Some d'"
  shows "head_block_time d' = head_block_time d"
proof (rule start_evaluate_cases [OF wf run])
  fix e d1 d2 n
  assume "fee_frame d d1" "do_apply op e d1 = Some d2" "adjust_balance L payer n d2 = Some d'"
  then show ?thesis using apply_time fee_frame_keeps(11) adjust_balance_keeps(11) by metis
qed

end

section \<open>Properties\<close>

text \<open>
  The fees of an account are paid out without loss: what \<^verbatim>\<open>process_fees\<close> takes from the pending fees of an account is found,
  to the last unit, with the network, the lifetime referrer, the referrer and the registrar; afterwards nothing is pending and
  the lifetime total of the account has grown by what was pending.
\<close>

theorem process_fees_conserves:
  assumes "fc_safe L" "db_wf d" "process_fees L i acct d = Some d'"
  shows "db_wf d' \<and> (\<forall>b. gap b d' = gap b d) \<and>
    (\<exists>s s'. tbl_get i (account_statistics d) = Some s \<and> tbl_get i (account_statistics d') = Some s' \<and>
      (pending_fees s > 0 \<or> pending_vested_fees s > 0 \<longrightarrow> pending_fees s' = 0 \<and> pending_vested_fees s' = 0 \<and>
        lifetime_fees_paid s' = lifetime_fees_paid s + pending_fees s + pending_vested_fees s))"
  using fc_safe.process_fees_effect [OF assms] by blast

definition demo_pending :: database where
  "demo_pending = demo_accounts\<lparr>
     accounts := \<lparr>rows = [(7, demo_account), (8, demo_account\<lparr>acct_name := ''alice'', statistics := 1\<rparr>)], next_instance = 9\<rparr>,
     account_statistics := \<lparr>rows = [(0, demo_stat), (1, demo_stat\<lparr>stat_owner := 8, pending_fees := 1001, pending_vested_fees := 77\<rparr>)],
       next_instance = 2\<rparr>,
     assets := \<lparr>rows = [(0, demo_fee_asset)], next_instance = 1\<rparr>,
     asset_dynamic_data := \<lparr>rows = [(0, \<lparr>current_supply = 100, confidential_supply = 0, accumulated_fees = 0, fee_pool = 0\<rparr>)],
       next_instance = 1\<rparr>, head_block_time := 1000\<rparr>"

lemma demo_pending_wf: "db_wf demo_pending"
  by (simp add: demo_pending_def demo_accounts_def demo_balances_def empty_database_def db_wf_def tbl_wf_def tbl_empty_def
      assets_linked_def tbl_get_def demo_fee_asset_def)

theorem process_fees_conserves_witness:
  "\<exists>d'. process_fees checked_lib 1 8 demo_pending = Some d' \<and> gap 0 d' = gap 0 demo_pending \<and>
     (\<exists>s'. tbl_get 1 (account_statistics d') = Some s' \<and> pending_fees s' = 0 \<and> lifetime_fees_paid s' = 1078)"
proof -
  have "process_fees checked_lib 1 8 demo_pending \<noteq> None" by code_simp
  then obtain d' where d': "process_fees checked_lib 1 8 demo_pending = Some d'" by blast
  have s: "tbl_get 1 (account_statistics demo_pending) =
      Some (demo_stat\<lparr>stat_owner := 8, pending_fees := 1001, pending_vested_fees := 77\<rparr>)"
    by (simp add: demo_pending_def tbl_get_def)
  from process_fees_conserves [OF checked_lib_safe demo_pending_wf d'] d' s show ?thesis by (auto simp: demo_stat_def)
qed

text \<open>
  The scaling of a fee is exact or refused: the scaled fee is the floor of the fee times the scale, in hundredths of a
  percent, computed without overflow, and the calculation fails exactly when it is above the largest supply a chain can have.
\<close>

theorem scale_fee_exact:
  assumes "0 \<le> r" "r < 2 ^ 64" "0 \<le> s" "s < 2 ^ 32" "s \<noteq> GRAPHENE_100_PERCENT"
  shows "scale_fee r s =
    (if r * s div GRAPHENE_100_PERCENT \<le> GRAPHENE_MAX_SHARE_SUPPLY then Some (mk_asset (r * s div GRAPHENE_100_PERCENT) 0) else None)"
proof -
  have "r * s < 2 ^ 64 * 2 ^ 32" using assms by (intro mult_strict_mono) simp_all
  then have m: "u128 (r * s) = r * s" using assms by simp
  have "0 \<le> r * s div GRAPHENE_100_PERCENT" using assms by (simp add: chain_consts pos_imp_zdiv_nonneg_iff)
  then show ?thesis using assms m by (auto simp: scale_fee_def chain_consts)
qed

theorem scale_fee_exact_witness:
  "scale_fee 18446744073709551615 20000 = None \<and> scale_fee 2000003 15000 = Some (mk_asset 3000004 0)"
  using scale_fee_exact [of 18446744073709551615 20000] scale_fee_exact [of 2000003 15000] by (simp add: chain_consts)

text \<open>The fee that the search returns is at least the first one calculated, and when it is the one left in the operation it covers
  the operation. After the last round the operation may carry a smaller fee than the one returned.\<close>

lemma asset_max_Some: "asset_max a b = Some m \<longleftrightarrow> asset_id a = asset_id b \<and> m = (if amount a < amount b then b else a)"
  by (auto simp: asset_max_def opt_bind asset_lt_def)

lemma set_fee_loop_covers:
  assumes "set_fee_loop calc n op_fee f f_max = Some (o', m)" "asset_id f = asset_id f_max" "amount f \<le> amount f_max"
  shows "asset_id m = asset_id f_max \<and> amount f_max \<le> amount m \<and>
    (n > 0 \<longrightarrow> o' = m \<longrightarrow> (\<exists>f'. calc m = Some f' \<and> asset_id f' = asset_id m \<and> amount f' \<le> amount m))"
  using assms
proof (induction n arbitrary: op_fee f f_max)
  case (Suc n)
  obtain f2 where f2: "calc f_max = Some f2" using Suc.prems(1) by (auto simp: opt_bind)
  show ?case
  proof (cases "f = f2")
    case True
    with Suc.prems f2 show ?thesis by auto
  next
    case False
    with Suc.prems(1) f2 obtain m' where m': "asset_max f_max f2 = Some m'" "set_fee_loop calc n f_max f2 m' = Some (o', m)"
      by (auto simp: opt_bind)
    have s: "asset_id f2 = asset_id m'" "amount f2 \<le> amount m'" "asset_id m' = asset_id f_max" "amount f_max \<le> amount m'"
      using m'(1) by (auto simp: asset_max_Some split: if_splits)
    show ?thesis
    proof (cases n)
      case 0
      then have "f_max = o'" "m' = m" using m'(2) by simp_all
      then show ?thesis using s f2 by metis
    next
      case (Suc k)
      with Suc.IH [OF m'(2) s(1,2)] s show ?thesis by auto
    qed
  qed
qed simp

lemma set_fee_covers:
  assumes "set_fee calc op_fee = Some (o', m)"
  shows "\<exists>f. calc op_fee = Some f \<and> amount f \<le> amount m \<and>
    (o' = m \<longrightarrow> (\<exists>f'. calc m = Some f' \<and> asset_id f' = asset_id m \<and> amount f' \<le> amount m))"
proof -
  obtain f where f: "calc op_fee = Some f" "set_fee_loop calc MAX_FEE_STABILIZATION_ITERATION op_fee f f = Some (o', m)"
    using assms by (auto simp: set_fee_def opt_bind)
  from set_fee_loop_covers [OF f(2)] f(1) show ?thesis by (auto simp: MAX_FEE_STABILIZATION_ITERATION_def)
qed

end
