(* ===== verification/Vesting_Ops.thy ===== *)
theory Vesting_Ops
  imports Fees
begin

text \<open>
  The operations on vesting balances: creation and withdrawal (\<^verbatim>\<open>libraries/chain/vesting_balance_evaluator.cpp\<close>,
  \<^verbatim>\<open>libraries/protocol/include/graphene/protocol/vesting.hpp\<close>). The policies themselves are in \<open>Vesting\<close>; the lemmas
  show that every vesting balance the operations create or change stays consistent with its policy, that only its owner
  is paid from it and that no operation creates or loses value.
\<close>

section \<open>Operations\<close>

datatype vesting_policy_initializer =
    Linear_initializer (init_begin_timestamp: time_point_sec) (init_cliff_seconds: uint32) (init_duration_seconds: uint32)
  | Cdd_initializer (init_start_claim: time_point_sec) (init_vesting_seconds: uint32)
  | Instant_initializer

record vesting_balance_create_operation =
  vbc_fee :: asset
  vbc_creator :: account_id_type
  vbc_owner :: account_id_type
  vbc_amount :: asset
  vbc_policy :: vesting_policy_initializer

record vesting_balance_withdraw_operation =
  vbw_fee :: asset
  vbw_vesting_balance :: nat
  vbw_owner :: account_id_type
  vbw_amount :: asset

definition vb_create_validate :: "vesting_balance_create_operation \<Rightarrow> unit option" where
  "vb_create_validate op = do {
     fc_assert (amount (vbc_fee op) \<ge> 0);
     fc_assert (amount (vbc_amount op) > 0)
   }"

definition vb_withdraw_validate :: "vesting_balance_withdraw_operation \<Rightarrow> unit option" where
  "vb_withdraw_validate op = do {
     fc_assert (amount (vbw_fee op) \<ge> 0);
     fc_assert (amount (vbw_amount op) > 0);
     fc_assert (vbw_owner op \<noteq> GRAPHENE_TEMP_ACCOUNT)
   }"

definition vb_create_evaluate :: "vesting_balance_create_operation \<Rightarrow> database \<Rightarrow> unit option" where
  "vb_create_evaluate op d = do {
     _ \<leftarrow> tbl_get (vbc_creator op) (accounts d);
     _ \<leftarrow> tbl_get (vbc_owner op) (accounts d);
     fc_assert (amount (vbc_amount op) > 0);
     ge \<leftarrow> asset_ge (get_balance d (vbc_creator op) (asset_id (vbc_amount op))) (vbc_amount op);
     fc_assert ge;
     a \<leftarrow> tbl_get (asset_id (vbc_amount op)) (assets d);
     fc_assert (\<not> is_transfer_restricted a)
   }"

fun init_policy_visitor :: "share_type \<Rightarrow> time_point_sec \<Rightarrow> vesting_policy_initializer \<Rightarrow> vesting_policy" where
  "init_policy_visitor init_balance now (Linear_initializer b c s) =
     Linear \<lparr>begin_timestamp = b, vesting_cliff_seconds = c, vesting_duration_seconds = s, begin_balance = init_balance\<rparr>"
| "init_policy_visitor init_balance now (Cdd_initializer c s) =
     Cdd \<lparr>vesting_seconds = s, coin_seconds_earned = 0, start_claim = c, coin_seconds_earned_last_update = now\<rparr>"
| "init_policy_visitor init_balance now Instant_initializer = Instant"

definition vb_create_apply :: "fc_lib \<Rightarrow> vesting_balance_create_operation \<Rightarrow> database \<Rightarrow> (nat \<times> database) option" where
  "vb_create_apply L op d = do {
     let now = head_block_time d;
     ge \<leftarrow> asset_ge (get_balance d (vbc_creator op) (asset_id (vbc_amount op))) (vbc_amount op);
     fc_assert ge;
     n \<leftarrow> asset_neg L (vbc_amount op);
     d1 \<leftarrow> adjust_balance L (vbc_creator op) n d;
     let (i, t) = tbl_create \<lparr>vbo_owner = vbc_owner op, vbo_balance = vbc_amount op,
       vbo_policy = init_policy_visitor (amount (vbc_amount op)) now (vbc_policy op), vbo_balance_type = VB_unspecified\<rparr>
       (vesting_balances d1);
     Some (i, d1\<lparr>vesting_balances := t\<rparr>)
   }"

definition vb_withdraw_evaluate :: "fc_lib \<Rightarrow> vesting_balance_withdraw_operation \<Rightarrow> database \<Rightarrow> unit option" where
  "vb_withdraw_evaluate L op d = do {
     let now = head_block_time d;
     v \<leftarrow> tbl_get (vbw_vesting_balance op) (vesting_balances d);
     fc_assert (vbw_owner op = vbo_owner v);
     al \<leftarrow> vbo_is_withdraw_allowed L v now (vbw_amount op);
     fc_assert al;
     _ \<leftarrow> tbl_get (vbw_owner op) (accounts d);
     Some ()
   }"

definition vb_withdraw_apply :: "fc_lib \<Rightarrow> vesting_balance_withdraw_operation \<Rightarrow> database \<Rightarrow> database option" where
  "vb_withdraw_apply L op d = do {
     let now = head_block_time d;
     v \<leftarrow> tbl_get (vbw_vesting_balance op) (vesting_balances d);
     v' \<leftarrow> vbo_withdraw L v now (vbw_amount op);
     adjust_balance L (vbw_owner op) (vbw_amount op)
       (d\<lparr>vesting_balances := tbl_modify (vbw_vesting_balance op) (\<lambda>_. v') (vesting_balances d)\<rparr>)
   }"

definition vb_create :: "fc_lib \<Rightarrow> vesting_balance_create_operation \<Rightarrow> database \<Rightarrow> (nat \<times> database) option" where
  "vb_create L op d = do { vb_create_validate op; vb_create_evaluate op d; vb_create_apply L op d }"

definition vb_withdraw :: "fc_lib \<Rightarrow> vesting_balance_withdraw_operation \<Rightarrow> database \<Rightarrow> database option" where
  "vb_withdraw L op d = do { vb_withdraw_validate op; vb_withdraw_evaluate L op d; vb_withdraw_apply L op d }"

section \<open>Consistency of all vesting balances\<close>

definition vesting_ok :: "database \<Rightarrow> bool" where
  "vesting_ok d \<longleftrightarrow> (\<forall>i v. tbl_get i (vesting_balances d) = Some v \<longrightarrow> vbo_ok (head_block_time d) v)"

fun initializer_ok :: "vesting_policy_initializer \<Rightarrow> bool" where
  "initializer_ok (Linear_initializer b c s) \<longleftrightarrow> in_u32 b \<and> in_u32 c \<and> in_u32 s"
| "initializer_ok (Cdd_initializer c s) \<longleftrightarrow> in_u32 c \<and> in_u32 s"
| "initializer_ok Instant_initializer \<longleftrightarrow> True"

lemma init_policy_ok:
  assumes "initializer_ok p" "share_range x" "in_u32 now"
  shows "policy_ok now (init_policy_visitor (amount x) now p) x"
  using assms
proof (cases p)
  case (Linear_initializer b c s)
  then have "0 \<le> linear_vested \<lparr>begin_timestamp = b, vesting_cliff_seconds = c, vesting_duration_seconds = s, begin_balance = amount x\<rparr> now"
    using assms by (auto simp: linear_vested_def Let_def share_range_def in_u32_def pos_imp_zdiv_nonneg_iff)
  then show ?thesis using assms Linear_initializer by (simp add: linear_ok_def share_range_def in_u32_def)
next
  case (Cdd_initializer c s)
  then show ?thesis using assms by (simp add: cdd_ok_def share_range_def in_u32_def)
qed simp

inductive vesting_step :: "fc_lib \<Rightarrow> database \<Rightarrow> database \<Rightarrow> bool" for L where
  Vest: "vb_create L op d = Some (i, d') \<Longrightarrow> initializer_ok (vbc_policy op) \<Longrightarrow> amount (vbc_amount op) \<le> GRAPHENE_MAX_SHARE_SUPPLY \<Longrightarrow>
    vesting_step L d d'"
| Withdraw: "vb_withdraw L op d = Some d' \<Longrightarrow> vesting_step L d d'"
| Time: "head_block_time d \<le> t \<Longrightarrow> t < 2 ^ 32 \<Longrightarrow> vesting_step L d (d\<lparr>head_block_time := t\<rparr>)"

context fc_safe
begin

lemma vb_create_apply_effect:
  assumes wf: "db_wf d" and run: "vb_create_apply L op d = Some (i, d')"
  shows "db_wf d'" "gap b d' = gap b d"
    "tbl_get j (vesting_balances d') = (if j = i then Some \<lparr>vbo_owner = vbc_owner op, vbo_balance = vbc_amount op,
       vbo_policy = init_policy_visitor (amount (vbc_amount op)) (head_block_time d) (vbc_policy op), vbo_balance_type = VB_unspecified\<rparr>
       else tbl_get j (vesting_balances d))"
    "head_block_time d' = head_block_time d"
proof -
  let ?v = "\<lparr>vbo_owner = vbc_owner op, vbo_balance = vbc_amount op,
       vbo_policy = init_policy_visitor (amount (vbc_amount op)) (head_block_time d) (vbc_policy op), vbo_balance_type = VB_unspecified\<rparr>"
  obtain d1 where d1: "adjust_balance L (vbc_creator op) (mk_asset (- amount (vbc_amount op)) (asset_id (vbc_amount op))) d = Some d1"
    and i: "i = fst (tbl_create ?v (vesting_balances d1))" and d': "d' = d1\<lparr>vesting_balances := snd (tbl_create ?v (vesting_balances d1))\<rparr>"
    using run by (auto simp: vb_create_apply_def opt_bind asset_neg_def safe_Some Let_def case_prod_unfold)
  note e = adjust_balance_effect [OF wf d1] and k = adjust_balance_keeps [OF d1]
  show "db_wf d'" using e(1) by (simp add: d' db_wf_upd db_wf_tables tbl_wf_ops)
  show "gap b d' = gap b d" using e(2) [of b] by (simp add: d' gap_upd of_asset_def)
  show "tbl_get j (vesting_balances d') = (if j = i then Some ?v else tbl_get j (vesting_balances d))"
    using k tbl.get_create [OF db_wf_tables(9) [OF e(1)]] by (simp add: d' i)
  show "head_block_time d' = head_block_time d" using k by (simp add: d')
qed

lemma vb_withdraw_apply_effect:
  assumes wf: "db_wf d" and run: "vb_withdraw_apply L op d = Some d'"
  obtains v v' where "tbl_get (vbw_vesting_balance op) (vesting_balances d) = Some v"
    "vbo_withdraw L v (head_block_time d) (vbw_amount op) = Some v'" "db_wf d'" "\<And>b. gap b d' = gap b d"
    "\<And>j. tbl_get j (vesting_balances d') = (if j = vbw_vesting_balance op then Some v' else tbl_get j (vesting_balances d))"
    "head_block_time d' = head_block_time d"
    "\<And>o' a. amount (get_balance d' o' a) = amount (get_balance d o' a) + (if o' = vbw_owner op then of_asset a (vbw_amount op) else 0)"
proof -
  obtain v v' where v: "tbl_get (vbw_vesting_balance op) (vesting_balances d) = Some v"
      "vbo_withdraw L v (head_block_time d) (vbw_amount op) = Some v'"
    and d': "adjust_balance L (vbw_owner op) (vbw_amount op)
       (d\<lparr>vesting_balances := tbl_modify (vbw_vesting_balance op) (\<lambda>_. v') (vesting_balances d)\<rparr>) = Some d'"
    using run by (auto simp: vb_withdraw_apply_def opt_bind Let_def)
  let ?d1 = "d\<lparr>vesting_balances := tbl_modify (vbw_vesting_balance op) (\<lambda>_. v') (vesting_balances d)\<rparr>"
  have wf1: "db_wf ?d1" using wf by (simp add: db_wf_upd db_wf_tables tbl_wf_ops)
  have bal: "of_asset b (vbo_balance v') = of_asset b (vbo_balance v) - of_asset b (vbw_amount op)" for b
    using v(2) by (auto simp: vbo_withdraw_def opt_bind asset_sub_def safe_Some of_asset_def)
  note k = adjust_balance_keeps [OF d']
  have "gap b d' = gap b d" for b
    using adjust_balance_effect(2) [OF wf1 d', of b] wf v(1) bal [of b] by (simp add: gap_upd tbl_sum_modify db_wf_tables)
  moreover have "tbl_get j (vesting_balances d') = (if j = vbw_vesting_balance op then Some v' else tbl_get j (vesting_balances d))" for j
    using k v(1) by (simp add: tbl.get_modify)
  moreover have "amount (get_balance d' o' a) = amount (get_balance d o' a) + (if o' = vbw_owner op then of_asset a (vbw_amount op) else 0)" for o' a
  proof -
    have "get_balance ?d1 o' a = get_balance d o' a" by (rule get_balance_cong) simp
    then show ?thesis using adjust_balance_read [OF wf1 d', of o' a] by (simp add: of_asset_def)
  qed
  ultimately show ?thesis using that [OF v adjust_balance_effect(1) [OF wf1 d']] k by simp
qed

end

context fc_safe
begin

lemma vb_create_Some: "vb_create L op d = Some (i, d') \<Longrightarrow> vb_create_apply L op d = Some (i, d') \<and> 0 < amount (vbc_amount op)"
  by (auto simp: vb_create_def vb_create_validate_def opt_bind)

lemma vb_withdraw_Some:
  assumes "vb_withdraw L op d = Some d'"
  obtains v where "tbl_get (vbw_vesting_balance op) (vesting_balances d) = Some v" "vbw_owner op = vbo_owner v"
    "vbo_is_withdraw_allowed L v (head_block_time d) (vbw_amount op) = Some True" "0 < amount (vbw_amount op)"
    "vb_withdraw_apply L op d = Some d'"
  using assms that by (auto simp: vb_withdraw_def vb_withdraw_validate_def vb_withdraw_evaluate_def opt_bind Let_def)

lemma vesting_step_sound:
  assumes "vesting_step L d d'" "db_wf d" "vesting_ok d" "in_u32 (head_block_time d)"
  shows "db_wf d' \<and> vesting_ok d' \<and> in_u32 (head_block_time d') \<and> gap b d' = gap b d"
  using assms(1)
proof cases
  case (Vest op i)
  note e = vb_create_apply_effect [OF assms(2) vb_create_Some [OF Vest(1), THEN conjunct1]]
  have "share_range (vbc_amount op)" using Vest(3) vb_create_Some [OF Vest(1)] by (simp add: share_range_def)
  from init_policy_ok [OF Vest(2) this assms(4)]
  have "vesting_ok d'" using e(3) e(4) assms(3) by (auto simp: vesting_ok_def vbo_ok_def)
  then show ?thesis using e(1,4) e(2) [of b] assms(4) by simp
next
  case (Withdraw op)
  obtain v where v: "tbl_get (vbw_vesting_balance op) (vesting_balances d) = Some v"
      "vbo_is_withdraw_allowed L v (head_block_time d) (vbw_amount op) = Some True" "0 < amount (vbw_amount op)"
      and ap: "vb_withdraw_apply L op d = Some d'"
    using vb_withdraw_Some [OF Withdraw] by metis
  obtain w v' where w: "tbl_get (vbw_vesting_balance op) (vesting_balances d) = Some w"
      "vbo_withdraw L w (head_block_time d) (vbw_amount op) = Some v'" "db_wf d'" "\<And>b. gap b d' = gap b d"
      "\<And>j. tbl_get j (vesting_balances d') = (if j = vbw_vesting_balance op then Some v' else tbl_get j (vesting_balances d))"
      "head_block_time d' = head_block_time d"
    using vb_withdraw_apply_effect [OF assms(2) ap] by metis
  have "vbo_ok (head_block_time d) v" using assms(3) v(1) by (simp add: vesting_ok_def)
  from vbo_withdraw_safe [OF this _ v(2)] v w(1,2) have "vbo_ok (head_block_time d) v'" by auto
  then have "vesting_ok d'" using w(5,6) assms(3) by (auto simp: vesting_ok_def)
  then show ?thesis using w assms(4) by simp
next
  case (Time t)
  then have "vesting_ok d'" using assms(3) policy.ok_later by (fastforce simp: vesting_ok_def vbo_ok_def)
  then show ?thesis using Time assms by (simp add: head_block_time_effect in_u32_def)
qed

end

section \<open>Properties\<close>

text \<open>
  (C32) The vesting balances stay consistent with their policies: over any sequence of creations, withdrawals and blocks, every
  vesting balance remains one from which its policy allows between nothing and the whole balance, and no value is created or
  lost.
\<close>

theorem vesting_operations_sound:
  assumes "fc_safe L" "db_wf d" "vesting_ok d" "in_u32 (head_block_time d)" "(vesting_step L)\<^sup>*\<^sup>* d d'"
  shows "db_wf d' \<and> vesting_ok d' \<and> (\<forall>b. gap b d' = gap b d)"
proof -
  from assms(5) have "db_wf d' \<and> vesting_ok d' \<and> in_u32 (head_block_time d') \<and> (\<forall>b. gap b d' = gap b d)"
  proof (induction rule: rtranclp_induct)
    case (step y z)
    then show ?case using fc_safe.vesting_step_sound [OF assms(1) step(2)] by simp
  qed (use assms in simp)
  then show ?thesis by simp
qed

definition demo_vest :: vesting_balance_create_operation where
  "demo_vest = \<lparr>vbc_fee = mk_asset 0 0, vbc_creator = 7, vbc_owner = 7, vbc_amount = mk_asset 60 1,
     vbc_policy = Linear_initializer 900 50 200\<rparr>"

definition demo_unvest :: vesting_balance_withdraw_operation where
  "demo_unvest = \<lparr>vbw_fee = mk_asset 0 0, vbw_vesting_balance = 0, vbw_owner = 7, vbw_amount = mk_asset 30 1\<rparr>"

definition demo_vesting :: database where
  "demo_vesting = demo_accounts\<lparr>assets := \<lparr>rows = [(1, demo_fee_asset)], next_instance = 2\<rparr>,
     asset_dynamic_data := \<lparr>rows = [(0, \<lparr>current_supply = 100, confidential_supply = 0, accumulated_fees = 0, fee_pool = 0\<rparr>)],
       next_instance = 1\<rparr>, head_block_time := 1000\<rparr>"

lemma demo_vesting_ok: "db_wf demo_vesting" "vesting_ok demo_vesting" "in_u32 (head_block_time demo_vesting)"
  by (simp_all add: demo_vesting_def demo_accounts_def demo_balances_def empty_database_def db_wf_def tbl_wf_def tbl_empty_def
      assets_linked_def tbl_get_def demo_fee_asset_def vesting_ok_def in_u32_def)

theorem vesting_operations_sound_witness:
  "\<exists>d1 d2. vb_create checked_lib demo_vest demo_vesting = Some (0, d1) \<and>
     vb_withdraw checked_lib demo_unvest d1 = Some d2 \<and> vesting_ok d2 \<and> gap 1 d2 = gap 1 demo_vesting"
proof -
  have "(case vb_create checked_lib demo_vest demo_vesting of None \<Rightarrow> False
      | Some (i, d1) \<Rightarrow> i = 0 \<and> vb_withdraw checked_lib demo_unvest d1 \<noteq> None)" by code_simp
  then obtain d1 d2 where d: "vb_create checked_lib demo_vest demo_vesting = Some (0, d1)" "vb_withdraw checked_lib demo_unvest d1 = Some d2"
    by (auto split: option.splits)
  have "vesting_step checked_lib demo_vesting d1"
    by (rule vesting_step.Vest [OF d(1)]) (simp_all add: demo_vest_def in_u32_def chain_consts)
  moreover have "vesting_step checked_lib d1 d2" by (rule vesting_step.Withdraw [OF d(2)])
  ultimately have "(vesting_step checked_lib)\<^sup>*\<^sup>* demo_vesting d2" by (meson converse_rtranclp_into_rtranclp rtranclp.rtrancl_refl)
  from vesting_operations_sound [OF checked_lib_safe demo_vesting_ok this] d show ?thesis by blast
qed

end
