(* ===== verification/Limit_Orders.thy ===== *)
theory Limit_Orders
  imports Fees
begin

text \<open>
  Limit orders (\<^verbatim>\<open>libraries/chain/db_market.cpp\<close>): cancelling an order with its deferred fees, culling an order that has
  become too small to trade, filling an order, and matching a new order against one on the book. An order is passed
  by its identifier, as the code passes a reference into the index; the calls that only notify observers
  (\<^verbatim>\<open>push_applied_operation\<close>) have no counterpart.
\<close>

section \<open>Hard forks\<close>

definition HARDFORK_445_TIME :: int where [chain_consts]: "HARDFORK_445_TIME = 1450288800"
definition HARDFORK_555_TIME :: int where [chain_consts]: "HARDFORK_555_TIME = 1456250400"
definition HARDFORK_CORE_184_TIME :: int where [chain_consts]: "HARDFORK_CORE_184_TIME = 1532008920"
definition HARDFORK_CORE_342_TIME :: int where [chain_consts]: "HARDFORK_CORE_342_TIME = 1532008920"
definition HARDFORK_CORE_604_TIME :: int where [chain_consts]: "HARDFORK_CORE_604_TIME = 1532008920"

section \<open>The order\<close>

definition sell_asset_id :: "limit_order_object \<Rightarrow> asset_id_type" where
  "sell_asset_id x = asset_id (base (sell_price x))"

definition receive_asset_id :: "limit_order_object \<Rightarrow> asset_id_type" where
  "receive_asset_id x = asset_id (quote (sell_price x))"

definition amount_for_sale :: "limit_order_object \<Rightarrow> asset" where
  "amount_for_sale x = mk_asset (for_sale x) (asset_id (base (sell_price x)))"

definition amount_to_receive :: "limit_order_object \<Rightarrow> asset option" where
  "amount_to_receive x = asset_mul (amount_for_sale x) (sell_price x)"

section \<open>Cancelling\<close>

text \<open>The part of the fee originally paid that goes with a cancellation fee, rounded up, to the issuer of its asset; the result
  is what is left of the fee paid.\<close>

definition deduct_paid_fee :: "fc_lib \<Rightarrow> limit_order_object \<Rightarrow> share_type \<Rightarrow> database \<Rightarrow> (asset \<times> database) option" where
  "deduct_paid_fee L x core_cancel_fee d =
     (if amount (deferred_paid_fee x) = 0 then Some (deferred_paid_fee x, d)
      else do {
        let fee128 = u128 (u128 (amount (deferred_paid_fee x)) * core_cancel_fee);
        let fee128 = u128 (fee128 + deferred_fee x);
        let fee128 = u128 (fee128 - 1);
        let cancel_fee_amount = s64 (fee128 div deferred_fee x);
        (i, dd) \<leftarrow> get_dynamic_data d (asset_id (deferred_paid_fee x));
        f \<leftarrow> safe_add L (accumulated_fees dd) cancel_fee_amount;
        p \<leftarrow> safe_sub L (amount (deferred_paid_fee x)) cancel_fee_amount;
        Some (mk_asset p (asset_id (deferred_paid_fee x)),
          d\<lparr>asset_dynamic_data := tbl_modify i (\<lambda>a. a\<lparr>accumulated_fees := f\<rparr>) (asset_dynamic_data d)\<rparr>)
      })"

text \<open>The fee of a cancellation by the chain, taken from the deferred fee of the order; the result is what is left of the
  deferred fee and of the fee originally paid.\<close>

definition charge_cancel_fee :: "fc_lib \<Rightarrow> limit_order_object \<Rightarrow> database \<Rightarrow> (share_type \<times> asset \<times> database) option" where
  "charge_cancel_fee L x d = do {
     let core_cancel_fee = (if limit_order_cancel_fee d > deferred_fee x then deferred_fee x else limit_order_cancel_fee d);
     if core_cancel_fee > 0 then do {
       acct \<leftarrow> tbl_get (seller x) (accounts d);
       s \<leftarrow> tbl_get (statistics acct) (account_statistics d);
       s' \<leftarrow> stat_pay_fee L core_cancel_fee (cashback_vesting_threshold d) s;
       left \<leftarrow> safe_sub L (deferred_fee x) core_cancel_fee;
       (paid, d2) \<leftarrow> deduct_paid_fee L x core_cancel_fee
         (d\<lparr>account_statistics := tbl_modify (statistics acct) (\<lambda>_. s') (account_statistics d)\<rparr>);
       Some (left, paid, d2)
     } else Some (deferred_fee x, deferred_paid_fee x, d)
   }"

definition release_core_in_orders :: "fc_lib \<Rightarrow> account_id_type \<Rightarrow> asset \<Rightarrow> database \<Rightarrow> database option" where
  "release_core_in_orders L who refunded d =
     (if asset_id refunded = 0 then do {
        acct \<leftarrow> tbl_get who (accounts d);
        s \<leftarrow> tbl_get (statistics acct) (account_statistics d);
        t \<leftarrow> safe_sub L (total_core_in_orders s) (amount refunded);
        Some (d\<lparr>account_statistics := tbl_modify (statistics acct) (\<lambda>s. s\<lparr>total_core_in_orders := t\<rparr>) (account_statistics d)\<rparr>)
      } else Some d)"

definition refund_deferred_fee :: "fc_lib \<Rightarrow> limit_order_object \<Rightarrow> share_type \<Rightarrow> asset \<Rightarrow> database \<Rightarrow> database option" where
  "refund_deferred_fee L x left paid d =
     (if amount (deferred_paid_fee x) = 0 then adjust_balance L (seller x) (mk_asset left 0) d
      else do {
        d1 \<leftarrow> adjust_balance L (seller x) paid d;
        (i, dd) \<leftarrow> get_dynamic_data d1 (asset_id paid);
        p \<leftarrow> safe_add L (fee_pool dd) left;
        Some (d1\<lparr>asset_dynamic_data := tbl_modify i (\<lambda>a. a\<lparr>fee_pool := p\<rparr>) (asset_dynamic_data d1)\<rparr>)
      })"

definition cancel_limit_order :: "fc_lib \<Rightarrow> nat \<Rightarrow> bool \<Rightarrow> bool \<Rightarrow> database \<Rightarrow> database option" where
  "cancel_limit_order L i create_virtual_op skip_cancel_fee d = do {
     x \<leftarrow> tbl_get i (limit_orders d);
     (left, paid, d1) \<leftarrow> (if create_virtual_op \<and> \<not> skip_cancel_fee \<and> deferred_fee x > 0 then charge_cancel_fee L x d
       else Some (deferred_fee x, deferred_paid_fee x, d));
     let refunded = amount_for_sale x;
     d2 \<leftarrow> release_core_in_orders L (seller x) refunded d1;
     d3 \<leftarrow> adjust_balance L (seller x) refunded d2;
     d4 \<leftarrow> refund_deferred_fee L x left paid d3;
     Some (d4\<lparr>limit_orders := tbl_remove i (limit_orders d4)\<rparr>)
   }"

definition maybe_cull_small_order :: "fc_lib \<Rightarrow> nat \<Rightarrow> database \<Rightarrow> (bool \<times> database) option" where
  "maybe_cull_small_order L i d = do {
     x \<leftarrow> tbl_get i (limit_orders d);
     r \<leftarrow> amount_to_receive x;
     if amount r = 0 then do {
       d' \<leftarrow> cancel_limit_order L i True (deferred_fee x > 0 \<and> head_block_time d \<le> HARDFORK_CORE_604_TIME) d;
       Some (True, d')
     } else Some (False, d)
   }"

section \<open>Filling\<close>

text \<open>The deferred fees become due with the first fill.\<close>

definition pay_deferred_fees :: "fc_lib \<Rightarrow> limit_order_object \<Rightarrow> account_object \<Rightarrow> database \<Rightarrow> database option" where
  "pay_deferred_fees L x acct d = do {
     d1 \<leftarrow> (if deferred_fee x > 0 then do {
         s \<leftarrow> tbl_get (statistics acct) (account_statistics d);
         s' \<leftarrow> stat_pay_fee L (deferred_fee x) (cashback_vesting_threshold d) s;
         Some (d\<lparr>account_statistics := tbl_modify (statistics acct) (\<lambda>_. s') (account_statistics d)\<rparr>)
       } else Some d);
     if amount (deferred_paid_fee x) > 0 then do {
       (i, dd) \<leftarrow> get_dynamic_data d1 (asset_id (deferred_paid_fee x));
       f \<leftarrow> safe_add L (accumulated_fees dd) (amount (deferred_paid_fee x));
       Some (d1\<lparr>asset_dynamic_data := tbl_modify i (\<lambda>a. a\<lparr>accumulated_fees := f\<rparr>) (asset_dynamic_data d1)\<rparr>)
     } else Some d1
   }"

definition fill_limit_order :: "fc_lib \<Rightarrow> nat \<Rightarrow> asset \<Rightarrow> asset \<Rightarrow> bool \<Rightarrow> bool \<Rightarrow> database \<Rightarrow> (bool \<times> database) option" where
  "fill_limit_order L i pays receives cull_if_small is_maker d = do {
     let cull_if_small = (cull_if_small \<or> head_block_time d < HARDFORK_555_TIME);
     x \<leftarrow> tbl_get i (limit_orders d);
     fc_assert (asset_id (amount_for_sale x) = asset_id pays);
     fc_assert (asset_id pays \<noteq> asset_id receives);
     acct \<leftarrow> tbl_get (seller x) (accounts d);
     recv_asset \<leftarrow> tbl_get (asset_id receives) (assets d);
     (issuer_fees, d1) \<leftarrow> pay_market_fees L (Some acct) (asset_id receives) recv_asset receives is_maker None d;
     net \<leftarrow> asset_sub L receives issuer_fees;
     d2 \<leftarrow> pay_order L (seller x) acct net pays d1;
     d3 \<leftarrow> pay_deferred_fees L x acct d2;
     if pays = amount_for_sale x then Some (True, d3\<lparr>limit_orders := tbl_remove i (limit_orders d3)\<rparr>)
     else do {
       rest \<leftarrow> safe_sub L (for_sale x) (amount pays);
       let d4 = d3\<lparr>limit_orders := tbl_modify i (\<lambda>b. b\<lparr>for_sale := rest, deferred_fee := 0,
         deferred_paid_fee := mk_asset 0 (asset_id (deferred_paid_fee b))\<rparr>) (limit_orders d3)\<rparr>;
       if cull_if_small then maybe_cull_small_order L i d4 else Some (False, d4)
     }
   }"

section \<open>Matching two limit orders\<close>

text \<open>What the taker and the maker receive, and whether the rest of the taker is culled; the inner \<open>None\<close> is the early
  return for a taker that would pay something for nothing.\<close>

definition match_amounts ::
  "time_point_sec \<Rightarrow> asset \<Rightarrow> asset \<Rightarrow> price \<Rightarrow> (asset \<times> asset \<times> bool) option option" where
  "match_amounts maint_time usd_for_sale core_for_sale match_price = do {
     let before_core_hardfork_342 = (maint_time \<le> HARDFORK_CORE_342_TIME);
     c \<leftarrow> asset_mul core_for_sale match_price;
     le \<leftarrow> asset_le usd_for_sale c;
     if le then do {
       usd_receives \<leftarrow> asset_mul usd_for_sale match_price;
       if amount usd_receives = 0 \<and> maint_time > HARDFORK_CORE_184_TIME then Some None
       else if before_core_hardfork_342 then Some (Some (usd_receives, usd_for_sale, False))
       else do {
         core_receives \<leftarrow> multiply_and_round_up usd_receives match_price;
         Some (Some (usd_receives, core_receives, True))
       }
     } else do {
       core_receives \<leftarrow> asset_mul core_for_sale match_price;
       if before_core_hardfork_342 then Some (Some (core_for_sale, core_receives, False))
       else do {
         usd_receives \<leftarrow> multiply_and_round_up core_receives match_price;
         Some (Some (usd_receives, core_receives, False))
       }
     }
   }"

text \<open>The result has bit 0 set when the taker is gone and bit 1 when the maker is gone.\<close>

definition match_limit :: "fc_lib \<Rightarrow> nat \<Rightarrow> nat \<Rightarrow> price \<Rightarrow> database \<Rightarrow> (nat \<times> database) option" where
  "match_limit L taker maker match_price d = do {
     usd \<leftarrow> tbl_get taker (limit_orders d);
     core \<leftarrow> tbl_get maker (limit_orders d);
     fc_assert (asset_id (quote (sell_price usd)) = asset_id (base (sell_price core)));
     fc_assert (asset_id (base (sell_price usd)) = asset_id (quote (sell_price core)));
     fc_assert (for_sale usd > 0 \<and> for_sale core > 0);
     a \<leftarrow> match_amounts (next_maintenance_time d) (amount_for_sale usd) (amount_for_sale core) match_price;
     case a of
       None \<Rightarrow> Some (1, d)
     | Some (usd_receives, core_receives, cull_taker) \<Rightarrow> do {
         (if next_maintenance_time d \<le> HARDFORK_CORE_342_TIME
          then fc_assert (core_receives = amount_for_sale usd \<or> usd_receives = amount_for_sale core) else Some ());
         (b1, d1) \<leftarrow> fill_limit_order L taker core_receives usd_receives cull_taker False d;
         (b2, d2) \<leftarrow> fill_limit_order L maker usd_receives core_receives True True d1;
         let result = (if b1 then 1 else 0) + (if b2 then 2 else 0);
         fc_assert (result \<noteq> (0 :: nat));
         Some (result, d2)
       }
   }"

section \<open>The ledger of the orders\<close>

text \<open>The tables that trading limit orders may change.\<close>

definition trade_frame :: "database \<Rightarrow> database \<Rightarrow> bool" where
  "trade_frame d d' \<longleftrightarrow>
     (\<exists>s b v a x. d' = d\<lparr>account_statistics := s, account_balances := b, vesting_balances := v, asset_dynamic_data := a, limit_orders := x\<rparr>)
     \<and> same_supplies d d'"

lemma trade_frame_trans [trans]:
  assumes "trade_frame d d1" "trade_frame d1 d2"
  shows "trade_frame d d2"
proof -
  obtain s b v a x s' b' v' a' x' where
    "d1 = d\<lparr>account_statistics := s, account_balances := b, vesting_balances := v, asset_dynamic_data := a, limit_orders := x\<rparr>"
    "d2 = d1\<lparr>account_statistics := s', account_balances := b', vesting_balances := v', asset_dynamic_data := a', limit_orders := x'\<rparr>"
    using assms unfolding trade_frame_def by blast
  then have "d2 = d\<lparr>account_statistics := s', account_balances := b', vesting_balances := v', asset_dynamic_data := a', limit_orders := x'\<rparr>"
    by simp
  then show ?thesis using assms same_supplies_trans unfolding trade_frame_def by blast
qed

lemma trade_frame_keeps:
  assumes "trade_frame d d'"
  shows "accounts d' = accounts d" "assets d' = assets d" "head_block_time d' = head_block_time d"
    "next_maintenance_time d' = next_maintenance_time d" "call_orders d' = call_orders d" "bitassets d' = bitassets d"
    "htlcs d' = htlcs d" "liquidity_pools d' = liquidity_pools d" "properties d' = properties d"
    "asset_limitations d' = asset_limitations d" "asset_prices d' = asset_prices d" "supply_of b d' = supply_of b d"
  using assms by (auto simp: trade_frame_def same_supplies_def)

lemma trade_frameI:
  "d' = d\<lparr>account_statistics := s, account_balances := b, vesting_balances := v, asset_dynamic_data := a, limit_orders := x\<rparr> \<Longrightarrow>
   same_supplies d d' \<Longrightarrow> trade_frame d d'"
  unfolding trade_frame_def by blast

lemma set_orders_trade [simp]: "trade_frame d (d\<lparr>limit_orders := t\<rparr>)"
  by (rule trade_frameI [where s = "account_statistics d" and b = "account_balances d" and v = "vesting_balances d" and
    a = "asset_dynamic_data d" and x = t]) simp_all

lemma trade_frame_refl [simp]: "trade_frame d d"
  using set_orders_trade [of d "limit_orders d"] by simp

lemma fee_frame_trade:
  assumes "fee_frame d d'"
  shows "trade_frame d d'"
proof -
  obtain s a where "d' = d\<lparr>account_statistics := s, asset_dynamic_data := a\<rparr>" using assms unfolding fee_frame_def by blast
  then show ?thesis using assms
    by (intro trade_frameI [where s = s and b = "account_balances d" and v = "vesting_balances d" and a = a and x = "limit_orders d"]) (simp_all add: fee_frame_def)
qed

lemma adjust_balance_trade:
  assumes "adjust_balance L o' x d = Some d'"
  shows "trade_frame d d'"
proof -
  obtain b where "d' = d\<lparr>account_balances := b\<rparr>" using adjust_balance_frame [OF assms] by blast
  then show ?thesis
    by (intro trade_frameI [where s = "account_statistics d" and b = b and v = "vesting_balances d" and a = "asset_dynamic_data d" and x = "limit_orders d"]) simp_all
qed

lemma pay_trade:
  assumes "d' = d\<lparr>vesting_balances := v, asset_dynamic_data := a\<rparr>" "same_supplies d d'"
  shows "trade_frame d d'"
  using assms by (intro trade_frameI [where s = "account_statistics d" and b = "account_balances d" and v = v and a = a and x = "limit_orders d"]) simp_all

lemma pay_order_trade:
  assumes "d' = d\<lparr>account_statistics := s, account_balances := b\<rparr>" "same_supplies d d'"
  shows "trade_frame d d'"
  using assms by (intro trade_frameI [where s = s and b = b and v = "vesting_balances d" and a = "asset_dynamic_data d" and x = "limit_orders d"]) simp_all

context fc_safe
begin

lemma deduct_paid_fee_effect:
  assumes wf: "db_wf d" and run: "deduct_paid_fee L x f d = Some (paid, d')"
  shows "db_wf d'" "fee_frame d d'" "gap b d' = gap b d + of_asset b (deferred_paid_fee x) - of_asset b paid"
    "amount (deferred_paid_fee x) = 0 \<Longrightarrow> paid = deferred_paid_fee x" "asset_id paid = asset_id (deferred_paid_fee x)"
proof -
  have "db_wf d' \<and> fee_frame d d' \<and> gap b d' = gap b d + of_asset b (deferred_paid_fee x) - of_asset b paid \<and>
    (amount (deferred_paid_fee x) = 0 \<longrightarrow> paid = deferred_paid_fee x) \<and> asset_id paid = asset_id (deferred_paid_fee x)"
  proof (cases "amount (deferred_paid_fee x) = 0")
    case False
    then obtain i dd c where dd: "get_dynamic_data d (asset_id (deferred_paid_fee x)) = Some (i, dd)"
      and paid: "paid = mk_asset (amount (deferred_paid_fee x) - c) (asset_id (deferred_paid_fee x))"
      and d': "d' = d\<lparr>asset_dynamic_data := tbl_modify i (\<lambda>a. a\<lparr>accumulated_fees := accumulated_fees dd + c\<rparr>) (asset_dynamic_data d)\<rparr>"
      using run unfolding deduct_paid_fee_def Let_def by (clarsimp simp: opt_bind safe_Some)
    note u = fee_data_update [OF wf dd _ d']
    show ?thesis using u(1,2) u(4) [of b] False by (simp add: paid of_asset_def)
  qed (use run wf in \<open>simp add: deduct_paid_fee_def\<close>)
  then show "db_wf d'" "fee_frame d d'" "gap b d' = gap b d + of_asset b (deferred_paid_fee x) - of_asset b paid"
    "amount (deferred_paid_fee x) = 0 \<Longrightarrow> paid = deferred_paid_fee x" "asset_id paid = asset_id (deferred_paid_fee x)" by auto
qed

lemma charge_cancel_fee_effect:
  assumes wf: "db_wf d" and run: "charge_cancel_fee L x d = Some (left, paid, d')"
  shows "db_wf d'" "fee_frame d d'"
    "gap b d' = gap b d + (if b = 0 then deferred_fee x - left else 0) + of_asset b (deferred_paid_fee x) - of_asset b paid"
    "amount (deferred_paid_fee x) = 0 \<Longrightarrow> paid = deferred_paid_fee x"
proof -
  define f where "f = (if limit_order_cancel_fee d > deferred_fee x then deferred_fee x else limit_order_cancel_fee d)"
  have "db_wf d' \<and> fee_frame d d' \<and> gap b d' = gap b d + (if b = 0 then deferred_fee x - left else 0) + of_asset b (deferred_paid_fee x) - of_asset b paid \<and>
    (amount (deferred_paid_fee x) = 0 \<longrightarrow> paid = deferred_paid_fee x)"
  proof (cases "f > 0")
    case True
    then obtain acct :: account_object and s s' where s: "tbl_get (statistics acct) (account_statistics d) = Some s"
        "stat_pay_fee L f (cashback_vesting_threshold d) s = Some s'" and left: "left = deferred_fee x - f"
        and dp: "deduct_paid_fee L x f (d\<lparr>account_statistics := tbl_modify (statistics acct) (\<lambda>_. s') (account_statistics d)\<rparr>) = Some (paid, d')"
      using run by (clarsimp simp: charge_cancel_fee_def f_def [symmetric] opt_bind safe_Some Let_def)
    note e = pay_stat_effect [OF wf s refl]
    note e' = deduct_paid_fee_effect [OF e(1) dp]
    show ?thesis using e(3) [of b] e'(1,4) e'(3) [of b] fee_frame_trans [OF e(2) e'(2)] left by simp
  next
    case False
    with run wf show ?thesis by (simp add: charge_cancel_fee_def f_def [symmetric])
  qed
  then show "db_wf d'" "fee_frame d d'"
    "gap b d' = gap b d + (if b = 0 then deferred_fee x - left else 0) + of_asset b (deferred_paid_fee x) - of_asset b paid"
    "amount (deferred_paid_fee x) = 0 \<Longrightarrow> paid = deferred_paid_fee x" by auto
qed

lemma release_core_effect:
  assumes wf: "db_wf d" and run: "release_core_in_orders L who r d = Some d'"
  shows "db_wf d'" "fee_frame d d'" "gap b d' = gap b d"
proof -
  have "db_wf d' \<and> fee_frame d d' \<and> gap b d' = gap b d"
  proof (cases "asset_id r = 0")
    case True
    then obtain k s t where s: "tbl_get k (account_statistics d) = Some s"
      and d': "d' = d\<lparr>account_statistics := tbl_modify k (\<lambda>s. s\<lparr>total_core_in_orders := t\<rparr>) (account_statistics d)\<rparr>"
      using run by (auto simp: release_core_in_orders_def opt_bind)
    have "fee_frame d d'" using s by (auto simp: d' fee_frame_def tbl.get_modify)
    then show ?thesis using wf s by (simp add: d' db_wf_upd db_wf_tables tbl_wf_ops gap_upd tbl_sum_modify pending_of_def)
  qed (use run wf in \<open>simp add: release_core_in_orders_def\<close>)
  then show "db_wf d'" "fee_frame d d'" "gap b d' = gap b d" by auto
qed

lemma refund_deferred_fee_effect:
  assumes wf: "db_wf d" and run: "refund_deferred_fee L x left paid d = Some d'"
    and paid: "amount (deferred_paid_fee x) = 0 \<Longrightarrow> amount paid = 0"
  shows "db_wf d'" "trade_frame d d'" "limit_orders d' = limit_orders d" "gap b d' = gap b d + of_asset b paid + (if b = 0 then left else 0)"
proof -
  have "db_wf d' \<and> trade_frame d d' \<and> limit_orders d' = limit_orders d \<and> gap b d' = gap b d + of_asset b paid + (if b = 0 then left else 0)"
  proof (cases "amount (deferred_paid_fee x) = 0")
    case True
    then have a: "adjust_balance L (seller x) (mk_asset left 0) d = Some d'" using run by (simp add: refund_deferred_fee_def)
    show ?thesis using adjust_balance_effect(1) [OF wf a] adjust_balance_effect(2) [OF wf a, of b] adjust_balance_trade [OF a]
        adjust_balance_keeps(7) [OF a] paid [OF True] by (simp add: of_asset_def)
  next
    case False
    then obtain d1 i dd where a: "adjust_balance L (seller x) paid d = Some d1" and dd: "get_dynamic_data d1 (asset_id paid) = Some (i, dd)"
      and d': "d' = d1\<lparr>asset_dynamic_data := tbl_modify i (\<lambda>a. a\<lparr>fee_pool := fee_pool dd + left\<rparr>) (asset_dynamic_data d1)\<rparr>"
      using run by (clarsimp simp: refund_deferred_fee_def opt_bind safe_Some)
    note e = adjust_balance_effect [OF wf a] and u = fee_data_update [OF adjust_balance_effect(1) [OF wf a] dd _ d']
    show ?thesis
      using e(2) [of b] u(1) u(4) [of b] trade_frame_trans [OF adjust_balance_trade [OF a] fee_frame_trade [OF u(2)]]
        adjust_balance_keeps(7) [OF a] by (simp add: d')
  qed
  then show "db_wf d'" "trade_frame d d'" "limit_orders d' = limit_orders d"
    "gap b d' = gap b d + of_asset b paid + (if b = 0 then left else 0)" by auto
qed

lemma cancel_limit_order_effect:
  assumes wf: "db_wf d" and run: "cancel_limit_order L i cv sk d = Some d'"
  obtains x where "tbl_get i (limit_orders d) = Some x" "db_wf d'" "trade_frame d d'" "\<And>b. gap b d' = gap b d"
    "\<And>j. tbl_get j (limit_orders d') = (if j = i then None else tbl_get j (limit_orders d))"
proof -
  obtain x left paid d1 d2 d3 d4 where x: "tbl_get i (limit_orders d) = Some x"
    and d1: "(if cv \<and> \<not> sk \<and> deferred_fee x > 0 then charge_cancel_fee L x d else Some (deferred_fee x, deferred_paid_fee x, d)) = Some (left, paid, d1)"
    and d2: "release_core_in_orders L (seller x) (amount_for_sale x) d1 = Some d2"
    and d3: "adjust_balance L (seller x) (amount_for_sale x) d2 = Some d3"
    and d4: "refund_deferred_fee L x left paid d3 = Some d4"
    and d': "d' = d4\<lparr>limit_orders := tbl_remove i (limit_orders d4)\<rparr>"
    using run by (clarsimp simp: cancel_limit_order_def opt_bind Let_def split del: if_split)
  have e1: "db_wf d1" "fee_frame d d1" "amount (deferred_paid_fee x) = 0 \<Longrightarrow> amount paid = 0"
    "\<And>b. gap b d1 = gap b d + (if b = 0 then deferred_fee x - left else 0) + of_asset b (deferred_paid_fee x) - of_asset b paid"
    using d1 wf charge_cancel_fee_effect [OF wf, of x left paid d1] by (auto split: if_splits)
  note e2 = release_core_effect [OF e1(1) d2]
  note e3 = adjust_balance_effect [OF e2(1) d3]
  note e4 = refund_deferred_fee_effect [OF e3(1) d4 e1(3)]
  have lo: "limit_orders d4 = limit_orders d"
    using e4(3) adjust_balance_keeps(7) [OF d3] fee_frame_keeps(10) [OF e2(2)] fee_frame_keeps(10) [OF e1(2)] by simp
  have "trade_frame d d4"
    using fee_frame_trade [OF e1(2)] fee_frame_trade [OF e2(2)] adjust_balance_trade [OF d3] e4(2) trade_frame_trans by blast
  then have "trade_frame d d'" unfolding d' by (rule trade_frame_trans) simp
  moreover have "gap b d' = gap b d" for b
    using e1(4) [of b] e2(3) [of b] e3(2) [of b] e4(4) [of b] lo tbl_sum_remove [OF db_wf_tables(12) [OF wf] x, of "order_of b"]
    by (simp add: d' gap_upd order_of_def amount_for_sale_def)
  moreover have "db_wf d'" using e4(1) by (simp add: d' db_wf_upd db_wf_tables tbl_wf_ops)
  moreover have "tbl_get j (limit_orders d') = (if j = i then None else tbl_get j (limit_orders d))" for j
    using db_wf_tables(12) [OF e4(1)] lo by (simp add: d' tbl.get_remove)
  ultimately show ?thesis using that [OF x] by blast
qed

lemma maybe_cull_effect:
  assumes wf: "db_wf d" and run: "maybe_cull_small_order L i d = Some (r, d')"
  obtains x y where "tbl_get i (limit_orders d) = Some x" "amount_to_receive x = Some y" "r \<longleftrightarrow> amount y = 0"
    "db_wf d'" "trade_frame d d'" "\<And>b. gap b d' = gap b d"
    "\<And>j. tbl_get j (limit_orders d') = (if j = i \<and> r then None else tbl_get j (limit_orders d))"
proof -
  obtain x y where x: "tbl_get i (limit_orders d) = Some x" "amount_to_receive x = Some y"
    using run by (auto simp: maybe_cull_small_order_def opt_bind)
  show ?thesis
  proof (cases "amount y = 0")
    case True
    then have r: r and c: "cancel_limit_order L i True (deferred_fee x > 0 \<and> head_block_time d \<le> HARDFORK_CORE_604_TIME) d = Some d'"
      using run x by (auto simp: maybe_cull_small_order_def opt_bind)
    from cancel_limit_order_effect [OF wf c] show ?thesis using that [OF x] True r by metis
  next
    case False
    then have "\<not> r" "d' = d" using run x by (auto simp: maybe_cull_small_order_def)
    then show ?thesis using that [OF x] False wf by simp
  qed
qed

lemma pay_deferred_fees_effect:
  assumes wf: "db_wf d" and run: "pay_deferred_fees L x acct d = Some d'" and nn: "0 \<le> deferred_fee x" "0 \<le> amount (deferred_paid_fee x)"
  shows "db_wf d'" "fee_frame d d'" "gap b d' = gap b d + (if b = 0 then deferred_fee x else 0) + of_asset b (deferred_paid_fee x)"
proof -
  obtain d1 where d1: "(if deferred_fee x > 0 then do {
         s \<leftarrow> tbl_get (statistics acct) (account_statistics d);
         s' \<leftarrow> stat_pay_fee L (deferred_fee x) (cashback_vesting_threshold d) s;
         Some (d\<lparr>account_statistics := tbl_modify (statistics acct) (\<lambda>_. s') (account_statistics d)\<rparr>)
       } else Some d) = Some d1"
    and d': "(if amount (deferred_paid_fee x) > 0 then do {
       (i, dd) \<leftarrow> get_dynamic_data d1 (asset_id (deferred_paid_fee x));
       f \<leftarrow> safe_add L (accumulated_fees dd) (amount (deferred_paid_fee x));
       Some (d1\<lparr>asset_dynamic_data := tbl_modify i (\<lambda>a. a\<lparr>accumulated_fees := f\<rparr>) (asset_dynamic_data d1)\<rparr>)
     } else Some d1) = Some d'"
    using run unfolding pay_deferred_fees_def by (auto simp: opt_bind split del: if_split)
  have e1: "db_wf d1 \<and> fee_frame d d1 \<and> gap b d1 = gap b d + (if b = 0 then deferred_fee x else 0)"
  proof (cases "deferred_fee x > 0")
    case True
    with d1 obtain s s' where s: "tbl_get (statistics acct) (account_statistics d) = Some s"
        "stat_pay_fee L (deferred_fee x) (cashback_vesting_threshold d) s = Some s'"
        "d1 = d\<lparr>account_statistics := tbl_modify (statistics acct) (\<lambda>_. s') (account_statistics d)\<rparr>" by (auto simp: opt_bind)
    show ?thesis using pay_stat_effect [OF wf s] by simp
  qed (use d1 wf nn in auto)
  have "db_wf d' \<and> fee_frame d1 d' \<and> gap b d' = gap b d1 + of_asset b (deferred_paid_fee x)"
  proof (cases "amount (deferred_paid_fee x) > 0")
    case True
    with d' obtain i dd where dd: "get_dynamic_data d1 (asset_id (deferred_paid_fee x)) = Some (i, dd)"
      and u: "d' = d1\<lparr>asset_dynamic_data := tbl_modify i (\<lambda>a. a\<lparr>accumulated_fees := accumulated_fees dd + amount (deferred_paid_fee x)\<rparr>) (asset_dynamic_data d1)\<rparr>"
      by (clarsimp simp: opt_bind safe_Some)
    show ?thesis using fee_data_update [OF e1 [THEN conjunct1] dd _ u] by (simp add: of_asset_def)
  qed (use d' e1 nn in \<open>auto simp: of_asset_def\<close>)
  then show "db_wf d'" "fee_frame d d'" "gap b d' = gap b d + (if b = 0 then deferred_fee x else 0) + of_asset b (deferred_paid_fee x)"
    using e1 fee_frame_trans by auto
qed

end

text \<open>What the operations keep of the orders: valid prices, something for sale and fees that are not negative.\<close>

definition order_ok :: "limit_order_object \<Rightarrow> bool" where
  "order_ok x \<longleftrightarrow> price_ok (sell_price x) \<and> 0 < for_sale x \<and> for_sale x \<le> GRAPHENE_MAX_SHARE_SUPPLY \<and> 0 \<le> deferred_fee x \<and>
     0 \<le> amount (deferred_paid_fee x)"

text \<open>The part of it that the ledger needs.\<close>

definition order_fees_ok :: "limit_order_object \<Rightarrow> bool" where
  "order_fees_ok x \<longleftrightarrow> 0 \<le> deferred_fee x \<and> 0 \<le> amount (deferred_paid_fee x)"

lemma order_ok_fees: "order_ok x \<Longrightarrow> order_fees_ok x"
  by (simp add: order_ok_def order_fees_ok_def)

definition order_fees_nonneg :: "database \<Rightarrow> bool" where
  "order_fees_nonneg d \<longleftrightarrow> (\<forall>i x. tbl_get i (limit_orders d) = Some x \<longrightarrow> order_fees_ok x)"

definition orders_ok :: "database \<Rightarrow> bool" where
  "orders_ok d \<longleftrightarrow> (\<forall>i x. tbl_get i (limit_orders d) = Some x \<longrightarrow> order_ok x)"

definition market_fees_ok :: "database \<Rightarrow> bool" where
  "market_fees_ok d \<longleftrightarrow> (\<forall>i a. tbl_get i (assets d) = Some a \<longrightarrow> 0 \<le> max_market_fee (ao_options a))"

lemma market_fees_ok_trade: "trade_frame d d' \<Longrightarrow> market_fees_ok d' = market_fees_ok d"
  by (simp add: market_fees_ok_def trade_frame_keeps)

text \<open>The order after a partial fill.\<close>

abbreviation rest_of :: "limit_order_object \<Rightarrow> asset \<Rightarrow> limit_order_object" where
  "rest_of x pays \<equiv> x\<lparr>for_sale := for_sale x - amount pays, deferred_fee := 0,
     deferred_paid_fee := mk_asset 0 (asset_id (deferred_paid_fee x))\<rparr>"

context fc_safe
begin

text \<open>The payments of a fill, before the order itself is changed.\<close>

lemma fill_payments_effect:
  assumes wf: "db_wf d" and mf: "market_fees_ok d" and ok: "order_fees_ok x" and a: "tbl_get (asset_id receives) (assets d) = Some a"
    and d1: "pay_market_fees L (Some acct) (asset_id receives) a receives is_maker None d = Some (f, d1)"
    and net: "asset_sub L receives f = Some net" and d2: "pay_order L (seller x) acct net pays d1 = Some d2"
    and d3: "pay_deferred_fees L x acct d2 = Some d3"
  shows "db_wf d3" "trade_frame d d3" "limit_orders d3 = limit_orders d"
    "gap b d3 = gap b d + of_asset b receives + (if b = 0 then deferred_fee x else 0) + of_asset b (deferred_paid_fee x)"
proof -
  have "calculate_market_fee (asset_id receives) a receives is_maker = Some f"
    using d1 by (auto simp: pay_market_fees_def opt_bind)
  moreover have "0 \<le> max_market_fee (ao_options a)" using mf a by (simp add: market_fees_ok_def)
  ultimately have f: "asset_id f = asset_id receives" "0 \<le> amount f" using market_fee_id market_fee_nonneg by blast+
  note e1 = pay_market_fees_effect [OF wf a d1 f]
  note e2 = pay_order_effect [OF e1(1) d2]
  have nn: "0 \<le> deferred_fee x" "0 \<le> amount (deferred_paid_fee x)" using ok by (auto simp: order_fees_ok_def)
  note e3 = pay_deferred_fees_effect [OF e2(1) d3 nn]
  show "db_wf d3" by (rule e3(1))
  have t1: "trade_frame d d1" by (rule pay_trade [OF e1(4,3)])
  have t2: "trade_frame d1 d2" by (rule pay_order_trade [OF e2(4,3)])
  show "trade_frame d d3" using t1 t2 fee_frame_trade [OF e3(2)] trade_frame_trans by blast
  show "limit_orders d3 = limit_orders d"
    using fee_frame_keeps(10) [OF e3(2)] arg_cong [OF e2(4), of limit_orders] arg_cong [OF e1(4), of limit_orders] by simp
  have "of_asset b net = of_asset b receives - of_asset b f"
    using net f(1) by (auto simp: asset_sub_Some of_asset_def)
  then show "gap b d3 = gap b d + of_asset b receives + (if b = 0 then deferred_fee x else 0) + of_asset b (deferred_paid_fee x)"
    using e1(2) [of b] e2(2) [of b] e3(3) [of b] by simp
qed

lemma fill_limit_order_effect:
  assumes wf: "db_wf d" and mf: "market_fees_ok d" and x: "tbl_get i (limit_orders d) = Some x" "order_fees_ok x"
    and run: "fill_limit_order L i pays receives cull mk d = Some (r, d')"
  shows "db_wf d'" "trade_frame d d'" "gap b d' = gap b d + of_asset b receives - of_asset b pays"
    "tbl_get j (limit_orders d') = (if j = i then (if r then None else Some (rest_of x pays)) else tbl_get j (limit_orders d))"
    "asset_id pays = sell_asset_id x" "asset_id pays \<noteq> asset_id receives"
    "pays = amount_for_sale x \<Longrightarrow> r"
    "pays \<noteq> amount_for_sale x \<Longrightarrow> cull \<Longrightarrow> \<exists>y. amount_to_receive (rest_of x pays) = Some y \<and> (r \<longleftrightarrow> amount y = 0)"
proof -
  obtain acct a f d1 net d2 d3 where ids: "asset_id pays = sell_asset_id x" "asset_id pays \<noteq> asset_id receives"
    and a: "tbl_get (asset_id receives) (assets d) = Some a"
    and d1: "pay_market_fees L (Some acct) (asset_id receives) a receives mk None d = Some (f, d1)"
    and net: "asset_sub L receives f = Some net" and d2: "pay_order L (seller x) acct net pays d1 = Some d2"
    and d3: "pay_deferred_fees L x acct d2 = Some d3"
    and rest: "(if pays = amount_for_sale x then Some (True, d3\<lparr>limit_orders := tbl_remove i (limit_orders d3)\<rparr>)
     else do {
       rest \<leftarrow> safe_sub L (for_sale x) (amount pays);
       let d4 = d3\<lparr>limit_orders := tbl_modify i (\<lambda>b. b\<lparr>for_sale := rest, deferred_fee := 0,
         deferred_paid_fee := mk_asset 0 (asset_id (deferred_paid_fee b))\<rparr>) (limit_orders d3)\<rparr>;
       if cull \<or> head_block_time d < HARDFORK_555_TIME then maybe_cull_small_order L i d4 else Some (False, d4)
     }) = Some (r, d')"
    using run x unfolding fill_limit_order_def sell_asset_id_def
    by (clarsimp simp: opt_bind Let_def amount_for_sale_def split del: if_split)
  note e = fill_payments_effect [OF wf mf x(2) a d1 net d2 d3]
  show "asset_id pays = sell_asset_id x" "asset_id pays \<noteq> asset_id receives" by (rule ids)+
  have w: "tbl_wf (limit_orders d)" "tbl_wf (limit_orders d3)" using wf e(1) by (simp_all add: db_wf_tables)
  have x3: "tbl_get i (limit_orders d3) = Some x" using x(1) e(3) by simp
  have "db_wf d' \<and> trade_frame d d' \<and> gap b d' = gap b d + of_asset b receives - of_asset b pays \<and>
    tbl_get j (limit_orders d') = (if j = i then (if r then None else Some (rest_of x pays)) else tbl_get j (limit_orders d)) \<and>
    (pays = amount_for_sale x \<longrightarrow> r) \<and>
    (pays \<noteq> amount_for_sale x \<longrightarrow> cull \<longrightarrow> (\<exists>y. amount_to_receive (rest_of x pays) = Some y \<and> (r \<longleftrightarrow> amount y = 0)))"
  proof (cases "pays = amount_for_sale x")
    case True
    then have r: r and d': "d' = d3\<lparr>limit_orders := tbl_remove i (limit_orders d3)\<rparr>" using rest by auto
    have "gap b d' = gap b d + of_asset b receives - of_asset b pays"
      using e(4) [of b] tbl_sum_remove [OF w(2) x3, of "order_of b"] True by (simp add: d' gap_upd order_of_def amount_for_sale_def)
    moreover have "trade_frame d d'" unfolding d' by (rule trade_frame_trans [OF e(2)]) simp
    ultimately show ?thesis
      using r True e(1,3) tbl.get_remove [OF w(2)] w(1) by (simp add: d' db_wf_upd tbl_wf_ops)
  next
    case False
    define d4 where "d4 = d3\<lparr>limit_orders := tbl_modify i (\<lambda>b. b\<lparr>for_sale := for_sale x - amount pays, deferred_fee := 0,
         deferred_paid_fee := mk_asset 0 (asset_id (deferred_paid_fee b))\<rparr>) (limit_orders d3)\<rparr>"
    have run4: "(if cull \<or> head_block_time d < HARDFORK_555_TIME then maybe_cull_small_order L i d4 else Some (False, d4)) = Some (r, d')"
      using rest False unfolding d4_def by (auto simp: opt_bind safe_Some Let_def split del: if_split)
    have g4: "gap b d4 = gap b d + of_asset b receives - of_asset b pays" for b
      using e(4) [of b] tbl_sum_modify [OF w(2) x3, of "order_of b"] ids(1)
      by (simp add: d4_def gap_upd order_of_def of_asset_def sell_asset_id_def)
    have wf4: "db_wf d4" using e(1) by (simp add: d4_def db_wf_upd db_wf_tables tbl_wf_ops)
    have t4: "trade_frame d d4" unfolding d4_def by (rule trade_frame_trans [OF e(2)]) simp
    have o4: "tbl_get j (limit_orders d4) = (if j = i then Some (rest_of x pays) else tbl_get j (limit_orders d))" for j
      using x3 e(3) by (auto simp: d4_def tbl.get_modify)
    show ?thesis
    proof (cases "cull \<or> head_block_time d < HARDFORK_555_TIME")
      case True
      then have c: "maybe_cull_small_order L i d4 = Some (r, d')" using run4 by simp
      obtain y where y: "amount_to_receive (rest_of x pays) = Some y" "r \<longleftrightarrow> amount y = 0" "db_wf d'" "trade_frame d4 d'"
          "gap b d' = gap b d4" "tbl_get j (limit_orders d') = (if j = i \<and> r then None else tbl_get j (limit_orders d4))"
        using maybe_cull_effect [OF wf4 c] o4 [of i] by (metis option.inject)
      show ?thesis using y(1-3) y(5) g4 [of b] y(6) o4 [of j] trade_frame_trans [OF t4 y(4)] False by auto
    next
      case nc: False
      then have "\<not> r" "d' = d4" using run4 by auto
      then show ?thesis using wf4 t4 g4 [of b] o4 [of j] False nc by auto
    qed
  qed
  then show "db_wf d'" "trade_frame d d'" "gap b d' = gap b d + of_asset b receives - of_asset b pays"
    "tbl_get j (limit_orders d') = (if j = i then (if r then None else Some (rest_of x pays)) else tbl_get j (limit_orders d))"
    "pays = amount_for_sale x \<Longrightarrow> r"
    "pays \<noteq> amount_for_sale x \<Longrightarrow> cull \<Longrightarrow> \<exists>y. amount_to_receive (rest_of x pays) = Some y \<and> (r \<longleftrightarrow> amount y = 0)" by auto
qed

end

section \<open>The amounts of a match\<close>

lemma mul_Some:
  assumes "price_ok p" "0 \<le> amount a" "amount a \<le> GRAPHENE_MAX_SHARE_SUPPLY"
  shows "asset_id a = asset_id (base p) \<Longrightarrow> asset_mul a p = Some y \<Longrightarrow>
      y = mk_asset (amount a * amount (quote p) div amount (base p)) (asset_id (quote p)) \<and> amount y \<le> GRAPHENE_MAX_SHARE_SUPPLY"
    and "asset_id a = asset_id (quote p) \<Longrightarrow> asset_mul a p = Some y \<Longrightarrow>
      y = mk_asset (amount a * amount (base p) div amount (quote p)) (asset_id (base p)) \<and> amount y \<le> GRAPHENE_MAX_SHARE_SUPPLY"
    and "asset_id a = asset_id (base p) \<Longrightarrow> multiply_and_round_up a p = Some y \<Longrightarrow>
      y = mk_asset (div_up (amount a * amount (quote p)) (amount (base p))) (asset_id (quote p)) \<and> amount y \<le> GRAPHENE_MAX_SHARE_SUPPLY"
    and "asset_id a = asset_id (quote p) \<Longrightarrow> multiply_and_round_up a p = Some y \<Longrightarrow>
      y = mk_asset (div_up (amount a * amount (base p)) (amount (quote p))) (asset_id (base p)) \<and> amount y \<le> GRAPHENE_MAX_SHARE_SUPPLY"
proof -
  have s: "share_ok a" using assms by (simp add: share_ok_def)
  have i: "price_ok (price_invert p)" using assms(1) by simp
  note m = asset_mul_base [OF assms(1) s] asset_mul_base [OF i s] round_up_base [OF assms(1) s] round_up_base [OF i s]
  note v = asset_mul_invert [OF assms(1), of a] round_up_invert [OF assms(1), of a]
  show "asset_id a = asset_id (base p) \<Longrightarrow> asset_mul a p = Some y \<Longrightarrow>
      y = mk_asset (amount a * amount (quote p) div amount (base p)) (asset_id (quote p)) \<and> amount y \<le> GRAPHENE_MAX_SHARE_SUPPLY"
    "asset_id a = asset_id (quote p) \<Longrightarrow> asset_mul a p = Some y \<Longrightarrow>
      y = mk_asset (amount a * amount (base p) div amount (quote p)) (asset_id (base p)) \<and> amount y \<le> GRAPHENE_MAX_SHARE_SUPPLY"
    "asset_id a = asset_id (base p) \<Longrightarrow> multiply_and_round_up a p = Some y \<Longrightarrow>
      y = mk_asset (div_up (amount a * amount (quote p)) (amount (base p))) (asset_id (quote p)) \<and> amount y \<le> GRAPHENE_MAX_SHARE_SUPPLY"
    "asset_id a = asset_id (quote p) \<Longrightarrow> multiply_and_round_up a p = Some y \<Longrightarrow>
      y = mk_asset (div_up (amount a * amount (base p)) (amount (quote p))) (asset_id (base p)) \<and> amount y \<le> GRAPHENE_MAX_SHARE_SUPPLY"
    using m v by (auto simp: Let_def split: if_splits)
qed

text \<open>The two cases of a match: the taker is the smaller order, or the maker is.\<close>

lemma match_amounts_cases:
  assumes p: "price_ok p" and ids: "asset_id usd = asset_id (quote p)" "asset_id core = asset_id (base p)"
    and am: "0 < amount usd" "amount usd \<le> GRAPHENE_MAX_SHARE_SUPPLY" "0 < amount core" "amount core \<le> GRAPHENE_MAX_SHARE_SUPPLY"
    and run: "match_amounts m usd core p = Some (Some (ur, cr, cull))"
  obtains (taker) "amount usd \<le> amount core * amount (quote p) div amount (base p)"
      "ur = mk_asset (amount usd * amount (base p) div amount (quote p)) (asset_id (base p))"
      "m > HARDFORK_CORE_342_TIME \<Longrightarrow> 0 < amount ur \<and> cull \<and> cr = mk_asset (div_up (amount ur * amount (quote p)) (amount (base p))) (asset_id (quote p))"
      "m \<le> HARDFORK_CORE_342_TIME \<Longrightarrow> cr = usd"
    | (maker) "amount core * amount (quote p) div amount (base p) < amount usd"
      "cr = mk_asset (amount core * amount (quote p) div amount (base p)) (asset_id (quote p))" "\<not> cull"
      "m > HARDFORK_CORE_342_TIME \<Longrightarrow> ur = mk_asset (div_up (amount cr * amount (base p)) (amount (quote p))) (asset_id (base p))"
      "m \<le> HARDFORK_CORE_342_TIME \<Longrightarrow> ur = core"
proof -
  let ?b = "amount (base p)" and ?q = "amount (quote p)"
  have bq: "0 < ?b" "0 < ?q" using p by (auto simp: price_ok_def)
  obtain c where c: "asset_mul core p = Some c" using run by (auto simp: match_amounts_def opt_bind Let_def)
  have c': "c = mk_asset (amount core * ?q div ?b) (asset_id (quote p))" "amount c \<le> GRAPHENE_MAX_SHARE_SUPPLY" "0 \<le> amount c"
    using mul_Some(1) [OF p _ _ ids(2) c] am bq by (auto simp: pos_imp_zdiv_nonneg_iff)
  show ?thesis
  proof (cases "amount usd \<le> amount c")
    case True
    then have le: "asset_le usd c = Some True" using ids c' by (simp add: asset_cmp_Some)
    obtain u where u: "asset_mul usd p = Some u" using run c le by (auto simp: match_amounts_def opt_bind Let_def)
    have u': "u = mk_asset (amount usd * ?b div ?q) (asset_id (base p))" "amount u \<le> GRAPHENE_MAX_SHARE_SUPPLY" "0 \<le> amount u"
      using mul_Some(2) [OF p _ _ ids(1) u] am bq by (auto simp: pos_imp_zdiv_nonneg_iff)
    show ?thesis
    proof (cases "m > HARDFORK_CORE_342_TIME")
      case hf: True
      have e: "(if amount u = 0 then Some None else do { k \<leftarrow> multiply_and_round_up u p; Some (Some (u, k, True)) }) = Some (Some (ur, cr, cull))"
        using run hf by (simp add: match_amounts_def c le u Let_def chain_consts split: if_splits)
      then obtain k where k1: "multiply_and_round_up u p = Some k"
        by (cases "multiply_and_round_up u p") (simp_all split: if_splits)
      have k: "multiply_and_round_up u p = Some k" "ur = u" "cr = k" cull "amount u \<noteq> 0"
        using e k1 by (simp_all split: if_splits)
      have kk: "k = mk_asset (div_up (amount u * ?q) ?b) (asset_id (quote p))"
        using mul_Some(3) [OF p u'(3,2) _ k(1)] u'(1) by simp
      show ?thesis
      proof (rule taker)
        show "amount usd \<le> amount core * ?q div ?b" using True c'(1) by simp
        show "ur = mk_asset (amount usd * ?b div ?q) (asset_id (base p))" using k(2) u'(1) by simp
        show "0 < amount ur \<and> cull \<and> cr = mk_asset (div_up (amount ur * ?q) ?b) (asset_id (quote p))"
          unfolding k(2,3) using k(4,5) u'(3) kk by auto
        show "m \<le> HARDFORK_CORE_342_TIME \<Longrightarrow> cr = usd" using hf by simp
      qed
    next
      case hf: False
      then have "Some (Some (u, usd, False)) = Some (Some (ur, cr, cull))"
        using run by (simp add: match_amounts_def c le u Let_def chain_consts)
      then have "ur = u" "cr = usd" by simp_all
      then show ?thesis using taker u'(1) c'(1) True hf by simp
    qed
  next
    case False
    then have le: "asset_le usd c = Some False" using ids c' by (simp add: asset_cmp_Some)
    show ?thesis
    proof (cases "m > HARDFORK_CORE_342_TIME")
      case hf: True
      then have e: "do { k \<leftarrow> multiply_and_round_up c p; Some (Some (k, c, False)) } = Some (Some (ur, cr, cull))"
        using run by (simp add: match_amounts_def c le Let_def chain_consts)
      then obtain k where k1: "multiply_and_round_up c p = Some k" by (cases "multiply_and_round_up c p") simp_all
      have k: "multiply_and_round_up c p = Some k" "ur = k" "cr = c" "\<not> cull" using e k1 by simp_all
      have kk: "k = mk_asset (div_up (amount c * ?b) ?q) (asset_id (base p))" using mul_Some(4) [OF p c'(3,2) _ k(1)] c'(1) by simp
      show ?thesis
      proof (rule maker)
        show "amount core * ?q div ?b < amount usd" using False c'(1) by simp
        show "cr = mk_asset (amount core * ?q div ?b) (asset_id (quote p))" using k(3) c'(1) by simp
        show "ur = mk_asset (div_up (amount cr * ?b) ?q) (asset_id (base p))" unfolding k(2,3) by (rule kk)
        show "m \<le> HARDFORK_CORE_342_TIME \<Longrightarrow> ur = core" using hf by simp
      qed (rule k(4))
    next
      case hf: False
      then have "Some (Some (core, c, False)) = Some (Some (ur, cr, cull))"
        using run by (simp add: match_amounts_def c le Let_def chain_consts)
      then have "ur = core" "cr = c" "\<not> cull" by simp_all
      then show ?thesis using maker c'(1) False hf by simp
    qed
  qed
qed

text \<open>Neither order pays more than it has, and the trade is non-negative.\<close>

lemma match_amounts_bounds:
  assumes p: "price_ok p" and ids: "asset_id usd = asset_id (quote p)" "asset_id core = asset_id (base p)"
    and am: "0 < amount usd" "amount usd \<le> GRAPHENE_MAX_SHARE_SUPPLY" "0 < amount core" "amount core \<le> GRAPHENE_MAX_SHARE_SUPPLY"
    and run: "match_amounts m usd core p = Some (Some (ur, cr, cull))"
  shows "asset_id ur = asset_id core" "asset_id cr = asset_id usd" "0 \<le> amount ur" "0 \<le> amount cr"
    "amount ur \<le> amount core" "amount cr \<le> amount usd"
proof -
  let ?b = "amount (base p)" and ?q = "amount (quote p)" and ?u = "amount usd" and ?k = "amount core"
  have bq: "0 < ?b" "0 < ?q" using p by (auto simp: price_ok_def)
  have "asset_id ur = asset_id core \<and> asset_id cr = asset_id usd \<and> 0 \<le> amount ur \<and> 0 \<le> amount cr \<and> amount ur \<le> ?k \<and> amount cr \<le> ?u"
  proof (cases rule: match_amounts_cases [OF assms])
    case 1
    have "?u * ?b \<le> ?k * ?q" using 1(1) bq by (simp add: int_le_div_iff)
    then have ur: "?u * ?b div ?q \<le> ?k" "0 \<le> ?u * ?b div ?q" using am bq zdiv_mono1 [of "?u * ?b" "?k * ?q" ?q] by (simp_all add: pos_imp_zdiv_nonneg_iff)
    have "div_up (?u * ?b div ?q * ?q) ?b \<le> ?u" using bq am by (intro div_up_div_le) simp_all
    then show ?thesis using 1 ur ids am bq by (cases "m > HARDFORK_CORE_342_TIME") auto
  next
    case 2
    have cr: "0 \<le> ?k * ?q div ?b" using am bq by (simp add: pos_imp_zdiv_nonneg_iff)
    have "div_up (?k * ?q div ?b * ?b) ?q \<le> ?k" using bq am by (intro div_up_div_le) simp_all
    then show ?thesis using 2 cr ids am bq by (cases "m > HARDFORK_CORE_342_TIME") auto
  qed
  then show "asset_id ur = asset_id core" "asset_id cr = asset_id usd" "0 \<le> amount ur" "0 \<le> amount cr"
    "amount ur \<le> amount core" "amount cr \<le> amount usd" by auto
qed

lemma rest_ok:
  assumes "order_ok x" "asset_id pays = sell_asset_id x" "pays \<noteq> amount_for_sale x" "0 \<le> amount pays" "amount pays \<le> for_sale x"
  shows "order_ok (rest_of x pays)"
proof -
  have "amount pays \<noteq> for_sale x" using assms(2,3) by (auto simp: amount_for_sale_def sell_asset_id_def intro: asset.equality)
  then show ?thesis using assms by (auto simp: order_ok_def)
qed

context fc_safe
begin

lemma match_limit_effect:
  assumes wf: "db_wf d" and mf: "market_fees_ok d" and ok: "order_fees_nonneg d"
    and m: "tbl_get m (limit_orders d) = Some core" and run: "match_limit L t m (sell_price core) d = Some (r, d')"
  shows "db_wf d'" "trade_frame d d'" "gap b d' = gap b d" "order_fees_nonneg d'" "orders_ok d \<Longrightarrow> orders_ok d'"
    "j \<noteq> t \<Longrightarrow> j \<noteq> m \<Longrightarrow> tbl_get j (limit_orders d') = tbl_get j (limit_orders d)"
proof -
  obtain usd am where t: "tbl_get t (limit_orders d) = Some usd"
    and ids: "asset_id (quote (sell_price usd)) = asset_id (base (sell_price core))"
      "asset_id (base (sell_price usd)) = asset_id (quote (sell_price core))"
    and am: "match_amounts (next_maintenance_time d) (amount_for_sale usd) (amount_for_sale core) (sell_price core) = Some am"
    using run m by (clarsimp simp: match_limit_def opt_bind)
  have fu: "order_fees_ok usd" and fc: "order_fees_ok core" using ok t m by (auto simp: order_fees_nonneg_def)
  have "db_wf d' \<and> trade_frame d d' \<and> gap b d' = gap b d \<and> order_fees_nonneg d' \<and> (orders_ok d \<longrightarrow> orders_ok d') \<and>
    (j \<noteq> t \<longrightarrow> j \<noteq> m \<longrightarrow> tbl_get j (limit_orders d') = tbl_get j (limit_orders d))"
  proof (cases am)
    case None
    then have "d' = d" using run t m ids am by (auto simp: match_limit_def)
    then show ?thesis using wf ok by simp
  next
    case (Some a)
    obtain ur cr cull where a: "a = (ur, cr, cull)" by (cases a)
    from run t m am Some a obtain b1 d1 b2 where f1: "fill_limit_order L t cr ur cull False d = Some (b1, d1)"
      and f2: "fill_limit_order L m ur cr True True d1 = Some (b2, d')"
      by (clarsimp simp: match_limit_def opt_bind Let_def split del: if_split)
    note e1 = fill_limit_order_effect [OF wf mf t fu f1]
    have mf1: "market_fees_ok d1" using market_fees_ok_trade [OF e1(2)] mf by simp
    obtain core' where m1: "tbl_get m (limit_orders d1) = Some core'" and fc': "order_fees_ok core'" and mt: "m \<noteq> t \<Longrightarrow> core' = core"
    proof (cases "m = t")
      case True
      have "\<not> b1" using f2 e1(4) [of m] True by (auto simp: fill_limit_order_def split: if_splits)
      then show ?thesis using that e1(4) [of m] True by (simp add: order_fees_ok_def)
    qed (use that e1(4) [of m] m fc in simp)
    note e2 = fill_limit_order_effect [OF e1(1) mf1 m1 fc' f2]
    have gets: "tbl_get j (limit_orders d') = (if j = m then (if b2 then None else Some (rest_of core' ur))
        else if j = t then (if b1 then None else Some (rest_of usd cr)) else tbl_get j (limit_orders d))" for j
      using e2(4) [of j] e1(4) [of j] by simp
    have "order_fees_nonneg d'" using ok gets unfolding order_fees_nonneg_def by (auto simp: order_fees_ok_def split: if_splits)
    moreover have "orders_ok d'" if od: "orders_ok d"
    proof -
      have ou: "order_ok usd" and oc: "order_ok core" using od t m by (auto simp: orders_ok_def)
      have tm: "m \<noteq> t" using t m ids ou by (auto simp: order_ok_def price_ok_def)
      note bd = match_amounts_bounds [OF _ _ _ _ _ _ _ am [unfolded Some a], unfolded amount_for_sale_def, simplified]
      have bd: "0 \<le> amount ur" "0 \<le> amount cr" "amount ur \<le> for_sale core" "amount cr \<le> for_sale usd"
        using bd ids ou oc by (auto simp: order_ok_def)
      have "\<not> b1 \<Longrightarrow> order_ok (rest_of usd cr)" using rest_ok [OF ou e1(5)] e1(7) bd by blast
      moreover have "\<not> b2 \<Longrightarrow> order_ok (rest_of core ur)" using rest_ok [OF oc] e2(5,7) mt [OF tm] bd by blast
      ultimately show ?thesis using od gets mt [OF tm] unfolding orders_ok_def by (auto split: if_splits)
    qed
    moreover have "gap b d' = gap b d" using e1(3) [of b] e2(3) [of b] by simp
    ultimately show ?thesis using e2(1) trade_frame_trans [OF e1(2) e2(2)] gets [of j] by simp
  qed
  then show "db_wf d'" "trade_frame d d'" "gap b d' = gap b d" "order_fees_nonneg d'" "orders_ok d \<Longrightarrow> orders_ok d'"
    "j \<noteq> t \<Longrightarrow> j \<noteq> m \<Longrightarrow> tbl_get j (limit_orders d') = tbl_get j (limit_orders d)" by auto
qed

end

section \<open>What is left is dust\<close>

text \<open>What remains of the smaller order buys nothing at the match price.\<close>

lemma dust:
  fixes b q u :: int
  assumes "0 < b" "0 < q"
  shows "(u - div_up (u * b div q * q) b) * b < q"
proof -
  have "u * b div q * q \<le> div_up (u * b div q * q) b * b" using assms(1) by (rule div_up_ge)
  moreover have "u * b < (u * b div q + 1) * q" using int_div_less_iff [of q "u * b" "u * b div q + 1"] assms(2) by simp
  ultimately show ?thesis by (simp add: left_diff_distrib algebra_simps)
qed

lemma dust_at_own_price:
  fixes x b q sq sb :: int
  assumes "x * b < q" "sq * q \<le> b * sb" "0 \<le> x" "0 < q" "0 < sb"
  shows "x * sq < sb"
proof -
  have "x * sq * q \<le> x * b * sb" using mult_left_mono [OF assms(2,3)] by (simp add: mult.assoc)
  also have "\<dots> < q * sb" using assms(1,5) by (rule mult_strict_right_mono)
  finally show ?thesis using assms(4) by (simp add: mult.commute)
qed

lemma culled:
  assumes ok: "order_ok x" and pays: "0 \<le> amount pays" "amount pays \<le> for_sale x" and y: "amount_to_receive (rest_of x pays) = Some y"
    and dust: "(for_sale x - amount pays) * amount (quote (sell_price x)) < amount (base (sell_price x))"
  shows "amount y = 0"
proof -
  let ?n = "(for_sale x - amount pays) * amount (quote (sell_price x))"
  have "amount y = ?n div amount (base (sell_price x))"
    using mul_Some(1) [of "sell_price x" "amount_for_sale (rest_of x pays)" y] y ok pays
    by (simp add: amount_to_receive_def amount_for_sale_def order_ok_def)
  moreover have "0 \<le> ?n" using ok pays by (simp add: order_ok_def price_ok_def)
  ultimately show ?thesis using dust by simp
qed

section \<open>Properties\<close>

text \<open>
  A match is fair: neither order pays more than it offers; the larger of the two orders trades at the match price or
  better, and the smaller one pays less than one unit more than the price asks, the unit that rounding needs.
\<close>

theorem match_rounding_fair:
  assumes "price_ok p" "asset_id usd = asset_id (quote p)" "asset_id core = asset_id (base p)"
    and "0 < amount usd" "amount usd \<le> GRAPHENE_MAX_SHARE_SUPPLY" "0 < amount core" "amount core \<le> GRAPHENE_MAX_SHARE_SUPPLY"
    and "m > HARDFORK_CORE_342_TIME" "match_amounts m usd core p = Some (Some (ur, cr, taker_is_smaller))"
  shows "0 \<le> amount ur \<and> amount ur \<le> amount core \<and> 0 \<le> amount cr \<and> amount cr \<le> amount usd \<and>
    (if taker_is_smaller
     then amount ur * amount (quote p) \<le> amount cr * amount (base p) \<and> (amount cr - 1) * amount (base p) < amount ur * amount (quote p)
     else amount cr * amount (base p) \<le> amount ur * amount (quote p) \<and> (amount ur - 1) * amount (quote p) < amount cr * amount (base p))"
proof -
  have bq: "0 < amount (base p)" "0 < amount (quote p)" using assms(1) by (auto simp: price_ok_def)
  note b = match_amounts_bounds [OF assms(1-7,9)]
  have "if taker_is_smaller
     then amount ur * amount (quote p) \<le> amount cr * amount (base p) \<and> (amount cr - 1) * amount (base p) < amount ur * amount (quote p)
     else amount cr * amount (base p) \<le> amount ur * amount (quote p) \<and> (amount ur - 1) * amount (quote p) < amount cr * amount (base p)"
  proof (cases rule: match_amounts_cases [OF assms(1-7,9)])
    case 1
    then have "taker_is_smaller" "amount cr = div_up (amount ur * amount (quote p)) (amount (base p))" using assms(8) by simp_all
    then show ?thesis using bq less_div_up_iff [of "amount (base p)" "amount cr - 1" "amount ur * amount (quote p)"] by (simp add: div_up_ge)
  next
    case 2
    then have "\<not> taker_is_smaller" "amount ur = div_up (amount cr * amount (base p)) (amount (quote p))" using assms(8) by simp_all
    then show ?thesis using bq less_div_up_iff [of "amount (quote p)" "amount ur - 1" "amount cr * amount (base p)"] by (simp add: div_up_ge)
  qed
  then show ?thesis using b by simp
qed

theorem match_rounding_fair_witness:
  "match_amounts 1600000000 (mk_asset 10 1) (mk_asset 1000 0) (mk_price (mk_asset 7 0) (mk_asset 3 1)) =
     Some (Some (mk_asset 23 0, mk_asset 10 1, True)) \<and> 23 * 3 \<le> 10 * (7 :: int) \<and> 9 * 7 < 23 * (3 :: int)"
proof -
  have r: "match_amounts 1600000000 (mk_asset 10 1) (mk_asset 1000 0) (mk_price (mk_asset 7 0) (mk_asset 3 1)) =
     Some (Some (mk_asset 23 0, mk_asset 10 1, True))"
    by code_simp
  from match_rounding_fair [OF _ _ _ _ _ _ _ _ r] r show ?thesis by (simp add: price_ok_def chain_consts)
qed

text \<open>
  After both fills at least one of the two orders is gone: filled or, because what is left of it is too small to buy anything,
  cancelled.
\<close>

lemma fills_remove_one:
  assumes "fc_safe L" "db_wf d" "market_fees_ok d" "orders_ok d"
    and "tbl_get t (limit_orders d) = Some usd" "tbl_get m (limit_orders d) = Some core"
    and "asset_id (quote (sell_price usd)) = asset_id (base (sell_price core))" "asset_id (base (sell_price usd)) = asset_id (quote (sell_price core))"
    and "\<not> price_lt (sell_price core) (price_invert (sell_price usd))"
    and "match_amounts (next_maintenance_time d) (amount_for_sale usd) (amount_for_sale core) (sell_price core) = Some (Some (ur, cr, cull))"
    and "fill_limit_order L t cr ur cull False d = Some (b1, d1)" "fill_limit_order L m ur cr True True d1 = Some (b2, d2)"
  shows "b1 \<or> b2" "tbl_get t (limit_orders d2) = None \<longleftrightarrow> b1" "tbl_get m (limit_orders d2) = None \<longleftrightarrow> b2"
    "next_maintenance_time d \<le> HARDFORK_CORE_342_TIME \<longrightarrow> cr = amount_for_sale usd \<or> ur = amount_for_sale core"
proof -
  let ?b = "amount (base (sell_price core))" and ?q = "amount (quote (sell_price core))"
  have ok: "order_ok usd" "order_ok core" using assms(4-6) by (auto simp: orders_ok_def)
  have bq: "0 < ?b" "0 < ?q" using ok by (auto simp: order_ok_def price_ok_def)
  have tm: "t \<noteq> m" using assms(5-7) ok by (auto simp: order_ok_def price_ok_def)
  note e1 = fc_safe.fill_limit_order_effect [OF assms(1-3) assms(5) order_ok_fees [OF ok(1)] assms(11)]
  have m1: "tbl_get m (limit_orders d1) = Some core" using e1(4) [of m] assms(6) tm by simp
  have mf1: "market_fees_ok d1" using market_fees_ok_trade [OF e1(2)] assms(3) by simp
  note e2 = fc_safe.fill_limit_order_effect [OF assms(1) e1(1) mf1 m1 order_ok_fees [OF ok(2)] assms(12)]
  have pre: "price_ok (sell_price core)" "asset_id (amount_for_sale usd) = asset_id (quote (sell_price core))"
    "asset_id (amount_for_sale core) = asset_id (base (sell_price core))" "0 < amount (amount_for_sale usd)"
    "amount (amount_for_sale usd) \<le> GRAPHENE_MAX_SHARE_SUPPLY" "0 < amount (amount_for_sale core)"
    "amount (amount_for_sale core) \<le> GRAPHENE_MAX_SHARE_SUPPLY"
    using ok assms(8) by (auto simp: order_ok_def amount_for_sale_def)
  note bd = match_amounts_bounds [OF pre assms(10)]
  have cross: "amount (quote (sell_price usd)) * ?q \<le> ?b * amount (base (sell_price usd))"
    using price_lt_cross [of "sell_price core" "price_invert (sell_price usd)"] assms(7-9) ok by (simp add: order_ok_def)
  show "tbl_get t (limit_orders d2) = None \<longleftrightarrow> b1" "tbl_get m (limit_orders d2) = None \<longleftrightarrow> b2"
    using e1(4) [of t] e2(4) [of t] e2(4) [of m] tm by simp_all
  show early: "next_maintenance_time d \<le> HARDFORK_CORE_342_TIME \<longrightarrow> cr = amount_for_sale usd \<or> ur = amount_for_sale core"
    by (cases rule: match_amounts_cases [OF pre assms(10)]) simp_all
  show "b1 \<or> b2"
  proof (cases "next_maintenance_time d > HARDFORK_CORE_342_TIME")
    case hf: True
    show ?thesis
    proof (cases rule: match_amounts_cases [OF pre assms(10)])
      case 1
      then have cr: cull "amount cr = div_up (for_sale usd * ?b div ?q * ?q) ?b" using hf by (simp_all add: amount_for_sale_def)
      show ?thesis
      proof (cases "cr = amount_for_sale usd")
        case False
        have "(for_sale usd - amount cr) * amount (quote (sell_price usd)) < amount (base (sell_price usd))"
          using bd(6) ok bq cr dust [OF bq, of "for_sale usd"]
          by (intro dust_at_own_price [OF _ cross]) (auto simp: amount_for_sale_def order_ok_def price_ok_def)
        moreover obtain y where y: "amount_to_receive (rest_of usd cr) = Some y" "b1 \<longleftrightarrow> amount y = 0" using e1(8) [OF False cr(1)] by blast
        moreover have "amount cr \<le> for_sale usd" using bd(6) by (simp add: amount_for_sale_def)
        ultimately show ?thesis using culled [OF ok(1) bd(4) _ y(1)] by blast
      qed (use e1(7) in simp)
    next
      case 2
      then have ur: "amount ur = div_up (for_sale core * ?q div ?b * ?b) ?q" using hf by (simp add: amount_for_sale_def)
      show ?thesis
      proof (cases "ur = amount_for_sale core")
        case False
        have "(for_sale core - amount ur) * ?q < ?b" using dust [OF bq(2,1), of "for_sale core"] ur by simp
        moreover obtain y where y: "amount_to_receive (rest_of core ur) = Some y" "b2 \<longleftrightarrow> amount y = 0" using e2(8) [OF False] by blast
        moreover have "amount ur \<le> for_sale core" using bd(5) by (simp add: amount_for_sale_def)
        ultimately show ?thesis using culled [OF ok(2) bd(3) _ y(1)] by blast
      qed (use e2(7) in simp)
    qed
  next
    case False
    then show ?thesis using early e1(7) e2(7) by auto
  qed
qed

text \<open>The early return of \<^verbatim>\<open>match\<close>: the taker would receive nothing.\<close>

lemma match_amounts_nothing:
  assumes p: "price_ok p" and ids: "asset_id usd = asset_id (quote p)" and am: "0 \<le> amount usd" "amount usd \<le> GRAPHENE_MAX_SHARE_SUPPLY"
    and run: "match_amounts m usd core p = Some None"
  shows "m > HARDFORK_CORE_184_TIME \<and> amount usd * amount (base p) div amount (quote p) = 0"
proof -
  from run obtain u where u: "asset_mul usd p = Some u" "amount u = 0" "m > HARDFORK_CORE_184_TIME"
    by (auto simp: match_amounts_def opt_bind Let_def split: if_splits)
  then show ?thesis using mul_Some(2) [OF p am ids u(1)] by auto
qed

text \<open>
  (C15) A match between a taker and a maker whose prices cross either does nothing, when what the taker sells is worth
  nothing at the price of the maker (the early return, upon which the caller ends the matching), or takes an order off the book:
  one of the two or both are gone, filled or cancelled because the rest is too small to buy anything, and the result tells
  which. The assertions of \<^verbatim>\<open>match\<close> never fail: it fails only when the computation of an amount or one of the two fills does. So the
  matching loop always makes progress.
\<close>

theorem match_removes_an_order:
  assumes "fc_safe L" "db_wf d" "market_fees_ok d" "orders_ok d"
    and "tbl_get t (limit_orders d) = Some usd" "tbl_get m (limit_orders d) = Some core"
    and "asset_id (quote (sell_price usd)) = asset_id (base (sell_price core))" "asset_id (base (sell_price usd)) = asset_id (quote (sell_price core))"
    and "\<not> price_lt (sell_price core) (price_invert (sell_price usd))"
  shows "case match_limit L t m (sell_price core) d of
      None \<Rightarrow> (case match_amounts (next_maintenance_time d) (amount_for_sale usd) (amount_for_sale core) (sell_price core) of
          None \<Rightarrow> True
        | Some None \<Rightarrow> False
        | Some (Some (ur, cr, cull)) \<Rightarrow> (case fill_limit_order L t cr ur cull False d of
            None \<Rightarrow> True
          | Some (b1, d1) \<Rightarrow> fill_limit_order L m ur cr True True d1 = None))
    | Some (r, d') \<Rightarrow>
        (r = 1 \<and> d' = d \<and> next_maintenance_time d > HARDFORK_CORE_184_TIME \<and>
           for_sale usd * amount (base (sell_price core)) div amount (quote (sell_price core)) = 0) \<or>
        (r \<in> {1, 2, 3} \<and> (tbl_get t (limit_orders d') = None \<longleftrightarrow> r \<in> {1, 3}) \<and> (tbl_get m (limit_orders d') = None \<longleftrightarrow> r \<in> {2, 3}))"
proof -
  let ?am = "match_amounts (next_maintenance_time d) (amount_for_sale usd) (amount_for_sale core) (sell_price core)"
  have ok: "order_ok usd" "order_ok core" using assms(4-6) by (auto simp: orders_ok_def)
  have pos: "0 < for_sale usd" "0 < for_sale core" using ok by (auto simp: order_ok_def)
  consider (err) "?am = None" | (none) "?am = Some None" | (some) ur cr cull where "?am = Some (Some (ur, cr, cull))"
    by (metis option.exhaust prod_cases3)
  then show ?thesis
  proof cases
    case err
    then show ?thesis using assms(5-8) pos by (simp add: match_limit_def)
  next
    case none
    have "next_maintenance_time d > HARDFORK_CORE_184_TIME \<and>
        for_sale usd * amount (base (sell_price core)) div amount (quote (sell_price core)) = 0"
      using match_amounts_nothing [OF _ _ _ _ none] ok assms(8) by (simp add: order_ok_def amount_for_sale_def)
    then show ?thesis using none assms(5-8) pos by (simp add: match_limit_def)
  next
    case some
    note fills = fills_remove_one [OF assms some]
    show ?thesis
    proof (cases "fill_limit_order L t cr ur cull False d")
      case None
      then show ?thesis using some assms(5-8) pos by (simp add: match_limit_def split: option.split)
    next
      case (Some x)
      obtain b1 d1 where f1: "fill_limit_order L t cr ur cull False d = Some (b1, d1)" using Some by (cases x) simp
      show ?thesis
      proof (cases "fill_limit_order L m ur cr True True d1")
        case None
        then show ?thesis using some f1 assms(5-8) pos by (simp add: match_limit_def split: option.split)
      next
        case (Some y)
        obtain b2 d2 where f2: "fill_limit_order L m ur cr True True d1 = Some (b2, d2)" using Some by (cases y) simp
        have "match_limit L t m (sell_price core) d = Some ((if b1 then 1 else 0) + (if b2 then 2 else 0), d2)"
          using some f1 f2 assms(5-8) pos fills(1,4) [OF f1 f2] by (cases b1) (simp_all add: match_limit_def)
        then show ?thesis using fills(1-3) [OF f1 f2] by auto
      qed
    qed
  qed
qed

definition demo_maker :: limit_order_object where
  "demo_maker = \<lparr>lo_expiration = 2000000000, seller = 7, for_sale = 1000, sell_price = mk_price (mk_asset 7 0) (mk_asset 3 1),
     deferred_fee = 20, deferred_paid_fee = mk_asset 0 0\<rparr>"

definition demo_taker :: limit_order_object where
  "demo_taker = \<lparr>lo_expiration = 2000000000, seller = 8, for_sale = 11, sell_price = mk_price (mk_asset 3 1) (mk_asset 7 0),
     deferred_fee = 5, deferred_paid_fee = mk_asset 2 1\<rparr>"

definition demo_market :: database where
  "demo_market = demo_accounts\<lparr>
     accounts := \<lparr>rows = [(7, demo_account), (8, demo_account\<lparr>acct_name := ''alice'', statistics := 1\<rparr>)], next_instance = 9\<rparr>,
     account_statistics := \<lparr>rows = [(0, demo_stat\<lparr>total_core_in_orders := 1000\<rparr>), (1, demo_stat\<lparr>stat_owner := 8\<rparr>)], next_instance = 2\<rparr>,
     assets := \<lparr>rows = [(0, demo_fee_asset\<lparr>symbol := ''META1''\<rparr>), (1, demo_fee_asset\<lparr>dynamic_asset_data_id := 1\<rparr>)], next_instance = 2\<rparr>,
     asset_dynamic_data := \<lparr>rows = [(0, \<lparr>current_supply = 100000, confidential_supply = 0, accumulated_fees = 0, fee_pool = 0\<rparr>),
       (1, \<lparr>current_supply = 5000, confidential_supply = 0, accumulated_fees = 0, fee_pool = 100\<rparr>)], next_instance = 2\<rparr>,
     limit_orders := \<lparr>rows = [(0, demo_maker), (1, demo_taker)], next_instance = 2\<rparr>,
     head_block_time := 1600000000, next_maintenance_time := 1600003600\<rparr>"

lemma demo_market_ok: "db_wf demo_market" "market_fees_ok demo_market" "orders_ok demo_market"
  by (auto simp: demo_market_def demo_accounts_def demo_balances_def empty_database_def db_wf_def tbl_wf_def tbl_empty_def
      assets_linked_def tbl_get_def demo_fee_asset_def market_fees_ok_def orders_ok_def order_ok_def demo_maker_def demo_taker_def
      price_ok_def chain_consts split: if_splits)

theorem match_removes_an_order_witness:
  "\<exists>d'. match_limit checked_lib 1 0 (sell_price demo_maker) demo_market = Some (1, d') \<and> d' \<noteq> demo_market \<and>
     tbl_get 1 (limit_orders d') = None \<and> tbl_get 0 (limit_orders d') \<noteq> None"
proof -
  have "(case match_limit checked_lib 1 0 (sell_price demo_maker) demo_market of None \<Rightarrow> False | Some (r, d') \<Rightarrow> r = 1)" by code_simp
  then obtain d' where d': "match_limit checked_lib 1 0 (sell_price demo_maker) demo_market = Some (1, d')" by (auto split: option.splits)
  have g: "tbl_get 1 (limit_orders demo_market) = Some demo_taker" "tbl_get 0 (limit_orders demo_market) = Some demo_maker"
    by (simp_all add: demo_market_def tbl_get_def)
  have "for_sale demo_taker * amount (base (sell_price demo_maker)) div amount (quote (sell_price demo_maker)) \<noteq> 0"
    by (simp add: demo_taker_def demo_maker_def)
  moreover have "case match_limit checked_lib 1 0 (sell_price demo_maker) demo_market of
      None \<Rightarrow> (case match_amounts (next_maintenance_time demo_market) (amount_for_sale demo_taker) (amount_for_sale demo_maker) (sell_price demo_maker) of
          None \<Rightarrow> True
        | Some None \<Rightarrow> False
        | Some (Some (ur, cr, cull)) \<Rightarrow> (case fill_limit_order checked_lib 1 cr ur cull False demo_market of
            None \<Rightarrow> True
          | Some (b1, d1) \<Rightarrow> fill_limit_order checked_lib 0 ur cr True True d1 = None))
    | Some (r, d') \<Rightarrow>
        (r = 1 \<and> d' = demo_market \<and> next_maintenance_time demo_market > HARDFORK_CORE_184_TIME \<and>
           for_sale demo_taker * amount (base (sell_price demo_maker)) div amount (quote (sell_price demo_maker)) = 0) \<or>
        (r \<in> {1, 2, 3} \<and> (tbl_get 1 (limit_orders d') = None \<longleftrightarrow> r \<in> {1, 3}) \<and> (tbl_get 0 (limit_orders d') = None \<longleftrightarrow> r \<in> {2, 3}))"
    by (rule match_removes_an_order [OF checked_lib_safe demo_market_ok g])
      (simp_all add: demo_maker_def demo_taker_def demo_market_def price_lt_def price_invert_def chain_consts)
  ultimately have "tbl_get 1 (limit_orders d') = None \<and> tbl_get 0 (limit_orders d') \<noteq> None" using d' by auto
  moreover have "d' \<noteq> demo_market" using calculation g by auto
  ultimately show ?thesis using d' by blast
qed

end
