(* ===== verification/Margin_Calls.thy ===== *)
theory Margin_Calls
  imports Limit_Orders
begin

text \<open>
  Margin positions in the market (\<^verbatim>\<open>libraries/chain/db_market.cpp\<close> and \<^verbatim>\<open>db_update.cpp\<close>): filling a position, matching a limit
  order against it, the global settlement of an asset, the detection of a black swan, and \<^verbatim>\<open>check_call_orders\<close>, which calls the
  positions that are below the maintenance collateral ratio. The logging and the virtual operations of the code have no
  counterpart.
\<close>

section \<open>Filling and matching margin positions\<close>

definition HARDFORK_CORE_343_TIME :: int where [chain_consts]: "HARDFORK_CORE_343_TIME = 1532008920"
definition HARDFORK_CORE_606_TIME :: int where [chain_consts]: "HARDFORK_CORE_606_TIME = 1532008920"
definition HARDFORK_CORE_625_TIME :: int where [chain_consts]: "HARDFORK_CORE_625_TIME = 1532008920"
definition HARDFORK_CORE_1270_TIME :: int where [chain_consts]: "HARDFORK_CORE_1270_TIME = 1556028120"

text \<open>The position after \<open>pays\<close> of collateral has covered \<open>receives\<close> of debt, and the collateral that is freed when no debt is
  left.\<close>

definition reduce_position ::
  "fc_lib \<Rightarrow> uint16 option \<Rightarrow> time_point_sec \<Rightarrow> asset \<Rightarrow> asset \<Rightarrow> call_order_object \<Rightarrow> (call_order_object \<times> asset option) option" where
  "reduce_position L mcr maint_time pays receives c = do {
     new_debt \<leftarrow> safe_sub L (debt c) (amount receives);
     new_collateral \<leftarrow> safe_sub L (collateral c) (amount pays);
     if new_debt = 0 then Some (c\<lparr>debt := new_debt, collateral := 0\<rparr>, Some (mk_asset new_collateral (collateral_type c)))
     else do {
       cp \<leftarrow> (if maint_time \<le> HARDFORK_CORE_1270_TIME \<and> maint_time > HARDFORK_CORE_343_TIME
         then do { r \<leftarrow> mcr; call_price L (mk_asset new_debt (debt_type c)) (mk_asset new_collateral (collateral_type c)) r }
         else Some (co_call_price c));
       Some (c\<lparr>debt := new_debt, collateral := new_collateral, co_call_price := cp\<rparr>, None)
     }
   }"

definition find_stats_by_owner :: "database \<Rightarrow> account_id_type \<Rightarrow> (nat \<times> account_statistics_object) option" where
  "find_stats_by_owner d who = tbl_find (\<lambda>s. stat_owner s = who) (account_statistics d)"

definition release_call_collateral :: "fc_lib \<Rightarrow> account_id_type \<Rightarrow> asset \<Rightarrow> asset option \<Rightarrow> database \<Rightarrow> database option" where
  "release_call_collateral L who pays freed d =
     (if asset_id pays = 0 then do {
        (k, s) \<leftarrow> find_stats_by_owner d who;
        t \<leftarrow> safe_sub L (total_core_in_orders s) (amount pays);
        t' \<leftarrow> (case freed of None \<Rightarrow> Some t | Some f \<Rightarrow> safe_sub L t (amount f));
        Some (d\<lparr>account_statistics := tbl_modify k (\<lambda>s. s\<lparr>total_core_in_orders := t'\<rparr>) (account_statistics d)\<rparr>)
      } else Some d)"

definition burn_supply :: "fc_lib \<Rightarrow> asset \<Rightarrow> database \<Rightarrow> database option" where
  "burn_supply L x d = do {
     (k, dd) \<leftarrow> get_dynamic_data d (asset_id x);
     s \<leftarrow> safe_sub L (current_supply dd) (amount x);
     Some (d\<lparr>asset_dynamic_data := tbl_modify k (\<lambda>a. a\<lparr>current_supply := s\<rparr>) (asset_dynamic_data d)\<rparr>)
   }"

definition fill_call_order :: "fc_lib \<Rightarrow> nat \<Rightarrow> asset \<Rightarrow> asset \<Rightarrow> database \<Rightarrow> (bool \<times> database) option" where
  "fill_call_order L i pays receives d = do {
     c \<leftarrow> tbl_get i (call_orders d);
     fc_assert (debt_type c = asset_id receives);
     fc_assert (collateral_type c = asset_id pays);
     fc_assert (collateral c \<ge> amount pays);
     mia \<leftarrow> tbl_get (asset_id receives) (assets d);
     bid \<leftarrow> bitasset_data_id mia;
     let mcr = map_option (\<lambda>b. maintenance_collateral_ratio (current_feed b)) (tbl_get bid (bitassets d));
     (c', freed) \<leftarrow> reduce_position L mcr (next_maintenance_time d) pays receives c;
     d2 \<leftarrow> burn_supply L receives (d\<lparr>call_orders := tbl_modify i (\<lambda>_. c') (call_orders d)\<rparr>);
     d3 \<leftarrow> (case freed of None \<Rightarrow> Some d2 | Some f \<Rightarrow> adjust_balance L (borrower c) f d2);
     d4 \<leftarrow> release_call_collateral L (borrower c) pays freed d3;
     if freed \<noteq> None then Some (True, d4\<lparr>call_orders := tbl_remove i (call_orders d4)\<rparr>) else Some (False, d4)
   }"

text \<open>What the limit order and the position receive; the inner \<open>None\<close> is the early return.\<close>

definition match_call_amounts ::
  "time_point_sec \<Rightarrow> asset \<Rightarrow> asset \<Rightarrow> price \<Rightarrow> (asset \<times> asset \<times> bool) option option" where
  "match_call_amounts maint_time usd_for_sale usd_to_buy match_price = do {
     let before_core_hardfork_184 = (maint_time \<le> HARDFORK_CORE_184_TIME);
     let before_core_hardfork_342 = (maint_time \<le> HARDFORK_CORE_342_TIME);
     gt \<leftarrow> asset_gt usd_to_buy usd_for_sale;
     if gt then do {
       order_receives \<leftarrow> asset_mul usd_for_sale match_price;
       if amount order_receives = 0 \<and> \<not> before_core_hardfork_184 then Some None
       else if before_core_hardfork_342 then Some (Some (order_receives, usd_for_sale, False))
       else do {
         call_receives \<leftarrow> multiply_and_round_up order_receives match_price;
         Some (Some (order_receives, call_receives, True))
       }
     } else if before_core_hardfork_342 then do {
       order_receives \<leftarrow> asset_mul usd_to_buy match_price;
       if amount order_receives = 0 \<and> \<not> before_core_hardfork_184 then Some None
       else Some (Some (order_receives, usd_to_buy, False))
     } else do {
       order_receives \<leftarrow> multiply_and_round_up usd_to_buy match_price;
       Some (Some (order_receives, usd_to_buy, False))
     }
   }"

definition match_call :: "fc_lib \<Rightarrow> price \<Rightarrow> price \<Rightarrow> uint16 \<Rightarrow> price option \<Rightarrow> nat \<Rightarrow> nat \<Rightarrow> database \<Rightarrow> (nat \<times> database) option" where
  "match_call L match_price feed_price mcr maintenance bid ask d = do {
     b \<leftarrow> tbl_get bid (limit_orders d);
     c \<leftarrow> tbl_get ask (call_orders d);
     fc_assert (sell_asset_id b = debt_type c);
     fc_assert (receive_asset_id b = collateral_type c);
     fc_assert (for_sale b > 0 \<and> debt c > 0 \<and> collateral c > 0);
     to_buy \<leftarrow> get_max_debt_to_cover L c match_price feed_price mcr maintenance;
     a \<leftarrow> match_call_amounts (next_maintenance_time d) (amount_for_sale b) (mk_asset to_buy (debt_type c)) match_price;
     case a of
       None \<Rightarrow> Some (1, d)
     | Some (order_receives, call_receives, cull_taker) \<Rightarrow> do {
         (b1, d1) \<leftarrow> fill_limit_order L bid call_receives order_receives cull_taker False d;
         (b2, d2) \<leftarrow> fill_call_order L ask order_receives call_receives d1;
         Some ((if b1 then 1 else 0) + (if b2 then 2 else 0), d2)
       }
   }"

section \<open>The order book\<close>

text \<open>The index \<^verbatim>\<open>by_price\<close> of the limit orders: highest price first, then by identifier.\<close>

definition book :: "database \<Rightarrow> (nat \<times> limit_order_object) list" where
  "book d = sort_lt (\<lambda>x y. price_gt (sell_price x) (sell_price y)) (rows (limit_orders d))"

text \<open>The orders from \<^verbatim>\<open>lower_bound( max_price.max() )\<close> up to \<^verbatim>\<open>upper_bound( max_price )\<close>.\<close>

definition book_range :: "database \<Rightarrow> price \<Rightarrow> price \<Rightarrow> nat list" where
  "book_range d pmax max_price =
     map fst (filter (\<lambda>(_, x). \<not> price_gt (sell_price x) pmax \<and> \<not> price_lt (sell_price x) max_price) (book d))"

definition coll_price :: "call_order_object \<Rightarrow> price" where
  "coll_price c = mk_price (get_collateral c) (get_debt c)"

section \<open>The index of the positions\<close>

text \<open>The positions are indexed by their call price until the hard fork 1270 and by their collateralization afterwards.\<close>

definition call_key :: "time_point_sec \<Rightarrow> call_order_object \<Rightarrow> price" where
  "call_key maint_time = (if maint_time \<le> HARDFORK_CORE_1270_TIME then co_call_price else coll_price)"

text \<open>The positions from \<^verbatim>\<open>lower_bound( call_min )\<close> up to \<^verbatim>\<open>upper_bound( call_max )\<close>.\<close>

definition calls_in :: "(call_order_object \<Rightarrow> price) \<Rightarrow> price \<Rightarrow> price \<Rightarrow> database \<Rightarrow> nat list" where
  "calls_in key call_min call_max d =
     map fst (filter (\<lambda>(_, c). \<not> price_lt (key c) call_min \<and> \<not> price_lt call_max (key c))
       (sort_lt (\<lambda>x y. price_lt (key x) (key y)) (rows (call_orders d))))"

text \<open>The position at \<^verbatim>\<open>lower_bound( call_min )\<close>.\<close>

definition least_call :: "(call_order_object \<Rightarrow> price) \<Rightarrow> price \<Rightarrow> database \<Rightarrow> (nat \<times> call_order_object) option" where
  "least_call key call_min d =
     first_lt (\<lambda>x y. price_lt (key x) (key y)) (filter (\<lambda>(_, c). \<not> price_lt (key c) call_min) (rows (call_orders d)))"

section \<open>Global settlement\<close>

definition HARDFORK_436_TIME :: int where [chain_consts]: "HARDFORK_436_TIME = 1450288800"
definition HARDFORK_615_TIME :: int where [chain_consts]: "HARDFORK_615_TIME = 1458752400"
definition HARDFORK_CORE_338_TIME :: int where [chain_consts]: "HARDFORK_CORE_338_TIME = 1532008920"
definition HARDFORK_CORE_453_TIME :: int where [chain_consts]: "HARDFORK_CORE_453_TIME = 1532008920"
definition HARDFORK_CORE_834_TIME :: int where [chain_consts]: "HARDFORK_CORE_834_TIME = 1532008920"

definition get_bitasset :: "database \<Rightarrow> asset_id_type \<Rightarrow> (nat \<times> asset_bitasset_data_object) option" where
  "get_bitasset d a = do {
     ao \<leftarrow> tbl_get a (assets d);
     k \<leftarrow> bitasset_data_id ao;
     b \<leftarrow> tbl_get k (bitassets d);
     Some (k, b)
   }"

text \<open>The loop that closes the positions and gathers their collateral.\<close>

fun close_positions :: "fc_lib \<Rightarrow> price \<Rightarrow> nat list \<Rightarrow> asset \<Rightarrow> database \<Rightarrow> (asset \<times> database) option" where
  "close_positions L p [] gathered d = Some (gathered, d)"
| "close_positions L p (i # is) gathered d = do {
     c \<leftarrow> tbl_get i (call_orders d);
     due \<leftarrow> (if next_maintenance_time d \<le> HARDFORK_CORE_342_TIME then asset_mul (get_debt c) p else multiply_and_round_up (get_debt c) p);
     gt \<leftarrow> asset_gt due (get_collateral c);
     let pays = (if gt then get_collateral c else due);
     gathered' \<leftarrow> asset_add L gathered pays;
     (filled, d') \<leftarrow> fill_call_order L i pays (get_debt c) d;
     fc_assert filled;
     close_positions L p is gathered' d'
   }"

definition globally_settle_asset :: "fc_lib \<Rightarrow> asset_id_type \<Rightarrow> price \<Rightarrow> database \<Rightarrow> database option" where
  "globally_settle_asset L mia p d = do {
     (k, b) \<leftarrow> get_bitasset d mia;
     fc_assert (\<not> has_settlement b);
     let backing = short_backing_asset (bda_options b);
     _ \<leftarrow> tbl_get backing (assets d);
     (j, dd) \<leftarrow> get_dynamic_data d mia;
     call_min \<leftarrow> price_min backing mia;
     call_max \<leftarrow> price_max backing mia;
     (gathered, d1) \<leftarrow> close_positions L p (calls_in co_call_price call_min call_max d) (mk_asset 0 backing) d;
     sp \<leftarrow> asset_div (mk_asset (current_supply dd) mia) gathered;
     Some (d1\<lparr>bitassets := tbl_modify k (\<lambda>b. b\<lparr>bda_settlement_price := sp, settlement_fund := amount gathered\<rparr>) (bitassets d1),
       asset_dynamic_data := tbl_modify j (\<lambda>a. a\<lparr>current_supply := current_supply dd\<rparr>) (asset_dynamic_data d1)\<rparr>)
   }"

section \<open>Black swans\<close>

text \<open>The higher of the price at which a margin call may buy and the best limit order.\<close>

definition highest_bid :: "fc_lib \<Rightarrow> asset_id_type \<Rightarrow> asset_bitasset_data_object \<Rightarrow> database \<Rightarrow> price option" where
  "highest_bid L mia b d = do {
     h \<leftarrow> (if next_maintenance_time d > HARDFORK_CORE_1270_TIME then max_short_squeeze_price L (current_feed b)
          else if next_maintenance_time d > HARDFORK_CORE_338_TIME then max_short_squeeze_price_before_hf_1270 L (current_feed b)
          else Some (settlement_price (current_feed b)));
     highest_possible_bid \<leftarrow> price_max mia (short_backing_asset (bda_options b));
     lowest_possible_bid \<leftarrow> price_min mia (short_backing_asset (bda_options b));
     fc_assert (asset_id (base highest_possible_bid) = asset_id (base lowest_possible_bid));
     case book_range d highest_possible_bid lowest_possible_bid of
       [] \<Rightarrow> Some h
     | m # _ \<Rightarrow> do {
         x \<leftarrow> tbl_get m (limit_orders d);
         fc_assert (asset_id (base h) = asset_id (base (sell_price x)));
         Some (if price_lt (sell_price x) h then h else sell_price x)
       }
   }"

definition check_for_blackswan :: "fc_lib \<Rightarrow> asset_id_type \<Rightarrow> bool \<Rightarrow> database \<Rightarrow> (bool \<times> database) option" where
  "check_for_blackswan L mia enable_black_swan d = do {
     ao \<leftarrow> tbl_get mia (assets d);
     if bitasset_data_id ao = None then Some (False, d)
     else do {
       (_, b) \<leftarrow> get_bitasset d mia;
       let settle_price = settlement_price (current_feed b);
       if has_settlement b then Some (True, d)
       else if is_null settle_price then Some (False, d)
       else do {
         call_min \<leftarrow> price_min (short_backing_asset (bda_options b)) mia;
         case least_call (call_key (next_maintenance_time d)) call_min d of
           None \<Rightarrow> Some (False, d)
         | Some (_, c) \<Rightarrow>
             if debt_type c \<noteq> mia then Some (False, d)
             else do {
               highest \<leftarrow> highest_bid L mia b d;
               least_collateral \<leftarrow> collateralization c;
               if price_ge (price_invert least_collateral) highest then do {
                 fc_assert enable_black_swan;
                 d' \<leftarrow> globally_settle_asset L mia
                   (if next_maintenance_time d > HARDFORK_CORE_338_TIME \<and> price_le (price_invert least_collateral) settle_price
                    then settle_price else price_invert least_collateral) d;
                 Some (True, d')
               } else Some (False, d)
             }
       }
     }
   }"

section \<open>Margin calls\<close>

text \<open>What the limit order and the position receive, and whether the order and the position count as filled.\<close>

definition margin_amounts :: "time_point_sec \<Rightarrow> asset \<Rightarrow> asset \<Rightarrow> price \<Rightarrow> (asset \<times> asset \<times> bool \<times> bool) option" where
  "margin_amounts maint_time usd_for_sale usd_to_buy match_price = do {
     gt \<leftarrow> asset_gt usd_to_buy usd_for_sale;
     if gt then do {
       order_receives \<leftarrow> asset_mul usd_for_sale match_price;
       call_receives \<leftarrow> (if maint_time \<le> HARDFORK_CORE_342_TIME then Some usd_for_sale else multiply_and_round_up order_receives match_price);
       Some (order_receives, call_receives, True, False)
     } else do {
       order_receives \<leftarrow> (if maint_time \<le> HARDFORK_CORE_342_TIME then asset_mul usd_to_buy match_price
         else multiply_and_round_up usd_to_buy match_price);
       Some (order_receives, usd_to_buy, usd_to_buy = usd_for_sale, True)
     }
   }"

text \<open>A position is protected when its collateral ratio is above the maintenance ratio.\<close>

definition feed_protected :: "asset_bitasset_data_object \<Rightarrow> call_order_object \<Rightarrow> database \<Rightarrow> bool option" where
  "feed_protected b c d =
     (if next_maintenance_time d > HARDFORK_CORE_1270_TIME
      then do { z \<leftarrow> collateralization c; Some (price_lt (current_maintenance_collateralization b) z) }
      else Some (head_block_time d > HARDFORK_436_TIME \<and> price_gt (settlement_price (current_feed b)) (price_invert (co_call_price c))))"

definition debt_to_cover :: "fc_lib \<Rightarrow> asset_bitasset_data_object \<Rightarrow> call_order_object \<Rightarrow> price \<Rightarrow> time_point_sec \<Rightarrow> share_type option" where
  "debt_to_cover L b c match_price maint_time =
     (if maint_time > HARDFORK_CORE_1270_TIME
      then get_max_debt_to_cover L c match_price (settlement_price (current_feed b)) (maintenance_collateral_ratio (current_feed b))
        (Some (current_maintenance_collateralization b))
      else if maint_time > HARDFORK_CORE_834_TIME
      then get_max_debt_to_cover L c match_price (settlement_price (current_feed b)) (maintenance_collateral_ratio (current_feed b)) None
      else Some (debt c))"

text \<open>The fills of one round: the orders and positions that are left, and whether the order counts as filled.\<close>

definition fill_margin_call ::
  "fc_lib \<Rightarrow> asset_id_type \<Rightarrow> asset_bitasset_data_object \<Rightarrow> bool \<Rightarrow> nat list \<Rightarrow> nat list \<Rightarrow> bool \<Rightarrow> limit_order_object \<Rightarrow> call_order_object \<Rightarrow> database \<Rightarrow>
     (nat list \<times> nat list \<times> bool \<times> database) option" where
  "fill_margin_call L mia b for_new_limit_order limits calls filled_limit x c d = do {
     let maint_time = next_maintenance_time d;
     to_buy \<leftarrow> debt_to_cover L b c (sell_price x) maint_time;
     (order_receives, call_receives, fills_limit, filled_call) \<leftarrow>
       margin_amounts maint_time (amount_for_sale x) (mk_asset to_buy (debt_type c)) (sell_price x);
     let affected = (filled_call \<and> \<not> fills_limit \<and> filled_limit \<and> maint_time \<le> HARDFORK_CORE_453_TIME \<and> head_block_time d < HARDFORK_615_TIME);
     let d1 = (if affected then d\<lparr>issue_453_affected_assets := List.insert (bda_asset_id b) (issue_453_affected_assets d)\<rparr> else d);
     (_, d2) \<leftarrow> fill_call_order L (hd calls) order_receives call_receives d1;
     call_min \<leftarrow> price_min (short_backing_asset (bda_options b)) mia;
     call_max \<leftarrow> price_max (short_backing_asset (bda_options b)) mia;
     let calls' = (if maint_time > HARDFORK_CORE_343_TIME then calls_in (call_key maint_time) call_min call_max d2
       else if filled_call then tl calls else calls);
     (really_filled, d3) \<leftarrow> fill_limit_order L (hd limits) call_receives order_receives True (\<not> for_new_limit_order) d2;
     let filled_limit' = (filled_limit \<or> fills_limit);
     Some (if really_filled \<or> filled_limit' \<and> maint_time \<le> HARDFORK_CORE_453_TIME then tl limits else limits, calls', filled_limit', d3)
   }"

text \<open>One round of the loop: its result, or the orders and positions that are left with the state of the loop.\<close>

definition call_round ::
  "fc_lib \<Rightarrow> asset_id_type \<Rightarrow> bool \<Rightarrow> bool \<Rightarrow> nat list \<Rightarrow> nat list \<Rightarrow> bool \<Rightarrow> bool \<Rightarrow> database \<Rightarrow>
     ((bool \<times> database) + (nat list \<times> nat list \<times> bool \<times> database)) option" where
  "call_round L mia enable_black_swan for_new_limit_order limits calls filled_limit margin_called d = do {
     (_, b) \<leftarrow> get_bitasset d mia;
     c \<leftarrow> tbl_get (hd calls) (call_orders d);
     x \<leftarrow> tbl_get (hd limits) (limit_orders d);
     protected \<leftarrow> feed_protected b c d;
     if protected then Some (Inl (margin_called, d))
     else if next_maintenance_time d \<le> HARDFORK_CORE_606_TIME \<and> price_gt (sell_price x) (price_invert (co_call_price c))
     then Some (Inl (margin_called, d))
     else do {
       due \<leftarrow> asset_mul (get_debt c) (sell_price x);
       swan \<leftarrow> asset_gt due (get_collateral c);
       if swan then do {
         fc_assert enable_black_swan;
         d' \<leftarrow> globally_settle_asset L mia (settlement_price (current_feed b)) d;
         Some (Inl (True, d'))
       } else do {
         r \<leftarrow> fill_margin_call L mia b for_new_limit_order limits calls filled_limit x c d;
         Some (Inr r)
       }
     }
   }"

partial_function (option) call_loop ::
  "fc_lib \<Rightarrow> asset_id_type \<Rightarrow> bool \<Rightarrow> bool \<Rightarrow> nat list \<Rightarrow> nat list \<Rightarrow> bool \<Rightarrow> bool \<Rightarrow> database \<Rightarrow> (bool \<times> database) option" where
  "call_loop L mia enable_black_swan for_new_limit_order limits calls filled_limit margin_called d =
     (check_for_blackswan L mia enable_black_swan d \<bind> (\<lambda>(swan, d1).
        if swan \<or> limits = [] \<or> calls = [] then Some (margin_called, d1)
        else call_round L mia enable_black_swan for_new_limit_order limits calls filled_limit margin_called d1 \<bind> (\<lambda>r.
          case r of
            Inl y \<Rightarrow> Some y
          | Inr (limits', calls', filled_limit', d2) \<Rightarrow>
              call_loop L mia enable_black_swan for_new_limit_order limits' calls' filled_limit' True d2)))"

definition check_call_orders :: "fc_lib \<Rightarrow> asset_id_type \<Rightarrow> bool \<Rightarrow> bool \<Rightarrow> database \<Rightarrow> (bool \<times> database) option" where
  "check_call_orders L mia enable_black_swan for_new_limit_order d = do {
     (if for_new_limit_order then fc_assert (next_maintenance_time d \<le> HARDFORK_CORE_625_TIME) else Some ());
     ao \<leftarrow> tbl_get mia (assets d);
     if bitasset_data_id ao = None then Some (False, d)
     else do {
       (swan, d1) \<leftarrow> check_for_blackswan L mia enable_black_swan d;
       if swan then Some (False, d1)
       else do {
         (_, b) \<leftarrow> get_bitasset d1 mia;
         if is_prediction_market b \<or> is_null (settlement_price (current_feed b)) then Some (False, d1)
         else do {
           let backing = short_backing_asset (bda_options b);
           max_price \<leftarrow> price_max mia backing;
           min_price \<leftarrow> (if next_maintenance_time d1 \<le> HARDFORK_CORE_1270_TIME
             then max_short_squeeze_price_before_hf_1270 L (current_feed b) else max_short_squeeze_price L (current_feed b));
           let limits = book_range d1 max_price min_price;
           if limits = [] then Some (False, d1)
           else do {
             call_min \<leftarrow> price_min backing mia;
             call_max \<leftarrow> price_max backing mia;
             call_loop L mia enable_black_swan for_new_limit_order limits
               (calls_in (call_key (next_maintenance_time d1)) call_min call_max d1) False False d1
           }
         }
       }
     }
   }"

section \<open>The ledger of margin positions\<close>

text \<open>What trading in the market leaves alone.\<close>

definition market_frame :: "database \<Rightarrow> database \<Rightarrow> bool" where
  "market_frame d d' \<longleftrightarrow> accounts d' = accounts d \<and> assets d' = assets d \<and> properties d' = properties d \<and>
     asset_limitations d' = asset_limitations d \<and> asset_prices d' = asset_prices d \<and> htlcs d' = htlcs d \<and>
     liquidity_pools d' = liquidity_pools d \<and> head_block_time d' = head_block_time d \<and>
     next_maintenance_time d' = next_maintenance_time d"

lemma market_frame_trans [trans]: "market_frame d d1 \<Longrightarrow> market_frame d1 d2 \<Longrightarrow> market_frame d d2"
  by (simp add: market_frame_def)

lemma market_frame_upd [simp]: "market_frame d d" "market_frame d (d\<lparr>call_orders := t\<rparr>)" "market_frame d (d\<lparr>asset_dynamic_data := u\<rparr>)"
  "market_frame d (d\<lparr>bitassets := v\<rparr>)" "market_frame d (d\<lparr>issue_453_affected_assets := w\<rparr>)"
  by (simp_all add: market_frame_def)

lemma trade_frame_market: "trade_frame d d' \<Longrightarrow> market_frame d d'"
  by (simp add: market_frame_def trade_frame_keeps)

lemma market_fees_ok_market: "market_frame d d' \<Longrightarrow> market_fees_ok d' = market_fees_ok d"
  by (simp add: market_fees_ok_def market_frame_def)

lemma call_price_ids: "call_price L x y k = Some p \<Longrightarrow> asset_id (base p) = asset_id y \<and> asset_id (quote p) = asset_id x"
  by (auto simp: call_price_def asset_div_def opt_bind)

context fc_safe
begin

lemma reduce_position_cases:
  assumes run: "reduce_position L mcr mt pays receives c = Some (c', freed)"
  obtains (closed) "c' = c\<lparr>debt := 0, collateral := 0\<rparr>" "freed = Some (mk_asset (collateral c - amount pays) (collateral_type c))"
    | (open_still) cp where "c' = c\<lparr>debt := debt c - amount receives, collateral := collateral c - amount pays, co_call_price := cp\<rparr>" "freed = None"
      "asset_id (base cp) = collateral_type c" "asset_id (quote cp) = debt_type c"
proof -
  have s: "safe_sub L (debt c) (amount receives) = Some (debt c - amount receives)"
    "safe_sub L (collateral c) (amount pays) = Some (collateral c - amount pays)"
    using run by (cases "in_s64 (debt c - amount receives)"; cases "in_s64 (collateral c - amount pays)"; simp add: reduce_position_def safe_sub)+
  show ?thesis
  proof (cases "debt c - amount receives = 0")
    case True
    then show ?thesis using run closed s by (simp add: reduce_position_def)
  next
    case False
    define cpo where "cpo = (if mt \<le> HARDFORK_CORE_1270_TIME \<and> mt > HARDFORK_CORE_343_TIME
         then do { r \<leftarrow> mcr; call_price L (mk_asset (debt c - amount receives) (debt_type c)) (mk_asset (collateral c - amount pays) (collateral_type c)) r }
         else Some (co_call_price c))"
    have e: "do { cp \<leftarrow> cpo; Some (c\<lparr>debt := debt c - amount receives, collateral := collateral c - amount pays, co_call_price := cp\<rparr>, None :: asset option) }
        = Some (c', freed)"
      using run False s by (simp add: reduce_position_def cpo_def [symmetric])
    then obtain cp where cp: "cpo = Some cp" by (cases cpo) auto
    then have "asset_id (base cp) = collateral_type c \<and> asset_id (quote cp) = debt_type c"
      using call_price_ids by (fastforce simp: cpo_def opt_bind collateral_type_def debt_type_def split: if_splits)
    moreover have "c' = c\<lparr>debt := debt c - amount receives, collateral := collateral c - amount pays, co_call_price := cp\<rparr>" "freed = None"
      using e cp by auto
    ultimately show ?thesis using open_still by blast
  qed
qed

lemma reduce_position_effect:
  assumes "reduce_position L mcr mt pays receives c = Some (c', freed)" "collateral_type c = asset_id pays"
  shows "call_of b c' + (case freed of None \<Rightarrow> 0 | Some f \<Rightarrow> of_asset b f) = call_of b c - of_asset b pays"
    "freed \<noteq> None \<Longrightarrow> call_of b c' = 0" "debt_type c' = debt_type c"
  using assms(2) by (cases rule: reduce_position_cases [OF assms(1)]; simp add: call_of_def of_asset_def collateral_type_def debt_type_def)+

lemma release_call_effect:
  assumes wf: "db_wf d" and run: "release_call_collateral L who pays freed d = Some d'"
  shows "db_wf d'" "fee_frame d d'" "gap b d' = gap b d" "call_orders d' = call_orders d"
proof -
  have "db_wf d' \<and> fee_frame d d' \<and> gap b d' = gap b d \<and> call_orders d' = call_orders d"
  proof (cases "asset_id pays = 0")
    case True
    then obtain k s t where f: "find_stats_by_owner d who = Some (k, s)"
      and d': "d' = d\<lparr>account_statistics := tbl_modify k (\<lambda>s. s\<lparr>total_core_in_orders := t\<rparr>) (account_statistics d)\<rparr>"
      using run by (auto simp: release_call_collateral_def opt_bind)
    have s: "tbl_get k (account_statistics d) = Some s"
      using tbl_find_SomeD [OF db_wf_tables(2) [OF wf]] f by (auto simp: find_stats_by_owner_def)
    have "fee_frame d d'" using s by (auto simp: d' fee_frame_def tbl.get_modify)
    then show ?thesis using wf s by (simp add: d' db_wf_upd db_wf_tables tbl_wf_ops gap_upd tbl_sum_modify pending_of_def)
  qed (use run wf in \<open>simp add: release_call_collateral_def\<close>)
  then show "db_wf d'" "fee_frame d d'" "gap b d' = gap b d" "call_orders d' = call_orders d" by auto
qed

lemma burn_supply_effect:
  assumes wf: "db_wf d" and run: "burn_supply L x d = Some d'"
  shows "db_wf d'" "market_frame d d'" "gap b d' = gap b d + of_asset b x" "limit_orders d' = limit_orders d" "call_orders d' = call_orders d"
    "bitassets d' = bitassets d" "supply_of b d' = supply_of b d - of_asset b x"
proof -
  obtain k dd where dd: "get_dynamic_data d (asset_id x) = Some (k, dd)"
    and d': "d' = d\<lparr>asset_dynamic_data := tbl_modify k (\<lambda>a. a\<lparr>current_supply := current_supply dd - amount x\<rparr>) (asset_dynamic_data d)\<rparr>"
    using run by (auto simp: burn_supply_def opt_bind safe_Some)
  note u = dynamic_data_update [OF wf dd, where f = "\<lambda>a. a\<lparr>current_supply := current_supply dd - amount x\<rparr>", folded d']
  show "db_wf d'" by (rule u(1))
  show "gap b d' = gap b d + of_asset b x" using u(2) [of b] by (simp add: of_asset_def)
  show "market_frame d d'" "limit_orders d' = limit_orders d" "call_orders d' = call_orders d" "bitassets d' = bitassets d" by (simp_all add: d')
  show "supply_of b d' = supply_of b d - of_asset b x" using u(3) u(4) [of b] dd by (cases "b = asset_id x") (simp_all add: supply_of_def of_asset_def)
qed

lemma fill_call_order_effect:
  assumes wf: "db_wf d" and run: "fill_call_order L i pays receives d = Some (r, d')"
  shows "db_wf d'" "market_frame d d'" "gap b d' = gap b d + of_asset b receives - of_asset b pays" "limit_orders d' = limit_orders d"
    "bitassets d' = bitassets d" "supply_of b d' = supply_of b d - of_asset b receives"
    "\<exists>c'. tbl_get i (call_orders d) \<noteq> None \<and>
      tbl_get j (call_orders d') = (if j = i then (if r then None else Some c') else tbl_get j (call_orders d)) \<and>
      (\<forall>c. tbl_get i (call_orders d) = Some c \<longrightarrow> debt_type c' = debt_type c \<and> debt_type c = asset_id receives)"
proof -
  obtain c mcr c' freed d2 d3 d4 where c: "tbl_get i (call_orders d) = Some c" and ct: "collateral_type c = asset_id pays" "debt_type c = asset_id receives"
    and rp: "reduce_position L mcr (next_maintenance_time d) pays receives c = Some (c', freed)"
    and d2: "burn_supply L receives (d\<lparr>call_orders := tbl_modify i (\<lambda>_. c') (call_orders d)\<rparr>) = Some d2"
    and d3: "(case freed of None \<Rightarrow> Some d2 | Some f \<Rightarrow> adjust_balance L (borrower c) f d2) = Some d3"
    and d4: "release_call_collateral L (borrower c) pays freed d3 = Some d4"
    and d': "(if freed \<noteq> None then Some (True, d4\<lparr>call_orders := tbl_remove i (call_orders d4)\<rparr>) else Some (False, d4)) = Some (r, d')"
    using run unfolding fill_call_order_def by (auto simp: opt_bind Let_def simp del: not_None_eq split del: if_split)
  let ?d1 = "d\<lparr>call_orders := tbl_modify i (\<lambda>_. c') (call_orders d)\<rparr>"
  note rc = reduce_position_effect [OF rp ct(1)]
  have wf1: "db_wf ?d1" using wf by (simp add: db_wf_upd db_wf_tables tbl_wf_ops)
  have g1: "gap b ?d1 = gap b d - call_of b c + call_of b c'" for b using wf c by (simp add: gap_upd tbl_sum_modify db_wf_tables)
  note e2 = burn_supply_effect [OF wf1 d2]
  have e3: "db_wf d3 \<and> trade_frame d2 d3 \<and> gap b d3 = gap b d2 + (case freed of None \<Rightarrow> 0 | Some f \<Rightarrow> of_asset b f) \<and>
      limit_orders d3 = limit_orders d2" for b
  proof (cases freed)
    case (Some f)
    then have a: "adjust_balance L (borrower c) f d2 = Some d3" using d3 by simp
    show ?thesis using adjust_balance_effect(1) [OF e2(1) a] adjust_balance_effect(2) [OF e2(1) a, of b] adjust_balance_trade [OF a]
        adjust_balance_keeps(7) [OF a] Some by simp
  qed (use d3 e2(1) in simp)
  note e4 = release_call_effect [OF e3 [THEN conjunct1] d4]
  have t4: "trade_frame d2 d4" using e3 fee_frame_trade [OF e4(2)] trade_frame_trans by blast
  have k4: "call_orders d4 = tbl_modify i (\<lambda>_. c') (call_orders d)" "bitassets d4 = bitassets d"
    "supply_of b d4 = supply_of b d - of_asset b receives" "market_frame d d4" "limit_orders d4 = limit_orders d" for b
    using trade_frame_keeps(5,6) [OF t4] trade_frame_keeps(12) [OF t4, of b] e2(2,4,5,6) e2(7) [of b] trade_frame_market [OF t4]
      fee_frame_keeps(10) [OF e4(2)] e3 by (simp_all add: supply_of_def get_dynamic_data_def market_frame_def)
  have g4: "gap b d4 = gap b d + of_asset b receives - of_asset b pays" for b
    using e4(3) [of b] e3 [of b] e2(3) [of b] g1 [of b] rc(1) [of b] by simp
  have c4: "tbl_get i (call_orders d4) = Some c'" using c by (simp add: k4(1) tbl.get_modify)
  define d5 where "d5 = d4\<lparr>call_orders := tbl_remove i (call_orders d4)\<rparr>"
  have e5: "db_wf d5" "market_frame d d5" "limit_orders d5 = limit_orders d" "bitassets d5 = bitassets d" "supply_of b d5 = supply_of b d4" for b
    using e4(1) k4(2,4,5) by (simp_all add: d5_def db_wf_upd db_wf_tables tbl_wf_ops market_frame_def supply_of_def get_dynamic_data_def)
  have g5: "gap b d5 = gap b d4" if "freed \<noteq> None" for b
    using tbl_sum_remove [OF db_wf_tables(14) [OF e4(1)] c4, of "call_of b"] rc(2) [OF that, of b] by (simp add: d5_def gap_upd)
  have cases: "d' = (if r then d5 else d4)" "r \<longleftrightarrow> freed \<noteq> None" using d' by (auto simp: d5_def split: if_splits)
  show "db_wf d'" "market_frame d d'" "gap b d' = gap b d + of_asset b receives - of_asset b pays" "limit_orders d' = limit_orders d"
    "bitassets d' = bitassets d" "supply_of b d' = supply_of b d - of_asset b receives"
    using cases e4(1) e5 k4 g4 [of b] g5 [of b] by (auto split: if_splits)
  have "tbl_get j (call_orders d') = (if j = i then (if r then None else Some c') else tbl_get j (call_orders d))"
    using cases(1) c4 db_wf_tables(14) [OF e4(1)] by (auto simp: d5_def k4(1) tbl.get_modify tbl.get_remove)
  then show "\<exists>c'. tbl_get i (call_orders d) \<noteq> None \<and>
      tbl_get j (call_orders d') = (if j = i then (if r then None else Some c') else tbl_get j (call_orders d)) \<and>
      (\<forall>c. tbl_get i (call_orders d) = Some c \<longrightarrow> debt_type c' = debt_type c \<and> debt_type c = asset_id receives)"
    using c rc(3) ct(2) by auto
qed

end

text \<open>What every trade keeps: the tables are well formed, the market fees and the deferred fees are not negative, an asset
  that was not settled globally has no settlement fund, and the supply of every asset is what the accounts, orders, positions and pools hold.\<close>

definition funds_ok :: "database \<Rightarrow> bool" where
  "funds_ok d \<longleftrightarrow> (\<forall>k b. tbl_get k (bitassets d) = Some b \<longrightarrow> \<not> has_settlement b \<longrightarrow> settlement_fund b = 0)"

definition market_inv :: "database \<Rightarrow> bool" where
  "market_inv d \<longleftrightarrow> db_wf d \<and> market_fees_ok d \<and> order_fees_nonneg d \<and> funds_ok d"

definition market_step :: "database \<Rightarrow> database \<Rightarrow> bool" where
  "market_step d d' \<longleftrightarrow> market_inv d' \<and> market_frame d d' \<and> (\<forall>b. gap b d' = gap b d)"

lemma market_step_trans [trans]: "market_step d d1 \<Longrightarrow> market_step d1 d2 \<Longrightarrow> market_step d d2"
  using market_frame_trans by (simp add: market_step_def) blast

lemma market_step_inv: "market_step d d' \<Longrightarrow> market_inv d'"
  by (simp add: market_step_def)

lemma market_step_refl: "market_inv d \<Longrightarrow> market_step d d"
  by (simp add: market_step_def)

lemma market_stepI:
  assumes "market_inv d" "db_wf d'" "market_frame d d'" "bitassets d' = bitassets d" "order_fees_nonneg d'" "\<And>b. gap b d' = gap b d"
  shows "market_step d d'"
  using assms market_fees_ok_market [OF assms(3)] by (simp add: market_step_def market_inv_def funds_ok_def)

lemma trade_stepI:
  assumes "market_inv d" "db_wf d'" "trade_frame d d'" "order_fees_nonneg d'" "\<And>b. gap b d' = gap b d"
  shows "market_step d d'"
  using assms trade_frame_market [OF assms(3)] trade_frame_keeps(6) [OF assms(3)] by (intro market_stepI)

lemma market_invD: "market_inv d \<Longrightarrow> db_wf d" "market_inv d \<Longrightarrow> market_fees_ok d" "market_inv d \<Longrightarrow> order_fees_nonneg d"
  by (simp_all add: market_inv_def)

context fc_safe
begin

lemma match_limit_step:
  assumes inv: "market_inv d" and m: "tbl_get m (limit_orders d) = Some core" and run: "match_limit L t m (sell_price core) d = Some (r, d')"
  shows "market_step d d'"
  using match_limit_effect(1-4) [OF market_invD [OF inv] m run] by (intro trade_stepI [OF inv])

lemma fill_pair_step:
  assumes inv: "market_inv d" and x: "tbl_get l (limit_orders d) = Some x"
    and f1: "fill_limit_order L l crx orx cull mk d = Some (b1, d1)" and f2: "fill_call_order L i orx crx d1 = Some (b2, d')"
  shows "market_step d d'"
proof -
  have xf: "order_fees_ok x" using market_invD(3) [OF inv] x by (auto simp: order_fees_nonneg_def)
  note e1 = fill_limit_order_effect [OF market_invD(1,2) [OF inv] x xf f1] and e2 = fill_call_order_effect [OF fill_limit_order_effect(1) [OF market_invD(1,2) [OF inv] x xf f1] f2]
  have "order_fees_nonneg d'" using market_invD(3) [OF inv] e1(4) e2(4) by (auto simp: order_fees_nonneg_def order_fees_ok_def split: if_splits)
  moreover have "gap b d' = gap b d" for b using e1(3) [of b] e2(3) [of b] by simp
  moreover have "bitassets d' = bitassets d" using e2(5) trade_frame_keeps(6) [OF e1(2)] by simp
  ultimately show ?thesis using e2(1,2) trade_frame_market [OF e1(2)] market_frame_trans by (intro market_stepI [OF inv]) blast+
qed

text \<open>The same two fills in the other order.\<close>

lemma fill_pair_step':
  assumes inv: "market_inv d" and x: "tbl_get l (limit_orders d) = Some x"
    and f1: "fill_call_order L i orx crx d = Some (b1, d1)" and f2: "fill_limit_order L l crx orx cull mk d1 = Some (b2, d')"
  shows "market_step d d'"
proof -
  have xf: "order_fees_ok x" using market_invD(3) [OF inv] x by (auto simp: order_fees_nonneg_def)
  note e1 = fill_call_order_effect [OF market_invD(1) [OF inv] f1]
  have m1: "market_fees_ok d1" "tbl_get l (limit_orders d1) = Some x" using market_fees_ok_market [OF e1(2)] market_invD(2) [OF inv] e1(4) x by simp_all
  note e2 = fill_limit_order_effect [OF e1(1) m1 xf f2]
  have "order_fees_nonneg d'" using market_invD(3) [OF inv] e1(4) e2(4) by (auto simp: order_fees_nonneg_def order_fees_ok_def split: if_splits)
  moreover have "gap b d' = gap b d" for b using e1(3) [of b] e2(3) [of b] by simp
  moreover have "bitassets d' = bitassets d" using e1(5) trade_frame_keeps(6) [OF e2(2)] by simp
  ultimately show ?thesis using e2(1) e1(2) trade_frame_market [OF e2(2)] market_frame_trans by (intro market_stepI [OF inv]) blast+
qed

lemma match_call_step:
  assumes inv: "market_inv d" and run: "match_call L mp fp mcr mnt bid ask d = Some (r, d')"
  shows "market_step d d'"
proof -
  obtain b c a to_buy where b: "tbl_get bid (limit_orders d) = Some b"
    and rest: "(case a of None \<Rightarrow> Some (Suc 0, d) | Some (orx, crx, cull) \<Rightarrow> do {
         (b1, d1) \<leftarrow> fill_limit_order L bid crx orx cull False d;
         (b2, d2) \<leftarrow> fill_call_order L ask orx crx d1;
         Some ((if b1 then 1 else 0) + (if b2 then 2 else 0), d2) }) = Some (r, d')"
    using run unfolding match_call_def by (clarsimp simp: opt_bind split del: if_split)
  show ?thesis
  proof (cases a)
    case None
    then show ?thesis using rest inv by (simp add: market_step_refl)
  next
    case (Some y)
    obtain orx crx cull where y: "y = (orx, crx, cull)" by (cases y)
    obtain b1 d1 b2 where "fill_limit_order L bid crx orx cull False d = Some (b1, d1)" "fill_call_order L ask orx crx d1 = Some (b2, d')"
      using rest Some y by (auto simp: opt_bind split del: if_split)
    then show ?thesis by (rule fill_pair_step [OF inv b])
  qed
qed

end

text \<open>The prices between the lowest and the highest of a market are those of the market.\<close>

lemma price_range_ids:
  assumes "price_min a b = Some lo" "price_max a b = Some hi" "\<not> price_lt p lo" "\<not> price_lt hi p"
  shows "asset_id (base p) = a" "asset_id (quote p) = b"
  using assms by (auto simp: price_min_def price_max_def price_lt_def asset_div_def opt_bind split: if_splits)

lemma calls_in_debt_type:
  assumes "db_wf d" "price_min backing mia = Some lo" "price_max backing mia = Some hi" "i \<in> set (calls_in co_call_price lo hi d)"
    and "tbl_get i (call_orders d) = Some c"
  shows "debt_type c = mia"
proof -
  obtain c' where c': "(i, c') \<in> set (rows (call_orders d))" "\<not> price_lt (co_call_price c') lo" "\<not> price_lt hi (co_call_price c')"
    using assms(4) by (auto simp: calls_in_def set_sort_lt)
  have "c' = c" using c'(1) assms(5) db_wf_tables(14) [OF assms(1)] by (auto simp: tbl_wf_def tbl_get_def strict_sorted_iff)
  then show ?thesis using price_range_ids(2) [OF assms(2,3) c'(2,3)] by (simp add: debt_type_def)
qed

context fc_safe
begin

text \<open>Closing the positions of one asset takes its debt out of the supply and its collateral into the sum that is gathered.\<close>

lemma close_positions_effect:
  assumes "db_wf d" "close_positions L p is g d = Some (g', d')"
    and "\<forall>i c. i \<in> set is \<longrightarrow> tbl_get i (call_orders d) = Some c \<longrightarrow> debt_type c = mia"
  shows "db_wf d'" "market_frame d d'" "limit_orders d' = limit_orders d" "bitassets d' = bitassets d" "asset_id g' = asset_id g"
    "b \<noteq> mia \<Longrightarrow> supply_of b d' = supply_of b d"
    "gap b d' = gap b d + (supply_of b d - supply_of b d') - (of_asset b g' - of_asset b g)"
proof -
  have "db_wf d' \<and> market_frame d d' \<and> limit_orders d' = limit_orders d \<and> bitassets d' = bitassets d \<and> asset_id g' = asset_id g \<and>
    (b \<noteq> mia \<longrightarrow> supply_of b d' = supply_of b d) \<and> gap b d' = gap b d + (supply_of b d - supply_of b d') - (of_asset b g' - of_asset b g)"
    using assms
  proof (induction "is" arbitrary: g d)
    case (Cons i "is")
    obtain c pays g1 d1 where c: "tbl_get i (call_orders d) = Some c" and g1: "asset_add L g pays = Some g1"
      and f: "fill_call_order L i pays (get_debt c) d = Some (True, d1)" and r: "close_positions L p is g1 d1 = Some (g', d')"
      using Cons.prems(2) by (clarsimp simp: opt_bind Let_def split del: if_split)
    note e = fill_call_order_effect [OF Cons.prems(1) f]
    have dt: "debt_type c = mia" using Cons.prems(3) c by auto
    have "debt_type c' = mia" if "j \<in> set is" "tbl_get j (call_orders d1) = Some c'" for j c'
      using Cons.prems(3) e(7) [of j] that by (auto split: if_splits)
    then have ih: "\<forall>j c'. j \<in> set is \<longrightarrow> tbl_get j (call_orders d1) = Some c' \<longrightarrow> debt_type c' = mia" by blast
    have ids: "asset_id g1 = asset_id g" "of_asset b g1 = of_asset b g + of_asset b pays"
      using g1 by (auto simp: asset_add_def opt_bind safe_Some of_asset_def)
    have "of_asset b (get_debt c) = (if b = mia then debt c else 0)" using dt by (simp add: get_debt_def)
    then show ?case
      using Cons.IH [OF e(1) r ih] e(2,4,5) e(3) [of b] e(6) [of b] ids market_frame_trans by auto
  qed simp
  then show "db_wf d'" "market_frame d d'" "limit_orders d' = limit_orders d" "bitassets d' = bitassets d" "asset_id g' = asset_id g"
    "b \<noteq> mia \<Longrightarrow> supply_of b d' = supply_of b d"
    "gap b d' = gap b d + (supply_of b d - supply_of b d') - (of_asset b g' - of_asset b g)" by auto
qed

lemma globally_settle_step:
  assumes inv: "market_inv d" and run: "globally_settle_asset L mia p d = Some d'"
  shows "market_step d d'" "supply_of a d' = supply_of a d"
proof -
  obtain k b j dd lo hi g d1 where kb: "get_bitasset d mia = Some (k, b)" and hs: "\<not> has_settlement b"
    and dd: "get_dynamic_data d mia = Some (j, dd)" and lo: "price_min (short_backing_asset (bda_options b)) mia = Some lo"
    and hi: "price_max (short_backing_asset (bda_options b)) mia = Some hi"
    and cl: "close_positions L p (calls_in co_call_price lo hi d) (mk_asset 0 (short_backing_asset (bda_options b))) d = Some (g, d1)"
    and ids: "mia \<noteq> asset_id g"
    and d': "d' = d1\<lparr>bitassets := tbl_modify k (\<lambda>b. b\<lparr>bda_settlement_price := mk_price (mk_asset (current_supply dd) mia) g, settlement_fund := amount g\<rparr>) (bitassets d1),
       asset_dynamic_data := tbl_modify j (\<lambda>a. a\<lparr>current_supply := current_supply dd\<rparr>) (asset_dynamic_data d1)\<rparr>"
    using run unfolding globally_settle_asset_def by (clarsimp simp: opt_bind Let_def asset_div_def)
  have wf: "db_wf d" by (rule market_invD(1) [OF inv])
  have dt: "\<forall>i c. i \<in> set (calls_in co_call_price lo hi d) \<longrightarrow> tbl_get i (call_orders d) = Some c \<longrightarrow> debt_type c = mia"
    using calls_in_debt_type [OF wf lo hi] by blast
  note e = close_positions_effect [OF wf cl dt]
  have b: "tbl_get k (bitassets d1) = Some b" using kb e(4) by (auto simp: get_bitasset_def opt_bind)
  have b0: "settlement_fund b = 0" using inv hs b e(4) by (auto simp: market_inv_def funds_ok_def)
  define f :: "asset_bitasset_data_object \<Rightarrow> asset_bitasset_data_object" where "f = (\<lambda>b. b\<lparr>bda_settlement_price := mk_price (mk_asset (current_supply dd) mia) g, settlement_fund := amount g\<rparr>)"
  define d2 where "d2 = d1\<lparr>bitassets := tbl_modify k f (bitassets d1)\<rparr>"
  have wf2: "db_wf d2" using e(1) by (simp add: d2_def db_wf_upd db_wf_tables tbl_wf_ops)
  have g2: "gap a d2 = gap a d1 + of_asset a g" for a
    using e(1) b b0 e(5) by (simp add: d2_def gap_upd tbl_sum_modify db_wf_tables fund_of_def f_def of_asset_def)
  have s2: "supply_of a d2 = supply_of a d1" for a by (simp add: d2_def supply_of_def get_dynamic_data_def)
  obtain dd2 where dd2: "get_dynamic_data d2 mia = Some (j, dd2)"
  proof -
    obtain ao where ao: "tbl_get mia (assets d) = Some ao" "dynamic_asset_data_id ao = j" using dd by (auto simp: get_dynamic_data_Some)
    then have ao2: "tbl_get mia (assets d2) = Some ao" using e(2) by (simp add: d2_def market_frame_def)
    then obtain y where "tbl_get j (asset_dynamic_data d2) = Some y" using wf2 ao(2) by (force simp: db_wf_def assets_linked_def)
    then show ?thesis using that ao2 ao(2) by (auto simp: get_dynamic_data_Some)
  qed
  have d'2: "d' = d2\<lparr>asset_dynamic_data := tbl_modify j (\<lambda>a. a\<lparr>current_supply := current_supply dd\<rparr>) (asset_dynamic_data d2)\<rparr>"
    by (simp add: d' d2_def f_def)
  note u = dynamic_data_update [OF wf2 dd2, where f = "\<lambda>a. a\<lparr>current_supply := current_supply dd\<rparr>", folded d'2]
  have "gap a d' = gap a d" for a
    using u(2) [of a] g2 [of a] e(6) [of a] e(7) [of a] s2 [of a] dd dd2 by (cases "a = mia") (simp_all add: supply_of_def of_asset_def)
  moreover have "market_frame d d'" using e(2) by (simp add: d' market_frame_def)
  moreover have "funds_ok d'"
    using inv b e(4) ids by (auto simp: d' funds_ok_def market_inv_def tbl.get_modify has_settlement_def is_null_def)
  moreover have "order_fees_nonneg d'" using market_invD(3) [OF inv] e(3) by (simp add: d' order_fees_nonneg_def)
  ultimately show "market_step d d'" using u(1) market_fees_ok_market [of d d'] market_invD(2) [OF inv] by (simp add: market_step_def market_inv_def)
  show "supply_of a d' = supply_of a d" using u(3) u(4) [of a] s2 [of a] e(6) [of a] dd by (cases "a = mia") (simp_all add: supply_of_def)
qed

lemma check_for_blackswan_step:
  assumes inv: "market_inv d" and run: "check_for_blackswan L mia en d = Some (r, d')"
  shows "market_step d d'"
proof -
  have "d' = d \<or> (\<exists>p. globally_settle_asset L mia p d = Some d')"
    using run by (auto simp: check_for_blackswan_def opt_bind Let_def split: if_splits option.splits)
  then show ?thesis using globally_settle_step(1) [OF inv] market_step_refl [OF inv] by blast
qed

lemma issue_453_step: "market_inv d \<Longrightarrow> market_step d (d\<lparr>issue_453_affected_assets := w\<rparr>)"
  by (rule market_stepI) (simp_all add: market_inv_def order_fees_nonneg_def db_wf_upd gap_upd)

lemma fill_margin_call_step:
  assumes inv: "market_inv d" and x: "tbl_get (hd limits) (limit_orders d) = Some x"
    and run: "fill_margin_call L mia b new limits calls fl x c d = Some (limits', calls', fl', d')"
  shows "market_step d d'"
proof -
  obtain a orx crx r1 d1 d2 r2 where d1: "d1 = (if a then d\<lparr>issue_453_affected_assets := List.insert (bda_asset_id b) (issue_453_affected_assets d)\<rparr> else d)"
    and f: "fill_call_order L (hd calls) orx crx d1 = Some (r1, d2)" "fill_limit_order L (hd limits) crx orx True (\<not> new) d2 = Some (r2, d')"
    using run unfolding fill_margin_call_def Let_def by (clarsimp simp: opt_bind split del: if_split)
  have s: "market_step d d1" using issue_453_step [OF inv] market_step_refl [OF inv] by (simp add: d1)
  have "tbl_get (hd limits) (limit_orders d1) = Some x" using x by (simp add: d1)
  then show ?thesis using market_step_trans [OF s] fill_pair_step' [OF market_step_inv [OF s] _ f] by blast
qed

lemma call_round_step:
  assumes inv: "market_inv d" and run: "call_round L mia en new limits calls fl mc d = Some r"
  shows "case r of Inl (_, d') \<Rightarrow> market_step d d' | Inr (_, _, _, d') \<Rightarrow> market_step d d'"
proof -
  obtain k b c x pr where x: "get_bitasset d mia = Some (k, b)" "tbl_get (hd calls) (call_orders d) = Some c" "tbl_get (hd limits) (limit_orders d) = Some x"
      "feed_protected b c d = Some pr"
    using run by (auto simp: call_round_def opt_bind)
  show ?thesis
  proof (cases "pr \<or> next_maintenance_time d \<le> HARDFORK_CORE_606_TIME \<and> price_gt (sell_price x) (price_invert (co_call_price c))")
    case True
    then have "r = Inl (mc, d)" using run x by (cases pr) (auto simp: call_round_def)
    then show ?thesis using inv by (simp add: market_step_refl)
  next
    case False
    then obtain due swan where ds: "asset_mul (get_debt c) (sell_price x) = Some due" "asset_gt due (get_collateral c) = Some swan"
      using run x by (auto simp: call_round_def opt_bind)
    show ?thesis
    proof (cases swan)
      case True
      then obtain d' where "r = Inl (True, d')" "globally_settle_asset L mia (settlement_price (current_feed b)) d = Some d'"
        using run x False ds by (auto simp: call_round_def opt_bind)
      then show ?thesis using globally_settle_step(1) [OF inv] by simp
    next
      case ns: False
      then obtain y where "r = Inr y" "fill_margin_call L mia b new limits calls fl x c d = Some y"
        using run x False ds by (auto simp: call_round_def opt_bind)
      then show ?thesis using fill_margin_call_step [OF inv x(3)] by (cases y) auto
    qed
  qed
qed

lemma call_loop_step:
  assumes run: "call_loop L mia en new limits calls fl mc d = Some (r, d')" and inv: "market_inv d"
  shows "market_step d d'"
proof -
  have "fc_safe L' \<longrightarrow> market_inv d \<longrightarrow> market_step d (snd y)"
    if "call_loop L' mia en new limits calls fl mc d = Some y" for L' mia en new limits calls fl mc d y
  proof (rule call_loop.raw_induct [where P = "\<lambda>L mia en new limits calls fl mc d y. fc_safe L \<longrightarrow> market_inv d \<longrightarrow> market_step d (snd y)", OF _ that])
    fix self :: "fc_lib \<Rightarrow> nat \<Rightarrow> bool \<Rightarrow> bool \<Rightarrow> nat list \<Rightarrow> nat list \<Rightarrow> bool \<Rightarrow> bool \<Rightarrow> database \<Rightarrow> (bool \<times> database) option"
    fix L mia en new limits calls fl mc d y
    assume IH: "\<And>L mia en new limits calls fl mc d y. self L mia en new limits calls fl mc d = Some y \<Longrightarrow>
        fc_safe L \<longrightarrow> market_inv d \<longrightarrow> market_step d (snd y)"
      and body: "check_for_blackswan L mia en d \<bind> (\<lambda>(swan, d1). if swan \<or> limits = [] \<or> calls = [] then Some (mc, d1)
        else call_round L mia en new limits calls fl mc d1 \<bind> (\<lambda>r. case r of Inl y \<Rightarrow> Some y
          | Inr (limits', calls', fl', d2) \<Rightarrow> self L mia en new limits' calls' fl' True d2)) = Some y"
    show "fc_safe L \<longrightarrow> market_inv d \<longrightarrow> market_step d (snd y)"
    proof (intro impI)
      assume L: "fc_safe L" and inv: "market_inv d"
      obtain swan d1 where b: "check_for_blackswan L mia en d = Some (swan, d1)" using body by (auto simp: opt_bind)
      note s1 = fc_safe.check_for_blackswan_step [OF L inv b]
      show "market_step d (snd y)"
      proof (cases "swan \<or> limits = [] \<or> calls = []")
        case True
        then show ?thesis using body b s1 by auto
      next
        case False
        then obtain r where r: "call_round L mia en new limits calls fl mc d1 = Some r" using body b by (auto simp: opt_bind)
        note s2 = fc_safe.call_round_step [OF L market_step_inv [OF s1] r]
        show ?thesis
        proof (cases r)
          case (Inl z)
          then show ?thesis using body b False r s2 market_step_trans [OF s1] by (auto simp: opt_bind)
        next
          case (Inr z)
          obtain l' c' f' d2 where z: "z = (l', c', f', d2)" by (cases z)
          have s3: "market_step d1 d2" using s2 Inr z by simp
          have "self L mia en new l' c' f' True d2 = Some y" using body b False r Inr z by simp
          then show ?thesis using IH L market_step_trans [OF s1 market_step_trans [OF s3]] market_step_inv [OF s3] by blast
        qed
      qed
    qed
  qed
  from this [OF run] show ?thesis using inv fc_safe_axioms by simp
qed

lemma check_call_orders_step:
  assumes inv: "market_inv d" and run: "check_call_orders L mia en new d = Some (r, d')"
  shows "market_step d d'"
proof -
  obtain ao where ao: "tbl_get mia (assets d) = Some ao" using run by (auto simp: check_call_orders_def opt_bind)
  show ?thesis
  proof (cases "bitasset_data_id ao = None")
    case True
    then show ?thesis using run ao inv by (auto simp: check_call_orders_def opt_bind market_step_refl)
  next
    case False
    then obtain swan d1 where b: "check_for_blackswan L mia en d = Some (swan, d1)" using run ao by (auto simp: check_call_orders_def opt_bind)
    note s1 = check_for_blackswan_step [OF inv b]
    have "d' = d1 \<or> (\<exists>limits calls. call_loop L mia en new limits calls False False d1 = Some (r, d'))"
      using run ao False b by (auto simp: check_call_orders_def opt_bind Let_def split: if_splits)
    then show ?thesis using s1 call_loop_step [OF _ market_step_inv [OF s1]] market_step_trans [OF s1] by blast
  qed
qed

lemma close_positions_gets:
  "db_wf d \<Longrightarrow> close_positions L p is g d = Some (g', d') \<Longrightarrow>
   tbl_get j (call_orders d') = (if j \<in> set is then None else tbl_get j (call_orders d))"
proof (induction "is" arbitrary: g d)
  case (Cons i "is")
  obtain c pays g1 d1 where f: "fill_call_order L i pays (get_debt c) d = Some (True, d1)" and r: "close_positions L p is g1 d1 = Some (g', d')"
    using Cons.prems(2) by (clarsimp simp: opt_bind Let_def split del: if_split)
  show ?case using Cons.IH [OF fill_call_order_effect(1) [OF Cons.prems(1) f] r] fill_call_order_effect(7) [OF Cons.prems(1) f, of j] by auto
qed simp

end

text \<open>
  What a position owes at the settlement price: its debt converted, rounded up since the hard fork 342 and down before. Of a
  position that owes more than it has, all the collateral is taken.
\<close>

definition settlement_due :: "time_point_sec \<Rightarrow> price \<Rightarrow> call_order_object \<Rightarrow> int" where
  "settlement_due maint_time p c =
     (let (num, den) = (if debt_type c = asset_id (base p) then (amount (quote p), amount (base p)) else (amount (base p), amount (quote p)))
      in if maint_time \<le> HARDFORK_CORE_342_TIME then debt c * num div den else div_up (debt c * num) den)"

definition settlement_part :: "time_point_sec \<Rightarrow> price \<Rightarrow> call_order_object \<Rightarrow> int" where
  "settlement_part maint_time p c = min (collateral c) (settlement_due maint_time p c)"

lemma settlement_pays:
  assumes p: "price_ok p" and c: "0 \<le> debt c" "debt c \<le> GRAPHENE_MAX_SHARE_SUPPLY"
    and due: "(if m \<le> HARDFORK_CORE_342_TIME then asset_mul (get_debt c) p else multiply_and_round_up (get_debt c) p) = Some due"
    and gt: "asset_gt due (get_collateral c) = Some gt"
  shows "amount (if gt then get_collateral c else due) = settlement_part m p c"
proof -
  have a: "0 \<le> amount (get_debt c)" "amount (get_debt c) \<le> GRAPHENE_MAX_SHARE_SUPPLY" using c by (simp_all add: get_debt_def)
  have id: "debt_type c = asset_id (base p) \<or> debt_type c = asset_id (quote p)"
    using due by (auto simp: asset_mul_def multiply_and_round_up_def get_debt_def split: if_splits)
  have ne: "asset_id (base p) \<noteq> asset_id (quote p)" using p by (simp add: price_ok_def)
  have "amount due = settlement_due m p c"
  proof (cases "m \<le> HARDFORK_CORE_342_TIME")
    case True
    then have "asset_mul (get_debt c) p = Some due" using due by simp
    from id mul_Some(1) [OF p a _ this] mul_Some(2) [OF p a _ this] show ?thesis
      using True ne by (auto simp: settlement_due_def get_debt_def)
  next
    case False
    then have "multiply_and_round_up (get_debt c) p = Some due" using due by simp
    from id mul_Some(3) [OF p a _ this] mul_Some(4) [OF p a _ this] show ?thesis
      using False ne by (auto simp: settlement_due_def get_debt_def)
  qed
  moreover have "gt \<longleftrightarrow> collateral c < amount due" using gt by (auto simp: asset_gt_def asset_cmp_Some get_collateral_def)
  ultimately show ?thesis by (auto simp: settlement_part_def get_collateral_def)
qed

definition debts_ok :: "database \<Rightarrow> bool" where
  "debts_ok d \<longleftrightarrow> (\<forall>i c. tbl_get i (call_orders d) = Some c \<longrightarrow> 0 \<le> debt c \<and> debt c \<le> GRAPHENE_MAX_SHARE_SUPPLY)"

context fc_safe
begin

lemma close_positions_gathers:
  assumes "price_ok p"
  shows "db_wf d \<Longrightarrow> debts_ok d \<Longrightarrow> close_positions L p is g d = Some (g', d') \<Longrightarrow>
   distinct is \<and> (\<forall>i \<in> set is. tbl_get i (call_orders d) \<noteq> None) \<and>
   amount g' = amount g + (\<Sum>i \<leftarrow> is. settlement_part (next_maintenance_time d) p (the (tbl_get i (call_orders d))))"
proof (induction "is" arbitrary: g d)
  case (Cons i "is")
  from Cons.prems(3) obtain c due gt g1 d1 where c: "tbl_get i (call_orders d) = Some c"
    and due: "(if next_maintenance_time d \<le> HARDFORK_CORE_342_TIME then asset_mul (get_debt c) p else multiply_and_round_up (get_debt c) p) = Some due"
    and gt: "asset_gt due (get_collateral c) = Some gt" and g1: "asset_add L g (if gt then get_collateral c else due) = Some g1"
    and f: "fill_call_order L i (if gt then get_collateral c else due) (get_debt c) d = Some (True, d1)"
    and r: "close_positions L p is g1 d1 = Some (g', d')"
    by (clarsimp simp: opt_bind Let_def split del: if_split)
  note e = fill_call_order_effect [OF Cons.prems(1) f]
  have get1: "tbl_get j (call_orders d1) = (if j = i then None else tbl_get j (call_orders d))" for j using e(7) [of j] by auto
  have nm: "next_maintenance_time d1 = next_maintenance_time d" using e(2) by (simp add: market_frame_def)
  have dc: "0 \<le> debt c" "debt c \<le> GRAPHENE_MAX_SHARE_SUPPLY" using Cons.prems(2) c by (auto simp: debts_ok_def)
  have d1: "debts_ok d1" using Cons.prems(2) get1 by (auto simp: debts_ok_def split: if_splits)
  note ih = Cons.IH [OF e(1) d1 r]
  have i: "i \<notin> set is" using ih get1 by fastforce
  have "amount g1 = amount g + settlement_part (next_maintenance_time d) p c"
    using g1 settlement_pays [OF assms dc due gt] by (auto simp: asset_add_def opt_bind safe_Some)
  moreover have "(\<Sum>j \<leftarrow> is. settlement_part (next_maintenance_time d1) p (the (tbl_get j (call_orders d1)))) =
      (\<Sum>j \<leftarrow> is. settlement_part (next_maintenance_time d) p (the (tbl_get j (call_orders d))))"
    using i get1 nm by (intro arg_cong [where f = sum_list] map_cong) auto
  ultimately have "amount g' = amount g + (\<Sum>j \<leftarrow> i # is. settlement_part (next_maintenance_time d) p (the (tbl_get j (call_orders d))))"
    using ih c by simp
  then show ?case using ih i c get1 by (auto split: if_splits)
qed simp

end

text \<open>The sum over the identifiers of the objects with a property.\<close>

lemma tbl_sum_selected:
  assumes wf: "tbl_wf t" and d: "distinct is" and sel: "\<And>i v. tbl_get i t = Some v \<Longrightarrow> i \<in> set is \<longleftrightarrow> P v"
    and dom: "\<forall>i \<in> set is. tbl_get i t \<noteq> None"
  shows "(\<Sum>i \<leftarrow> is. f (the (tbl_get i t))) = tbl_sum (\<lambda>v. if P v then f v else 0) t"
proof -
  have dr: "distinct (map fst (rows t))" by (rule tbl_wf_distinct [OF wf])
  have get: "tbl_get i t = Some v" if "(i, v) \<in> set (rows t)" for i v using that dr by (simp add: tbl_get_def)
  have sub: "set is \<subseteq> fst ` set (rows t)" using dom by (force simp: tbl_get_def map_of_eq_None_iff)
  have "tbl_sum (\<lambda>v. if P v then f v else 0) t = (\<Sum>r \<leftarrow> rows t. if fst r \<in> set is then f (the (tbl_get (fst r) t)) else 0)"
    unfolding tbl_sum_def using get sel by (intro arg_cong [where f = sum_list] map_cong) auto
  also have "\<dots> = (\<Sum>i \<leftarrow> map fst (rows t). if i \<in> set is then f (the (tbl_get i t)) else 0)" by (simp add: comp_def)
  also have "\<dots> = (\<Sum>i \<in> fst ` set (rows t). if i \<in> set is then f (the (tbl_get i t)) else 0)"
    using sum_list_distinct_conv_sum_set [OF dr] by simp
  also have "\<dots> = (\<Sum>i \<in> set is. f (the (tbl_get i t)))" using sub by (simp add: sum.inter_restrict [symmetric] Int_absorb1)
  also have "\<dots> = (\<Sum>i \<leftarrow> is. f (the (tbl_get i t)))" by (rule sum_list_distinct_conv_sum_set [OF d, symmetric])
  finally show ?thesis by simp
qed

text \<open>The prices of the positions are within the range of the index.\<close>

definition call_price_ok :: "call_order_object \<Rightarrow> bool" where
  "call_price_ok c \<longleftrightarrow> price_ok (co_call_price c) \<and> amount (base (co_call_price c)) \<le> GRAPHENE_MAX_SHARE_SUPPLY \<and>
     amount (quote (co_call_price c)) \<le> GRAPHENE_MAX_SHARE_SUPPLY"

lemma calls_in_all:
  assumes "db_wf d" "price_min backing mia = Some lo" "price_max backing mia = Some hi"
    and c: "tbl_get i (call_orders d) = Some c" "debt_type c = mia" "collateral_type c = backing" "call_price_ok c"
  shows "i \<in> set (calls_in co_call_price lo hi d)"
proof -
  let ?b = "amount (base (co_call_price c))" and ?q = "amount (quote (co_call_price c))"
  have bq: "0 < ?b" "0 < ?q" "?b \<le> GRAPHENE_MAX_SHARE_SUPPLY" "?q \<le> GRAPHENE_MAX_SHARE_SUPPLY" using c(4) by (auto simp: call_price_ok_def price_ok_def)
  have r: "(i, c) \<in> set (rows (call_orders d))" using c(1) by (auto simp: tbl_get_def dest: map_of_SomeD)
  have "?q \<le> GRAPHENE_MAX_SHARE_SUPPLY * ?b" "?b \<le> GRAPHENE_MAX_SHARE_SUPPLY * ?q"
    using mult_mono [of ?q GRAPHENE_MAX_SHARE_SUPPLY 1 ?b] mult_mono [of ?b GRAPHENE_MAX_SHARE_SUPPLY 1 ?q] bq by (auto simp: chain_consts)
  then have "\<not> price_lt (co_call_price c) lo" "\<not> price_lt hi (co_call_price c)"
    using assms(2,3) c(2,3) bq by (auto simp: price_min_def price_max_def asset_div_def price_lt_def debt_type_def collateral_type_def chain_consts)
  then show ?thesis using r by (force simp: calls_in_def set_sort_lt)
qed

lemma calls_in_iff:
  assumes wf: "db_wf d" and lo: "price_min backing mia = Some lo" and hi: "price_max backing mia = Some hi"
    and c: "tbl_get i (call_orders d) = Some c" "call_price_ok c"
  shows "i \<in> set (calls_in co_call_price lo hi d) \<longleftrightarrow> debt_type c = mia \<and> collateral_type c = backing"
proof
  assume "i \<in> set (calls_in co_call_price lo hi d)"
  then obtain c' where c': "(i, c') \<in> set (rows (call_orders d))" "\<not> price_lt (co_call_price c') lo" "\<not> price_lt hi (co_call_price c')"
    by (auto simp: calls_in_def set_sort_lt)
  have "c' = c" using c'(1) c(1) db_wf_tables(14) [OF wf] by (auto simp: tbl_wf_def tbl_get_def strict_sorted_iff)
  then show "debt_type c = mia \<and> collateral_type c = backing"
    using price_range_ids [OF lo hi c'(2,3)] by (simp add: debt_type_def collateral_type_def)
qed (use calls_in_all [OF wf lo hi c(1) _ _ c(2)] in blast)

section \<open>Properties\<close>

text \<open>
  (C18) A global settlement is sound: it closes every margin position of the asset and none of another market, and moves
  into the settlement fund of the asset exactly what the positions owe at the settlement price: for each position its debt
  converted at that price (rounded up since the hard fork 342), or all of its collateral if that is less. The settlement price of the asset
  is its supply divided by that fund, and the supply of every asset and the ledger are as they were. Debts are within the
  maximum supply, and the settlement price and the call prices of the positions are valid prices.
\<close>

theorem global_settlement_sound:
  assumes "fc_safe L" "market_inv d" "globally_settle_asset L mia p d = Some d'" "get_bitasset d mia = Some (k, b)"
    and "\<forall>i c. tbl_get i (call_orders d) = Some c \<longrightarrow> call_price_ok c" "price_ok p" "debts_ok d"
  shows "market_inv d' \<and> (\<forall>a. gap a d' = gap a d \<and> supply_of a d' = supply_of a d) \<and>
    (\<forall>i c. tbl_get i (call_orders d') = Some c \<longleftrightarrow>
       tbl_get i (call_orders d) = Some c \<and> \<not> (debt_type c = mia \<and> collateral_type c = short_backing_asset (bda_options b))) \<and>
    (\<exists>b'. get_bitasset d' mia = Some (k, b') \<and> has_settlement b' \<and>
       settlement_fund b' = tbl_sum (\<lambda>c. if debt_type c = mia \<and> collateral_type c = short_backing_asset (bda_options b)
         then min (collateral c) (settlement_due (next_maintenance_time d) p c) else 0) (call_orders d) \<and>
       bda_settlement_price b' = mk_price (mk_asset (supply_of mia d) mia) (mk_asset (settlement_fund b') (short_backing_asset (bda_options b))))"
proof -
  let ?B = "short_backing_asset (bda_options b)"
  have wf: "db_wf d" by (rule market_invD(1) [OF assms(2)])
  obtain j dd lo hi g d1 where dd: "get_dynamic_data d mia = Some (j, dd)" and lo: "price_min ?B mia = Some lo" and hi: "price_max ?B mia = Some hi"
    and cl: "close_positions L p (calls_in co_call_price lo hi d) (mk_asset 0 ?B) d = Some (g, d1)" and ids: "mia \<noteq> asset_id g"
    and d': "d' = d1\<lparr>bitassets := tbl_modify k (\<lambda>b. b\<lparr>bda_settlement_price := mk_price (mk_asset (current_supply dd) mia) g, settlement_fund := amount g\<rparr>) (bitassets d1),
       asset_dynamic_data := tbl_modify j (\<lambda>a. a\<lparr>current_supply := current_supply dd\<rparr>) (asset_dynamic_data d1)\<rparr>"
    using assms(3,4) unfolding globally_settle_asset_def by (clarsimp simp: opt_bind Let_def asset_div_def)
  have dt: "\<forall>i c. i \<in> set (calls_in co_call_price lo hi d) \<longrightarrow> tbl_get i (call_orders d) = Some c \<longrightarrow> debt_type c = mia"
    using calls_in_debt_type [OF wf lo hi] by blast
  note e = fc_safe.close_positions_effect [OF assms(1) wf cl dt]
  have step: "market_step d d'" by (rule fc_safe.globally_settle_step(1) [OF assms(1-3)])
  have sel: "i \<in> set (calls_in co_call_price lo hi d) \<longleftrightarrow> debt_type c = mia \<and> collateral_type c = ?B" if "tbl_get i (call_orders d) = Some c" for i c
    using calls_in_iff [OF wf lo hi that] assms(5) that by blast
  have calls: "tbl_get i (call_orders d') = Some c \<longleftrightarrow> tbl_get i (call_orders d) = Some c \<and> \<not> (debt_type c = mia \<and> collateral_type c = ?B)" for i c
    using fc_safe.close_positions_gets [OF assms(1) wf cl, of i] sel [of i c] by (auto simp: d')
  note ga = fc_safe.close_positions_gathers [OF assms(1,6) wf assms(7) cl]
  have fund: "amount g = tbl_sum (\<lambda>c. if debt_type c = mia \<and> collateral_type c = ?B
      then min (collateral c) (settlement_due (next_maintenance_time d) p c) else 0) (call_orders d)"
    using ga tbl_sum_selected [OF db_wf_tables(14) [OF wf], of "calls_in co_call_price lo hi d"
        "\<lambda>c. debt_type c = mia \<and> collateral_type c = ?B" "settlement_part (next_maintenance_time d) p", OF _ sel]
    unfolding settlement_part_def [symmetric] by simp
  have b1: "tbl_get k (bitassets d1) = Some b" using assms(4) e(4) by (auto simp: get_bitasset_def opt_bind)
  have as: "assets d' = assets d" using step by (simp add: market_step_def market_frame_def)
  have sup: "supply_of a d' = supply_of a d" for a by (rule fc_safe.globally_settle_step(2) [OF assms(1-3)])
  have "get_bitasset d' mia = Some (k, b\<lparr>bda_settlement_price := mk_price (mk_asset (current_supply dd) mia) g, settlement_fund := amount g\<rparr>)"
    using assms(4) b1 as by (auto simp: get_bitasset_def opt_bind d' tbl.get_modify)
  moreover have "g = mk_asset (amount g) ?B" using e(5) by simp
  ultimately show ?thesis
    using step calls sup ids dd fund by (auto simp: market_step_def has_settlement_def is_null_def supply_of_def)
qed

definition demo_bitasset :: asset_bitasset_data_object where
  "demo_bitasset = \<lparr>bda_asset_id = 1, bda_options = \<lparr>feed_lifetime_sec = 86400, minimum_feeds = 1, force_settlement_delay_sec = 86400,
       force_settlement_offset_percent = 100, maximum_force_settlement_volume = 2000, short_backing_asset = 0\<rparr>,
     feeds = [], current_feed = \<lparr>settlement_price = demo_feed_price, core_exchange_rate = demo_feed_price,
       maintenance_collateral_ratio = 1750, maximum_short_squeeze_ratio = 1100\<rparr>,
     current_feed_publication_time = 0, current_maintenance_collateralization = demo_maintenance, is_prediction_market = False,
     force_settled_volume = 0, bda_settlement_price = null_price, settlement_fund = 0, asset_cer_updated = False, feed_cer_updated = False\<rparr>"

definition demo_swan :: database where
  "demo_swan = demo_market\<lparr>
     assets := \<lparr>rows = [(0, demo_fee_asset\<lparr>symbol := ''META1''\<rparr>), (1, demo_fee_asset\<lparr>dynamic_asset_data_id := 1, bitasset_data_id := Some 0\<rparr>)],
       next_instance = 2\<rparr>,
     bitassets := \<lparr>rows = [(0, demo_bitasset)], next_instance = 1\<rparr>,
     call_orders := \<lparr>rows = [(0, demo_call\<lparr>debt := 2000, collateral := 3900\<rparr>), (1, demo_call\<lparr>borrower := 8, debt := 3000, collateral := 2100\<rparr>)],
       next_instance = 2\<rparr>\<rparr>"

lemma demo_swan_ok: "market_inv demo_swan" "\<forall>i c. tbl_get i (call_orders demo_swan) = Some c \<longrightarrow> call_price_ok c" "debts_ok demo_swan"
proof -
  have "orders_ok demo_swan" using demo_market_ok(3) by (simp add: demo_swan_def orders_ok_def)
  moreover have "db_wf demo_swan" "market_fees_ok demo_swan" "funds_ok demo_swan"
    by (auto simp: demo_swan_def demo_market_def demo_accounts_def demo_balances_def empty_database_def db_wf_def tbl_wf_def tbl_empty_def
      assets_linked_def tbl_get_def demo_fee_asset_def market_fees_ok_def funds_ok_def demo_bitasset_def split: if_splits)
  ultimately show "market_inv demo_swan" using order_ok_fees by (auto simp: market_inv_def orders_ok_def order_fees_nonneg_def)
  show "\<forall>i c. tbl_get i (call_orders demo_swan) = Some c \<longrightarrow> call_price_ok c"
    by (auto simp: demo_swan_def tbl_get_def demo_call_def call_price_ok_def price_ok_def chain_consts split: if_splits)
  show "debts_ok demo_swan"
    by (auto simp: demo_swan_def tbl_get_def debts_ok_def chain_consts split: if_splits)
qed

text \<open>The positions are settled at the price of the one with the least collateral, which loses all of it.\<close>

theorem global_settlement_sound_witness:
  "\<exists>d'. globally_settle_asset checked_lib 1 (mk_price (mk_asset 3000 1) (mk_asset 2100 0)) demo_swan = Some d' \<and>
     supply_of 1 d' = 5000 \<and> tbl_get 1 (call_orders d') = None \<and>
     (\<exists>b'. get_bitasset d' 1 = Some (0, b') \<and> settlement_fund b' = 3500 \<and> bda_settlement_price b' = mk_price (mk_asset 5000 1) (mk_asset 3500 0))"
proof -
  let ?p = "mk_price (mk_asset 3000 1) (mk_asset 2100 0)"
  have "globally_settle_asset checked_lib 1 ?p demo_swan \<noteq> None" by code_simp
  then obtain d' where p: "globally_settle_asset checked_lib 1 ?p demo_swan = Some d'" by blast
  have b: "get_bitasset demo_swan 1 = Some (0, demo_bitasset)" "supply_of 1 demo_swan = 5000" "short_backing_asset (bda_options demo_bitasset) = 0"
    by (simp_all add: get_bitasset_def demo_swan_def tbl_get_def supply_of_def get_dynamic_data_def demo_market_def demo_bitasset_def)
  have c: "tbl_get 1 (call_orders demo_swan) = Some (demo_call\<lparr>borrower := 8, debt := 3000, collateral := 2100\<rparr>)"
    by (simp add: demo_swan_def tbl_get_def)
  have "price_ok ?p" by (simp add: price_ok_def)
  note th = global_settlement_sound [OF checked_lib_safe demo_swan_ok(1) p b(1) demo_swan_ok(2) this demo_swan_ok(3), unfolded b(2,3)]
  have "tbl_get 1 (call_orders d') \<noteq> Some c'" for c'
    using th c by (auto simp: demo_call_def debt_type_def collateral_type_def)
  then have "tbl_get 1 (call_orders d') = None" by (cases "tbl_get 1 (call_orders d')") auto
  moreover have "supply_of 1 d' = 5000" using th b(2) by auto
  moreover have "tbl_sum (\<lambda>c. if debt_type c = 1 \<and> collateral_type c = 0
      then min (collateral c) (settlement_due (next_maintenance_time demo_swan) ?p c) else 0) (call_orders demo_swan) = 3500" by code_simp
  then have "\<exists>b'. get_bitasset d' 1 = Some (0, b') \<and> settlement_fund b' = 3500 \<and> bda_settlement_price b' = mk_price (mk_asset 5000 1) (mk_asset 3500 0)"
    using th by auto
  ultimately show ?thesis using p by blast
qed

end
