(* ===== verification/Market.thy ===== *)
theory Market
  imports Margin_Calls
begin

text \<open>
  The order book (\<^verbatim>\<open>libraries/chain/db_market.cpp\<close>): \<^verbatim>\<open>apply_order\<close>, which trades a new order against the best orders of the
  other side and, for a market-issued asset, against the margin positions that are called, and its variant for blocks before
  July 2018. The second part is the evaluators of \<^verbatim>\<open>libraries/chain/market_evaluator.cpp\<close> that create and cancel limit orders,
  with the check of the price that an order implies for META1.
\<close>

section \<open>Matching a new order\<close>

text \<open>Whether the order just before the new one in the index trades the same pair.\<close>

definition at_front :: "database \<Rightarrow> nat \<Rightarrow> limit_order_object \<Rightarrow> bool" where
  "at_front d i x =
     (let before = takeWhile (\<lambda>(j, _). j \<noteq> i) (book d)
      in before = [] \<or> \<not> (sell_asset_id (snd (last before)) = sell_asset_id x \<and> receive_asset_id (snd (last before)) = receive_asset_id x))"

text \<open>The loop over the limit orders, as long as they satisfy a condition: whether the new order is gone, and the orders that
  were not visited.\<close>

fun match_book :: "fc_lib \<Rightarrow> (price \<Rightarrow> bool) \<Rightarrow> nat \<Rightarrow> nat list \<Rightarrow> database \<Rightarrow> (bool \<times> nat list \<times> database) option" where
  "match_book L P t [] d = Some (False, [], d)"
| "match_book L P t (m # ms) d = do {
     x \<leftarrow> tbl_get m (limit_orders d);
     if \<not> P (sell_price x) then Some (False, m # ms, d)
     else do {
       (r, d') \<leftarrow> match_limit L t m (sell_price x) d;
       if r \<noteq> 2 then Some (True, ms, d') else match_book L P t ms d'
     }
   }"

text \<open>The loop over the margin calls: \<open>next\<close> selects the position to call, \<open>m\<close> matches it. It may not end, since a position with a
  target ratio is not removed by every match.\<close>

partial_function (option) match_calls ::
  "(database \<Rightarrow> nat option) \<Rightarrow> (nat \<Rightarrow> database \<Rightarrow> (nat \<times> database) option) \<Rightarrow> database \<Rightarrow> (bool \<times> database) option" where
  "match_calls next m d =
     (case next d of
        None \<Rightarrow> Some (False, d)
      | Some i \<Rightarrow> m i d \<bind> (\<lambda>(r, d'). if r = 1 \<or> r = 3 then Some (True, d') else match_calls next m d'))"

text \<open>The first position of an index of the positions, from the lowest price of the market on, if it is called.\<close>

definition next_call ::
  "(call_order_object \<Rightarrow> price) \<Rightarrow> price \<Rightarrow> price \<Rightarrow> asset_id_type \<Rightarrow> database \<Rightarrow> nat option" where
  "next_call key call_min limit sell d =
     (case first_lt (\<lambda>x y. price_lt (key x) (key y)) (filter (\<lambda>(_, c). \<not> price_lt (key c) call_min) (rows (call_orders d))) of
        None \<Rightarrow> None
      | Some (i, c) \<Rightarrow> if debt_type c \<noteq> sell \<or> price_gt (key c) limit then None else Some i)"

text \<open>The price at which a new order matches called positions, when its market is that of a market-issued asset and its
  collateral.\<close>

definition call_match_price ::
  "fc_lib \<Rightarrow> asset_object \<Rightarrow> asset_id_type \<Rightarrow> database \<Rightarrow> (price \<times> asset_bitasset_data_object) option option" where
  "call_match_price L sell_asset recv d =
     (case bitasset_data_id sell_asset of
        None \<Rightarrow> Some None
      | Some k \<Rightarrow> do {
          abd \<leftarrow> tbl_get k (bitassets d);
          if short_backing_asset (bda_options abd) = recv \<and> \<not> is_prediction_market abd \<and> \<not> has_settlement abd
             \<and> \<not> is_null (settlement_price (current_feed abd))
          then do {
            p \<leftarrow> (if next_maintenance_time d \<le> HARDFORK_CORE_1270_TIME
                 then max_short_squeeze_price_before_hf_1270 L (current_feed abd) else max_short_squeeze_price L (current_feed abd));
            Some (Some (price_invert p, abd))
          } else Some None
        })"

definition match_margin_calls ::
  "fc_lib \<Rightarrow> nat \<Rightarrow> asset_id_type \<Rightarrow> asset_id_type \<Rightarrow> price \<Rightarrow> asset_bitasset_data_object \<Rightarrow> database \<Rightarrow> (bool \<times> database) option" where
  "match_margin_calls L order_id sell recv cmp abd d = do {
     call_min \<leftarrow> price_min recv sell;
     let feed = current_feed abd;
     if next_maintenance_time d > HARDFORK_CORE_1270_TIME
     then match_calls (next_call coll_price call_min (current_maintenance_collateralization abd) sell)
            (match_call L cmp (settlement_price feed) (maintenance_collateral_ratio feed) (Some (current_maintenance_collateralization abd)) order_id) d
     else match_calls (next_call co_call_price call_min (price_invert (settlement_price feed)) sell)
            (match_call L cmp (settlement_price feed) (maintenance_collateral_ratio feed) None order_id) d
   }"

text \<open>The better limit orders and then the margin calls.\<close>

definition match_before_calls ::
  "fc_lib \<Rightarrow> nat \<Rightarrow> limit_order_object \<Rightarrow> nat list \<Rightarrow> database \<Rightarrow> (bool \<times> nat list \<times> database) option" where
  "match_before_calls L order_id x orders d = do {
     sell_asset \<leftarrow> tbl_get (sell_asset_id x) (assets d);
     cm \<leftarrow> call_match_price L sell_asset (receive_asset_id x) d;
     case cm of
       None \<Rightarrow> Some (False, orders, d)
     | Some (cmp, abd) \<Rightarrow>
         if price_le (price_invert (sell_price x)) cmp then do {
           (finished, rest, d1) \<leftarrow> match_book L (\<lambda>p. price_gt p cmp) order_id orders d;
           if finished then Some (True, rest, d1)
           else do {
             (f2, d2) \<leftarrow> match_margin_calls L order_id (sell_asset_id x) (receive_asset_id x) cmp abd d1;
             Some (f2, rest, d2)
           }
         } else Some (False, orders, d)
   }"

definition apply_order :: "fc_lib \<Rightarrow> nat \<Rightarrow> database \<Rightarrow> (bool \<times> database) option" where
  "apply_order L order_id d = do {
     x \<leftarrow> tbl_get order_id (limit_orders d);
     if \<not> at_front d order_id x then Some (False, d)
     else do {
       let max_price = price_invert (sell_price x);
       pmax \<leftarrow> price_max (asset_id (base max_price)) (asset_id (quote max_price));
       (finished, rest, d1) \<leftarrow> match_before_calls L order_id x (book_range d pmax max_price) d;
       (_, _, d2) \<leftarrow> (if finished then Some (True, rest, d1) else match_book L (\<lambda>_. True) order_id rest d1);
       case tbl_get order_id (limit_orders d2) of
         None \<Rightarrow> Some (True, d2)
       | Some _ \<Rightarrow> maybe_cull_small_order L order_id d2
     }
   }"

text \<open>The variant for blocks before the hard fork 625, which checks the margin calls before and after the order is matched.\<close>

definition apply_order_before_hardfork_625 :: "fc_lib \<Rightarrow> nat \<Rightarrow> bool \<Rightarrow> database \<Rightarrow> (bool \<times> database) option" where
  "apply_order_before_hardfork_625 L order_id allow_black_swan d = do {
     x \<leftarrow> tbl_get order_id (limit_orders d);
     let sell = asset_id (amount_for_sale x);
     r \<leftarrow> amount_to_receive x;
     let recv = asset_id r;
     (called1, d1) \<leftarrow> check_call_orders L sell allow_black_swan True d;
     (called2, d2) \<leftarrow> check_call_orders L recv allow_black_swan True d1;
     if (called1 \<or> called2) \<and> tbl_get order_id (limit_orders d2) = None then Some (True, d2)
     else do {
       x2 \<leftarrow> tbl_get order_id (limit_orders d2);
       let max_price = price_invert (sell_price x2);
       pmax \<leftarrow> price_max (asset_id (base max_price)) (asset_id (quote max_price));
       (_, _, d3) \<leftarrow> match_book L (\<lambda>_. True) order_id (book_range d2 pmax max_price) d2;
       (_, d4) \<leftarrow> check_call_orders L sell allow_black_swan False d3;
       (_, d5) \<leftarrow> check_call_orders L recv allow_black_swan False d4;
       if tbl_get order_id (limit_orders d5) = None then Some (True, d5)
       else if head_block_time d5 \<le> HARDFORK_555_TIME then Some (False, d5)
       else maybe_cull_small_order L order_id d5
     }
   }"

section \<open>The evaluators\<close>

record limit_order_create_operation =
  loc_fee :: asset
  loc_seller :: account_id_type
  amount_to_sell :: asset
  min_to_receive :: asset
  loc_expiration :: time_point_sec
  fill_or_kill :: bool

record limit_order_cancel_operation =
  lox_fee :: asset
  lox_order :: nat
  lox_fee_paying_account :: account_id_type

definition loc_validate :: "limit_order_create_operation \<Rightarrow> unit option" where
  "loc_validate op = do {
     fc_assert (asset_id (amount_to_sell op) \<noteq> asset_id (min_to_receive op));
     fc_assert (amount (loc_fee op) \<ge> 0);
     fc_assert (amount (amount_to_sell op) > 0);
     fc_assert (amount (min_to_receive op) > 0)
   }"

definition lox_validate :: "limit_order_cancel_operation \<Rightarrow> unit option" where
  "lox_validate op = fc_assert (amount (lox_fee op) \<ge> 0)"

definition loc_get_price :: "limit_order_create_operation \<Rightarrow> price option" where
  "loc_get_price op = asset_div (amount_to_sell op) (min_to_receive op)"

definition GRAPHENE_DEFAULT_PRICE_FEED_LIFETIME :: int where [chain_consts]: "GRAPHENE_DEFAULT_PRICE_FEED_LIFETIME = 60 * 60 * 24"

text \<open>The implied value of META1: \<open>x\<close> units of the other asset against \<open>m\<close> units of META1, at the published price of the other
  asset, against the valuation of the backing properties.\<close>

definition implied_price_ok :: "fc_lib \<Rightarrow> int \<Rightarrow> int \<Rightarrow> price_ratio \<Rightarrow> uint64 \<Rightarrow> asset_object \<Rightarrow> asset_object \<Rightarrow> unit option" where
  "implied_price_ok L x m usd cumulative meta1 other = do {
     sp \<leftarrow> scaled_precision (precision meta1);
     let supply = tdiv (max_supply (ao_options meta1)) sp;
     l1 \<leftarrow> safe_u128_mul L x (pr_numerator usd);
     lhs \<leftarrow> safe_u128_mul L l1 supply;
     r1 \<leftarrow> safe_u128_mul L m (pr_denominator usd);
     rhs \<leftarrow> safe_u128_mul L r1 cumulative;
     if precision meta1 \<ge> precision other then do {
       t \<leftarrow> scaled_precision (precision meta1 - precision other);
       lhs' \<leftarrow> safe_u128_mul L lhs t;
       fc_assert (lhs' \<ge> rhs)
     } else do {
       t \<leftarrow> scaled_precision (precision other - precision meta1);
       rhs' \<leftarrow> safe_u128_mul L rhs t;
       fc_assert (lhs \<ge> rhs')
     }
   }"

definition loc_check_meta1 :: "fc_lib \<Rightarrow> limit_order_create_operation \<Rightarrow> database \<Rightarrow> unit option" where
  "loc_check_meta1 L op d = do {
     meta1 \<leftarrow> tbl_get 0 (assets d);
     let selling_meta1 = (asset_id (amount_to_sell op) = 0);
     let buying_meta1 = (asset_id (min_to_receive op) = 0);
     if selling_meta1 \<or> buying_meta1 then do {
       fc_assert (selling_meta1 \<noteq> buying_meta1);
       other \<leftarrow> tbl_get (if selling_meta1 then asset_id (min_to_receive op) else asset_id (amount_to_sell op)) (assets d);
       case tbl_find (\<lambda>p. ap_symbol p = symbol other) (asset_prices d) of
         None \<Rightarrow> Some ()
       | Some (_, p) \<Rightarrow> do {
           let price_age_seconds = u32 (head_block_time d - publication_time p);
           fc_assert (price_age_seconds \<le> GRAPHENE_DEFAULT_PRICE_FEED_LIFETIME);
           (_, alo) \<leftarrow> find_limitation_by_symbol d (symbol meta1);
           let x = (if selling_meta1 then amount (min_to_receive op) else amount (amount_to_sell op));
           let m = (if selling_meta1 then amount (amount_to_sell op) else amount (min_to_receive op));
           implied_price_ok L x m (usd_price p) (cumulative_sell_limit alo) meta1 other
         }
     } else Some ()
   }"

definition loc_evaluate :: "fc_lib \<Rightarrow> limit_order_create_operation \<Rightarrow> database \<Rightarrow> unit option" where
  "loc_evaluate L op d = do {
     fc_assert (loc_expiration op \<ge> head_block_time d);
     acct \<leftarrow> tbl_get (loc_seller op) (accounts d);
     let sell = asset_id (amount_to_sell op);
     let recv = asset_id (min_to_receive op);
     sell_asset \<leftarrow> tbl_get sell (assets d);
     receive_asset \<leftarrow> tbl_get recv (assets d);
     (if whitelist_markets (ao_options sell_asset) \<noteq> [] then fc_assert (recv \<in> set (whitelist_markets (ao_options sell_asset))) else Some ());
     (if blacklist_markets (ao_options sell_asset) \<noteq> [] then fc_assert (recv \<notin> set (blacklist_markets (ao_options sell_asset))) else Some ());
     fc_assert (is_authorized_asset acct sell sell_asset);
     fc_assert (is_authorized_asset acct recv receive_asset);
     ge \<leftarrow> asset_ge (get_balance d (loc_seller op) sell) (amount_to_sell op);
     fc_assert ge;
     loc_check_meta1 L op d
   }"

definition loc_convert_fee :: "fc_lib \<Rightarrow> bool \<Rightarrow> fee_context \<Rightarrow> database \<Rightarrow> database option" where
  "loc_convert_fee L skip_fee c d =
     (if head_block_time d \<le> HARDFORK_CORE_604_TIME then convert_fee L skip_fee c d
      else if \<not> skip_fee \<and> asset_id (fee_from_account c) \<noteq> 0 then do {
        dd \<leftarrow> tbl_get (fee_asset_dyn c) (asset_dynamic_data d);
        p \<leftarrow> safe_sub L (fee_pool dd) (core_fee_paid c);
        Some (d\<lparr>asset_dynamic_data := tbl_modify (fee_asset_dyn c) (\<lambda>x. x\<lparr>fee_pool := p\<rparr>) (asset_dynamic_data d)\<rparr>)
      } else Some d)"

text \<open>The result has the members \<^verbatim>\<open>_deferred_fee\<close> and \<^verbatim>\<open>_deferred_paid_fee\<close>.\<close>

definition loc_pay_fee :: "fc_lib \<Rightarrow> bool \<Rightarrow> fee_context \<Rightarrow> database \<Rightarrow> (share_type \<times> asset \<times> database) option" where
  "loc_pay_fee L skip_fee c d =
     (if head_block_time d \<le> HARDFORK_445_TIME then do {
        d' \<leftarrow> evaluator_pay_fee L skip_fee c d;
        Some (0, mk_asset 0 0, d')
      } else
        Some (core_fee_paid c,
          if head_block_time d > HARDFORK_CORE_604_TIME \<and> asset_id (fee_from_account c) \<noteq> 0 then fee_from_account c else mk_asset 0 0, d))"

definition reserve_core_in_orders :: "fc_lib \<Rightarrow> account_id_type \<Rightarrow> asset \<Rightarrow> database \<Rightarrow> database option" where
  "reserve_core_in_orders L who x d =
     (if asset_id x = 0 then do {
        acct \<leftarrow> tbl_get who (accounts d);
        s \<leftarrow> tbl_get (statistics acct) (account_statistics d);
        t \<leftarrow> safe_add L (total_core_in_orders s) (amount x);
        Some (d\<lparr>account_statistics := tbl_modify (statistics acct) (\<lambda>s. s\<lparr>total_core_in_orders := t\<rparr>) (account_statistics d)\<rparr>)
      } else Some d)"

definition loc_apply ::
  "fc_lib \<Rightarrow> limit_order_create_operation \<Rightarrow> share_type \<Rightarrow> asset \<Rightarrow> database \<Rightarrow> (nat \<times> database) option" where
  "loc_apply L op dfee dpaid d = do {
     d1 \<leftarrow> reserve_core_in_orders L (loc_seller op) (amount_to_sell op) d;
     n \<leftarrow> asset_neg L (amount_to_sell op);
     d2 \<leftarrow> adjust_balance L (loc_seller op) n d1;
     p \<leftarrow> loc_get_price op;
     let (order_id, t) = tbl_create \<lparr>lo_expiration = loc_expiration op, seller = loc_seller op, for_sale = amount (amount_to_sell op),
       sell_price = p, deferred_fee = dfee, deferred_paid_fee = dpaid\<rparr> (limit_orders d2);
     let d3 = d2\<lparr>limit_orders := t\<rparr>;
     (filled, d4) \<leftarrow> (if next_maintenance_time d3 \<le> HARDFORK_CORE_625_TIME then apply_order_before_hardfork_625 L order_id True d3
       else apply_order L order_id d3);
     fc_assert (\<not> fill_or_kill op \<or> filled);
     Some (order_id, d4)
   }"

text \<open>\<^verbatim>\<open>evaluate\<close> and \<^verbatim>\<open>apply\<close> of the evaluator template with the fee handling of this evaluator.\<close>

definition limit_order_create ::
  "fc_lib \<Rightarrow> share_type option \<Rightarrow> bool \<Rightarrow> limit_order_create_operation \<Rightarrow> database \<Rightarrow> (nat \<times> database) option" where
  "limit_order_create L required skip_fee op d = do {
     (c, _) \<leftarrow> evaluator_evaluate required (loc_seller op) (loc_fee op) (loc_evaluate L op) d;
     d1 \<leftarrow> loc_convert_fee L skip_fee c d;
     (dfee, dpaid, d2) \<leftarrow> loc_pay_fee L skip_fee c d1;
     (i, d3) \<leftarrow> loc_apply L op dfee dpaid d2;
     n \<leftarrow> asset_neg L (fee_from_account c);
     d4 \<leftarrow> adjust_balance L (fee_payer c) n d3;
     Some (i, d4)
   }"

definition lox_evaluate :: "limit_order_cancel_operation \<Rightarrow> database \<Rightarrow> limit_order_object option" where
  "lox_evaluate op d = do {
     x \<leftarrow> tbl_get (lox_order op) (limit_orders d);
     fc_assert (seller x = lox_fee_paying_account op);
     Some x
   }"

definition lox_apply ::
  "fc_lib \<Rightarrow> limit_order_cancel_operation \<Rightarrow> limit_order_object \<Rightarrow> database \<Rightarrow> (asset \<times> database) option" where
  "lox_apply L op x d = do {
     let base_asset = asset_id (base (sell_price x));
     let quote_asset = asset_id (quote (sell_price x));
     let refunded = amount_for_sale x;
     d1 \<leftarrow> cancel_limit_order L (lox_order op) False False d;
     d2 \<leftarrow> (if next_maintenance_time d1 \<le> HARDFORK_CORE_606_TIME
       then do { (_, d') \<leftarrow> check_call_orders L base_asset True False d1; (_, d'') \<leftarrow> check_call_orders L quote_asset True False d'; Some d'' }
       else Some d1);
     Some (refunded, d2)
   }"

lemma trade_inv: "market_inv d \<Longrightarrow> db_wf d' \<Longrightarrow> trade_frame d d' \<Longrightarrow> order_fees_nonneg d' \<Longrightarrow> market_inv d'"
  using market_fees_ok_trade trade_frame_keeps(6) by (auto simp: market_inv_def funds_ok_def)

context fc_safe
begin

lemma match_book_step:
  "market_inv d \<Longrightarrow> match_book L P t ms d = Some (f, rest, d') \<Longrightarrow> market_step d d'"
proof (induction ms arbitrary: d)
  case Nil
  then show ?case by (simp add: market_step_refl)
next
  case (Cons m ms)
  obtain x where x: "tbl_get m (limit_orders d) = Some x" using Cons.prems(2) by (auto simp: opt_bind)
  show ?case
  proof (cases "P (sell_price x)")
    case False
    then show ?thesis using Cons.prems x by (simp add: market_step_refl)
  next
    case True
    then obtain r d1 where r: "match_limit L t m (sell_price x) d = Some (r, d1)"
      and n: "(if r \<noteq> 2 then Some (True, ms, d1) else match_book L P t ms d1) = Some (f, rest, d')"
      using Cons.prems(2) x by (auto simp: opt_bind split del: if_split)
    note s = match_limit_step [OF Cons.prems(1) x r]
    show ?thesis using n Cons.IH [OF market_step_inv [OF s]] market_step_trans [OF s] s by (auto split: if_splits)
  qed
qed

text \<open>A loop over margin calls keeps what every match keeps.\<close>

lemma match_calls_rel:
  assumes run: "match_calls nx m d = Some (f, d')" and inv: "market_inv d"
    and step: "\<And>i d r d'. market_inv d \<Longrightarrow> m i d = Some (r, d') \<Longrightarrow> market_step d d' \<and> R d d'"
    and refl: "\<And>d. R d d" and trans: "\<And>d d1 d2. R d d1 \<Longrightarrow> R d1 d2 \<Longrightarrow> R d d2"
  shows "market_step d d' \<and> R d d'"
proof -
  let ?Q = "\<lambda>d d'. market_step d d' \<and> R d d'"
  have "(\<forall>i d r d'. market_inv d \<longrightarrow> m i d = Some (r, d') \<longrightarrow> ?Q d d') \<longrightarrow> market_inv d \<longrightarrow> ?Q d (snd (f, d'))"
  proof (rule match_calls.raw_induct [where P = "\<lambda>nx m d y. (\<forall>i d r d'. market_inv d \<longrightarrow> m i d = Some (r, d') \<longrightarrow> ?Q d d') \<longrightarrow>
      market_inv d \<longrightarrow> ?Q d (snd y)", OF _ run])
    fix self :: "(database \<Rightarrow> nat option) \<Rightarrow> (nat \<Rightarrow> database \<Rightarrow> (nat \<times> database) option) \<Rightarrow> database \<Rightarrow> (bool \<times> database) option"
    fix nx m d y
    assume IH: "\<And>nx m d y. self nx m d = Some y \<Longrightarrow> (\<forall>i d r d'. market_inv d \<longrightarrow> m i d = Some (r, d') \<longrightarrow> ?Q d d') \<longrightarrow>
        market_inv d \<longrightarrow> ?Q d (snd y)"
      and body: "(case nx d of None \<Rightarrow> Some (False, d)
        | Some i \<Rightarrow> m i d \<bind> (\<lambda>(r, d'). if r = 1 \<or> r = 3 then Some (True, d') else self nx m d')) = Some y"
    show "(\<forall>i d r d'. market_inv d \<longrightarrow> m i d = Some (r, d') \<longrightarrow> ?Q d d') \<longrightarrow> market_inv d \<longrightarrow> ?Q d (snd y)"
    proof (intro impI)
      assume st: "\<forall>i d r d'. market_inv d \<longrightarrow> m i d = Some (r, d') \<longrightarrow> ?Q d d'" and inv: "market_inv d"
      show "?Q d (snd y)"
      proof (cases "nx d")
        case None
        then show ?thesis using body inv refl by (auto simp: market_step_refl)
      next
        case (Some i)
        then obtain r d1 where r: "m i d = Some (r, d1)" and n: "(if r = 1 \<or> r = 3 then Some (True, d1) else self nx m d1) = Some y"
          using body by (auto simp: opt_bind split del: if_split)
        have s: "market_step d d1" "R d d1" using st inv r by blast+
        show ?thesis
        proof (cases "r = 1 \<or> r = 3")
          case True
          then show ?thesis using n s by auto
        next
          case False
          then have "?Q d1 (snd y)" using n IH [of nx m d1 y] st market_step_inv [OF s(1)] by simp
          then show ?thesis using s market_step_trans trans by blast
        qed
      qed
    qed
  qed
  then show ?thesis using inv step by simp
qed

lemma match_margin_calls_step:
  assumes inv: "market_inv d" and run: "match_margin_calls L i sell recv p abd d = Some (f, d')"
  shows "market_step d d'"
proof -
  obtain nx fp mcr mnt where "match_calls nx (match_call L p fp mcr mnt i) d = Some (f, d')"
    using run by (cases "price_min recv sell"; cases "next_maintenance_time d > HARDFORK_CORE_1270_TIME") (auto simp: match_margin_calls_def Let_def)
  then show ?thesis using match_calls_rel [of nx "match_call L p fp mcr mnt i" d f d' "\<lambda>_ _. True"] inv match_call_step by blast
qed

lemma match_before_calls_step:
  assumes inv: "market_inv d" and run: "match_before_calls L i x os d = Some (f, rest, d')"
  shows "market_step d d'"
proof -
  obtain a cm where cm: "call_match_price L a (receive_asset_id x) d = Some cm" and a: "tbl_get (sell_asset_id x) (assets d) = Some a"
    using run by (auto simp: match_before_calls_def opt_bind)
  show ?thesis
  proof (cases "cm = None \<or> \<not> price_le (price_invert (sell_price x)) (fst (the cm))")
    case True
    then have "d' = d" using run cm a by (cases cm) (auto simp: match_before_calls_def)
    then show ?thesis using inv by (simp add: market_step_refl)
  next
    case False
    then obtain p abd where cm': "cm = Some (p, abd)" "price_le (price_invert (sell_price x)) p" by auto
    obtain f1 rest1 d1 where b: "match_book L (\<lambda>q. price_gt q p) i os d = Some (f1, rest1, d1)"
      and n: "(if f1 then Some (True, rest1, d1) else do {
             (f2, d2) \<leftarrow> match_margin_calls L i (sell_asset_id x) (receive_asset_id x) p abd d1;
             Some (f2, rest1, d2) }) = Some (f, rest, d')"
      using run cm a cm' by (auto simp: match_before_calls_def opt_bind split del: if_split)
    note s1 = match_book_step [OF inv b]
    have s2: "market_step d1 d2" if "match_margin_calls L i (sell_asset_id x) (receive_asset_id x) p abd d1 = Some (f2, d2)" for f2 d2
      by (rule match_margin_calls_step [OF market_step_inv [OF s1] that])
    show ?thesis using n s1 s2 market_step_trans [OF s1] by (auto simp: opt_bind split: if_splits)
  qed
qed

lemma cull_step:
  assumes inv: "market_inv d" and run: "maybe_cull_small_order L i d = Some (r, d')"
  shows "market_step d d'"
proof -
  from maybe_cull_effect [OF market_invD(1) [OF inv] run] obtain wf: "db_wf d'" and fr: "trade_frame d d'" and g: "\<And>b. gap b d' = gap b d"
    and gets: "\<And>j. tbl_get j (limit_orders d') = (if j = i \<and> r then None else tbl_get j (limit_orders d))" by metis
  have "order_fees_nonneg d'" using market_invD(3) [OF inv] gets by (auto simp: order_fees_nonneg_def split: if_splits)
  then show ?thesis using wf fr g by (intro trade_stepI [OF inv])
qed

lemma cancel_step:
  assumes inv: "market_inv d" and run: "cancel_limit_order L i cv sk d = Some d'"
  shows "market_step d d'"
proof -
  from cancel_limit_order_effect [OF market_invD(1) [OF inv] run] obtain wf: "db_wf d'" and fr: "trade_frame d d'" and g: "\<And>b. gap b d' = gap b d"
    and gets: "\<And>j. tbl_get j (limit_orders d') = (if j = i then None else tbl_get j (limit_orders d))" by metis
  have "order_fees_nonneg d'" using market_invD(3) [OF inv] gets by (auto simp: order_fees_nonneg_def split: if_splits)
  then show ?thesis using wf fr g by (intro trade_stepI [OF inv])
qed

lemma apply_order_step:
  assumes inv: "market_inv d" and run: "apply_order L i d = Some (f, d')"
  shows "market_step d d'"
proof -
  obtain x where x: "tbl_get i (limit_orders d) = Some x" using run by (auto simp: apply_order_def opt_bind)
  show ?thesis
  proof (cases "at_front d i x")
    case False
    then show ?thesis using run inv x by (simp add: apply_order_def market_step_refl)
  next
    case True
    then obtain os fin rest d1 f2 rest2 d2 where b: "match_before_calls L i x os d = Some (fin, rest, d1)"
      and m: "(if fin then Some (True, rest, d1) else match_book L (\<lambda>_. True) i rest d1) = Some (f2, rest2, d2)"
      and c: "(case tbl_get i (limit_orders d2) of None \<Rightarrow> Some (True, d2) | Some _ \<Rightarrow> maybe_cull_small_order L i d2) = Some (f, d')"
      using run x by (auto simp: apply_order_def opt_bind Let_def split del: if_split)
    note s1 = match_before_calls_step [OF inv b]
    have s2: "market_step d d2"
      using m s1 match_book_step [OF market_step_inv [OF s1]] market_step_trans [OF s1] by (auto split: if_splits)
    show ?thesis using c s2 cull_step [OF market_step_inv [OF s2]] market_step_trans [OF s2] by (auto split: option.splits)
  qed
qed

lemma apply_order_before_hardfork_625_step:
  assumes inv: "market_inv d" and run: "apply_order_before_hardfork_625 L i sw d = Some (f, d')"
  shows "market_step d d'"
proof -
  obtain a b c1 d1 c2 d2 where d1: "check_call_orders L a sw True d = Some (c1, d1)" and d2: "check_call_orders L b sw True d1 = Some (c2, d2)"
    and rest: "(if (c1 \<or> c2) \<and> tbl_get i (limit_orders d2) = None then Some (True, d2)
     else do {
       x2 \<leftarrow> tbl_get i (limit_orders d2);
       pmax \<leftarrow> price_max (asset_id (base (price_invert (sell_price x2)))) (asset_id (quote (price_invert (sell_price x2))));
       (_, _, d3) \<leftarrow> match_book L (\<lambda>_. True) i (book_range d2 pmax (price_invert (sell_price x2))) d2;
       (_, d4) \<leftarrow> check_call_orders L a sw False d3;
       (_, d5) \<leftarrow> check_call_orders L b sw False d4;
       if tbl_get i (limit_orders d5) = None then Some (True, d5)
       else if head_block_time d5 \<le> HARDFORK_555_TIME then Some (False, d5)
       else maybe_cull_small_order L i d5
     }) = Some (f, d')"
    using run unfolding apply_order_before_hardfork_625_def Let_def by (clarsimp simp: opt_bind split del: if_split)
  note s1 = check_call_orders_step [OF inv d1]
  note s2 = market_step_trans [OF s1 check_call_orders_step [OF market_step_inv [OF s1] d2]]
  show ?thesis
  proof (cases "(c1 \<or> c2) \<and> tbl_get i (limit_orders d2) = None")
    case False
    then obtain ms f3 r3 d3 c4 d4 c5 d5 where d3: "match_book L (\<lambda>_. True) i ms d2 = Some (f3, r3, d3)"
      and d4: "check_call_orders L a sw False d3 = Some (c4, d4)" and d5: "check_call_orders L b sw False d4 = Some (c5, d5)"
      and e: "d' = d5 \<or> maybe_cull_small_order L i d5 = Some (f, d')"
      using rest by (auto simp: opt_bind split: if_splits)
    note s3 = market_step_trans [OF s2 match_book_step [OF market_step_inv [OF s2] d3]]
    note s4 = market_step_trans [OF s3 check_call_orders_step [OF market_step_inv [OF s3] d4]]
    note s5 = market_step_trans [OF s4 check_call_orders_step [OF market_step_inv [OF s4] d5]]
    show ?thesis using e s5 cull_step [OF market_step_inv [OF s5]] market_step_trans [OF s5] by blast
  qed (use rest s2 in auto)
qed

end


section \<open>The ledger of the operations\<close>

lemma core_fee_nonneg:
  assumes "prepare_fee payer fee d = Some c"
  shows "0 \<le> core_fee_paid c"
proof -
  have nn: "0 \<le> amount y" if m: "asset_mul a p = Some y" for a p y
  proof -
    obtain n k :: int where n: "u128 n div k \<le> GRAPHENE_MAX_SHARE_SUPPLY" "amount y = s64 (u128 n div k)" "0 \<le> k"
      using m by (force simp: asset_mul_def Let_def opt_bind split: if_splits)
    then have "0 \<le> u128 n div k" by (cases "k = 0") (simp_all add: pos_imp_zdiv_nonneg_iff)
    then show ?thesis using n by (simp add: chain_consts)
  qed
  show ?thesis using assms nn by (auto simp: prepare_fee_def opt_bind split: if_splits)
qed

context fc_safe
begin

lemma reserve_core_effect:
  assumes wf: "db_wf d" and run: "reserve_core_in_orders L who r d = Some d'"
  shows "db_wf d'" "fee_frame d d'" "gap b d' = gap b d"
proof -
  have "db_wf d' \<and> fee_frame d d' \<and> gap b d' = gap b d"
  proof (cases "asset_id r = 0")
    case True
    then obtain k s t where s: "tbl_get k (account_statistics d) = Some s"
      and d': "d' = d\<lparr>account_statistics := tbl_modify k (\<lambda>s. s\<lparr>total_core_in_orders := t\<rparr>) (account_statistics d)\<rparr>"
      using run by (auto simp: reserve_core_in_orders_def opt_bind)
    have "fee_frame d d'" using s by (auto simp: d' fee_frame_def tbl.get_modify)
    then show ?thesis using wf s by (simp add: d' db_wf_upd db_wf_tables tbl_wf_ops gap_upd tbl_sum_modify pending_of_def)
  qed (use run wf in \<open>simp add: reserve_core_in_orders_def\<close>)
  then show "db_wf d'" "fee_frame d d'" "gap b d' = gap b d" by auto
qed

text \<open>The fee of a new order: what the account will pay is either booked or deferred to the order.\<close>

lemma loc_fee_effect:
  assumes wf: "db_wf d" and c: "prepare_fee payer fee d = Some c" and d1: "loc_convert_fee L False c d = Some d1"
    and d2: "loc_pay_fee L False c d1 = Some (dfee, dpaid, d2)"
  shows "db_wf d2" "fee_frame d d2" "0 \<le> dfee" "0 \<le> amount dpaid"
    "gap b d2 = gap b d + of_asset b fee - (if b = 0 then dfee else 0) - of_asset b dpaid"
proof -
  obtain dd where dd: "get_dynamic_data d (asset_id fee) = Some (fee_asset_dyn c, dd)" "fee_from_account c = fee" "0 \<le> amount fee"
      "asset_id fee = 0 \<longrightarrow> core_fee_paid c = amount fee"
    using prepare_fee_Some [OF c] by metis
  have "db_wf d2 \<and> fee_frame d d2 \<and> 0 \<le> dfee \<and> 0 \<le> amount dpaid \<and>
    gap b d2 = gap b d + of_asset b fee - (if b = 0 then dfee else 0) - of_asset b dpaid"
  proof (cases "head_block_time d \<le> HARDFORK_CORE_604_TIME")
    case True
    then have cv: "convert_fee L False c d = Some d1" using d1 by (simp add: loc_convert_fee_def)
    note e1 = convert_fee_effect [OF wf c cv]
    have h: "head_block_time d1 = head_block_time d" by (rule fee_frame_keeps(11) [OF e1(2)])
    show ?thesis
    proof (cases "head_block_time d \<le> HARDFORK_445_TIME")
      case True
      then have p: "evaluator_pay_fee L False c d1 = Some d2" "dfee = 0" "dpaid = mk_asset 0 0"
        using d2 h by (auto simp: loc_pay_fee_def opt_bind)
      show ?thesis using evaluator_pay_fee_effect(1,2) [OF e1(1) p(1)] evaluator_pay_fee_effect(3) [OF e1(1) p(1), of b] e1(4) [of b] fee_frame_trans [OF e1(2)] p(2,3)
        by (simp add: of_asset_def)
    next
      case False
      then have "d2 = d1" "dfee = core_fee_paid c" "dpaid = mk_asset 0 0" using d2 h True by (auto simp: loc_pay_fee_def)
      then show ?thesis using e1(1,2) e1(4) [of b] core_fee_nonneg [OF c] by (simp add: of_asset_def)
    qed
  next
    case False
    then have nh: "\<not> head_block_time d \<le> HARDFORK_445_TIME" by (simp add: chain_consts)
    show ?thesis
    proof (cases "asset_id fee = 0")
      case True
      then have "d1 = d" using d1 False dd(2) by (simp add: loc_convert_fee_def)
      then have "d2 = d" "dfee = core_fee_paid c" "dpaid = mk_asset 0 0" using d2 nh True dd(2) by (auto simp: loc_pay_fee_def)
      then show ?thesis using wf core_fee_nonneg [OF c] dd(4) True by (simp add: of_asset_def)
    next
      case nz: False
      let ?f = "\<lambda>x. x\<lparr>fee_pool := fee_pool dd - core_fee_paid c\<rparr>"
      have d1': "d1 = d\<lparr>asset_dynamic_data := tbl_modify (fee_asset_dyn c) ?f (asset_dynamic_data d)\<rparr>"
        using d1 dd False nz by (auto simp: loc_convert_fee_def opt_bind safe_Some get_dynamic_data_Some)
      note u = fee_data_update [OF wf dd(1) _ d1']
      have "d2 = d1" "dfee = core_fee_paid c" "dpaid = fee"
        using d2 nh False nz dd(2) fee_frame_keeps(11) [OF u(2)] by (auto simp: loc_pay_fee_def)
      then show ?thesis using u(1,2) u(4) [of b] core_fee_nonneg [OF c] dd(3) by simp
    qed
  qed
  then show "db_wf d2" "fee_frame d d2" "0 \<le> dfee" "0 \<le> amount dpaid"
    "gap b d2 = gap b d + of_asset b fee - (if b = 0 then dfee else 0) - of_asset b dpaid" by auto
qed

lemma loc_apply_effect:
  assumes inv: "market_inv d" and fees: "0 \<le> dfee" "0 \<le> amount dpaid"
    and run: "loc_apply L op dfee dpaid d = Some (i, d')"
  shows "market_inv d'" "market_frame d d'" "gap b d' = gap b d + (if b = 0 then dfee else 0) + of_asset b dpaid"
proof -
  obtain d1 n d2 p where d1: "reserve_core_in_orders L (loc_seller op) (amount_to_sell op) d = Some d1"
    and n: "asset_neg L (amount_to_sell op) = Some n" and d2: "adjust_balance L (loc_seller op) n d1 = Some d2" and p: "loc_get_price op = Some p"
    using run by (auto simp: loc_apply_def opt_bind)
  define x where "x = \<lparr>lo_expiration = loc_expiration op, seller = loc_seller op, for_sale = amount (amount_to_sell op),
       sell_price = p, deferred_fee = dfee, deferred_paid_fee = dpaid\<rparr>"
  define d3 where "d3 = d2\<lparr>limit_orders := snd (tbl_create x (limit_orders d2))\<rparr>"
  have i: "db_wf d" "market_fees_ok d" "order_fees_nonneg d" using inv by (auto simp: market_inv_def)
  note e1 = reserve_core_effect [OF i(1) d1] and e2 = adjust_balance_effect [OF reserve_core_effect(1) [OF i(1) d1] d2]
  have fr2: "trade_frame d d2" using trade_frame_trans [OF fee_frame_trade [OF e1(2)] adjust_balance_trade [OF d2]] .
  have fr3: "trade_frame d d3" using trade_frame_trans [OF fr2] by (simp add: d3_def)
  have lo: "limit_orders d2 = limit_orders d" using adjust_balance_keeps(7) [OF d2] fee_frame_keeps(10) [OF e1(2)] by simp
  have "order_fees_nonneg d3"
    using i(3) fees lo tbl.get_create [OF db_wf_tables(12) [OF i(1)], of _ x] by (auto simp: d3_def order_fees_nonneg_def order_fees_ok_def x_def)
  then have inv3: "market_inv d3"
    using e2(1) trade_inv [OF inv _ fr3] by (simp add: d3_def db_wf_upd db_wf_tables tbl_wf_ops)
  have "base p = amount_to_sell op" using p by (auto simp: loc_get_price_def asset_div_def)
  moreover have "of_asset b n = - of_asset b (amount_to_sell op)"
    using n by (auto simp: asset_neg_def opt_bind safe_Some of_asset_def)
  ultimately have g3: "gap b d3 = gap b d + (if b = 0 then dfee else 0) + of_asset b dpaid"
    using e1(3) [of b] e2(2) [of b] by (simp add: d3_def gap_upd order_of_def x_def of_asset_def)
  obtain f where "apply_order L (fst (tbl_create x (limit_orders d2))) d3 = Some (f, d') \<or>
      apply_order_before_hardfork_625 L (fst (tbl_create x (limit_orders d2))) True d3 = Some (f, d')"
    using run d1 n d2 p
    by (auto simp: loc_apply_def opt_bind x_def d3_def case_prod_unfold Let_def split: if_splits)
  then have s: "market_step d3 d'" using apply_order_step [OF inv3] apply_order_before_hardfork_625_step [OF inv3] by blast
  show "market_inv d'" by (rule market_step_inv [OF s])
  show "market_frame d d'" using s trade_frame_market [OF fr3] market_frame_trans by (auto simp: market_step_def)
  show "gap b d' = gap b d + (if b = 0 then dfee else 0) + of_asset b dpaid" using s g3 by (simp add: market_step_def)
qed

lemma limit_order_create_effect:
  assumes inv: "market_inv d"
    and run: "limit_order_create L required False op d = Some (i, d')"
  shows "market_step d d'"
proof -
  obtain c d1 dfee dpaid d2 d3 n where c: "prepare_fee (loc_seller op) (loc_fee op) d = Some c"
    and d1: "loc_convert_fee L False c d = Some d1" and d2: "loc_pay_fee L False c d1 = Some (dfee, dpaid, d2)"
    and d3: "loc_apply L op dfee dpaid d2 = Some (i, d3)" and n: "asset_neg L (fee_from_account c) = Some n"
    and d': "adjust_balance L (fee_payer c) n d3 = Some d'"
    using run by (auto simp: limit_order_create_def evaluator_evaluate_def opt_bind)
  have i: "db_wf d" "market_fees_ok d" "order_fees_nonneg d" using inv by (auto simp: market_inv_def)
  have fee: "fee_from_account c = loc_fee op" using prepare_fee_Some [OF c] by metis
  note e2 = loc_fee_effect [OF i(1) c d1 d2]
  have inv2: "market_inv d2" using trade_inv [OF inv e2(1) fee_frame_trade [OF e2(2)]] fee_frame_keeps(10) [OF e2(2)] i(3) by (simp add: order_fees_nonneg_def)
  note e3 = loc_apply_effect [OF inv2 e2(3,4) d3]
  have wf3: "db_wf d3" using e3(1) by (simp add: market_inv_def)
  note e4 = adjust_balance_effect [OF wf3 d']
  have "of_asset b n = - of_asset b (loc_fee op)" for b using n fee by (auto simp: asset_neg_def opt_bind safe_Some of_asset_def)
  then have "gap b d' = gap b d" for b using e2(5) [of b] e3(3) [of b] e4(2) [of b] by simp
  moreover have fr: "market_frame d d'"
    using trade_frame_market [OF fee_frame_trade [OF e2(2)]] e3(2) trade_frame_market [OF adjust_balance_trade [OF d']] market_frame_trans by blast
  moreover have "market_inv d'"
    using trade_inv [OF e3(1) e4(1) adjust_balance_trade [OF d']] market_invD(3) [OF e3(1)] adjust_balance_keeps(7) [OF d'] by (simp add: order_fees_nonneg_def)
  ultimately show ?thesis by (simp add: market_step_def)
qed

lemma lox_apply_effect:
  assumes inv: "market_inv d" and run: "lox_apply L op x d = Some (r, d')"
  shows "market_step d d'"
proof -
  obtain d1 where d1: "cancel_limit_order L (lox_order op) False False d = Some d1"
    and e: "d' = d1 \<or> (\<exists>a b c1 c2 d2. check_call_orders L a True False d1 = Some (c1, d2) \<and> check_call_orders L b True False d2 = Some (c2, d'))"
    using run by (auto simp: lox_apply_def opt_bind Let_def split: if_splits) blast
  note s1 = cancel_step [OF inv d1]
  show ?thesis
    using e s1 check_call_orders_step market_step_trans market_step_inv by metis
qed

end

section \<open>The order of the book\<close>

text \<open>Sorting by a relation that agrees with a key, highest key first: by key, then by identifier.\<close>

lemma insert_lt_desc:
  fixes k :: "'o \<Rightarrow> 'k :: linorder"
  assumes "sorted_wrt (\<lambda>(i, x) (j, y). k y < k x \<or> k x = k y \<and> i < j) ss" "\<forall>(i, x) \<in> set ss. fst r < i \<and> (lt x (snd r) \<longleftrightarrow> k (snd r) < k x)"
  shows "sorted_wrt (\<lambda>(i, x) (j, y). k y < k x \<or> k x = k y \<and> i < j) (insert_lt lt r ss)"
  using assms
proof (induction ss)
  case (Cons s ss)
  show ?case
  proof (cases "lt (snd s) (snd r)")
    case True
    then have "k (snd r) < k (snd s)" using Cons.prems(2) by auto
    then show ?thesis using True Cons by (auto simp: set_insert_lt)
  next
    case False
    then have "k (snd s) \<le> k (snd r)" "fst r < fst s" using Cons.prems(2) by (auto simp: case_prod_unfold not_less)
    then show ?thesis using False Cons.prems by (fastforce simp: case_prod_unfold)
  qed
qed simp

lemma sort_lt_desc:
  fixes k :: "'o \<Rightarrow> 'k :: linorder"
  assumes "sorted_wrt (<) (map fst rs)" "\<And>x y. x \<in> snd ` set rs \<Longrightarrow> y \<in> snd ` set rs \<Longrightarrow> lt x y \<longleftrightarrow> k y < k x"
  shows "sorted_wrt (\<lambda>(i, x) (j, y). k y < k x \<or> k x = k y \<and> i < j) (sort_lt lt rs)"
  using assms
proof (induction rs)
  case (Cons r rs)
  have "sorted_wrt (\<lambda>(i, x) (j, y). k y < k x \<or> k x = k y \<and> i < j) (sort_lt lt rs)" using Cons by auto
  moreover have "fst r < i \<and> (lt x (snd r) \<longleftrightarrow> k (snd r) < k x)" if m: "(i, x) \<in> set rs" for i x
    using Cons.prems(1) Cons.prems(2) [of x "snd r"] m image_eqI [OF _ m, of x snd] by (cases r) auto
  then have "\<forall>(i, x) \<in> set (sort_lt lt rs). fst r < i \<and> (lt x (snd r) \<longleftrightarrow> k (snd r) < k x)" by (auto simp: set_sort_lt)
  ultimately show ?case using insert_lt_desc [of k "sort_lt lt rs" r lt] by (simp add: sort_lt_def)
qed (simp add: sort_lt_def)

lemma rows_order_ok:
  assumes "db_wf d" "orders_ok d" "x \<in> snd ` set (rows (limit_orders d))"
  shows "order_ok x"
proof -
  obtain i where "(i, x) \<in> set (rows (limit_orders d))" using assms(3) by auto
  then have "tbl_get i (limit_orders d) = Some x"
    using db_wf_tables(12) [OF assms(1)] by (auto simp: tbl_wf_def tbl_get_def strict_sorted_iff distinct_map)
  then show ?thesis using assms(2) by (auto simp: orders_ok_def)
qed

text \<open>The book lists the orders of the table, the highest price first, and orders of the same price in the order in which they were created.\<close>

lemma book_sorted:
  assumes "db_wf d" "orders_ok d"
  shows "sorted_wrt (\<lambda>(i, x) (j, y). price_key (sell_price y) < price_key (sell_price x) \<or>
    price_key (sell_price x) = price_key (sell_price y) \<and> i < j) (book d)"
proof -
  have "price_ok (sell_price x)" if "x \<in> snd ` set (rows (limit_orders d))" for x
    using rows_order_ok [OF assms that] by (simp add: order_ok_def)
  then show ?thesis
    unfolding book_def using db_wf_tables(12) [OF assms(1)]
    by (intro sort_lt_desc) (auto simp: tbl_wf_def price_gt_def price_lt_iff_key)
qed

text \<open>In a list that is sorted by a strict order, what comes before an element of a prefix is in the prefix without its last element.\<close>

lemma sorted_keys_distinct:
  assumes "sorted_wrt R bs" "\<And>p. \<not> R p p" "inj_on fst (set bs)"
  shows "distinct (map fst bs)"
proof -
  have "distinct bs" using assms(1,2) by (induction bs) auto
  then show ?thesis using assms(3) by (simp add: distinct_map)
qed

lemma before_in_prefix:
  assumes srt: "sorted_wrt R bs" and ps: "map fst bs = ps @ qs" and i: "p \<in> set bs" and j: "q \<in> set bs" "fst q \<in> set ps"
    and d: "distinct (map fst bs)" "fst p \<noteq> fst q" "\<not> R q p"
  shows "fst p \<in> set (butlast ps)"
proof -
  obtain n where n: "n < length ps" "ps ! n = fst q" using j(2) by (auto simp: in_set_conv_nth)
  obtain a where a: "a < length bs" "bs ! a = p" using i by (auto simp: in_set_conv_nth)
  obtain b where b: "b < length bs" "bs ! b = q" using j(1) by (auto simp: in_set_conv_nth)
  have len: "length ps \<le> length bs" using arg_cong [OF ps, of length] by simp
  have nth: "fst (bs ! k) = ps ! k" if "k < length ps" for k
  proof -
    have "map fst bs ! k = ps ! k" unfolding ps using that by (simp add: nth_append)
    then show ?thesis using that len by simp
  qed
  have nl: "n < length bs" using n(1) len by simp
  then have "map fst bs ! b = map fst bs ! n" using n b nth [OF n(1)] by simp
  then have "b = n" using nth_eq_iff_index_eq [OF d(1), of b n] b(1) nl by simp
  moreover have "\<not> b < a" using sorted_wrt_nth_less [OF srt, of b a] a b d(3) by auto
  moreover have "a \<noteq> b" using a(2) b(2) d(2) by auto
  ultimately have "a < n" by simp
  then have "a < length (butlast ps)" "butlast ps ! a = fst p" using n(1) nth [of a] a(2) by (auto simp: nth_butlast)
  then show ?thesis by (metis nth_mem)
qed

lemma book_range_spec:
  assumes wf: "db_wf d" and ok: "orders_ok d"
  obtains bs where "book_range d pmax lo = map fst bs" "distinct (map fst bs)"
    "sorted_wrt (\<lambda>(i, x) (j, y). price_key (sell_price y) < price_key (sell_price x) \<or>
       price_key (sell_price x) = price_key (sell_price y) \<and> i < j) bs"
    "\<And>k z. (k, z) \<in> set bs \<longleftrightarrow> tbl_get k (limit_orders d) = Some z \<and> \<not> price_gt (sell_price z) pmax \<and> \<not> price_lt (sell_price z) lo"
proof -
  define bs where "bs = filter (\<lambda>(_, z). \<not> price_gt (sell_price z) pmax \<and> \<not> price_lt (sell_price z) lo) (book d)"
  have "(k, z) \<in> set (book d) \<longleftrightarrow> tbl_get k (limit_orders d) = Some z" for k z
    using db_wf_tables(12) [OF wf] by (auto simp: book_def set_sort_lt tbl_wf_def tbl_get_def strict_sorted_iff dest: map_of_SomeD)
  then have mem: "(k, z) \<in> set bs \<longleftrightarrow> tbl_get k (limit_orders d) = Some z \<and> \<not> price_gt (sell_price z) pmax \<and> \<not> price_lt (sell_price z) lo" for k z
    by (auto simp: bs_def)
  have srt: "sorted_wrt (\<lambda>(i, x) (j, y). price_key (sell_price y) < price_key (sell_price x) \<or>
      price_key (sell_price x) = price_key (sell_price y) \<and> i < j) bs"
    unfolding bs_def by (rule sorted_wrt_filter [OF book_sorted [OF wf ok]])
  have "inj_on fst (set bs)" using mem by (auto simp: inj_on_def)
  then have "distinct (map fst bs)" using sorted_keys_distinct [OF srt] by auto
  then show ?thesis using that srt mem by (auto simp: book_range_def bs_def)
qed

section \<open>The order in which orders are matched\<close>

text \<open>
  What the loops do to the orders of the list \<open>ms\<close>: the visited ones, a prefix of the list, are gone, the last one possibly
  excepted, and the others, the new order \<open>t\<close> excepted, are untouched.
\<close>

definition only_touches :: "nat \<Rightarrow> nat list \<Rightarrow> database \<Rightarrow> database \<Rightarrow> bool" where
  "only_touches t ps d d' \<longleftrightarrow> (\<forall>j. j \<noteq> t \<longrightarrow> j \<notin> set ps \<longrightarrow> tbl_get j (limit_orders d') = tbl_get j (limit_orders d))"

definition all_gone :: "nat list \<Rightarrow> database \<Rightarrow> bool" where
  "all_gone ps d \<longleftrightarrow> (\<forall>m \<in> set ps. tbl_get m (limit_orders d) = None)"

definition in_turn :: "nat \<Rightarrow> nat list \<Rightarrow> database \<Rightarrow> database \<Rightarrow> bool" where
  "in_turn t ms d d' \<longleftrightarrow> (\<exists>ps qs. ms = ps @ qs \<and> all_gone (butlast ps) d' \<and> only_touches t ps d d')"

definition used_up :: "nat \<Rightarrow> nat list \<Rightarrow> nat list \<Rightarrow> database \<Rightarrow> database \<Rightarrow> bool" where
  "used_up t ms rest d d' \<longleftrightarrow> (\<exists>ps. ms = ps @ rest \<and> all_gone ps d' \<and> only_touches t ps d d')"

lemma only_touches_trans: "only_touches t ps d d1 \<Longrightarrow> only_touches t qs d1 d2 \<Longrightarrow> only_touches t (ps @ qs) d d2"
  by (simp add: only_touches_def)

lemma all_gone_later: "all_gone ps d \<Longrightarrow> only_touches t qs d d' \<Longrightarrow> t \<notin> set ps \<Longrightarrow> set ps \<inter> set qs = {} \<Longrightarrow> all_gone ps d'"
  by (fastforce simp: all_gone_def only_touches_def)

lemma used_up_refl: "used_up t ms ms d d"
  by (auto simp: used_up_def all_gone_def only_touches_def)

lemma used_up_touch: "used_up t ms rest d d1 \<Longrightarrow> only_touches t [] d1 d2 \<Longrightarrow> t \<notin> set ms \<Longrightarrow> used_up t ms rest d d2"
  unfolding used_up_def using only_touches_trans [of t _ d d1 "[]" d2] all_gone_later [of _ d1 t "[]" d2] by fastforce

lemma used_up_in_turn: "used_up t ms rest d d' \<Longrightarrow> in_turn t ms d d'"
  unfolding used_up_def in_turn_def all_gone_def by (fast dest: in_set_butlastD)

lemma used_up_then:
  assumes "used_up t ms rest d d1" "in_turn t rest d1 d2" "t \<notin> set ms" "distinct ms"
  shows "in_turn t ms d d2"
proof -
  obtain ps where ps: "ms = ps @ rest" "all_gone ps d1" "only_touches t ps d d1" using assms(1) by (auto simp: used_up_def)
  obtain ps2 qs where q: "rest = ps2 @ qs" "all_gone (butlast ps2) d2" "only_touches t ps2 d1 d2" using assms(2) by (auto simp: in_turn_def)
  have "all_gone ps d2" using all_gone_later [OF ps(2) q(3)] assms(3,4) ps(1) q(1) by auto
  then have "all_gone (butlast (ps @ ps2)) d2" using q(2) by (auto simp: butlast_append all_gone_def dest: in_set_butlastD)
  then show ?thesis unfolding in_turn_def using only_touches_trans [OF ps(3) q(3)] ps(1) q(1) by (intro exI [of _ "ps @ ps2"] exI [of _ qs]) simp
qed

lemma used_up_extend:
  assumes "all_gone [m] d1" "only_touches t [m] d d1" "used_up t ms rest d1 d2" "m \<noteq> t" "m \<notin> set ms"
  shows "used_up t (m # ms) rest d d2"
proof -
  obtain ps where ps: "ms = ps @ rest" "all_gone ps d2" "only_touches t ps d1 d2" using assms(3) by (auto simp: used_up_def)
  have "all_gone [m] d2" using all_gone_later [OF assms(1) ps(3)] assms(4,5) ps(1) by auto
  then show ?thesis unfolding used_up_def
    using only_touches_trans [OF assms(2) ps(3)] ps by (intro exI [of _ "m # ps"]) (simp add: all_gone_def)
qed

context fc_safe
begin

lemma match_limit_maker_gone:
  assumes inv: "market_inv d" and m: "tbl_get m (limit_orders d) = Some core" "m \<noteq> t"
    and run: "match_limit L t m (sell_price core) d = Some (2, d')"
  shows "all_gone [m] d'"
proof -
  obtain usd am where t: "tbl_get t (limit_orders d) = Some usd"
    and am: "match_amounts (next_maintenance_time d) (amount_for_sale usd) (amount_for_sale core) (sell_price core) = Some am"
    using run m(1) by (clarsimp simp: match_limit_def opt_bind)
  then obtain ur cr cull where a: "am = Some (ur, cr, cull)" using run m(1) by (cases am) (auto simp: match_limit_def opt_bind)
  from run t m(1) am a obtain b1 d1 b2 where f1: "fill_limit_order L t cr ur cull False d = Some (b1, d1)"
    and f2: "fill_limit_order L m ur cr True True d1 = Some (b2, d')" and b: "(if b1 then 1 else 0) + (if b2 then 2 else 0) = (2 :: nat)"
    by (clarsimp simp: match_limit_def opt_bind Let_def split del: if_split)
  have fee: "order_fees_ok usd" "order_fees_ok core" using market_invD(3) [OF inv] t m(1) by (auto simp: order_fees_nonneg_def)
  note e1 = fill_limit_order_effect [OF market_invD(1,2) [OF inv] t fee(1) f1]
  have m1: "tbl_get m (limit_orders d1) = Some core" using e1(4) [of m] m by simp
  have mf1: "market_fees_ok d1" using market_fees_ok_trade [OF e1(2)] market_invD(2) [OF inv] by simp
  show ?thesis
    using fill_limit_order_effect(4) [OF e1(1) mf1 m1 fee(2) f2, of m] b by (auto simp: all_gone_def split: if_splits)
qed

lemma match_limit_touches:
  assumes "market_inv d" "tbl_get m (limit_orders d) = Some core" "match_limit L t m (sell_price core) d = Some (r, d')"
  shows "only_touches t [m] d d'"
  using match_limit_effect(6) [OF market_invD [OF assms(1)] assms(2,3)] by (simp add: only_touches_def)

lemma match_book_in_turn:
  "market_inv d \<Longrightarrow> t \<notin> set ms \<Longrightarrow> distinct ms \<Longrightarrow> match_book L P t ms d = Some (f, rest, d') \<Longrightarrow>
   in_turn t ms d d' \<and> (\<not> f \<longrightarrow> used_up t ms rest d d')"
proof (induction ms arbitrary: d)
  case Nil
  then show ?case using used_up_refl [of t "[]" d] used_up_in_turn by auto
next
  case (Cons m ms)
  obtain x where x: "tbl_get m (limit_orders d) = Some x" using Cons.prems(4) by (auto simp: opt_bind)
  show ?case
  proof (cases "P (sell_price x)")
    case False
    then show ?thesis using Cons.prems(4) x used_up_refl [of t "m # ms" d] used_up_in_turn by auto
  next
    case True
    then obtain r d1 where r: "match_limit L t m (sell_price x) d = Some (r, d1)"
      and n: "(if r \<noteq> 2 then Some (True, ms, d1) else match_book L P t ms d1) = Some (f, rest, d')"
      using Cons.prems(4) x by (auto simp: opt_bind split del: if_split)
    note touch = match_limit_touches [OF Cons.prems(1) x r]
    show ?thesis
    proof (cases "r = 2")
      case two: True
      then have gone: "all_gone [m] d1" using match_limit_maker_gone [OF Cons.prems(1) x _ r [unfolded two]] Cons.prems(2) by simp
      have u: "used_up t (m # ms) ms d d1" using gone touch by (auto simp: used_up_def)
      have b: "match_book L P t ms d1 = Some (f, rest, d')" using n two by simp
      note ih = Cons.IH [OF market_step_inv [OF match_limit_step [OF Cons.prems(1) x r]] _ _ b]
      show ?thesis
        using ih Cons.prems(2,3) used_up_then [OF u] used_up_extend [OF gone touch, of ms rest d'] by auto
    next
      case False
      then have "f" "d' = d1" using n by auto
      moreover have "m # ms = [m] @ ms" "all_gone (butlast [m]) d1" by (simp_all add: all_gone_def)
      ultimately show ?thesis unfolding in_turn_def using touch by blast
    qed
  qed
qed

lemma match_call_touches:
  assumes inv: "market_inv d" and run: "match_call L mp fp mcr mnt bid ask d = Some (r, d')"
  shows "only_touches bid [] d d'"
proof -
  obtain b a where b: "tbl_get bid (limit_orders d) = Some b"
    and rest: "(case a of None \<Rightarrow> Some (Suc 0, d) | Some (orx, crx, cull) \<Rightarrow> do {
         (b1, d1) \<leftarrow> fill_limit_order L bid crx orx cull False d;
         (b2, d2) \<leftarrow> fill_call_order L ask orx crx d1;
         Some ((if b1 then 1 else 0) + (if b2 then 2 else 0), d2) }) = Some (r, d')"
    using run unfolding match_call_def by (clarsimp simp: opt_bind split del: if_split)
  show ?thesis
  proof (cases a)
    case None
    then show ?thesis using rest by (simp add: only_touches_def)
  next
    case (Some y)
    obtain orx crx cull where y: "y = (orx, crx, cull)" by (cases y)
    obtain b1 d1 b2 where f: "fill_limit_order L bid crx orx cull False d = Some (b1, d1)" "fill_call_order L ask orx crx d1 = Some (b2, d')"
      using rest Some y by (auto simp: opt_bind split del: if_split)
    have "order_fees_ok b" using market_invD(3) [OF inv] b by (auto simp: order_fees_nonneg_def)
    note e = fill_limit_order_effect [OF market_invD(1,2) [OF inv] b this f(1)]
    show ?thesis using e(4) fill_call_order_effect(4) [OF e(1) f(2)] by (simp add: only_touches_def)
  qed
qed

lemma match_margin_calls_touches:
  assumes inv: "market_inv d" and run: "match_margin_calls L i sell recv p abd d = Some (f, d')"
  shows "only_touches i [] d d'"
proof -
  obtain nx fp mcr mnt where "match_calls nx (match_call L p fp mcr mnt i) d = Some (f, d')"
    using run by (cases "price_min recv sell"; cases "next_maintenance_time d > HARDFORK_CORE_1270_TIME") (auto simp: match_margin_calls_def Let_def)
  then have "market_step d d' \<and> only_touches i [] d d'" using inv
    by (rule match_calls_rel) (use match_call_step match_call_touches in \<open>auto simp: only_touches_def\<close>)
  then show ?thesis ..
qed

lemma match_before_calls_in_turn:
  assumes inv: "market_inv d" and ms: "i \<notin> set os" "distinct os" and run: "match_before_calls L i x os d = Some (f, rest, d')"
  shows "in_turn i os d d' \<and> (\<not> f \<longrightarrow> used_up i os rest d d')"
proof -
  obtain a cm where cm: "call_match_price L a (receive_asset_id x) d = Some cm" and a: "tbl_get (sell_asset_id x) (assets d) = Some a"
    using run by (auto simp: match_before_calls_def opt_bind)
  show ?thesis
  proof (cases "cm = None \<or> \<not> price_le (price_invert (sell_price x)) (fst (the cm))")
    case True
    then have "d' = d" "rest = os" using run cm a by (cases cm; auto simp: match_before_calls_def)+
    then show ?thesis using used_up_refl used_up_in_turn by blast
  next
    case False
    then obtain p abd where cm': "cm = Some (p, abd)" "price_le (price_invert (sell_price x)) p" by auto
    obtain f1 rest1 d1 where b: "match_book L (\<lambda>q. price_gt q p) i os d = Some (f1, rest1, d1)"
      and n: "(if f1 then Some (True, rest1, d1) else do {
             (f2, d2) \<leftarrow> match_margin_calls L i (sell_asset_id x) (receive_asset_id x) p abd d1;
             Some (f2, rest1, d2) }) = Some (f, rest, d')"
      using run cm a cm' by (auto simp: match_before_calls_def opt_bind split del: if_split)
    note t1 = match_book_in_turn [OF inv ms b]
    show ?thesis
    proof (cases f1)
      case True
      then show ?thesis using n t1 by auto
    next
      case nf: False
      then have m: "match_margin_calls L i (sell_asset_id x) (receive_asset_id x) p abd d1 = Some (f, d')" "rest = rest1"
        using n by (auto simp: opt_bind)
      have "used_up i os rest d d'"
        using t1 nf m(2) used_up_touch [OF _ match_margin_calls_touches [OF market_step_inv [OF match_book_step [OF inv b]] m(1)] ms(1)] by simp
      then show ?thesis using used_up_in_turn by blast
    qed
  qed
qed

lemma apply_order_in_turn:
  assumes inv: "market_inv d" and x: "tbl_get t (limit_orders d) = Some x" and run: "apply_order L t d = Some (f, d')"
    and pm: "price_max (receive_asset_id x) (sell_asset_id x) = Some pmax"
    and ms: "t \<notin> set (book_range d pmax (price_invert (sell_price x)))" "distinct (book_range d pmax (price_invert (sell_price x)))"
  shows "in_turn t (book_range d pmax (price_invert (sell_price x))) d d'"
proof (cases "at_front d t x")
  case False
  then have "d' = d" using run x by (simp add: apply_order_def)
  then show ?thesis using used_up_in_turn [OF used_up_refl] by simp
next
  case True
  let ?ms = "book_range d pmax (price_invert (sell_price x))"
  obtain fin rest d1 f2 rest2 d2 where b: "match_before_calls L t x ?ms d = Some (fin, rest, d1)"
    and m: "(if fin then Some (True, rest, d1) else match_book L (\<lambda>_. True) t rest d1) = Some (f2, rest2, d2)"
    and c: "(case tbl_get t (limit_orders d2) of None \<Rightarrow> Some (True, d2) | Some _ \<Rightarrow> maybe_cull_small_order L t d2) = Some (f, d')"
    using run x True pm by (auto simp: apply_order_def opt_bind Let_def receive_asset_id_def sell_asset_id_def split del: if_split)
  note s1 = match_before_calls_step [OF inv b]
  note t1 = match_before_calls_in_turn [OF inv ms b]
  have t2: "in_turn t ?ms d d2 \<and> db_wf d2"
  proof (cases fin)
    case True
    then show ?thesis using m t1 market_invD(1) [OF market_step_inv [OF s1]] by auto
  next
    case False
    then have b2: "match_book L (\<lambda>_. True) t rest d1 = Some (f2, rest2, d2)" and u: "used_up t ?ms rest d d1" using m t1 by auto
    then have "t \<notin> set rest" "distinct rest" using ms by (auto simp: used_up_def)
    from match_book_in_turn [OF market_step_inv [OF s1] this b2] used_up_then [OF u _ ms] show ?thesis
      using market_invD(1) [OF market_step_inv [OF match_book_step [OF market_step_inv [OF s1] b2]]] by blast
  qed
  have "only_touches t [] d2 d'"
  proof (cases "tbl_get t (limit_orders d2)")
    case None
    then show ?thesis using c by (auto simp: only_touches_def)
  next
    case (Some y)
    then have "maybe_cull_small_order L t d2 = Some (f, d')" using c by simp
    from maybe_cull_effect [OF t2 [THEN conjunct2] this]
    have "\<And>j. tbl_get j (limit_orders d') = (if j = t \<and> f then None else tbl_get j (limit_orders d2))" by metis
    then show ?thesis by (simp add: only_touches_def)
  qed
  moreover obtain ps qs where p: "?ms = ps @ qs" "all_gone (butlast ps) d2" "only_touches t ps d d2" using t2 by (auto simp: in_turn_def)
  moreover have "t \<notin> set (butlast ps)" using ms(1) p(1) by (auto dest: in_set_butlastD)
  ultimately show ?thesis unfolding in_turn_def
    using only_touches_trans [OF p(3), of "[]" d'] all_gone_later [OF p(2), of t "[]" d'] by (intro exI [of _ ps] exI [of _ qs]) simp
qed

end

section \<open>The price of META1\<close>

lemma scaled_precision_Some: "scaled_precision n = Some s \<longleftrightarrow> n < 19 \<and> s = 10 ^ n"
proof -
  have "p10 n = 10 ^ n" for n by (induction n) simp_all
  then show ?thesis by (auto simp: scaled_precision_def scaled_precision_lut_def simp del: upt_Suc)
qed

context fc_safe
begin

lemma implied_price_ok_bound:
  assumes run: "implied_price_ok L x m usd cumulative meta1 other = Some ()"
  defines "n \<equiv> tdiv (max_supply (ao_options meta1)) (10 ^ precision meta1)"
  shows "m * 10 ^ precision other * pr_denominator usd * cumulative \<le> x * 10 ^ precision meta1 * pr_numerator usd * n"
proof (cases "precision meta1 \<ge> precision other")
  case True
  then have b: "m * pr_denominator usd * cumulative \<le> x * pr_numerator usd * n * 10 ^ (precision meta1 - precision other)"
    using run by (auto simp: implied_price_ok_def opt_bind safe_Some scaled_precision_Some Let_def n_def)
  have "(10 :: int) ^ precision meta1 = 10 ^ (precision meta1 - precision other) * 10 ^ precision other"
    using True by (simp add: power_add [symmetric])
  then show ?thesis using mult_right_mono [OF b, of "10 ^ precision other"] by (simp add: mult_ac)
next
  case False
  then have b: "m * pr_denominator usd * cumulative * 10 ^ (precision other - precision meta1) \<le> x * pr_numerator usd * n"
    using run by (auto simp: implied_price_ok_def opt_bind safe_Some scaled_precision_Some Let_def n_def)
  have "(10 :: int) ^ precision other = 10 ^ (precision other - precision meta1) * 10 ^ precision meta1"
    using False by (simp add: power_add [symmetric])
  then show ?thesis using mult_right_mono [OF b, of "10 ^ precision meta1"] by (simp add: mult_ac)
qed

end

section \<open>Properties\<close>

text \<open>
  (C34) Price and time priority: when a new order is matched, an order of the book is traded or removed only after all better
  orders of its market. If the order \<open>j\<close> is changed, it sells what the new order buys at a price that the new order accepts, and
  every order \<open>i\<close> of the same market with a better price, or with the same price and created earlier, is gone from the
  book. Margin calls that are matched in between change no order but the new one. Orders are valid and sell at most the maximum
  supply.
\<close>

theorem price_time_priority:
  assumes "fc_safe L" "market_inv d" "orders_ok d" "tbl_get t (limit_orders d) = Some new" "apply_order L t d = Some (f, d')"
    and "tbl_get i (limit_orders d) = Some x" "tbl_get j (limit_orders d) = Some y" "j \<noteq> t" "tbl_get j (limit_orders d') \<noteq> Some y"
    and "sell_asset_id x = sell_asset_id y" "receive_asset_id x = receive_asset_id y" "amount (base (sell_price x)) \<le> GRAPHENE_MAX_SHARE_SUPPLY"
    and "price_gt (sell_price x) (sell_price y) \<or> \<not> price_gt (sell_price y) (sell_price x) \<and> i < j"
  shows "sell_asset_id y = receive_asset_id new \<and> receive_asset_id y = sell_asset_id new \<and>
    \<not> price_lt (sell_price y) (price_invert (sell_price new)) \<and> tbl_get i (limit_orders d') = None"
proof -
  have wf: "db_wf d" by (rule market_invD(1) [OF assms(2)])
  have ok: "order_ok x" "order_ok y" "order_ok new" using assms(3,4,6,7) by (auto simp: orders_ok_def)
  then have po: "price_ok (sell_price x)" "price_ok (sell_price y)" "price_ok (price_invert (sell_price new))"
    and ne: "receive_asset_id new \<noteq> sell_asset_id new"
    by (auto simp: order_ok_def price_ok_def receive_asset_id_def sell_asset_id_def)
  define pmax where "pmax = mk_price (mk_asset GRAPHENE_MAX_SHARE_SUPPLY (receive_asset_id new)) (mk_asset 1 (sell_asset_id new))"
  have pm: "price_max (receive_asset_id new) (sell_asset_id new) = Some pmax"
    using ne by (simp add: price_max_def asset_div_def pmax_def)
  let ?ms = "book_range d pmax (price_invert (sell_price new))"
  obtain bs where msd: "?ms = map fst bs" and dist: "distinct (map fst bs)"
    and srt: "sorted_wrt (\<lambda>(i, x) (j, y). price_key (sell_price y) < price_key (sell_price x) \<or>
      price_key (sell_price x) = price_key (sell_price y) \<and> i < j) bs"
    and mem: "\<And>k z. (k, z) \<in> set bs \<longleftrightarrow> tbl_get k (limit_orders d) = Some z \<and> \<not> price_gt (sell_price z) pmax \<and>
      \<not> price_lt (sell_price z) (price_invert (sell_price new))"
    by (rule book_range_spec [OF wf assms(3), where pmax = pmax and lo = "price_invert (sell_price new)"]) (rule that)
  have ids: "sell_asset_id z = receive_asset_id new" "receive_asset_id z = sell_asset_id new" "\<not> price_lt (sell_price z) (price_invert (sell_price new))"
    if "(k, z) \<in> set bs" for k z
    using that by (auto simp: mem pmax_def price_gt_def price_lt_def sell_asset_id_def receive_asset_id_def split: if_splits)
  have "t \<notin> set ?ms" using mem ids(1) assms(4) ne by (force simp: msd)
  then have "in_turn t ?ms d d'" by (rule fc_safe.apply_order_in_turn [OF assms(1,2,4,5) pm _ dist [folded msd]])
  then obtain ps qs where ps: "?ms = ps @ qs" "all_gone (butlast ps) d'" "only_touches t ps d d'" by (auto simp: in_turn_def)
  have jp: "j \<in> set ps" using ps(3) assms(7-9) by (auto simp: only_touches_def)
  then have "j \<in> set (map fst bs)" using ps(1) msd by simp
  then have jb: "(j, y) \<in> set bs" using mem assms(7) by force
  note yid = ids [OF jb]
  have key: "price_key (sell_price y) \<le> price_key (sell_price x)" "price_key (sell_price x) = price_key (sell_price y) \<longrightarrow> i < j"
    using assms(13) price_lt_iff_key [OF po(2,1)] price_lt_iff_key [OF po(1,2)] by (auto simp: price_gt_def)
  have ib: "(i, x) \<in> set bs"
  proof -
    have "\<not> price_lt (sell_price x) (price_invert (sell_price new))"
      using yid(3) key(1) price_lt_iff_key [OF po(1,3)] price_lt_iff_key [OF po(2,3)] by auto
    moreover have "\<not> price_gt (sell_price x) pmax"
    proof -
      have "amount (base (sell_price x)) \<le> GRAPHENE_MAX_SHARE_SUPPLY * amount (quote (sell_price x))"
        using mult_mono [OF assms(12), of 1 "amount (quote (sell_price x))"] po(1) by (simp add: price_ok_def chain_consts)
      moreover have "price_ok pmax" using ne by (simp add: price_ok_def pmax_def chain_consts)
      ultimately show ?thesis using price_lt_cross [OF _ po(1), of pmax] yid(1,2) assms(10,11)
        by (simp add: price_gt_def pmax_def sell_asset_id_def receive_asset_id_def)
    qed
    ultimately show ?thesis using assms(6) by (simp add: mem)
  qed
  have "i \<noteq> j" using assms(6,7,13) by (auto simp: price_gt_def price_lt_def)
  then have "i \<in> set (butlast ps)"
    using before_in_prefix [OF srt _ ib jb _ dist, of ps qs] ps(1) msd jp key by auto
  then have "tbl_get i (limit_orders d') = None" using ps(2) by (simp add: all_gone_def)
  then show ?thesis using yid by simp
qed

text \<open>Two orders at the same price and a new order that takes all of the first and part of the second.\<close>

definition demo_queue :: database where
  "demo_queue = demo_market\<lparr>limit_orders :=
     \<lparr>rows = [(0, demo_maker), (1, demo_maker\<lparr>deferred_fee := 0\<rparr>), (2, demo_taker\<lparr>for_sale := 700\<rparr>)], next_instance = 3\<rparr>\<rparr>"

lemma demo_queue_ok: "market_inv demo_queue" "orders_ok demo_queue"
proof -
  have wf: "db_wf demo_queue" using demo_market_ok(1) by (simp add: demo_queue_def db_wf_upd tbl_wf_def)
  show ok: "orders_ok demo_queue"
    by (auto simp: orders_ok_def order_ok_def demo_queue_def tbl_get_def demo_maker_def demo_taker_def price_ok_def chain_consts split: if_splits)
  have "market_fees_ok demo_queue" using demo_market_ok(2) by (simp add: demo_queue_def market_fees_ok_def)
  moreover have "funds_ok demo_queue"
    by (simp add: funds_ok_def demo_queue_def demo_market_def demo_accounts_def demo_balances_def empty_database_def tbl_empty_def tbl_get_def)
  ultimately show "market_inv demo_queue" using wf ok order_ok_fees by (auto simp: market_inv_def orders_ok_def order_fees_nonneg_def)
qed

theorem price_time_priority_witness:
  "\<exists>d' y'. apply_order checked_lib 2 demo_queue = Some (True, d') \<and> tbl_get 0 (limit_orders d') = None \<and>
     tbl_get 1 (limit_orders d') = Some y' \<and> 0 < for_sale y' \<and> for_sale y' < 1000"
proof -
  have "(case apply_order checked_lib 2 demo_queue of None \<Rightarrow> False | Some (f, d') \<Rightarrow> f \<and> (case tbl_get 1 (limit_orders d') of None \<Rightarrow> False
      | Some y' \<Rightarrow> 0 < for_sale y' \<and> for_sale y' < 1000))" by code_simp
  then obtain d' y' where r: "apply_order checked_lib 2 demo_queue = Some (True, d')" "tbl_get 1 (limit_orders d') = Some y'"
      "0 < for_sale y'" "for_sale y' < 1000"
    by (auto split: option.splits)
  have g: "tbl_get 2 (limit_orders demo_queue) = Some (demo_taker\<lparr>for_sale := 700\<rparr>)" "tbl_get 0 (limit_orders demo_queue) = Some demo_maker"
    "tbl_get 1 (limit_orders demo_queue) = Some (demo_maker\<lparr>deferred_fee := 0\<rparr>)"
    by (simp_all add: demo_queue_def tbl_get_def)
  have "y' \<noteq> demo_maker\<lparr>deferred_fee := 0\<rparr>" using r(4) by (auto simp: demo_maker_def)
  then have "tbl_get 0 (limit_orders d') = None"
    using price_time_priority [OF checked_lib_safe demo_queue_ok g(1) r(1) g(2,3)] r(2)
    by (simp add: sell_asset_id_def receive_asset_id_def demo_maker_def price_gt_def price_lt_def chain_consts)
  then show ?thesis using r by blast
qed

text \<open>
  (C2) Creating a limit order conserves every asset, whatever it is matched with and even when it sets off a black swan: after the
  fee is deferred, the order is funded and matched against limit orders and margin positions, positions are called or an asset
  is settled globally, and the rest is culled or left on the book, the supply of each
  asset still differs from what accounts, orders, positions, funds and pools hold by as much as before.
\<close>

theorem limit_order_create_conserves:
  assumes "fc_safe L" "market_inv d" "limit_order_create L required False op d = Some (i, d')"
  shows "market_inv d' \<and> (\<forall>b. gap b d' = gap b d)"
  using fc_safe.limit_order_create_effect [OF assms] by (simp add: market_step_def)

definition demo_order :: limit_order_create_operation where
  "demo_order = \<lparr>loc_fee = mk_asset 3 0, loc_seller = 7, amount_to_sell = mk_asset 30 0, min_to_receive = mk_asset 9 1,
     loc_expiration = 2000000000, fill_or_kill = False\<rparr>"

definition demo_trading :: database where
  "demo_trading = demo_market\<lparr>account_balances := \<lparr>rows = [(0, \<lparr>abo_owner = 7, abo_asset_type = 0, abo_balance = 500, maintenance_flag = False\<rparr>)],
     next_instance = 1\<rparr>\<rparr>"

lemma demo_trading_ok: "market_inv demo_trading"
proof -
  have "orders_ok demo_trading" "market_fees_ok demo_trading"
    using demo_market_ok by (simp_all add: demo_trading_def orders_ok_def market_fees_ok_def)
  moreover have "db_wf demo_trading" using demo_market_ok(1) by (simp add: demo_trading_def db_wf_upd tbl_wf_def)
  moreover have "funds_ok demo_trading"
    by (simp add: funds_ok_def demo_trading_def demo_market_def demo_accounts_def demo_balances_def empty_database_def tbl_empty_def tbl_get_def)
  ultimately show ?thesis using order_ok_fees by (auto simp: market_inv_def orders_ok_def order_fees_nonneg_def)
qed

theorem limit_order_create_conserves_witness:
  "\<exists>i d'. limit_order_create checked_lib (Some 2) False demo_order demo_trading = Some (i, d') \<and> gap 0 d' = gap 0 demo_trading"
proof -
  have "limit_order_create checked_lib (Some 2) False demo_order demo_trading \<noteq> None" by code_simp
  then obtain i d' where r: "limit_order_create checked_lib (Some 2) False demo_order demo_trading = Some (i, d')" by auto
  from limit_order_create_conserves [OF checked_lib_safe demo_trading_ok r] r show ?thesis by blast
qed

text \<open>
  (C3) No order undervalues META1: an order that trades \<open>m\<close> units of META1 against \<open>x\<close> units of an asset with a published price
  is accepted only if the price is at most a day old and the order values META1 at no less than the valuation of the backing
  properties shared by the whole supply, the inequality (4) of the comment in the evaluator, computed without overflow.
\<close>

theorem orders_respect_meta1_valuation:
  assumes "fc_safe L" "loc_evaluate L op d = Some ()"
    and "asset_id (amount_to_sell op) = 0 \<and> asset_id (min_to_receive op) = oid \<and> m = amount (amount_to_sell op) \<and> x = amount (min_to_receive op) \<or>
      asset_id (min_to_receive op) = 0 \<and> asset_id (amount_to_sell op) = oid \<and> m = amount (min_to_receive op) \<and> x = amount (amount_to_sell op)"
    and "oid \<noteq> 0" "tbl_get 0 (assets d) = Some meta" "tbl_get oid (assets d) = Some other"
    and "tbl_find (\<lambda>p. ap_symbol p = symbol other) (asset_prices d) = Some (k, p)"
    and "0 \<le> publication_time p" "publication_time p \<le> head_block_time d" "head_block_time d < 2 ^ 32"
  shows "\<exists>j alo. find_limitation_by_symbol d (symbol meta) = Some (j, alo) \<and>
      head_block_time d - publication_time p \<le> 24 * 60 * 60 \<and>
      x * 10 ^ precision meta * pr_numerator (usd_price p) * tdiv (max_supply (ao_options meta)) (10 ^ precision meta) \<ge>
        m * 10 ^ precision other * pr_denominator (usd_price p) * cumulative_sell_limit alo"
proof -
  have c: "loc_check_meta1 L op d = Some ()" using assms(2) by (clarsimp simp: loc_evaluate_def opt_bind Let_def split del: if_split)
  let ?s = "asset_id (amount_to_sell op) = 0"
  have o: "(if ?s then asset_id (min_to_receive op) else asset_id (amount_to_sell op)) = oid"
    "(if ?s then amount (min_to_receive op) else amount (amount_to_sell op)) = x"
    "(if ?s then amount (amount_to_sell op) else amount (min_to_receive op)) = m"
    "?s \<or> asset_id (min_to_receive op) = 0" "?s \<noteq> (asset_id (min_to_receive op) = 0)" using assms(3,4) by auto
  obtain j alo where f: "find_limitation_by_symbol d (symbol meta) = Some (j, alo)"
    and a: "u32 (head_block_time d - publication_time p) \<le> GRAPHENE_DEFAULT_PRICE_FEED_LIFETIME"
    and i: "implied_price_ok L x m (usd_price p) (cumulative_sell_limit alo) meta other = Some ()"
    using c unfolding loc_check_meta1_def Let_def o(1-3) using o(4,5) assms(5-7) by (auto simp: opt_bind)
  have "u32 (head_block_time d - publication_time p) = head_block_time d - publication_time p" using assms(8-10) by simp
  then show ?thesis using f a fc_safe.implied_price_ok_bound [OF assms(1) i] by (simp add: chain_consts)
qed

definition demo_valued :: database where
  "demo_valued = demo_trading\<lparr>
     asset_prices := \<lparr>rows = [(0, \<lparr>ap_symbol = ''FEE'', usd_price = \<lparr>pr_numerator = 2, pr_denominator = 1\<rparr>, publication_time = 1599990000\<rparr>)],
       next_instance = 1\<rparr>,
     asset_limitations := \<lparr>rows = [(0, \<lparr>limit_symbol = ''META1'', alo_issuer = 7, cumulative_sell_limit = 6\<rparr>)], next_instance = 1\<rparr>\<rparr>"

theorem orders_respect_meta1_valuation_witness:
  "loc_evaluate checked_lib demo_order demo_valued = Some () \<and>
   loc_evaluate checked_lib (demo_order\<lparr>min_to_receive := mk_asset 8 1\<rparr>) demo_valued = None \<and>
   30 * 10 ^ 5 * 1 * 6 \<le> 9 * 10 ^ 5 * 2 * (10 :: int)"
proof -
  have r: "loc_evaluate checked_lib demo_order demo_valued = Some ()"
    "loc_evaluate checked_lib (demo_order\<lparr>min_to_receive := mk_asset 8 1\<rparr>) demo_valued = None" by code_simp+
  have "\<exists>j alo. find_limitation_by_symbol demo_valued ''META1'' = Some (j, alo) \<and> 1600000000 - 1599990000 \<le> (24 * 60 * 60 :: int) \<and>
      30 * 10 ^ 5 * 1 * cumulative_sell_limit alo \<le> 9 * 10 ^ 5 * 2 * 10"
    using orders_respect_meta1_valuation [OF checked_lib_safe r(1), where oid = 1 and m = 30 and x = 9 and k = 0
        and meta = "demo_fee_asset\<lparr>symbol := ''META1''\<rparr>" and other = "demo_fee_asset\<lparr>dynamic_asset_data_id := 1\<rparr>"
        and p = "\<lparr>ap_symbol = ''FEE'', usd_price = \<lparr>pr_numerator = 2, pr_denominator = 1\<rparr>, publication_time = 1599990000\<rparr>"]
    by (simp add: demo_order_def demo_valued_def demo_trading_def demo_market_def demo_fee_asset_def tbl_get_def tbl_find_def tdiv_def)
  then show ?thesis using r by (simp add: find_limitation_by_symbol_def demo_valued_def tbl_find_def)
qed

end
