(* ===== verification/Settlement.thy ===== *)
theory Settlement
  imports Market
begin

text \<open>
  Forced settlement: the match of a settlement request with a margin position (\<^verbatim>\<open>libraries/chain/db_market.cpp\<close>) and the operations
  that request a settlement and that settle an asset globally (\<^verbatim>\<open>asset_evaluator.cpp\<close>). The loop of \<^verbatim>\<open>clear_expired_orders\<close>
  (\<^verbatim>\<open>db_update.cpp\<close>), which at the end of a block executes the settlements that are due, is not modelled.
\<close>

section \<open>Settlement requests\<close>

definition HARDFORK_CORE_1780_TIME :: int where [chain_consts]: "HARDFORK_CORE_1780_TIME = 1629043200"
definition HARDFORK_CORE_216_TIME :: int where [chain_consts]: "HARDFORK_CORE_216_TIME = 1512747600"

definition cancel_settle_order :: "fc_lib \<Rightarrow> nat \<Rightarrow> database \<Rightarrow> database option" where
  "cancel_settle_order L i d = do {
     s \<leftarrow> tbl_get i (force_settlements d);
     d1 \<leftarrow> adjust_balance L (fs_owner s) (fs_balance s) d;
     Some (d1\<lparr>force_settlements := tbl_remove i (force_settlements d1)\<rparr>)
   }"

definition fill_settle_order :: "fc_lib \<Rightarrow> nat \<Rightarrow> asset \<Rightarrow> asset \<Rightarrow> bool \<Rightarrow> database \<Rightarrow> (bool \<times> database) option" where
  "fill_settle_order L i pays receives is_maker d = do {
     s \<leftarrow> tbl_get i (force_settlements d);
     settle_owner \<leftarrow> (if head_block_time d \<ge> HARDFORK_CORE_1780_TIME then map_option Some (tbl_get (fs_owner s) (accounts d)) else Some None);
     recv_asset \<leftarrow> tbl_get (asset_id receives) (assets d);
     (issuer_fees, d1) \<leftarrow> pay_market_fees L settle_owner (asset_id receives) recv_asset receives is_maker None d;
     lt \<leftarrow> asset_lt pays (fs_balance s);
     rest \<leftarrow> (if lt then asset_sub L (fs_balance s) pays else Some (fs_balance s));
     let d2 = (if lt then d1\<lparr>force_settlements := tbl_modify i (\<lambda>s. s\<lparr>fs_balance := rest\<rparr>) (force_settlements d1)\<rparr> else d1);
     net \<leftarrow> asset_sub L receives issuer_fees;
     d3 \<leftarrow> adjust_balance L (fs_owner s) net d2;
     Some (\<not> lt, if lt then d3 else d3\<lparr>force_settlements := tbl_remove i (force_settlements d3)\<rparr>)
   }"

definition asset_min :: "asset \<Rightarrow> asset \<Rightarrow> asset option" where
  "asset_min a b = do { lt \<leftarrow> asset_lt b a; Some (if lt then b else a) }"

text \<open>What the position pays and receives, and whether the rest of the request is cancelled; the inner \<open>None\<close> is the early return
  with nothing settled.\<close>

definition settle_amounts ::
  "time_point_sec \<Rightarrow> asset \<Rightarrow> asset \<Rightarrow> asset \<Rightarrow> price \<Rightarrow> (asset \<times> asset \<times> bool) option option" where
  "settle_amounts maint_time balance call_debt max_settlement match_price = do {
     settle_for_sale \<leftarrow> asset_min balance max_settlement;
     call_receives \<leftarrow> asset_min settle_for_sale call_debt;
     call_pays \<leftarrow> asset_mul call_receives match_price;
     if amount call_pays = 0 then
       (if maint_time > HARDFORK_CORE_184_TIME then
          (if call_receives = call_debt then Some (Some (call_pays\<lparr>amount := 1\<rparr>, call_receives, False)) else Some None)
        else Some (Some (call_pays, call_receives, False)))
     else if maint_time \<le> HARDFORK_CORE_342_TIME then Some (Some (call_pays, call_receives, False))
     else if call_receives = call_debt then do {
       call_pays' \<leftarrow> multiply_and_round_up call_receives match_price;
       Some (Some (call_pays', call_receives, False))
     } else do {
       let cull_settle_order = (call_receives = balance);
       call_receives' \<leftarrow> multiply_and_round_up call_pays match_price;
       Some (Some (call_pays, call_receives', cull_settle_order \<and> call_receives' \<noteq> balance))
     }
   }"

text \<open>The result of a match: what was settled, or the exception that announces a black swan.\<close>

datatype settle_match = Settled asset database | Black_swan

definition match_settle ::
  "fc_lib \<Rightarrow> nat \<Rightarrow> nat \<Rightarrow> price \<Rightarrow> asset \<Rightarrow> database \<Rightarrow> settle_match option" where
  "match_settle L call settle match_price max_settlement d = do {
     c \<leftarrow> tbl_get call (call_orders d);
     s \<leftarrow> tbl_get settle (force_settlements d);
     fc_assert (asset_id (get_debt c) = asset_id (fs_balance s));
     fc_assert (debt c > 0 \<and> collateral c > 0 \<and> amount (fs_balance s) > 0);
     a \<leftarrow> settle_amounts (next_maintenance_time d) (fs_balance s) (get_debt c) max_settlement match_price;
     case a of
       None \<Rightarrow> do {
         settle_for_sale \<leftarrow> asset_min (fs_balance s) max_settlement;
         call_receives \<leftarrow> asset_min settle_for_sale (get_debt c);
         d' \<leftarrow> (if call_receives = fs_balance s then cancel_settle_order L settle d else Some d);
         Some (Settled (mk_asset 0 (asset_id (fs_balance s))) d')
       }
     | Some (call_pays, call_receives, cull_settle_order) \<Rightarrow> do {
         less \<leftarrow> (if next_maintenance_time d \<le> HARDFORK_CORE_342_TIME then asset_lt call_pays (get_collateral c) else Some True);
         if \<not> less then Some Black_swan
         else do {
           (_, d1) \<leftarrow> fill_call_order L call call_pays call_receives d;
           (_, d2) \<leftarrow> fill_settle_order L settle call_receives call_pays False d1;
           d3 \<leftarrow> (if cull_settle_order then cancel_settle_order L settle d2 else Some d2);
           Some (Settled call_receives d3)
         }
       }
   }"

section \<open>Operations\<close>

record asset_settle_operation =
  as_fee :: asset
  as_account :: account_id_type
  as_amount :: asset

record asset_global_settle_operation =
  gs_fee :: asset
  gs_issuer :: account_id_type
  asset_to_settle :: asset_id_type
  settle_price :: price

definition as_validate :: "asset_settle_operation \<Rightarrow> unit option" where
  "as_validate op = do { fc_assert (amount (as_fee op) \<ge> 0); fc_assert (amount (as_amount op) \<ge> 0) }"

definition gs_validate :: "asset_global_settle_operation \<Rightarrow> unit option" where
  "gs_validate op = do { fc_assert (amount (gs_fee op) \<ge> 0); fc_assert (asset_to_settle op = asset_id (base (settle_price op))) }"

text \<open>The permission bits of \<^verbatim>\<open>types.hpp\<close>: \<^verbatim>\<open>disable_force_settle\<close> is bit 4 and \<^verbatim>\<open>global_settle\<close> bit 5.\<close>

definition can_force_settle :: "asset_object \<Rightarrow> bool" where
  "can_force_settle a \<longleftrightarrow> \<not> bit (asset_flags (ao_options a)) 4"

definition can_global_settle :: "asset_object \<Rightarrow> bool" where
  "can_global_settle a \<longleftrightarrow> bit (issuer_permissions (ao_options a)) 5"

definition gs_evaluate :: "asset_global_settle_operation \<Rightarrow> database \<Rightarrow> unit option" where
  "gs_evaluate op d = do {
     a \<leftarrow> tbl_get (asset_to_settle op) (assets d);
     fc_assert (is_market_issued a);
     fc_assert (can_global_settle a);
     fc_assert (ao_issuer a = gs_issuer op);
     (_, dd) \<leftarrow> get_dynamic_data d (asset_to_settle op);
     fc_assert (current_supply dd > 0);
     (_, b) \<leftarrow> get_bitasset d (asset_to_settle op);
     fc_assert (\<not> has_settlement b);
     fc_assert (rows (call_orders d) \<noteq> []);
     call_min \<leftarrow> price_min (short_backing_asset (bda_options b)) (asset_to_settle op);
     (_, c) \<leftarrow> least_call coll_price call_min d;
     fc_assert (debt_type c = asset_to_settle op);
     due \<leftarrow> asset_mul (get_debt c) (settle_price op);
     le \<leftarrow> asset_le due (get_collateral c);
     fc_assert le
   }"

definition gs_apply :: "fc_lib \<Rightarrow> asset_global_settle_operation \<Rightarrow> database \<Rightarrow> database option" where
  "gs_apply L op d = globally_settle_asset L (asset_to_settle op) (settle_price op) d"

definition as_evaluate :: "asset_settle_operation \<Rightarrow> database \<Rightarrow> unit option" where
  "as_evaluate op d = do {
     a \<leftarrow> tbl_get (asset_id (as_amount op)) (assets d);
     fc_assert (is_market_issued a);
     (_, b) \<leftarrow> get_bitasset d (asset_id (as_amount op));
     fc_assert (can_force_settle a \<or> has_settlement b);
     (if is_prediction_market b then fc_assert (has_settlement b)
      else fc_assert (\<not> (is_null (settlement_price (current_feed b)) \<and>
        (head_block_time d \<le> HARDFORK_CORE_216_TIME \<or> \<not> has_settlement b))));
     ge \<leftarrow> asset_ge (get_balance d (as_account op) (asset_id (as_amount op))) (as_amount op);
     fc_assert ge
   }"

text \<open>What an account gets from the settlement fund and what it gives.\<close>

definition fund_amounts :: "asset \<Rightarrow> share_type \<Rightarrow> asset_bitasset_data_object \<Rightarrow> time_point_sec \<Rightarrow> (asset \<times> asset) option" where
  "fund_amounts x mia_supply b maint_time = do {
     r \<leftarrow> asset_mul x (bda_settlement_price b);
     settled \<leftarrow> (if amount x = mia_supply then Some (r\<lparr>amount := settlement_fund b\<rparr>)
       else do { fc_assert (amount r \<le> settlement_fund b); Some r });
     fc_assert (\<not> (amount settled = 0 \<and> \<not> is_prediction_market b \<and> maint_time > HARDFORK_CORE_184_TIME));
     pays \<leftarrow> (if amount x \<noteq> mia_supply \<and> amount settled \<noteq> 0 \<and> maint_time > HARDFORK_CORE_342_TIME
       then multiply_and_round_up settled (bda_settlement_price b) else Some x);
     Some (settled, pays)
   }"

definition pay_from_fund :: "fc_lib \<Rightarrow> account_id_type \<Rightarrow> nat \<Rightarrow> asset \<Rightarrow> database \<Rightarrow> (asset \<times> database) option" where
  "pay_from_fund L who k settled d =
     (if amount settled > 0 then do {
        b \<leftarrow> tbl_get k (bitassets d);
        f \<leftarrow> safe_sub L (settlement_fund b) (amount settled);
        let d1 = d\<lparr>bitassets := tbl_modify k (\<lambda>b. b\<lparr>settlement_fund := f\<rparr>) (bitassets d)\<rparr>;
        (net, d2) \<leftarrow> (if head_block_time d1 \<ge> HARDFORK_CORE_1780_TIME then do {
            acct \<leftarrow> tbl_get who (accounts d1);
            recv_asset \<leftarrow> tbl_get (asset_id settled) (assets d1);
            (issuer_fees, d2) \<leftarrow> pay_market_fees L (Some acct) (asset_id settled) recv_asset settled False None d1;
            net \<leftarrow> asset_sub L settled issuer_fees;
            Some (net, d2)
          } else Some (settled, d1));
        d3 \<leftarrow> (if amount net > 0 then adjust_balance L who net d2 else Some d2);
        Some (net, d3)
      } else Some (settled, d))"

text \<open>The result is the amount paid out of the fund, or the identifier of the request.\<close>

definition as_apply :: "fc_lib \<Rightarrow> asset_settle_operation \<Rightarrow> database \<Rightarrow> ((asset + nat) \<times> database) option" where
  "as_apply L op d = do {
     (k, b) \<leftarrow> get_bitasset d (asset_id (as_amount op));
     if has_settlement b then do {
       (j, dd) \<leftarrow> get_dynamic_data d (asset_id (as_amount op));
       (settled, pays) \<leftarrow> fund_amounts (as_amount op) (current_supply dd) b (next_maintenance_time d);
       n \<leftarrow> asset_neg L pays;
       d1 \<leftarrow> adjust_balance L (as_account op) n d;
       (net, d2) \<leftarrow> pay_from_fund L (as_account op) k settled d1;
       (j, dd2) \<leftarrow> get_dynamic_data d2 (asset_id (as_amount op));
       s \<leftarrow> safe_sub L (current_supply dd2) (amount pays);
       Some (Inl net, d2\<lparr>asset_dynamic_data := tbl_modify j (\<lambda>a. a\<lparr>current_supply := s\<rparr>) (asset_dynamic_data d2)\<rparr>)
     } else do {
       n \<leftarrow> asset_neg L (as_amount op);
       d1 \<leftarrow> adjust_balance L (as_account op) n d;
       let (i, t) = tbl_create \<lparr>fs_owner = as_account op, fs_balance = as_amount op,
         settlement_date = tps_add L (head_block_time d1) (force_settlement_delay_sec (bda_options b))\<rparr> (force_settlements d1);
       Some (Inr i, d1\<lparr>force_settlements := t\<rparr>)
     }
   }"

end
