(* ===== verification/Blocks.thy ===== *)
theory Blocks
  imports Prelude "HOL-Library.Word"
begin

text \<open>
  Blocks as \<^verbatim>\<open>libraries/protocol/block.cpp\<close> and \<^verbatim>\<open>block.hpp\<close> have them: the number of a block, its identifier, which carries the
  number in its first four bytes, and the root of the Merkle tree of its transactions, which the source computes in place.
  The hash functions are those of \<^verbatim>\<open>fc\<close> and arguments of the model. An identifier or checksum is the list of its five 32-bit
  words, \<^verbatim>\<open>_hash\<close>; a default-constructed one has all words zero.
\<close>

unbundle bit_operations_syntax

section \<open>Block headers\<close>

type_synonym ripemd160 = "32 word list"
type_synonym block_id_type = ripemd160
type_synonym checksum_type = ripemd160

definition null_id :: ripemd160 where
  "null_id = replicate 5 0"

text \<open>\<open>'t\<close> is the type of transactions and \<open>'s\<close> that of signatures. \<open>cached_id\<close> and \<open>cached_root\<close> are the mutable members
  \<^verbatim>\<open>_block_id\<close> and \<^verbatim>\<open>_calculated_merkle_root\<close>.\<close>

record ('t, 's) signed_block =
  previous :: block_id_type
  timestamp :: time_point_sec
  blk_witness :: nat
  transaction_merkle_root :: checksum_type
  witness_signature :: 's
  transactions :: "'t list"
  cached_id :: block_id_type
  cached_root :: checksum_type

text \<open>\<^verbatim>\<open>boost::endian::endian_reverse\<close> on 32 bits: the four bytes in reverse order.\<close>

definition endian_reverse :: "32 word \<Rightarrow> 32 word" where
  "endian_reverse w = push_bit 24 (take_bit 8 w) OR push_bit 16 (take_bit 8 (drop_bit 8 w)) OR
     push_bit 8 (take_bit 8 (drop_bit 16 w)) OR take_bit 8 (drop_bit 24 w)"

definition num_from_id :: "block_id_type \<Rightarrow> 32 word" where
  "num_from_id h = endian_reverse (h ! 0)"

definition block_num :: "('t, 's) signed_block \<Rightarrow> 32 word" where
  "block_num b = num_from_id (previous b) + 1"

text \<open>\<open>sha224\<close> hashes the header: the block without its transactions and caches. Its result has seven words.\<close>

record 's signed_header =
  h_previous :: block_id_type
  h_timestamp :: time_point_sec
  h_witness :: nat
  h_root :: checksum_type
  h_signature :: 's

definition header_of :: "('t, 's) signed_block \<Rightarrow> 's signed_header" where
  "header_of b = \<lparr>h_previous = previous b, h_timestamp = timestamp b, h_witness = blk_witness b,
     h_root = transaction_merkle_root b, h_signature = witness_signature b\<rparr>"

definition compute_id :: "('s signed_header \<Rightarrow> 32 word list) \<Rightarrow> ('t, 's) signed_block \<Rightarrow> block_id_type" where
  "compute_id sha224 b = take 5 ((sha224 (header_of b))[0 := endian_reverse (block_num b)])"

text \<open>\<^verbatim>\<open>signed_block_header::id\<close> returns the identifier and fills the cache.\<close>

definition blk_id :: "('s signed_header \<Rightarrow> 32 word list) \<Rightarrow> ('t, 's) signed_block \<Rightarrow> block_id_type \<times> ('t, 's) signed_block" where
  "blk_id sha224 b =
     (if cached_id b ! 0 = 0 then let i = compute_id sha224 b in (i, b\<lparr>cached_id := i\<rparr>) else (cached_id b, b))"

section \<open>The Merkle root\<close>

text \<open>The loops of \<^verbatim>\<open>calculate_merkle_root\<close> over the array \<open>ids\<close>, of which the first \<open>n\<close> entries are in use: one pass writes the
  hash of each pair, and an unpaired last entry, to the front.\<close>

function merkle_pairs :: "('h \<Rightarrow> 'h \<Rightarrow> 'h) \<Rightarrow> 'h list \<Rightarrow> nat \<Rightarrow> nat \<Rightarrow> nat \<Rightarrow> 'h list \<times> nat" where
  "merkle_pairs hash ids i k i_max =
     (if i < i_max then merkle_pairs hash (ids[k := hash (ids ! i) (ids ! (i + 1))]) (i + 2) (k + 1) i_max else (ids, k))"
  by auto
termination by (relation "measure (\<lambda>(_, _, i, _, i_max). i_max - i)") auto

declare merkle_pairs.simps [simp del]

definition merkle_round :: "('h \<Rightarrow> 'h \<Rightarrow> 'h) \<Rightarrow> 'h list \<Rightarrow> nat \<Rightarrow> 'h list \<times> nat" where
  "merkle_round hash ids n =
     (let i_max = (n - n mod 2) mod 2 ^ 32; (ids', k) = merkle_pairs hash ids 0 0 i_max
      in if n mod 2 = 1 then (ids'[k := ids' ! i_max], k + 1) else (ids', k))"

lemma merkle_pairs_count:
  "even (i_max - i) \<Longrightarrow> snd (merkle_pairs hash ids i k i_max) = k + (i_max - i) div 2"
proof (induction hash ids i k i_max rule: merkle_pairs.induct)
  case (1 hash ids i k i_max)
  show ?case
  proof (cases "i < i_max")
    case True
    with 1(2) have e: "even (i_max - (i + 2))" and le: "2 \<le> i_max - i" by presburger+
    have "(i_max - i) div 2 = Suc ((i_max - (i + 2)) div 2)" using le_div_geq [of 2 "i_max - i"] le by (simp add: diff_diff_add)
    with 1(1) [OF True e] True show ?thesis by (subst merkle_pairs.simps) simp
  qed (subst merkle_pairs.simps, simp)
qed

lemma merkle_round_count:
  "snd (merkle_round hash ids n) = (n - n mod 2) mod 2 ^ 32 div 2 + n mod 2"
proof -
  have "even ((n - n mod 2) mod 2 ^ 32)" by (simp add: dvd_mod)
  with merkle_pairs_count [of "(n - n mod 2) mod 2 ^ 32" 0 hash ids 0] show ?thesis
    by (cases "merkle_pairs hash ids 0 0 ((n - n mod 2) mod 2 ^ 32)") (auto simp: merkle_round_def Let_def)
qed

lemma merkle_round_shrinks: "1 < n \<Longrightarrow> snd (merkle_round hash ids n) < n"
proof -
  assume n: "1 < n"
  have "(n - n mod 2) mod 2 ^ 32 \<le> n - n mod 2" by (rule mod_less_eq_dividend)
  then have "(n - n mod 2) mod 2 ^ 32 div 2 \<le> (n - n mod 2) div 2" by (rule div_le_mono)
  moreover have "(n - n mod 2) div 2 + n mod 2 < n" using n by presburger
  ultimately show ?thesis unfolding merkle_round_count by (rule le_less_trans [OF add_right_mono])
qed

function merkle_loop :: "('h \<Rightarrow> 'h \<Rightarrow> 'h) \<Rightarrow> 'h list \<Rightarrow> nat \<Rightarrow> 'h list" where
  "merkle_loop hash ids n =
     (if n > 1 then merkle_loop hash (fst (merkle_round hash ids n)) (snd (merkle_round hash ids n)) else ids)"
  by auto
termination by (relation "measure (\<lambda>(_, _, n). n)") (use merkle_round_shrinks in \<open>auto simp: case_prod_beta\<close>)

declare merkle_loop.simps [simp del]

text \<open>The libraries: the digest of a transaction, the hash of a pair of digests and the checksum of a digest.\<close>

record ('t, 'h) merkle_lib =
  merkle_digest :: "'t \<Rightarrow> 'h"
  hash_pair :: "'h \<Rightarrow> 'h \<Rightarrow> 'h"
  checksum :: "'h \<Rightarrow> checksum_type"

definition calculate_merkle_root :: "('t, 'h) merkle_lib \<Rightarrow> ('t, 's) signed_block \<Rightarrow> checksum_type \<times> ('t, 's) signed_block" where
  "calculate_merkle_root M b =
     (if length (transactions b) = 0 then (null_id, b)
      else if cached_root b ! 0 = 0 then
        let ids = map (merkle_digest M) (transactions b);
            root = checksum M (merkle_loop (hash_pair M) ids (length ids) ! 0)
        in (root, b\<lparr>cached_root := root\<rparr>)
      else (cached_root b, b))"

section \<open>Identifiers carry the number\<close>

lemma bit_endian_reverse:
  "bit (endian_reverse w) n = (if n < 8 then bit w (n + 24) else if n < 16 then bit w (n + 8)
     else if n < 24 then bit w (n - 8) else n < 32 \<and> bit w (n - 24))"
proof -
  consider "n < 8" | "8 \<le> n" "n < 16" | "16 \<le> n" "n < 24" | "24 \<le> n" "n < 32" | "32 \<le> n" by linarith
  then show ?thesis
    by cases (auto simp: endian_reverse_def bit_simps add.commute less_diff_conv2)
qed

lemma endian_reverse_twice [simp]: "endian_reverse (endian_reverse w) = w"
proof (rule bit_word_eqI)
  fix n assume "n < LENGTH(32)"
  then consider "n < 8" | "8 \<le> n" "n < 16" | "16 \<le> n" "n < 24" | "24 \<le> n" "n < 32" by fastforce
  then show "bit (endian_reverse (endian_reverse w)) n = bit w n"
    by cases (auto simp: bit_endian_reverse less_diff_conv2)
qed

lemma num_from_compute_id:
  assumes "length (sha224 (header_of b)) = 7"
  shows "num_from_id (compute_id sha224 b) = block_num b" "length (compute_id sha224 b) = 5"
  using assms by (simp_all add: compute_id_def num_from_id_def nth_list_update)

text \<open>The reference: the levels of the tree as lists.\<close>

fun merkle_level :: "('h \<Rightarrow> 'h \<Rightarrow> 'h) \<Rightarrow> 'h list \<Rightarrow> 'h list" where
  "merkle_level hash (x # y # zs) = hash x y # merkle_level hash zs"
| "merkle_level hash zs = zs"

lemma length_merkle_level [simp]: "length (merkle_level hash xs) = (length xs + 1) div 2"
  by (induction hash xs rule: merkle_level.induct) auto

function merkle_root :: "('h \<Rightarrow> 'h \<Rightarrow> 'h) \<Rightarrow> 'h list \<Rightarrow> 'h" where
  "merkle_root hash xs = (if length xs \<le> 1 then xs ! 0 else merkle_root hash (merkle_level hash xs))"
  by auto
termination by (relation "measure (\<lambda>(_, xs). length xs)") auto

declare merkle_root.simps [simp del]


section \<open>The loops compute the tree\<close>

lemma merkle_level_snoc: "even (length xs) \<Longrightarrow> merkle_level hash (xs @ [x]) = merkle_level hash xs @ [x]"
  by (induction hash xs rule: merkle_level.induct) auto

lemma take_drop_two:
  assumes "i < m" "even (m - i)" "m \<le> length ids"
  shows "take (m - i) (drop i ids) = ids ! i # ids ! (i + 1) # take (m - (i + 2)) (drop (i + 2) ids)"
proof -
  have "i + 2 \<le> m" using assms by presburger
  then obtain q where q: "m = i + 2 + q" using le_Suc_ex by blast
  have "drop i ids = ids ! i # ids ! (i + 1) # drop (i + 2) ids"
    using assms q by (simp add: Cons_nth_drop_Suc)
  then show ?thesis by (simp add: q)
qed

lemma merkle_pairs_level:
  assumes "k \<le> i" "i \<le> i_max" "i_max \<le> length ids" "even (i_max - i)" "merkle_pairs hash ids i k i_max = (ids', k')"
  shows "length ids' = length ids \<and> (\<forall>j \<ge> k'. ids' ! j = ids ! j) \<and>
    take k' ids' = take k ids @ merkle_level hash (take (i_max - i) (drop i ids))"
  using assms
proof (induction hash ids i k i_max arbitrary: ids' k' rule: merkle_pairs.induct)
  case (1 hash ids i k i_max)
  show ?case
  proof (cases "i < i_max")
    case True
    let ?ids = "ids[k := hash (ids ! i) (ids ! (i + 1))]"
    from 1(5) True have e: "even (i_max - (i + 2))" "i + 2 \<le> i_max" by presburger+
    have run: "merkle_pairs hash ?ids (i + 2) (k + 1) i_max = (ids', k')"
      using 1(6) True by (subst (asm) merkle_pairs.simps) simp
    have k': "k + 1 \<le> k'" using merkle_pairs_count [OF e(1), of hash ?ids "k + 1"] run by simp
    have "take (k + 1) ?ids = take k ids @ [hash (ids ! i) (ids ! (i + 1))]"
      using True 1(2,4) by (simp add: take_Suc_conv_app_nth)
    moreover have "drop (i + 2) ?ids = drop (i + 2) ids" using 1(2) by simp
    ultimately show ?thesis
      using 1(1) [OF True _ e(2) _ e(1) run] 1(2,4) k' take_drop_two [OF True 1(5) 1(4)] by auto
  next
    case False
    with 1(3,6) show ?thesis by (subst (asm) merkle_pairs.simps) auto
  qed
qed

lemma merkle_round_level:
  assumes "0 < n" "n \<le> length ids" "n < 2 ^ 32" "merkle_round hash ids n = (ids', n')"
  shows "length ids' = length ids" "n' = (n + 1) div 2" "take n' ids' = merkle_level hash (take n ids)"
proof -
  define m where "m = n - n mod 2"
  have m: "(n - n mod 2) mod 2 ^ 32 = m" "even m" "m \<le> n" using assms(3) by (simp_all add: m_def)
  obtain a k where a: "merkle_pairs hash ids 0 0 m = (a, k)" by fastforce
  have k: "k = m div 2" using merkle_pairs_count [of m 0 hash ids 0] a m by simp
  have l: "length a = length ids" "\<forall>j \<ge> k. a ! j = ids ! j" "take k a = merkle_level hash (take m ids)"
    using merkle_pairs_level [OF _ _ _ _ a] m(2,3) assms(2) by simp_all
  have r: "(ids', n') = (if n mod 2 = 1 then (a[k := a ! m], k + 1) else (a, k))"
    using assms(4) unfolding merkle_round_def Let_def m(1) a by simp
  have "length ids' = length ids \<and> n' = (n + 1) div 2 \<and> take n' ids' = merkle_level hash (take n ids)"
  proof (cases "n mod 2 = 1")
    case True
    then have "n = m + 1" using assms(1) by (simp add: m_def)
    then have n: "n = m + 1" "(n + 1) div 2 = k + 1" using k by simp_all
    have "take n ids = take m ids @ [ids ! m]" using n assms(2) by (simp add: take_Suc_conv_app_nth)
    moreover have "a ! m = ids ! m" using l(2) k by simp
    moreover have "k < length a" using l(1) k n assms(2) by auto
    ultimately show ?thesis using True r l n m(2) assms(2) by (simp add: take_Suc_conv_app_nth merkle_level_snoc)
  next
    case False
    then have "n = m" "even n" by (auto simp: m_def even_iff_mod_2_eq_zero)
    then show ?thesis using False r l k by auto
  qed
  then show "length ids' = length ids" "n' = (n + 1) div 2" "take n' ids' = merkle_level hash (take n ids)" by auto
qed

lemma merkle_loop_root:
  assumes "0 < n" "n \<le> length ids" "n < 2 ^ 32"
  shows "merkle_loop hash ids n ! 0 = merkle_root hash (take n ids)"
  using assms
proof (induction hash ids n rule: merkle_loop.induct)
  case (1 hash ids n)
  show ?case
  proof (cases "1 < n")
    case True
    obtain a k where a: "merkle_round hash ids n = (a, k)" by fastforce
    note l = merkle_round_level [OF 1(2,3,4) a]
    have k: "0 < k" "k \<le> length a" "k < 2 ^ 32" using l(1,2) True 1(3,4) by auto
    have "merkle_loop hash ids n ! 0 = merkle_loop hash a k ! 0" using True a by (subst merkle_loop.simps) simp
    also have "\<dots> = merkle_root hash (take k a)" using 1(1) [OF True] a k by simp
    also have "\<dots> = merkle_root hash (take n ids)"
      by (subst (2) merkle_root.simps) (use True 1(3) l(3) in simp)
    finally show ?thesis .
  next
    case False
    with 1(2) have "n = 1" by simp
    then show ?thesis using 1(3) by (simp add: merkle_loop.simps merkle_root.simps)
  qed
qed

text \<open>The pairs that are hashed for a tree. Two lists with equal roots are equal when none of these pairs collide.\<close>

fun level_pairs :: "'h list \<Rightarrow> ('h \<times> 'h) list" where
  "level_pairs (x # y # zs) = (x, y) # level_pairs zs"
| "level_pairs zs = []"

function merkle_inputs :: "('h \<Rightarrow> 'h \<Rightarrow> 'h) \<Rightarrow> 'h list \<Rightarrow> ('h \<times> 'h) list" where
  "merkle_inputs hash xs = (if length xs \<le> 1 then [] else level_pairs xs @ merkle_inputs hash (merkle_level hash xs))"
  by auto
termination by (relation "measure (\<lambda>(_, xs). length xs)") auto

declare merkle_inputs.simps [simp del]

lemma merkle_level_inj:
  assumes "inj_on (case_prod hash) (set (level_pairs xs) \<union> set (level_pairs ys))" "length xs = length ys"
    and "merkle_level hash xs = merkle_level hash ys"
  shows "xs = ys"
  using assms
proof (induction hash xs arbitrary: ys rule: merkle_level.induct)
  case (1 hash x y zs)
  obtain a b cs where ys: "ys = a # b # cs" using 1(3) by (cases ys; cases "tl ys") auto
  with 1(4) have eq: "hash x y = hash a b" "merkle_level hash zs = merkle_level hash cs" by simp_all
  have "(x, y) = (a, b)" by (rule inj_onD [OF 1(2)]) (simp_all add: ys eq)
  moreover have "inj_on (case_prod hash) (set (level_pairs zs) \<union> set (level_pairs cs))"
    by (rule inj_on_subset [OF 1(2)]) (auto simp: ys)
  ultimately show ?case using 1(1) [OF _ _ eq(2)] 1(3) ys by simp
qed (simp, simp, metis length_0_conv length_Suc_conv merkle_level.simps(3))

lemma merkle_root_inj:
  assumes "inj_on (case_prod hash) (set (merkle_inputs hash xs) \<union> set (merkle_inputs hash ys))"
    and "length xs = length ys" "xs \<noteq> []" "merkle_root hash xs = merkle_root hash ys"
  shows "xs = ys"
  using assms
proof (induction hash xs arbitrary: ys rule: merkle_root.induct)
  case (1 hash xs)
  show ?case
  proof (cases "length xs \<le> 1")
    case True
    with 1(3-5) show ?thesis by (cases xs; cases ys) (auto simp: merkle_root.simps)
  next
    case False
    then have ny: "\<not> length ys \<le> 1" using 1(3) by simp
    note in1 = merkle_inputs.simps [of hash xs, unfolded if_not_P [OF False]]
      and in2 = merkle_inputs.simps [of hash ys, unfolded if_not_P [OF ny]]
    have "0 < length (merkle_level hash xs)" using False by simp
    then have "merkle_level hash xs \<noteq> []" by (rule length_greater_0_conv [THEN iffD1])
    moreover have "merkle_root hash (merkle_level hash xs) = merkle_root hash (merkle_level hash ys)"
      using 1(5) False ny by (simp add: merkle_root.simps [of hash xs] merkle_root.simps [of hash ys])
    moreover have "inj_on (case_prod hash) (set (merkle_inputs hash (merkle_level hash xs)) \<union> set (merkle_inputs hash (merkle_level hash ys)))"
      by (rule inj_on_subset [OF 1(2)]) (auto simp: in1 in2)
    ultimately have "merkle_level hash xs = merkle_level hash ys"
      using 1(1) [OF False] 1(3) by simp
    moreover have "inj_on (case_prod hash) (set (level_pairs xs) \<union> set (level_pairs ys))"
      by (rule inj_on_subset [OF 1(2)]) (auto simp: in1 in2)
    ultimately show ?thesis using merkle_level_inj 1(3) by blast
  qed
qed

section \<open>Properties\<close>

lemma calculate_merkle_root_tree:
  assumes "transactions b \<noteq> []" "length (transactions b) < 2 ^ 32" "cached_root b ! 0 = 0"
  shows "fst (calculate_merkle_root M b) = checksum M (merkle_root (hash_pair M) (map (merkle_digest M) (transactions b)))"
  using assms merkle_loop_root [of "length (transactions b)" "map (merkle_digest M) (transactions b)" "hash_pair M"]
  by (simp add: calculate_merkle_root_def Let_def)

text \<open>What is hashed for the root of a block, and that no two of the values hashed for two blocks collide.\<close>

definition tree_of :: "('t, 'h) merkle_lib \<Rightarrow> ('t, 's) signed_block \<Rightarrow> 'h list" where
  "tree_of M b = map (merkle_digest M) (transactions b)"

definition no_collision :: "('t, 'h) merkle_lib \<Rightarrow> ('t, 's) signed_block \<Rightarrow> ('t, 's) signed_block \<Rightarrow> bool" where
  "no_collision M b b' \<longleftrightarrow>
     inj_on (merkle_digest M) (set (transactions b) \<union> set (transactions b')) \<and>
     inj_on (case_prod (hash_pair M)) (set (merkle_inputs (hash_pair M) (tree_of M b)) \<union> set (merkle_inputs (hash_pair M) (tree_of M b'))) \<and>
     inj_on (checksum M) {merkle_root (hash_pair M) (tree_of M b), merkle_root (hash_pair M) (tree_of M b')}"

text \<open>
  (C38) The Merkle root of a block commits to its transactions: unless two of the values that are hashed collide, the in-place
  computation gives two blocks with equally many transactions the same root exactly when they have the same transactions in
  the same order.
\<close>

theorem merkle_root_commits:
  assumes "no_collision M b b'" "length (transactions b) = length (transactions b')" "length (transactions b) < 2 ^ 32"
    and "cached_root b ! 0 = 0" "cached_root b' ! 0 = 0"
  shows "fst (calculate_merkle_root M b) = fst (calculate_merkle_root M b') \<longleftrightarrow> transactions b = transactions b'"
proof (cases "transactions b = []")
  case True
  with assms(2) show ?thesis by (simp add: calculate_merkle_root_def)
next
  case False
  then have ne: "transactions b' \<noteq> []" using assms(2) by auto
  have root: "fst (calculate_merkle_root M b) = checksum M (merkle_root (hash_pair M) (tree_of M b))"
    "fst (calculate_merkle_root M b') = checksum M (merkle_root (hash_pair M) (tree_of M b'))"
    using calculate_merkle_root_tree [OF False assms(3,4)] calculate_merkle_root_tree [OF ne _ assms(5)] assms(2,3)
    by (simp_all add: tree_of_def)
  have "transactions b = transactions b'" if "fst (calculate_merkle_root M b) = fst (calculate_merkle_root M b')"
  proof -
    note nc = assms(1) [unfolded no_collision_def]
    have "merkle_root (hash_pair M) (tree_of M b) = merkle_root (hash_pair M) (tree_of M b')"
      using that root by (intro inj_onD [OF nc [THEN conjunct2, THEN conjunct2]]) simp_all
    then have "tree_of M b = tree_of M b'"
      by (intro merkle_root_inj [OF nc [THEN conjunct2, THEN conjunct1]]) (simp_all add: tree_of_def False assms(2))
    then show ?thesis using nc [THEN conjunct1] by (simp add: tree_of_def inj_on_map_eq_map)
  qed
  then show ?thesis using root by (auto simp: tree_of_def)
qed

definition demo_merkle :: "(nat, nat) merkle_lib" where
  "demo_merkle = \<lparr>merkle_digest = (\<lambda>t. 2 * t), hash_pair = (\<lambda>a b. 100 * a + b), checksum = (\<lambda>h. replicate 5 (of_nat h + 1))\<rparr>"

definition demo_block :: "nat list \<Rightarrow> (nat, unit) signed_block" where
  "demo_block ts = \<lparr>previous = null_id, timestamp = 0, blk_witness = 0, transaction_merkle_root = null_id,
     witness_signature = (), transactions = ts, cached_id = null_id, cached_root = null_id\<rparr>"

theorem merkle_root_commits_witness:
  "fst (calculate_merkle_root demo_merkle (demo_block [7, 8, 9])) \<noteq> fst (calculate_merkle_root demo_merkle (demo_block [7, 9, 8]))"
proof -
  have "no_collision demo_merkle (demo_block [7, 8, 9]) (demo_block [7, 9, 8])"
    by (auto simp: no_collision_def demo_merkle_def demo_block_def tree_of_def merkle_inputs.simps merkle_root.simps)
  from merkle_root_commits [OF this] show ?thesis by (simp add: demo_block_def null_id_def)
qed

end
