(* ===== verification/Fork_Database.thy ===== *)
theory Fork_Database
  imports Blocks "HOL-Library.Sublist"
begin

text \<open>
  The fork database (\<^verbatim>\<open>libraries/chain/fork_database.cpp\<close>): the recent blocks of every fork, linked to their predecessors.

  Items are heap objects that \<^verbatim>\<open>shared_ptr\<close>s own and that \<^verbatim>\<open>weak_ptr\<close>s refer to. The model has the heap as the list \<open>items\<close>, and
  pointers as positions in it. A weak pointer can be locked while some shared pointer owns the item: the index, the head, or a
  pointer that the caller holds, which the operations that lock take as the argument \<open>held\<close>. The multi-index container is the
  list of its items in the order of the index by number, equal numbers in the order of insertion.
\<close>

section \<open>State\<close>

record ('t, 's) fork_item =
  fi_prev :: "nat option"
  fi_num :: "32 word"
  fi_id :: block_id_type
  fi_data :: "('t, 's) signed_block"

record ('t, 's) fork_database =
  fdb_max_size :: "32 word"
  items :: "('t, 's) fork_item list"
  fdb_index :: "nat list"
  fdb_head :: "nat option"

datatype fork_error = Too_old | Unlinkable_block | No_block_to_pop | Null_head | Unknown_block | Broken_branch

abbreviation fitem :: "('t, 's) fork_database \<Rightarrow> nat \<Rightarrow> ('t, 's) fork_item" where
  "fitem s a \<equiv> items s ! a"

definition new_fork_database :: "('t, 's) fork_database" where
  "new_fork_database = \<lparr>fdb_max_size = 1024, items = [], fdb_index = [], fdb_head = None\<rparr>"

definition weak_lock :: "nat list \<Rightarrow> ('t, 's) fork_database \<Rightarrow> nat option \<Rightarrow> nat option" where
  "weak_lock held s w = (case w of None \<Rightarrow> None
     | Some a \<Rightarrow> if a \<in> set (fdb_index s) \<or> fdb_head s = Some a \<or> a \<in> set held then Some a else None)"

section \<open>The container\<close>

definition find_block :: "('t, 's) fork_database \<Rightarrow> block_id_type \<Rightarrow> nat option" where
  "find_block s i = find (\<lambda>a. fi_id (fitem s a) = i) (fdb_index s)"

fun index_put :: "(nat \<Rightarrow> 32 word) \<Rightarrow> nat \<Rightarrow> nat list \<Rightarrow> nat list" where
  "index_put key a [] = [a]"
| "index_put key a (x # xs) = (if key a < key x then a # x # xs else x # index_put key a xs)"

definition index_insert :: "nat \<Rightarrow> ('t, 's) fork_database \<Rightarrow> ('t, 's) fork_database" where
  "index_insert a s =
     (if find_block s (fi_id (fitem s a)) \<noteq> None then s
      else s\<lparr>fdb_index := index_put (\<lambda>x. fi_num (fitem s x)) a (fdb_index s)\<rparr>)"

text \<open>\<^verbatim>\<open>while( size && begin->num < min_num ) erase( begin )\<close>.\<close>

fun erase_below :: "(nat \<Rightarrow> 32 word) \<Rightarrow> (32 word \<Rightarrow> bool) \<Rightarrow> nat list \<Rightarrow> nat list" where
  "erase_below key low [] = []"
| "erase_below key low (x # xs) = (if low (key x) then erase_below key low xs else x # xs)"

section \<open>Operations\<close>

text \<open>\<^verbatim>\<open>make_shared<fork_item>(b)\<close>.\<close>

definition make_item :: "('s signed_header \<Rightarrow> 32 word list) \<Rightarrow> ('t, 's) signed_block \<Rightarrow> ('t, 's) fork_item" where
  "make_item sha b = \<lparr>fi_prev = None, fi_num = block_num b, fi_id = fst (blk_id sha b), fi_data = snd (blk_id sha b)\<rparr>"

definition fdb_reset :: "('t, 's) fork_database \<Rightarrow> ('t, 's) fork_database" where
  "fdb_reset s = s\<lparr>fdb_head := None, fdb_index := []\<rparr>"

definition fdb_pop_block :: "nat list \<Rightarrow> ('t, 's) fork_database \<Rightarrow> fork_error + ('t, 's) fork_database" where
  "fdb_pop_block held s = (case fdb_head s of None \<Rightarrow> Inl No_block_to_pop
     | Some h \<Rightarrow> (case weak_lock held s (fi_prev (fitem s h)) of None \<Rightarrow> Inl Null_head
        | Some p \<Rightarrow> Inr (s\<lparr>fdb_head := Some p\<rparr>)))"

definition fdb_start_block ::
  "('s signed_header \<Rightarrow> 32 word list) \<Rightarrow> ('t, 's) signed_block \<Rightarrow> ('t, 's) fork_database \<Rightarrow> ('t, 's) fork_database" where
  "fdb_start_block sha b s =
     (let a = length (items s); s1 = index_insert a (s\<lparr>items := items s @ [make_item sha b]\<rparr>)
      in s1\<lparr>fdb_head := Some a\<rparr>)"

text \<open>The end of \<^verbatim>\<open>_push_block\<close>: the item in the index becomes the head when it has the highest number, and old items go.\<close>

definition fdb_advance :: "nat \<Rightarrow> ('t, 's) fork_database \<Rightarrow> ('t, 's) fork_database" where
  "fdb_advance a s =
     (case fdb_head s of None \<Rightarrow> s\<lparr>fdb_head := Some a\<rparr>
      | Some h \<Rightarrow> if fi_num (fitem s a) > fi_num (fitem s h) then
          let min_num = fi_num (fitem s a) - min (fdb_max_size s) (fi_num (fitem s a))
          in s\<lparr>fdb_head := Some a, fdb_index := erase_below (\<lambda>x. fi_num (fitem s x)) (\<lambda>n. n < min_num) (fdb_index s)\<rparr>
        else s)"

text \<open>\<^verbatim>\<open>_push_block\<close> on the item at \<open>a\<close>, which the caller has just made.\<close>

definition fdb_push_item :: "nat \<Rightarrow> ('t, 's) fork_database \<Rightarrow> fork_error + ('t, 's) fork_database" where
  "fdb_push_item a s =
     (let it = fitem s a
      in if (case fdb_head s of Some h \<Rightarrow> \<not> int (unat (fi_num it)) > max 0 (int (unat (fi_num (fitem s h))) - int (unat (fdb_max_size s)))
             | None \<Rightarrow> False)
      then Inl Too_old
      else if fdb_head s \<noteq> None \<and> previous (fi_data it) \<noteq> null_id \<and> find_block s (previous (fi_data it)) = None
      then Inl Unlinkable_block
      else
        let p = (if fdb_head s \<noteq> None \<and> previous (fi_data it) \<noteq> null_id then find_block s (previous (fi_data it)) else fi_prev it);
            s1 = index_insert a (s\<lparr>items := (items s)[a := it\<lparr>fi_prev := p\<rparr>]\<rparr>)
        in Inr (fdb_advance a s1))"

definition fdb_push_block ::
  "('s signed_header \<Rightarrow> 32 word list) \<Rightarrow> ('t, 's) signed_block \<Rightarrow> ('t, 's) fork_database \<Rightarrow>
     fork_error + (nat option \<times> ('t, 's) fork_database)" where
  "fdb_push_block sha b s =
     (case fdb_push_item (length (items s)) (s\<lparr>items := items s @ [make_item sha b]\<rparr>) of
       Inl e \<Rightarrow> Inl e | Inr s' \<Rightarrow> Inr (fdb_head s', s'))"

definition fdb_set_max_size :: "32 word \<Rightarrow> ('t, 's) fork_database \<Rightarrow> ('t, 's) fork_database" where
  "fdb_set_max_size n s =
     (let s1 = s\<lparr>fdb_max_size := n\<rparr>
      in case fdb_head s of None \<Rightarrow> s1
        | Some h \<Rightarrow> s1\<lparr>fdb_index := erase_below (\<lambda>x. fi_num (fitem s x))
            (\<lambda>m. int (unat m) < max 0 (int (unat (fi_num (fitem s h))) - int (unat n))) (fdb_index s)\<rparr>)"

definition is_known_block :: "block_id_type \<Rightarrow> ('t, 's) fork_database \<Rightarrow> bool" where
  "is_known_block i s \<longleftrightarrow> find_block s i \<noteq> None"

definition fetch_block_by_number :: "32 word \<Rightarrow> ('t, 's) fork_database \<Rightarrow> nat list" where
  "fetch_block_by_number n s =
     takeWhile (\<lambda>a. fi_num (fitem s a) = n) (dropWhile (\<lambda>a. fi_num (fitem s a) \<noteq> n) (fdb_index s))"

text \<open>The loops of \<^verbatim>\<open>fetch_branch_from\<close>: down one branch to a number, and down both to a common predecessor.\<close>

partial_function (option) descend ::
  "nat list \<Rightarrow> ('t, 's) fork_database \<Rightarrow> 32 word \<Rightarrow> nat \<Rightarrow> nat list \<Rightarrow> (fork_error + nat list \<times> nat) option" where
  "descend held s n a acc =
     (if block_num (fi_data (fitem s a)) > n then
        (case weak_lock held s (fi_prev (fitem s a)) of None \<Rightarrow> Some (Inl Broken_branch)
         | Some p \<Rightarrow> descend held s n p (acc @ [a]))
      else Some (Inr (acc, a)))"

partial_function (option) descend_both ::
  "nat list \<Rightarrow> ('t, 's) fork_database \<Rightarrow> nat \<Rightarrow> nat \<Rightarrow> nat list \<Rightarrow> nat list \<Rightarrow> (fork_error + nat list \<times> nat list) option" where
  "descend_both held s a b acc1 acc2 =
     (if previous (fi_data (fitem s a)) \<noteq> previous (fi_data (fitem s b)) then
        (case weak_lock held s (fi_prev (fitem s a)) of None \<Rightarrow> Some (Inl Broken_branch)
         | Some p \<Rightarrow> (case weak_lock held s (fi_prev (fitem s b)) of None \<Rightarrow> Some (Inl Broken_branch)
            | Some q \<Rightarrow> descend_both held s p q (acc1 @ [a]) (acc2 @ [b])))
      else Some (Inr (acc1 @ [a], acc2 @ [b])))"

definition fetch_branch_from ::
  "nat list \<Rightarrow> block_id_type \<Rightarrow> block_id_type \<Rightarrow> ('t, 's) fork_database \<Rightarrow> (fork_error + nat list \<times> nat list) option" where
  "fetch_branch_from held first second s =
     (case find_block s first of None \<Rightarrow> Some (Inl Unknown_block)
      | Some a \<Rightarrow> (case find_block s second of None \<Rightarrow> Some (Inl Unknown_block)
         | Some b \<Rightarrow>
            Option.bind (descend held s (block_num (fi_data (fitem s b))) a []) (\<lambda>r. case r of Inl e \<Rightarrow> Some (Inl e)
            | Inr (acc1, a1) \<Rightarrow>
                Option.bind (descend held s (block_num (fi_data (fitem s a1))) b []) (\<lambda>r. case r of Inl e \<Rightarrow> Some (Inl e)
                | Inr (acc2, b1) \<Rightarrow> descend_both held s a1 b1 acc1 acc2))))"

definition fdb_set_head :: "nat option \<Rightarrow> ('t, 's) fork_database \<Rightarrow> ('t, 's) fork_database" where
  "fdb_set_head h s = s\<lparr>fdb_head := h\<rparr>"

definition fdb_remove :: "nat list \<Rightarrow> block_id_type \<Rightarrow> ('t, 's) fork_database \<Rightarrow> ('t, 's) fork_database" where
  "fdb_remove held i s =
     (let s1 = s\<lparr>fdb_index := filter (\<lambda>a. fi_id (fitem s a) \<noteq> i) (fdb_index s)\<rparr>
      in case fdb_head s1 of None \<Rightarrow> s1
        | Some h \<Rightarrow> if fi_id (fitem s1 h) = i then
            (case fdb_pop_block held s1 of Inl e \<Rightarrow> s1\<lparr>fdb_head := None\<rparr> | Inr s2 \<Rightarrow> s2)
          else s1)"

declare descend.simps [code] descend_both.simps [code]

section \<open>The tree of items\<close>

text \<open>Every item has the number of its block, its identifier carries that number, and its predecessor is the block it names,
  with the number before. The index has no identifier twice and is in the order of the numbers.\<close>

definition item_ok :: "('t, 's) fork_database \<Rightarrow> ('t, 's) fork_item \<Rightarrow> bool" where
  "item_ok s it \<longleftrightarrow> fi_num it = block_num (fi_data it) \<and> num_from_id (fi_id it) = fi_num it \<and>
     (\<forall>p. fi_prev it = Some p \<longrightarrow> p < length (items s) \<and> fi_id (fitem s p) = previous (fi_data it) \<and>
        unat (fi_num it) = Suc (unat (fi_num (fitem s p))))"

definition fork_wf :: "('t, 's) fork_database \<Rightarrow> bool" where
  "fork_wf s \<longleftrightarrow> (\<forall>a < length (items s). item_ok s (fitem s a)) \<and>
     set (fdb_index s) \<subseteq> {..< length (items s)} \<and> set_option (fdb_head s) \<subseteq> {..< length (items s)} \<and>
     distinct (map (\<lambda>a. fi_id (fitem s a)) (fdb_index s)) \<and> sorted (map (\<lambda>a. fi_num (fitem s a)) (fdb_index s))"


lemma fork_wfD:
  assumes "fork_wf s"
  shows "a < length (items s) \<Longrightarrow> item_ok s (fitem s a)" "a \<in> set (fdb_index s) \<Longrightarrow> a < length (items s)"
    "fdb_head s = Some a \<Longrightarrow> a < length (items s)"
    "distinct (map (\<lambda>a. fi_id (fitem s a)) (fdb_index s))" "sorted (map (\<lambda>a. fi_num (fitem s a)) (fdb_index s))"
  using assms by (auto simp: fork_wf_def)

lemma find_block_Some: "find_block s i = Some a \<Longrightarrow> a \<in> set (fdb_index s) \<and> fi_id (fitem s a) = i"
  by (auto simp: find_block_def find_Some_iff)

lemma find_block_None: "find_block s i = None \<longleftrightarrow> (\<forall>a \<in> set (fdb_index s). fi_id (fitem s a) \<noteq> i)"
  by (auto simp: find_block_def find_None_iff)

lemma set_index_put [simp]: "set (index_put key a xs) = insert a (set xs)"
  by (induction xs) auto

lemma sorted_index_put: "sorted (map key xs) \<Longrightarrow> sorted (map key (index_put key a xs))"
  by (induction xs) auto

lemma distinct_index_put:
  "distinct (map f (index_put key a xs)) \<longleftrightarrow> distinct (map f xs) \<and> f a \<notin> f ` set xs"
  by (induction xs) auto

lemma erase_below_filter:
  assumes "sorted (map key xs)" "\<forall>x y. low y \<longrightarrow> x \<le> y \<longrightarrow> low x"
  shows "erase_below key low xs = filter (\<lambda>x. \<not> low (key x)) xs"
  using assms(1)
proof (induction xs)
  case (Cons x xs)
  show ?case
  proof (cases "low (key x)")
    case False
    have "\<forall>y \<in> set xs. \<not> low (key y)" using Cons.prems False assms(2) by auto
    then have "filter (\<lambda>y. \<not> low (key y)) xs = xs" by simp
    with False show ?thesis by simp
  qed (use Cons in simp)
qed simp

text \<open>The well-formed blocks: the cache of the identifier is empty or right, and the hash has its seven words.\<close>

definition block_ok :: "('s signed_header \<Rightarrow> 32 word list) \<Rightarrow> ('t, 's) signed_block \<Rightarrow> bool" where
  "block_ok sha b \<longleftrightarrow> length (sha (header_of b)) = 7 \<and> (cached_id b ! 0 = 0 \<or> cached_id b = compute_id sha b)"

lemma make_item_block:
  assumes "block_ok sha b"
  shows "fi_num (make_item sha b) = block_num b" "fi_id (make_item sha b) = compute_id sha b" "fi_prev (make_item sha b) = None"
    "previous (fi_data (make_item sha b)) = previous b" "block_num (fi_data (make_item sha b)) = block_num b"
    "num_from_id (compute_id sha b) = block_num b"
  using assms num_from_compute_id(1) [of sha b] by (auto simp: make_item_def blk_id_def block_ok_def Let_def block_num_def)

section \<open>Every operation keeps the tree\<close>

lemma append_item_wf:
  assumes wf: "fork_wf s" and it: "fi_prev it = None" "fi_num it = block_num (fi_data it)" "num_from_id (fi_id it) = fi_num it"
  shows "fork_wf (s\<lparr>items := items s @ [it]\<rparr>)"
proof -
  have "\<forall>a \<in> set (fdb_index s). (items s @ [it]) ! a = fitem s a" using fork_wfD(2) [OF wf] by (simp add: nth_append)
  then have m: "map (\<lambda>a. f ((items s @ [it]) ! a)) (fdb_index s) = map (\<lambda>a. f (fitem s a)) (fdb_index s)" for f by simp
  have "item_ok (s\<lparr>items := items s @ [it]\<rparr>) ((items s @ [it]) ! a)" if "a < Suc (length (items s))" for a
    using that it fork_wfD(1) [OF wf, of a] by (auto simp: item_ok_def nth_append less_Suc_eq)
  then show ?thesis using wf m unfolding fork_wf_def by (fastforce simp: m)
qed

lemma set_prev_wf:
  assumes wf: "fork_wf s" and a: "a < length (items s)"
    and p: "\<forall>q. p = Some q \<longrightarrow> q < length (items s) \<and> fi_id (fitem s q) = previous (fi_data (fitem s a)) \<and>
        unat (fi_num (fitem s a)) = Suc (unat (fi_num (fitem s q)))"
  shows "fork_wf (s\<lparr>items := (items s)[a := (fitem s a)\<lparr>fi_prev := p\<rparr>]\<rparr>)"
proof -
  let ?xs = "(items s)[a := (fitem s a)\<lparr>fi_prev := p\<rparr>]"
  have same: "fi_id (?xs ! x) = fi_id (fitem s x)" "fi_num (?xs ! x) = fi_num (fitem s x)" "fi_data (?xs ! x) = fi_data (fitem s x)" for x
    using a by (auto simp: nth_list_update)
  have "item_ok (s\<lparr>items := ?xs\<rparr>) (?xs ! x)" if "x < length (items s)" for x
    using fork_wfD(1) [OF wf that] p a by (cases "x = a") (auto simp: item_ok_def same nth_list_update)
  then show ?thesis using wf unfolding fork_wf_def by (simp add: same)
qed

lemma index_insert_fields [simp]:
  "items (index_insert a s) = items s" "fdb_head (index_insert a s) = fdb_head s" "fdb_max_size (index_insert a s) = fdb_max_size s"
  by (simp_all add: index_insert_def)

lemma index_insert_wf:
  assumes wf: "fork_wf s" and a: "a < length (items s)"
  shows "fork_wf (index_insert a s)"
proof -
  have "item_ok (s\<lparr>fdb_index := i\<rparr>) it = item_ok s it" for i it by (simp add: item_ok_def)
  then show ?thesis
    using wf a sorted_index_put [OF fork_wfD(5) [OF wf], of a]
    by (auto simp: index_insert_def fork_wf_def distinct_index_put find_block_None)
qed

lemma index_subset_wf:
  assumes wf: "fork_wf s"
  shows "fork_wf (s\<lparr>fdb_max_size := m, fdb_index := filter P (fdb_index s)\<rparr>)"
proof -
  have "item_ok (s\<lparr>fdb_max_size := m, fdb_index := i\<rparr>) it = item_ok s it" for i it by (simp add: item_ok_def)
  then show ?thesis using wf by (auto simp: fork_wf_def distinct_map_filter sorted_filter)
qed

lemma set_head_wf:
  assumes wf: "fork_wf s" and "\<forall>a. h = Some a \<longrightarrow> a < length (items s)"
  shows "fork_wf (s\<lparr>fdb_head := h\<rparr>)"
proof -
  have "item_ok (s\<lparr>fdb_head := h\<rparr>) it = item_ok s it" for it by (simp add: item_ok_def)
  then show ?thesis using assms by (auto simp: fork_wf_def)
qed

lemma weak_lock_Some: "weak_lock held s w = Some p \<Longrightarrow> w = Some p"
  by (auto simp: weak_lock_def split: option.splits if_splits)

lemma pop_block_wf:
  assumes wf: "fork_wf s" and run: "fdb_pop_block held s = Inr s'"
  shows "fork_wf s'"
proof -
  obtain h p where h: "fdb_head s = Some h" "weak_lock held s (fi_prev (fitem s h)) = Some p" "s' = s\<lparr>fdb_head := Some p\<rparr>"
    using run by (auto simp: fdb_pop_block_def split: option.splits)
  have "p < length (items s)"
    using fork_wfD(1) [OF wf fork_wfD(3) [OF wf h(1)]] weak_lock_Some [OF h(2)] by (simp add: item_ok_def)
  then show ?thesis using set_head_wf [OF wf] h(3) by simp
qed

lemma remove_wf:
  assumes wf: "fork_wf s"
  shows "fork_wf (fdb_remove held i s)"
proof -
  let ?s = "s\<lparr>fdb_index := filter (\<lambda>a. fi_id (fitem s a) \<noteq> i) (fdb_index s)\<rparr>"
  have s: "fork_wf ?s" using index_subset_wf [OF wf, where m = "fdb_max_size s"] by simp
  then have none: "fork_wf (?s\<lparr>fdb_head := None\<rparr>)" by (rule set_head_wf) simp
  show ?thesis
    unfolding fdb_remove_def Let_def
    using s none pop_block_wf [OF s, of held] by (auto split: option.split sum.split)
qed

lemma start_block_wf:
  assumes wf: "fork_wf s" and b: "block_ok sha b"
  shows "fork_wf (fdb_start_block sha b s)"
proof -
  let ?s = "s\<lparr>items := items s @ [make_item sha b]\<rparr>"
  have "fork_wf ?s" using append_item_wf [OF wf, of "make_item sha b"] make_item_block [OF b] by simp
  then have "fork_wf (index_insert (length (items s)) ?s)" by (rule index_insert_wf) simp
  then show ?thesis by (simp add: fdb_start_block_def Let_def set_head_wf)
qed

lemma set_max_size_wf:
  assumes wf: "fork_wf s"
  shows "fork_wf (fdb_set_max_size n s)"
proof (cases "fdb_head s")
  case None
  then show ?thesis using index_subset_wf [OF wf, where P = "\<lambda>_. True" and m = n] by (simp add: fdb_set_max_size_def)
next
  case (Some h)
  let ?low = "\<lambda>m :: 32 word. int (unat m) < max 0 (int (unat (fi_num (fitem s h))) - int (unat n))"
  have "erase_below (\<lambda>x. fi_num (fitem s x)) ?low (fdb_index s) = filter (\<lambda>x. \<not> ?low (fi_num (fitem s x))) (fdb_index s)"
    by (rule erase_below_filter [OF fork_wfD(5) [OF wf]]) (auto simp: word_le_def)
  with Some show ?thesis
    using index_subset_wf [OF wf, where P = "\<lambda>x. \<not> ?low (fi_num (fitem s x))" and m = n]
    by (simp add: fdb_set_max_size_def Let_def)
qed

lemma unat_plus_1: "x + 1 \<noteq> (0 :: 32 word) \<Longrightarrow> unat (x + 1) = Suc (unat x)"
  by (metis Suc_eq_plus1 add.commute unatSuc)

text \<open>What a successful push does, in terms of the item that is pushed.\<close>

lemma push_block_cases:
  assumes wf: "fork_wf s" and b: "block_ok sha b" and run: "fdb_push_block sha b s = Inr (r, s')"
  obtains p s1 where "fork_wf s1" "items s1 = items s @ [(make_item sha b)\<lparr>fi_prev := p\<rparr>]" "fdb_head s1 = fdb_head s"
    "fdb_max_size s1 = fdb_max_size s"
    "fdb_index s1 = (if is_known_block (compute_id sha b) s then fdb_index s
       else index_put (\<lambda>x. fi_num (fitem s1 x)) (length (items s)) (fdb_index s))"
    "fdb_head s \<noteq> None \<and> previous b \<noteq> null_id \<longrightarrow> p = find_block s (previous b) \<and> p \<noteq> None"
    "\<forall>h. fdb_head s = Some h \<longrightarrow> block_num b \<noteq> 0 \<and>
       int (unat (block_num b)) > int (unat (fi_num (fitem s h))) - int (unat (fdb_max_size s))"
    "r = fdb_head s'"
    "s' = (case fdb_head s of None \<Rightarrow> s1\<lparr>fdb_head := Some (length (items s))\<rparr>
       | Some h \<Rightarrow> if block_num b > fi_num (fitem s h) then
           s1\<lparr>fdb_head := Some (length (items s)), fdb_index := filter (\<lambda>x. unat (block_num b) \<le> unat (fi_num (fitem s1 x)) + unat (fdb_max_size s)) (fdb_index s1)\<rparr>
         else s1)"
proof -
  let ?a = "length (items s)" and ?it = "make_item sha b"
  define s0 where "s0 = s\<lparr>items := items s @ [?it]\<rparr>"
  note it = make_item_block [OF b]
  have wf0: "fork_wf s0" unfolding s0_def by (rule append_item_wf [OF wf]) (simp_all add: it)
  have s0: "fitem s0 ?a = ?it" "x < length (items s) \<Longrightarrow> fitem s0 x = fitem s x" "fdb_index s0 = fdb_index s" "fdb_head s0 = fdb_head s"
    "fdb_max_size s0 = fdb_max_size s" "?a < length (items s0)" for x
    by (simp_all add: s0_def nth_append)
  have find: "find_block s0 i = find_block s i" for i
    using fork_wfD(2) [OF wf] by (auto simp: find_block_def s0 intro!: find_cong)
  have not_old: "block_num b \<noteq> 0 \<and> int (unat (block_num b)) > int (unat (fi_num (fitem s h))) - int (unat (fdb_max_size s))"
    if "fdb_head s = Some h" for h
    using run that s0(2) [OF fork_wfD(3) [OF wf that]]
    by (auto simp: fdb_push_block_def fdb_push_item_def Let_def s0_def [symmetric] s0 it split: if_splits)
  define p where "p = (if fdb_head s \<noteq> None \<and> previous b \<noteq> null_id then find_block s (previous b) else None)"
  have p: "fdb_head s \<noteq> None \<and> previous b \<noteq> null_id \<longrightarrow> p = find_block s (previous b) \<and> p \<noteq> None"
    using run by (auto simp: fdb_push_block_def fdb_push_item_def Let_def s0_def [symmetric] s0 it find p_def split: if_splits)
  define s2 where "s2 = s0\<lparr>items := (items s0)[?a := ?it\<lparr>fi_prev := p\<rparr>]\<rparr>"
  have wf2: "fork_wf s2"
    unfolding s2_def s0(1) [symmetric]
  proof (rule set_prev_wf [OF wf0 s0(6)], intro allI impI)
    fix q assume q: "p = Some q"
    then have h: "fdb_head s \<noteq> None" and fq: "find_block s (previous b) = Some q" by (auto simp: p_def split: if_splits)
    note qi = find_block_Some [OF fq]
    have ql: "q < length (items s)" using qi fork_wfD(2) [OF wf] by blast
    have "num_from_id (previous b) = fi_num (fitem s q)" using fork_wfD(1) [OF wf ql] qi by (simp add: item_ok_def)
    then have "unat (block_num b) = Suc (unat (fi_num (fitem s q)))"
      using not_old h unat_plus_1 [of "fi_num (fitem s q)"] by (auto simp: block_num_def)
    then show "q < length (items s0) \<and> fi_id (fitem s0 q) = previous (fi_data (fitem s0 ?a)) \<and>
        unat (fi_num (fitem s0 ?a)) = Suc (unat (fi_num (fitem s0 q)))"
      using qi ql s0(1) s0(2) [OF ql] s0(6) it by simp
  qed
  have wf1: "fork_wf (index_insert ?a s2)" by (rule index_insert_wf [OF wf2]) (simp add: s2_def s0_def)
  have i2: "items s2 = items s @ [?it\<lparr>fi_prev := p\<rparr>]" by (simp add: s2_def s0_def)
  then have f2: "fitem s2 ?a = ?it\<lparr>fi_prev := p\<rparr>" "x < length (items s) \<Longrightarrow> fitem s2 x = fitem s x" for x by (simp_all add: nth_append)
  have h2: "fdb_head s2 = fdb_head s" "fdb_max_size s2 = fdb_max_size s" "fdb_index s2 = fdb_index s" by (simp_all add: s2_def s0)
  have k2: "find_block s2 i = find_block s i" for i
    using fork_wfD(2) [OF wf] by (auto simp: find_block_def h2 f2 intro!: find_cong)
  have push: "fdb_push_item ?a s0 = Inr s'" "r = fdb_head s'"
    using run by (auto simp: fdb_push_block_def s0_def split: sum.splits)
  have s': "s' = fdb_advance ?a (index_insert ?a s2)"
    using push(1) unfolding fdb_push_item_def Let_def s0(1) s0(4) it find
    by (auto simp: s2_def p_def it s0(4) split: if_splits)
  show ?thesis
  proof (rule that [OF wf1])
    show "items (index_insert ?a s2) = items s @ [?it\<lparr>fi_prev := p\<rparr>]" by (simp add: i2)
    show "fdb_index (index_insert ?a s2) = (if is_known_block (compute_id sha b) s then fdb_index s
       else index_put (\<lambda>x. fi_num (fitem (index_insert ?a s2) x)) ?a (fdb_index s))"
      by (simp add: index_insert_def f2 it k2 is_known_block_def h2)
    let ?k = "\<lambda>x. fi_num (fitem (index_insert ?a s2) x)"
    let ?n = "block_num b - min (fdb_max_size s) (block_num b)"
    have "(\<not> n < ?n) = (unat (block_num b) \<le> unat n + unat (fdb_max_size s))" for n
      by (cases "fdb_max_size s \<le> block_num b") (auto simp: min_def word_less_nat_alt word_le_nat_alt unat_sub)
    moreover have "erase_below ?k (\<lambda>n. n < ?n) (fdb_index (index_insert ?a s2)) =
        filter (\<lambda>x. \<not> ?k x < ?n) (fdb_index (index_insert ?a s2))"
      by (rule erase_below_filter [OF fork_wfD(5) [OF wf1]]) auto
    ultimately show "s' = (case fdb_head s of None \<Rightarrow> (index_insert ?a s2)\<lparr>fdb_head := Some ?a\<rparr>
       | Some h \<Rightarrow> if block_num b > fi_num (fitem s h) then
           (index_insert ?a s2)\<lparr>fdb_head := Some ?a, fdb_index := filter (\<lambda>x. unat (block_num b) \<le>
             unat (fi_num (fitem (index_insert ?a s2) x)) + unat (fdb_max_size s)) (fdb_index (index_insert ?a s2))\<rparr>
         else index_insert ?a s2)"
      using fork_wfD(3) [OF wf] unfolding s' fdb_advance_def by (auto simp: f2 it h2 Let_def split: option.split)
  qed (use p not_old push(2) h2 in auto)
qed


lemma push_block_wf:
  assumes wf: "fork_wf s" and b: "block_ok sha b" and run: "fdb_push_block sha b s = Inr (r, s')"
  shows "fork_wf s'"
proof (rule push_block_cases [OF wf b run])
  fix p s1
  assume s1: "fork_wf s1" "items s1 = items s @ [(make_item sha b)\<lparr>fi_prev := p\<rparr>]"
    and s': "s' = (case fdb_head s of None \<Rightarrow> s1\<lparr>fdb_head := Some (length (items s))\<rparr>
       | Some h \<Rightarrow> if block_num b > fi_num (fitem s h) then
           s1\<lparr>fdb_head := Some (length (items s)), fdb_index := filter (\<lambda>x. unat (block_num b) \<le> unat (fi_num (fitem s1 x)) + unat (fdb_max_size s)) (fdb_index s1)\<rparr>
         else s1)"
  have h: "fork_wf (s1\<lparr>fdb_head := Some (length (items s))\<rparr>)" using set_head_wf [OF s1(1)] s1(2) by simp
  from h s1(1) index_subset_wf [OF h, where m = "fdb_max_size s1"] show ?thesis unfolding s' by (auto split: option.split)
qed

text \<open>The states that the operations lead to. A caller passes \<^verbatim>\<open>set_head\<close> a pointer to an item that it got from the database.\<close>

inductive fork_reachable :: "('s signed_header \<Rightarrow> 32 word list) \<Rightarrow> ('t, 's) fork_database \<Rightarrow> bool" for sha where
  new: "fork_reachable sha new_fork_database"
| reset: "fork_reachable sha s \<Longrightarrow> fork_reachable sha (fdb_reset s)"
| start: "fork_reachable sha s \<Longrightarrow> block_ok sha b \<Longrightarrow> fork_reachable sha (fdb_start_block sha b s)"
| push: "fork_reachable sha s \<Longrightarrow> block_ok sha b \<Longrightarrow> fdb_push_block sha b s = Inr (r, s') \<Longrightarrow> fork_reachable sha s'"
| pop: "fork_reachable sha s \<Longrightarrow> fdb_pop_block held s = Inr s' \<Longrightarrow> fork_reachable sha s'"
| remove: "fork_reachable sha s \<Longrightarrow> fork_reachable sha (fdb_remove held i s)"
| set_head: "fork_reachable sha s \<Longrightarrow> \<forall>a. h = Some a \<longrightarrow> a < length (items s) \<Longrightarrow> fork_reachable sha (fdb_set_head h s)"
| set_max_size: "fork_reachable sha s \<Longrightarrow> fork_reachable sha (fdb_set_max_size n s)"

lemma reachable_wf: "fork_reachable sha s \<Longrightarrow> fork_wf s"
proof (induction rule: fork_reachable.induct)
  case (reset s)
  then show ?case
    using index_subset_wf [OF set_head_wf, of s None, where P = "\<lambda>_. False" and m = "fdb_max_size s"] by (simp add: fdb_reset_def)
next
  case (push s b r s')
  then show ?case by (blast intro: push_block_wf)
next
  case (pop s held s')
  then show ?case by (blast intro: pop_block_wf)
next
  case (set_head s h)
  then show ?case by (simp add: fdb_set_head_def set_head_wf)
qed (simp_all add: start_block_wf remove_wf set_max_size_wf, simp add: new_fork_database_def fork_wf_def)

section \<open>Branches\<close>

text \<open>The ancestry of an item: the items that its links lead to, as far as they can be locked.\<close>

function ancestry :: "nat list \<Rightarrow> ('t, 's) fork_database \<Rightarrow> nat \<Rightarrow> nat list" where
  "ancestry held s a = a # (case weak_lock held s (fi_prev (fitem s a)) of None \<Rightarrow> []
     | Some p \<Rightarrow> if fi_num (fitem s p) < fi_num (fitem s a) then ancestry held s p else [])"
  by auto
termination by (relation "measure (\<lambda>(_, s, a). unat (fi_num (fitem s a)))") (auto simp: word_less_nat_alt)

declare ancestry.simps [simp del]

lemma lock_prev:
  assumes wf: "fork_wf s" and a: "a < length (items s)" and p: "weak_lock held s (fi_prev (fitem s a)) = Some p"
  shows "p < length (items s)" "fi_id (fitem s p) = previous (fi_data (fitem s a))" "unat (fi_num (fitem s a)) = Suc (unat (fi_num (fitem s p)))"
  using fork_wfD(1) [OF wf a] weak_lock_Some [OF p] by (auto simp: item_ok_def)

lemma ancestry_unfold:
  assumes wf: "fork_wf s" and a: "a < length (items s)"
  shows "ancestry held s a = a # (case weak_lock held s (fi_prev (fitem s a)) of None \<Rightarrow> [] | Some p \<Rightarrow> ancestry held s p)"
  using lock_prev(3) [OF assms] by (subst ancestry.simps) (auto simp: word_less_nat_alt split: option.split)

lemma num_eq: "fork_wf s \<Longrightarrow> a < length (items s) \<Longrightarrow> block_num (fi_data (fitem s a)) = fi_num (fitem s a)"
  using fork_wfD(1) [of s a] by (simp add: item_ok_def)

text \<open>The first loop walks down the ancestry.\<close>

lemma descend_ancestry:
  assumes wf: "fork_wf s" and a: "a < length (items s)"
  shows "descend held s n a acc =
    (let k = unat (fi_num (fitem s a)) - unat n; A = ancestry held s a
     in if k < length A then Some (Inr (acc @ take k A, A ! k)) else Some (Inl Broken_branch))"
  using a
proof (induction "unat (fi_num (fitem s a))" arbitrary: a acc rule: less_induct)
  case less
  show ?case
  proof (cases "fi_num (fitem s a) > n")
    case False
    then show ?thesis
      using less(2) by (subst descend.simps) (simp add: num_eq [OF wf] ancestry_unfold [OF wf] Let_def word_less_nat_alt)
  next
    case True
    show ?thesis
    proof (cases "weak_lock held s (fi_prev (fitem s a))")
      case None
      then show ?thesis
        using less(2) True by (subst descend.simps) (simp add: num_eq [OF wf] ancestry_unfold [OF wf] Let_def word_less_nat_alt)
    next
      case (Some p)
      note l = lock_prev [OF wf less(2) Some]
      define k where "k = unat (fi_num (fitem s p)) - unat n"
      have k: "unat (fi_num (fitem s a)) - unat n = Suc k" using True l(3) by (simp add: k_def word_less_nat_alt)
      have "descend held s n a acc = descend held s n p (acc @ [a])"
        using True Some less(2) by (subst descend.simps) (simp add: num_eq [OF wf])
      also have "\<dots> = (if k < length (ancestry held s p) then Some (Inr ((acc @ [a]) @ take k (ancestry held s p), ancestry held s p ! k))
          else Some (Inl Broken_branch))"
        using less(1) [OF _ l(1), of "acc @ [a]"] l(3) by (simp add: Let_def k_def)
      finally show ?thesis using Some less(2) by (simp add: k Let_def ancestry_unfold [OF wf less(2)])
    qed
  qed
qed


text \<open>The last loop walks down both ancestries in step.\<close>

fun meet :: "('a \<Rightarrow> 'b) \<Rightarrow> 'a list \<Rightarrow> 'a list \<Rightarrow> ('a list \<times> 'a list) option" where
  "meet f (a # as) (b # bs) = (if f a = f b then Some ([a], [b]) else map_option (\<lambda>(x, y). (a # x, b # y)) (meet f as bs))"
| "meet f _ _ = None"

lemma meet_Some:
  "meet f A B = Some (x, y) \<Longrightarrow>
     \<exists>k. k < length A \<and> k < length B \<and> f (A ! k) = f (B ! k) \<and> (\<forall>j < k. f (A ! j) \<noteq> f (B ! j)) \<and>
       x = take (Suc k) A \<and> y = take (Suc k) B"
proof (induction f A B arbitrary: x y rule: meet.induct)
  case (1 f a as b bs)
  show ?case
  proof (cases "f a = f b")
    case False
    with 1(2) obtain x' y' where m: "meet f as bs = Some (x', y')" "x = a # x'" "y = b # y'" by auto
    from 1(1) [OF False m(1)] obtain k where k: "k < length as" "k < length bs" "f (as ! k) = f (bs ! k)"
      "\<forall>j < k. f (as ! j) \<noteq> f (bs ! j)" "x' = take (Suc k) as" "y' = take (Suc k) bs" by blast
    have "\<forall>j < Suc k. f ((a # as) ! j) \<noteq> f ((b # bs) ! j)" using False k(4) by (auto simp: less_Suc_eq_0_disj)
    with k m show ?thesis by (intro exI [of _ "Suc k"]) auto
  qed (use 1(2) in auto)
qed simp_all

lemma meet_None: "meet f A B = None \<Longrightarrow> k < length A \<Longrightarrow> k < length B \<Longrightarrow> f (A ! k) \<noteq> f (B ! k)"
proof (induction f A B arbitrary: k rule: meet.induct)
  case (1 f a as b bs)
  then show ?case by (cases k) (auto split: if_splits)
qed simp_all

abbreviation prev_id :: "('t, 's) fork_database \<Rightarrow> nat \<Rightarrow> block_id_type" where
  "prev_id s a \<equiv> previous (fi_data (fitem s a))"

lemma descend_both_meet:
  assumes wf: "fork_wf s" and a: "a < length (items s)" "b < length (items s)"
  shows "descend_both held s a b acc1 acc2 =
    (case meet (prev_id s) (ancestry held s a) (ancestry held s b) of None \<Rightarrow> Some (Inl Broken_branch)
     | Some (x, y) \<Rightarrow> Some (Inr (acc1 @ x, acc2 @ y)))"
  using a
proof (induction "unat (fi_num (fitem s a))" arbitrary: a b acc1 acc2 rule: less_induct)
  case less
  note un = ancestry_unfold [OF wf less(2), of held] ancestry_unfold [OF wf less(3), of held]
  show ?case
  proof (cases "prev_id s a = prev_id s b")
    case True
    then show ?thesis by (subst descend_both.simps) (simp add: un)
  next
    case False
    show ?thesis
    proof (cases "weak_lock held s (fi_prev (fitem s a)) = None \<or> weak_lock held s (fi_prev (fitem s b)) = None")
      case True
      with False show ?thesis by (subst descend_both.simps) (auto simp: un split: option.splits)
    next
      case locked: False
      then obtain p q where p: "weak_lock held s (fi_prev (fitem s a)) = Some p" "weak_lock held s (fi_prev (fitem s b)) = Some q" by auto
      note l = lock_prev [OF wf less(2) p(1)] lock_prev [OF wf less(3) p(2)]
      have "descend_both held s a b acc1 acc2 = descend_both held s p q (acc1 @ [a]) (acc2 @ [b])"
        using False p by (subst descend_both.simps) simp
      also have "\<dots> = (case meet (prev_id s) (ancestry held s p) (ancestry held s q) of None \<Rightarrow> Some (Inl Broken_branch)
          | Some (x, y) \<Rightarrow> Some (Inr ((acc1 @ [a]) @ x, (acc2 @ [b]) @ y)))"
        using less(1) [OF _ l(1) l(4)] l(3) by simp
      finally show ?thesis using False p by (simp add: un split: option.split)
    qed
  qed
qed

lemma ancestry_nth:
  assumes wf: "fork_wf s" and "a < length (items s)" "i < length (ancestry held s a)"
  shows "ancestry held s a ! i < length (items s)" "unat (fi_num (fitem s (ancestry held s a ! i))) + i = unat (fi_num (fitem s a))"
    "ancestry held s (ancestry held s a ! i) = drop i (ancestry held s a)"
proof -
  have "ancestry held s a ! i < length (items s) \<and> unat (fi_num (fitem s (ancestry held s a ! i))) + i = unat (fi_num (fitem s a)) \<and>
    ancestry held s (ancestry held s a ! i) = drop i (ancestry held s a)"
    using assms(2,3)
  proof (induction i arbitrary: a)
    case 0
    then show ?case by (simp add: ancestry_unfold [OF wf 0(1)])
  next
    case (Suc i)
    then obtain p where p: "weak_lock held s (fi_prev (fitem s a)) = Some p"
      by (cases "weak_lock held s (fi_prev (fitem s a))") (auto simp: ancestry_unfold [OF wf])
    note l = lock_prev [OF wf Suc(2) p]
    have A: "ancestry held s a = a # ancestry held s p" using p by (simp add: ancestry_unfold [OF wf Suc(2)])
    show ?case using Suc(1) [OF l(1)] Suc(3) l(3) by (auto simp: A)
  qed
  then show "ancestry held s a ! i < length (items s)" "unat (fi_num (fitem s (ancestry held s a ! i))) + i = unat (fi_num (fitem s a))"
    "ancestry held s (ancestry held s a ! i) = drop i (ancestry held s a)" by auto
qed

lemma fetch_branch_meet:
  fixes held :: "nat list"
  assumes wf: "fork_wf s" and f: "find_block s first = Some a" "find_block s second = Some b"
  defines "A \<equiv> ancestry held s a" and "B \<equiv> ancestry held s b"
    and "ka \<equiv> unat (fi_num (fitem s a)) - unat (fi_num (fitem s b))" and "kb \<equiv> unat (fi_num (fitem s b)) - unat (fi_num (fitem s a))"
  shows "fetch_branch_from held first second s =
    (case meet (prev_id s) (drop ka A) (drop kb B) of None \<Rightarrow> Some (Inl Broken_branch)
     | Some (x, y) \<Rightarrow> Some (Inr (take ka A @ x, take kb B @ y)))"
proof -
  have ab: "a < length (items s)" "b < length (items s)" using find_block_Some [OF f(1)] find_block_Some [OF f(2)] fork_wfD(2) [OF wf] by auto
  note start = fetch_branch_from_def f option.case num_eq [OF wf ab(2)] descend_ancestry [OF wf ab(1)] Let_def
    A_def [symmetric] ka_def [symmetric]
  show ?thesis
  proof (cases "ka < length A")
    case False
    then show ?thesis unfolding start by simp
  next
    case True
    note a1 = ancestry_nth [OF wf ab(1) True [unfolded A_def], folded A_def]
    have kb: "unat (fi_num (fitem s b)) - unat (fi_num (fitem s (A ! ka))) = kb" using a1(2) by (simp add: ka_def kb_def)
    show ?thesis
    proof (cases "kb < length B")
      case kB: True
      note b1 = ancestry_nth [OF wf ab(2) kB [unfolded B_def], folded B_def]
      show ?thesis
        unfolding start using True kB descend_both_meet [OF wf a1(1) b1(1), of held]
        by (simp add: num_eq [OF wf a1(1)] descend_ancestry [OF wf ab(2)] kb Let_def B_def [symmetric] a1(3) b1(3))
    next
      case kB: False
      then have "drop kb B = []" by simp
      with True kB show ?thesis
        unfolding start
        by (simp add: num_eq [OF wf a1(1)] descend_ancestry [OF wf ab(2)] kb Let_def B_def [symmetric])
    qed
  qed
qed


section \<open>Properties\<close>

text \<open>Two positions in the ancestries of two items whose blocks have the same predecessor.\<close>

definition meets :: "('t, 's) fork_database \<Rightarrow> nat list \<Rightarrow> nat list \<Rightarrow> nat \<Rightarrow> nat \<Rightarrow> bool" where
  "meets s A B i j \<longleftrightarrow> i < length A \<and> j < length B \<and> prev_id s (A ! i) = prev_id s (B ! j)"

lemma meets_aligned:
  assumes wf: "fork_wf s" and ab: "a < length (items s)" "b < length (items s)"
    and m: "meets s (ancestry held s a) (ancestry held s b) i j"
  shows "unat (fi_num (fitem s a)) + j = unat (fi_num (fitem s b)) + i"
proof -
  have ij: "i < length (ancestry held s a)" "j < length (ancestry held s b)" using m by (auto simp: meets_def)
  note A = ancestry_nth [OF wf ab(1) ij(1)] and B = ancestry_nth [OF wf ab(2) ij(2)]
  have "fi_num (fitem s (ancestry held s a ! i)) = fi_num (fitem s (ancestry held s b ! j))"
    using m num_eq [OF wf A(1)] num_eq [OF wf B(1)] by (simp add: meets_def block_num_def)
  then show ?thesis using A(2) B(2) by simp
qed

text \<open>
  (C16) The branches of two known blocks lead to the most recent common predecessor: the search returns, on every state that the
  operations lead to; its branches are the ancestries of the two blocks up to the first pair of blocks with the same predecessor,
  and it reports an error exactly when the part of the tree that is kept has no such pair.
\<close>

theorem branches_meet:
  assumes "fork_reachable sha s" "find_block s first = Some a" "find_block s second = Some b"
  shows "(\<exists>i j. fetch_branch_from held first second s =
        Some (Inr (take (Suc i) (ancestry held s a), take (Suc j) (ancestry held s b))) \<and>
      meets s (ancestry held s a) (ancestry held s b) i j \<and>
      (\<forall>i' j'. meets s (ancestry held s a) (ancestry held s b) i' j' \<longrightarrow> i \<le> i' \<and> j \<le> j')) \<or>
    fetch_branch_from held first second s = Some (Inl Broken_branch) \<and>
      (\<forall>i j. \<not> meets s (ancestry held s a) (ancestry held s b) i j)"
proof -
  note wf = reachable_wf [OF assms(1)]
  have ab: "a < length (items s)" "b < length (items s)"
    using find_block_Some [OF assms(2)] find_block_Some [OF assms(3)] fork_wfD(2) [OF wf] by auto
  let ?A = "ancestry held s a" and ?B = "ancestry held s b"
  let ?ka = "unat (fi_num (fitem s a)) - unat (fi_num (fitem s b))" and ?kb = "unat (fi_num (fitem s b)) - unat (fi_num (fitem s a))"
  have shape: "\<exists>k. i = ?ka + k \<and> j = ?kb + k \<and> k < length (drop ?ka ?A) \<and> k < length (drop ?kb ?B) \<and>
      prev_id s (drop ?ka ?A ! k) = prev_id s (drop ?kb ?B ! k)" if "meets s ?A ?B i j" for i j
  proof -
    define k where "k = i - ?ka"
    have k: "i = ?ka + k" "j = ?kb + k" using meets_aligned [OF wf ab that] by (auto simp: k_def)
    show ?thesis using that by (intro exI [of _ k]) (auto simp: k meets_def)
  qed
  show ?thesis
  proof (cases "meet (prev_id s) (drop ?ka ?A) (drop ?kb ?B)")
    case None
    then show ?thesis using fetch_branch_meet [OF wf assms(2,3), of held] meet_None [OF None] shape by fastforce
  next
    case (Some r)
    obtain x y where r: "r = (x, y)" by fastforce
    from meet_Some [OF Some [unfolded r]] obtain k where k: "k < length (drop ?ka ?A)" "k < length (drop ?kb ?B)"
      "prev_id s (drop ?ka ?A ! k) = prev_id s (drop ?kb ?B ! k)" "\<forall>j < k. prev_id s (drop ?ka ?A ! j) \<noteq> prev_id s (drop ?kb ?B ! j)"
      "x = take (Suc k) (drop ?ka ?A)" "y = take (Suc k) (drop ?kb ?B)" by blast
    have t: "take ?ka ?A @ x = take (Suc (?ka + k)) ?A" "take ?kb ?B @ y = take (Suc (?kb + k)) ?B"
      using k(5,6) take_add [of ?ka "Suc k" ?A] take_add [of ?kb "Suc k" ?B] by simp_all
    have "meets s ?A ?B (?ka + k) (?kb + k)" using k(1-3) by (auto simp: meets_def)
    moreover have "?ka + k \<le> i' \<and> ?kb + k \<le> j'" if "meets s ?A ?B i' j'" for i' j'
    proof -
      from shape [OF that] obtain m where m: "i' = ?ka + m" "j' = ?kb + m"
        "prev_id s (drop ?ka ?A ! m) = prev_id s (drop ?kb ?B ! m)" by blast
      then have "k \<le> m" using k(4) by (meson not_less)
      then show ?thesis using m by simp
    qed
    ultimately show ?thesis
      using fetch_branch_meet [OF wf assms(2,3), of held] Some r t by (intro disjI1 exI [of _ "?ka + k"] exI [of _ "?kb + k"]) simp
  qed
qed

definition demo_sha :: "unit signed_header \<Rightarrow> 32 word list" where
  "demo_sha h = [0, of_int (h_timestamp h), 0, 0, 0, 0, 0]"

definition child :: "block_id_type \<Rightarrow> int \<Rightarrow> (nat, unit) signed_block" where
  "child p t = (demo_block [])\<lparr>previous := p, timestamp := t\<rparr>"

definition demo_push :: "(nat, unit) signed_block \<Rightarrow> (nat, unit) fork_database \<Rightarrow> (nat, unit) fork_database" where
  "demo_push b s = (case fdb_push_block demo_sha b s of Inl e \<Rightarrow> s | Inr (r, s') \<Rightarrow> s')"

abbreviation demo_genesis :: "(nat, unit) signed_block" where "demo_genesis \<equiv> child null_id 1"
abbreviation demo_left :: "(nat, unit) signed_block" where "demo_left \<equiv> child (compute_id demo_sha demo_genesis) 2"
abbreviation demo_right :: "(nat, unit) signed_block" where "demo_right \<equiv> child (compute_id demo_sha demo_genesis) 3"
abbreviation demo_tip :: "(nat, unit) signed_block" where "demo_tip \<equiv> child (compute_id demo_sha demo_left) 4"

definition demo_forks :: "(nat, unit) fork_database" where
  "demo_forks = demo_push demo_tip (demo_push demo_right (demo_push demo_left (demo_push demo_genesis new_fork_database)))"

lemma child_ok: "block_ok demo_sha (child p t)"
  by (simp add: block_ok_def demo_sha_def child_def demo_block_def null_id_def)

lemma demo_push_reachable: "fork_reachable demo_sha s \<Longrightarrow> fork_reachable demo_sha (demo_push (child p t) s)"
  using child_ok [of p t] by (auto simp: demo_push_def intro: fork_reachable.push split: sum.split)

lemma demo_forks_reachable: "fork_reachable demo_sha demo_forks"
  unfolding demo_forks_def by (intro demo_push_reachable fork_reachable.new)

theorem branches_meet_witness:
  "fetch_branch_from [] (compute_id demo_sha demo_tip) (compute_id demo_sha demo_right) demo_forks = Some (Inr ([3, 1], [2])) \<and>
   prev_id demo_forks 1 = prev_id demo_forks 2"
proof -
  have f: "find_block demo_forks (compute_id demo_sha demo_tip) = Some 3" "find_block demo_forks (compute_id demo_sha demo_right) = Some 2"
    by code_simp+
  have r: "fetch_branch_from [] (compute_id demo_sha demo_tip) (compute_id demo_sha demo_right) demo_forks = Some (Inr ([3, 1], [2]))"
    by code_simp
  have anc: "ancestry [] demo_forks 3 = [3, 1, 0]" "ancestry [] demo_forks 2 = [2, 0]" by code_simp+
  from branches_meet [OF demo_forks_reachable f, of "[]", unfolded r anc] obtain i j where ij:
    "[3, 1] = take (Suc i) [3, 1, 0 :: nat]" "[2] = take (Suc j) [2, 0 :: nat]" "meets demo_forks [3, 1, 0] [2, 0] i j"
    by auto
  have "i = 1" using arg_cong [OF ij(1), of length] by (simp add: min_def split: if_splits)
  moreover have "j = 0" using arg_cong [OF ij(2), of length] by (simp add: min_def split: if_splits)
  ultimately show ?thesis using ij(3) r by (simp add: meets_def)
qed


text \<open>
  A push keeps the highest block as the head and forgets only what is too old: after a successful push the head is the new
  block when it is higher than the old head and the old head otherwise, so that the first of two blocks of one height stays; the known blocks are
  the ones known before and the new one, less those that are more than the maximal size below a new head.
\<close>

theorem push_block_keeps_highest:
  assumes "fork_reachable sha s" "block_ok sha b" "fdb_push_block sha b s = Inr (r, s')"
  shows "r = fdb_head s' \<and>
    (\<exists>h'. fdb_head s' = Some h' \<and>
      (case fdb_head s of None \<Rightarrow> fi_id (fitem s' h') = compute_id sha b
       | Some h \<Rightarrow> if block_num b > fi_num (fitem s h) then fi_id (fitem s' h') = compute_id sha b else h' = h)) \<and>
    (\<forall>i. is_known_block i s' \<longleftrightarrow> (is_known_block i s \<or> i = compute_id sha b) \<and>
      (\<forall>h. fdb_head s = Some h \<and> block_num b > fi_num (fitem s h) \<longrightarrow>
         unat (block_num b) \<le> unat (num_from_id i) + unat (fdb_max_size s)))"
proof (rule push_block_cases [OF reachable_wf [OF assms(1)] assms(2,3)])
  note wf = reachable_wf [OF assms(1)] and it = make_item_block [OF assms(2)]
  fix p s1
  assume s1: "fork_wf s1" "items s1 = items s @ [(make_item sha b)\<lparr>fi_prev := p\<rparr>]"
    "fdb_index s1 = (if is_known_block (compute_id sha b) s then fdb_index s
       else index_put (\<lambda>x. fi_num (fitem s1 x)) (length (items s)) (fdb_index s))"
    and r: "r = fdb_head s'"
    and s': "s' = (case fdb_head s of None \<Rightarrow> s1\<lparr>fdb_head := Some (length (items s))\<rparr>
       | Some h \<Rightarrow> if block_num b > fi_num (fitem s h) then
           s1\<lparr>fdb_head := Some (length (items s)), fdb_index := filter (\<lambda>x. unat (block_num b) \<le> unat (fi_num (fitem s1 x)) + unat (fdb_max_size s)) (fdb_index s1)\<rparr>
         else s1)" and h1: "fdb_head s1 = fdb_head s"
  have f1: "fitem s1 (length (items s)) = (make_item sha b)\<lparr>fi_prev := p\<rparr>" "x < length (items s) \<Longrightarrow> fitem s1 x = fitem s x" for x
    using s1(2) by (simp_all add: nth_append)
  have old: "fi_id (fitem s1 x) = fi_id (fitem s x)" if "x \<in> set (fdb_index s)" for x
    using f1(2) fork_wfD(2) [OF wf that] by simp
  have known1: "is_known_block i s1 \<longleftrightarrow> is_known_block i s \<or> i = compute_id sha b" for i
    using old by (auto simp: is_known_block_def find_block_None s1(3) f1(1) it)
  have num: "num_from_id (fi_id (fitem s1 x)) = fi_num (fitem s1 x)" if "x \<in> set (fdb_index s1)" for x
    using fork_wfD(1,2) [OF s1(1)] that by (simp add: item_ok_def)
  show ?thesis
  proof (cases "\<exists>h. fdb_head s = Some h \<and> block_num b > fi_num (fitem s h)")
    case True
    then obtain h where h: "fdb_head s = Some h" "block_num b > fi_num (fitem s h)" by blast
    then have "is_known_block i s' \<longleftrightarrow> is_known_block i s1 \<and> unat (block_num b) \<le> unat (num_from_id i) + unat (fdb_max_size s)" for i
      using num by (auto simp: s' is_known_block_def find_block_None)
    then show ?thesis using h r known1 f1(1) it by (simp add: s')
  next
    case False
    then show ?thesis using r h1 known1 f1(1) it by (auto simp: s' is_known_block_def find_block_None split: option.splits)
  qed
qed

theorem push_block_keeps_highest_witness:
  "\<exists>r s'. fdb_push_block demo_sha demo_tip demo_forks = Inr (r, s') \<and> fdb_head s' = fdb_head demo_forks \<and>
     is_known_block (compute_id demo_sha demo_right) s'"
proof -
  have "fdb_push_block demo_sha demo_tip demo_forks = Inr (Some 3, demo_forks\<lparr>items := items demo_forks @ [items demo_forks ! 3]\<rparr>)"
    by code_simp
  then obtain r s' where run: "fdb_push_block demo_sha demo_tip demo_forks = Inr (r, s')" by blast
  have "fdb_head demo_forks = Some 3" "block_num demo_tip = fi_num (fitem demo_forks 3)" "is_known_block (compute_id demo_sha demo_right) demo_forks"
    by code_simp+
  with push_block_keeps_highest [OF demo_forks_reachable child_ok run] run show ?thesis by auto
qed

end
