(* ===== verification/Authority.thy ===== *)
theory Authority
  imports Prelude
begin

text \<open>
  Authorities and the check of signatures (\<^verbatim>\<open>libraries/protocol/authority.hpp\<close>, \<^verbatim>\<open>transaction.cpp\<close>, \<^verbatim>\<open>operations.cpp\<close>). An authority is a
  set of keys, addresses and accounts with weights and a threshold; an account has an active and an owner authority, which may name
  other accounts, so the check is recursive, with a bound on the depth and a memory of the accounts already approved.

  \<open>'k\<close> is the type of public keys, with the order of the flat containers, and \<open>'a\<close> that of addresses. The five addresses of a key
  are hashes computed by \<^verbatim>\<open>fc\<close> and an argument of the model, \<open>addrs\<close>. An operation is anything with the four functions that
  \<^verbatim>\<open>operation_get_required_auth\<close> calls. Reading through the end iterator of a map, which C++ leaves undefined, is \<open>None\<close>.
\<close>

section \<open>Authorities\<close>

record ('k, 'a) authority =
  weight_threshold :: uint32
  account_auths :: "(account_id_type \<times> uint16) list"
  key_auths :: "('k \<times> uint16) list"
  address_auths :: "('a \<times> uint16) list"

definition is_impossible :: "('k, 'a) authority \<Rightarrow> bool" where
  "is_impossible au \<longleftrightarrow>
     fold (\<lambda>item w. u64 (w + snd item)) (address_auths au)
       (fold (\<lambda>item w. u64 (w + snd item)) (key_auths au) (fold (\<lambda>item w. u64 (w + snd item)) (account_auths au) 0))
     < weight_threshold au"

definition add_authority_accounts :: "account_id_type list \<Rightarrow> ('k, 'a) authority \<Rightarrow> account_id_type list" where
  "add_authority_accounts result au = fold (\<lambda>item r. List.insert (fst item) r) (account_auths au) result"

section \<open>The state of the check\<close>

text \<open>\<^verbatim>\<open>flat_map\<close>: the pairs in the order of the keys.\<close>

fun fm_put :: "'k::linorder \<Rightarrow> 'v \<Rightarrow> ('k \<times> 'v) list \<Rightarrow> ('k \<times> 'v) list" where
  "fm_put k v [] = [(k, v)]"
| "fm_put k v ((x, y) # m) = (if k < x then (k, v) # (x, y) # m else if k = x then (k, v) # m else (x, y) # fm_put k v m)"

text \<open>What the check is given: the members of \<^verbatim>\<open>sign_state\<close> that do not change.\<close>

record ('k, 'a) sign_context =
  get_active :: "account_id_type \<Rightarrow> ('k, 'a) authority option"
  get_owner :: "account_id_type \<Rightarrow> ('k, 'a) authority option"
  allow_non_immediate_owner :: bool
  available_keys :: "'k list"
  addrs :: "'k \<Rightarrow> 'a list"

text \<open>\<open>address_sigs\<close> holds the lazily filled maps \<^verbatim>\<open>available_address_sigs\<close> and \<^verbatim>\<open>provided_address_sigs\<close>.\<close>

record ('k, 'a) sign_state =
  provided_signatures :: "('k \<times> bool) list"
  approved_by :: "account_id_type list"
  address_sigs :: "(('a \<rightharpoonup> 'k) \<times> ('a \<rightharpoonup> 'k)) option"

definition signed_by_key :: "('k::linorder, 'a) sign_context \<Rightarrow> 'k \<Rightarrow> ('k, 'a) sign_state \<Rightarrow> bool \<times> ('k, 'a) sign_state" where
  "signed_by_key C k s = (case map_of (provided_signatures s) k of
       None \<Rightarrow> if k \<in> set (available_keys C) then (True, s\<lparr>provided_signatures := fm_put k True (provided_signatures s)\<rparr>) else (False, s)
     | Some _ \<Rightarrow> (True, s\<lparr>provided_signatures := fm_put k True (provided_signatures s)\<rparr>))"

definition address_map :: "('k \<Rightarrow> 'a list) \<Rightarrow> 'k list \<Rightarrow> 'a \<rightharpoonup> 'k" where
  "address_map adr ks = fold (\<lambda>k. fold (\<lambda>a m. m(a \<mapsto> k)) (adr k)) ks Map.empty"

definition fill_address_sigs :: "('k, 'a) sign_context \<Rightarrow> ('k, 'a) sign_state \<Rightarrow> ('k, 'a) sign_state" where
  "fill_address_sigs C s = (if address_sigs s = None
     then s\<lparr>address_sigs := Some (address_map (addrs C) (available_keys C), address_map (addrs C) (map fst (provided_signatures s)))\<rparr> else s)"

definition signed_by_address ::
  "('k::linorder, 'a) sign_context \<Rightarrow> 'a \<Rightarrow> ('k, 'a) sign_state \<Rightarrow> (bool \<times> ('k, 'a) sign_state) option" where
  "signed_by_address C a s0 =
     (let s = fill_address_sigs C s0; (available, provided) = the (address_sigs s)
      in case provided a of
        None \<Rightarrow> (case available a of
            Some k \<Rightarrow> if k \<in> set (available_keys C) then Some (True, s\<lparr>provided_signatures := fm_put k True (provided_signatures s)\<rparr>)
              else Some (False, s)
          | None \<Rightarrow> None)
      | Some k \<Rightarrow> Some (True, s\<lparr>provided_signatures := fm_put k True (provided_signatures s)\<rparr>))"

section \<open>The recursive check\<close>

text \<open>The loops over keys and addresses, with the weight so far; the first component tells that the threshold was reached.\<close>

fun check_keys :: "('k::linorder, 'a) sign_context \<Rightarrow> uint32 \<Rightarrow> ('k \<times> uint16) list \<Rightarrow> uint32 \<Rightarrow> ('k, 'a) sign_state \<Rightarrow>
    bool \<times> uint32 \<times> ('k, 'a) sign_state" where
  "check_keys C t [] w s = (False, w, s)"
| "check_keys C t ((k, x) # ks) w s = (case signed_by_key C k s of
       (False, s1) \<Rightarrow> check_keys C t ks w s1
     | (True, s1) \<Rightarrow> if u32 (w + x) \<ge> t then (True, u32 (w + x), s1) else check_keys C t ks (u32 (w + x)) s1)"

fun check_addresses :: "('k::linorder, 'a) sign_context \<Rightarrow> uint32 \<Rightarrow> ('a \<times> uint16) list \<Rightarrow> uint32 \<Rightarrow> ('k, 'a) sign_state \<Rightarrow>
    (bool \<times> uint32 \<times> ('k, 'a) sign_state) option" where
  "check_addresses C t [] w s = Some (False, w, s)"
| "check_addresses C t ((a, x) # as) w s = do {
     (r, s1) \<leftarrow> signed_by_address C a s;
     if \<not> r then check_addresses C t as w s1
     else if u32 (w + x) \<ge> t then Some (True, u32 (w + x), s1) else check_addresses C t as (u32 (w + x)) s1
   }"

definition approve :: "account_id_type \<Rightarrow> ('k, 'a) sign_state \<Rightarrow> ('k, 'a) sign_state" where
  "approve a s = s\<lparr>approved_by := List.insert a (approved_by s)\<rparr>"

text \<open>The number \<open>n\<close> is what the depth is below \<^verbatim>\<open>max_recursion\<close>: 0 where the source has \<^verbatim>\<open>depth == max_recursion\<close>.\<close>

fun check_authority :: "('k::linorder, 'a) sign_context \<Rightarrow> nat \<Rightarrow> ('k, 'a) authority option \<Rightarrow> ('k, 'a) sign_state \<Rightarrow>
    (bool \<times> ('k, 'a) sign_state) option"
  and check_accounts :: "('k, 'a) sign_context \<Rightarrow> nat \<Rightarrow> uint32 \<Rightarrow> (account_id_type \<times> uint16) list \<Rightarrow> uint32 \<Rightarrow> ('k, 'a) sign_state \<Rightarrow>
    (bool \<times> ('k, 'a) sign_state) option" where
  "check_authority C n None s = Some (False, s)"
| "check_authority C n (Some au) s = (case check_keys C (weight_threshold au) (key_auths au) 0 s of
       (True, w, s1) \<Rightarrow> Some (True, s1)
     | (False, w, s1) \<Rightarrow> do {
         (reached, w, s2) \<leftarrow> check_addresses C (weight_threshold au) (address_auths au) w s1;
         if reached then Some (True, s2) else check_accounts C n (weight_threshold au) (account_auths au) w s2
       })"
| "check_accounts C n t [] w s = Some (w \<ge> t, s)"
| "check_accounts C n t ((a, x) # as) w s =
     (if a \<in> set (approved_by s) then
        (if u32 (w + x) \<ge> t then Some (True, s) else check_accounts C n t as (u32 (w + x)) s)
      else (case n of 0 \<Rightarrow> check_accounts C n t as w s
        | Suc m \<Rightarrow> do {
            (r, s1) \<leftarrow> check_authority C m (get_active C a) s;
            (r, s2) \<leftarrow> (if r then Some (True, s1) else if allow_non_immediate_owner C then check_authority C m (get_owner C a) s1
              else Some (False, s1));
            if r then (let s3 = approve a s2
              in if u32 (w + x) \<ge> t then Some (True, s3) else check_accounts C n t as (u32 (w + x)) s3)
            else check_accounts C n t as w s2
          }))"

definition check_account ::
  "('k::linorder, 'a) sign_context \<Rightarrow> nat \<Rightarrow> account_id_type \<Rightarrow> ('k, 'a) sign_state \<Rightarrow> (bool \<times> ('k, 'a) sign_state) option" where
  "check_account C n i s =
     (if i \<in> set (approved_by s) then Some (True, s)
      else do {
        (r, s1) \<leftarrow> check_authority C n (get_active C i) s;
        if r then Some (True, s1) else if allow_non_immediate_owner C then check_authority C n (get_owner C i) s1 else Some (False, s1)
      })"

definition remove_unused_signatures :: "('k, 'a) sign_state \<Rightarrow> bool \<times> ('k, 'a) sign_state" where
  "remove_unused_signatures s =
     (let kept = filter snd (provided_signatures s)
      in (length kept \<noteq> length (provided_signatures s), s\<lparr>provided_signatures := kept\<rparr>))"


definition new_sign_state :: "'k::linorder list \<Rightarrow> ('k, 'a) sign_state" where
  "new_sign_state sigs = \<lparr>provided_signatures = fold (\<lambda>k. fm_put k False) sigs [], approved_by = [GRAPHENE_TEMP_ACCOUNT], address_sigs = None\<rparr>"

section \<open>The authorities that operations require\<close>

record ('op, 'k, 'a) auth_interface =
  op_fee_payer :: "'op \<Rightarrow> account_id_type"
  op_active :: "'op \<Rightarrow> account_id_type list"
  op_owner :: "'op \<Rightarrow> account_id_type list"
  op_other :: "'op \<Rightarrow> ('k, 'a) authority list"

text \<open>The sets are lists without repetitions, in the order of the account numbers.\<close>

definition operation_get_required_authorities ::
  "('op, 'k, 'a) auth_interface \<Rightarrow> 'op \<Rightarrow> account_id_type list \<times> account_id_type list \<times> ('k, 'a) authority list \<Rightarrow>
     account_id_type list \<times> account_id_type list \<times> ('k, 'a) authority list" where
  "operation_get_required_authorities I op = (\<lambda>(active, owner, other).
     (sorted_list_of_set (set active \<union> {op_fee_payer I op} \<union> set (op_active I op)),
      sorted_list_of_set (set owner \<union> set (op_owner I op)), other @ op_other I op))"

definition get_required_authorities ::
  "('op, 'k, 'a) auth_interface \<Rightarrow> 'op list \<Rightarrow> account_id_type list \<times> account_id_type list \<times> ('k, 'a) authority list" where
  "get_required_authorities I ops =
     (let (active, owner, other) = fold (operation_get_required_authorities I) ops ([], [], [])
      in (filter (\<lambda>a. a \<notin> set owner) active, owner, other))"

section \<open>Verification\<close>

datatype auth_error = Invalid_committee_approval | Tx_missing_other_auth | Tx_missing_owner_auth | Tx_missing_active_auth | Tx_irrelevant_sig

text \<open>A loop of assertions: \<open>check\<close> on each element, the error \<open>e\<close> at the first that fails.\<close>

fun assert_all :: "auth_error \<Rightarrow> ('x \<Rightarrow> 's \<Rightarrow> (bool \<times> 's) option) \<Rightarrow> 'x list \<Rightarrow> 's \<Rightarrow> (auth_error + 's) option" where
  "assert_all e check [] s = Some (Inr s)"
| "assert_all e check (x # xs) s = do { (r, s1) \<leftarrow> check x s; if r then assert_all e check xs s1 else Some (Inl e) }"

definition bind_result :: "(auth_error + 's) option \<Rightarrow> ('s \<Rightarrow> (auth_error + 'r) option) \<Rightarrow> (auth_error + 'r) option" where
  "bind_result m f = do { r \<leftarrow> m; case r of Inl e \<Rightarrow> Some (Inl e) | Inr s \<Rightarrow> f s }"

definition check_required ::
  "('k::linorder, 'a) sign_context \<Rightarrow> nat \<Rightarrow> account_id_type list \<Rightarrow> account_id_type list \<Rightarrow> account_id_type list \<Rightarrow> ('k, 'a) authority list \<Rightarrow>
     ('k, 'a) sign_state \<Rightarrow> (auth_error + ('k, 'a) sign_state) option" where
  "check_required C n owner_approvals required_active required_owner other s =
     bind_result (assert_all Tx_missing_other_auth (\<lambda>au. check_authority C n (Some au)) other s) (\<lambda>s.
     bind_result (assert_all Tx_missing_owner_auth
       (\<lambda>i s. if i \<in> set owner_approvals then Some (True, s) else check_authority C n (get_owner C i) s) required_owner s) (\<lambda>s.
     assert_all Tx_missing_active_auth
       (\<lambda>i s. do { (r, s1) \<leftarrow> check_account C n i s; if r then Some (True, s1) else check_authority C n (get_owner C i) s1 })
       required_active s))"

definition verify_authority ::
  "('op, 'k::linorder, 'a) auth_interface \<Rightarrow> ('k, 'a) sign_context \<Rightarrow> 'op list \<Rightarrow> 'k list \<Rightarrow> nat \<Rightarrow> bool \<Rightarrow>
     account_id_type list \<Rightarrow> account_id_type list \<Rightarrow> (auth_error + unit) option" where
  "verify_authority I C ops sigs max_recursion allow_committee active_approvals owner_approvals =
     (let (required_active, required_owner, other) = fold (operation_get_required_authorities I) ops ([], [], []);
          s = new_sign_state sigs;
          s = s\<lparr>approved_by := fold List.insert owner_approvals (fold List.insert active_approvals (approved_by s))\<rparr>
      in if \<not> allow_committee \<and> GRAPHENE_COMMITTEE_ACCOUNT \<in> set required_active then Some (Inl Invalid_committee_approval)
      else bind_result (check_required (C\<lparr>available_keys := []\<rparr>) max_recursion owner_approvals required_active required_owner other s)
        (\<lambda>s. Some (if fst (remove_unused_signatures s) then Inl Tx_irrelevant_sig else Inr ())))"


text \<open>\<^verbatim>\<open>get_signature_keys\<close>: the keys recovered from the signatures by \<^verbatim>\<open>fc::ecc\<close>, a repeated one is an error.\<close>

fun get_signature_keys :: "('sig \<Rightarrow> 'k::linorder) \<Rightarrow> 'sig list \<Rightarrow> 'k list \<Rightarrow> 'k list option" where
  "get_signature_keys recover [] result = Some result"
| "get_signature_keys recover (x # xs) result =
     (if recover x \<in> set result then None else get_signature_keys recover xs (insort (recover x) result))"

text \<open>A loop of checks whose results are not used.\<close>

fun run_all :: "('x \<Rightarrow> 's \<Rightarrow> (bool \<times> 's) option) \<Rightarrow> 'x list \<Rightarrow> 's \<Rightarrow> 's option" where
  "run_all check [] s = Some s"
| "run_all check (x # xs) s = do { (_, s1) \<leftarrow> check x s; run_all check xs s1 }"

definition get_required_signatures ::
  "('op, 'k::linorder, 'a) auth_interface \<Rightarrow> ('k, 'a) sign_context \<Rightarrow> 'op list \<Rightarrow> 'k list \<Rightarrow> nat \<Rightarrow> 'k list option" where
  "get_required_signatures I C ops signature_keys max_recursion =
     (let (active, owner, other) = get_required_authorities I ops
      in do {
        s1 \<leftarrow> run_all (\<lambda>au. check_authority C max_recursion (Some au)) other (new_sign_state signature_keys);
        s2 \<leftarrow> run_all (\<lambda>i. check_authority C max_recursion (get_owner C i)) owner s1;
        s3 \<leftarrow> run_all (\<lambda>i s. do { (r, s1) \<leftarrow> check_account C max_recursion i s;
            if r then Some (True, s1) else check_authority C max_recursion (get_owner C i) s1 }) active s2;
        let s4 = snd (remove_unused_signatures s3);
        Some (filter (\<lambda>k. k \<in> set (available_keys C) \<and> k \<notin> set signature_keys) (map fst (provided_signatures s4)))
      })"

definition GRAPHENE_MAX_SIG_CHECK_DEPTH :: nat where "GRAPHENE_MAX_SIG_CHECK_DEPTH = 2"

text \<open>The call of \<^verbatim>\<open>get_required_signatures\<close> has one argument less than the declaration: the depth is taken for the flag
  \<^verbatim>\<open>allow_non_immediate_owner\<close> and the depth is the default.\<close>

fun minimize_loop ::
  "('op, 'k::linorder, 'a) auth_interface \<Rightarrow> ('k, 'a) sign_context \<Rightarrow> 'op list \<Rightarrow> nat \<Rightarrow> 'k list \<Rightarrow> 'k list \<Rightarrow> (auth_error + 'k list) option" where
  "minimize_loop I C ops n [] result = Some (Inr result)"
| "minimize_loop I C ops n (k # ks) result =
     (let erased = removeAll k result
      in do {
        v \<leftarrow> verify_authority I C ops erased n False [] [];
        case v of
          Inr _ \<Rightarrow> minimize_loop I C ops n ks erased
        | Inl e \<Rightarrow> if e \<in> {Tx_missing_owner_auth, Tx_missing_active_auth, Tx_missing_other_auth}
            then minimize_loop I C ops n ks (insort k erased) else Some (Inl e)
      })"

definition minimize_required_signatures ::
  "('op, 'k::linorder, 'a) auth_interface \<Rightarrow> ('k, 'a) sign_context \<Rightarrow> 'op list \<Rightarrow> 'k list \<Rightarrow> nat \<Rightarrow> (auth_error + 'k list) option" where
  "minimize_required_signatures I C ops signature_keys max_recursion = do {
     s \<leftarrow> get_required_signatures I (C\<lparr>allow_non_immediate_owner := max_recursion \<noteq> 0\<rparr>) ops signature_keys GRAPHENE_MAX_SIG_CHECK_DEPTH;
     minimize_loop I C ops max_recursion s s
   }"

section \<open>Who may authorize\<close>

definition weight_where :: "('m \<Rightarrow> bool) \<Rightarrow> ('m \<times> uint16) list \<Rightarrow> int" where
  "weight_where P xs = (\<Sum>(m, x)\<leftarrow>xs. if P m then x else 0)"

text \<open>The weight that the keys \<open>K\<close> and the accounts \<open>B\<close> have in an authority.\<close>

definition weight_by :: "('k, 'a) sign_context \<Rightarrow> 'k set \<Rightarrow> ('k, 'a) authority \<Rightarrow> account_id_type set \<Rightarrow> int" where
  "weight_by C K au B = weight_where (\<lambda>k. k \<in> K) (key_auths au) +
     weight_where (\<lambda>a. \<exists>k \<in> K. a \<in> set (addrs C k)) (address_auths au) + weight_where (\<lambda>a. a \<in> B) (account_auths au)"

text \<open>An account is granted by the keys \<open>K\<close> and the approvals \<open>A\<close> when it has approved, or when the members of its active authority
  (or of its owner authority, where that is allowed) that are granted reach the threshold.\<close>

inductive granted :: "('k, 'a) sign_context \<Rightarrow> 'k set \<Rightarrow> account_id_type set \<Rightarrow> account_id_type \<Rightarrow> bool" for C K A where
  approval: "a \<in> A \<Longrightarrow> granted C K A a"
| active: "get_active C a = Some au \<Longrightarrow> \<forall>b \<in> B. granted C K A b \<Longrightarrow> weight_threshold au \<le> weight_by C K au B \<Longrightarrow> granted C K A a"
| owner: "allow_non_immediate_owner C \<Longrightarrow> get_owner C a = Some au \<Longrightarrow> \<forall>b \<in> B. granted C K A b \<Longrightarrow>
    weight_threshold au \<le> weight_by C K au B \<Longrightarrow> granted C K A a"

definition satisfied :: "('k, 'a) sign_context \<Rightarrow> 'k set \<Rightarrow> account_id_type set \<Rightarrow> ('k, 'a) authority option \<Rightarrow> bool" where
  "satisfied C K A au = (case au of None \<Rightarrow> False | Some x \<Rightarrow> weight_threshold x \<le> weight_by C K x {a. granted C K A a})"

lemma granted_satisfied:
  "satisfied C K A (get_active C a) \<Longrightarrow> granted C K A a"
  "allow_non_immediate_owner C \<Longrightarrow> satisfied C K A (get_owner C a) \<Longrightarrow> granted C K A a"
  by (auto simp: satisfied_def intro: granted.active [where B = "{a. granted C K A a}"] granted.owner [where B = "{a. granted C K A a}"]
      split: option.splits)

section \<open>The keys of a state\<close>

definition weights_ok :: "('m \<times> uint16) list \<Rightarrow> bool" where
  "weights_ok xs \<longleftrightarrow> (\<forall>(m, x) \<in> set xs. 0 \<le> x)"

definition authority_ok :: "('k, 'a) authority option \<Rightarrow> bool" where
  "authority_ok au \<longleftrightarrow> (\<forall>x. au = Some x \<longrightarrow> weights_ok (key_auths x) \<and> weights_ok (address_auths x) \<and> weights_ok (account_auths x))"

definition context_ok :: "('k, 'a) sign_context \<Rightarrow> bool" where
  "context_ok C \<longleftrightarrow> (\<forall>a. authority_ok (get_active C a) \<and> authority_ok (get_owner C a))"

lemma weight_where_simps [simp]:
  "weight_where P [] = 0" "weight_where P ((m, x) # xs) = (if P m then x else 0) + weight_where P xs"
  by (simp_all add: weight_where_def)

lemma weights_ok_simps [simp]: "weights_ok []" "weights_ok ((m, x) # xs) \<longleftrightarrow> 0 \<le> x \<and> weights_ok xs"
  by (auto simp: weights_ok_def)

lemma weight_where_nonneg: "weights_ok xs \<Longrightarrow> 0 \<le> weight_where P xs"
  by (induction xs) auto

lemma weight_where_mono: "weights_ok xs \<Longrightarrow> (\<And>m. P m \<Longrightarrow> Q m) \<Longrightarrow> weight_where P xs \<le> weight_where Q xs"
  by (induction xs) auto

definition signers :: "('k, 'a) sign_context \<Rightarrow> ('k, 'a) sign_state \<Rightarrow> 'k set" where
  "signers C s = fst ` set (provided_signatures s) \<union> set (available_keys C)"

lemma keys_fm_put [simp]: "fst ` set (fm_put k v m) = insert k (fst ` set m)"
  by (induction k v m rule: fm_put.induct) auto

lemma signers_put [simp]: "signers C (s\<lparr>provided_signatures := fm_put k v (provided_signatures s)\<rparr>) = insert k (signers C s)"
  by (simp add: signers_def)

lemma signers_member:
  "k \<in> set (available_keys C) \<Longrightarrow> k \<in> signers C s" "map_of (provided_signatures s) k = Some b \<Longrightarrow> k \<in> signers C s"
  "map_of (provided_signatures s) k = None \<Longrightarrow> k \<notin> set (available_keys C) \<Longrightarrow> k \<notin> signers C s"
  by (auto simp: signers_def map_of_eq_None_iff dest!: map_of_SomeD intro: rev_image_eqI)

lemma signed_by_key_effect:
  assumes "signed_by_key C k s = (r, s')"
  shows "r \<longleftrightarrow> k \<in> signers C s" "signers C s' = signers C s" "approved_by s' = approved_by s" "address_sigs s' = address_sigs s"
  using assms signers_member [where k = k and C = C and s = s] by (auto simp: signed_by_key_def split: option.splits if_splits)

lemma address_map_key:
  assumes "address_map adr ks a = Some k"
  shows "k \<in> set ks \<and> a \<in> set (adr k)"
proof -
  have inner: "fold (\<lambda>a m. m(a \<mapsto> k')) as m a = Some k \<Longrightarrow> (k = k' \<and> a \<in> set as) \<or> m a = Some k" for k' as and m :: "'b \<rightharpoonup> 'a"
  proof (induction as arbitrary: m)
    case (Cons x as)
    from Cons.prems have "(k = k' \<and> a \<in> set as) \<or> (m(x \<mapsto> k')) a = Some k" unfolding fold_simps by (rule Cons.IH)
    then show ?case by (auto split: if_splits)
  qed simp
  have "fold (\<lambda>k. fold (\<lambda>a m. m(a \<mapsto> k)) (adr k)) ks m a = Some k \<Longrightarrow> (k \<in> set ks \<and> a \<in> set (adr k)) \<or> m a = Some k" for m :: "'b \<rightharpoonup> 'a"
  proof (induction ks arbitrary: m)
    case (Cons x ks)
    from Cons.prems have "(k \<in> set ks \<and> a \<in> set (adr k)) \<or> fold (\<lambda>a m. m(a \<mapsto> x)) (adr x) m a = Some k"
      unfolding fold_simps by (rule Cons.IH)
    then show ?case using inner [of x "adr x" m] by auto
  qed simp
  with assms show ?thesis by (force simp: address_map_def)
qed

text \<open>The invariant of the check: the keys stay \<open>K\<close>, the approved accounts are in \<open>G\<close>, and the address maps name such keys.\<close>

definition check_inv :: "('k, 'a) sign_context \<Rightarrow> 'k set \<Rightarrow> account_id_type set \<Rightarrow> ('k, 'a) sign_state \<Rightarrow> bool" where
  "check_inv C K G s \<longleftrightarrow> signers C s = K \<and> set (approved_by s) \<subseteq> G \<and>
     (\<forall>av pr a k. address_sigs s = Some (av, pr) \<longrightarrow> (av a = Some k \<or> pr a = Some k) \<longrightarrow> k \<in> K \<and> a \<in> set (addrs C k))"

lemma check_inv_key:
  assumes "check_inv C K G s" "signed_by_key C k s = (r, s')"
  shows "check_inv C K G s' \<and> (r \<longleftrightarrow> k \<in> K)"
  using assms signed_by_key_effect [OF assms(2)] by (auto simp: check_inv_def)

lemma check_inv_address:
  assumes inv: "check_inv C K G s" and run: "signed_by_address C a s = Some (r, s')"
  shows "check_inv C K G s' \<and> (r \<longrightarrow> (\<exists>k \<in> K. a \<in> set (addrs C k)))"
proof -
  define t where "t = fill_address_sigs C s"
  obtain av pr where t: "address_sigs t = Some (av, pr)"
    by (cases "address_sigs s") (auto simp: t_def fill_address_sigs_def)
  have t': "approved_by t = approved_by s" "provided_signatures t = provided_signatures s"
    "address_sigs s \<noteq> None \<longrightarrow> t = s" by (auto simp: t_def fill_address_sigs_def)
  have keys: "K = fst ` set (provided_signatures s) \<union> set (available_keys C)" using inv by (simp add: check_inv_def signers_def)
  have "k \<in> K \<and> x \<in> set (addrs C k)" if "av x = Some k \<or> pr x = Some k" for x k
  proof (cases "address_sigs s")
    case None
    with t that have "address_map (addrs C) (available_keys C) x = Some k \<or>
        address_map (addrs C) (map fst (provided_signatures s)) x = Some k"
      by (auto simp: t_def fill_address_sigs_def)
    then show ?thesis using address_map_key [of "addrs C"] by (force simp: keys)
  next
    case (Some p)
    with t t'(3) inv that show ?thesis by (auto simp: check_inv_def)
  qed
  then have inv': "check_inv C K G t" using inv t t'(1,2) by (auto simp: check_inv_def signers_def)
  have "s' = t \<and> \<not> r \<or> r \<and> (\<exists>k. (pr a = Some k \<or> av a = Some k) \<and> s' = t\<lparr>provided_signatures := fm_put k True (provided_signatures t)\<rparr>)"
    using run t by (auto simp: signed_by_address_def t_def [symmetric] Let_def split: option.splits if_splits)
  then consider "s' = t" "\<not> r" | k where "pr a = Some k \<or> av a = Some k"
      "s' = t\<lparr>provided_signatures := fm_put k True (provided_signatures t)\<rparr>" "r" by blast
  then show ?thesis
  proof cases
    case (2 k)
    then have k: "k \<in> K" "a \<in> set (addrs C k)" using inv' t by (auto simp: check_inv_def)
    then have "check_inv C K G s'" using inv' 2(2) by (simp add: check_inv_def insert_absorb)
    with k show ?thesis by blast
  qed (use inv' in simp)
qed


section \<open>The check is sound\<close>

lemma check_keys_sound:
  assumes "check_inv C K G s" "weights_ok ks" "0 \<le> w" "check_keys C t ks w s = (r, w', s')"
  shows "check_inv C K G s' \<and> 0 \<le> w' \<and> w' \<le> w + weight_where (\<lambda>k. k \<in> K) ks \<and> (r \<longrightarrow> t \<le> w')"
  using assms
proof (induction ks arbitrary: w s)
  case (Cons p ks)
  obtain k x where p: "p = (k, x)" by fastforce
  obtain b s1 where b: "signed_by_key C k s = (b, s1)" by fastforce
  note inv = check_inv_key [OF Cons.prems(1) b]
  have u: "0 \<le> u32 (w + x)" "u32 (w + x) \<le> w + x" using Cons.prems(2,3) p by (simp_all add: u32_def zmod_le_nonneg_dividend)
  have nn: "0 \<le> weight_where (\<lambda>k. k \<in> K) ks" "0 \<le> x" using Cons.prems(2) p by (simp_all add: weight_where_nonneg)
  show ?case
  proof (cases b)
    case False
    then have run: "check_keys C t ks w s1 = (r, w', s')" using Cons.prems(4) b by (simp add: p)
    show ?thesis using Cons.IH [OF _ _ Cons.prems(3) run] inv Cons.prems(2) False p by auto
  next
    case True
    show ?thesis
    proof (cases "u32 (w + x) \<ge> t")
      case reached: True
      then show ?thesis using True inv Cons.prems(4) b u nn p by auto
    next
      case False
      then have run: "check_keys C t ks (u32 (w + x)) s1 = (r, w', s')" using Cons.prems(4) b True by (simp add: p)
      show ?thesis using Cons.IH [OF _ _ u(1) run] inv Cons.prems(2) u(2) True p by auto
    qed
  qed
qed simp

lemma check_addresses_sound:
  assumes "check_inv C K G s" "weights_ok as" "0 \<le> w" "check_addresses C t as w s = Some (r, w', s')"
  shows "check_inv C K G s' \<and> 0 \<le> w' \<and> w' \<le> w + weight_where (\<lambda>a. \<exists>k \<in> K. a \<in> set (addrs C k)) as \<and> (r \<longrightarrow> t \<le> w')"
  using assms
proof (induction as arbitrary: w s)
  case (Cons p as)
  obtain a x where p: "p = (a, x)" by fastforce
  obtain b s1 where b: "signed_by_address C a s = Some (b, s1)" using Cons.prems(4) by (auto simp: p opt_bind)
  note inv = check_inv_address [OF Cons.prems(1) b]
  have u: "0 \<le> u32 (w + x)" "u32 (w + x) \<le> w + x" using Cons.prems(2,3) p by (simp_all add: u32_def zmod_le_nonneg_dividend)
  have nn: "0 \<le> weight_where (\<lambda>a. \<exists>k \<in> K. a \<in> set (addrs C k)) as" "0 \<le> x" using Cons.prems(2) p by (simp_all add: weight_where_nonneg)
  show ?case
  proof (cases b)
    case False
    then have run: "check_addresses C t as w s1 = Some (r, w', s')" using Cons.prems(4) b by (simp add: p)
    show ?thesis using Cons.IH [OF _ _ Cons.prems(3) run] inv Cons.prems(2) nn p by auto
  next
    case True
    show ?thesis
    proof (cases "u32 (w + x) \<ge> t")
      case reached: True
      then show ?thesis using True inv Cons.prems(4) b u nn p by auto
    next
      case False
      then have run: "check_addresses C t as (u32 (w + x)) s1 = Some (r, w', s')" using Cons.prems(4) b True by (simp add: p)
      show ?thesis using Cons.IH [OF _ _ u(1) run] inv Cons.prems(2) u(2) True p by auto
    qed
  qed
qed simp

lemma check_inv_approve: "check_inv C K G s \<Longrightarrow> a \<in> G \<Longrightarrow> check_inv C K G (approve a s)"
  by (auto simp: check_inv_def approve_def signers_def)

text \<open>Everything that the check accepts is satisfied by the keys and approvals.\<close>

abbreviation grants :: "('k, 'a) sign_context \<Rightarrow> 'k set \<Rightarrow> account_id_type set \<Rightarrow> account_id_type set" where
  "grants C K A \<equiv> {a. granted C K A a}"

lemma check_accounts_step:
  "check_accounts C n t ((a, x) # as) w s =
     (if a \<notin> set (approved_by s) \<and> n = 0 then check_accounts C n t as w s
      else do {
        (r, s1) \<leftarrow> check_account C (n - 1) a s;
        if r then (let s2 = (if a \<in> set (approved_by s) then s1 else approve a s1)
          in if u32 (w + x) \<ge> t then Some (True, s2) else check_accounts C n t as (u32 (w + x)) s2)
        else check_accounts C n t as w s1
      })"
  by (cases n) (auto simp: check_account_def Let_def split: option.split bind_split intro!: arg_cong2 [where f = Option.bind] ext)


definition auth_sound :: "('k::linorder, 'a) sign_context \<Rightarrow> 'k set \<Rightarrow> account_id_type set \<Rightarrow> nat \<Rightarrow> bool" where
  "auth_sound C K A n \<longleftrightarrow> (\<forall>au s r s'. check_inv C K (grants C K A) s \<longrightarrow> authority_ok au \<longrightarrow> check_authority C n au s = Some (r, s') \<longrightarrow>
     check_inv C K (grants C K A) s' \<and> (r \<longrightarrow> satisfied C K A au))"

lemma auth_soundD:
  "auth_sound C K A n \<Longrightarrow> check_inv C K (grants C K A) s \<Longrightarrow> authority_ok au \<Longrightarrow> check_authority C n au s = Some (r, s') \<Longrightarrow>
     check_inv C K (grants C K A) s' \<and> (r \<longrightarrow> satisfied C K A au)"
  unfolding auth_sound_def by blast

lemma check_account_sound:
  assumes C: "context_ok C" and snd: "a \<in> set (approved_by s) \<or> auth_sound C K A n"
    and inv: "check_inv C K (grants C K A) s" and run: "check_account C n a s = Some (r, s')"
  shows "check_inv C K (grants C K A) s' \<and> (r \<longrightarrow> granted C K A a)"
proof (cases "a \<in> set (approved_by s)")
  case True
  with run inv show ?thesis by (auto simp: check_account_def check_inv_def)
next
  case False
  then have sound: "auth_sound C K A n" using snd by simp
  obtain r1 s1 where r1: "check_authority C n (get_active C a) s = Some (r1, s1)"
    using run False by (auto simp: check_account_def opt_bind)
  have ok: "authority_ok (get_active C a)" "authority_ok (get_owner C a)" using C by (simp_all add: context_ok_def)
  note a1 = auth_soundD [OF sound inv ok(1) r1]
  have inv1: "check_inv C K (grants C K A) s1" using a1 by simp
  show ?thesis
  proof (cases "r1 \<or> \<not> allow_non_immediate_owner C")
    case True
    then show ?thesis using run False r1 a1 granted_satisfied(1) [of C K A a] by (auto simp: check_account_def split: if_splits)
  next
    case owner: False
    then have "check_authority C n (get_owner C a) s1 = Some (r, s')" using run False r1 by (simp add: check_account_def)
    from auth_soundD [OF sound inv1 ok(2) this] owner show ?thesis using granted_satisfied(2) [of C K A a] by auto
  qed
qed

lemma check_accounts_sound:
  assumes C: "context_ok C" and snd: "n = 0 \<or> auth_sound C K A (n - 1)"
  shows "check_inv C K (grants C K A) s \<Longrightarrow> weights_ok as \<Longrightarrow> 0 \<le> w \<Longrightarrow> check_accounts C n t as w s = Some (r, s') \<Longrightarrow>
    check_inv C K (grants C K A) s' \<and> (r \<longrightarrow> t \<le> w + weight_where (\<lambda>a. a \<in> grants C K A) as)"
proof (induction as arbitrary: w s)
  case (Cons p as)
  obtain a x where p: "p = (a, x)" by fastforce
  let ?G = "grants C K A"
  have x: "0 \<le> x" "weights_ok as" using Cons.prems(2) p by simp_all
  have u: "0 \<le> u32 (w + x)" "u32 (w + x) \<le> w + x" using x Cons.prems(3) by (simp_all add: u32_def zmod_le_nonneg_dividend)
  have nn: "0 \<le> weight_where (\<lambda>a. a \<in> ?G) as" using x(2) by (rule weight_where_nonneg)
  show ?case
  proof (cases "a \<notin> set (approved_by s) \<and> n = 0")
    case True
    then have "check_accounts C n t as w s = Some (r, s')" using Cons.prems(4) by (simp add: p)
    from Cons.IH [OF Cons.prems(1) x(2) Cons.prems(3) this] show ?thesis using x(1) by (auto simp: p)
  next
    case False
    note run = Cons.prems(4) [unfolded p check_accounts_step if_not_P [OF False]]
    obtain b s1 where b: "check_account C (n - 1) a s = Some (b, s1)" using run by (auto simp: opt_bind)
    have "a \<in> set (approved_by s) \<or> auth_sound C K A (n - 1)" using False snd by auto
    note m = check_account_sound [OF C this Cons.prems(1) b]
    define s2 where "s2 = (if a \<in> set (approved_by s) then s1 else approve a s1)"
    show ?thesis
    proof (cases b)
      case False
      then have "check_accounts C n t as w s1 = Some (r, s')" using run b by simp
      from Cons.IH [OF _ x(2) Cons.prems(3) this] m show ?thesis using x(1) by (auto simp: p)
    next
      case True
      then have a: "a \<in> ?G" using m by simp
      have inv2: "check_inv C K ?G s2" using m a by (simp add: s2_def check_inv_approve)
      show ?thesis
      proof (cases "t \<le> u32 (w + x)")
        case reached: True
        then have "s' = s2" "r" using run b True by (simp_all add: s2_def Let_def)
        then show ?thesis using inv2 reached u nn a by (auto simp: p)
      next
        case more: False
        then have "check_accounts C n t as (u32 (w + x)) s2 = Some (r, s')" using run b True by (simp add: s2_def Let_def)
        from Cons.IH [OF inv2 x(2) u(1) this] u(2) a show ?thesis by (auto simp: p)
      qed
    qed
  qed
qed auto

lemma check_authority_sound_step:
  assumes C: "context_ok C" and snd: "n = 0 \<or> auth_sound C K A (n - 1)"
  shows "auth_sound C K A n"
  unfolding auth_sound_def
proof (intro allI impI)
  fix auo s r s'
  assume inv: "check_inv C K (grants C K A) s" and ok: "authority_ok auo" and run: "check_authority C n auo s = Some (r, s')"
  show "check_inv C K (grants C K A) s' \<and> (r \<longrightarrow> satisfied C K A auo)"
  proof (cases auo)
    case None
    then show ?thesis using inv run by simp
  next
    case (Some au)
    obtain b w s1 where k: "check_keys C (weight_threshold au) (key_auths au) 0 s = (b, w, s1)" by (metis prod_cases3)
    have ok: "weights_ok (key_auths au)" "weights_ok (address_auths au)" "weights_ok (account_auths au)"
      using ok Some by (simp_all add: authority_ok_def)
    note ks = check_keys_sound [OF inv ok(1) _ k, simplified]
    have nn: "0 \<le> weight_where (\<lambda>a. \<exists>k \<in> K. a \<in> set (addrs C k)) (address_auths au)"
      "0 \<le> weight_where (\<lambda>a. a \<in> grants C K A) (account_auths au)"
      using ok by (simp_all add: weight_where_nonneg)
    show ?thesis
    proof (cases b)
      case True
      then have "s' = s1" "r" using run Some k by simp_all
      then show ?thesis using ks True nn Some by (auto simp: satisfied_def weight_by_def)
    next
      case False
      then obtain b2 w2 s2 where a: "check_addresses C (weight_threshold au) (address_auths au) w s1 = Some (b2, w2, s2)"
        using run Some k by (auto simp: opt_bind)
      have inv1: "check_inv C K (grants C K A) s1" "0 \<le> w" using ks by auto
      note as = check_addresses_sound [OF inv1(1) ok(2) inv1(2) a]
      show ?thesis
      proof (cases b2)
        case True
        then have "s' = s2" "r" using run Some k a False by simp_all
        then show ?thesis using ks as True nn(2) Some by (auto simp: satisfied_def weight_by_def)
      next
        case not_b2: False
        have run2: "check_accounts C n (weight_threshold au) (account_auths au) w2 s2 = Some (r, s')"
          using run Some k a False not_b2 by simp
        show ?thesis
          using check_accounts_sound [OF C snd _ ok(3) _ run2] ks as Some by (auto simp: satisfied_def weight_by_def)
      qed
    qed
  qed
qed

lemma check_authority_sound: "context_ok C \<Longrightarrow> auth_sound C K A n"
proof (induction n)
  case 0
  show ?case by (rule check_authority_sound_step [OF 0]) simp
next
  case (Suc n)
  show ?case by (rule check_authority_sound_step [OF Suc(2)]) (simp add: Suc)
qed


lemma weight_by_available [simp]: "weight_by (C\<lparr>available_keys := x\<rparr>) K au B = weight_by C K au B"
  by (simp add: weight_by_def)

lemma granted_available [simp]: "granted (C\<lparr>available_keys := x\<rparr>) K A = granted C K A"
proof (intro ext iffI)
  show "granted C K A a" if "granted (C\<lparr>available_keys := x\<rparr>) K A a" for a
    using that by induction (auto intro: granted.intros)
  show "granted (C\<lparr>available_keys := x\<rparr>) K A a" if "granted C K A a" for a
    using that
  proof induction
    case (active a au B)
    then show ?case by (intro granted.active [where au = au and B = B]) auto
  next
    case (owner a au B)
    then show ?case by (intro granted.owner [where au = au and B = B]) auto
  qed (rule granted.approval)
qed

lemma satisfied_available [simp]: "satisfied (C\<lparr>available_keys := x\<rparr>) K A au = satisfied C K A au"
  by (simp add: satisfied_def split: option.split)

lemma assert_all_sound:
  assumes "Inv s" "\<forall>x \<in> set xs. \<forall>s r s'. Inv s \<longrightarrow> check x s = Some (r, s') \<longrightarrow> Inv s' \<and> (r \<longrightarrow> Q x)"
    and "assert_all e check xs s = Some (Inr s')"
  shows "Inv s' \<and> (\<forall>x \<in> set xs. Q x)"
  using assms
proof (induction xs arbitrary: s)
  case (Cons x xs)
  from Cons.prems(3) obtain r s1 where r: "check x s = Some (r, s1)" by (auto simp: opt_bind)
  have "r" using Cons.prems(3) r by (cases r) simp_all
  then have run: "assert_all e check xs s1 = Some (Inr s')" using Cons.prems(3) r by simp
  note step = bspec [OF Cons.prems(2), rule_format]
  have x: "Inv s1 \<and> Q x" using step [OF list.set_intros(1) Cons.prems(1) r] \<open>r\<close> by blast
  have "\<forall>y \<in> set xs. \<forall>s r s'. Inv s \<longrightarrow> check y s = Some (r, s') \<longrightarrow> Inv s' \<and> (r \<longrightarrow> Q y)"
    using step [OF list.set_intros(2)] by blast
  from Cons.IH [OF conjunct1 [OF x] this run] x show ?case unfolding list.set by blast
qed simp

lemma bind_result_Inr: "bind_result m f = Some (Inr y) \<longleftrightarrow> (\<exists>s. m = Some (Inr s) \<and> f s = Some (Inr y))"
proof (cases m)
  case (Some r)
  then show ?thesis by (cases r) (auto simp: bind_result_def)
qed (simp add: bind_result_def)

lemma check_required_sound:
  assumes C: "context_ok C" and other: "\<forall>au \<in> set other. authority_ok (Some au)"
    and inv: "check_inv C K (grants C K A) s" and run: "check_required C n oa ra ro other s = Some (Inr s')"
  shows "(\<forall>au \<in> set other. satisfied C K A (Some au)) \<and> (\<forall>i \<in> set ro. i \<in> set oa \<or> satisfied C K A (get_owner C i)) \<and>
    (\<forall>i \<in> set ra. granted C K A i \<or> satisfied C K A (get_owner C i))"
proof -
  note sound = check_authority_sound [OF C, of K A n]
  have ok: "authority_ok (get_owner C a)" for a using C by (simp add: context_ok_def)
  obtain s1 s2 where s1: "assert_all Tx_missing_other_auth (\<lambda>au. check_authority C n (Some au)) other s = Some (Inr s1)"
    and s2: "assert_all Tx_missing_owner_auth
       (\<lambda>i s. if i \<in> set oa then Some (True, s) else check_authority C n (get_owner C i) s) ro s1 = Some (Inr s2)"
    and s3: "assert_all Tx_missing_active_auth
       (\<lambda>i s. do { (r, s1) \<leftarrow> check_account C n i s; if r then Some (True, s1) else check_authority C n (get_owner C i) s1 })
       ra s2 = Some (Inr s')"
    using run by (auto simp: check_required_def bind_result_Inr)
  have a1: "check_inv C K (grants C K A) s1 \<and> (\<forall>au \<in> set other. satisfied C K A (Some au))"
    by (rule assert_all_sound [where Inv = "check_inv C K (grants C K A)", OF inv _ s1]) (use auth_soundD [OF sound] other in blast)
  have a2: "check_inv C K (grants C K A) s2 \<and> (\<forall>i \<in> set ro. i \<in> set oa \<or> satisfied C K A (get_owner C i))"
    by (rule assert_all_sound [where Inv = "check_inv C K (grants C K A)", OF _ _ s2]) (use a1 auth_soundD [OF sound _ ok] in \<open>auto split: if_splits\<close>)
  have "check_inv C K (grants C K A) s' \<and> (\<forall>i \<in> set ra. granted C K A i \<or> satisfied C K A (get_owner C i))"
  proof (rule assert_all_sound [where Inv = "check_inv C K (grants C K A)", OF _ _ s3], use a2 in simp, intro ballI allI impI)
    fix i s r s'
    assume inv: "check_inv C K (grants C K A) s"
      and "do { (r, s1) \<leftarrow> check_account C n i s; if r then Some (True, s1) else check_authority C n (get_owner C i) s1 } = Some (r, s')"
    then obtain r1 s1 where r1: "check_account C n i s = Some (r1, s1)"
      "(if r1 then Some (True, s1) else check_authority C n (get_owner C i) s1) = Some (r, s')" by (auto simp: opt_bind)
    have m: "check_inv C K (grants C K A) s1 \<and> (r1 \<longrightarrow> granted C K A i)"
      by (rule check_account_sound [OF C _ inv r1(1)]) (simp add: sound)
    then show "check_inv C K (grants C K A) s' \<and> (r \<longrightarrow> granted C K A i \<or> satisfied C K A (get_owner C i))"
      using r1(2) auth_soundD [OF sound _ ok] by (auto split: if_splits)
  qed
  with a1 a2 show ?thesis by blast
qed

lemma required_of:
  fixes I :: "('op, 'k, 'a) auth_interface"
  assumes "fold (operation_get_required_authorities I) ops ([], [], []) = (ra, ro, other)"
  shows "set ra = (\<Union>op \<in> set ops. insert (op_fee_payer I op) (set (op_active I op)))" "set ro = (\<Union>op \<in> set ops. set (op_owner I op))"
    "set other = (\<Union>op \<in> set ops. set (op_other I op))"
proof -
  have "fold (operation_get_required_authorities I) ops (a, b, c) = (ra, ro, other) \<Longrightarrow>
      set ra = set a \<union> (\<Union>op \<in> set ops. insert (op_fee_payer I op) (set (op_active I op))) \<and>
      set ro = set b \<union> (\<Union>op \<in> set ops. set (op_owner I op)) \<and> set other = set c \<union> (\<Union>op \<in> set ops. set (op_other I op))" for a b c
  proof (induction ops arbitrary: a b c)
    case (Cons op ops)
    let ?a = "sorted_list_of_set (set a \<union> {op_fee_payer I op} \<union> set (op_active I op))"
      and ?b = "sorted_list_of_set (set b \<union> set (op_owner I op))"
    have "fold (operation_get_required_authorities I) ops (?a, ?b, c @ op_other I op) = (ra, ro, other)"
      using Cons.prems unfolding fold_simps by (simp only: operation_get_required_authorities_def [of I op] prod.case)
    moreover have "set ?a = set a \<union> {op_fee_payer I op} \<union> set (op_active I op)" "set ?b = set b \<union> set (op_owner I op)"
      by (intro set_sorted_list_of_set; simp)+
    ultimately show ?case using Cons.IH [of ?a ?b "c @ op_other I op"] by auto
  qed simp
  from this [OF assms] show "set ra = (\<Union>op \<in> set ops. insert (op_fee_payer I op) (set (op_active I op)))"
    "set ro = (\<Union>op \<in> set ops. set (op_owner I op))" "set other = (\<Union>op \<in> set ops. set (op_other I op))" by auto
qed

lemma new_sign_state_keys: "fst ` set (provided_signatures (new_sign_state sigs)) = set sigs"
proof -
  have "fst ` set (fold (\<lambda>k. fm_put k False) sigs m) = set sigs \<union> fst ` set m" for m by (induction sigs arbitrary: m) auto
  then show ?thesis by (simp add: new_sign_state_def)
qed


section \<open>The check is complete\<close>

text \<open>What is satisfied within \<open>n\<close> levels of accounts.\<close>

primrec sat :: "('k, 'a) sign_context \<Rightarrow> 'k set \<Rightarrow> account_id_type set \<Rightarrow> nat \<Rightarrow> ('k, 'a) authority option \<Rightarrow> bool" where
  "sat C K A 0 au = (case au of None \<Rightarrow> False | Some x \<Rightarrow> weight_threshold x \<le> weight_by C K x A)"
| "sat C K A (Suc n) au = (case au of None \<Rightarrow> False | Some x \<Rightarrow> weight_threshold x \<le> weight_by C K x
     (A \<union> {a. sat C K A n (get_active C a) \<or> allow_non_immediate_owner C \<and> sat C K A n (get_owner C a)}))"

definition counts :: "('k, 'a) sign_context \<Rightarrow> 'k set \<Rightarrow> account_id_type set \<Rightarrow> nat \<Rightarrow> account_id_type \<Rightarrow> bool" where
  "counts C K A n a \<longleftrightarrow> a \<in> A \<or> n \<noteq> 0 \<and> (sat C K A (n - 1) (get_active C a) \<or> allow_non_immediate_owner C \<and> sat C K A (n - 1) (get_owner C a))"

lemma sat_counts: "sat C K A n (Some x) \<longleftrightarrow> weight_threshold x \<le> weight_by C K x {a. counts C K A n a}"
proof -
  have "{a. counts C K A (Suc m) a} = A \<union> {a. sat C K A m (get_active C a) \<or> allow_non_immediate_owner C \<and> sat C K A m (get_owner C a)}" for m
    by (auto simp: counts_def)
  moreover have "{a. counts C K A 0 a} = A" by (auto simp: counts_def)
  ultimately show ?thesis by (cases n) simp_all
qed

text \<open>Authorities without addresses whose weights do not overflow 32 bits together.\<close>

definition plain :: "('k, 'a) authority option \<Rightarrow> bool" where
  "plain au \<longleftrightarrow> (\<forall>x. au = Some x \<longrightarrow> weights_ok (key_auths x) \<and> weights_ok (account_auths x) \<and> address_auths x = [] \<and>
     weight_where (\<lambda>_. True) (key_auths x) + weight_where (\<lambda>_. True) (account_auths x) < 2 ^ 32)"

definition live_inv :: "('k, 'a) sign_context \<Rightarrow> 'k set \<Rightarrow> account_id_type set \<Rightarrow> ('k, 'a) sign_state \<Rightarrow> bool" where
  "live_inv C K A s \<longleftrightarrow> signers C s = K \<and> A \<subseteq> set (approved_by s)"

definition auth_complete :: "('k::linorder, 'a) sign_context \<Rightarrow> 'k set \<Rightarrow> account_id_type set \<Rightarrow> nat \<Rightarrow> bool" where
  "auth_complete C K A n \<longleftrightarrow> (\<forall>au s. live_inv C K A s \<longrightarrow> plain au \<longrightarrow>
     (\<exists>r s'. check_authority C n au s = Some (r, s') \<and> live_inv C K A s' \<and> (sat C K A n au \<longrightarrow> r)))"

lemma auth_completeE:
  assumes "auth_complete C K A n" "live_inv C K A s" "plain au"
  obtains r s' where "check_authority C n au s = Some (r, s')" "live_inv C K A s'" "sat C K A n au \<longrightarrow> r"
  using assms unfolding auth_complete_def by blast

lemma check_keys_complete:
  assumes "live_inv C K A s" "weights_ok ks" "0 \<le> w" "w + weight_where (\<lambda>_. True) ks < 2 ^ 32" "check_keys C t ks w s = (r, w', s')"
  shows "live_inv C K A s' \<and> (\<not> r \<longrightarrow> w' = w + weight_where (\<lambda>k. k \<in> K) ks)"
  using assms
proof (induction ks arbitrary: w s)
  case (Cons p ks)
  obtain k x where p: "p = (k, x)" by fastforce
  obtain b s1 where b: "signed_by_key C k s = (b, s1)" by fastforce
  note e = signed_by_key_effect [OF b]
  have inv: "live_inv C K A s1" "b \<longleftrightarrow> k \<in> K" using Cons.prems(1) e by (auto simp: live_inv_def)
  have ks: "weights_ok ks" "0 \<le> x" "0 \<le> weight_where (\<lambda>_. True) ks" using Cons.prems(2) p by (simp_all add: weight_where_nonneg)
  then have u: "u32 (w + x) = w + x" using Cons.prems(3,4) p by simp
  show ?case
  proof (cases b)
    case False
    then have run: "check_keys C t ks w s1 = (r, w', s')" using Cons.prems(5) b by (simp add: p)
    have "w + weight_where (\<lambda>_. True) ks < 2 ^ 32" using Cons.prems(4) ks p by simp
    from Cons.IH [OF inv(1) ks(1) Cons.prems(3) this run] False inv(2) show ?thesis by (simp add: p)
  next
    case True
    show ?thesis
    proof (cases "t \<le> w + x")
      case reached: True
      then show ?thesis using True inv Cons.prems(5) b u p by auto
    next
      case False
      then have run: "check_keys C t ks (w + x) s1 = (r, w', s')" using Cons.prems(5) b True u by (simp add: p)
      have "w + x + weight_where (\<lambda>_. True) ks < 2 ^ 32" using Cons.prems(4) p by simp
      from Cons.IH [OF inv(1) ks(1) _ this run] Cons.prems(3) ks(2) True inv(2) show ?thesis by (simp add: p)
    qed
  qed
qed simp

lemma check_account_complete:
  assumes C: "\<forall>a. plain (get_active C a) \<and> plain (get_owner C a)" and comp: "a \<in> set (approved_by s) \<or> auth_complete C K A n"
    and inv: "live_inv C K A s"
  obtains r s' where "check_account C n a s = Some (r, s')" "live_inv C K A s'" "counts C K A (Suc n) a \<longrightarrow> r" "a \<in> A \<longrightarrow> r"
proof (cases "a \<in> set (approved_by s)")
  case True
  then show ?thesis using that inv by (simp add: check_account_def)
next
  case False
  then have comp: "auth_complete C K A n" using comp by simp
  obtain r1 s1 where r1: "check_authority C n (get_active C a) s = Some (r1, s1)" "live_inv C K A s1" "sat C K A n (get_active C a) \<longrightarrow> r1"
    using auth_completeE [OF comp inv] C by metis
  obtain r2 s2 where r2: "check_authority C n (get_owner C a) s1 = Some (r2, s2)" "live_inv C K A s2" "sat C K A n (get_owner C a) \<longrightarrow> r2"
    using auth_completeE [OF comp r1(2)] C by metis
  have "a \<notin> A" using inv False by (auto simp: live_inv_def)
  then show ?thesis using that False r1 r2
    by (cases "r1"; cases "allow_non_immediate_owner C") (auto simp: check_account_def counts_def)
qed

lemma check_accounts_complete:
  assumes C: "\<forall>a. plain (get_active C a) \<and> plain (get_owner C a)" and comp: "n = 0 \<or> auth_complete C K A (n - 1)"
  shows "live_inv C K A s \<Longrightarrow> weights_ok as \<Longrightarrow> 0 \<le> w \<Longrightarrow> w + weight_where (\<lambda>_. True) as < 2 ^ 32 \<Longrightarrow>
    \<exists>r s'. check_accounts C n t as w s = Some (r, s') \<and> live_inv C K A s' \<and> (t \<le> w + weight_where (counts C K A n) as \<longrightarrow> r)"
proof (induction as arbitrary: w s)
  case (Cons p as)
  obtain a x where p: "p = (a, x)" by fastforce
  have x: "0 \<le> x" "weights_ok as" "0 \<le> weight_where (\<lambda>_. True) as" using Cons.prems(2) p by (simp_all add: weight_where_nonneg)
  have u: "u32 (w + x) = w + x" using Cons.prems(3,4) x p by simp
  have rest: "w + weight_where (\<lambda>_. True) as < 2 ^ 32" "w + x + weight_where (\<lambda>_. True) as < 2 ^ 32" "0 \<le> w + x"
    using Cons.prems(3,4) x p by simp_all
  show ?case
  proof (cases "a \<notin> set (approved_by s) \<and> n = 0")
    case True
    then have "\<not> counts C K A n a" using Cons.prems(1) by (auto simp: counts_def live_inv_def)
    then show ?thesis using Cons.IH [OF Cons.prems(1) x(2) Cons.prems(3) rest(1)] True by (auto simp: p)
  next
    case False
    have "a \<in> set (approved_by s) \<or> auth_complete C K A (n - 1)" using False comp by auto
    from check_account_complete [OF C this Cons.prems(1)] obtain b s1 where b: "check_account C (n - 1) a s = Some (b, s1)"
      "live_inv C K A s1" "counts C K A (Suc (n - 1)) a \<longrightarrow> b" "a \<in> A \<longrightarrow> b" by blast
    have b': "counts C K A n a \<longrightarrow> b" using b(3,4) by (cases n) (auto simp: counts_def)
    define s2 where "s2 = (if a \<in> set (approved_by s) then s1 else approve a s1)"
    have inv2: "live_inv C K A s2" using b(2) by (auto simp: s2_def live_inv_def approve_def signers_def)
    have step: "check_accounts C n t ((a, x) # as) w s =
        (if b then if t \<le> w + x then Some (True, s2) else check_accounts C n t as (w + x) s2 else check_accounts C n t as w s1)"
      unfolding check_accounts_step if_not_P [OF False] using b(1) u by (simp add: s2_def Let_def)
    show ?thesis
    proof (cases b)
      case False
      then show ?thesis using Cons.IH [OF b(2) x(2) Cons.prems(3) rest(1)] b' step by (auto simp: p)
    next
      case True
      then show ?thesis using Cons.IH [OF inv2 x(2) rest(3,2)] step inv2 x(1) by (cases "t \<le> w + x") (auto simp: p)
    qed
  qed
qed simp

lemma check_authority_complete:
  fixes C :: "('k::linorder, 'a) sign_context"
  assumes C: "\<forall>a. plain (get_active C a) \<and> plain (get_owner C a)"
  shows "auth_complete C K A n"
proof (induction n)
  have step: "auth_complete C K A n" if prev: "n = 0 \<or> auth_complete C K A (n - 1)" for n
    unfolding auth_complete_def
  proof (intro allI impI)
    fix auo :: "('k, 'a) authority option" and s
    assume inv: "live_inv C K A s" and pl: "plain auo"
    show "\<exists>r s'. check_authority C n auo s = Some (r, s') \<and> live_inv C K A s' \<and> (sat C K A n auo \<longrightarrow> r)"
    proof (cases auo)
      case None
      then show ?thesis using inv by (cases n) auto
    next
      case (Some au)
      have ok: "weights_ok (key_auths au)" "weights_ok (account_auths au)" "address_auths au = []"
        "weight_where (\<lambda>_. True) (key_auths au) + weight_where (\<lambda>_. True) (account_auths au) < 2 ^ 32"
        using pl Some by (simp_all add: plain_def)
      have nn: "0 \<le> weight_where P (key_auths au)" "0 \<le> weight_where P' (account_auths au)" for P P'
        using ok by (simp_all add: weight_where_nonneg)
      obtain b w s1 where k: "check_keys C (weight_threshold au) (key_auths au) 0 s = (b, w, s1)" by (metis prod_cases3)
      have small: "0 + weight_where (\<lambda>_. True) (key_auths au) < 2 ^ 32" using ok(4) nn(2) [of "\<lambda>_. True"] by simp
      note ks = check_keys_complete [OF inv ok(1) _ small k, simplified]
      show ?thesis
      proof (cases b)
        case True
        then show ?thesis using k Some ks by auto
      next
        case False
        then have w: "w = weight_where (\<lambda>k. k \<in> K) (key_auths au)" using ks by simp
        have "w \<le> weight_where (\<lambda>_. True) (key_auths au)" unfolding w by (rule weight_where_mono [OF ok(1)]) simp
        then have bound: "w + weight_where (\<lambda>_. True) (account_auths au) < 2 ^ 32" using ok(4) by linarith
        have "0 \<le> w" using nn w by simp
        from check_accounts_complete [OF C prev conjunct1 [OF ks] ok(2) this bound]
        show ?thesis using k Some False ok(3) w by (auto simp: sat_counts weight_by_def)
      qed
    qed
  qed
  show "auth_complete C K A 0" by (rule step) simp
  show "auth_complete C K A (Suc n)" if "auth_complete C K A n" for n by (rule step) (simp add: that)
qed


section \<open>Properties\<close>

lemma verify_authority_Inr:
  fixes C :: "('b::linorder, 'c) sign_context"
  assumes "verify_authority I C ops sigs n allow_committee active_approvals owner_approvals = Some (Inr u)"
  obtains ra ro other s s' where "fold (operation_get_required_authorities I) ops ([], [], []) = (ra, ro, other)"
    "allow_committee \<or> GRAPHENE_COMMITTEE_ACCOUNT \<notin> set ra"
    "fst ` set (provided_signatures s) = set sigs" "address_sigs s = None"
    "set (approved_by s) = set active_approvals \<union> set owner_approvals \<union> {GRAPHENE_TEMP_ACCOUNT}"
    "check_required (C\<lparr>available_keys := []\<rparr>) n owner_approvals ra ro other s = Some (Inr s')"
proof -
  obtain ra ro other where req: "fold (operation_get_required_authorities I) ops ([], [], []) = (ra, ro, other)" by (metis prod_cases3)
  let ?n = "new_sign_state sigs :: ('b, 'c) sign_state"
  define s :: "('b, 'c) sign_state" where "s = ?n\<lparr>approved_by := fold List.insert owner_approvals (fold List.insert active_approvals (approved_by ?n))\<rparr>"
  have run: "(if \<not> allow_committee \<and> GRAPHENE_COMMITTEE_ACCOUNT \<in> set ra then Some (Inl Invalid_committee_approval)
      else bind_result (check_required (C\<lparr>available_keys := []\<rparr>) n owner_approvals ra ro other s)
        (\<lambda>s. Some (if fst (remove_unused_signatures s) then Inl Tx_irrelevant_sig else Inr ()))) = Some (Inr u)"
    using assms unfolding verify_authority_def Let_def req s_def by (simp only: prod.case)
  have c: "allow_committee \<or> GRAPHENE_COMMITTEE_ACCOUNT \<notin> set ra" using run by (auto split: if_splits)
  then obtain s' where "check_required (C\<lparr>available_keys := []\<rparr>) n owner_approvals ra ro other s = Some (Inr s')"
    using run by (auto simp: bind_result_Inr split: if_splits)
  then show ?thesis
    using that [OF req c, of s s'] new_sign_state_keys [of sigs] by (auto simp: s_def new_sign_state_def)
qed

lemma verify_authority_granted:
  assumes "context_ok C" "\<forall>op \<in> set ops. \<forall>au \<in> set (op_other I op). authority_ok (Some au)"
    and "verify_authority I C ops sigs n allow_committee active_approvals owner_approvals = Some (Inr u)"
    and "op \<in> set ops" "A = set active_approvals \<union> set owner_approvals \<union> {GRAPHENE_TEMP_ACCOUNT}"
  shows "(\<forall>i \<in> insert (op_fee_payer I op) (set (op_active I op)).
        granted C (set sigs) A i \<or> satisfied C (set sigs) A (get_owner C i)) \<and>
    (\<forall>i \<in> set (op_owner I op). i \<in> set owner_approvals \<or> satisfied C (set sigs) A (get_owner C i)) \<and>
    (\<forall>au \<in> set (op_other I op). satisfied C (set sigs) A (Some au)) \<and>
    (allow_committee \<or> GRAPHENE_COMMITTEE_ACCOUNT \<notin> insert (op_fee_payer I op) (set (op_active I op)))"
proof (rule verify_authority_Inr [OF assms(3)])
  fix ra ro other s s'
  assume req: "fold (operation_get_required_authorities I) ops ([], [], []) = (ra, ro, other)"
    and c: "allow_committee \<or> GRAPHENE_COMMITTEE_ACCOUNT \<notin> set ra"
    and s: "fst ` set (provided_signatures s) = set sigs" "address_sigs s = None"
      "set (approved_by s) = set active_approvals \<union> set owner_approvals \<union> {GRAPHENE_TEMP_ACCOUNT}"
    and run: "check_required (C\<lparr>available_keys := []\<rparr>) n owner_approvals ra ro other s = Some (Inr s')"
  let ?C = "C\<lparr>available_keys := []\<rparr>"
  note r = required_of [OF req]
  have C: "context_ok ?C" using assms(1) by (simp add: context_ok_def)
  have inv: "check_inv ?C (set sigs) (grants ?C (set sigs) A) s"
    using s by (auto simp: check_inv_def signers_def assms(5) intro: granted.approval)
  have "\<forall>au \<in> set other. authority_ok (Some au)" using assms(2) r(3) by auto
  from check_required_sound [OF C this inv run] show ?thesis using assms(4) r c by auto
qed

text \<open>
  (C8) A transaction is only accepted with enough signatures: when the verification succeeds, then for every operation the fee payer and
  every account whose active authority it requires are granted, or their owner authority is satisfied, by the keys that signed and by the
  given approvals; every account whose owner authority it requires has approved or has its owner authority satisfied; every other
  authority it requires is satisfied; and the committee account acts only where that is allowed.
\<close>

theorem verify_authority_sound:
  assumes "context_ok C" "\<forall>op \<in> set ops. \<forall>au \<in> set (op_other I op). authority_ok (Some au)"
    and "verify_authority I C ops sigs n allow_committee active_approvals owner_approvals = Some (Inr u)"
    and "op \<in> set ops" "A = set active_approvals \<union> set owner_approvals \<union> {GRAPHENE_TEMP_ACCOUNT}"
  shows "(\<forall>i \<in> insert (op_fee_payer I op) (set (op_active I op)).
        granted C (set sigs) A i \<or> satisfied C (set sigs) A (get_owner C i)) \<and>
    (\<forall>i \<in> set (op_owner I op). i \<in> set owner_approvals \<or> satisfied C (set sigs) A (get_owner C i)) \<and>
    (\<forall>au \<in> set (op_other I op). satisfied C (set sigs) A (Some au)) \<and>
    (allow_committee \<or> GRAPHENE_COMMITTEE_ACCOUNT \<notin> insert (op_fee_payer I op) (set (op_active I op)))"
  by (rule verify_authority_granted [OF assms])

text \<open>
  (C22) The check of an authority returns and finds every authorization within its depth: on authorities whose weights do not
  overflow together and that name no addresses, the recursion ends with an answer, and the answer is yes whenever the keys and the
  approvals satisfy the authority through at most that many levels of accounts.
\<close>

theorem check_authority_returns:
  assumes "\<forall>a. plain (get_active C a) \<and> plain (get_owner C a)" "plain au"
    and "fst ` set (provided_signatures s) \<union> set (available_keys C) = K" "A \<subseteq> set (approved_by s)"
  shows "\<exists>r s'. check_authority C n au s = Some (r, s') \<and> (sat C K A n au \<longrightarrow> r)"
proof -
  have "live_inv C K A s" using assms(3,4) by (simp add: live_inv_def signers_def)
  from auth_completeE [OF check_authority_complete [OF assms(1)] this assms(2), where n = n] show ?thesis by metis
qed

text \<open>Account 10 acts with a key of its own and the consent of account 11, which has an active and an owner key.\<close>

definition demo_context :: "(nat, nat) sign_context" where
  "demo_context = \<lparr>
     get_active = (\<lambda>i. if i = 10 then Some \<lparr>weight_threshold = 2, account_auths = [(11, 1)], key_auths = [(1, 1)], address_auths = []\<rparr>
       else if i = 11 then Some \<lparr>weight_threshold = 1, account_auths = [], key_auths = [(2, 1)], address_auths = []\<rparr> else None),
     get_owner = (\<lambda>i. if i = 11 then Some \<lparr>weight_threshold = 1, account_auths = [], key_auths = [(3, 1)], address_auths = []\<rparr> else None),
     allow_non_immediate_owner = False, available_keys = [1, 3], addrs = (\<lambda>k. [])\<rparr>"

definition demo_iface :: "(account_id_type, nat, nat) auth_interface" where
  "demo_iface = \<lparr>op_fee_payer = id, op_active = (\<lambda>_. []), op_owner = (\<lambda>_. []), op_other = (\<lambda>_. [])\<rparr>"

lemma demo_context_ok: "context_ok demo_context" "\<forall>a. plain (get_active demo_context a) \<and> plain (get_owner demo_context a)"
  by (simp_all add: context_ok_def authority_ok_def plain_def demo_context_def)

theorem verify_authority_sound_witness:
  "verify_authority demo_iface demo_context [10] [1, 2] 2 False [] [] = Some (Inr ()) \<and>
   verify_authority demo_iface demo_context [10] [1] 2 False [] [] = Some (Inl Tx_missing_active_auth) \<and>
   (granted demo_context {1, 2} {4} 10 \<or> satisfied demo_context {1, 2} {4} (get_owner demo_context 10))"
proof -
  have run: "verify_authority demo_iface demo_context [10] [1, 2] 2 False [] [] = Some (Inr ())"
    "verify_authority demo_iface demo_context [10] [1] 2 False [] [] = Some (Inl Tx_missing_active_auth)" by code_simp+
  show ?thesis
    using run verify_authority_sound [OF demo_context_ok(1) _ run(1), of 10 "{4}"]
    by (simp add: demo_iface_def GRAPHENE_TEMP_ACCOUNT_def)
qed

theorem check_authority_returns_witness:
  "\<exists>s'. check_authority demo_context 2 (get_active demo_context 10) ((new_sign_state [1, 2])\<lparr>approved_by := []\<rparr>) = Some (True, s')"
proof -
  have "sat demo_context {1, 2, 3} {} 2 (get_active demo_context 10)"
    by (simp add: eval_nat_numeral demo_context_def weight_by_def)
  moreover have keys: "fst ` set (provided_signatures ((new_sign_state [1, 2] :: (nat, nat) sign_state)\<lparr>approved_by := []\<rparr>)) \<union>
      set (available_keys demo_context) = {1, 2, 3}"
    by (simp add: new_sign_state_keys demo_context_def insert_commute)
  ultimately show ?thesis
    using check_authority_returns [OF demo_context_ok(2) _ keys empty_subsetI, of "get_active demo_context 10" 2] demo_context_ok(2) by metis
qed

text \<open>The minimization looks for signatures with owner authorities even where they are not allowed, because of the missing argument,
  and then keeps a key that does not authorize the transaction.\<close>

lemma minimize_ignores_owner_flag:
  "get_required_signatures demo_iface demo_context [10] [] 2 = Some [1] \<and>
   minimize_required_signatures demo_iface demo_context [10] [] 2 = Some (Inr [1, 3]) \<and>
   verify_authority demo_iface demo_context [10] [1, 3] 2 False [] [] = Some (Inl Tx_missing_active_auth)"
  by (intro conjI; code_simp)

end
