(* ===== verification/Witness_Schedule.thy ===== *)
theory Witness_Schedule
  imports Balances Blocks "HOL-Library.Multiset"
begin

text \<open>
  The schedule of the witnesses and the part of applying a block that keeps it (\<^verbatim>\<open>libraries/chain/db_witness_schedule.cpp\<close> and
  \<^verbatim>\<open>db_update.cpp\<close>): slots and their times, the shuffled order of the active witnesses, missed blocks, participation, the pay of the
  signing witness and the last irreversible block. \<open>chain_clock\<close> has the fields of the (dynamic) global properties and of the
  schedule object that this code reads or writes; the time of the head block and the witnesses are in the database.
\<close>

section \<open>State\<close>

definition GRAPHENE_IRREVERSIBLE_THRESHOLD :: int where [chain_consts]: "GRAPHENE_IRREVERSIBLE_THRESHOLD = 7000"
definition GRAPHENE_RECENTLY_MISSED_COUNT_INCREMENT :: int where [chain_consts]: "GRAPHENE_RECENTLY_MISSED_COUNT_INCREMENT = 4"
definition GRAPHENE_RECENTLY_MISSED_COUNT_DECREMENT :: int where [chain_consts]: "GRAPHENE_RECENTLY_MISSED_COUNT_DECREMENT = 3"
definition GRAPHENE_MAX_UNDO_HISTORY :: int where [chain_consts]: "GRAPHENE_MAX_UNDO_HISTORY = 10000"

record chain_clock =
  head_block_number :: uint32
  head_block_id :: block_id_type
  current_witness :: nat
  witness_budget :: share_type
  recently_missed_count :: uint32
  current_aslot :: uint64
  recent_slots_filled :: "128 word"
  dynamic_flags :: uint32
  last_irreversible_block_num :: uint32
  active_witnesses :: "nat list"
  block_interval :: int
  maintenance_skip_slots :: int
  witness_pay_per_block :: share_type
  current_shuffled_witnesses :: "nat list"

section \<open>Slots\<close>

definition get_scheduled_witness :: "chain_clock \<Rightarrow> uint32 \<Rightarrow> nat option" where
  "get_scheduled_witness c slot_num =
     (let n = length (current_shuffled_witnesses c); aslot = u64 (current_aslot c + slot_num)
      in if n = 0 then None else Some (current_shuffled_witnesses c ! nat (aslot mod int n)))"

definition get_slot_time :: "fc_lib \<Rightarrow> chain_clock \<Rightarrow> database \<Rightarrow> uint32 \<Rightarrow> time_point_sec" where
  "get_slot_time L c d slot_num =
     (if slot_num = 0 then 0
      else if head_block_number c = 0 then tps_add L (head_block_time d) (u32 (slot_num * block_interval c))
      else
        let head_slot_time = u32 (head_block_time d div block_interval c * block_interval c);
            slot_num = (if bit (dynamic_flags c) 0 then u32 (slot_num + maintenance_skip_slots c) else slot_num)
        in tps_add L head_slot_time (u32 (slot_num * block_interval c)))"

definition get_slot_at_time :: "fc_lib \<Rightarrow> chain_clock \<Rightarrow> database \<Rightarrow> time_point_sec \<Rightarrow> uint32" where
  "get_slot_at_time L c d when =
     (let first_slot_time = get_slot_time L c d 1
      in if when < first_slot_time then 0 else u32 ((when - first_slot_time) div block_interval c + 1))"

section \<open>The shuffle\<close>

text \<open>The generator, on 64-bit words.\<close>

definition schedule_rand :: "time_point_sec \<Rightarrow> nat \<Rightarrow> 64 word" where
  "schedule_rand now i =
     (let k = push_bit 32 (of_int now) + of_nat i * 2685821657736338717;
          k = k XOR drop_bit 12 k;
          k = k XOR push_bit 25 k;
          k = k XOR drop_bit 27 k
      in k * 2685821657736338717)"

definition swap_at :: "nat \<Rightarrow> nat \<Rightarrow> 'a list \<Rightarrow> 'a list" where
  "swap_at i j xs = xs[i := xs ! j, j := xs ! i]"

function shuffle_from :: "time_point_sec \<Rightarrow> nat \<Rightarrow> nat list \<Rightarrow> nat list" where
  "shuffle_from now i xs =
     (if i < length xs then
        let jmax = length xs - i; j = i + unat (schedule_rand now i) mod jmax
        in shuffle_from now (i + 1) (swap_at i j xs)
      else xs)"
  by auto
termination by (relation "measure (\<lambda>(_, i, xs). length xs - i)") (auto simp: swap_at_def)

declare shuffle_from.simps [simp del]

definition update_witness_schedule :: "chain_clock \<Rightarrow> database \<Rightarrow> chain_clock option" where
  "update_witness_schedule c d =
     (if length (active_witnesses c) = 0 then None
      else if head_block_number c mod int (length (active_witnesses c)) = 0
      then Some (c\<lparr>current_shuffled_witnesses := shuffle_from (head_block_time d) 0 (active_witnesses c)\<rparr>)
      else Some c)"

section \<open>What a block changes\<close>

definition popcount :: "128 word \<Rightarrow> nat" where
  "popcount w = length (filter (bit w) [0..<128])"

definition witness_participation_rate :: "chain_clock \<Rightarrow> uint32" where
  "witness_participation_rate c = u32 (u64 (GRAPHENE_100_PERCENT * int (popcount (recent_slots_filled c))) div 128)"

fun mark_missed :: "chain_clock \<Rightarrow> nat \<Rightarrow> nat \<Rightarrow> database \<Rightarrow> database option" where
  "mark_missed c i 0 d = Some d"
| "mark_missed c i (Suc n) d = do {
     w \<leftarrow> get_scheduled_witness c (int i + 1);
     _ \<leftarrow> tbl_get w (witnesses d);
     mark_missed c (i + 1) n (d\<lparr>witnesses := tbl_modify w (\<lambda>w. w\<lparr>total_missed := total_missed w + 1\<rparr>) (witnesses d)\<rparr>)
   }"

definition update_witness_missed_blocks :: "fc_lib \<Rightarrow> chain_clock \<Rightarrow> time_point_sec \<Rightarrow> database \<Rightarrow> (uint32 \<times> database) option" where
  "update_witness_missed_blocks L c block_time d =
     (let slot = get_slot_at_time L c d block_time
      in do {
        fc_assert (slot \<noteq> 0);
        let missed_blocks = slot - 1;
        d' \<leftarrow> (if missed_blocks < int (length (current_shuffled_witnesses c)) then mark_missed c 0 (nat missed_blocks) d else Some d);
        Some (missed_blocks, d')
      })"

text \<open>\<open>checkpoint\<close> is the number of the last checkpoint, \<open>skip\<close> the flag \<^verbatim>\<open>skip_undo_history_check\<close>; the last component of the result is
  the size that the undo history and the fork database are set to.\<close>

definition missed_count :: "uint32 \<Rightarrow> uint32 option \<Rightarrow> uint32 \<Rightarrow> uint32 \<Rightarrow> uint32" where
  "missed_count num checkpoint missed_blocks n =
     (if num = 1 then 0
      else if (case checkpoint of Some k \<Rightarrow> k \<ge> num | None \<Rightarrow> False) then 0
      else if missed_blocks \<noteq> 0 then u32 (n + GRAPHENE_RECENTLY_MISSED_COUNT_INCREMENT * missed_blocks)
      else if n > GRAPHENE_RECENTLY_MISSED_COUNT_INCREMENT then n - GRAPHENE_RECENTLY_MISSED_COUNT_DECREMENT
      else if n > 0 then n - 1 else n)"

definition update_global_dynamic_data ::
  "('s signed_header \<Rightarrow> 32 word list) \<Rightarrow> bool \<Rightarrow> uint32 option \<Rightarrow> ('t, 's) signed_block \<Rightarrow> uint32 \<Rightarrow> chain_clock \<Rightarrow> database \<Rightarrow>
     (chain_clock \<times> database \<times> uint32) option" where
  "update_global_dynamic_data sha skip checkpoint b missed_blocks c d =
     (let num = uint (block_num b);
          c' = c\<lparr>recently_missed_count := missed_count num checkpoint missed_blocks (recently_missed_count c),
            head_block_number := num, head_block_id := fst (blk_id sha b), current_witness := blk_witness b,
            recent_slots_filled := push_bit (nat missed_blocks) (push_bit 1 (recent_slots_filled c) + 1),
            current_aslot := u64 (current_aslot c + u32 (missed_blocks + 1))\<rparr>
      in do {
        fc_assert (skip \<or> u32 (head_block_number c' - last_irreversible_block_num c') < GRAPHENE_MAX_UNDO_HISTORY);
        Some (c', d\<lparr>head_block_time := timestamp b\<rparr>, u32 (head_block_number c' - last_irreversible_block_num c' + 1))
      })"

definition update_signing_witness :: "fc_lib \<Rightarrow> nat \<Rightarrow> ('t, 's) signed_block \<Rightarrow> chain_clock \<Rightarrow> database \<Rightarrow> (chain_clock \<times> database) option" where
  "update_signing_witness L wit b c d =
     (let new_block_aslot = u64 (current_aslot c + get_slot_at_time L c d (timestamp b));
          witness_pay = min (witness_pay_per_block c) (witness_budget c)
      in do {
        budget \<leftarrow> safe_sub L (witness_budget c) witness_pay;
        d1 \<leftarrow> deposit_witness_pay L wit witness_pay d;
        _ \<leftarrow> tbl_get wit (witnesses d1);
        Some (c\<lparr>witness_budget := budget\<rparr>,
          d1\<lparr>witnesses := tbl_modify wit (\<lambda>w. w\<lparr>last_aslot := new_block_aslot, last_confirmed_block_num := uint (block_num b)\<rparr>) (witnesses d1)\<rparr>)
      })"

text \<open>\<^verbatim>\<open>std::nth_element\<close> leaves at the offset the element that sorting would put there.\<close>

definition update_last_irreversible_block :: "chain_clock \<Rightarrow> database \<Rightarrow> chain_clock option" where
  "update_last_irreversible_block c d = do {
     confirmed \<leftarrow> those (map (\<lambda>w. map_option last_confirmed_block_num (tbl_get w (witnesses d))) (active_witnesses c));
     let offset = nat ((GRAPHENE_100_PERCENT - GRAPHENE_IRREVERSIBLE_THRESHOLD) * int (length confirmed) div GRAPHENE_100_PERCENT);
     fc_assert (offset < length confirmed);
     let new_last_irreversible_block_num = sort confirmed ! offset;
     Some (if new_last_irreversible_block_num > last_irreversible_block_num c
       then c\<lparr>last_irreversible_block_num := new_last_irreversible_block_num\<rparr> else c)
   }"

definition update_maintenance_flag :: "bool \<Rightarrow> chain_clock \<Rightarrow> chain_clock" where
  "update_maintenance_flag flag c = c\<lparr>dynamic_flags := (dynamic_flags c AND (NOT 1)) OR (if flag then 1 else 0)\<rparr>"

text \<open>The checks of \<^verbatim>\<open>validate_block_header\<close> but the signature; the flag skips the check of the schedule.\<close>

definition validate_block_header :: "fc_lib \<Rightarrow> bool \<Rightarrow> ('t, 's) signed_block \<Rightarrow> chain_clock \<Rightarrow> database \<Rightarrow> nat option" where
  "validate_block_header L skip_witness_schedule_check b c d = do {
     fc_assert (head_block_id c = previous b);
     fc_assert (head_block_time d < timestamp b);
     _ \<leftarrow> tbl_get (blk_witness b) (witnesses d);
     (if skip_witness_schedule_check then Some ()
      else do {
        fc_assert (get_slot_at_time L c d (timestamp b) > 0);
        w \<leftarrow> get_scheduled_witness c (get_slot_at_time L c d (timestamp b));
        fc_assert (blk_witness b = w)
      });
     Some (blk_witness b)
   }"


section \<open>The shuffle is a permutation\<close>

lemma mset_swap_at: "i < length xs \<Longrightarrow> j < length xs \<Longrightarrow> mset (swap_at i j xs) = mset xs"
  by (simp add: swap_at_def mset_swap)

lemma mset_shuffle: "mset (shuffle_from now i xs) = mset xs"
proof (induction now i xs rule: shuffle_from.induct)
  case (1 now i xs)
  show ?case
  proof (cases "i < length xs")
    case True
    define j where "j = i + unat (schedule_rand now i) mod (length xs - i)"
    have j: "j < length xs" using True mod_less_divisor [of "length xs - i" "unat (schedule_rand now i)"] unfolding j_def by linarith
    have "mset (shuffle_from now i xs) = mset (shuffle_from now (i + 1) (swap_at i j xs))"
      using True by (subst shuffle_from.simps) (simp add: j_def Let_def)
    also have "\<dots> = mset xs" using 1 [OF True refl, of j] True j by (simp add: j_def mset_swap_at)
    finally show ?thesis .
  qed (subst shuffle_from.simps, simp)
qed

section \<open>Slots and times\<close>

text \<open>The first slot that a block can take, and that no time up to slot \<open>n\<close> leaves the 32-bit range.\<close>

definition first_slot :: "chain_clock \<Rightarrow> database \<Rightarrow> int" where
  "first_slot c d = (if head_block_number c = 0 then head_block_time d + block_interval c
     else head_block_time d div block_interval c * block_interval c +
       ((if bit (dynamic_flags c) 0 then maintenance_skip_slots c else 0) + 1) * block_interval c)"

definition slot_ok :: "chain_clock \<Rightarrow> database \<Rightarrow> int \<Rightarrow> bool" where
  "slot_ok c d n \<longleftrightarrow> 1 \<le> n \<and> 0 < block_interval c \<and> 0 \<le> maintenance_skip_slots c \<and> 0 \<le> head_block_time d \<and>
     first_slot c d + (n - 1) * block_interval c < 2 ^ 32"

lemma get_slot_time_first:
  assumes "fc_time L" "slot_ok c d n"
  shows "get_slot_time L c d n = first_slot c d + (n - 1) * block_interval c"
proof -
  let ?i = "block_interval c"
  define sk where "sk = (if bit (dynamic_flags c) 0 then maintenance_skip_slots c else 0)"
  have i: "1 \<le> ?i" "1 \<le> n" "0 \<le> sk" "0 \<le> head_block_time d" using assms(2) by (auto simp: slot_ok_def sk_def)
  then have h: "0 \<le> head_block_time d div ?i * ?i" by (simp add: pos_imp_zdiv_nonneg_iff)
  show ?thesis
  proof (cases "head_block_number c = 0")
    case True
    have b: "head_block_time d + n * ?i < 2 ^ 32" using assms(2) True by (simp add: slot_ok_def first_slot_def algebra_simps)
    have n: "0 \<le> n * ?i" using i by simp
    have "u32 (n * ?i) = n * ?i" using b n i by simp
    moreover have "u32 (head_block_time d + n * ?i) = head_block_time d + n * ?i" using b n i by simp
    ultimately show ?thesis using True i fc_time.tps_add [OF assms(1)] by (simp add: get_slot_time_def first_slot_def algebra_simps)
  next
    case False
    have b: "head_block_time d div ?i * ?i + (n + sk) * ?i < 2 ^ 32"
      using assms(2) False by (simp add: slot_ok_def first_slot_def sk_def [symmetric] algebra_simps)
    have n: "0 \<le> (n + sk) * ?i" using i by simp
    have "(n + sk) * 1 \<le> (n + sk) * ?i" using i by (intro mult_left_mono) auto
    also have "\<dots> \<le> head_block_time d div ?i * ?i + (n + sk) * ?i" using h by simp
    finally have "n + sk < 2 ^ 32" using b by simp
    then have "u32 (n + sk) = n + sk" "u32 n = n" using i by simp_all
    moreover have "u32 ((n + sk) * ?i) = (n + sk) * ?i" "u32 (head_block_time d div ?i * ?i) = head_block_time d div ?i * ?i"
      "u32 (head_block_time d div ?i * ?i + (n + sk) * ?i) = head_block_time d div ?i * ?i + (n + sk) * ?i"
      using b n h by simp_all
    ultimately show ?thesis
      using False i fc_time.tps_add [OF assms(1)] by (auto simp: get_slot_time_def first_slot_def Let_def sk_def algebra_simps split: if_splits)
  qed
qed

lemma slot_ok_first: "slot_ok c d n \<Longrightarrow> slot_ok c d 1"
proof -
  assume a: "slot_ok c d n"
  then have "0 \<le> (n - 1) * block_interval c" by (simp add: slot_ok_def)
  with a have "first_slot c d < 2 ^ 32" unfolding slot_ok_def by linarith
  with a show ?thesis by (simp add: slot_ok_def)
qed


lemma interval_le_first_slot:
  assumes "slot_ok c d n"
  shows "block_interval c \<le> first_slot c d"
proof -
  let ?i = "block_interval c" and ?h = "head_block_time d div block_interval c * block_interval c"
  define sk where "sk = (if bit (dynamic_flags c) 0 then maintenance_skip_slots c else 0)"
  have nn: "0 < ?i" "0 \<le> sk" "0 \<le> head_block_time d" using assms by (auto simp: slot_ok_def sk_def)
  then have "0 \<le> ?h" "0 \<le> sk * ?i" by (simp_all add: pos_imp_zdiv_nonneg_iff)
  then show ?thesis using nn by (simp add: first_slot_def sk_def [symmetric] algebra_simps)
qed

lemma those_Some: "those xs = Some ys \<longleftrightarrow> xs = map Some ys"
  by (induction xs arbitrary: ys) (auto simp: Cons_eq_map_conv split: option.splits)

text \<open>At least as many elements as come from an offset on in sorted order are not below the element there.\<close>

lemma count_above_nth:
  fixes cs :: "'a::linorder list"
  assumes "k < length cs"
  shows "length cs - k \<le> length (filter (\<lambda>x. sort cs ! k \<le> x) cs)"
proof -
  let ?P = "\<lambda>x. sort cs ! k \<le> x"
  have "filter ?P (drop k (sort cs)) = drop k (sort cs)"
    by (rule filter_True) (use assms in \<open>auto simp: in_set_conv_nth intro!: sorted_nth_mono [OF sorted_sort]\<close>)
  then have "length cs - k = length (filter ?P (drop k (sort cs)))" by simp
  also have "\<dots> \<le> length (filter ?P (sort cs))"
    by (subst (2) append_take_drop_id [of k "sort cs", symmetric]) (simp only: filter_append length_append le_add2)
  also have "\<dots> = length (filter ?P cs)" by (metis mset_filter mset_sort size_mset)
  finally show ?thesis .
qed

text \<open>The slots that are remembered: after a block the newest one is filled, the missed ones before it are not.\<close>

lemma recent_slots_shift:
  fixes w :: "128 word"
  assumes "n < 128"
  shows "bit (push_bit m (push_bit 1 w + 1)) n \<longleftrightarrow> n = m \<or> m < n \<and> bit w (n - m - 1)"
proof -
  have "push_bit 1 w + 1 = push_bit 1 w OR 1" by (rule disjunctive_add_eq_or) (simp add: and_one_eq mod_2_eq_odd)
  then have "bit (push_bit m (push_bit 1 w + 1)) n \<longleftrightarrow> m \<le> n \<and> (1 \<le> n - m \<and> bit w (n - m - 1) \<or> n - m = 0)"
    using assms by (simp only: bit_push_bit_iff bit_or_iff bit_1_iff possible_bit_word) auto
  then show ?thesis by auto
qed

lemma participation_bound: "witness_participation_rate c \<le> GRAPHENE_100_PERCENT"
proof -
  have p: "popcount (recent_slots_filled c) \<le> 128" using length_filter_le [of _ "[0..<128]"] by (simp add: popcount_def)
  then have "10000 * int (popcount (recent_slots_filled c)) div 128 \<le> 10000" by simp
  then show ?thesis using p by (simp add: witness_participation_rate_def chain_consts)
qed

section \<open>Properties\<close>

text \<open>
  (C17) Every witness gets its turn: a round starts with a shuffle that is a permutation of the active witnesses, whatever the time of
  the head block, and in any run of as many consecutive slots as there are active witnesses each of them is scheduled exactly once.
\<close>

theorem schedule_fair:
  assumes "active_witnesses c \<noteq> []" "head_block_number c mod int (length (active_witnesses c)) = 0"
    and "0 \<le> current_aslot c" "0 \<le> k" "current_aslot c + k + int (length (active_witnesses c)) < 2 ^ 64"
  shows "\<exists>c'. update_witness_schedule c d = Some c' \<and>
    mset (map (\<lambda>i. get_scheduled_witness c' (k + int i)) [0..<length (active_witnesses c)]) = mset (map Some (active_witnesses c))"
proof -
  define xs where "xs = shuffle_from (head_block_time d) 0 (active_witnesses c)"
  let ?c = "c\<lparr>current_shuffled_witnesses := xs\<rparr>" and ?n = "length (active_witnesses c)"
  have m: "mset xs = mset (active_witnesses c)" by (simp add: xs_def mset_shuffle)
  then have n: "length xs = ?n" by (metis size_mset)
  have run: "update_witness_schedule c d = Some ?c" using assms(1,2) by (simp add: update_witness_schedule_def xs_def)
  define a where "a = nat (current_aslot c + k)"
  have "get_scheduled_witness ?c (k + int i) = Some (rotate a xs ! i)" if "i < ?n" for i
  proof -
    have "u64 (current_aslot c + (k + int i)) = current_aslot c + k + int i" using assms(3-5) that by simp
    moreover have "current_aslot c + k + int i = int (a + i)" using assms(3,4) by (simp add: a_def)
    ultimately show ?thesis
      using that n assms(1) by (simp add: get_scheduled_witness_def Let_def nth_rotate zmod_int [symmetric] del: of_nat_add)
  qed
  then have "map (\<lambda>i. get_scheduled_witness ?c (k + int i)) [0..<?n] = map Some (rotate a xs)"
    using n by (intro nth_equalityI) simp_all
  then have "mset (map (\<lambda>i. get_scheduled_witness ?c (k + int i)) [0..<?n]) = image_mset Some (mset (rotate a xs))" by simp
  also have "mset (rotate a xs) = mset (active_witnesses c)"
    using m by (metis mset_append append_take_drop_id rotate_drop_take union_commute)
  finally show ?thesis using run by simp
qed

text \<open>
  (C37) Slots and times correspond: the slot at the time of a slot is that slot, and every time from the first slot on falls into the
  slot that starts at or before it and less than a block interval before.
\<close>

theorem slot_time_round_trip:
  assumes "fc_time L" "slot_ok c d n"
  shows "get_slot_at_time L c d (get_slot_time L c d n) = n \<and>
    (\<forall>t. get_slot_time L c d n \<le> t \<and> t < get_slot_time L c d n + block_interval c \<longrightarrow> get_slot_at_time L c d t = n)"
proof -
  let ?i = "block_interval c"
  note first = get_slot_time_first [OF assms(1) slot_ok_first [OF assms(2)], simplified] and at = get_slot_time_first [OF assms]
  have i: "0 < ?i" "1 \<le> n" using assms(2) by (auto simp: slot_ok_def)
  have "n * 1 \<le> n * ?i" using i by (intro mult_left_mono) auto
  also have "\<dots> = ?i + (n - 1) * ?i" by (simp add: algebra_simps)
  also have "\<dots> \<le> first_slot c d + (n - 1) * ?i" using interval_le_first_slot [OF assms(2)] by simp
  finally have n: "n < 2 ^ 32" using assms(2) by (simp add: slot_ok_def)
  have "get_slot_at_time L c d t = u32 n" if "get_slot_time L c d n \<le> t" "t < get_slot_time L c d n + ?i" for t
  proof -
    define r where "r = t - get_slot_time L c d n"
    have r: "0 \<le> r" "r < ?i" "t - first_slot c d = r + (n - 1) * ?i" using that by (simp_all add: r_def at)
    have "0 \<le> (n - 1) * ?i" using i by simp
    then have "\<not> t < first_slot c d" using r by linarith
    moreover have "(t - first_slot c d) div ?i = n - 1" unfolding r(3) using i(1) r(1,2) by (simp add: div_pos_pos_trivial)
    ultimately show ?thesis by (simp add: get_slot_at_time_def Let_def first)
  qed
  moreover have "u32 n = n" using n i by simp
  ultimately show ?thesis using i by simp
qed


text \<open>
  (C29) The last irreversible block is confirmed by seven tenths of the witnesses and never falls: after the update it is at least the
  old one, and when it has risen, the active witnesses whose last confirmed block is at least as high are at least seven
  tenths of all, without rounding.
\<close>

theorem irreversible_confirmed:
  assumes "update_last_irreversible_block c d = Some c'"
  shows "last_irreversible_block_num c \<le> last_irreversible_block_num c' \<and>
    (last_irreversible_block_num c < last_irreversible_block_num c' \<longrightarrow>
      GRAPHENE_IRREVERSIBLE_THRESHOLD * int (length (active_witnesses c)) \<le> GRAPHENE_100_PERCENT *
        int (length (filter (\<lambda>w. case tbl_get w (witnesses d) of Some x \<Rightarrow> last_irreversible_block_num c' \<le> last_confirmed_block_num x | None \<Rightarrow> False)
          (active_witnesses c))))"
proof -
  let ?f = "\<lambda>w. map_option last_confirmed_block_num (tbl_get w (witnesses d))"
  obtain cs where cs: "those (map ?f (active_witnesses c)) = Some cs" using assms by (auto simp: update_last_irreversible_block_def opt_bind)
  define off where "off = nat ((GRAPHENE_100_PERCENT - GRAPHENE_IRREVERSIBLE_THRESHOLD) * int (length cs) div GRAPHENE_100_PERCENT)"
  have run: "off < length cs" "c' = (if sort cs ! off > last_irreversible_block_num c then c\<lparr>last_irreversible_block_num := sort cs ! off\<rparr> else c)"
    using assms cs by (auto simp: update_last_irreversible_block_def Let_def off_def [symmetric] split: if_splits)
  have m: "map ?f (active_witnesses c) = map Some cs" using cs by (simp add: those_Some)
  then have n: "length (active_witnesses c) = length cs" by (metis length_map)
  let ?v = "sort cs ! off"
  have "length (filter (\<lambda>w. case tbl_get w (witnesses d) of Some x \<Rightarrow> ?v \<le> last_confirmed_block_num x | None \<Rightarrow> False) (active_witnesses c)) =
      length (filter (\<lambda>y. case y of Some x \<Rightarrow> ?v \<le> x | None \<Rightarrow> False) (map ?f (active_witnesses c)))"
    by (simp add: filter_map comp_def option.case_eq_if option.map_sel cong: filter_cong)
  also have "\<dots> = length (filter (\<lambda>x. ?v \<le> x) cs)" unfolding m by (simp add: filter_map comp_def)
  finally have count: "length (filter (\<lambda>w. case tbl_get w (witnesses d) of Some x \<Rightarrow> ?v \<le> last_confirmed_block_num x | None \<Rightarrow> False)
      (active_witnesses c)) \<ge> length cs - off" using count_above_nth [OF run(1)] by simp
  have "10000 * int off \<le> 3000 * int (length cs)" by (simp add: off_def chain_consts) arith
  then have "GRAPHENE_IRREVERSIBLE_THRESHOLD * int (length cs) \<le> GRAPHENE_100_PERCENT * int (length cs - off)"
    using run(1) by (simp add: chain_consts of_nat_diff)
  also have "\<dots> \<le> GRAPHENE_100_PERCENT * int (length (filter (\<lambda>w. case tbl_get w (witnesses d) of
      Some x \<Rightarrow> ?v \<le> last_confirmed_block_num x | None \<Rightarrow> False) (active_witnesses c)))"
    using count by (simp add: chain_consts)
  finally have share: "GRAPHENE_IRREVERSIBLE_THRESHOLD * int (length (active_witnesses c)) \<le> GRAPHENE_100_PERCENT *
      int (length (filter (\<lambda>w. case tbl_get w (witnesses d) of Some x \<Rightarrow> ?v \<le> last_confirmed_block_num x | None \<Rightarrow> False) (active_witnesses c)))"
    unfolding n .
  show ?thesis
  proof (cases "last_irreversible_block_num c < ?v")
    case True
    then have "last_irreversible_block_num c' = ?v" by (simp add: run(2))
    with True share show ?thesis by (metis less_imp_le)
  qed (simp add: run(2))
qed


definition demo_clock :: chain_clock where
  "demo_clock = \<lparr>head_block_number = 9, head_block_id = null_id, current_witness = 0, witness_budget = 500, recently_missed_count = 0,
     current_aslot = 14, recent_slots_filled = 5, dynamic_flags = 1, last_irreversible_block_num = 2, active_witnesses = [4, 7, 9],
     block_interval = 5, maintenance_skip_slots = 3, witness_pay_per_block = 30, current_shuffled_witnesses = [7, 4, 9]\<rparr>"

definition demo_witness :: "nat \<Rightarrow> int \<Rightarrow> nat \<times> witness_object" where
  "demo_witness i n = (i, \<lparr>witness_account = i, last_aslot = 0, pay_vb = None, total_missed = 0, last_confirmed_block_num = n\<rparr>)"

definition demo_witnesses :: database where
  "demo_witnesses = empty_database\<lparr>head_block_time := 1003,
     witnesses := \<lparr>rows = [demo_witness 4 8, demo_witness 7 5, demo_witness 9 6], next_instance = 10\<rparr>\<rparr>"

theorem schedule_fair_witness:
  "\<exists>c'. update_witness_schedule demo_clock demo_witnesses = Some c' \<and>
     mset [get_scheduled_witness c' 1, get_scheduled_witness c' 2, get_scheduled_witness c' 3] = {#Some 4, Some 7, Some 9#}"
proof -
  have "[0..<3] = [0, 1, 2 :: nat]" by (simp add: eval_nat_numeral)
  then show ?thesis
    using schedule_fair [of demo_clock 1 demo_witnesses] by (simp add: demo_clock_def)
qed

theorem slot_time_round_trip_witness:
  "get_slot_time checked_lib demo_clock demo_witnesses 2 = 1025 \<and>
   get_slot_at_time checked_lib demo_clock demo_witnesses (get_slot_time checked_lib demo_clock demo_witnesses 2) = 2"
proof -
  have "slot_ok demo_clock demo_witnesses 2"
    by (simp add: slot_ok_def first_slot_def demo_clock_def demo_witnesses_def empty_database_def)
  moreover have "get_slot_time checked_lib demo_clock demo_witnesses 2 = 1025" by code_simp
  ultimately show ?thesis using slot_time_round_trip [OF checked.fc_time_axioms, of demo_clock demo_witnesses 2] by simp
qed

theorem irreversible_confirmed_witness:
  "\<exists>c'. update_last_irreversible_block demo_clock demo_witnesses = Some c' \<and> last_irreversible_block_num c' = 5 \<and>
     last_irreversible_block_num demo_clock \<le> last_irreversible_block_num c'"
proof -
  have "map_option last_irreversible_block_num (update_last_irreversible_block demo_clock demo_witnesses) = Some 5" by code_simp
  then obtain c' where "update_last_irreversible_block demo_clock demo_witnesses = Some c'" "last_irreversible_block_num c' = 5" by auto
  with irreversible_confirmed show ?thesis by blast
qed

end
