(* ===== verification/Transfers.thy ===== *)
theory Transfers
  imports Fees "HOL-Library.Signed_Division"
begin

text \<open>
  Operations that move or create balances: transfers and transfers by the issuer (\<^verbatim>\<open>transfer_evaluator.cpp\<close>), recurring
  withdrawals (\<^verbatim>\<open>withdraw_permission_evaluator.cpp\<close>, \<^verbatim>\<open>withdraw_permission_object.hpp\<close>), and the issue, reserve, fee pool and
  fee claim operations of an asset (\<^verbatim>\<open>asset_evaluator.cpp\<close>), each with its validation from \<^verbatim>\<open>libraries/protocol\<close>. Memos only affect
  the fee and are left out.
\<close>

section \<open>Transfers\<close>

record transfer_operation =
  tr_fee :: asset
  tr_from :: account_id_type
  tr_to :: account_id_type
  tr_amount :: asset

record override_transfer_operation =
  ov_fee :: asset
  ov_issuer :: account_id_type
  ov_from :: account_id_type
  ov_to :: account_id_type
  ov_amount :: asset

definition can_override :: "asset_object \<Rightarrow> bool" where
  "can_override a \<longleftrightarrow> bit (asset_flags (ao_options a)) 2"

definition tr_validate :: "transfer_operation \<Rightarrow> unit option" where
  "tr_validate op = do {
     fc_assert (amount (tr_fee op) \<ge> 0);
     fc_assert (tr_from op \<noteq> tr_to op);
     fc_assert (amount (tr_amount op) > 0)
   }"

definition ov_validate :: "override_transfer_operation \<Rightarrow> unit option" where
  "ov_validate op = do {
     fc_assert (amount (ov_fee op) \<ge> 0);
     fc_assert (ov_from op \<noteq> ov_to op);
     fc_assert (amount (ov_amount op) > 0);
     fc_assert (ov_issuer op \<noteq> ov_from op)
   }"

definition tr_evaluate :: "transfer_operation \<Rightarrow> database \<Rightarrow> unit option" where
  "tr_evaluate op d = do {
     from_account \<leftarrow> tbl_get (tr_from op) (accounts d);
     to_account \<leftarrow> tbl_get (tr_to op) (accounts d);
     asset_type \<leftarrow> tbl_get (asset_id (tr_amount op)) (assets d);
     fc_assert (is_authorized_asset from_account (asset_id (tr_amount op)) asset_type);
     fc_assert (is_authorized_asset to_account (asset_id (tr_amount op)) asset_type);
     fc_assert (is_transfer_restricted asset_type \<longrightarrow> tr_from op = ao_issuer asset_type \<or> tr_to op = ao_issuer asset_type);
     fc_assert (amount (get_balance d (tr_from op) (asset_id (tr_amount op))) \<ge> amount (tr_amount op))
   }"

text \<open>The two \<^verbatim>\<open>adjust_balance\<close> calls that end each of the evaluators here.\<close>

definition move_balance :: "fc_lib \<Rightarrow> account_id_type \<Rightarrow> account_id_type \<Rightarrow> asset \<Rightarrow> database \<Rightarrow> database option" where
  "move_balance L payer payee x d = do {
     n \<leftarrow> asset_neg L x;
     d1 \<leftarrow> adjust_balance L payer n d;
     adjust_balance L payee x d1
   }"

definition tr_apply :: "fc_lib \<Rightarrow> transfer_operation \<Rightarrow> database \<Rightarrow> database option" where
  "tr_apply L op d = move_balance L (tr_from op) (tr_to op) (tr_amount op) d"

definition ov_evaluate :: "override_transfer_operation \<Rightarrow> database \<Rightarrow> unit option" where
  "ov_evaluate op d = do {
     asset_type \<leftarrow> tbl_get (asset_id (ov_amount op)) (assets d);
     fc_assert (can_override asset_type);
     fc_assert (ao_issuer asset_type = ov_issuer op);
     from_account \<leftarrow> tbl_get (ov_from op) (accounts d);
     to_account \<leftarrow> tbl_get (ov_to op) (accounts d);
     fc_assert (is_authorized_asset to_account (asset_id (ov_amount op)) asset_type);
     fc_assert (is_authorized_asset from_account (asset_id (ov_amount op)) asset_type);
     fc_assert (amount (get_balance d (ov_from op) (asset_id (ov_amount op))) \<ge> amount (ov_amount op))
   }"

definition ov_apply :: "fc_lib \<Rightarrow> override_transfer_operation \<Rightarrow> database \<Rightarrow> database option" where
  "ov_apply L op d = move_balance L (ov_from op) (ov_to op) (ov_amount op) d"

section \<open>Withdrawal permissions\<close>

record withdraw_permission_create_operation =
  wc_fee :: asset
  wc_from_account :: account_id_type
  wc_authorized_account :: account_id_type
  wc_limit :: asset
  wc_period_sec :: uint32
  periods_until_expiration :: uint32
  wc_period_start_time :: time_point_sec

record withdraw_permission_claim_operation =
  wl_fee :: asset
  withdraw_permission :: nat
  wl_from_account :: account_id_type
  withdraw_to_account :: account_id_type
  amount_to_withdraw :: asset

definition available_this_period :: "fc_lib \<Rightarrow> withdraw_permission_object \<Rightarrow> time_point_sec \<Rightarrow> asset option" where
  "available_this_period L p current_time =
     (if current_time \<ge> tps_add L (period_start_time p) (withdrawal_period_sec p) then Some (withdrawal_limit p)
      else do {
        x \<leftarrow> (if amount (withdrawal_limit p) > claimed_this_period p
          then safe_sub L (amount (withdrawal_limit p)) (claimed_this_period p) else Some 0);
        Some (mk_asset x (asset_id (withdrawal_limit p)))
      })"

definition wc_validate :: "withdraw_permission_create_operation \<Rightarrow> unit option" where
  "wc_validate op = do {
     fc_assert (amount (wc_fee op) \<ge> 0);
     fc_assert (wc_from_account op \<noteq> wc_authorized_account op);
     fc_assert (amount (wc_limit op) > 0);
     fc_assert (wc_period_sec op > 0);
     fc_assert (periods_until_expiration op > 0)
   }"

definition wl_validate :: "withdraw_permission_claim_operation \<Rightarrow> unit option" where
  "wl_validate op = do {
     fc_assert (withdraw_to_account op \<noteq> wl_from_account op);
     fc_assert (amount (amount_to_withdraw op) > 0);
     fc_assert (amount (wl_fee op) \<ge> 0)
   }"

text \<open>\<open>interval\<close> is the block interval, a global parameter. The product of period and number wraps in 32 bits.\<close>

definition wc_expiration :: "fc_lib \<Rightarrow> withdraw_permission_create_operation \<Rightarrow> time_point_sec" where
  "wc_expiration L op = tps_add L (wc_period_start_time op) (u32 (periods_until_expiration op * wc_period_sec op))"

definition wc_evaluate :: "fc_lib \<Rightarrow> int \<Rightarrow> withdraw_permission_create_operation \<Rightarrow> database \<Rightarrow> unit option" where
  "wc_evaluate L interval op d = do {
     _ \<leftarrow> tbl_get (wc_from_account op) (accounts d);
     _ \<leftarrow> tbl_get (wc_authorized_account op) (accounts d);
     _ \<leftarrow> tbl_get (asset_id (wc_limit op)) (assets d);
     fc_assert (wc_period_start_time op > head_block_time d);
     fc_assert (wc_expiration L op > head_block_time d);
     fc_assert (wc_period_sec op \<ge> interval)
   }"

definition wc_apply :: "fc_lib \<Rightarrow> withdraw_permission_create_operation \<Rightarrow> database \<Rightarrow> nat \<times> database" where
  "wc_apply L op d =
     (let (i, t) = tbl_create \<lparr>withdraw_from_account = wc_from_account op, authorized_account = wc_authorized_account op,
        withdrawal_limit = wc_limit op, withdrawal_period_sec = wc_period_sec op, period_start_time = wc_period_start_time op,
        wp_expiration = wc_expiration L op, claimed_this_period = 0\<rparr> (withdraw_permissions d)
      in (i, d\<lparr>withdraw_permissions := t\<rparr>))"

definition wl_evaluate :: "fc_lib \<Rightarrow> withdraw_permission_claim_operation \<Rightarrow> database \<Rightarrow> unit option" where
  "wl_evaluate L op d = do {
     permit \<leftarrow> tbl_get (withdraw_permission op) (withdraw_permissions d);
     fc_assert (wp_expiration permit > head_block_time d);
     fc_assert (authorized_account permit = withdraw_to_account op);
     fc_assert (withdraw_from_account permit = wl_from_account op);
     fc_assert (period_start_time permit \<le> head_block_time d);
     av \<leftarrow> available_this_period L permit (head_block_time d);
     le \<leftarrow> asset_le (amount_to_withdraw op) av;
     fc_assert le;
     ge \<leftarrow> asset_ge (get_balance d (wl_from_account op) (asset_id (amount_to_withdraw op))) (amount_to_withdraw op);
     fc_assert ge;
     a \<leftarrow> tbl_get (asset_id (amount_to_withdraw op)) (assets d);
     fc_assert (is_transfer_restricted a \<longrightarrow> ao_issuer a = authorized_account permit \<or> ao_issuer a = withdraw_from_account permit);
     to_account \<leftarrow> tbl_get (authorized_account permit) (accounts d);
     fc_assert (is_authorized_asset to_account (asset_id (amount_to_withdraw op)) a);
     from_account \<leftarrow> tbl_get (wl_from_account op) (accounts d);
     fc_assert (is_authorized_asset from_account (asset_id (amount_to_withdraw op)) a)
   }"

text \<open>What a claim does to the permission: the whole periods since its start are skipped.\<close>

definition claim_period :: "fc_lib \<Rightarrow> time_point_sec \<Rightarrow> share_type \<Rightarrow> withdraw_permission_object \<Rightarrow> withdraw_permission_object option" where
  "claim_period L now x p =
     (let periods = (now - period_start_time p) sdiv withdrawal_period_sec p
      in do {
        claimed \<leftarrow> (if periods = 0 then safe_add L (claimed_this_period p) x else Some x);
        Some (p\<lparr>period_start_time := tps_add L (period_start_time p) (u32 (periods * withdrawal_period_sec p)), claimed_this_period := claimed\<rparr>)
      })"

definition wl_apply :: "fc_lib \<Rightarrow> withdraw_permission_claim_operation \<Rightarrow> database \<Rightarrow> database option" where
  "wl_apply L op d = do {
     permit \<leftarrow> tbl_get (withdraw_permission op) (withdraw_permissions d);
     permit' \<leftarrow> claim_period L (head_block_time d) (amount (amount_to_withdraw op)) permit;
     move_balance L (wl_from_account op) (withdraw_to_account op) (amount_to_withdraw op)
       (d\<lparr>withdraw_permissions := tbl_modify (withdraw_permission op) (\<lambda>_. permit') (withdraw_permissions d)\<rparr>)
   }"

text \<open>\<^verbatim>\<open>update_withdraw_permissions\<close>: the permissions that have expired, in the order of their expiration.\<close>

function update_withdraw_permissions :: "database \<Rightarrow> database" where
  "update_withdraw_permissions d =
     (case tbl_first_by wp_expiration (withdraw_permissions d) of
        None \<Rightarrow> d
      | Some (i, p) \<Rightarrow> if wp_expiration p \<le> head_block_time d
          then update_withdraw_permissions (d\<lparr>withdraw_permissions := tbl_remove i (withdraw_permissions d)\<rparr>) else d)"
  by auto
termination by (relation "measure (\<lambda>d. length (rows (withdraw_permissions d)))") (auto simp: tbl_remove_shorter)

declare update_withdraw_permissions.simps [simp del]

section \<open>Supply and fees of an asset\<close>

record asset_issue_operation =
  is_fee :: asset
  is_issuer :: account_id_type
  asset_to_issue :: asset
  issue_to_account :: account_id_type

record asset_reserve_operation =
  rs_fee :: asset
  rs_payer :: account_id_type
  amount_to_reserve :: asset

record asset_fund_fee_pool_operation =
  fp_fee :: asset
  fp_from_account :: account_id_type
  fp_asset_id :: asset_id_type
  fp_amount :: share_type

record asset_claim_fees_operation =
  cf_fee :: asset
  cf_issuer :: account_id_type
  cf_amount_to_claim :: asset

record asset_claim_pool_operation =
  cp_fee :: asset
  cp_issuer :: account_id_type
  cp_asset_id :: asset_id_type
  cp_amount_to_claim :: asset

definition is_validate :: "asset_issue_operation \<Rightarrow> unit option" where
  "is_validate op = do {
     fc_assert (amount (is_fee op) \<ge> 0);
     fc_assert (amount (asset_to_issue op) \<le> GRAPHENE_MAX_SHARE_SUPPLY);
     fc_assert (amount (asset_to_issue op) > 0);
     fc_assert (asset_id (asset_to_issue op) \<noteq> 0)
   }"

definition rs_validate :: "asset_reserve_operation \<Rightarrow> unit option" where
  "rs_validate op = do {
     fc_assert (amount (rs_fee op) \<ge> 0);
     fc_assert (amount (amount_to_reserve op) \<le> GRAPHENE_MAX_SHARE_SUPPLY);
     fc_assert (amount (amount_to_reserve op) > 0)
   }"

definition fp_validate :: "asset_fund_fee_pool_operation \<Rightarrow> unit option" where
  "fp_validate op = do {
     fc_assert (amount (fp_fee op) \<ge> 0);
     fc_assert (asset_id (fp_fee op) = 0);
     fc_assert (fp_amount op > 0)
   }"

definition cf_validate :: "asset_claim_fees_operation \<Rightarrow> unit option" where
  "cf_validate op = do { fc_assert (amount (cf_fee op) \<ge> 0); fc_assert (amount (cf_amount_to_claim op) > 0) }"

definition cp_validate :: "asset_claim_pool_operation \<Rightarrow> unit option" where
  "cp_validate op = do {
     fc_assert (amount (cp_fee op) \<ge> 0);
     fc_assert (asset_id (cp_fee op) \<noteq> cp_asset_id op);
     fc_assert (amount (cp_amount_to_claim op) > 0);
     fc_assert (asset_id (cp_amount_to_claim op) = 0)
   }"

text \<open>The dynamic data of an asset is kept by number between evaluation and application, as the evaluators keep a pointer.\<close>

definition modify_dynamic_data :: "nat \<Rightarrow> (asset_dynamic_data_object \<Rightarrow> asset_dynamic_data_object option) \<Rightarrow> database \<Rightarrow> database option" where
  "modify_dynamic_data k f d = do {
     dd \<leftarrow> tbl_get k (asset_dynamic_data d);
     dd' \<leftarrow> f dd;
     Some (d\<lparr>asset_dynamic_data := tbl_modify k (\<lambda>_. dd') (asset_dynamic_data d)\<rparr>)
   }"

definition is_evaluate :: "fc_lib \<Rightarrow> asset_issue_operation \<Rightarrow> database \<Rightarrow> nat option" where
  "is_evaluate L op d = do {
     a \<leftarrow> tbl_get (asset_id (asset_to_issue op)) (assets d);
     fc_assert (is_issuer op = ao_issuer a);
     fc_assert (\<not> is_market_issued a);
     fc_assert (\<not> is_liquidity_pool_share_asset a);
     to_account \<leftarrow> tbl_get (issue_to_account op) (accounts d);
     fc_assert (is_authorized_asset to_account (asset_id (asset_to_issue op)) a);
     (k, dd) \<leftarrow> get_dynamic_data d (asset_id (asset_to_issue op));
     s \<leftarrow> safe_add L (current_supply dd) (amount (asset_to_issue op));
     fc_assert (s \<le> max_supply (ao_options a));
     Some k
   }"

definition is_apply :: "fc_lib \<Rightarrow> asset_issue_operation \<Rightarrow> nat \<Rightarrow> database \<Rightarrow> database option" where
  "is_apply L op k d = do {
     d1 \<leftarrow> adjust_balance L (issue_to_account op) (asset_to_issue op) d;
     modify_dynamic_data k (\<lambda>dd. do {
       s \<leftarrow> safe_add L (current_supply dd) (amount (asset_to_issue op));
       Some (dd\<lparr>current_supply := s\<rparr>) }) d1
   }"

definition rs_evaluate :: "asset_reserve_operation \<Rightarrow> database \<Rightarrow> nat option" where
  "rs_evaluate op d = do {
     a \<leftarrow> tbl_get (asset_id (amount_to_reserve op)) (assets d);
     fc_assert (\<not> is_market_issued a);
     from_account \<leftarrow> tbl_get (rs_payer op) (accounts d);
     fc_assert (is_authorized_asset from_account (asset_id (amount_to_reserve op)) a);
     (k, dd) \<leftarrow> get_dynamic_data d (asset_id (amount_to_reserve op));
     (if \<not> is_liquidity_pool_share_asset a then fc_assert (current_supply dd \<ge> amount (amount_to_reserve op))
      else fc_assert (current_supply dd > amount (amount_to_reserve op)));
     Some k
   }"

definition rs_apply :: "fc_lib \<Rightarrow> asset_reserve_operation \<Rightarrow> nat \<Rightarrow> database \<Rightarrow> database option" where
  "rs_apply L op k d = do {
     n \<leftarrow> asset_neg L (amount_to_reserve op);
     d1 \<leftarrow> adjust_balance L (rs_payer op) n d;
     modify_dynamic_data k (\<lambda>dd. do {
       s \<leftarrow> safe_sub L (current_supply dd) (amount (amount_to_reserve op));
       Some (dd\<lparr>current_supply := s\<rparr>) }) d1
   }"

definition fp_evaluate :: "asset_fund_fee_pool_operation \<Rightarrow> database \<Rightarrow> nat option" where
  "fp_evaluate op d = map_option fst (get_dynamic_data d (fp_asset_id op))"

definition fp_apply :: "fc_lib \<Rightarrow> asset_fund_fee_pool_operation \<Rightarrow> nat \<Rightarrow> database \<Rightarrow> database option" where
  "fp_apply L op k d = do {
     n \<leftarrow> safe_neg L (fp_amount op);
     d1 \<leftarrow> adjust_balance L (fp_from_account op) (mk_asset n 0) d;
     modify_dynamic_data k (\<lambda>dd. do { p \<leftarrow> safe_add L (fee_pool dd) (fp_amount op); Some (dd\<lparr>fee_pool := p\<rparr>) }) d1
   }"

definition cf_evaluate :: "asset_claim_fees_operation \<Rightarrow> database \<Rightarrow> unit option" where
  "cf_evaluate op d = do {
     a \<leftarrow> tbl_get (asset_id (cf_amount_to_claim op)) (assets d);
     fc_assert (ao_issuer a = cf_issuer op)
   }"

definition cf_apply :: "fc_lib \<Rightarrow> asset_claim_fees_operation \<Rightarrow> database \<Rightarrow> database option" where
  "cf_apply L op d = do {
     (k, dd) \<leftarrow> get_dynamic_data d (asset_id (cf_amount_to_claim op));
     fc_assert (amount (cf_amount_to_claim op) \<le> accumulated_fees dd);
     d1 \<leftarrow> modify_dynamic_data k (\<lambda>dd. do {
       f \<leftarrow> safe_sub L (accumulated_fees dd) (amount (cf_amount_to_claim op));
       Some (dd\<lparr>accumulated_fees := f\<rparr>) }) d;
     adjust_balance L (cf_issuer op) (cf_amount_to_claim op) d1
   }"

definition cp_evaluate :: "asset_claim_pool_operation \<Rightarrow> database \<Rightarrow> unit option" where
  "cp_evaluate op d = do {
     a \<leftarrow> tbl_get (cp_asset_id op) (assets d);
     fc_assert (ao_issuer a = cp_issuer op)
   }"

definition cp_apply :: "fc_lib \<Rightarrow> asset_claim_pool_operation \<Rightarrow> database \<Rightarrow> database option" where
  "cp_apply L op d = do {
     (k, dd) \<leftarrow> get_dynamic_data d (cp_asset_id op);
     fc_assert (amount (cp_amount_to_claim op) \<le> fee_pool dd);
     d1 \<leftarrow> modify_dynamic_data k (\<lambda>dd. do {
       p \<leftarrow> safe_sub L (fee_pool dd) (amount (cp_amount_to_claim op));
       Some (dd\<lparr>fee_pool := p\<rparr>) }) d;
     adjust_balance L (cp_issuer op) (cp_amount_to_claim op) d1
   }"


section \<open>The ledger\<close>

lemma adjust_balance_permissions:
  assumes "adjust_balance L acc x d = Some d'"
  shows "withdraw_permissions d' = withdraw_permissions d" "head_block_time d' = head_block_time d"
  by (subst adjust_balance_frame [OF assms], simp)+

context fc_safe
begin

lemma move_balance_ledger:
  assumes "db_wf d" "move_balance L p q x d = Some d'"
  shows "db_wf d' \<and> gap b d' = gap b d"
proof -
  obtain n d1 where n: "asset_neg L x = Some n" and d1: "adjust_balance L p n d = Some d1" "adjust_balance L q x d1 = Some d'"
    using assms(2) by (auto simp: move_balance_def opt_bind)
  note e1 = adjust_balance_effect(1,2) [OF assms(1) d1(1)]
  show ?thesis
    using adjust_balance_effect(1,2) [OF e1(1) d1(2)] e1(2) [of b] n
    by (auto simp: asset_neg_def opt_bind safe_Some of_asset_def)
qed

lemma modify_dynamic_data_effect:
  assumes wf: "db_wf d" and ao: "tbl_get a (assets d) = Some ao" "dynamic_asset_data_id ao = k"
    and run: "modify_dynamic_data k f d = Some d'"
    and f: "\<And>dd dd'. f dd = Some dd' \<Longrightarrow> current_supply dd' = current_supply dd + s \<and>
      accumulated_fees dd' = accumulated_fees dd + t \<and> fee_pool dd' = fee_pool dd + u"
  shows "db_wf d'" "gap b d' = gap b d + (if b = a then t - s else 0) + (if b = 0 then u else 0)"
proof -
  obtain dd dd' where dd: "tbl_get k (asset_dynamic_data d) = Some dd" "f dd = Some dd'"
    and d': "d' = d\<lparr>asset_dynamic_data := tbl_modify k (\<lambda>_. dd') (asset_dynamic_data d)\<rparr>"
    using run by (auto simp: modify_dynamic_data_def opt_bind)
  have g: "get_dynamic_data d a = Some (k, dd)" using ao dd by (simp add: get_dynamic_data_Some)
  note u = dynamic_data_update [OF wf g, where f = "\<lambda>_. dd'", folded d']
  show "db_wf d'" by (rule u(1))
  show "gap b d' = gap b d + (if b = a then t - s else 0) + (if b = 0 then u else 0)" using u(2) [of b] f [OF dd(2)] by simp
qed

lemma is_apply_ledger:
  assumes wf: "db_wf d" and ao: "tbl_get (asset_id (asset_to_issue op)) (assets d) = Some ao" "dynamic_asset_data_id ao = k"
    and run: "is_apply L op k d = Some d'"
  shows "db_wf d' \<and> gap b d' = gap b d"
proof -
  obtain d1 where d1: "adjust_balance L (issue_to_account op) (asset_to_issue op) d = Some d1"
    and d': "modify_dynamic_data k (\<lambda>dd. do { s \<leftarrow> safe_add L (current_supply dd) (amount (asset_to_issue op));
       Some (dd\<lparr>current_supply := s\<rparr>) }) d1 = Some d'"
    using run unfolding is_apply_def opt_bind by blast
  note e1 = adjust_balance_effect(1,2) [OF wf d1]
  have ao1: "tbl_get (asset_id (asset_to_issue op)) (assets d1) = Some ao" using ao(1) adjust_balance_keeps(1) [OF d1] by simp
  note e2 = modify_dynamic_data_effect [OF e1(1) ao1 ao(2) d', where s = "amount (asset_to_issue op)" and t = 0 and u = 0]
  show ?thesis using e1(2) [of b] e2(1) e2(2) [of b] by (auto simp: opt_bind safe_Some of_asset_def)
qed

lemma rs_apply_ledger:
  assumes wf: "db_wf d" and ao: "tbl_get (asset_id (amount_to_reserve op)) (assets d) = Some ao" "dynamic_asset_data_id ao = k"
    and run: "rs_apply L op k d = Some d'"
  shows "db_wf d' \<and> gap b d' = gap b d"
proof -
  obtain n d1 where n: "asset_neg L (amount_to_reserve op) = Some n" and d1: "adjust_balance L (rs_payer op) n d = Some d1"
    and d': "modify_dynamic_data k (\<lambda>dd. do { s \<leftarrow> safe_sub L (current_supply dd) (amount (amount_to_reserve op));
       Some (dd\<lparr>current_supply := s\<rparr>) }) d1 = Some d'"
    using run unfolding rs_apply_def opt_bind by blast
  note e1 = adjust_balance_effect(1,2) [OF wf d1]
  have ao1: "tbl_get (asset_id (amount_to_reserve op)) (assets d1) = Some ao" using ao(1) adjust_balance_keeps(1) [OF d1] by simp
  have "n = mk_asset (- amount (amount_to_reserve op)) (asset_id (amount_to_reserve op))"
    using n by (auto simp: asset_neg_def opt_bind safe_Some)
  moreover note e2 = modify_dynamic_data_effect [OF e1(1) ao1 ao(2) d', where s = "- amount (amount_to_reserve op)" and t = 0 and u = 0]
  ultimately show ?thesis using e1(2) [of b] e2(1) e2(2) [of b] by (auto simp: opt_bind safe_Some)
qed

lemma fp_apply_ledger:
  assumes wf: "db_wf d" and ao: "tbl_get (fp_asset_id op) (assets d) = Some ao" "dynamic_asset_data_id ao = k"
    and run: "fp_apply L op k d = Some d'"
  shows "db_wf d' \<and> gap b d' = gap b d"
proof -
  obtain n d1 where n: "safe_neg L (fp_amount op) = Some n" and d1: "adjust_balance L (fp_from_account op) (mk_asset n 0) d = Some d1"
    and d': "modify_dynamic_data k (\<lambda>dd. do { p \<leftarrow> safe_add L (fee_pool dd) (fp_amount op); Some (dd\<lparr>fee_pool := p\<rparr>) }) d1 = Some d'"
    using run unfolding fp_apply_def opt_bind by blast
  note e1 = adjust_balance_effect(1,2) [OF wf d1]
  have ao1: "tbl_get (fp_asset_id op) (assets d1) = Some ao" using ao(1) adjust_balance_keeps(1) [OF d1] by simp
  note e2 = modify_dynamic_data_effect [OF e1(1) ao1 ao(2) d', where s = 0 and t = 0 and u = "fp_amount op"]
  show ?thesis using e1(2) [of b] e2(1) e2(2) [of b] n by (auto simp: opt_bind safe_Some)
qed

lemma cf_apply_ledger:
  assumes wf: "db_wf d" and run: "cf_apply L op d = Some d'"
  shows "db_wf d' \<and> gap b d' = gap b d"
proof -
  obtain k dd d1 where dd: "get_dynamic_data d (asset_id (cf_amount_to_claim op)) = Some (k, dd)"
    and d1: "modify_dynamic_data k (\<lambda>dd. do { f \<leftarrow> safe_sub L (accumulated_fees dd) (amount (cf_amount_to_claim op));
       Some (dd\<lparr>accumulated_fees := f\<rparr>) }) d = Some d1"
    and d': "adjust_balance L (cf_issuer op) (cf_amount_to_claim op) d1 = Some d'"
    using run by (auto simp: cf_apply_def opt_bind)
  obtain ao where ao: "tbl_get (asset_id (cf_amount_to_claim op)) (assets d) = Some ao" "dynamic_asset_data_id ao = k"
    using dd by (auto simp: get_dynamic_data_Some)
  have f: "current_supply dd' = current_supply dd + 0 \<and> accumulated_fees dd' = accumulated_fees dd + (- amount (cf_amount_to_claim op)) \<and>
      fee_pool dd' = fee_pool dd + 0"
    if "do { f \<leftarrow> safe_sub L (accumulated_fees dd) (amount (cf_amount_to_claim op)); Some (dd\<lparr>accumulated_fees := f\<rparr>) } = Some dd'" for dd dd'
    using that by (auto simp: opt_bind safe_Some)
  note e = modify_dynamic_data_effect [OF wf ao d1 f]
  show ?thesis using adjust_balance_effect(1,2) [OF e(1) d'] e(2) [of b] by (auto simp: of_asset_def)
qed

lemma cp_apply_ledger:
  assumes wf: "db_wf d" and v: "asset_id (cp_amount_to_claim op) = 0" and run: "cp_apply L op d = Some d'"
  shows "db_wf d' \<and> gap b d' = gap b d"
proof -
  obtain k dd d1 where dd: "get_dynamic_data d (cp_asset_id op) = Some (k, dd)"
    and d1: "modify_dynamic_data k (\<lambda>dd. do { p \<leftarrow> safe_sub L (fee_pool dd) (amount (cp_amount_to_claim op));
       Some (dd\<lparr>fee_pool := p\<rparr>) }) d = Some d1"
    and d': "adjust_balance L (cp_issuer op) (cp_amount_to_claim op) d1 = Some d'"
    using run by (auto simp: cp_apply_def opt_bind)
  obtain ao where ao: "tbl_get (cp_asset_id op) (assets d) = Some ao" "dynamic_asset_data_id ao = k"
    using dd by (auto simp: get_dynamic_data_Some)
  have f: "current_supply dd' = current_supply dd + 0 \<and> accumulated_fees dd' = accumulated_fees dd + 0 \<and>
      fee_pool dd' = fee_pool dd + (- amount (cp_amount_to_claim op))"
    if "do { p \<leftarrow> safe_sub L (fee_pool dd) (amount (cp_amount_to_claim op)); Some (dd\<lparr>fee_pool := p\<rparr>) } = Some dd'" for dd dd'
    using that by (auto simp: opt_bind safe_Some)
  note e = modify_dynamic_data_effect [OF wf ao d1 f]
  show ?thesis using adjust_balance_effect(1,2) [OF e(1) d'] e(2) [of b] v by (auto simp: of_asset_def)
qed

lemma wl_apply_effect:
  assumes wf: "db_wf d" and run: "wl_apply L op d = Some d'"
  obtains p p' where "db_wf d'" "\<And>b. gap b d' = gap b d" "tbl_get (withdraw_permission op) (withdraw_permissions d) = Some p"
    "claim_period L (head_block_time d) (amount (amount_to_withdraw op)) p = Some p'"
    "withdraw_permissions d' = tbl_modify (withdraw_permission op) (\<lambda>_. p') (withdraw_permissions d)"
    "head_block_time d' = head_block_time d"
proof -
  obtain p p' where p: "tbl_get (withdraw_permission op) (withdraw_permissions d) = Some p"
    "claim_period L (head_block_time d) (amount (amount_to_withdraw op)) p = Some p'"
    and m: "move_balance L (wl_from_account op) (withdraw_to_account op) (amount_to_withdraw op)
       (d\<lparr>withdraw_permissions := tbl_modify (withdraw_permission op) (\<lambda>_. p') (withdraw_permissions d)\<rparr>) = Some d'"
    using run by (auto simp: wl_apply_def opt_bind)
  let ?d = "d\<lparr>withdraw_permissions := tbl_modify (withdraw_permission op) (\<lambda>_. p') (withdraw_permissions d)\<rparr>"
  have wf1: "db_wf ?d" using wf by (simp add: db_wf_upd db_wf_tables tbl_wf_ops)
  obtain d1 n where "adjust_balance L (wl_from_account op) n ?d = Some d1" "adjust_balance L (withdraw_to_account op) (amount_to_withdraw op) d1 = Some d'"
    using m by (auto simp: move_balance_def opt_bind)
  then have "withdraw_permissions d' = withdraw_permissions ?d" "head_block_time d' = head_block_time ?d"
    using adjust_balance_permissions by metis+
  then show ?thesis using that [OF _ _ p] move_balance_ledger [OF wf1 m] by (simp add: gap_upd)
qed

end


section \<open>Recurring withdrawals\<close>

definition withdraw_claim :: "fc_lib \<Rightarrow> share_type option \<Rightarrow> withdraw_permission_claim_operation \<Rightarrow> database \<Rightarrow> database option" where
  "withdraw_claim L required op d = do {
     wl_validate op;
     start_evaluate L required False (withdraw_to_account op) (wl_fee op) (wl_evaluate L op) (\<lambda>_. wl_apply L op) d
   }"

text \<open>The claims made on permission \<open>i\<close>, with their times: between two claims anything may happen that leaves the permission and
  does not turn back the clock.\<close>

inductive claims_made :: "fc_lib \<Rightarrow> nat \<Rightarrow> withdraw_permission_object \<Rightarrow> database \<Rightarrow> (time_point_sec \<times> share_type) list \<Rightarrow> bool" for L i p where
  created: "db_wf d \<Longrightarrow> tbl_get i (withdraw_permissions d) = Some p \<Longrightarrow> claims_made L i p d []"
| other: "claims_made L i p d h \<Longrightarrow> db_wf d' \<Longrightarrow> tbl_get i (withdraw_permissions d') = tbl_get i (withdraw_permissions d) \<Longrightarrow>
    head_block_time d \<le> head_block_time d' \<Longrightarrow> claims_made L i p d' h"
| claim: "claims_made L i p d h \<Longrightarrow> withdraw_permission op = i \<Longrightarrow> withdraw_claim L required op d = Some d' \<Longrightarrow>
    claims_made L i p d' (h @ [(head_block_time d, amount (amount_to_withdraw op))])"

definition claimed_in :: "withdraw_permission_object \<Rightarrow> int \<Rightarrow> (time_point_sec \<times> share_type) list \<Rightarrow> int" where
  "claimed_in p k h = (\<Sum>(t, x)\<leftarrow>h. if (t - period_start_time p) div withdrawal_period_sec p = k then x else 0)"

text \<open>A new permission, none of whose times leaves the 32-bit range.\<close>

definition permission_ok :: "withdraw_permission_object \<Rightarrow> bool" where
  "permission_ok p \<longleftrightarrow> claimed_this_period p = 0 \<and> 0 < withdrawal_period_sec p \<and> 0 \<le> period_start_time p \<and>
     0 \<le> amount (withdrawal_limit p) \<and> wp_expiration p + withdrawal_period_sec p < 2 ^ 32"

text \<open>The invariant of a permission \<open>q\<close> that started as \<open>p\<close>: its start is that of period \<open>m\<close>, it counts the claims of that period,
  and no claim was made in a later one.\<close>

definition claims_inv :: "withdraw_permission_object \<Rightarrow> withdraw_permission_object \<Rightarrow> (time_point_sec \<times> share_type) list \<Rightarrow> bool" where
  "claims_inv p q h \<longleftrightarrow> withdrawal_limit q = withdrawal_limit p \<and> withdrawal_period_sec q = withdrawal_period_sec p \<and>
     wp_expiration q = wp_expiration p \<and>
     (\<exists>m \<ge> 0. period_start_time q = period_start_time p + m * withdrawal_period_sec p \<and> claimed_this_period q = claimed_in p m h \<and>
       (\<forall>(t, x) \<in> set h. (t - period_start_time p) div withdrawal_period_sec p \<le> m)) \<and>
     (\<forall>k. claimed_in p k h \<le> amount (withdrawal_limit p))"

lemma claimed_in_snoc:
  "claimed_in p k (h @ [(t, x)]) = claimed_in p k h + (if (t - period_start_time p) div withdrawal_period_sec p = k then x else 0)"
  by (simp add: claimed_in_def)

lemma claimed_in_later:
  "\<forall>(t, x) \<in> set h. (t - period_start_time p) div withdrawal_period_sec p \<le> m \<Longrightarrow> m < k \<Longrightarrow> claimed_in p k h = 0"
  by (induction h) (auto simp: claimed_in_def)

lemma claim_keeps_inv:
  assumes L: "fc_safe L" "fc_time L" and p: "permission_ok p" and inv: "claims_inv p q h"
    and t: "t < wp_expiration q" "period_start_time q \<le> t"
    and av: "available_this_period L q t = Some a" "x \<le> amount a" and run: "claim_period L t x q = Some q'"
  shows "claims_inv p q' (h @ [(t, x)])"
proof -
  let ?P = "withdrawal_period_sec p" and ?S = "period_start_time p"
  obtain m where m: "0 \<le> m" "period_start_time q = ?S + m * ?P" "claimed_this_period q = claimed_in p m h"
      "\<forall>(t, x) \<in> set h. (t - ?S) div ?P \<le> m"
    and same: "withdrawal_limit q = withdrawal_limit p" "withdrawal_period_sec q = ?P" "wp_expiration q = wp_expiration p"
    and lim: "\<forall>k. claimed_in p k h \<le> amount (withdrawal_limit p)"
    using inv by (auto simp: claims_inv_def)
  have P: "0 < ?P" "0 \<le> ?S" using p by (simp_all add: permission_ok_def)
  define n where "n = (t - period_start_time q) div ?P"
  have n: "0 \<le> n" "(t - period_start_time q) sdiv ?P = n"
    using t(2) P by (cases "t = period_start_time q"; simp add: n_def pos_imp_zdiv_nonneg_iff signed_divide_int_def)+
  have "n * ?P \<le> t - period_start_time q" using P by (simp add: n_def minus_mod_eq_div_mult [symmetric])
  moreover have "0 \<le> m * ?P" "0 \<le> n * ?P" using m(1) n(1) P by simp_all
  moreover have "t + ?P < 2 ^ 32" using t(1) same(3) p by (simp add: permission_ok_def)
  ultimately have range: "0 \<le> n * ?P" "period_start_time q + n * ?P < 2 ^ 32" "period_start_time q + ?P < 2 ^ 32" "0 \<le> period_start_time q"
    using t(2) m(2) P by auto
  have period: "(t - ?S) div ?P = m + n"
  proof -
    have eq: "t - ?S = (t - period_start_time q) + m * ?P" using m(2) by simp
    show ?thesis using P by (subst eq) (simp add: n_def)
  qed
  have q': "q' = q\<lparr>period_start_time := period_start_time q + n * ?P, claimed_this_period := claimed_this_period q'\<rparr>"
      "claimed_this_period q' = (if n = 0 then claimed_this_period q + x else x)"
    using run n(2) range same fc_time.tps_add [OF L(2)] by (auto simp: claim_period_def Let_def opt_bind fc_safe.safe_Some [OF L(1)] split: if_splits)
  have x: "claimed_in p (m + n) h + x \<le> amount (withdrawal_limit p)" "claimed_this_period q' = claimed_in p (m + n) h + x"
  proof -
    have n0: "n = 0 \<longleftrightarrow> t < period_start_time q + ?P"
      using P t(2) by (auto simp: n_def zdiv_eq_0_iff)
    have "u32 (period_start_time q + ?P) = period_start_time q + ?P" using range P by simp
    then have "amount a = (if n = 0 then max 0 (amount (withdrawal_limit p) - claimed_in p m h) else amount (withdrawal_limit p))"
      using av(1) n0 same m(3) fc_time.tps_add [OF L(2)]
      by (auto simp: available_this_period_def opt_bind fc_safe.safe_Some [OF L(1)] split: if_splits)
    moreover have "claimed_in p m h \<le> amount (withdrawal_limit p)" using lim by blast
    ultimately have "x \<le> amount (withdrawal_limit p) - (if n = 0 then claimed_in p m h else 0)" using av(2) by (auto split: if_splits)
    then show "claimed_in p (m + n) h + x \<le> amount (withdrawal_limit p)" "claimed_this_period q' = claimed_in p (m + n) h + x"
      using claimed_in_later [OF m(4), of "m + n"] n(1) m(3) q'(2) by (auto split: if_splits)
  qed
  have "\<forall>k. claimed_in p k (h @ [(t, x)]) \<le> amount (withdrawal_limit p)" using lim x(1) by (simp add: claimed_in_snoc period)
  moreover have "\<forall>(t', x') \<in> set (h @ [(t, x)]). (t' - ?S) div ?P \<le> m + n" using m(4) n(1) period by auto
  moreover have "claimed_this_period q' = claimed_in p (m + n) (h @ [(t, x)])" using x(2) by (simp add: claimed_in_snoc period)
  moreover have "period_start_time q' = ?S + (m + n) * ?P" using m(2) by (subst q'(1)) (simp add: algebra_simps)
  moreover have "withdrawal_limit q' = withdrawal_limit p" "withdrawal_period_sec q' = ?P" "wp_expiration q' = wp_expiration p"
    using same by (subst q'(1), simp)+
  ultimately show ?thesis using m(1) n(1) unfolding claims_inv_def by (auto intro!: exI [of _ "m + n"])
qed

lemma fee_frame_permissions:
  assumes "fee_frame d d1"
  shows "withdraw_permissions d1 = withdraw_permissions d" "head_block_time d1 = head_block_time d"
proof -
  have eq: "d1 = d\<lparr>account_statistics := account_statistics d1, asset_dynamic_data := asset_dynamic_data d1\<rparr>"
    using assms by (simp add: fee_frame_def)
  show "withdraw_permissions d1 = withdraw_permissions d" by (subst eq) simp
  show "head_block_time d1 = head_block_time d" by (subst eq) simp
qed

lemma withdraw_claim_step:
  assumes L: "fc_safe L" and wf: "db_wf d" and run: "withdraw_claim L required op d = Some d'"
  obtains q q' a where "db_wf d'" "head_block_time d' = head_block_time d" "\<And>b. gap b d' = gap b d"
    "tbl_get (withdraw_permission op) (withdraw_permissions d) = Some q"
    "head_block_time d < wp_expiration q" "period_start_time q \<le> head_block_time d"
    "available_this_period L q (head_block_time d) = Some a" "amount (amount_to_withdraw op) \<le> amount a"
    "claim_period L (head_block_time d) (amount (amount_to_withdraw op)) q = Some q'"
    "tbl_get (withdraw_permission op) (withdraw_permissions d') = Some q'"
proof -
  have ev: "start_evaluate L required False (withdraw_to_account op) (wl_fee op) (wl_evaluate L op) (\<lambda>_. wl_apply L op) d = Some d'"
    using run by (auto simp: withdraw_claim_def opt_bind)
  show ?thesis
  proof (rule fc_safe.start_evaluate_cases [OF L wf ev])
    fix e d1 d2 n
    assume e: "wl_evaluate L op d = Some e" and d1: "fee_frame d d1" "db_wf d1" "\<And>b. gap b d1 = gap b d + of_asset b (wl_fee op)"
      and d2: "wl_apply L op d1 = Some d2" and n: "n = mk_asset (- amount (wl_fee op)) (asset_id (wl_fee op))"
      and d': "adjust_balance L (withdraw_to_account op) n d2 = Some d'"
    note keep = fee_frame_permissions [OF d1(1)]
    obtain q a where q: "tbl_get (withdraw_permission op) (withdraw_permissions d) = Some q"
      "head_block_time d < wp_expiration q" "period_start_time q \<le> head_block_time d"
      "available_this_period L q (head_block_time d) = Some a" "asset_le (amount_to_withdraw op) a = Some True"
      using e by (auto simp: wl_evaluate_def opt_bind)
    from fc_safe.wl_apply_effect [OF L d1(2) d2] obtain p p' where p: "db_wf d2" "\<And>b. gap b d2 = gap b d1"
      "tbl_get (withdraw_permission op) (withdraw_permissions d1) = Some p"
      "claim_period L (head_block_time d1) (amount (amount_to_withdraw op)) p = Some p'"
      "withdraw_permissions d2 = tbl_modify (withdraw_permission op) (\<lambda>_. p') (withdraw_permissions d1)"
      "head_block_time d2 = head_block_time d1" by metis
    note e' = fc_safe.adjust_balance_effect(1,2) [OF L p(1) d'] and k = adjust_balance_permissions [OF d']
    have "p = q" using p(3) q(1) keep by simp
    show ?thesis
    proof (rule that [OF e'(1) _ _ q(1-4)])
      show "gap b d' = gap b d" for b using e'(2) [of b] p(2) [of b] d1(3) [of b] n by (auto simp: of_asset_def)
      show "amount (amount_to_withdraw op) \<le> amount a" using q(5) by (auto simp: asset_le_def asset_lt_def split: if_splits)
      show "tbl_get (withdraw_permission op) (withdraw_permissions d') = Some p'" using k p(3,5) by (simp add: tbl.get_modify)
    qed (use k p(4,6) keep \<open>p = q\<close> in simp_all)
  qed
qed

section \<open>Properties\<close>

text \<open>
  (C23) A recurring withdrawal stays within its limit. For a permission whose expiration and one further period fit 32 bits
  (\<open>permission_ok\<close>): however the claims on it are spread over time, and whatever
  happens between them, the claims of any one period add up to no more than its limit, and the claims themselves create and lose
  nothing. Creation does not ask for that range, and beyond it the limit does not hold (\<open>wrapped_period_no_limit\<close>).
\<close>

theorem withdrawals_within_limit:
  assumes "fc_safe L" "fc_time L" "permission_ok p" "claims_made L i p d h"
  shows "claimed_in p k h \<le> amount (withdrawal_limit p) \<and>
    (withdraw_permission op = i \<and> withdraw_claim L required op d = Some d' \<longrightarrow> db_wf d' \<and> gap b d' = gap b d)"
proof -
  have "db_wf d \<and> (\<exists>q. tbl_get i (withdraw_permissions d) = Some q \<and> claims_inv p q h)"
    using assms(4)
  proof induction
    case (created d)
    have "claims_inv p p []" using assms(3) by (auto simp: claims_inv_def permission_ok_def claimed_in_def intro!: exI [of _ 0])
    with created show ?case by blast
  next
    case (other d h d')
    then show ?case by metis
  next
    case (claim d h op required d')
    then obtain q where q: "db_wf d" "tbl_get i (withdraw_permissions d) = Some q" "claims_inv p q h" by blast
    from withdraw_claim_step [OF assms(1) q(1) claim.hyps(3)] obtain q' a where s: "db_wf d'"
      "head_block_time d < wp_expiration q" "period_start_time q \<le> head_block_time d"
      "available_this_period L q (head_block_time d) = Some a" "amount (amount_to_withdraw op) \<le> amount a"
      "claim_period L (head_block_time d) (amount (amount_to_withdraw op)) q = Some q'"
      "tbl_get i (withdraw_permissions d') = Some q'"
      using q(2) claim.hyps(2) by (metis option.inject)
    from claim_keeps_inv [OF assms(1-3) q(3) s(2-6)] s(1,7) show ?case by blast
  qed
  then have "db_wf d" "claimed_in p k h \<le> amount (withdrawal_limit p)" by (auto simp: claims_inv_def)
  then show ?thesis using withdraw_claim_step [OF assms(1)] by metis
qed

definition demo_permission :: withdraw_permission_object where
  "demo_permission = \<lparr>withdraw_from_account = 7, authorized_account = 8, withdrawal_limit = mk_asset 30 0, withdrawal_period_sec = 100,
     period_start_time = 900, wp_expiration = 2000, claimed_this_period = 0\<rparr>"

definition demo_permits :: database where
  "demo_permits = demo_pending\<lparr>
     account_balances := \<lparr>rows = [(0, \<lparr>abo_owner = 7, abo_asset_type = 0, abo_balance = 60, maintenance_flag = False\<rparr>)], next_instance = 1\<rparr>,
     withdraw_permissions := \<lparr>rows = [(0, demo_permission)], next_instance = 1\<rparr>\<rparr>"

definition demo_claim :: "share_type \<Rightarrow> withdraw_permission_claim_operation" where
  "demo_claim x = \<lparr>wl_fee = mk_asset 0 0, withdraw_permission = 0, wl_from_account = 7, withdraw_to_account = 8, amount_to_withdraw = mk_asset x 0\<rparr>"

lemma demo_permits_wf: "db_wf demo_permits"
  by (simp add: demo_permits_def demo_pending_def demo_accounts_def demo_balances_def empty_database_def db_wf_def tbl_wf_def tbl_empty_def
      assets_linked_def tbl_get_def demo_fee_asset_def)

theorem withdrawals_within_limit_witness:
  "\<exists>d1 d2. withdraw_claim checked_lib None (demo_claim 20) demo_permits = Some d1 \<and>
     withdraw_claim checked_lib None (demo_claim 10) d1 = Some d2 \<and>
     claims_made checked_lib 0 demo_permission d2 [(1000, 20), (1000, 10)] \<and>
     claimed_in demo_permission 1 [(1000, 20), (1000, 10)] \<le> 30 \<and> gap 0 d2 = gap 0 d1"
proof -
  have "do { d1 \<leftarrow> withdraw_claim checked_lib None (demo_claim 20) demo_permits;
      d2 \<leftarrow> withdraw_claim checked_lib None (demo_claim 10) d1; Some (head_block_time d1) } = Some 1000" by code_simp
  then obtain d1 d2 where d: "withdraw_claim checked_lib None (demo_claim 20) demo_permits = Some d1"
    "withdraw_claim checked_lib None (demo_claim 10) d1 = Some d2" "head_block_time d1 = 1000" by (auto simp: opt_bind)
  have p: "permission_ok demo_permission" "tbl_get 0 (withdraw_permissions demo_permits) = Some demo_permission"
      "head_block_time demo_permits = 1000"
    by (simp_all add: permission_ok_def demo_permission_def demo_permits_def demo_pending_def tbl_get_def)
  note m0 = claims_made.created [OF demo_permits_wf p(2), of checked_lib]
  have m1: "claims_made checked_lib 0 demo_permission d1 [(1000, 20)]"
    using claims_made.claim [OF m0 _ d(1)] p(3) by (simp add: demo_claim_def)
  have m2: "claims_made checked_lib 0 demo_permission d2 [(1000, 20), (1000, 10)]"
    using claims_made.claim [OF m1 _ d(2)] d(3) by (simp add: demo_claim_def)
  have "claimed_in demo_permission 1 [(1000, 20), (1000, 10)] \<le> 30"
    using withdrawals_within_limit [OF checked_lib_safe checked.fc_time_axioms p(1) m2, of 1] by (simp add: demo_permission_def)
  moreover have "gap 0 d2 = gap 0 d1"
    using withdrawals_within_limit [OF checked_lib_safe checked.fc_time_axioms p(1) m1, of 1 "demo_claim 10" None d2 0] d(2) by (simp add: demo_claim_def)
  ultimately show ?thesis using d(1,2) m2 by blast
qed

text \<open>
  Outside that range the limit fails. A permission for two periods of \<open>2700000000\<close> seconds from \<open>1600000000\<close> on passes all the
  checks of its creation; the end of its first period and its expiration wrap around, so the permission ends in its first
  period, and until then the whole limit is available again after each claim.
\<close>

definition demo_wrapped :: withdraw_permission_create_operation where
  "demo_wrapped = \<lparr>wc_fee = mk_asset 0 0, wc_from_account = 7, wc_authorized_account = 8, wc_limit = mk_asset 30 0,
     wc_period_sec = 2700000000, periods_until_expiration = 2, wc_period_start_time = 1600000000\<rparr>"

lemma wrapped_period_no_limit:
  "let p = snd (hd (rows (withdraw_permissions (snd (wc_apply checked_lib demo_wrapped demo_pending)))));
       now = 1700000000
   in wc_validate demo_wrapped = Some () \<and> wc_evaluate checked_lib 5 demo_wrapped demo_pending = Some () \<and>
      now < wp_expiration p \<and> (now - period_start_time p) div withdrawal_period_sec p = 0 \<and>
      (case claim_period checked_lib now 30 p of None \<Rightarrow> False
       | Some q \<Rightarrow> claimed_this_period q = 30 \<and> available_this_period checked_lib q now = Some (mk_asset 30 0))"
  by code_simp

end
