(* ===== verification/Operations.thy ===== *)
theory Operations
  imports Transfers Property_Ops Htlc Vesting_Ops
begin

text \<open>
  The operations whose evaluators use the default fee payment, as the variant \<^verbatim>\<open>operation\<close> of \<^verbatim>\<open>operations.hpp\<close>: their validation,
  their fee payers, the evaluator that \<^verbatim>\<open>database::apply_operation\<close> dispatches to, and the operations of a transaction in order.
  Every evaluator is shown to keep the contract \<open>op_evaluator\<close>, so that the ledger of the whole list follows once. Limit orders, which
  defer their fee, and liquidity pools, which need an invariant of their own, have their ledgers in their own theories.
\<close>

section \<open>The variant\<close>

datatype operation =
    Transfer transfer_operation
  | Override_transfer override_transfer_operation
  | Withdraw_permission_create withdraw_permission_create_operation
  | Withdraw_permission_claim withdraw_permission_claim_operation
  | Asset_issue asset_issue_operation
  | Asset_reserve asset_reserve_operation
  | Asset_fund_fee_pool asset_fund_fee_pool_operation
  | Asset_claim_fees asset_claim_fees_operation
  | Asset_claim_pool asset_claim_pool_operation
  | Vesting_balance_create vesting_balance_create_operation
  | Vesting_balance_withdraw vesting_balance_withdraw_operation
  | Htlc_create htlc_create_operation
  | Htlc_redeem htlc_redeem_operation
  | Htlc_extend htlc_extend_operation
  | Property_create property_create_operation
  | Property_update property_update_operation
  | Property_approve property_approve_operation
  | Property_delete property_delete_operation
  | Asset_limitation_create asset_limitation_object_create_operation
  | Asset_limitation_update asset_limitation_object_update_operation
  | Asset_price_publish asset_price_publish_operation

text \<open>\<^verbatim>\<open>operation_validate\<close> and the \<^verbatim>\<open>fee_payer\<close> and \<^verbatim>\<open>fee\<close> of each alternative.\<close>

primrec operation_validate :: "operation \<Rightarrow> unit option" where
  "operation_validate (Transfer op) = tr_validate op"
| "operation_validate (Override_transfer op) = ov_validate op"
| "operation_validate (Withdraw_permission_create op) = wc_validate op"
| "operation_validate (Withdraw_permission_claim op) = wl_validate op"
| "operation_validate (Asset_issue op) = is_validate op"
| "operation_validate (Asset_reserve op) = rs_validate op"
| "operation_validate (Asset_fund_fee_pool op) = fp_validate op"
| "operation_validate (Asset_claim_fees op) = cf_validate op"
| "operation_validate (Asset_claim_pool op) = cp_validate op"
| "operation_validate (Vesting_balance_create op) = vb_create_validate op"
| "operation_validate (Vesting_balance_withdraw op) = vb_withdraw_validate op"
| "operation_validate (Htlc_create op) = htlc_create_validate op"
| "operation_validate (Htlc_redeem op) = htlc_redeem_validate op"
| "operation_validate (Htlc_extend op) = htlc_extend_validate op"
| "operation_validate (Property_create op) = property_create_validate op"
| "operation_validate (Property_update op) = property_update_validate op"
| "operation_validate (Property_approve op) = property_approve_validate op"
| "operation_validate (Property_delete op) = property_delete_validate op"
| "operation_validate (Asset_limitation_create op) = asset_limitation_create_validate op"
| "operation_validate (Asset_limitation_update op) = asset_limitation_update_validate op"
| "operation_validate (Asset_price_publish op) = asset_price_publish_validate op"

primrec operation_payer :: "operation \<Rightarrow> account_id_type" where
  "operation_payer (Transfer op) = tr_from op"
| "operation_payer (Override_transfer op) = ov_issuer op"
| "operation_payer (Withdraw_permission_create op) = wc_from_account op"
| "operation_payer (Withdraw_permission_claim op) = withdraw_to_account op"
| "operation_payer (Asset_issue op) = is_issuer op"
| "operation_payer (Asset_reserve op) = rs_payer op"
| "operation_payer (Asset_fund_fee_pool op) = fp_from_account op"
| "operation_payer (Asset_claim_fees op) = cf_issuer op"
| "operation_payer (Asset_claim_pool op) = cp_issuer op"
| "operation_payer (Vesting_balance_create op) = vbc_creator op"
| "operation_payer (Vesting_balance_withdraw op) = vbw_owner op"
| "operation_payer (Htlc_create op) = hc_from op"
| "operation_payer (Htlc_redeem op) = redeemer op"
| "operation_payer (Htlc_extend op) = update_issuer op"
| "operation_payer (Property_create op) = pco_issuer op"
| "operation_payer (Property_update op) = puo_issuer op"
| "operation_payer (Property_approve op) = pao_issuer op"
| "operation_payer (Property_delete op) = pdo_fee_paying_account op"
| "operation_payer (Asset_limitation_create op) = alc_issuer op"
| "operation_payer (Asset_limitation_update op) = alu_issuer op"
| "operation_payer (Asset_price_publish op) = app_fee_paying_account op"

section \<open>Evaluation\<close>

text \<open>\<^verbatim>\<open>apply_operation\<close>. \<open>H\<close> has the hash functions, \<open>interval\<close> is the block interval, \<open>required\<close> the fee of the current schedule.\<close>

primrec apply_operation :: "fc_lib \<Rightarrow> hash_lib \<Rightarrow> int \<Rightarrow> share_type option \<Rightarrow> operation \<Rightarrow> database \<Rightarrow> database option" where
  "apply_operation L H interval required (Transfer op) =
     start_evaluate L required False (tr_from op) (tr_fee op) (tr_evaluate op) (\<lambda>_. tr_apply L op)"
| "apply_operation L H interval required (Override_transfer op) =
     start_evaluate L required False (ov_issuer op) (ov_fee op) (ov_evaluate op) (\<lambda>_. ov_apply L op)"
| "apply_operation L H interval required (Withdraw_permission_create op) =
     start_evaluate L required False (wc_from_account op) (wc_fee op) (wc_evaluate L interval op) (\<lambda>_ d. Some (snd (wc_apply L op d)))"
| "apply_operation L H interval required (Withdraw_permission_claim op) =
     start_evaluate L required False (withdraw_to_account op) (wl_fee op) (wl_evaluate L op) (\<lambda>_. wl_apply L op)"
| "apply_operation L H interval required (Asset_issue op) =
     start_evaluate L required False (is_issuer op) (is_fee op) (is_evaluate L op) (is_apply L op)"
| "apply_operation L H interval required (Asset_reserve op) =
     start_evaluate L required False (rs_payer op) (rs_fee op) (rs_evaluate op) (rs_apply L op)"
| "apply_operation L H interval required (Asset_fund_fee_pool op) =
     start_evaluate L required False (fp_from_account op) (fp_fee op) (fp_evaluate op) (fp_apply L op)"
| "apply_operation L H interval required (Asset_claim_fees op) =
     start_evaluate L required False (cf_issuer op) (cf_fee op) (cf_evaluate op) (\<lambda>_. cf_apply L op)"
| "apply_operation L H interval required (Asset_claim_pool op) =
     start_evaluate L required False (cp_issuer op) (cp_fee op) (cp_evaluate op) (\<lambda>_. cp_apply L op)"
| "apply_operation L H interval required (Vesting_balance_create op) =
     start_evaluate L required False (vbc_creator op) (vbc_fee op) (vb_create_evaluate op) (\<lambda>_ d. map_option snd (vb_create_apply L op d))"
| "apply_operation L H interval required (Vesting_balance_withdraw op) =
     start_evaluate L required False (vbw_owner op) (vbw_fee op) (vb_withdraw_evaluate L op) (\<lambda>_. vb_withdraw_apply L op)"
| "apply_operation L H interval required (Htlc_create op) =
     start_evaluate L required False (hc_from op) (hc_fee op) (htlc_create_evaluate op) (\<lambda>_ d. map_option snd (htlc_create_apply L op d))"
| "apply_operation L H interval required (Htlc_redeem op) =
     start_evaluate L required False (redeemer op) (hr_fee op) (htlc_redeem_evaluate H op) (htlc_redeem_apply L op)"
| "apply_operation L H interval required (Htlc_extend op) =
     start_evaluate L required False (update_issuer op) (he_fee op) (htlc_extend_evaluate L op) (\<lambda>_. htlc_extend_apply L op)"
| "apply_operation L H interval required (Property_create op) =
     start_evaluate L required False (pco_issuer op) (pco_fee op) (property_create_evaluate op)
       (\<lambda>_ d. map_option snd (property_create_apply L op d))"
| "apply_operation L H interval required (Property_update op) =
     start_evaluate L required False (puo_issuer op) (puo_fee op) (property_update_evaluate op) (\<lambda>_. property_update_apply op)"
| "apply_operation L H interval required (Property_approve op) =
     start_evaluate L required False (pao_issuer op) (pao_fee op) (property_approve_evaluate op) (\<lambda>_. property_approve_apply L op)"
| "apply_operation L H interval required (Property_delete op) =
     start_evaluate L required False (pdo_fee_paying_account op) (pdo_fee op) (property_delete_evaluate op) (\<lambda>_. property_delete_apply L op)"
| "apply_operation L H interval required (Asset_limitation_create op) =
     start_evaluate L required False (alc_issuer op) (alc_fee op) (asset_limitation_create_evaluate op)
       (\<lambda>_ d. map_option snd (asset_limitation_create_apply op d))"
| "apply_operation L H interval required (Asset_limitation_update op) =
     start_evaluate L required False (alu_issuer op) (alu_fee op) (asset_limitation_update_evaluate op) (\<lambda>_. asset_limitation_update_apply op)"
| "apply_operation L H interval required (Asset_price_publish op) =
     start_evaluate L required False (app_fee_paying_account op) (app_fee op) (asset_price_publish_evaluate op) (\<lambda>_. asset_price_publish_apply op)"

fun apply_operations :: "fc_lib \<Rightarrow> hash_lib \<Rightarrow> int \<Rightarrow> (operation \<Rightarrow> share_type option) \<Rightarrow> operation list \<Rightarrow> database \<Rightarrow> database option" where
  "apply_operations L H interval required [] d = Some d"
| "apply_operations L H interval required (op # ops) d = do {
     d1 \<leftarrow> apply_operation L H interval (required op) op d;
     apply_operations L H interval required ops d1
   }"

text \<open>\<^verbatim>\<open>transaction::validate\<close>.\<close>

definition transaction_validate :: "operation list \<Rightarrow> unit option" where
  "transaction_validate ops = do {
     fc_assert (ops \<noteq> []);
     fc_assert (list_all (\<lambda>op. operation_validate op \<noteq> None) ops)
   }"

section \<open>Every evaluator keeps the contract\<close>

context fc_safe
begin

text \<open>What evaluation has found of the asset still holds when the fee has been moved.\<close>

lemma is_contract:
  assumes "is_evaluate L op d = Some k" "fee_frame d d1" "db_wf d1" "is_apply L op k d1 = Some d2"
  shows "db_wf d2 \<and> gap b d2 = gap b d1"
proof -
  obtain ao where "tbl_get (asset_id (asset_to_issue op)) (assets d) = Some ao" "dynamic_asset_data_id ao = k"
    using assms(1) by (auto simp: is_evaluate_def opt_bind get_dynamic_data_Some)
  then show ?thesis using is_apply_ledger [OF assms(3) _ _ assms(4)] fee_frame_keeps(3) [OF assms(2)] by simp
qed

lemma rs_contract:
  assumes "rs_evaluate op d = Some k" "fee_frame d d1" "db_wf d1" "rs_apply L op k d1 = Some d2"
  shows "db_wf d2 \<and> gap b d2 = gap b d1"
proof -
  obtain ao where "tbl_get (asset_id (amount_to_reserve op)) (assets d) = Some ao" "dynamic_asset_data_id ao = k"
    using assms(1) by (auto simp: rs_evaluate_def opt_bind get_dynamic_data_Some split: if_splits)
  then show ?thesis using rs_apply_ledger [OF assms(3) _ _ assms(4)] fee_frame_keeps(3) [OF assms(2)] by simp
qed

lemma fp_contract:
  assumes "fp_evaluate op d = Some k" "fee_frame d d1" "db_wf d1" "fp_apply L op k d1 = Some d2"
  shows "db_wf d2 \<and> gap b d2 = gap b d1"
proof -
  obtain ao where "tbl_get (fp_asset_id op) (assets d) = Some ao" "dynamic_asset_data_id ao = k"
    using assms(1) by (auto simp: fp_evaluate_def get_dynamic_data_Some)
  then show ?thesis using fp_apply_ledger [OF assms(3) _ _ assms(4)] fee_frame_keeps(3) [OF assms(2)] by simp
qed

lemma cp_contract: "cp_validate op = Some () \<Longrightarrow> db_wf d \<Longrightarrow> cp_apply L op d = Some d' \<Longrightarrow> db_wf d' \<and> gap b d' = gap b d"
  by (rule cp_apply_ledger) (simp_all add: cp_validate_def opt_bind)

lemma wl_apply_ledger: "db_wf d \<Longrightarrow> wl_apply L op d = Some d' \<Longrightarrow> db_wf d' \<and> gap b d' = gap b d"
  using wl_apply_effect by metis

lemma vb_withdraw_apply_ledger: "db_wf d \<Longrightarrow> vb_withdraw_apply L op d = Some d' \<Longrightarrow> db_wf d' \<and> gap b d' = gap b d"
  using vb_withdraw_apply_effect by metis

lemma htlc_create_apply_ledger:
  assumes wf: "db_wf d" and run: "htlc_create_apply L op d = Some (i, d')"
  shows "db_wf d' \<and> gap b d' = gap b d"
proof -
  obtain d1 t where d1: "adjust_balance L (hc_from op) (mk_asset (- amount (hc_amount op)) (asset_id (hc_amount op))) d = Some d1"
    and t: "t = \<lparr>htlc_from = hc_from op, htlc_to = hc_to op, htlc_amount = amount (hc_amount op),
      htlc_asset_id = asset_id (hc_amount op), htlc_preimage_hash = hc_preimage_hash op, htlc_preimage_size = hc_preimage_size op,
      htlc_expiration = tps_add L (head_block_time d1) (claim_period_seconds op)\<rparr>" and d': "d' = d1\<lparr>htlcs := snd (tbl_create t (htlcs d1))\<rparr>"
    using run by (auto simp: htlc_create_apply_def opt_bind asset_neg_def safe_Some Let_def case_prod_unfold)
  note e = adjust_balance_effect(1,2) [OF wf d1]
  show ?thesis using e(1) e(2) [of b] by (simp add: d' t db_wf_upd db_wf_tables tbl_wf_ops gap_upd htlc_of_def of_asset_def)
qed

lemma htlc_redeem_apply_ledger:
  assumes wf: "db_wf d" and h: "tbl_get (hr_htlc_id op) (htlcs d) = Some h" and run: "htlc_redeem_apply L op h d = Some d'"
  shows "db_wf d' \<and> gap b d' = gap b d"
proof -
  obtain d1 where d1: "adjust_balance L (htlc_to h) (mk_asset (htlc_amount h) (htlc_asset_id h)) d = Some d1"
    and d': "d' = d1\<lparr>htlcs := tbl_remove (hr_htlc_id op) (htlcs d1)\<rparr>"
    using run by (auto simp: htlc_redeem_apply_def opt_bind)
  show ?thesis using pay_htlc_effect(1,2) [OF wf h d1] by (simp add: d')
qed

lemma htlc_redeem_contract:
  assumes "htlc_redeem_evaluate H op d = Some h" "fee_frame d d1" "db_wf d1" "htlc_redeem_apply L op h d1 = Some d2"
  shows "db_wf d2 \<and> gap b d2 = gap b d1"
proof -
  have "tbl_get (hr_htlc_id op) (htlcs d) = Some h" using assms(1) by (auto simp: htlc_redeem_evaluate_def opt_bind)
  then show ?thesis using htlc_redeem_apply_ledger [OF assms(3) _ assms(4)] fee_frame_keeps(8) [OF assms(2)] by simp
qed

lemma htlc_extend_apply_ledger:
  assumes wf: "db_wf d" and h: "tbl_get (he_htlc_id op) (htlcs d) = Some h" and run: "htlc_extend_apply L op d = Some d'"
  shows "db_wf d' \<and> gap b d' = gap b d"
proof -
  have "d' = d\<lparr>htlcs := tbl_modify (he_htlc_id op) (\<lambda>h. h\<lparr>htlc_expiration := tps_add L (htlc_expiration h) (seconds_to_add op)\<rparr>) (htlcs d)\<rparr>"
    using run by (simp add: htlc_extend_apply_def)
  then show ?thesis using wf h by (simp add: db_wf_upd db_wf_tables tbl_wf_ops gap_upd tbl_sum_modify htlc_of_def)
qed

end

text \<open>The operations on properties, limitations and prices leave everything that holds value.\<close>

lemma property_apply_ledger:
  assumes wf: "db_wf d"
  shows "property_create_apply L pc d = Some (i, d') \<Longrightarrow> db_wf d' \<and> gap b d' = gap b d"
    "property_update_apply pu d = Some d' \<Longrightarrow> db_wf d' \<and> gap b d' = gap b d"
    "property_approve_apply L pa d = Some d' \<Longrightarrow> db_wf d' \<and> gap b d' = gap b d"
    "asset_limitation_create_apply ac d = Some (i, d') \<Longrightarrow> db_wf d' \<and> gap b d' = gap b d"
    "asset_limitation_update_apply au d = Some d' \<Longrightarrow> db_wf d' \<and> gap b d' = gap b d"
    "asset_price_publish_apply ap d = Some d' \<Longrightarrow> db_wf d' \<and> gap b d' = gap b d"
  using wf
  by (auto simp: property_create_apply_def property_update_apply_def property_approve_apply_def
      asset_limitation_create_apply_def asset_limitation_update_apply_def asset_price_publish_apply_def opt_bind Let_def case_prod_unfold
      db_wf_upd db_wf_tables tbl_wf_ops gap_upd split: option.splits)

lemma property_delete_frame:
  assumes run: "property_delete_apply L op d = Some d'"
  obtains t where "d' = d\<lparr>asset_limitations := t, properties := tbl_remove (pdo_property op) (properties d)\<rparr>"
    "tbl_wf (asset_limitations d) \<Longrightarrow> tbl_wf t"
proof -
  obtain p where p: "tbl_get (pdo_property op) (properties d) = Some p" using run by (auto simp: property_delete_apply_def opt_bind)
  show ?thesis
  proof (cases "find_limitation_by_symbol d (backed_by_asset_symbol p)")
    case None
    then show ?thesis using that [of "asset_limitations d"] run p by (simp add: property_delete_apply_def)
  next
    case (Some r)
    then obtain i x where r: "find_limitation_by_symbol d (backed_by_asset_symbol p) = Some (i, x)" by (cases r) simp
    then obtain c where c: "calc_meta1_contribution L p = Inr c"
      using run p by (cases "calc_meta1_contribution L p") (simp_all add: property_delete_apply_def)
    have "d' = d\<lparr>asset_limitations := tbl_modify i (\<lambda>y. y\<lparr>cumulative_sell_limit := u64 (cumulative_sell_limit x - c)\<rparr>) (asset_limitations d),
        properties := tbl_remove (pdo_property op) (properties d)\<rparr>"
      using r c run p by (simp add: property_delete_apply_def)
    then show ?thesis by (rule that) (simp add: tbl_wf_ops)
  qed
qed

lemma property_delete_ledger:
  assumes wf: "db_wf d" and run: "property_delete_apply L op d = Some d'"
  shows "db_wf d' \<and> gap b d' = gap b d"
  by (rule property_delete_frame [OF run]) (use wf in \<open>simp add: db_wf_upd db_wf_tables tbl_wf_ops gap_upd\<close>)

text \<open>No evaluator changes the time of the head block.\<close>

lemma move_balance_time: "move_balance L p q x d = Some d' \<Longrightarrow> head_block_time d' = head_block_time d"
  by (auto simp: move_balance_def opt_bind dest!: adjust_balance_keeps(11))

lemma modify_dynamic_data_time: "modify_dynamic_data k f d = Some d' \<Longrightarrow> head_block_time d' = head_block_time d"
  by (auto simp: modify_dynamic_data_def opt_bind)

lemma asset_apply_time:
  "is_apply L iop k d = Some d' \<Longrightarrow> head_block_time d' = head_block_time d"
  "rs_apply L rop k d = Some d' \<Longrightarrow> head_block_time d' = head_block_time d"
  "fp_apply L fop k d = Some d' \<Longrightarrow> head_block_time d' = head_block_time d"
  "cf_apply L cop d = Some d' \<Longrightarrow> head_block_time d' = head_block_time d"
  "cp_apply L pop d = Some d' \<Longrightarrow> head_block_time d' = head_block_time d"
  unfolding is_apply_def rs_apply_def fp_apply_def cf_apply_def cp_apply_def opt_bind
  by (auto simp: fc_assert_eq_Some case_prod_unfold opt_bind dest!: adjust_balance_keeps(11) modify_dynamic_data_time)

lemma held_apply_time:
  "wl_apply L wop d = Some d' \<Longrightarrow> head_block_time d' = head_block_time d"
  "vb_create_apply L vop d = Some (i, d') \<Longrightarrow> head_block_time d' = head_block_time d"
  "vb_withdraw_apply L uop d = Some d' \<Longrightarrow> head_block_time d' = head_block_time d"
  "htlc_create_apply L hop d = Some (i, d') \<Longrightarrow> head_block_time d' = head_block_time d"
  "htlc_redeem_apply L dop h d = Some d' \<Longrightarrow> head_block_time d' = head_block_time d"
  by (auto simp: wl_apply_def vb_create_apply_def vb_withdraw_apply_def htlc_create_apply_def htlc_redeem_apply_def opt_bind Let_def
      case_prod_unfold dest!: adjust_balance_keeps(11) move_balance_time)

lemma property_apply_time:
  "property_create_apply L pc d = Some (i, d') \<Longrightarrow> head_block_time d' = head_block_time d"
  "property_approve_apply L pa d = Some d' \<Longrightarrow> head_block_time d' = head_block_time d"
  "asset_limitation_create_apply ac d = Some (i, d') \<Longrightarrow> head_block_time d' = head_block_time d"
  "asset_price_publish_apply ap d = Some d' \<Longrightarrow> head_block_time d' = head_block_time d"
  by (auto simp: property_create_apply_def property_approve_apply_def
      asset_limitation_create_apply_def asset_price_publish_apply_def opt_bind Let_def case_prod_unfold split: option.splits)

lemma property_delete_time: "property_delete_apply L op d = Some d' \<Longrightarrow> head_block_time d' = head_block_time d"
  by (erule property_delete_frame) simp

sublocale fc_safe \<subseteq> transfer: op_evaluator L "\<lambda>_ _. True" tr_evaluate "\<lambda>op _. tr_apply L op"
  by unfold_locales (simp_all add: tr_apply_def move_balance_ledger move_balance_time)

sublocale fc_safe \<subseteq> override_transfer: op_evaluator L "\<lambda>_ _. True" ov_evaluate "\<lambda>op _. ov_apply L op"
  by unfold_locales (simp_all add: ov_apply_def move_balance_ledger move_balance_time)

sublocale fc_safe \<subseteq> withdraw_permission_create: op_evaluator L "\<lambda>_ _. True" "wc_evaluate L interval" "\<lambda>op _ d. Some (snd (wc_apply L op d))"
  for interval
  by unfold_locales (auto simp: wc_apply_def Let_def case_prod_unfold db_wf_upd db_wf_tables tbl_wf_ops gap_upd)

sublocale fc_safe \<subseteq> withdraw_permission_claim: op_evaluator L "\<lambda>_ _. True" "wl_evaluate L" "\<lambda>op _. wl_apply L op"
  by unfold_locales (simp_all add: wl_apply_ledger held_apply_time)

sublocale fc_safe \<subseteq> asset_issue: op_evaluator L "\<lambda>_ _. True" "is_evaluate L" "is_apply L"
  by unfold_locales (rule is_contract, assumption+, rule asset_apply_time)

sublocale fc_safe \<subseteq> asset_reserve: op_evaluator L "\<lambda>_ _. True" rs_evaluate "rs_apply L"
  by unfold_locales (rule rs_contract, assumption+, rule asset_apply_time)

sublocale fc_safe \<subseteq> asset_fund_fee_pool: op_evaluator L "\<lambda>_ _. True" fp_evaluate "fp_apply L"
  by unfold_locales (rule fp_contract, assumption+, rule asset_apply_time)

sublocale fc_safe \<subseteq> asset_claim_fees: op_evaluator L "\<lambda>_ _. True" cf_evaluate "\<lambda>op _. cf_apply L op"
  by unfold_locales (simp_all add: cf_apply_ledger asset_apply_time)

sublocale fc_safe \<subseteq> asset_claim_pool: op_evaluator L "\<lambda>op _. cp_validate op = Some ()" cp_evaluate "\<lambda>op _. cp_apply L op"
  by unfold_locales (rule cp_contract, assumption+, rule asset_apply_time)

sublocale fc_safe \<subseteq> vesting_balance_create: op_evaluator L "\<lambda>_ _. True" vb_create_evaluate "\<lambda>op _ d. map_option snd (vb_create_apply L op d)"
  by unfold_locales (auto dest: vb_create_apply_effect(1,2) held_apply_time)

sublocale fc_safe \<subseteq> vesting_balance_withdraw: op_evaluator L "\<lambda>_ _. True" "vb_withdraw_evaluate L" "\<lambda>op _. vb_withdraw_apply L op"
  by unfold_locales (simp_all add: vb_withdraw_apply_ledger held_apply_time)

sublocale fc_safe \<subseteq> htlc_creation: op_evaluator L "\<lambda>_ _. True" htlc_create_evaluate "\<lambda>op _ d. map_option snd (htlc_create_apply L op d)"
  by unfold_locales (auto dest: htlc_create_apply_ledger held_apply_time)

sublocale fc_safe \<subseteq> htlc_redemption: op_evaluator L "\<lambda>_ _. True" "htlc_redeem_evaluate H" "htlc_redeem_apply L" for H
  by unfold_locales (rule htlc_redeem_contract, assumption+, rule held_apply_time)

sublocale fc_safe \<subseteq> htlc_extension: op_evaluator L "\<lambda>_ _. True" "htlc_extend_evaluate L" "\<lambda>op _. htlc_extend_apply L op"
  by unfold_locales (auto simp: htlc_extend_evaluate_def opt_bind fee_frame_keeps(8) dest: htlc_extend_apply_ledger, simp add: htlc_extend_apply_def)

sublocale fc_safe \<subseteq> property_creation: op_evaluator L "\<lambda>_ _. True" property_create_evaluate "\<lambda>op _ d. map_option snd (property_create_apply L op d)"
  by unfold_locales (auto dest: property_apply_ledger(1) property_apply_time)

sublocale fc_safe \<subseteq> property_change: op_evaluator L "\<lambda>_ _. True" property_update_evaluate "\<lambda>op _. property_update_apply op"
  by unfold_locales (auto dest: property_apply_ledger(2), simp add: property_update_apply_def)

sublocale fc_safe \<subseteq> property_approval: op_evaluator L "\<lambda>_ _. True" property_approve_evaluate "\<lambda>op _. property_approve_apply L op"
  by unfold_locales (auto dest: property_apply_ledger(3) property_apply_time)

sublocale fc_safe \<subseteq> property_deletion: op_evaluator L "\<lambda>_ _. True" property_delete_evaluate "\<lambda>op _. property_delete_apply L op"
  by unfold_locales (rule property_delete_ledger, assumption+, rule property_delete_time)

sublocale fc_safe \<subseteq> limitation_creation: op_evaluator L "\<lambda>_ _. True" asset_limitation_create_evaluate
    "\<lambda>op _ d. map_option snd (asset_limitation_create_apply op d)"
  by unfold_locales (auto dest: property_apply_ledger(4) property_apply_time)

sublocale fc_safe \<subseteq> limitation_change: op_evaluator L "\<lambda>_ _. True" asset_limitation_update_evaluate "\<lambda>op _. asset_limitation_update_apply op"
  by unfold_locales (auto dest: property_apply_ledger(5), simp add: asset_limitation_update_apply_def)

sublocale fc_safe \<subseteq> price_publication: op_evaluator L "\<lambda>_ _. True" asset_price_publish_evaluate "\<lambda>op _. asset_price_publish_apply op"
  by unfold_locales (auto dest: property_apply_ledger(6) property_apply_time)

section \<open>The ledger of a transaction\<close>

context fc_safe
begin

lemma apply_operation_ledger:
  assumes "db_wf d" "operation_validate op = Some ()" "apply_operation L H interval required op d = Some d'"
  shows "db_wf d' \<and> gap b d' = gap b d"
proof (cases op)
  case (Asset_claim_pool op')
  then show ?thesis using asset_claim_pool.start_evaluate_ledger [OF assms(1)] assms(2,3) by simp
next
  case (Htlc_redeem op')
  then show ?thesis using htlc_redemption.start_evaluate_ledger [OF assms(1)] assms(3) by simp
next
  case (Withdraw_permission_create op')
  then show ?thesis using withdraw_permission_create.start_evaluate_ledger [OF assms(1)] assms(3) by simp
qed (use assms in \<open>auto dest: transfer.start_evaluate_ledger override_transfer.start_evaluate_ledger
    withdraw_permission_claim.start_evaluate_ledger asset_issue.start_evaluate_ledger
    asset_reserve.start_evaluate_ledger asset_fund_fee_pool.start_evaluate_ledger asset_claim_fees.start_evaluate_ledger
    vesting_balance_create.start_evaluate_ledger vesting_balance_withdraw.start_evaluate_ledger
    htlc_creation.start_evaluate_ledger htlc_extension.start_evaluate_ledger
    property_creation.start_evaluate_ledger property_change.start_evaluate_ledger property_approval.start_evaluate_ledger
    property_deletion.start_evaluate_ledger limitation_creation.start_evaluate_ledger limitation_change.start_evaluate_ledger
    price_publication.start_evaluate_ledger\<close>)

lemma apply_operation_time:
  assumes "db_wf d" "apply_operation L H interval required op d = Some d'"
  shows "head_block_time d' = head_block_time d"
proof (cases op)
  case (Htlc_redeem op')
  then show ?thesis using htlc_redemption.start_evaluate_time [OF assms(1)] assms(2) by simp
next
  case (Withdraw_permission_create op')
  then show ?thesis using withdraw_permission_create.start_evaluate_time [OF assms(1)] assms(2) by simp
qed (use assms in \<open>auto dest: transfer.start_evaluate_time override_transfer.start_evaluate_time
    withdraw_permission_claim.start_evaluate_time asset_issue.start_evaluate_time
    asset_reserve.start_evaluate_time asset_fund_fee_pool.start_evaluate_time asset_claim_fees.start_evaluate_time
    asset_claim_pool.start_evaluate_time vesting_balance_create.start_evaluate_time vesting_balance_withdraw.start_evaluate_time
    htlc_creation.start_evaluate_time htlc_extension.start_evaluate_time
    property_creation.start_evaluate_time property_change.start_evaluate_time property_approval.start_evaluate_time
    property_deletion.start_evaluate_time limitation_creation.start_evaluate_time limitation_change.start_evaluate_time
    price_publication.start_evaluate_time\<close>)

lemma apply_operations_ledger:
  "db_wf d \<Longrightarrow> list_all (\<lambda>op. operation_validate op \<noteq> None) ops \<Longrightarrow> apply_operations L H interval required ops d = Some d' \<Longrightarrow>
     db_wf d' \<and> gap b d' = gap b d \<and> head_block_time d' = head_block_time d"
proof (induction ops arbitrary: d)
  case (Cons op ops)
  obtain d1 where d1: "apply_operation L H interval (required op) op d = Some d1" "apply_operations L H interval required ops d1 = Some d'"
    using Cons.prems(3) by (auto simp: opt_bind)
  from apply_operation_ledger [OF Cons.prems(1) _ d1(1), of b] apply_operation_time [OF Cons.prems(1) d1(1)] Cons.prems(2)
  have "db_wf d1" "gap b d1 = gap b d" "head_block_time d1 = head_block_time d" by auto
  with Cons.IH [OF _ _ d1(2)] Cons.prems(2) show ?case by simp
qed simp

end

end
