(* ===== verification/Transactions.thy ===== *)
theory Transactions
  imports Operations Authority Witness_Schedule
begin

text \<open>
  Transactions and how the chain applies them (\<^verbatim>\<open>database::_apply_transaction\<close> in \<^verbatim>\<open>db_block.cpp\<close>): validation, the list of recent
  transactions that a new one may not repeat, the signatures, the reference block (transactions as proof of stake), the expiration, and
  the operations in order. The parts of the chain state around the object tables are the record \<open>chain_db\<close>; identifiers and keys come from
  hash functions and signatures of \<^verbatim>\<open>fc\<close> and are parameters, the record \<open>trx_lib\<close>.
\<close>

section \<open>State\<close>

record transaction =
  ref_block_num :: "16 word"
  ref_block_prefix :: "32 word"
  trx_expiration :: time_point_sec
  operations :: "operation list"

record 'sig signed_transaction = transaction +
  signatures :: "'sig list"

record ('sig, 'id) transaction_history_object =
  history_trx :: "'sig signed_transaction"
  trx_id :: 'id

record ('sig, 'k, 'a, 'id) chain_db =
  db :: database
  clock :: chain_clock
  trx_history :: "('sig, 'id) transaction_history_object tbl"
  block_summaries :: "block_id_type tbl"
  account_active :: "account_id_type \<Rightarrow> ('k, 'a) authority option"
  account_owner :: "account_id_type \<Rightarrow> ('k, 'a) authority option"
  maximum_time_until_expiration :: uint32
  max_authority_depth :: nat
  maximum_transaction_size :: uint64
  maximum_block_size :: uint64

text \<open>The identifier is a hash of the transaction without its signatures; \<open>recover_key\<close> recovers the key of a signature of the
  transaction on this chain, \<open>pack_size\<close> is the size of its serialization, and \<open>schedule_fee\<close> the fee of an operation under the
  current fee schedule.\<close>

record ('sig, 'k, 'a, 'id) trx_lib =
  id_of :: "transaction \<Rightarrow> 'id"
  recover_key :: "transaction \<Rightarrow> 'sig \<Rightarrow> 'k"
  key_addresses :: "'k \<Rightarrow> 'a list"
  pack_size :: "'sig signed_transaction \<Rightarrow> int"
  schedule_fee :: "operation \<Rightarrow> share_type option"
  hashes :: hash_lib

definition HARDFORK_CORE_584_TIME :: time_point_sec where [chain_consts]: "HARDFORK_CORE_584_TIME = 1556028120"
definition HARDFORK_CORE_1573_TIME :: time_point_sec where [chain_consts]: "HARDFORK_CORE_1573_TIME = 1556028120"

text \<open>The bits of the skip flags of \<^verbatim>\<open>database.hpp\<close>.\<close>

definition skip_witness_signature :: nat where "skip_witness_signature = 0"
definition skip_transaction_signatures :: nat where "skip_transaction_signatures = 1"
definition skip_transaction_dupe_check :: nat where "skip_transaction_dupe_check = 2"
definition skip_block_size_check :: nat where "skip_block_size_check = 4"
definition skip_tapos_check :: nat where "skip_tapos_check = 5"
definition skip_merkle_check :: nat where "skip_merkle_check = 7"
definition skip_undo_history_check :: nat where "skip_undo_history_check = 9"
definition skip_witness_schedule_check :: nat where "skip_witness_schedule_check = 10"

lemmas skip_flags_defs = skip_witness_signature_def skip_transaction_signatures_def skip_transaction_dupe_check_def skip_block_size_check_def
  skip_tapos_check_def skip_merkle_check_def skip_undo_history_check_def skip_witness_schedule_check_def

section \<open>Applying a transaction\<close>

definition is_known_transaction :: "'id \<Rightarrow> ('sig, 'k, 'a, 'id) chain_db \<Rightarrow> bool" where
  "is_known_transaction i s \<longleftrightarrow> tbl_find (\<lambda>h. trx_id h = i) (trx_history s) \<noteq> None"

text \<open>None of the operations here overrides the authorities of \<^verbatim>\<open>base_operation\<close>: each requires the active authority of its payer.\<close>

definition operation_iface :: "(operation, 'k, 'a) auth_interface" where
  "operation_iface = \<lparr>op_fee_payer = operation_payer, op_active = (\<lambda>_. []), op_owner = (\<lambda>_. []), op_other = (\<lambda>_. [])\<rparr>"

definition authority_context :: "('sig, 'k, 'a, 'id) trx_lib \<Rightarrow> ('sig, 'k, 'a, 'id) chain_db \<Rightarrow> ('k, 'a) sign_context" where
  "authority_context T s = \<lparr>get_active = account_active s, get_owner = account_owner s,
     allow_non_immediate_owner = (head_block_time (db s) \<ge> HARDFORK_CORE_584_TIME), available_keys = [], addrs = key_addresses T\<rparr>"

definition check_signatures ::
  "('sig, 'k::linorder, 'a, 'id) trx_lib \<Rightarrow> 'sig signed_transaction \<Rightarrow> ('sig, 'k, 'a, 'id) chain_db \<Rightarrow> unit option" where
  "check_signatures T trx s = do {
     keys \<leftarrow> get_signature_keys (recover_key T (transaction.truncate trx)) (signatures trx) [];
     r \<leftarrow> verify_authority operation_iface (authority_context T s) (operations trx) keys (max_authority_depth s) False [] [];
     (case r of Inl e \<Rightarrow> None | Inr u \<Rightarrow> Some u)
   }"

text \<open>The reference block and the expiration, which only the first block of the chain goes without.\<close>

definition check_time ::
  "fc_lib \<Rightarrow> ('sig, 'k, 'a, 'id) trx_lib \<Rightarrow> 32 word \<Rightarrow> 'sig signed_transaction \<Rightarrow> ('sig, 'k, 'a, 'id) chain_db \<Rightarrow> unit option" where
  "check_time L T skip trx s =
     (let now = head_block_time (db s) in do {
        (if bit skip skip_tapos_check then Some ()
         else do {
           summary \<leftarrow> tbl_get (unat (ref_block_num trx)) (block_summaries s);
           fc_assert (ref_block_prefix trx = summary ! 1)
         });
        fc_assert (trx_expiration trx \<le> tps_add L now (maximum_time_until_expiration s));
        fc_assert (now \<le> trx_expiration trx);
        (if bit skip skip_block_size_check then Some ()
         else fc_assert (now \<le> HARDFORK_CORE_1573_TIME \<or> pack_size T trx \<le> maximum_transaction_size s))
      })"

definition apply_transaction ::
  "fc_lib \<Rightarrow> ('sig, 'k::linorder, 'a, 'id) trx_lib \<Rightarrow> 32 word \<Rightarrow> 'sig signed_transaction \<Rightarrow> ('sig, 'k, 'a, 'id) chain_db \<Rightarrow>
     ('sig, 'k, 'a, 'id) chain_db option" where
  "apply_transaction L T skip trx s =
     (let i = id_of T (transaction.truncate trx) in do {
        transaction_validate (operations trx);
        fc_assert (\<not> bit skip skip_transaction_dupe_check \<longrightarrow> \<not> is_known_transaction i s);
        (if bit skip skip_transaction_signatures then Some () else check_signatures T trx s);
        (if head_block_number (clock s) > 0 then check_time L T skip trx s else Some ());
        let history = (if bit skip skip_transaction_dupe_check then trx_history s
          else snd (tbl_create \<lparr>history_trx = trx, trx_id = i\<rparr> (trx_history s)));
        d' \<leftarrow> apply_operations L (hashes T) (block_interval (clock s)) (schedule_fee T) (operations trx) (db s);
        Some (s\<lparr>trx_history := history, db := d'\<rparr>)
      })"

fun apply_transactions ::
  "fc_lib \<Rightarrow> ('sig, 'k::linorder, 'a, 'id) trx_lib \<Rightarrow> 32 word \<Rightarrow> 'sig signed_transaction list \<Rightarrow> ('sig, 'k, 'a, 'id) chain_db \<Rightarrow>
     ('sig, 'k, 'a, 'id) chain_db option" where
  "apply_transactions L T skip [] s = Some s"
| "apply_transactions L T skip (x # xs) s = do { s1 \<leftarrow> apply_transaction L T skip x s; apply_transactions L T skip xs s1 }"

text \<open>\<^verbatim>\<open>clear_expired_transactions\<close>, in the order of the index by expiration.\<close>

function clear_expired_transactions :: "('sig, 'k, 'a, 'id) chain_db \<Rightarrow> ('sig, 'k, 'a, 'id) chain_db" where
  "clear_expired_transactions s =
     (case tbl_first_by (\<lambda>h. trx_expiration (history_trx h)) (trx_history s) of
        None \<Rightarrow> s
      | Some (i, h) \<Rightarrow> if head_block_time (db s) > trx_expiration (history_trx h)
          then clear_expired_transactions (s\<lparr>trx_history := tbl_remove i (trx_history s)\<rparr>) else s)"
  by auto
termination by (relation "measure (\<lambda>s. length (rows (trx_history s)))") (auto simp: tbl_remove_shorter)

declare clear_expired_transactions.simps [simp del]

section \<open>The ledger and the clock\<close>

lemma apply_transaction_cases:
  assumes "apply_transaction L T skip trx s = Some s'"
  obtains d' where "list_all (\<lambda>op. operation_validate op \<noteq> None) (operations trx)"
    "\<not> bit skip skip_transaction_dupe_check \<longrightarrow> \<not> is_known_transaction (id_of T (transaction.truncate trx)) s"
    "\<not> bit skip skip_transaction_signatures \<longrightarrow> check_signatures T trx s = Some ()"
    "head_block_number (clock s) > 0 \<longrightarrow> check_time L T skip trx s = Some ()"
    "apply_operations L (hashes T) (block_interval (clock s)) (schedule_fee T) (operations trx) (db s) = Some d'"
    "s' = s\<lparr>trx_history := (if bit skip skip_transaction_dupe_check then trx_history s
       else snd (tbl_create \<lparr>history_trx = trx, trx_id = id_of T (transaction.truncate trx)\<rparr> (trx_history s))), db := d'\<rparr>"
  using assms that unfolding apply_transaction_def Let_def opt_bind transaction_validate_def
  by (auto simp: opt_bind split: if_splits)

context fc_safe
begin

lemma apply_transaction_ledger:
  assumes "db_wf (db s)" "apply_transaction L T skip trx s = Some s'"
  shows "db_wf (db s')" "gap b (db s') = gap b (db s)" "head_block_time (db s') = head_block_time (db s)" "clock s' = clock s"
    "block_summaries s' = block_summaries s"
  by (rule apply_transaction_cases [OF assms(2)]; use apply_operations_ledger [OF assms(1)] in simp)+

lemma apply_transactions_ledger:
  "db_wf (db s) \<Longrightarrow> apply_transactions L T skip xs s = Some s' \<Longrightarrow>
   db_wf (db s') \<and> gap b (db s') = gap b (db s) \<and> head_block_time (db s') = head_block_time (db s) \<and> clock s' = clock s"
proof (induction xs arbitrary: s)
  case (Cons x xs)
  obtain s1 where s1: "apply_transaction L T skip x s = Some s1" "apply_transactions L T skip xs s1 = Some s'"
    using Cons.prems(2) by (auto simp: opt_bind)
  from apply_transaction_ledger [OF Cons.prems(1) s1(1)] Cons.IH [OF _ s1(2)] show ?case by simp
qed simp

end

section \<open>No transaction is applied twice\<close>

text \<open>The transactions \<open>X\<close> were applied before: each is in the list of recent ones, or has expired.\<close>

definition remembers :: "('sig, 'k, 'a, 'id) trx_lib \<Rightarrow> transaction set \<Rightarrow> ('sig, 'k, 'a, 'id) chain_db \<Rightarrow> bool" where
  "remembers T X s \<longleftrightarrow> tbl_wf (trx_history s) \<and>
     (\<forall>x \<in> X. (\<exists>k h. tbl_get k (trx_history s) = Some h \<and> trx_id h = id_of T x \<and> trx_expiration (history_trx h) = trx_expiration x) \<or>
        head_block_number (clock s) > 0 \<and> trx_expiration x < head_block_time (db s))"

text \<open>No two transactions with different expirations have the same identifier, as a collision-free hash gives.\<close>

definition ids_apart :: "('sig, 'k, 'a, 'id) trx_lib \<Rightarrow> transaction set \<Rightarrow> bool" where
  "ids_apart T X \<longleftrightarrow> (\<forall>x \<in> X. \<forall>y \<in> X. id_of T x = id_of T y \<longrightarrow> trx_expiration x = trx_expiration y)"

lemma ids_apart_subset: "ids_apart T Y \<Longrightarrow> X \<subseteq> Y \<Longrightarrow> ids_apart T X"
  unfolding ids_apart_def by blast

lemma known_transaction:
  assumes "tbl_get k (trx_history s) = Some h"
  shows "is_known_transaction (trx_id h) s"
proof -
  have "(k, h) \<in> set (rows (trx_history s))" using assms by (simp add: tbl_get_def map_of_SomeD)
  then show ?thesis by (auto simp: is_known_transaction_def tbl_find_None)
qed

lemma check_time_expiration: "check_time L T skip trx s = Some () \<Longrightarrow> head_block_time (db s) \<le> trx_expiration trx"
  by (auto simp: check_time_def Let_def opt_bind)

lemma clear_expired_transactions_effect:
  "tbl_wf (trx_history s) \<Longrightarrow> s' = clear_expired_transactions s \<Longrightarrow>
   s' = s\<lparr>trx_history := trx_history s'\<rparr> \<and> tbl_wf (trx_history s') \<and>
   (\<forall>k h. tbl_get k (trx_history s) = Some h \<longrightarrow> tbl_get k (trx_history s') = Some h \<or> trx_expiration (history_trx h) < head_block_time (db s))"
proof (induction s arbitrary: s' rule: clear_expired_transactions.induct)
  case (1 s)
  show ?case
  proof (cases "tbl_first_by (\<lambda>h. trx_expiration (history_trx h)) (trx_history s)")
    case None
    then show ?thesis using 1(2,3) by (subst (asm) clear_expired_transactions.simps) simp
  next
    case (Some r)
    obtain i g where r: "r = (i, g)" by (cases r)
    show ?thesis
    proof (cases "head_block_time (db s) > trx_expiration (history_trx g)")
      case True
      let ?s = "s\<lparr>trx_history := tbl_remove i (trx_history s)\<rparr>"
      have s': "s' = clear_expired_transactions ?s"
        using 1(3) Some r True by (subst (asm) clear_expired_transactions.simps) simp
      have wf: "tbl_wf (trx_history ?s)" using 1(2) by (simp add: tbl.remove_wf)
      note ih = 1(1) [OF Some r [symmetric] True wf s']
      have g: "tbl_get i (trx_history s) = Some g" using tbl_first_by_Some [OF 1(2) Some [unfolded r]] by simp
      have "tbl_get k (trx_history s') = Some h \<or> trx_expiration (history_trx h) < head_block_time (db s)"
        if "tbl_get k (trx_history s) = Some h" for k h
        using that ih g True by (cases "k = i") (auto simp: tbl.get_remove [OF 1(2)])
      moreover have "s' = s\<lparr>trx_history := trx_history s'\<rparr>" using ih by (metis chain_db.surjective chain_db.update_convs(3))
      ultimately show ?thesis using ih by blast
    next
      case False
      then show ?thesis using 1(2,3) Some r by (subst (asm) clear_expired_transactions.simps) simp
    qed
  qed
qed

context fc_safe
begin

lemma apply_transaction_fresh:
  assumes wf: "db_wf (db s)" and rem: "remembers T X s" and skip: "\<not> bit skip skip_transaction_dupe_check"
    and x: "x = transaction.truncate trx" "ids_apart T (insert x X)" and run: "apply_transaction L T skip trx s = Some s'"
  shows "id_of T x \<notin> id_of T ` X" "remembers T (insert x X) s'"
proof -
  obtain d' where k: "\<not> is_known_transaction (id_of T x) s" "head_block_number (clock s) > 0 \<longrightarrow> check_time L T skip trx s = Some ()"
    and s': "s' = s\<lparr>trx_history := snd (tbl_create \<lparr>history_trx = trx, trx_id = id_of T x\<rparr> (trx_history s)), db := d'\<rparr>"
    by (rule apply_transaction_cases [OF run]) (use skip x(1) in simp)
  have time: "head_block_time d' = head_block_time (db s)" using apply_transaction_ledger(3) [OF wf run] s' by simp
  have ex: "trx_expiration trx = trx_expiration x" by (simp add: x(1) transaction.truncate_def)
  show "id_of T x \<notin> id_of T ` X"
  proof
    assume "id_of T x \<in> id_of T ` X"
    then obtain y where y: "y \<in> X" "id_of T y = id_of T x" by auto
    have "trx_expiration y = trx_expiration x" using x(2) y unfolding ids_apart_def by blast
    moreover have "\<not> trx_expiration x < head_block_time (db s)" if "head_block_number (clock s) > 0"
      using check_time_expiration [OF k(2) [THEN mp, OF that]] ex by simp
    ultimately show False using rem y known_transaction [of _ s] k(1) unfolding remembers_def by metis
  qed
  have wf': "tbl_wf (trx_history s)" using rem by (simp add: remembers_def)
  have old: "tbl_get j (trx_history s') = Some h" if "tbl_get j (trx_history s) = Some h" for j h
    using that tbl.get_create [OF wf'] tbl.create_fresh [OF wf'] by (auto simp: s')
  have new: "tbl_get (next_instance (trx_history s)) (trx_history s') = Some \<lparr>history_trx = trx, trx_id = id_of T x\<rparr>"
    using tbl.get_create [OF wf'] by (simp add: s' tbl_create_def)
  show "remembers T (insert x X) s'"
    unfolding remembers_def
  proof (intro conjI ballI)
    show "tbl_wf (trx_history s')" using wf' by (simp add: s' tbl.create_wf)
    fix y
    assume y: "y \<in> insert x X"
    let ?in = "\<lambda>s. \<exists>k h. tbl_get k (trx_history s) = Some h \<and> trx_id h = id_of T y \<and> trx_expiration (history_trx h) = trx_expiration y"
    have same: "clock s' = clock s" "head_block_time (db s') = head_block_time (db s)" using time by (simp_all add: s')
    show "?in s' \<or> 0 < head_block_number (clock s') \<and> trx_expiration y < head_block_time (db s')"
    proof (cases "y = x")
      case True
      then have "?in s'" using new ex by (intro exI conjI) (assumption, simp_all)
      then show ?thesis ..
    next
      case False
      then have "?in s \<or> 0 < head_block_number (clock s) \<and> trx_expiration y < head_block_time (db s)"
        using y rem unfolding remembers_def by blast
      then show ?thesis using old unfolding same by blast
    qed
  qed
qed

lemma apply_transactions_fresh:
  "db_wf (db s) \<Longrightarrow> remembers T X s \<Longrightarrow> \<not> bit skip skip_transaction_dupe_check \<Longrightarrow> xs = map transaction.truncate trxs \<Longrightarrow>
   ids_apart T (set xs \<union> X) \<Longrightarrow> apply_transactions L T skip trxs s = Some s' \<Longrightarrow>
   distinct (map (id_of T) xs) \<and> id_of T ` set xs \<inter> id_of T ` X = {} \<and> remembers T (set xs \<union> X) s'"
proof (induction trxs arbitrary: s X xs)
  case (Cons trx trxs)
  define x where "x = transaction.truncate trx"
  obtain s1 where s1: "apply_transaction L T skip trx s = Some s1" "apply_transactions L T skip trxs s1 = Some s'"
    using Cons.prems(6) by (auto simp: opt_bind)
  have xs: "xs = x # map transaction.truncate trxs" by (simp add: Cons.prems(4) x_def)
  have apart: "ids_apart T (insert x X)" by (rule ids_apart_subset [OF Cons.prems(5)]) (auto simp: xs)
  note f = apply_transaction_fresh [OF Cons.prems(1-3) x_def apart s1(1)]
  have "ids_apart T (set (map transaction.truncate trxs) \<union> insert x X)" by (rule ids_apart_subset [OF Cons.prems(5)]) (auto simp: xs)
  note ih = Cons.IH [OF apply_transaction_ledger(1) [OF Cons.prems(1) s1(1)] f(2) Cons.prems(3) refl this s1(2)]
  have "set xs \<union> X = set (map transaction.truncate trxs) \<union> insert x X" by (simp add: xs)
  then have "remembers T (set xs \<union> X) s'" using ih by simp
  moreover have "distinct (map (id_of T) xs)" using ih unfolding xs by auto
  moreover have "id_of T ` set xs \<inter> id_of T ` X = {}" using ih f(1) unfolding xs by auto
  ultimately show ?case by blast
qed simp

end

end
