(* ===== verification/Block_Apply.thy ===== *)
theory Block_Apply
  imports Transactions
begin

text \<open>
  Applying a block (\<^verbatim>\<open>database::apply_block\<close> and \<^verbatim>\<open>_apply_block\<close> in \<^verbatim>\<open>db_block.cpp\<close>): checkpoints, the checks of the block, its
  transactions in order, and the updates that follow them, in the order of the source. The steps that other theories of the development do
  not model (maintenance, proposals, expired orders, feeds) are the fields of \<open>chain_hooks\<close>, and the theorems name what they need of them.
\<close>

section \<open>Parameters\<close>

record ('sig, 'r) processed_transaction = "'sig signed_transaction" +
  operation_results :: "'r list"

type_synonym ('sig, 'r, 'bs) chain_block = "(('sig, 'r) processed_transaction, 'bs) signed_block"

text \<open>\<open>sha224\<close> and the Merkle hashes are those of \<^verbatim>\<open>fc\<close>; \<open>packed_block_size\<close> is the size of the serialization, \<open>signed_by\<close> tells
  whether the signature of the block is of the key of a witness.\<close>

record ('sig, 'r, 'bs, 'h) block_lib =
  sha224 :: "'bs signed_header \<Rightarrow> 32 word list"
  merkle :: "(('sig, 'r) processed_transaction, 'h) merkle_lib"
  packed_block_size :: "('sig, 'r, 'bs) chain_block \<Rightarrow> int"
  signed_by :: "nat \<Rightarrow> ('sig, 'r, 'bs) chain_block \<Rightarrow> bool"

record ('sig, 'k, 'a, 'id) chain_hooks =
  perform_chain_maintenance :: "('sig, 'k, 'a, 'id) chain_db \<Rightarrow> ('sig, 'k, 'a, 'id) chain_db option"
  clear_expired_proposals :: "('sig, 'k, 'a, 'id) chain_db \<Rightarrow> ('sig, 'k, 'a, 'id) chain_db option"
  clear_expired_orders :: "('sig, 'k, 'a, 'id) chain_db \<Rightarrow> ('sig, 'k, 'a, 'id) chain_db option"
  update_feeds_and_rates :: "('sig, 'k, 'a, 'id) chain_db \<Rightarrow> ('sig, 'k, 'a, 'id) chain_db option"

section \<open>The steps\<close>

definition trx_of :: "('sig, 'r) processed_transaction \<Rightarrow> 'sig signed_transaction" where
  "trx_of x = signed_transaction.truncate x"

text \<open>Up to \<^verbatim>\<open>update_global_dynamic_data\<close>; the last component is the size that the undo history and the fork database are set to.\<close>

definition begin_block ::
  "fc_lib \<Rightarrow> ('sig, 'k::linorder, 'a, 'id) trx_lib \<Rightarrow> ('sig, 'r, 'bs, 'h) block_lib \<Rightarrow> uint32 option \<Rightarrow> 32 word \<Rightarrow> ('sig, 'r, 'bs) chain_block \<Rightarrow>
     ('sig, 'k, 'a, 'id) chain_db \<Rightarrow> (('sig, 'k, 'a, 'id) chain_db \<times> uint32) option" where
  "begin_block L T B checkpoint skip b s = do {
     fc_assert (\<not> bit skip skip_block_size_check \<longrightarrow> packed_block_size B b \<le> maximum_block_size s);
     fc_assert (bit skip skip_merkle_check \<or> transaction_merkle_root b = fst (calculate_merkle_root (merkle B) b));
     wit \<leftarrow> validate_block_header L (bit skip skip_witness_schedule_check) b (clock s) (db s);
     fc_assert (\<not> bit skip skip_witness_signature \<longrightarrow> signed_by B wit b);
     s1 \<leftarrow> apply_transactions L T skip (map trx_of (transactions b)) (s\<lparr>db := (db s)\<lparr>issue_453_affected_assets := []\<rparr>\<rparr>);
     (missed, d2) \<leftarrow> update_witness_missed_blocks L (clock s1) (timestamp b) (db s1);
     (c3, d3, n) \<leftarrow> update_global_dynamic_data (sha224 B) (bit skip skip_undo_history_check) checkpoint b missed (clock s1) d2;
     Some (s1\<lparr>db := d3, clock := c3\<rparr>, n)
   }"

definition create_block_summary :: "('sig, 'r, 'bs, 'h) block_lib \<Rightarrow> ('sig, 'r, 'bs) chain_block \<Rightarrow> ('sig, 'k, 'a, 'id) chain_db \<Rightarrow>
    ('sig, 'k, 'a, 'id) chain_db option" where
  "create_block_summary B b s =
     (let sid = unat (block_num b AND 0xffff) in do {
        _ \<leftarrow> tbl_get sid (block_summaries s);
        Some (s\<lparr>block_summaries := tbl_modify sid (\<lambda>_. fst (blk_id (sha224 B) b)) (block_summaries s)\<rparr>)
      })"

definition on_db :: "(database \<Rightarrow> database option) \<Rightarrow> ('sig, 'k, 'a, 'id) chain_db \<Rightarrow> ('sig, 'k, 'a, 'id) chain_db option" where
  "on_db f s = map_option (\<lambda>d. s\<lparr>db := d\<rparr>) (f (db s))"

definition end_block ::
  "fc_lib \<Rightarrow> ('sig, 'r, 'bs, 'h) block_lib \<Rightarrow> ('sig, 'k, 'a, 'id) chain_hooks \<Rightarrow> bool \<Rightarrow> ('sig, 'r, 'bs) chain_block \<Rightarrow>
     ('sig, 'k, 'a, 'id) chain_db \<Rightarrow> ('sig, 'k, 'a, 'id) chain_db option" where
  "end_block L B K maint_needed b s = do {
     (c, d) \<leftarrow> update_signing_witness L (blk_witness b) b (clock s) (db s);
     c \<leftarrow> update_last_irreversible_block c d;
     s \<leftarrow> (if maint_needed then perform_chain_maintenance K (s\<lparr>db := d, clock := c\<rparr>) else Some (s\<lparr>db := d, clock := c\<rparr>));
     s \<leftarrow> create_block_summary B b s;
     s \<leftarrow> clear_expired_proposals K (clear_expired_transactions s);
     s \<leftarrow> clear_expired_orders K s;
     s \<leftarrow> on_db (clear_expired_htlcs L) s;
     s \<leftarrow> update_feeds_and_rates K s;
     s \<leftarrow> on_db (\<lambda>d. update_smooth_allocation L (update_withdraw_permissions d)) s;
     let c = update_maintenance_flag maint_needed (clock s);
     c \<leftarrow> update_witness_schedule c (db s);
     Some (s\<lparr>clock := c\<rparr>)
   }"

text \<open>The result: the new size of the histories, when the point is reached at which it is set, and the new state.\<close>

definition apply_block_checked ::
  "fc_lib \<Rightarrow> ('sig, 'k::linorder, 'a, 'id) trx_lib \<Rightarrow> ('sig, 'r, 'bs, 'h) block_lib \<Rightarrow> ('sig, 'k, 'a, 'id) chain_hooks \<Rightarrow> uint32 option \<Rightarrow> 32 word \<Rightarrow>
     ('sig, 'r, 'bs) chain_block \<Rightarrow> ('sig, 'k, 'a, 'id) chain_db \<Rightarrow> uint32 option \<times> ('sig, 'k, 'a, 'id) chain_db option" where
  "apply_block_checked L T B K checkpoint skip b s =
     (case begin_block L T B checkpoint skip b s of
        None \<Rightarrow> (None, None)
      | Some (s1, n) \<Rightarrow> (Some n, end_block L B K (next_maintenance_time (db s) \<le> timestamp b) b s1))"

text \<open>\<^verbatim>\<open>apply_block\<close>: a block at or before the last checkpoint must match, and nearly everything is skipped. The checkpoints are the pairs of
  the \<^verbatim>\<open>flat_map\<close>, in ascending order of the numbers.\<close>

definition apply_block ::
  "fc_lib \<Rightarrow> ('sig, 'k::linorder, 'a, 'id) trx_lib \<Rightarrow> ('sig, 'r, 'bs, 'h) block_lib \<Rightarrow> ('sig, 'k, 'a, 'id) chain_hooks \<Rightarrow>
     (uint32 \<times> block_id_type) list \<Rightarrow> 32 word \<Rightarrow> ('sig, 'r, 'bs) chain_block \<Rightarrow> ('sig, 'k, 'a, 'id) chain_db \<Rightarrow>
     uint32 option \<times> ('sig, 'k, 'a, 'id) chain_db option" where
  "apply_block L T B K checkpoints skip b s =
     (let num = uint (block_num b); latest = (if checkpoints = [] then None else Some (fst (last checkpoints)))
      in if checkpoints \<noteq> [] \<and> snd (last checkpoints) \<noteq> null_id then
        (if (case map_of checkpoints num of Some i \<Rightarrow> fst (blk_id (sha224 B) b) \<noteq> i | None \<Rightarrow> False) then (None, None)
         else apply_block_checked L T B K latest (if fst (last checkpoints) \<ge> num then NOT 0 else skip) b s)
      else apply_block_checked L T B K latest skip b s)"

section \<open>The ledger and the clock of a block\<close>

text \<open>The value on the chain: what is held beyond the supply, and the budget out of which witnesses are still to be paid.\<close>

definition chain_value :: "asset_id_type \<Rightarrow> ('sig, 'k, 'a, 'id) chain_db \<Rightarrow> int" where
  "chain_value a s = gap a (db s) + (if a = 0 then witness_budget (clock s) else 0)"

text \<open>
  The record of the steps of \<open>chain_hooks\<close> in \<open>end_block\<close>: the state before and after each of those that a block runs, the maintenance only when the
  block needs one.
\<close>

definition hook_log ::
  "fc_lib \<Rightarrow> ('sig, 'r, 'bs, 'h) block_lib \<Rightarrow> ('sig, 'k, 'a, 'id) chain_hooks \<Rightarrow> bool \<Rightarrow> ('sig, 'r, 'bs) chain_block \<Rightarrow>
     ('sig, 'k, 'a, 'id) chain_db \<Rightarrow> (('sig, 'k, 'a, 'id) chain_db \<times> ('sig, 'k, 'a, 'id) chain_db) list option" where
  "hook_log L B K maint_needed b s = do {
     (c, d) \<leftarrow> update_signing_witness L (blk_witness b) b (clock s) (db s);
     c \<leftarrow> update_last_irreversible_block c d;
     let h = s\<lparr>db := d, clock := c\<rparr>;
     sa \<leftarrow> (if maint_needed then perform_chain_maintenance K h else Some h);
     sb \<leftarrow> create_block_summary B b sa;
     sc \<leftarrow> clear_expired_proposals K (clear_expired_transactions sb);
     sd \<leftarrow> clear_expired_orders K sc;
     se \<leftarrow> on_db (clear_expired_htlcs L) sd;
     sf \<leftarrow> update_feeds_and_rates K se;
     Some ((if maint_needed then [(h, sa)] else []) @ [(clear_expired_transactions sb, sc), (sc, sd), (se, sf)])
   }"

text \<open>What every modelled step after the transactions keeps.\<close>

definition step_keeps :: "('sig, 'k, 'a, 'id) chain_db \<Rightarrow> ('sig, 'k, 'a, 'id) chain_db \<Rightarrow> bool" where
  "step_keeps s s' \<longleftrightarrow> (db_wf (db s) \<longrightarrow> db_wf (db s') \<and> (\<forall>a. chain_value a s' = chain_value a s)) \<and>
     head_block_time (db s') = head_block_time (db s) \<and> trx_history s' = trx_history s \<and>
     head_block_number (clock s') = head_block_number (clock s) \<and> head_block_id (clock s') = head_block_id (clock s)"

text \<open>
  What the theorems need of the steps in \<open>chain_hooks\<close>: they leave the tables well-formed and touch neither the head block nor the list of
  recent transactions. Nothing is assumed of what they do to balances and supplies.
\<close>

definition hook_keeps :: "('sig, 'k, 'a, 'id) chain_db \<Rightarrow> ('sig, 'k, 'a, 'id) chain_db \<Rightarrow> bool" where
  "hook_keeps s s' \<longleftrightarrow> (db_wf (db s) \<longrightarrow> db_wf (db s')) \<and>
     head_block_time (db s') = head_block_time (db s) \<and> trx_history s' = trx_history s \<and>
     head_block_number (clock s') = head_block_number (clock s) \<and> head_block_id (clock s') = head_block_id (clock s)"

definition hooks_ok :: "('sig, 'k, 'a, 'id) chain_hooks \<Rightarrow> bool" where
  "hooks_ok K \<longleftrightarrow> (\<forall>f \<in> {perform_chain_maintenance K, clear_expired_proposals K, clear_expired_orders K, update_feeds_and_rates K}.
     \<forall>s s'. f s = Some s' \<longrightarrow> hook_keeps s s')"

lemma hooks_okD:
  assumes "hooks_ok K"
  shows "perform_chain_maintenance K s = Some s' \<Longrightarrow> hook_keeps s s'" "clear_expired_proposals K s = Some s' \<Longrightarrow> hook_keeps s s'"
    "clear_expired_orders K s = Some s' \<Longrightarrow> hook_keeps s s'" "update_feeds_and_rates K s = Some s' \<Longrightarrow> hook_keeps s s'"
  using assms by (auto simp: hooks_ok_def)

lemma hook_keeps_refl [simp]: "hook_keeps s s"
  by (simp add: hook_keeps_def)

lemma hook_keeps_trans: "hook_keeps s s1 \<Longrightarrow> hook_keeps s1 s2 \<Longrightarrow> hook_keeps s s2"
  by (simp add: hook_keeps_def)

lemma step_hook_keeps: "step_keeps s s' \<Longrightarrow> hook_keeps s s'"
  by (simp add: step_keeps_def hook_keeps_def)

lemma step_value: "step_keeps s s' \<Longrightarrow> db_wf (db s) \<Longrightarrow> chain_value a s' = chain_value a s"
  by (simp add: step_keeps_def)

lemma step_keeps_refl [simp]: "step_keeps s s"
  by (simp add: step_keeps_def)

lemma step_keeps_trans: "step_keeps s s1 \<Longrightarrow> step_keeps s1 s2 \<Longrightarrow> step_keeps s s2"
  by (simp add: step_keeps_def)

text \<open>A change of the object tables alone.\<close>

definition db_keeps :: "database \<Rightarrow> database \<Rightarrow> bool" where
  "db_keeps d d' \<longleftrightarrow> (db_wf d \<longrightarrow> db_wf d' \<and> (\<forall>a. gap a d' = gap a d)) \<and> head_block_time d' = head_block_time d"

lemma on_db_keeps: "on_db f s = Some s' \<Longrightarrow> (\<And>d'. f (db s) = Some d' \<Longrightarrow> db_keeps (db s) d') \<Longrightarrow> step_keeps s s'"
  by (auto simp: on_db_def step_keeps_def db_keeps_def chain_value_def)

lemma update_withdraw_permissions_keeps: "db_keeps d (update_withdraw_permissions d)"
proof (induction d rule: update_withdraw_permissions.induct)
  case (1 d)
  show ?case
  proof (cases "tbl_first_by wp_expiration (withdraw_permissions d)")
    case None
    then show ?thesis by (subst update_withdraw_permissions.simps) (simp add: db_keeps_def)
  next
    case (Some r)
    obtain i p where r: "r = (i, p)" by (cases r)
    show ?thesis
    proof (cases "wp_expiration p \<le> head_block_time d")
      case True
      have "update_withdraw_permissions d = update_withdraw_permissions (d\<lparr>withdraw_permissions := tbl_remove i (withdraw_permissions d)\<rparr>)"
        using Some r True by (subst update_withdraw_permissions.simps) simp
      then show ?thesis
        using 1 [OF Some r [symmetric] True] by (auto simp: db_keeps_def db_wf_upd db_wf_tables tbl_wf_ops gap_upd)
    next
      case False
      then show ?thesis using Some r by (subst update_withdraw_permissions.simps) (simp add: db_keeps_def)
    qed
  qed
qed

lemma allocate_rows_keys: "allocate_rows L t rs = Some ps \<Longrightarrow> map fst ps = map fst rs"
  by (induction L t rs arbitrary: ps rule: allocate_rows.induct) (auto simp: opt_bind)

lemma update_limits_keeps: "db_keeps d (update_limits m d)"
proof (induction m d rule: update_limits.induct)
  case (2 smb c m d)
  then show ?case by (auto simp: db_keeps_def db_wf_upd db_wf_tables tbl_wf_ops gap_upd split: option.splits)
qed (simp add: db_keeps_def)

lemma update_smooth_allocation_keeps:
  assumes "update_smooth_allocation L d = Some d'"
  shows "db_keeps d d'"
proof (cases "list_ex (\<lambda>r. find_asset_by_symbol d (limit_symbol (snd r)) = None) (rows (asset_limitations d))")
  case True
  then show ?thesis using assms by (simp add: update_smooth_allocation_def db_keeps_def)
next
  case False
  then obtain ps where ps: "allocate_rows L (head_block_time d) (rows (properties d)) = Some ps"
    using assms by (auto simp: update_smooth_allocation_def opt_bind)
  let ?d = "d\<lparr>properties := (properties d)\<lparr>rows := ps\<rparr>\<rparr>"
  have keys: "map fst ps = map fst (rows (properties d))" by (rule allocate_rows_keys [OF ps])
  then have "fst ` set ps = fst ` set (rows (properties d))" by (metis list.set_map)
  then have "tbl_wf (properties d) \<Longrightarrow> tbl_wf ((properties d)\<lparr>rows := ps\<rparr>)"
    using keys unfolding tbl_wf_def by (simp, metis image_iff fst_conv)
  then have k: "db_keeps d ?d" by (simp add: db_keeps_def db_wf_upd db_wf_tables gap_upd)
  have "d' = ?d \<or> (\<exists>m. d' = update_limits m ?d)"
    using assms False ps by (auto simp: update_smooth_allocation_def Let_def split: sum.splits bool.splits)
  then show ?thesis using k update_limits_keeps [of ?d] by (auto simp: db_keeps_def)
qed

lemma mark_missed_keeps: "mark_missed c i n d = Some d' \<Longrightarrow> db_keeps d d'"
proof (induction n arbitrary: i d)
  case (Suc n)
  then obtain w where "mark_missed c (i + 1) n (d\<lparr>witnesses := tbl_modify w (\<lambda>w. w\<lparr>total_missed := total_missed w + 1\<rparr>) (witnesses d)\<rparr>) = Some d'"
    by (auto simp: opt_bind)
  from Suc.IH [OF this] show ?case by (auto simp: db_keeps_def db_wf_upd db_wf_tables tbl_wf_ops gap_upd)
qed (simp add: db_keeps_def)

lemma missed_blocks_keeps: "update_witness_missed_blocks L c t d = Some (n, d') \<Longrightarrow> db_keeps d d'"
  by (auto simp: update_witness_missed_blocks_def Let_def opt_bind db_keeps_def split: if_splits dest: mark_missed_keeps [unfolded db_keeps_def])

lemma deposit_witness_pay_time: "deposit_witness_pay L w x d = Some d' \<Longrightarrow> head_block_time d' = head_block_time d"
  by (auto simp: deposit_witness_pay_def deposit_lazy_vesting_def opt_bind Let_def case_prod_unfold split: if_splits option.splits)

context fc_safe
begin

lemma signing_witness_keeps:
  assumes "update_signing_witness L w b (clock s) (db s) = Some (c, d)"
  shows "step_keeps s (s\<lparr>db := d, clock := c\<rparr>)"
proof -
  define pay where "pay = min (witness_pay_per_block (clock s)) (witness_budget (clock s))"
  obtain d1 f where c: "c = (clock s)\<lparr>witness_budget := witness_budget (clock s) - pay\<rparr>"
    and d1: "deposit_witness_pay L w pay (db s) = Some d1" and d: "d = d1\<lparr>witnesses := tbl_modify w f (witnesses d1)\<rparr>"
    using assms by (auto simp: update_signing_witness_def Let_def opt_bind safe_Some pay_def)
  have "db_wf d \<and> gap a d = gap a (db s) + (if a = 0 then pay else 0)" if "db_wf (db s)" for a
    using deposit_witness_pay_effect [OF that d1] by (simp add: d db_wf_upd db_wf_tables tbl_wf_ops gap_upd)
  then show ?thesis using deposit_witness_pay_time [OF d1] by (auto simp: step_keeps_def chain_value_def c d)
qed

end

lemma maintenance_flag_keeps: "head_block_number (update_maintenance_flag m c) = head_block_number c"
  "head_block_id (update_maintenance_flag m c) = head_block_id c" "witness_budget (update_maintenance_flag m c) = witness_budget c"
  by (simp_all add: update_maintenance_flag_def)

lemma witness_schedule_keeps:
  "update_witness_schedule c d = Some c' \<Longrightarrow>
   head_block_number c' = head_block_number c \<and> head_block_id c' = head_block_id c \<and> witness_budget c' = witness_budget c"
  by (auto simp: update_witness_schedule_def split: if_splits)

lemma irreversible_keeps:
  "update_last_irreversible_block c d = Some c' \<Longrightarrow>
   head_block_number c' = head_block_number c \<and> head_block_id c' = head_block_id c \<and> witness_budget c' = witness_budget c"
  by (auto simp: update_last_irreversible_block_def opt_bind Let_def)

lemma clock_keeps:
  assumes "head_block_number c = head_block_number (clock s)" "head_block_id c = head_block_id (clock s)" "witness_budget c = witness_budget (clock s)"
  shows "step_keeps s (s\<lparr>clock := c\<rparr>)"
  using assms by (simp add: step_keeps_def chain_value_def)

lemma block_summary_keeps: "create_block_summary B b s = Some s' \<Longrightarrow> step_keeps s s'"
  by (auto simp: create_block_summary_def Let_def opt_bind step_keeps_def chain_value_def)

context fc_safe
begin

lemma clear_expired_htlcs_time: "clear_expired_htlcs L d = Some d' \<Longrightarrow> head_block_time d' = head_block_time d"
proof (induction L d arbitrary: d' rule: clear_expired_htlcs.induct)
  case (1 L d)
  note ih = 1(1) and run = 1(2) [unfolded clear_expired_htlcs.simps [of L d]]
  show ?case
  proof (cases "tbl_first_by htlc_expiration (htlcs d)")
    case (Some r)
    obtain i h where r: "r = (i, h)" by (cases r)
    show ?thesis
    proof (cases "htlc_expiration h \<le> head_block_time d")
      case True
      then obtain d1 where d1: "adjust_balance L (htlc_from h) (mk_asset (htlc_amount h) (htlc_asset_id h)) d = Some d1"
        "clear_expired_htlcs L (d1\<lparr>htlcs := tbl_remove i (htlcs d1)\<rparr>) = Some d'"
        using run Some r by (auto simp: opt_bind)
      from ih [OF Some r [symmetric] True d1] adjust_balance_keeps(11) [OF d1(1)] show ?thesis by simp
    qed (use run Some r in simp)
  qed (use run in simp)
qed

lemma clear_expired_htlcs_keeps: "clear_expired_htlcs L d = Some d' \<Longrightarrow> db_keeps d d'"
  using clear_expired_effect clear_expired_htlcs_time by (simp add: db_keeps_def)

text \<open>The steps after the transactions, with those of \<open>chain_hooks\<close> apart.\<close>

lemma end_block_trace:
  assumes run: "end_block L B K m b s = Some s'"
  obtains h0 sa sb sc sd se sf where
    "step_keeps s h0" "if m then perform_chain_maintenance K h0 = Some sa else sa = h0" "step_keeps sa sb"
    "clear_expired_proposals K (clear_expired_transactions sb) = Some sc" "clear_expired_orders K sc = Some sd"
    "step_keeps sd se" "update_feeds_and_rates K se = Some sf" "step_keeps sf s'"
    "hook_log L B K m b s = Some ((if m then [(h0, sa)] else []) @ [(clear_expired_transactions sb, sc), (sc, sd), (se, sf)])"
proof -
  obtain c d c2 sa sb sc sd se sf sg c3 where
    a: "update_signing_witness L (blk_witness b) b (clock s) (db s) = Some (c, d)" "update_last_irreversible_block c d = Some c2"
    and m: "(if m then perform_chain_maintenance K (s\<lparr>db := d, clock := c2\<rparr>) else Some (s\<lparr>db := d, clock := c2\<rparr>)) = Some sa"
    and sb: "create_block_summary B b sa = Some sb" and sc: "clear_expired_proposals K (clear_expired_transactions sb) = Some sc"
    and sd: "clear_expired_orders K sc = Some sd" and se: "on_db (clear_expired_htlcs L) sd = Some se"
    and sf: "update_feeds_and_rates K se = Some sf"
    and sg: "on_db (\<lambda>d. update_smooth_allocation L (update_withdraw_permissions d)) sf = Some sg"
    and c3: "update_witness_schedule (update_maintenance_flag m (clock sg)) (db sg) = Some c3" and s': "s' = sg\<lparr>clock := c3\<rparr>"
    using run unfolding end_block_def opt_bind Let_def by (auto simp: opt_bind)
  have k1: "step_keeps s (s\<lparr>db := d, clock := c2\<rparr>)"
    using step_keeps_trans [OF signing_witness_keeps [OF a(1)] clock_keeps [of c2 "s\<lparr>db := d, clock := c\<rparr>"]] irreversible_keeps [OF a(2)] by simp
  have "step_keeps sd se" using on_db_keeps [OF se] clear_expired_htlcs_keeps by blast
  moreover have "step_keeps sf sg"
    using on_db_keeps [OF sg] update_withdraw_permissions_keeps [of "db sf"] update_smooth_allocation_keeps [of L "update_withdraw_permissions (db sf)"]
    by (auto simp: db_keeps_def)
  moreover have "step_keeps sg s'" using clock_keeps [of c3 sg] witness_schedule_keeps [OF c3] by (simp add: s' maintenance_flag_keeps)
  moreover have "if m then perform_chain_maintenance K (s\<lparr>db := d, clock := c2\<rparr>) = Some sa else sa = s\<lparr>db := d, clock := c2\<rparr>"
    using m by (cases m) simp_all
  moreover have "hook_log L B K m b s = Some ((if m then [(s\<lparr>db := d, clock := c2\<rparr>, sa)] else []) @
      [(clear_expired_transactions sb, sc), (sc, sd), (se, sf)])"
    using a m sb sc sd se sf by (simp add: hook_log_def Let_def)
  ultimately show ?thesis using that [OF k1 _ block_summary_keeps [OF sb] sc sd _ sf] step_keeps_trans by blast
qed

lemma end_block_steps:
  assumes hooks: "hooks_ok K" and run: "end_block L B K m b s = Some s'"
  obtains s1 where "hook_keeps s s1" "hook_keeps (clear_expired_transactions s1) s'"
proof (rule end_block_trace [OF run])
  fix h0 sa sb sc sd se sf
  assume k: "step_keeps s h0" "step_keeps sa sb" "step_keeps sd se" "step_keeps sf s'"
    and m: "if m then perform_chain_maintenance K h0 = Some sa else sa = h0"
    and c: "clear_expired_proposals K (clear_expired_transactions sb) = Some sc" "clear_expired_orders K sc = Some sd"
      "update_feeds_and_rates K se = Some sf"
  note h = hooks_okD [OF hooks]
  have "hook_keeps h0 sa" using m h(1) by (cases m) auto
  then have "hook_keeps s sb" using k(1,2) [THEN step_hook_keeps] hook_keeps_trans by blast
  moreover have "hook_keeps (clear_expired_transactions sb) s'"
    using h(2) [OF c(1)] h(3) [OF c(2)] h(4) [OF c(3)] k(3,4) [THEN step_hook_keeps] hook_keeps_trans by blast
  ultimately show ?thesis by (rule that)
qed

lemma begin_block_effect:
  assumes wf: "db_wf (db s)" and run: "begin_block L T B cp skip b s = Some (s1, n)"
  obtains s0 where "apply_transactions L T skip (map trx_of (transactions b)) (s\<lparr>db := (db s)\<lparr>issue_453_affected_assets := []\<rparr>\<rparr>) = Some s0"
    "trx_history s1 = trx_history s0" "db_wf (db s1)" "\<forall>a. chain_value a s1 = chain_value a s"
    "head_block_id (clock s) = previous b" "head_block_time (db s) < timestamp b" "head_block_time (db s1) = timestamp b"
    "head_block_number (clock s1) = uint (block_num b)" "head_block_id (clock s1) = fst (blk_id (sha224 B) b)"
proof -
  let ?s = "s\<lparr>db := (db s)\<lparr>issue_453_affected_assets := []\<rparr>\<rparr>"
  obtain wit s0 missed d2 c3 d3 where
    v: "validate_block_header L (bit skip skip_witness_schedule_check) b (clock s) (db s) = Some wit"
    and s0: "apply_transactions L T skip (map trx_of (transactions b)) ?s = Some s0"
    and d2: "update_witness_missed_blocks L (clock s0) (timestamp b) (db s0) = Some (missed, d2)"
    and d3: "update_global_dynamic_data (sha224 B) (bit skip skip_undo_history_check) cp b missed (clock s0) d2 = Some (c3, d3, n)"
    and s1: "s1 = s0\<lparr>db := d3, clock := c3\<rparr>"
    using run unfolding begin_block_def opt_bind by (auto simp: opt_bind; blast)
  have wfs: "db_wf (db ?s)" using wf by (simp add: db_wf_upd)
  note t = apply_transactions_ledger [OF wfs s0]
  have c3: "c3 = (clock s0)\<lparr>recently_missed_count := recently_missed_count c3, head_block_number := uint (block_num b),
      head_block_id := fst (blk_id (sha224 B) b), current_witness := blk_witness b, recent_slots_filled := recent_slots_filled c3,
      current_aslot := current_aslot c3\<rparr>" and dd: "d3 = d2\<lparr>head_block_time := timestamp b\<rparr>"
    using d3 by (auto simp: update_global_dynamic_data_def Let_def opt_bind)
  have hd: "head_block_number c3 = uint (block_num b)" "head_block_id c3 = fst (blk_id (sha224 B) b)" "witness_budget c3 = witness_budget (clock s0)"
    by (subst c3, simp)+
  note k = missed_blocks_keeps [OF d2, unfolded db_keeps_def]
  have wf3: "db_wf d3" using k t by (simp add: dd head_block_time_effect)
  have val: "chain_value a s1 = chain_value a s" for a
    using k t hd(3) by (simp add: chain_value_def s1 dd head_block_time_effect gap_upd)
  have hv: "head_block_id (clock s) = previous b" "head_block_time (db s) < timestamp b" using v by (auto simp: validate_block_header_def opt_bind)
  show ?thesis by (rule that [OF s0]) (use wf3 val hv hd in \<open>simp_all add: s1 dd\<close>)
qed

end

section \<open>Whole blocks\<close>

lemma apply_block_cases:
  assumes "apply_block L T B K cps skip b s = (n, Some s')"
  obtains cp sk s1 m where "begin_block L T B cp sk b s = Some (s1, m)" "n = Some m"
    "end_block L B K (next_maintenance_time (db s) \<le> timestamp b) b s1 = Some s'"
    "\<forall>c \<in> set cps. fst c < uint (block_num b) \<Longrightarrow> sk = skip"
proof -
  obtain cp sk where c: "apply_block_checked L T B K cp sk b s = (n, Some s')"
    "(\<forall>c \<in> set cps. fst c < uint (block_num b)) \<longrightarrow> sk = skip"
  proof (cases "cps \<noteq> [] \<and> snd (last cps) \<noteq> null_id")
    case True
    let ?sk = "if fst (last cps) \<ge> uint (block_num b) then NOT 0 else skip"
    have "apply_block_checked L T B K (Some (fst (last cps))) ?sk b s = (n, Some s')"
      using assms True by (auto simp: apply_block_def Let_def split: if_splits option.splits)
    moreover have "(\<forall>c \<in> set cps. fst c < uint (block_num b)) \<longrightarrow> ?sk = skip" using True last_in_set [of cps] by fastforce
    ultimately show ?thesis by (rule that)
  next
    case False
    then have "apply_block_checked L T B K (if cps = [] then None else Some (fst (last cps))) skip b s = (n, Some s')"
      using assms by (auto simp: apply_block_def Let_def)
    then show ?thesis by (rule that) simp
  qed
  obtain s1 m where "begin_block L T B cp sk b s = Some (s1, m)" "n = Some m"
      "end_block L B K (next_maintenance_time (db s) \<le> timestamp b) b s1 = Some s'"
    using c(1) by (auto simp: apply_block_checked_def split: option.splits prod.splits)
  then show ?thesis by (rule that) (use c(2) in blast)
qed

definition block_trxs :: "('sig, 'r, 'bs) chain_block \<Rightarrow> transaction list" where
  "block_trxs b = map (\<lambda>x. transaction.truncate (trx_of x)) (transactions b)"

text \<open>A run of blocks, each on top of the one before.\<close>

fun apply_chain ::
  "fc_lib \<Rightarrow> ('sig, 'k::linorder, 'a, 'id) trx_lib \<Rightarrow> ('sig, 'r, 'bs, 'h) block_lib \<Rightarrow> ('sig, 'k, 'a, 'id) chain_hooks \<Rightarrow>
     (uint32 \<times> block_id_type) list \<Rightarrow> 32 word \<Rightarrow> ('sig, 'r, 'bs) chain_block list \<Rightarrow> ('sig, 'k, 'a, 'id) chain_db \<Rightarrow>
     ('sig, 'k, 'a, 'id) chain_db option" where
  "apply_chain L T B K cps skip [] s = Some s"
| "apply_chain L T B K cps skip (b # bs) s = do { s1 \<leftarrow> snd (apply_block L T B K cps skip b s); apply_chain L T B K cps skip bs s1 }"

definition chain_trxs :: "('sig, 'r, 'bs) chain_block list \<Rightarrow> transaction list" where
  "chain_trxs bs = concat (map block_trxs bs)"

lemma clear_expired_keeps: "db (clear_expired_transactions s) = db s" "clock (clear_expired_transactions s) = clock s"
proof (induction s rule: clear_expired_transactions.induct)
  case (1 s)
  { case 1 then show ?case by (subst clear_expired_transactions.simps) (use "1.IH" in \<open>auto split: option.split\<close>) }
  { case 2 then show ?case by (subst clear_expired_transactions.simps) (use "1.IH" in \<open>auto split: option.split\<close>) }
qed

context fc_safe
begin

lemma end_block_effect:
  assumes "hooks_ok K" "end_block L B K m b s = Some s'"
  shows "db_wf (db s) \<Longrightarrow> db_wf (db s')" "head_block_time (db s') = head_block_time (db s)"
    "head_block_number (clock s') = head_block_number (clock s)" "head_block_id (clock s') = head_block_id (clock s)"
proof -
  obtain s1 where k: "hook_keeps s s1" "hook_keeps (clear_expired_transactions s1) s'" by (rule end_block_steps [OF assms])
  note k1 = k(1) [unfolded hook_keeps_def] and k2 = k(2) [unfolded hook_keeps_def clear_expired_keeps]
  show "db_wf (db s) \<Longrightarrow> db_wf (db s')" using k1 k2 by blast
  show "head_block_time (db s') = head_block_time (db s)" using k1 k2 by metis
  show "head_block_number (clock s') = head_block_number (clock s)" using k1 k2 by metis
  show "head_block_id (clock s') = head_block_id (clock s)" using k1 k2 by metis
qed

lemma apply_block_effect:
  assumes "hooks_ok K" "db_wf (db s)" "apply_block L T B K cps skip b s = (n, Some s')"
  shows "db_wf (db s') \<and> head_block_id (clock s) = previous b \<and>
    head_block_id (clock s') = fst (blk_id (sha224 B) b) \<and> head_block_number (clock s') = uint (block_num b) \<and>
    head_block_time (db s) < timestamp b \<and> head_block_time (db s') = timestamp b"
proof (rule apply_block_cases [OF assms(3)])
  fix cp sk s1 m
  assume b: "begin_block L T B cp sk b s = Some (s1, m)" and e: "end_block L B K (next_maintenance_time (db s) \<le> timestamp b) b s1 = Some s'"
  show ?thesis by (rule begin_block_effect [OF assms(2) b]) (use end_block_effect [OF assms(1) e] in simp)
qed

end

text \<open>What a recorded step does to the value of the chain.\<close>

definition hook_change :: "asset_id_type \<Rightarrow> ('sig, 'k, 'a, 'id) chain_db \<times> ('sig, 'k, 'a, 'id) chain_db \<Rightarrow> int" where
  "hook_change a h = chain_value a (snd h) - chain_value a (fst h)"

lemma hook_log_runs:
  "hook_log L B K m b s = Some hs \<Longrightarrow> list_all2 (\<lambda>f h. f (fst h) = Some (snd h))
     ((if m then [perform_chain_maintenance K] else []) @ [clear_expired_proposals K, clear_expired_orders K, update_feeds_and_rates K]) hs"
  by (cases m) (auto simp: hook_log_def opt_bind Let_def)

context fc_safe
begin

lemma end_block_value:
  assumes hooks: "hooks_ok K" and run: "end_block L B K m b s = Some s'" and wf: "db_wf (db s)"
  shows "\<exists>hs. hook_log L B K m b s = Some hs \<and> (\<forall>a. chain_value a s' = chain_value a s + (\<Sum>h \<leftarrow> hs. hook_change a h))"
proof (rule end_block_trace [OF run])
  fix h0 sa sb sc sd se sf
  assume k: "step_keeps s h0" "step_keeps sa sb" "step_keeps sd se" "step_keeps sf s'"
    and m: "if m then perform_chain_maintenance K h0 = Some sa else sa = h0"
    and c: "clear_expired_proposals K (clear_expired_transactions sb) = Some sc" "clear_expired_orders K sc = Some sd"
      "update_feeds_and_rates K se = Some sf"
  note h = hooks_okD [OF hooks]
  have wf0: "db_wf (db h0)" using k(1) wf by (simp add: step_keeps_def)
  have "hook_keeps h0 sa" using m h(1) by (cases m) auto
  then have wfa: "db_wf (db sa)" using wf0 by (simp add: hook_keeps_def)
  then have wfb: "db_wf (db sb)" using k(2) by (simp add: step_keeps_def)
  then have "db_wf (db sc)" using h(2) [OF c(1)] by (simp add: hook_keeps_def clear_expired_keeps)
  then have wfd: "db_wf (db sd)" using h(3) [OF c(2)] by (simp add: hook_keeps_def)
  then have "db_wf (db se)" using k(3) by (simp add: step_keeps_def)
  then have wff: "db_wf (db sf)" using h(4) [OF c(3)] by (simp add: hook_keeps_def)
  let ?hs = "(if m then [(h0, sa)] else []) @ [(clear_expired_transactions sb, sc), (sc, sd), (se, sf)]"
  assume log: "hook_log L B K m b s = Some ?hs"
  have "chain_value a s' = chain_value a s + (\<Sum>h \<leftarrow> ?hs. hook_change a h)" for a
  proof -
    have "chain_value a (clear_expired_transactions sb) = chain_value a sb" by (simp add: chain_value_def clear_expired_keeps)
    then show ?thesis
      using step_value [OF k(1) wf] step_value [OF k(2) wfa] step_value [OF k(3) wfd] step_value [OF k(4) wff] m
      by (simp add: hook_change_def)
  qed
  with log show ?thesis by blast
qed

lemma apply_block_value:
  assumes "hooks_ok K" "db_wf (db s)" "apply_block L T B K cps skip b s = (n, Some s')"
  shows "\<exists>cp sk s1 m hs. begin_block L T B cp sk b s = Some (s1, m) \<and> hook_log L B K (next_maintenance_time (db s) \<le> timestamp b) b s1 = Some hs \<and>
    (\<forall>a. chain_value a s' = chain_value a s + (\<Sum>h \<leftarrow> hs. hook_change a h))"
proof (rule apply_block_cases [OF assms(3)])
  fix cp sk s1 m
  assume b: "begin_block L T B cp sk b s = Some (s1, m)" and e: "end_block L B K (next_maintenance_time (db s) \<le> timestamp b) b s1 = Some s'"
  have v: "db_wf (db s1)" "chain_value a s1 = chain_value a s" for a by (rule begin_block_effect [OF assms(2) b]; simp)+
  then show ?thesis using b end_block_value [OF assms(1) e v(1)] by auto
qed

text \<open>A block neither repeats a transaction nor forgets one that could be repeated.\<close>

lemma apply_block_fresh:
  assumes hooks: "hooks_ok K" and wf: "db_wf (db s)" and rem: "remembers T X s"
    and skip: "\<not> bit skip skip_transaction_dupe_check" "\<forall>c \<in> set cps. fst c < uint (block_num b)" "block_num b \<noteq> 0"
    and apart: "ids_apart T (set (block_trxs b) \<union> X)" and run: "apply_block L T B K cps skip b s = (n, Some s')"
  shows "distinct (map (id_of T) (block_trxs b)) \<and> id_of T ` set (block_trxs b) \<inter> id_of T ` X = {} \<and>
    remembers T (set (block_trxs b) \<union> X) s'"
proof (rule apply_block_cases [OF run])
  fix cp sk s1 m
  assume b: "begin_block L T B cp sk b s = Some (s1, m)" and e: "end_block L B K (next_maintenance_time (db s) \<le> timestamp b) b s1 = Some s'"
    and sk: "\<forall>c \<in> set cps. fst c < uint (block_num b) \<Longrightarrow> sk = skip"
  let ?s = "s\<lparr>db := (db s)\<lparr>issue_453_affected_assets := []\<rparr>\<rparr>" and ?X = "set (block_trxs b) \<union> X"
  obtain s0 where s0: "apply_transactions L T skip (map trx_of (transactions b)) ?s = Some s0" "trx_history s1 = trx_history s0"
    and s1: "head_block_time (db s) < timestamp b" "head_block_time (db s1) = timestamp b" "head_block_number (clock s1) = uint (block_num b)"
    using begin_block_effect [OF wf b] sk [OF skip(2)] by metis
  obtain s2 where s2: "hook_keeps s1 s2" "hook_keeps (clear_expired_transactions s2) s'" using end_block_steps [OF hooks e] .
  have wf': "db_wf (db ?s)" using wf by (simp add: db_wf_upd)
  have rem': "remembers T X ?s" using rem by (simp add: remembers_def)
  have "block_trxs b = map transaction.truncate (map trx_of (transactions b))" by (simp add: block_trxs_def)
  note f = apply_transactions_fresh [OF wf' rem' skip(1) this apart s0(1)]
  have t0: "head_block_time (db s0) = head_block_time (db s)" using apply_transactions_ledger [OF wf' s0(1)] by simp
  have h: "trx_history s2 = trx_history s0" "head_block_time (db s2) = timestamp b" using s2(1) s0(2) s1(2) by (simp_all add: hook_keeps_def)
  have wf2: "tbl_wf (trx_history s2)" using f h(1) by (simp add: remembers_def)
  note c = clear_expired_transactions_effect [OF wf2 refl]
  have pos: "0 < uint (block_num b)" using skip(3) by (simp add: order_less_le uint_0_iff)
  have h': "trx_history s' = trx_history (clear_expired_transactions s2)" "head_block_time (db s') = timestamp b"
    "0 < head_block_number (clock s')"
    using s2 [unfolded hook_keeps_def clear_expired_keeps] s1(3) h(2) pos by simp_all
  have rem2: "remembers T ?X s'"
    unfolding remembers_def h'(1)
  proof (intro conjI ballI)
    show "tbl_wf (trx_history (clear_expired_transactions s2))" using c by blast
    fix x
    assume x: "x \<in> ?X"
    let ?in = "\<lambda>t. \<exists>k h. tbl_get k t = Some h \<and> trx_id h = id_of T x \<and> trx_expiration (history_trx h) = trx_expiration x"
    have "remembers T ?X s0" using f by blast
    then have "?in (trx_history s0) \<or> 0 < head_block_number (clock s0) \<and> trx_expiration x < head_block_time (db s0)"
      using x unfolding remembers_def by blast
    then have "?in (trx_history s2) \<or> trx_expiration x < timestamp b" using s1(1) unfolding t0 h(1) by (meson order.strict_trans)
    then have "?in (trx_history (clear_expired_transactions s2)) \<or> trx_expiration x < timestamp b"
      using c unfolding h(2) by metis
    then show "?in (trx_history (clear_expired_transactions s2)) \<or> 0 < head_block_number (clock s') \<and> trx_expiration x < head_block_time (db s')"
      unfolding h'(2) using h'(3) by blast
  qed
  show ?thesis by (intro conjI rem2 f [THEN conjunct1] f [THEN conjunct2, THEN conjunct1])
qed

lemma apply_chain_fresh:
  "hooks_ok K \<Longrightarrow> db_wf (db s) \<Longrightarrow> remembers T X s \<Longrightarrow> \<not> bit skip skip_transaction_dupe_check \<Longrightarrow>
   \<forall>b \<in> set bs. block_num b \<noteq> 0 \<and> (\<forall>c \<in> set cps. fst c < uint (block_num b)) \<Longrightarrow>
   ids_apart T (set (chain_trxs bs) \<union> X) \<Longrightarrow> apply_chain L T B K cps skip bs s = Some s' \<Longrightarrow>
   distinct (map (id_of T) (chain_trxs bs)) \<and> id_of T ` set (chain_trxs bs) \<inter> id_of T ` X = {} \<and> remembers T (set (chain_trxs bs) \<union> X) s'"
proof (induction bs arbitrary: s X)
  case (Cons b bs)
  obtain n s1 where s1: "apply_block L T B K cps skip b s = (n, Some s1)" "apply_chain L T B K cps skip bs s1 = Some s'"
    using Cons.prems(7) by (cases "apply_block L T B K cps skip b s") (auto simp: opt_bind)
  have xs: "chain_trxs (b # bs) = block_trxs b @ chain_trxs bs" by (simp add: chain_trxs_def)
  have b: "\<forall>c \<in> set cps. fst c < uint (block_num b)" "block_num b \<noteq> 0"
    and bs: "\<forall>b \<in> set bs. block_num b \<noteq> 0 \<and> (\<forall>c \<in> set cps. fst c < uint (block_num b))" using Cons.prems(5) by auto
  have a: "ids_apart T (set (block_trxs b) \<union> X)" "ids_apart T (set (chain_trxs bs) \<union> (set (block_trxs b) \<union> X))"
    by (rule ids_apart_subset [OF Cons.prems(6)]; auto simp: xs)+
  note f = apply_block_fresh [OF Cons.prems(1-4) b a(1) s1(1)]
  have wf1: "db_wf (db s1)" using apply_block_effect [OF Cons.prems(1,2) s1(1)] by blast
  note g = Cons.IH [OF Cons.prems(1) wf1 f [THEN conjunct2, THEN conjunct2] Cons.prems(4) bs a(2) s1(2)]
  have u: "set (chain_trxs bs) \<union> (set (block_trxs b) \<union> X) = set (chain_trxs (b # bs)) \<union> X" by (auto simp: xs)
  have d: "id_of T ` set (chain_trxs bs) \<inter> (id_of T ` set (block_trxs b) \<union> id_of T ` X) = {}"
    using g [THEN conjunct2, THEN conjunct1] by (simp only: image_Un)
  have "distinct (map (id_of T) (chain_trxs (b # bs)))"
    unfolding xs map_append distinct_append set_map using f [THEN conjunct1] g [THEN conjunct1] d by blast
  moreover have "id_of T ` set (chain_trxs (b # bs)) \<inter> id_of T ` X = {}"
    unfolding xs set_append image_Un using f [THEN conjunct2, THEN conjunct1] d by blast
  moreover note g [THEN conjunct2, THEN conjunct2, unfolded u]
  ultimately show ?case by (intro conjI)
qed (simp add: chain_trxs_def)

end

section \<open>Properties\<close>

text \<open>
  (C4) No transaction is ever applied twice: however many blocks are applied one after the other, no two of their transactions have the
  same identifier, although the list of recent transactions forgets each of them as soon as it has expired.
\<close>

theorem no_replay:
  assumes "fc_safe L" "hooks_ok K" "db_wf (db s)" "tbl_wf (trx_history s)" "\<not> bit skip skip_transaction_dupe_check"
    and "\<forall>b \<in> set bs. block_num b \<noteq> 0 \<and> (\<forall>c \<in> set cps. fst c < uint (block_num b))"
    and "ids_apart T (set (chain_trxs bs))" "apply_chain L T B K cps skip bs s = Some s'"
  shows "distinct (map (id_of T) (chain_trxs bs))"
proof -
  have "remembers T {} s" using assms(4) by (simp add: remembers_def)
  from fc_safe.apply_chain_fresh [OF assms(1-3) this assms(5,6) _ assms(8)] assms(7) show ?thesis by simp
qed

text \<open>
  (C5) A block creates and loses no value on its own: its transactions with their fees, the pay of the witness out of the budget, the missed blocks,
  the refunds of expired contracts, the expired permissions and the allocation together change the value of the chain (what is held of an asset beyond its
  supply, with the budget for the witnesses) by nothing. The whole change of a block is what the maintenance, if the block
  needs one, the expired proposals, the expired orders and the feeds change at their place in it (\<open>hook_log\<close>), the four steps that are arguments here and of which
  nothing is assumed but that they keep the tables well-formed and the head block. And the block extends the head, strictly later than it.
\<close>

theorem apply_block_accounts:
  assumes "fc_safe L" "hooks_ok K" "db_wf (db s)" "apply_block L T B K cps skip b s = (n, Some s')"
  shows "db_wf (db s') \<and>
    (\<exists>cp sk s1 m hs. begin_block L T B cp sk b s = Some (s1, m) \<and> hook_log L B K (next_maintenance_time (db s) \<le> timestamp b) b s1 = Some hs \<and>
      (\<forall>a. chain_value a s' = chain_value a s + (\<Sum>h \<leftarrow> hs. hook_change a h))) \<and>
    head_block_id (clock s) = previous b \<and>
    head_block_id (clock s') = fst (blk_id (sha224 B) b) \<and> head_block_time (db s) < head_block_time (db s')"
  using fc_safe.apply_block_effect [OF assms] fc_safe.apply_block_value [OF assms] by simp

definition demo_trx_lib :: "(nat, nat, nat, transaction) trx_lib" where
  "demo_trx_lib = \<lparr>id_of = (\<lambda>t. t), recover_key = (\<lambda>t k. k), key_addresses = (\<lambda>_. []), pack_size = (\<lambda>_. 100), schedule_fee = (\<lambda>_. None),
     hashes = demo_hash\<rparr>"

definition demo_block_lib :: "(nat, unit, unit, nat) block_lib" where
  "demo_block_lib = \<lparr>sha224 = (\<lambda>h. [0, of_int (h_timestamp h), 0, 0, 0, 0, 0]),
     merkle = \<lparr>merkle_digest = (\<lambda>t. length (operations t)), hash_pair = (+), checksum = (\<lambda>h. replicate 5 (of_nat h + 1))\<rparr>,
     packed_block_size = (\<lambda>_. 500), signed_by = (\<lambda>_ _. True)\<rparr>"

definition demo_hooks :: "(nat, nat, nat, transaction) chain_hooks" where
  "demo_hooks = \<lparr>perform_chain_maintenance = Some, clear_expired_proposals = Some, clear_expired_orders = Some, update_feeds_and_rates = Some\<rparr>"

definition demo_transfer :: "share_type \<Rightarrow> (nat, unit) processed_transaction" where
  "demo_transfer x = \<lparr>ref_block_num = 9, ref_block_prefix = 5, trx_expiration = 1100,
     operations = [Transfer \<lparr>tr_fee = mk_asset 0 0, tr_from = 7, tr_to = 8, tr_amount = mk_asset x 0\<rparr>], signatures = [1], operation_results = [()]\<rparr>"

definition demo_chain :: "(nat, nat, nat, transaction) chain_db" where
  "demo_chain = \<lparr>db = demo_permits\<lparr>witnesses := \<lparr>rows = [demo_witness 4 8, demo_witness 7 5, demo_witness 9 6], next_instance = 10\<rparr>,
       next_maintenance_time := 5000\<rparr>,
     clock = demo_clock\<lparr>head_block_id := [endian_reverse 9, 5, 0, 0, 0], dynamic_flags := 0\<rparr>,
     trx_history = tbl_empty, block_summaries = \<lparr>rows = [(9, [endian_reverse 9, 5, 0, 0, 0]), (10, null_id), (11, null_id)], next_instance = 12\<rparr>,
     account_active = (\<lambda>i. if i = 7 then Some \<lparr>weight_threshold = 1, account_auths = [], key_auths = [(1, 1)], address_auths = []\<rparr> else None),
     account_owner = (\<lambda>i. None), maximum_time_until_expiration = 86400, max_authority_depth = 2, maximum_transaction_size = 2048,
     maximum_block_size = 2000000\<rparr>"

definition demo_chain_block :: "block_id_type \<Rightarrow> time_point_sec \<Rightarrow> nat \<Rightarrow> share_type \<Rightarrow> (nat, unit, unit) chain_block" where
  "demo_chain_block p t w x = \<lparr>previous = p, timestamp = t, blk_witness = w, transaction_merkle_root = replicate 5 2, witness_signature = (),
     transactions = [demo_transfer x], cached_id = null_id, cached_root = null_id\<rparr>"

abbreviation demo_block_10 :: "share_type \<Rightarrow> (nat, unit, unit) chain_block" where
  "demo_block_10 \<equiv> demo_chain_block [endian_reverse 9, 5, 0, 0, 0] 1005 7"

abbreviation demo_block_11 :: "share_type \<Rightarrow> (nat, unit, unit) chain_block" where
  "demo_block_11 \<equiv> demo_chain_block [endian_reverse 10, 1005, 0, 0, 0] 1010 4"

abbreviation demo_run :: "(nat, unit, unit) chain_block list \<Rightarrow> (nat, nat, nat, transaction) chain_db option" where
  "demo_run bs \<equiv> apply_chain checked_lib demo_trx_lib demo_block_lib demo_hooks [] 0 bs demo_chain"

lemma demo_hooks_ok: "hooks_ok demo_hooks"
  by (simp add: hooks_ok_def demo_hooks_def)

lemma demo_chain_wf: "db_wf (db demo_chain)" "tbl_wf (trx_history demo_chain)"
  using demo_permits_wf by (simp_all add: demo_chain_def db_wf_def assets_linked_def tbl_wf_def tbl_empty_def demo_witness_def)

theorem no_replay_witness:
  "demo_run [demo_block_10 5, demo_block_11 6] \<noteq> None \<and> demo_run [demo_block_10 5, demo_block_11 5] = None \<and>
   distinct (map (id_of demo_trx_lib) (chain_trxs [demo_block_10 5, demo_block_11 6]))"
proof -
  have run: "demo_run [demo_block_10 5, demo_block_11 6] \<noteq> None" "demo_run [demo_block_10 5, demo_block_11 5] = None" by code_simp+
  have num: "block_num (demo_block_10 5) = 10" "block_num (demo_block_11 6) = 11" by code_simp+
  obtain s' where s': "demo_run [demo_block_10 5, demo_block_11 6] = Some s'" using run(1) by blast
  have "distinct (map (id_of demo_trx_lib) (chain_trxs [demo_block_10 5, demo_block_11 6]))"
    by (rule no_replay [OF checked_lib_safe demo_hooks_ok demo_chain_wf _ _ _ s']) (simp_all add: num ids_apart_def demo_trx_lib_def)
  with run show ?thesis by blast
qed

text \<open>A step that changes the value of the chain: it puts seven units into the budget. It is all that the block changes.\<close>

definition demo_grant_hooks :: "(nat, nat, nat, transaction) chain_hooks" where
  "demo_grant_hooks = demo_hooks\<lparr>clear_expired_orders := (\<lambda>s. Some (s\<lparr>clock := (clock s)\<lparr>witness_budget := witness_budget (clock s) + 7\<rparr>\<rparr>))\<rparr>"

lemma demo_grant_hooks_ok: "hooks_ok demo_grant_hooks"
  by (simp add: hooks_ok_def demo_grant_hooks_def demo_hooks_def hook_keeps_def)

theorem apply_block_accounts_witness:
  "\<exists>n s'. apply_block checked_lib demo_trx_lib demo_block_lib demo_grant_hooks [] 0 (demo_block_10 5) demo_chain = (n, Some s') \<and>
     chain_value 0 s' = chain_value 0 demo_chain + 7 \<and> witness_budget (clock s') = 477"
proof -
  define r where "r = apply_block checked_lib demo_trx_lib demo_block_lib demo_grant_hooks [] 0 (demo_block_10 5) demo_chain"
  have "map_option (\<lambda>s. witness_budget (clock s)) (snd r) = Some 477" unfolding r_def by code_simp
  then obtain s' where s': "snd r = Some s'" "witness_budget (clock s') = 477" by (auto simp: map_option_eq_Some)
  have run: "apply_block checked_lib demo_trx_lib demo_block_lib demo_grant_hooks [] 0 (demo_block_10 5) demo_chain = (fst r, Some s')"
    using s'(1) by (simp add: r_def [symmetric] prod_eq_iff)
  have nm: "\<not> next_maintenance_time (db demo_chain) \<le> timestamp (demo_block_10 5)" by (simp add: demo_chain_def demo_chain_block_def)
  obtain s1 hs where hs: "hook_log checked_lib demo_block_lib demo_grant_hooks False (demo_block_10 5) s1 = Some hs" "chain_value 0 s' = chain_value 0 demo_chain + (\<Sum>h \<leftarrow> hs. hook_change 0 h)"
    using apply_block_accounts [OF checked_lib_safe demo_grant_hooks_ok demo_chain_wf(1) run] nm by auto
  have "(\<Sum>h \<leftarrow> hs. hook_change 0 h) = 7"
    using hook_log_runs [OF hs(1)] by (auto simp: demo_grant_hooks_def demo_hooks_def hook_change_def chain_value_def list_all2_Cons1)
  then show ?thesis using run s'(2) hs(2) by auto
qed

end
