(* ===== verification/Chain_Switch.thy ===== *)
theory Chain_Switch
  imports Block_Apply Fork_Database
begin

text \<open>
  Pushing a block (\<^verbatim>\<open>database::_push_block\<close> and \<^verbatim>\<open>pop_block\<close> in \<^verbatim>\<open>db_block.cpp\<close>): the new block enters the fork database; when it extends the
  head it is applied, when it makes another branch the longest the node switches to it, and when a block of that branch fails the
  node goes back. The undo history is the stack of the states before each applied block, the newest first, which is what \<open>Undo_Database\<close> shows of the
  sessions of the source. The application of a block is an argument, \<open>app\<close>, with the laws of \<open>block_application\<close>; \<open>apply_block\<close> satisfies
  them. The block log on disk and the queue of pending transactions are left out.
\<close>

section \<open>The node\<close>

record ('t, 'b, 's) chain_node =
  fork_db :: "('t, 'b) fork_database"
  chain :: 's
  undo_stack :: "'s list"
  undo_max_size :: nat
  popped_tx :: "'t list"

text \<open>How a push ends: with the value that is returned, with an exception after the node has gone back, or, \<open>Stuck\<close>, with an exception that
  escapes on the way, out of \<^verbatim>\<open>pop_block\<close> or out of the second application of the old branch. Each has the node that is left.\<close>

datatype 'n push_result = Pushed bool 'n | Rejected 'n | Stuck 'n

text \<open>\<^verbatim>\<open>start_undo_session\<close>, \<^verbatim>\<open>apply_block\<close> and \<^verbatim>\<open>commit\<close>, or the destructor of the session; the application may set the size of the
  histories before it fails.\<close>

definition apply_in_session ::
  "(('t, 'b) signed_block \<Rightarrow> 's \<Rightarrow> uint32 option \<times> 's option) \<Rightarrow> ('t, 'b) signed_block \<Rightarrow> ('t, 'b, 's) chain_node \<Rightarrow> bool \<times> ('t, 'b, 's) chain_node" where
  "apply_in_session app b n =
     (let st = take (undo_max_size n) (undo_stack n); (z, r) = app b (chain n);
          n1 = (case z of None \<Rightarrow> n
            | Some k \<Rightarrow> n\<lparr>undo_max_size := nat k, fork_db := fdb_set_max_size (of_int k) (fork_db n)\<rparr>)\<lparr>undo_stack := st\<rparr>
      in case r of None \<Rightarrow> (False, n1) | Some s' \<Rightarrow> (True, n1\<lparr>chain := s', undo_stack := chain n # st\<rparr>))"

text \<open>\<^verbatim>\<open>pop_block\<close>: \<open>Inl\<close> is the node that an exception leaves, with the fork database already popped when the undo history is empty.\<close>

definition node_pop_block ::
  "('s \<Rightarrow> block_id_type) \<Rightarrow> nat list \<Rightarrow> ('t, 'b, 's) chain_node \<Rightarrow> ('t, 'b, 's) chain_node + ('t, 'b, 's) chain_node" where
  "node_pop_block head_id owned n =
     (case fdb_head (fork_db n) of None \<Rightarrow> Inl n
      | Some h \<Rightarrow>
          (case (if fi_id (fitem (fork_db n) h) = head_id (chain n)
               then (case fdb_pop_block (h # owned) (fork_db n) of Inl e \<Rightarrow> None | Inr f \<Rightarrow> Some (h, f))
               else map_option (\<lambda>a. (a, fork_db n)) (find_block (fork_db n) (head_id (chain n)))) of
             None \<Rightarrow> Inl n
           | Some (a, f) \<Rightarrow>
               (case undo_stack n of [] \<Rightarrow> Inl (n\<lparr>fork_db := f\<rparr>)
                | s # st \<Rightarrow> Inr (n\<lparr>fork_db := f, chain := s, undo_stack := st,
                    popped_tx := transactions (fi_data (fitem (fork_db n) a)) @ popped_tx n\<rparr>))))"

lemma node_pop_block_states: "node_pop_block head_id owned n = Inr n' \<Longrightarrow> undo_stack n = chain n' # undo_stack n'"
  by (cases "undo_stack n") (auto simp: node_pop_block_def split: option.splits)

text \<open>A failing \<^verbatim>\<open>pop_block\<close> keeps the chain and its history.\<close>

lemma node_pop_block_fails: "node_pop_block head_id owned n = Inl n' \<Longrightarrow> chain n' = chain n \<and> undo_stack n' = undo_stack n"
  by (cases "undo_stack n") (auto simp: node_pop_block_def split: option.splits)

function pop_until ::
  "('s \<Rightarrow> block_id_type) \<Rightarrow> nat list \<Rightarrow> block_id_type \<Rightarrow> ('t, 'b, 's) chain_node \<Rightarrow> ('t, 'b, 's) chain_node + ('t, 'b, 's) chain_node" where
  "pop_until head_id owned target n =
     (if head_id (chain n) \<noteq> target
      then (case node_pop_block head_id owned n of Inl m \<Rightarrow> Inl m | Inr m \<Rightarrow> pop_until head_id owned target m)
      else Inr n)"
  by auto
termination by (relation "measure (\<lambda>(_, _, _, n). length (undo_stack n))") (auto dest: node_pop_block_states)

declare pop_until.simps [simp del]

text \<open>The items of a branch, the oldest first; the items from the first that fails on are returned.\<close>

fun push_branch ::
  "(('t, 'b) signed_block \<Rightarrow> 's \<Rightarrow> uint32 option \<times> 's option) \<Rightarrow> nat list \<Rightarrow> ('t, 'b, 's) chain_node \<Rightarrow> nat list \<times> ('t, 'b, 's) chain_node" where
  "push_branch app [] n = ([], n)"
| "push_branch app (a # as) n =
     (case apply_in_session app (fi_data (fitem (fork_db n) a)) n of (True, n1) \<Rightarrow> push_branch app as n1 | (False, n1) \<Rightarrow> (a # as, n1))"

definition remove_items :: "nat list \<Rightarrow> nat list \<Rightarrow> ('t, 'b) fork_database \<Rightarrow> ('t, 'b) fork_database" where
  "remove_items owned as f = fold (\<lambda>a f. fdb_remove owned (fi_id (fitem f a)) f) as f"

definition switch_fork ::
  "(('t, 'b) signed_block \<Rightarrow> 's \<Rightarrow> uint32 option \<times> 's option) \<Rightarrow> ('s \<Rightarrow> block_id_type) \<Rightarrow> nat list \<Rightarrow> nat list \<Rightarrow> nat list \<Rightarrow>
     ('t, 'b, 's) chain_node \<Rightarrow> ('t, 'b, 's) chain_node push_result" where
  "switch_fork app head_id owned new old n =
     (let target = prev_id (fork_db n) (last old)
      in case pop_until head_id owned target n of Inl m \<Rightarrow> Stuck m
      | Inr n1 \<Rightarrow> (case push_branch app (rev new) n1 of
          ([], n2) \<Rightarrow> Pushed True n2
        | (bad, n2) \<Rightarrow>
            (case pop_until head_id owned target
                (n2\<lparr>fork_db := fdb_set_head (Some (hd old)) (remove_items owned bad (fork_db n2))\<rparr>) of
               Inl m \<Rightarrow> Stuck m
             | Inr n3 \<Rightarrow> (case push_branch app (rev old) n3 of ([], n4) \<Rightarrow> Rejected n4 | (_, n4) \<Rightarrow> Stuck n4))))"

definition push_block ::
  "('b signed_header \<Rightarrow> 32 word list) \<Rightarrow> (('t, 'b) signed_block \<Rightarrow> 's \<Rightarrow> uint32 option \<times> 's option) \<Rightarrow> ('s \<Rightarrow> block_id_type) \<Rightarrow> ('s \<Rightarrow> uint32) \<Rightarrow>
     ('t, 'b) signed_block \<Rightarrow> ('t, 'b, 's) chain_node \<Rightarrow> ('t, 'b, 's) chain_node push_result" where
  "push_block sha app head_id head_num b n =
     (case fdb_push_block sha b (fork_db n) of
        Inl e \<Rightarrow> Rejected n
      | Inr (None, f) \<Rightarrow> Stuck (n\<lparr>fork_db := f\<rparr>)
      | Inr (Some h, f) \<Rightarrow>
          let n1 = n\<lparr>fork_db := f\<rparr>; new_head = fi_data (fitem f h)
          in if previous new_head \<noteq> head_id (chain n) then
            (if uint (block_num new_head) > head_num (chain n) then
               (case fetch_branch_from [h] (fst (blk_id sha new_head)) (head_id (chain n)) f of
                  None \<Rightarrow> Stuck n1
                | Some (Inl e) \<Rightarrow> Rejected n1
                | Some (Inr (new, old)) \<Rightarrow> switch_fork app head_id (h # new @ old) new old n1)
             else Pushed False n1)
          else
            (case apply_in_session app b n1 of
               (True, n2) \<Rightarrow> Pushed False n2
             | (False, n2) \<Rightarrow> Rejected (n2\<lparr>fork_db := fdb_remove [h] (fst (blk_id sha b)) (fork_db n2)\<rparr>)))"

section \<open>The contract of the application of a block\<close>

text \<open>A block is applied on top of the block it names, and becomes the head.\<close>

locale block_application =
  fixes sha :: "'b signed_header \<Rightarrow> 32 word list"
    and app :: "('t, 'b) signed_block \<Rightarrow> 's \<Rightarrow> uint32 option \<times> 's option"
    and head_id :: "'s \<Rightarrow> block_id_type"
  assumes app_head: "app b s = (z, Some s') \<Longrightarrow> head_id s = previous b \<and> head_id s' = fst (blk_id sha b)"

text \<open>The newest states \<open>ss\<close> come from each other by the blocks \<open>bs\<close>, newest first in both.\<close>

definition links :: "(('t, 'b) signed_block \<Rightarrow> 's \<Rightarrow> uint32 option \<times> 's option) \<Rightarrow> ('t, 'b) signed_block list \<Rightarrow> 's list \<Rightarrow> bool" where
  "links app bs ss \<longleftrightarrow> length bs < length ss \<and> (\<forall>i < length bs. snd (app (bs ! i) (ss ! Suc i)) = Some (ss ! i))"

definition states :: "('t, 'b, 's) chain_node \<Rightarrow> 's list" where
  "states n = chain n # undo_stack n"

lemma links_Cons [simp]: "links app (b # bs) (s # ss) \<longleftrightarrow> snd (app b (ss ! 0)) = Some s \<and> links app bs ss"
  by (cases ss) (auto simp: links_def less_Suc_eq_0_disj nth_Cons')

lemma links_Nil [simp]: "links app [] ss \<longleftrightarrow> ss \<noteq> []"
  by (simp add: links_def)

lemma links_snoc: "links app bs (ss @ [s]) \<Longrightarrow> length ss = length bs \<Longrightarrow> snd (app b s0) = Some s \<Longrightarrow> links app (bs @ [b]) (ss @ [s, s0])"
  by (auto simp: links_def nth_append less_Suc_eq) (drule spec, drule mp, erule Suc_lessD, simp)

lemma links_snocD:
  assumes "links app (bs @ [b]) (ss @ [s, s0])" "length ss = length bs"
  shows "links app bs (ss @ [s])" "snd (app b s0) = Some s"
proof -
  have step: "i < Suc (length bs) \<Longrightarrow> snd (app ((bs @ [b]) ! i) ((ss @ [s, s0]) ! Suc i)) = Some ((ss @ [s, s0]) ! i)" for i
    using assms by (simp add: links_def)
  show "snd (app b s0) = Some s" using step [of "length bs"] assms(2) by (simp add: nth_append)
  have "snd (app (bs ! i) ((ss @ [s]) ! Suc i)) = Some ((ss @ [s]) ! i)" if "i < length bs" for i
    using step [of i] that assms(2) by (cases "Suc i < length bs") (auto simp: nth_append less_Suc_eq)
  then show "links app bs (ss @ [s])" using assms(2) by (simp add: links_def)
qed

lemma links_drop: "links app bs S \<Longrightarrow> i \<le> length bs \<Longrightarrow> links app (drop i bs) (drop i S)"
  by (auto simp: links_def)

lemma links_prefix: "links app bs S \<Longrightarrow> S = ss @ s # r \<Longrightarrow> length ss = length bs \<Longrightarrow> links app bs (ss @ [s])"
  by (auto simp: links_def nth_append split: if_splits)

lemma links_determined:
  "links app bs (ss @ s # r) \<Longrightarrow> links app bs (ss' @ s # r') \<Longrightarrow> length ss = length bs \<Longrightarrow> length ss' = length bs \<Longrightarrow> ss = ss'"
proof (induction bs arbitrary: ss ss')
  case (Cons b bs)
  obtain x xs x' xs' where ss: "ss = x # xs" "ss' = x' # xs'" using Cons.prems(3,4) by (cases ss; cases ss') auto
  have "xs = xs'" using Cons.IH [of xs xs'] Cons.prems ss by simp
  then show ?case using Cons.prems(1,2) ss by (cases xs') auto
qed simp


lemma links_hd: "links app bs (ss @ [s]) \<Longrightarrow> length ss = length bs \<Longrightarrow> i < length ss \<Longrightarrow> \<exists>s1. snd (app (bs ! i) s1) = Some (ss ! i)"
  by (auto simp: links_def nth_append)

section \<open>What the steps do to the states\<close>

text \<open>No step makes an item or changes one.\<close>

lemma fork_items:
  "items (fdb_set_max_size k f) = items f" "items (fdb_remove owned i f) = items f" "items (fdb_set_head h f) = items f"
  "fdb_pop_block owned f = Inr f' \<Longrightarrow> items f' = items f"
  by (auto simp: fdb_set_max_size_def fdb_remove_def fdb_pop_block_def fdb_set_head_def Let_def split: option.splits)

lemma remove_items_items: "items (remove_items owned as f) = items f"
  by (induction as arbitrary: f) (simp_all add: remove_items_def fork_items)

lemma apply_in_session_effect:
  assumes "apply_in_session app b n = (ok, n')"
  shows "items (fork_db n') = items (fork_db n)"
    "ok \<Longrightarrow> snd (app b (chain n)) = Some (chain n') \<and> prefix (states n') (chain n' # states n)"
    "\<not> ok \<Longrightarrow> chain n' = chain n \<and> prefix (states n') (states n)"
  using assms
  by (auto simp: apply_in_session_def Let_def fork_items states_def take_is_prefix split: prod.splits option.splits)

lemma node_pop_block_effect:
  "node_pop_block head_id owned n = Inr n' \<Longrightarrow> states n = chain n # states n' \<and> items (fork_db n') = items (fork_db n)"
  by (cases "undo_stack n") (auto simp: node_pop_block_def states_def fork_items split: if_splits sum.splits option.splits)

lemma pop_until_effect:
  "pop_until head_id owned target n = Inr n' \<Longrightarrow>
   \<exists>k. k < length (states n) \<and> states n' = drop k (states n) \<and> head_id (states n ! k) = target \<and>
     (\<forall>i < k. head_id (states n ! i) \<noteq> target) \<and> items (fork_db n') = items (fork_db n)"
proof (induction head_id owned target n rule: pop_until.induct)
  case (1 head_id owned target n)
  show ?case
  proof (cases "head_id (chain n) = target")
    case True
    with 1(2) show ?thesis by (intro exI [of _ 0]) (simp add: pop_until.simps [of head_id] states_def)
  next
    case False
    with 1(2) obtain m where m: "node_pop_block head_id owned n = Inr m" "pop_until head_id owned target m = Inr n'"
      by (auto simp: pop_until.simps [of head_id owned target n] split: sum.splits)
    note e = node_pop_block_effect [OF m(1)]
    from 1(1) [OF False m(1) m(2)] obtain k where k: "k < length (states m)" "states n' = drop k (states m)" "head_id (states m ! k) = target"
      "\<forall>i < k. head_id (states m ! i) \<noteq> target" "items (fork_db n') = items (fork_db m)" by blast
    have "\<forall>i < Suc k. head_id (states n ! i) \<noteq> target" using False k(4) e by (auto simp: less_Suc_eq_0_disj)
    with k e show ?thesis by (intro exI [of _ "Suc k"]) auto
  qed
qed

text \<open>The loop fails only because \<^verbatim>\<open>pop_block\<close> does, at a state of the history.\<close>

lemma pop_until_fails:
  "pop_until head_id owned target n = Inl n' \<Longrightarrow> (\<exists>m. node_pop_block head_id owned m = Inl n') \<and> chain n' \<in> set (states n)"
proof (induction head_id owned target n rule: pop_until.induct)
  case (1 head_id owned target n)
  have ne: "head_id (chain n) \<noteq> target" using 1(2) by (auto simp: pop_until.simps [of head_id owned target n])
  show ?case
  proof (cases "node_pop_block head_id owned n")
    case (Inl m)
    then show ?thesis using 1(2) ne node_pop_block_fails [OF Inl] by (auto simp: pop_until.simps [of head_id owned target n] states_def)
  next
    case (Inr m)
    then have "pop_until head_id owned target m = Inl n'" using 1(2) ne by (simp add: pop_until.simps [of head_id owned target n])
    from 1(1) [OF ne Inr this] show ?thesis using node_pop_block_effect [OF Inr] by (auto simp: states_def)
  qed
qed

abbreviation item_data :: "('t, 'b) fork_database \<Rightarrow> nat \<Rightarrow> ('t, 'b) signed_block" where
  "item_data f a \<equiv> fi_data (fitem f a)"

lemma push_branch_effect:
  "push_branch app as n = (bad, n') \<Longrightarrow>
   \<exists>dn ss. as = dn @ bad \<and> length ss = length dn \<and> links app (rev (map (item_data (fork_db n)) dn)) (ss @ [chain n]) \<and>
     prefix (states n') (ss @ states n) \<and> items (fork_db n') = items (fork_db n)"
proof (induction app as n rule: push_branch.induct)
  case (2 app a as n)
  obtain ok m where m: "apply_in_session app (item_data (fork_db n) a) n = (ok, m)" by fastforce
  note e = apply_in_session_effect [OF m]
  show ?case
  proof (cases ok)
    case True
    then have "push_branch app as m = (bad, n')" using 2(2) m by simp
    from 2(1) [OF _ refl this] m True obtain dn ss where ih: "as = dn @ bad" "length ss = length dn"
      "links app (rev (map (item_data (fork_db m)) dn)) (ss @ [chain m])" "prefix (states n') (ss @ states m)"
      "items (fork_db n') = items (fork_db m)" by auto
    have l: "links app (rev (map (item_data (fork_db n)) (a # dn))) ((ss @ [chain m]) @ [chain n])"
      using links_snoc [OF ih(3), of "item_data (fork_db n) a" "chain n"] ih(2) e(1) e(2) [OF True] by simp
    have "prefix (states n') ((ss @ [chain m]) @ states n)"
      using ih(4) e(2) [OF True] by (metis append.assoc append_Cons append_Nil prefix_order.trans same_prefix_prefix)
    with l ih e(1) show ?thesis by (intro exI [of _ "a # dn"] exI [of _ "ss @ [chain m]"]) simp
  next
    case False
    then have "bad = a # as" "n' = m" using 2(2) m by auto
    with e(1) e(3) [OF False] show ?thesis by (intro exI [of _ "[]"]) simp
  qed
qed simp

text \<open>Blocks that have made the states \<open>ss\<close> before make them again.\<close>

lemma push_branch_again:
  "links app (rev (map (item_data (fork_db n)) as)) (ss @ [chain n]) \<Longrightarrow> length ss = length as \<Longrightarrow> \<exists>n'. push_branch app as n = ([], n')"
proof (induction as arbitrary: n ss)
  case (Cons a as)
  obtain ss' s where ss: "ss = ss' @ [s]" using Cons.prems(2) by (cases ss rule: rev_cases) auto
  let ?b = "item_data (fork_db n) a"
  obtain ok n1 where n1: "apply_in_session app ?b n = (ok, n1)" by fastforce
  note l = links_snocD [of app "rev (map (item_data (fork_db n)) as)" ?b ss' s "chain n"]
  have r: "links app (rev (map (item_data (fork_db n)) as)) (ss' @ [s])" "snd (app ?b (chain n)) = Some s"
    using l Cons.prems by (simp_all add: ss)
  have c: "ok" "chain n1 = s" using n1 r(2) by (auto simp: apply_in_session_def Let_def split: prod.splits option.splits)
  have "links app (rev (map (item_data (fork_db n1)) as)) (ss' @ [chain n1])" "length ss' = length as"
    using r(1) c(2) apply_in_session_effect(1) [OF n1] Cons.prems(2) by (simp_all add: ss)
  from Cons.IH [OF this] show ?case using n1 c(1) by simp
qed simp

section \<open>Branches\<close>

text \<open>A branch: each item is followed by the item of the block it names.\<close>

fun branch :: "('t, 'b) fork_database \<Rightarrow> nat list \<Rightarrow> bool" where
  "branch f [] \<longleftrightarrow> False"
| "branch f [a] \<longleftrightarrow> a < length (items f)"
| "branch f (a # c # as) \<longleftrightarrow> a < length (items f) \<and> fi_id (fitem f c) = prev_id f a \<and> branch f (c # as)"

lemma branch_items: "items f' = items f \<Longrightarrow> branch f' as = branch f as"
  by (induction f as rule: branch.induct) auto

lemma take_ancestry_branch:
  assumes wf: "fork_wf f"
  shows "a < length (items f) \<Longrightarrow> j < length (ancestry owned f a) \<Longrightarrow> branch f (take (Suc j) (ancestry owned f a))"
proof (induction j arbitrary: a)
  case 0
  then show ?case by (simp add: ancestry_unfold [OF wf])
next
  case (Suc j)
  then obtain p where p: "weak_lock owned f (fi_prev (fitem f a)) = Some p"
    by (cases "weak_lock owned f (fi_prev (fitem f a))") (auto simp: ancestry_unfold [OF wf])
  note l = lock_prev [OF wf Suc(2) p]
  have A: "ancestry owned f a = a # ancestry owned f p" using p by (simp add: ancestry_unfold [OF wf Suc(2)])
  have "branch f (take (Suc j) (ancestry owned f p))" using Suc(1) [OF l(1)] Suc(3) by (simp add: A)
  then show ?case using l Suc(2) by (simp add: A ancestry_unfold [OF wf l(1)])
qed

lemma branch_members: "branch f as \<Longrightarrow> x \<in> set as \<Longrightarrow> x < length (items f)"
  by (induction f as rule: branch.induct) auto

text \<open>The numbers go down along a branch, so that no block of it is the one below it.\<close>

definition numbered :: "('t, 'b) fork_database \<Rightarrow> bool" where
  "numbered f \<longleftrightarrow> fork_wf f \<and> (\<forall>a < length (items f). fi_num (fitem f a) \<noteq> 0)"

lemma numbered_step:
  assumes "numbered f" "a < length (items f)"
  shows "unat (num_from_id (fi_id (fitem f a))) = Suc (unat (num_from_id (prev_id f a)))"
proof -
  have i: "fi_num (fitem f a) = num_from_id (prev_id f a) + 1" "num_from_id (fi_id (fitem f a)) = fi_num (fitem f a)" "fi_num (fitem f a) \<noteq> 0"
    using assms fork_wfD(1) [of f a] by (auto simp: numbered_def item_ok_def block_num_def)
  then show ?thesis using unat_plus_1 [of "num_from_id (prev_id f a)"] by simp
qed

lemma branch_above:
  "numbered f \<Longrightarrow> branch f as \<Longrightarrow> x \<in> set as \<Longrightarrow> unat (num_from_id (prev_id f (last as))) < unat (num_from_id (fi_id (fitem f x)))"
proof (induction f as arbitrary: x rule: branch.induct)
  case (2 f a)
  then show ?case using numbered_step [of f a] by auto
next
  case (3 f a c as)
  have c: "unat (num_from_id (prev_id f (last (c # as)))) < unat (num_from_id (fi_id (fitem f c)))" using 3(1) [of c] 3(2,3) by simp
  have "unat (num_from_id (fi_id (fitem f a))) = Suc (unat (num_from_id (fi_id (fitem f c))))" using 3 numbered_step [of f a] by simp
  then show ?case using c 3 by auto
qed simp

text \<open>What the search for the branches returns are branches down to one block.\<close>

lemma fetched_branches:
  assumes wf: "fork_wf f" and run: "fetch_branch_from owned first second f = Some (Inr (new, old))"
  shows "branch f new \<and> branch f old \<and> prev_id f (last new) = prev_id f (last old) \<and> fi_id (fitem f (hd new)) = first \<and>
    fi_id (fitem f (hd old)) = second"
proof -
  obtain a b where ab: "find_block f first = Some a" "find_block f second = Some b"
    using run by (auto simp: fetch_branch_from_def split: option.splits)
  note fa = find_block_Some [OF ab(1)] and fb = find_block_Some [OF ab(2)]
  have l: "a < length (items f)" "b < length (items f)" using fa fb fork_wfD(2) [OF wf] by auto
  let ?A = "ancestry owned f a" and ?B = "ancestry owned f b"
  let ?ka = "unat (fi_num (fitem f a)) - unat (fi_num (fitem f b))" and ?kb = "unat (fi_num (fitem f b)) - unat (fi_num (fitem f a))"
  obtain x y where m: "meet (prev_id f) (drop ?ka ?A) (drop ?kb ?B) = Some (x, y)" "new = take ?ka ?A @ x" "old = take ?kb ?B @ y"
    using run fetch_branch_meet [OF wf ab, of owned] by (auto split: option.splits)
  from meet_Some [OF m(1)] obtain k where k: "k < length (drop ?ka ?A)" "k < length (drop ?kb ?B)"
    "prev_id f (drop ?ka ?A ! k) = prev_id f (drop ?kb ?B ! k)" "x = take (Suc k) (drop ?ka ?A)" "y = take (Suc k) (drop ?kb ?B)" by blast
  define i j where "i = ?ka + k" and "j = ?kb + k"
  have t: "new = take (Suc i) ?A" "old = take (Suc j) ?B"
    using m(2,3) k(4,5) take_add [of ?ka "Suc k" ?A] take_add [of ?kb "Suc k" ?B] by (simp_all add: i_def j_def)
  have ij: "i < length ?A" "j < length ?B" "prev_id f (?A ! i) = prev_id f (?B ! j)" using k(1-3) by (simp_all add: i_def j_def)
  have "last new = ?A ! i" "last old = ?B ! j" using ij(1,2) by (simp_all add: t take_Suc_conv_app_nth)
  moreover have "hd new = a" "hd old = b" by (simp_all add: t ancestry_unfold [OF wf l(1)] ancestry_unfold [OF wf l(2)])
  ultimately show ?thesis
    using take_ancestry_branch [OF wf l(1) ij(1)] take_ancestry_branch [OF wf l(2) ij(2)] ij(3) fa fb by (simp add: t)
qed

text \<open>The states of the node are those that the blocks of the fork database make again.\<close>

definition replays ::
  "(('t, 'b) signed_block \<Rightarrow> 's \<Rightarrow> uint32 option \<times> 's option) \<Rightarrow> ('s \<Rightarrow> block_id_type) \<Rightarrow> ('t, 'b) fork_database \<Rightarrow> 's list \<Rightarrow> bool" where
  "replays app head_id f S \<longleftrightarrow> (\<forall>i. Suc i < length S \<longrightarrow> (\<forall>a < length (items f). fi_id (fitem f a) = head_id (S ! i) \<longrightarrow>
     snd (app (item_data f a) (S ! Suc i)) = Some (S ! i)))"

lemma replays_Cons: "replays app head_id f (s # S) \<Longrightarrow> replays app head_id f S"
  unfolding replays_def by (metis Suc_less_eq length_Cons nth_Cons_Suc)

definition own_ids :: "('b signed_header \<Rightarrow> 32 word list) \<Rightarrow> ('t, 'b) fork_database \<Rightarrow> bool" where
  "own_ids sha f \<longleftrightarrow> (\<forall>a < length (items f). fst (blk_id sha (item_data f a)) = fi_id (fitem f a))"

lemma switch_fork_switched: "switch_fork app head_id owned new old n = Pushed r n' \<Longrightarrow> r"
  by (auto simp: switch_fork_def Let_def split: sum.splits prod.splits list.splits)

lemma make_item_id: "block_ok sha b \<Longrightarrow> fst (blk_id sha (fi_data (make_item sha b))) = fi_id (make_item sha b)"
  by (auto simp: make_item_def blk_id_def block_ok_def Let_def compute_id_def header_of_def block_num_def)

lemma push_block_items:
  assumes "fork_reachable sha f" "block_ok sha b" "fdb_push_block sha b f = Inr (r, f')"
  shows "\<exists>p. items f' = items f @ [(make_item sha b)\<lparr>fi_prev := p\<rparr>]"
  by (rule push_block_cases [OF reachable_wf [OF assms(1)] assms(2,3)]) (auto split: option.splits if_splits)

lemma reachable_own_ids: "fork_reachable sha f \<Longrightarrow> own_ids sha f"
proof (induction rule: fork_reachable.induct)
  case (start s b)
  then show ?case by (auto simp: own_ids_def fdb_start_block_def Let_def nth_append make_item_id less_Suc_eq)
next
  case (push s b r s')
  from push_block_items [OF push(1-3)] push(4) make_item_id [OF push(2)] show ?case by (auto simp: own_ids_def nth_append less_Suc_eq)
qed (auto simp: own_ids_def fork_items new_fork_database_def fdb_reset_def)

text \<open>A node that may be given the block \<open>b\<close>: the heights have not wrapped around, and a block that has the identifier of one that was applied
  does again what that one did.\<close>

definition node_ok ::
  "('b signed_header \<Rightarrow> 32 word list) \<Rightarrow> (('t, 'b) signed_block \<Rightarrow> 's \<Rightarrow> uint32 option \<times> 's option) \<Rightarrow> ('s \<Rightarrow> block_id_type) \<Rightarrow>
     ('t, 'b) signed_block \<Rightarrow> ('t, 'b, 's) chain_node \<Rightarrow> bool" where
  "node_ok sha app head_id b n \<longleftrightarrow> fork_reachable sha (fork_db n) \<and> block_ok sha b \<and>
     (\<forall>x \<in> insert (snd (blk_id sha b)) (fi_data ` set (items (fork_db n))). block_num x \<noteq> 0 \<and>
        (\<forall>i < length (undo_stack n). fst (blk_id sha x) = head_id (states n ! i) \<longrightarrow> snd (app x (states n ! Suc i)) = Some (states n ! i)))"

lemma node_ok_push:
  assumes ok: "node_ok sha app head_id b n" and run: "fdb_push_block sha b (fork_db n) = Inr (r, f)"
  shows "numbered f" "own_ids sha f" "replays app head_id f (states n)"
proof -
  note ok' = ok [unfolded node_ok_def]
  have reach: "fork_reachable sha f" using ok' run by (blast intro: fork_reachable.push)
  show own: "own_ids sha f" by (rule reachable_own_ids [OF reach])
  note wf = reachable_wf [OF reach]
  obtain p where items: "items f = items (fork_db n) @ [(make_item sha b)\<lparr>fi_prev := p\<rparr>]" using push_block_items ok' run by blast
  have mem: "item_data f a \<in> insert (snd (blk_id sha b)) (fi_data ` set (items (fork_db n)))" if "a < length (items f)" for a
    using that by (auto simp: items nth_append make_item_def less_Suc_eq)
  show "numbered f" using wf num_eq [OF wf] mem ok' by (metis numbered_def)
  show "replays app head_id f (states n)"
    unfolding replays_def
  proof (intro allI impI)
    fix i a
    assume i: "Suc i < length (states n)" and a: "a < length (items f)" "fi_id (fitem f a) = head_id (states n ! i)"
    have "fst (blk_id sha (item_data f a)) = head_id (states n ! i)" using own a by (simp add: own_ids_def)
    moreover have "i < length (undo_stack n)" using i by (simp add: states_def)
    ultimately show "snd (app (item_data f a) (states n ! Suc i)) = Some (states n ! i)" using ok' mem [OF a(1)] by blast
  qed
qed

text \<open>After a push the fork database has a head, and the search for the branches returns.\<close>

lemma pushed_head: "fdb_push_block sha b f = Inr (r, f') \<Longrightarrow> r \<noteq> None"
  by (auto simp: fdb_push_block_def fdb_push_item_def fdb_advance_def Let_def split: sum.splits if_splits option.splits)

lemma fetch_returns:
  assumes "fork_wf f"
  shows "fetch_branch_from owned first second f \<noteq> None"
proof (cases "find_block f first = None \<or> find_block f second = None")
  case True
  then show ?thesis by (auto simp: fetch_branch_from_def split: option.split)
next
  case False
  then obtain a b where "find_block f first = Some a" "find_block f second = Some b" by auto
  from fetch_branch_meet [OF assms this, of owned] show ?thesis by (auto split: option.splits)
qed

context block_application
begin

text \<open>Going down from the head to the block below a branch undoes exactly the blocks of the branch.\<close>

lemma branch_replay:
  assumes "numbered f"
  shows "branch f as \<Longrightarrow> fi_id (fitem f (hd as)) = head_id (S ! 0) \<Longrightarrow> k < length S \<Longrightarrow> head_id (S ! k) = prev_id f (last as) \<Longrightarrow>
    \<forall>i < k. head_id (S ! i) \<noteq> prev_id f (last as) \<Longrightarrow> replays app head_id f S \<Longrightarrow> k = length as \<and> links app (map (item_data f) as) S"
proof (induction as arbitrary: S k)
  case (Cons a as)
  note prems = Cons.prems
  have a: "a < length (items f)" using prems(1) by (cases as) auto
  have "k \<noteq> 0" using branch_above [OF assms prems(1), of a] prems(2,4) by (metis less_irrefl list.sel(1) list.set_intros(1))
  then obtain k' s S' where k: "k = Suc k'" "S = s # S'" using prems(3) by (cases k; cases S) auto
  have l: "k' < length S'" using prems(3) k by simp
  then have ne: "S' \<noteq> []" by auto
  then have step: "snd (app (item_data f a) (S' ! 0)) = Some s" using prems(6) [unfolded replays_def] a prems(2) k by force
  then have h: "head_id (S' ! 0) = prev_id f a" using app_head [of "item_data f a" "S' ! 0"] by (metis prod.collapse)
  show ?case
  proof (cases "as = []")
    case True
    have "k' = 0"
    proof (rule ccontr)
      assume "k' \<noteq> 0"
      then show False using prems(5) h k True by force
    qed
    with True step k ne show ?thesis by simp
  next
    case False
    then have b: "branch f as" "fi_id (fitem f (hd as)) = prev_id f a" using prems(1) by (cases as; simp)+
    have "\<forall>i < k'. head_id (S' ! i) \<noteq> prev_id f (last as)" using prems(5) k False by force
    with Cons.IH [of S' k'] b h l False prems(4) k replays_Cons [OF prems(6) [unfolded k(2)]] step show ?thesis by simp
  qed
qed simp

text \<open>Going down again from the part of another branch that was applied ends at the same state.\<close>

lemma branch_undone:
  assumes l: "links app (rev (map (item_data f) dn)) (ss @ [s])" "length ss = length dn" and own: "own_ids sha f"
    and dn: "\<forall>x \<in> set dn. x < length (items f) \<and> fi_id (fitem f x) \<noteq> target" and s: "head_id s = target"
    and S: "prefix S (ss @ s # r)" "k < length S" "head_id (S ! k) = target" "\<forall>i < k. head_id (S ! i) \<noteq> target"
  shows "S ! k = s"
proof -
  have nth: "S ! i = (ss @ s # r) ! i" if "i < length S" for i using S(1) that by (metis nth_append prefix_def)
  have "head_id (ss ! i) \<noteq> target" if i: "i < length ss" for i
  proof -
    obtain s1 where "snd (app (rev (map (item_data f) dn) ! i) s1) = Some (ss ! i)" using links_hd [OF l(1) _ i] l(2) by auto
    then have "head_id (ss ! i) = fst (blk_id sha (rev (map (item_data f) dn) ! i))" using app_head by (metis prod.collapse)
    moreover have "rev (map (item_data f) dn) ! i = item_data f (rev dn ! i)" using i l(2) by (simp add: rev_map del: rev_nth)
    moreover have "rev dn ! i \<in> set dn" using nth_mem [of i "rev dn"] i l(2) by (simp del: rev_nth)
    ultimately show ?thesis using dn own by (simp add: own_ids_def)
  qed
  then have "\<not> k < length ss" using nth S(2,3) by (metis nth_append)
  moreover have "\<not> length ss < k" using S nth [of "length ss"] s by (metis nth_append_length order.strict_trans)
  ultimately show ?thesis using nth [OF S(2)] by (simp add: not_less order_antisym nth_append)
qed

end

text \<open>
  The node \<open>n'\<close> that is left when \<^verbatim>\<open>pop_block\<close> throws while the node goes down a branch: its state is one of the history of \<open>n\<close>, or
  what blocks of the new branch made of one.
\<close>

definition left_by_pop ::
  "(('t, 'b) signed_block \<Rightarrow> 's \<Rightarrow> uint32 option \<times> 's option) \<Rightarrow> ('s \<Rightarrow> block_id_type) \<Rightarrow> ('t, 'b, 's) chain_node \<Rightarrow> ('t, 'b, 's) chain_node \<Rightarrow> bool" where
  "left_by_pop app head_id n n' \<longleftrightarrow> (\<exists>owned m. node_pop_block head_id owned m = Inl n') \<and>
     (\<exists>k bs ss. k < length (states n) \<and> length ss = length bs \<and> links app bs (ss @ [states n ! k]) \<and> chain n' = hd (ss @ [states n ! k]))"

lemma left_in_history:
  assumes "chain n' \<in> set (states n)"
  shows "\<exists>k bs ss. k < length (states n) \<and> length ss = length bs \<and> links app bs (ss @ [states n ! k]) \<and> chain n' = hd (ss @ [states n ! k])"
proof -
  obtain k where "k < length (states n)" "chain n' = states n ! k" using assms by (auto simp: in_set_conv_nth)
  then show ?thesis by (intro exI [of _ k] exI [of _ "[]"]) simp
qed

lemma left_by_first_pop: "pop_until head_id owned target n = Inl n' \<Longrightarrow> left_by_pop app head_id n n'"
  unfolding left_by_pop_def using pop_until_fails [of head_id owned target n n'] left_in_history [of n' n app] by blast

lemma left_by_second_pop:
  assumes pop: "pop_until head_id owned target n2 = Inl n'"
    and n2: "prefix (states n2) (ss @ drop k (states n))" "links app bs (ss @ [states n ! k])" "length ss = length bs" "k < length (states n)"
  shows "left_by_pop app head_id n n'"
proof -
  note p = pop_until_fails [OF pop]
  have "chain n' \<in> set ss \<or> chain n' \<in> set (states n)"
    using p set_mono_prefix [OF n2(1)] set_drop_subset [of k "states n"] by auto
  then consider i where "i < length ss" "chain n' = ss ! i" | "chain n' \<in> set (states n)" by (metis in_set_conv_nth)
  then have "\<exists>k bs ss. k < length (states n) \<and> length ss = length bs \<and> links app bs (ss @ [states n ! k]) \<and> chain n' = hd (ss @ [states n ! k])"
  proof cases
    case 1
    have "links app (drop i bs) (drop i ss @ [states n ! k])" using links_drop [OF n2(2), of i] n2(3) 1(1) by simp
    moreover have "chain n' = hd (drop i ss @ [states n ! k])" using 1 by (simp add: hd_append hd_drop_conv_nth)
    ultimately show ?thesis using n2(3,4) by (intro exI [of _ k] exI [of _ "drop i bs"] exI [of _ "drop i ss"]) simp
  next
    case 2
    then show ?thesis by (rule left_in_history)
  qed
  then show ?thesis using p unfolding left_by_pop_def by blast
qed

context block_application
begin

lemma switch_fork_effect:
  assumes f: "numbered (fork_db n)" "own_ids sha (fork_db n)" "replays app head_id (fork_db n) (states n)"
    and new: "branch (fork_db n) new" and old: "branch (fork_db n) old" "fi_id (fitem (fork_db n) (hd old)) = head_id (chain n)"
    and meet: "prev_id (fork_db n) (last new) = prev_id (fork_db n) (last old)"
  shows "case switch_fork app head_id owned new old n of Stuck n' \<Rightarrow> left_by_pop app head_id n n' | Rejected n' \<Rightarrow> chain n' = chain n
    | Pushed r n' \<Rightarrow> length old < length (states n) \<and>
        (\<exists>ss. length ss = length new \<and> links app (map (item_data (fork_db n)) new) (ss @ [states n ! length old]) \<and> chain n' = hd ss)"
proof (cases "pop_until head_id owned (prev_id (fork_db n) (last old)) n")
  case (Inr n1)
  let ?t = "prev_id (fork_db n) (last old)" and ?d = "item_data (fork_db n)"
  obtain k where k: "k < length (states n)" "states n1 = drop k (states n)" "head_id (states n ! k) = ?t" "\<forall>i < k. head_id (states n ! i) \<noteq> ?t"
    and i1: "items (fork_db n1) = items (fork_db n)"
    using pop_until_effect [OF Inr] by blast
  have ko: "k = length old" and lo: "links app (map ?d old) (states n)"
    using branch_replay [OF f(1) old(1) _ k(1,3,4) f(3)] old(2) by (simp_all add: states_def)
  have c1: "chain n1 = states n ! k" using k(1,2) by (metis Cons_nth_drop_Suc list.inject states_def)
  obtain bad n2 where n2: "push_branch app (rev new) n1 = (bad, n2)" by fastforce
  from push_branch_effect [OF n2] obtain dn ss where dn: "rev new = dn @ bad" "length ss = length dn"
    "links app (rev (map ?d dn)) (ss @ [chain n1])" "prefix (states n2) (ss @ states n1)" and i2: "items (fork_db n2) = items (fork_db n1)"
    by (auto simp: i1)
  show ?thesis
  proof (cases "bad = []")
    case True
    have "rev (map ?d dn) = map ?d new" using dn(1) True by (metis append_Nil2 rev_map rev_rev_ident)
    moreover have "ss \<noteq> []" using dn(1,2) True new by auto
    moreover have "chain n2 = hd ss" using dn(4) \<open>ss \<noteq> []\<close> by (cases ss) (auto simp: states_def prefix_def)
    ultimately show ?thesis
      using Inr n2 True dn(1-3) k(1) ko c1 by (auto simp: switch_fork_def Let_def intro!: exI [of _ ss])
  next
    case False
    let ?n2 = "n2\<lparr>fork_db := fdb_set_head (Some (hd old)) (remove_items owned bad (fork_db n2))\<rparr>"
    have run: "switch_fork app head_id owned new old n = (case pop_until head_id owned ?t ?n2 of Inl m \<Rightarrow> Stuck m
        | Inr n3 \<Rightarrow> (case push_branch app (rev old) n3 of ([], n4) \<Rightarrow> Rejected n4 | (_, n4) \<Rightarrow> Stuck n4))"
      using Inr n2 False by (cases bad) (simp_all add: switch_fork_def Let_def)
    have st: "states ?n2 = states n2" by (simp add: states_def)
    have apart: "\<forall>x \<in> set dn. x < length (items (fork_db n)) \<and> fi_id (fitem (fork_db n) x) \<noteq> ?t"
    proof
      fix x
      assume "x \<in> set dn"
      then have "x \<in> set new" using dn(1) by (metis Un_iff set_append set_rev)
      then show "x < length (items (fork_db n)) \<and> fi_id (fitem (fork_db n) x) \<noteq> ?t"
        using branch_above [OF f(1) new, of x] branch_members [OF new] meet by auto
    qed
    show ?thesis
    proof (cases "pop_until head_id owned ?t ?n2")
      case (Inl m)
      have "left_by_pop app head_id n m"
        by (rule left_by_second_pop [OF Inl, where bs = "rev (map ?d dn)" and ss = ss and k = k]) (use dn(2-4) k(1,2) c1 in \<open>simp_all add: st\<close>)
      then show ?thesis by (simp add: run Inl)
    next
      case n3: (Inr n3)
      obtain m where m: "m < length (states n2)" "states n3 = drop m (states n2)" "head_id (states n2 ! m) = ?t"
          "\<forall>i < m. head_id (states n2 ! i) \<noteq> ?t" and i3: "items (fork_db n3) = items (fork_db n)"
        using pop_until_effect [OF n3] by (auto simp: st fork_items remove_items_items i2 i1)
      have "states n2 ! m = chain n1"
        by (rule branch_undone [OF dn(3,2) f(2) apart _ _ m(1,3,4), where r = "undo_stack n1"]) (use dn(4) c1 k(3) in \<open>simp_all add: states_def\<close>)
      then have c3: "chain n3 = chain n1" using m(1,2) by (metis Cons_nth_drop_Suc list.inject states_def)
      have S: "states n = take k (states n) @ chain n1 # drop (Suc k) (states n)" using k(1) c1 by (simp add: id_take_nth_drop)
      have lk: "links app (map ?d old) (take k (states n) @ [chain n1])" by (rule links_prefix [OF lo S]) (use k(1) in \<open>simp add: ko [symmetric]\<close>)
      have "\<exists>n4. push_branch app (rev old) n3 = ([], n4)"
        by (rule push_branch_again [where ss = "take k (states n)"]) (use lk ko k(1) in \<open>simp_all add: i3 c3 rev_map\<close>)
      then obtain n4 where n4: "push_branch app (rev old) n3 = ([], n4)" ..
      from push_branch_effect [OF n4] obtain ss' where ss': "length ss' = length old" "links app (map ?d old) (ss' @ [chain n1])"
        "prefix (states n4) (ss' @ states n3)" by (auto simp: i3 c3 rev_map)
      have "ss' = take k (states n)"
        using links_determined [OF ss'(2) lk] ss'(1) ko k(1) by simp
      moreover have "0 < k" using ko old(1) by (cases old) auto
      ultimately have "ss' = chain n # take (k - 1) (undo_stack n)" by (cases k) (simp_all add: states_def)
      with ss'(3) have "chain n4 = chain n" by (auto simp: states_def prefix_def)
      then show ?thesis by (simp add: run n3 n4)
    qed
  qed
qed (simp add: switch_fork_def Let_def left_by_first_pop)

text \<open>The outcomes of a push.\<close>

lemma push_block_effect:
  assumes ok: "node_ok sha app head_id b n"
  shows "case push_block sha app head_id head_num b n of Stuck n' \<Rightarrow> left_by_pop app head_id n n' | Rejected n' \<Rightarrow> chain n' = chain n
    | Pushed switched n' \<Rightarrow> if switched
        then \<exists>k bs ss. k < length (states n) \<and> length ss = length bs \<and> links app bs (ss @ [states n ! k]) \<and> bs \<noteq> [] \<and>
          chain n' = hd ss \<and> head_num (chain n) < uint (block_num (hd bs))
        else chain n' = chain n \<or> snd (app b (chain n)) = Some (chain n')"
proof (cases "fdb_push_block sha b (fork_db n)")
  case (Inr x)
  obtain r f where x: "x = (r, f)" by fastforce
  note run = Inr [unfolded x] and f = node_ok_push [OF ok Inr [unfolded x]]
  show ?thesis
  proof (cases r)
    case None
    then show ?thesis using pushed_head [OF run] by simp
  next
    case (Some h)
    note hd = run [unfolded Some]
    let ?n = "n\<lparr>fork_db := f\<rparr>" and ?h = "item_data f h"
    have st: "states ?n = states n" "chain ?n = chain n" "fork_db ?n = f" by (simp_all add: states_def)
    consider (on_top) "previous ?h = head_id (chain n)" | (low) "previous ?h \<noteq> head_id (chain n)" "\<not> head_num (chain n) < uint (block_num ?h)"
      | (fork) "previous ?h \<noteq> head_id (chain n)" "head_num (chain n) < uint (block_num ?h)" by blast
    then show ?thesis
    proof cases
      case on_top
      obtain ok n2 where n2: "apply_in_session app b ?n = (ok, n2)" by fastforce
      show ?thesis using on_top apply_in_session_effect [OF n2] by (cases ok) (simp_all add: push_block_def hd n2 Let_def)
    next
      case low
      then show ?thesis by (simp add: push_block_def hd Let_def)
    next
      case fork
      let ?fetch = "fetch_branch_from [h] (fst (blk_id sha ?h)) (head_id (chain n)) f"
      have go: "push_block sha app head_id head_num b n =
          (case ?fetch of None \<Rightarrow> Stuck ?n | Some (Inl e) \<Rightarrow> Rejected ?n | Some (Inr (new, old)) \<Rightarrow> switch_fork app head_id (h # new @ old) new old ?n)"
        using fork by (simp add: push_block_def hd Let_def)
      show ?thesis
      proof (cases "\<exists>new old. ?fetch = Some (Inr (new, old))")
        case True
        then obtain new old where fetch: "?fetch = Some (Inr (new, old))" by blast
        have wf: "fork_wf f" using f(1) by (simp add: numbered_def)
        note br = fetched_branches [OF wf fetch]
        have "case switch_fork app head_id (h # new @ old) new old ?n of Stuck n' \<Rightarrow> left_by_pop app head_id n n' | Rejected n' \<Rightarrow> chain n' = chain n
          | Pushed r n' \<Rightarrow> r \<and> length old < length (states n) \<and>
            (\<exists>ss. length ss = length new \<and> links app (map (item_data f) new) (ss @ [states n ! length old]) \<and> chain n' = hd ss)"
          using switch_fork_effect [of ?n new old "h # new @ old"] f br switch_fork_switched [of app head_id "h # new @ old" new old ?n]
          by (auto simp: st left_by_pop_def split: push_result.splits)
        moreover have "new \<noteq> []" using br by auto
        moreover have "block_num (item_data f (hd new)) = block_num ?h"
        proof -
          have "h < length (items f)" using fork_wfD(3) [OF wf, of h] hd by (auto simp: fdb_push_block_def split: sum.splits)
          moreover have "hd new < length (items f)" using branch_members [of f new "hd new"] br \<open>new \<noteq> []\<close> by simp
          ultimately show ?thesis using fork_wfD(1) [OF wf] f(2) br by (simp add: item_ok_def own_ids_def) metis
        qed
        ultimately show ?thesis
          unfolding go fetch using fork(2) by (auto split: push_result.splits simp: hd_map intro!: exI [of _ "length old"] exI [of _ "map (item_data f) new"])
      next
        case False
        then show ?thesis unfolding go using fetch_returns [of f "[h]" "fst (blk_id sha ?h)" "head_id (chain n)"] f(1) by (auto simp: st numbered_def split: option.split sum.split)
      qed
    qed
  qed
qed (simp add: push_block_def)

end

section \<open>The chain of the program\<close>

lemma begin_block_head:
  assumes "begin_block L T B cp skip b s = Some (s1, n)"
  shows "head_block_id (clock s) = previous b" "head_block_id (clock s1) = fst (blk_id (sha224 B) b)"
proof -
  obtain wit s0 missed d2 c3 d3 where
    v: "validate_block_header L (bit skip skip_witness_schedule_check) b (clock s) (db s) = Some wit"
    and d3: "update_global_dynamic_data (sha224 B) (bit skip skip_undo_history_check) cp b missed (clock s0) d2 = Some (c3, d3, n)"
    and s1: "s1 = s0\<lparr>db := d3, clock := c3\<rparr>"
    using assms unfolding begin_block_def opt_bind by (auto simp: opt_bind; blast)
  show "head_block_id (clock s) = previous b" using v by (auto simp: validate_block_header_def opt_bind)
  have "head_block_id c3 = fst (blk_id (sha224 B) b)" using d3 by (auto simp: update_global_dynamic_data_def Let_def opt_bind)
  then show "head_block_id (clock s1) = fst (blk_id (sha224 B) b)" by (simp add: s1)
qed

locale safe_chain = fc_safe +
  fixes K :: "('sig, 'k::linorder, 'a, 'id) chain_hooks"
  assumes hooks: "hooks_ok K"
begin

lemma apply_block_head:
  assumes "apply_block L T B K cps skip b s = (z, Some s')"
  shows "head_block_id (clock s) = previous b \<and> head_block_id (clock s') = fst (blk_id (sha224 B) b)"
proof (rule apply_block_cases [OF assms])
  fix cp sk s1 m
  assume b: "begin_block L T B cp sk b s = Some (s1, m)" and e: "end_block L B K (next_maintenance_time (db s) \<le> timestamp b) b s1 = Some s'"
  have "head_block_id (clock s') = head_block_id (clock s1)" by (rule end_block_effect(4) [OF hooks e])
  with begin_block_head [OF b] show ?thesis by simp
qed

end

sublocale safe_chain \<subseteq> nd: block_application "sha224 B" "apply_block L T B K cps skip" "\<lambda>s. head_block_id (clock s)" for T B cps skip
  by unfold_locales (rule apply_block_head)

abbreviation chain_push ::
  "fc_lib \<Rightarrow> ('sig, 'k::linorder, 'a, 'id) trx_lib \<Rightarrow> ('sig, 'r, 'bs, 'h) block_lib \<Rightarrow> ('sig, 'k, 'a, 'id) chain_hooks \<Rightarrow>
     (uint32 \<times> block_id_type) list \<Rightarrow> 32 word \<Rightarrow> ('sig, 'r, 'bs) chain_block \<Rightarrow>
     (('sig, 'r) processed_transaction, 'bs, ('sig, 'k, 'a, 'id) chain_db) chain_node \<Rightarrow>
     (('sig, 'r) processed_transaction, 'bs, ('sig, 'k, 'a, 'id) chain_db) chain_node push_result" where
  "chain_push L T B K cps skip \<equiv>
     push_block (sha224 B) (apply_block L T B K cps skip) (\<lambda>s. head_block_id (clock s)) (\<lambda>s. head_block_number (clock s))"

context safe_chain
begin

lemmas chain_push_effect = nd.push_block_effect

end

section \<open>Properties\<close>

text \<open>
  (C7) A block is taken as a whole or not at all: when a push is rejected the node has the state it had before, even when blocks of
  another branch had been applied on the way: going back to the old branch always succeeds once the blocks are popped. When a push switches,
  the state is what the blocks of the higher branch make, one after the other, of a state of the node's own past; and otherwise the block is
  applied to the head or kept aside. The only other end is an exception out of \<^verbatim>\<open>pop_block\<close> on the way down a branch, when the undo
  history or the fork database does not reach back far enough: the node is then left in a state of its own past, or with blocks of the
  new branch applied to one.
\<close>

theorem push_block_atomic:
  assumes "fc_safe L" "hooks_ok K" "node_ok (sha224 B) (apply_block L T B K cps skip) (\<lambda>s. head_block_id (clock s)) b n"
  shows "case chain_push L T B K cps skip b n of
      Stuck n' \<Rightarrow> (\<exists>owned m. node_pop_block (\<lambda>s. head_block_id (clock s)) owned m = Inl n') \<and>
        (\<exists>k bs ss. k < length (states n) \<and> length ss = length bs \<and> links (apply_block L T B K cps skip) bs (ss @ [states n ! k]) \<and>
          chain n' = hd (ss @ [states n ! k]))
    | Rejected n' \<Rightarrow> chain n' = chain n
    | Pushed switched n' \<Rightarrow> if switched
        then \<exists>k bs ss. k < length (states n) \<and> length ss = length bs \<and> links (apply_block L T B K cps skip) bs (ss @ [states n ! k]) \<and>
          bs \<noteq> [] \<and> chain n' = hd ss \<and> head_block_number (clock (chain n)) < uint (block_num (hd bs))
        else chain n' = chain n \<or> snd (apply_block L T B K cps skip b (chain n)) = Some (chain n')"
proof -
  have "safe_chain L K" using assms(1,2) by (simp add: safe_chain_def safe_chain_axioms_def)
  from safe_chain.chain_push_effect [OF this assms(3)] show ?thesis unfolding left_by_pop_def .
qed

abbreviation demo_apply ::
  "(nat, unit, unit) chain_block \<Rightarrow> (nat, nat, nat, transaction) chain_db \<Rightarrow> uint32 option \<times> (nat, nat, nat, transaction) chain_db option" where
  "demo_apply \<equiv> apply_block checked_lib demo_trx_lib demo_block_lib demo_hooks [] 0"

text \<open>Block 9 is the head of \<open>demo_chain\<close>; block 10 was applied, and a later block 10 by another witness is known.\<close>

definition known_block :: "(nat, unit, unit) chain_block \<Rightarrow> ((nat, unit) processed_transaction, unit) fork_database \<Rightarrow>
    ((nat, unit) processed_transaction, unit) fork_database" where
  "known_block b f = (case fdb_push_block (sha224 demo_block_lib) b f of Inl e \<Rightarrow> f | Inr (r, f') \<Rightarrow> f')"

definition demo_fork_base :: "((nat, unit) processed_transaction, unit) fork_database" where
  "demo_fork_base = fdb_start_block (sha224 demo_block_lib) (demo_chain_block [endian_reverse 8, 0, 0, 0, 0] 5 4 0) new_fork_database"

definition demo_fork_db :: "((nat, unit) processed_transaction, unit) fork_database" where
  "demo_fork_db = known_block (demo_chain_block [endian_reverse 9, 5, 0, 0, 0] 1010 4 6) (known_block (demo_block_10 5) demo_fork_base)"

definition demo_node :: "((nat, unit) processed_transaction, unit, (nat, nat, nat, transaction) chain_db) chain_node" where
  "demo_node = \<lparr>fork_db = demo_fork_db, chain = the (snd (demo_apply (item_data demo_fork_db 1) demo_chain)), undo_stack = [demo_chain],
     undo_max_size = 100, popped_tx = []\<rparr>"

abbreviation demo_fork_tip :: "nat \<Rightarrow> share_type \<Rightarrow> (nat, unit, unit) chain_block" where
  "demo_fork_tip \<equiv> demo_chain_block [endian_reverse 10, 1010, 0, 0, 0] 1015"

abbreviation demo_chain_push ::
  "(nat, unit, unit) chain_block \<Rightarrow> ((nat, unit) processed_transaction, unit, (nat, nat, nat, transaction) chain_db) chain_node push_result" where
  "demo_chain_push b \<equiv> chain_push checked_lib demo_trx_lib demo_block_lib demo_hooks [] 0 b demo_node"

lemma demo_chain_block_ok: "block_ok (sha224 demo_block_lib) (demo_chain_block p t w x)"
  by (simp add: block_ok_def demo_block_lib_def demo_chain_block_def null_id_def)

lemma known_block_reachable:
  "fork_reachable (sha224 demo_block_lib) f \<Longrightarrow> block_ok (sha224 demo_block_lib) b \<Longrightarrow> fork_reachable (sha224 demo_block_lib) (known_block b f)"
  by (auto simp: known_block_def intro: fork_reachable.push split: sum.split)

lemma demo_fork_db_reachable: "fork_reachable (sha224 demo_block_lib) demo_fork_db"
  unfolding demo_fork_db_def demo_fork_base_def
  by (intro known_block_reachable fork_reachable.start fork_reachable.new demo_chain_block_ok)

lemma set_nth_3: "length xs = 3 \<Longrightarrow> set xs = {xs ! 0, xs ! 1, xs ! 2}"
  by (auto simp: set_conv_nth numeral_3_eq_3 less_Suc_eq numeral_2_eq_2)

lemma demo_node_ok:
  assumes "block_num (snd (blk_id (sha224 demo_block_lib) b)) \<noteq> 0" "block_ok (sha224 demo_block_lib) b"
    and "fst (blk_id (sha224 demo_block_lib) (snd (blk_id (sha224 demo_block_lib) b))) \<noteq> [endian_reverse 10, 1005, 0, 0, 0]"
  shows "node_ok (sha224 demo_block_lib) demo_apply (\<lambda>s. head_block_id (clock s)) b demo_node"
proof -
  have n: "length (items demo_fork_db) = 3" by code_simp
  have num: "block_num (item_data demo_fork_db 0) \<noteq> 0" "block_num (item_data demo_fork_db 1) \<noteq> 0" "block_num (item_data demo_fork_db 2) \<noteq> 0"
    by code_simp+
  have ids: "fst (blk_id (sha224 demo_block_lib) (item_data demo_fork_db 0)) \<noteq> [endian_reverse 10, 1005, 0, 0, 0]"
    "fst (blk_id (sha224 demo_block_lib) (item_data demo_fork_db 2)) \<noteq> [endian_reverse 10, 1005, 0, 0, 0]" by code_simp+
  define r where "r = demo_apply (item_data demo_fork_db 1) demo_chain"
  have r: "snd r \<noteq> None" "head_block_id (clock (the (snd r))) = [endian_reverse 10, 1005, 0, 0, 0]" unfolding r_def by code_simp+
  have set: "set (items demo_fork_db) = {fitem demo_fork_db 0, fitem demo_fork_db 1, fitem demo_fork_db 2}"
    by (rule set_nth_3 [OF n])
  have nd: "fork_db demo_node = demo_fork_db" "chain demo_node = the (snd r)" "undo_stack demo_node = [demo_chain]"
    by (simp_all add: demo_node_def r_def)
  have "snd (demo_apply (item_data demo_fork_db 1) demo_chain) = Some (the (snd r))" using r(1) unfolding r_def [symmetric] by simp
  then show ?thesis
    unfolding node_ok_def nd states_def using demo_fork_db_reachable assms num ids r(2) by (simp add: set)
qed

theorem push_block_atomic_witness:
  "(\<exists>n'. demo_chain_push (demo_fork_tip 9 6) = Rejected n' \<and> length (popped_tx n') = 2 \<and> chain n' = chain demo_node) \<and>
   (\<exists>n'. demo_chain_push (demo_fork_tip 9 7) = Pushed True n' \<and> length (popped_tx n') = 1)"
proof -
  have ok: "node_ok (sha224 demo_block_lib) demo_apply (\<lambda>s. head_block_id (clock s)) (demo_fork_tip 9 6) demo_node"
    by (rule demo_node_ok) (code_simp, rule demo_chain_block_ok, code_simp)
  have run: "case demo_chain_push (demo_fork_tip 9 6) of Rejected n' \<Rightarrow> length (popped_tx n') = 2 | _ \<Rightarrow> False" by code_simp
  then obtain n' where n': "demo_chain_push (demo_fork_tip 9 6) = Rejected n'" "length (popped_tx n') = 2"
    by (cases "demo_chain_push (demo_fork_tip 9 6)") simp_all
  have "chain n' = chain demo_node" using push_block_atomic [OF checked_lib_safe demo_hooks_ok ok] unfolding n'(1) by simp
  moreover have "case demo_chain_push (demo_fork_tip 9 7) of Pushed True n' \<Rightarrow> length (popped_tx n') = 1 | _ \<Rightarrow> False" by code_simp
  then have "\<exists>n'. demo_chain_push (demo_fork_tip 9 7) = Pushed True n' \<and> length (popped_tx n') = 1"
    by (cases "demo_chain_push (demo_fork_tip 9 7)") (simp_all split: bool.splits)
  ultimately show ?thesis using n' by blast
qed

interpretation dc: safe_chain checked_lib demo_hooks
  using checked_lib_safe demo_hooks_ok by (simp add: safe_chain_def safe_chain_axioms_def)

end
