(* ===== verification/Budget.thy ===== *)
theory Budget
  imports Witness_Schedule Fees
begin

text \<open>
  Workers and the budget (\<^verbatim>\<open>worker_object.hpp\<close>, \<^verbatim>\<open>worker_evaluator.cpp\<close> and, of \<^verbatim>\<open>db_maint.cpp\<close>, \<^verbatim>\<open>update_worker_votes\<close>,
  \<^verbatim>\<open>pay_workers\<close>, \<^verbatim>\<open>initialize_budget_record\<close>, \<^verbatim>\<open>process_budget\<close> and the time of the next maintenance): once in each maintenance interval
  the chain sets aside the pay of the witnesses and pays the workers out of the reserve, the fees and what the witnesses did not use.
\<close>

section \<open>State\<close>

datatype worker_type = Refund_worker share_type | Vesting_worker nat | Burn_worker share_type

record worker_object =
  worker_account :: account_id_type
  work_begin_date :: time_point_sec
  work_end_date :: time_point_sec
  daily_pay :: share_type
  worker_kind :: worker_type
  worker_name :: string
  worker_url :: string
  vote_for :: nat
  vote_against :: nat
  total_votes_for :: uint64
  total_votes_against :: uint64

record budget_record =
  time_since_last_budget :: uint64
  from_initial_reserve :: share_type
  from_accumulated_fees :: share_type
  from_unused_witness_budget :: share_type
  requested_witness_budget :: share_type
  total_budget :: share_type
  rec_witness_budget :: share_type
  worker_budget :: share_type
  leftover_worker_funds :: share_type
  supply_delta :: share_type

text \<open>The objects and the global properties that maintenance works on, beside those of \<open>database\<close> and \<open>chain_clock\<close>.\<close>

record budget_db =
  bdb :: database
  bclock :: chain_clock
  workers :: "worker_object tbl"
  budget_records :: "(time_point_sec \<times> budget_record) tbl"
  last_budget_time :: time_point_sec
  worker_budget_per_day :: share_type
  next_available_vote_id :: nat

definition HARDFORK_607_TIME :: time_point_sec where [chain_consts]: "HARDFORK_607_TIME = 1458752400"
definition GRAPHENE_CORE_ASSET_CYCLE_RATE :: int where [chain_consts]: "GRAPHENE_CORE_ASSET_CYCLE_RATE = 17"
definition GRAPHENE_CORE_ASSET_CYCLE_RATE_BITS :: nat where [chain_consts]: "GRAPHENE_CORE_ASSET_CYCLE_RATE_BITS = 32"
definition GRAPHENE_MAX_WORKER_NAME_LENGTH :: nat where [chain_consts]: "GRAPHENE_MAX_WORKER_NAME_LENGTH = 63"
definition GRAPHENE_MAX_URL_LENGTH :: nat where [chain_consts]: "GRAPHENE_MAX_URL_LENGTH = 127"

section \<open>Workers\<close>

definition is_active :: "time_point_sec \<Rightarrow> worker_object \<Rightarrow> bool" where
  "is_active now w \<longleftrightarrow> work_begin_date w \<le> now \<and> now \<le> work_end_date w"

definition approving_stake :: "worker_object \<Rightarrow> share_type" where
  "approving_stake w = s64 (s64 (total_votes_for w) - s64 (total_votes_against w))"

datatype worker_initializer = Refund_initializer | Vesting_initializer uint16 | Burn_initializer

record worker_create_operation =
  wc_fee :: asset
  wc_owner :: account_id_type
  wc_begin :: time_point_sec
  wc_end :: time_point_sec
  wc_daily_pay :: share_type
  wc_name :: string
  wc_url :: string
  wc_initializer :: worker_initializer

definition worker_create_validate :: "worker_create_operation \<Rightarrow> unit option" where
  "worker_create_validate o' = do {
     fc_assert (0 \<le> amount (wc_fee o'));
     fc_assert (wc_begin o' < wc_end o');
     fc_assert (0 < wc_daily_pay o');
     fc_assert (wc_daily_pay o' < GRAPHENE_MAX_SHARE_SUPPLY);
     fc_assert (length (wc_name o') < GRAPHENE_MAX_WORKER_NAME_LENGTH);
     fc_assert (length (wc_url o') < GRAPHENE_MAX_URL_LENGTH)
   }"

definition worker_create_evaluate :: "worker_create_operation \<Rightarrow> budget_db \<Rightarrow> unit option" where
  "worker_create_evaluate o' s = do {
     acct \<leftarrow> tbl_get (wc_owner o') (accounts (bdb s));
     fc_assert (is_lifetime_member acct);
     fc_assert (head_block_time (bdb s) \<le> wc_begin o')
   }"

text \<open>\<^verbatim>\<open>worker_init_visitor\<close>: a worker that is paid into a vesting balance gets an empty one.\<close>

fun worker_init :: "account_id_type \<Rightarrow> worker_initializer \<Rightarrow> database \<Rightarrow> worker_type \<times> database" where
  "worker_init owner (Vesting_initializer days) d =
     (let (i, t) = tbl_create \<lparr>vbo_owner = owner, vbo_balance = mk_asset 0 0,
            vbo_policy = Cdd \<lparr>vesting_seconds = u32 (days * 86400), coin_seconds_earned = 0, start_claim = 0,
              coin_seconds_earned_last_update = head_block_time d\<rparr>,
            vbo_balance_type = VB_worker\<rparr> (vesting_balances d)
      in (Vesting_worker i, d\<lparr>vesting_balances := t\<rparr>))"
| "worker_init owner Refund_initializer d = (Refund_worker 0, d)"
| "worker_init owner Burn_initializer d = (Burn_worker 0, d)"

definition worker_create_apply :: "worker_create_operation \<Rightarrow> budget_db \<Rightarrow> nat \<times> budget_db" where
  "worker_create_apply o' s =
     (let for_id = next_available_vote_id s; (k, d) = worker_init (wc_owner o') (wc_initializer o') (bdb s);
          (i, t) = tbl_create \<lparr>worker_account = wc_owner o', work_begin_date = wc_begin o', work_end_date = wc_end o',
            daily_pay = wc_daily_pay o', worker_kind = k, worker_name = wc_name o', worker_url = wc_url o',
            vote_for = for_id, vote_against = Suc for_id, total_votes_for = 0, total_votes_against = 0\<rparr> (workers s)
      in (i, s\<lparr>bdb := d, workers := t, next_available_vote_id := Suc (Suc for_id)\<rparr>))"

text \<open>\<^verbatim>\<open>_vote_tally_buffer\<close> has an entry for every vote identifier that was handed out; the source does not check the range.\<close>

definition update_worker_votes :: "uint64 list \<Rightarrow> budget_db \<Rightarrow> budget_db option" where
  "update_worker_votes tally s =
     (if \<forall>(i, w) \<in> set (rows (workers s)). vote_for w < length tally \<and> vote_against w < length tally then
        Some (s\<lparr>workers := (workers s)\<lparr>rows := map (\<lambda>(i, w). (i, w\<lparr>total_votes_for := tally ! vote_for w,
          total_votes_against := (if head_block_time (bdb s) < HARDFORK_607_TIME then tally ! vote_against w else 0)\<rparr>))
            (rows (workers s))\<rparr>\<rparr>)
      else None)"

text \<open>The three kinds of \<^verbatim>\<open>pay_worker\<close>.\<close>

fun pay_worker :: "fc_lib \<Rightarrow> share_type \<Rightarrow> worker_type \<Rightarrow> database \<Rightarrow> (worker_type \<times> database) option" where
  "pay_worker L pay (Refund_worker burned) d = do {
     b \<leftarrow> safe_add L burned pay;
     (i, dd) \<leftarrow> get_dynamic_data d 0;
     s \<leftarrow> safe_sub L (current_supply dd) pay;
     Some (Refund_worker b, d\<lparr>asset_dynamic_data := tbl_modify i (\<lambda>x. x\<lparr>current_supply := s\<rparr>) (asset_dynamic_data d)\<rparr>)
   }"
| "pay_worker L pay (Vesting_worker i) d = do {
     v \<leftarrow> tbl_get i (vesting_balances d);
     v' \<leftarrow> vbo_deposit L v (head_block_time d) (mk_asset pay 0);
     Some (Vesting_worker i, d\<lparr>vesting_balances := tbl_modify i (\<lambda>_. v') (vesting_balances d)\<rparr>)
   }"
| "pay_worker L pay (Burn_worker burned) d = do {
     b \<leftarrow> safe_add L burned pay;
     d' \<leftarrow> adjust_balance L GRAPHENE_NULL_ACCOUNT (mk_asset pay 0) d;
     Some (Burn_worker b, d')
   }"

text \<open>The active workers, the one with more votes first and of two with the same votes the older one.\<close>

definition active_workers :: "budget_db \<Rightarrow> (nat \<times> worker_object) list" where
  "active_workers s =
     sort_key (\<lambda>(i, w). - approving_stake w) (filter (\<lambda>(i, w). is_active (head_block_time (bdb s)) w \<and> 0 < approving_stake w) (rows (workers s)))"

definition requested_pay :: "int \<Rightarrow> worker_object \<Rightarrow> share_type" where
  "requested_pay passed_time_count w = s64 (u64 (u128 (u128 (daily_pay w) * passed_time_count) div (86400 * 1000000)))"

fun pay_in_order :: "fc_lib \<Rightarrow> int \<Rightarrow> (nat \<times> worker_object) list \<Rightarrow> share_type \<Rightarrow> budget_db \<Rightarrow> (share_type \<times> budget_db) option" where
  "pay_in_order L passed [] budget s = Some (budget, s)"
| "pay_in_order L passed ((i, w) # ws) budget s =
     (if 0 < budget then do {
        let actual_pay = min budget (requested_pay passed w);
        (k, d) \<leftarrow> pay_worker L actual_pay (worker_kind w) (bdb s);
        b \<leftarrow> safe_sub L budget actual_pay;
        pay_in_order L passed ws b (s\<lparr>bdb := d, workers := tbl_modify i (\<lambda>w. w\<lparr>worker_kind := k\<rparr>) (workers s)\<rparr>)
      }
      else Some (budget, s))"

definition pay_workers :: "fc_lib \<Rightarrow> share_type \<Rightarrow> budget_db \<Rightarrow> (share_type \<times> budget_db) option" where
  "pay_workers L budget s =
     pay_in_order L ((head_block_time (bdb s) - last_budget_time s) * 1000000) (active_workers s) budget s"

section \<open>The budget\<close>

definition reserved :: "fc_lib \<Rightarrow> asset_object \<Rightarrow> asset_dynamic_data_object \<Rightarrow> share_type option" where
  "reserved L a dd = safe_sub L (max_supply (ao_options a)) (current_supply dd)"

definition empty_budget_record :: budget_record where
  "empty_budget_record = \<lparr>time_since_last_budget = 0, from_initial_reserve = 0, from_accumulated_fees = 0, from_unused_witness_budget = 0,
     requested_witness_budget = 0, total_budget = 0, rec_witness_budget = 0, worker_budget = 0, leftover_worker_funds = 0, supply_delta = 0\<rparr>"

text \<open>The share of a reserve that can be released in \<open>dt\<close> seconds, rounded up.\<close>

definition releasable :: "share_type \<Rightarrow> int \<Rightarrow> share_type" where
  "releasable r dt =
     (let b = u128 (u128 (u128 (u128 r * u64 dt) * GRAPHENE_CORE_ASSET_CYCLE_RATE) + (2 ^ GRAPHENE_CORE_ASSET_CYCLE_RATE_BITS - 1))
                div 2 ^ GRAPHENE_CORE_ASSET_CYCLE_RATE_BITS
      in if b < u128 r then s64 (u64 b) else r)"

definition initialize_budget_record :: "fc_lib \<Rightarrow> time_point_sec \<Rightarrow> budget_db \<Rightarrow> budget_record option" where
  "initialize_budget_record L now s = do {
     core \<leftarrow> tbl_get 0 (assets (bdb s));
     (_, dd) \<leftarrow> get_dynamic_data (bdb s) 0;
     r \<leftarrow> reserved L core dd;
     let rec = empty_budget_record\<lparr>from_initial_reserve := r, from_accumulated_fees := accumulated_fees dd,
       from_unused_witness_budget := witness_budget (bclock s)\<rparr>;
     if last_budget_time s = 0 \<or> now \<le> last_budget_time s then Some rec
     else do {
       let dt = now - last_budget_time s;
       reserve \<leftarrow> safe_add L r (accumulated_fees dd);
       reserve \<leftarrow> safe_add L reserve (witness_budget (bclock s));
       Some (rec\<lparr>time_since_last_budget := u64 dt, total_budget := releasable reserve dt\<rparr>)
     }
   }"

text \<open>The two \<^verbatim>\<open>assert\<close>s on the parameters are not part of a release build; a block interval of 0 divides by zero.\<close>

definition time_to_maint :: "budget_db \<Rightarrow> int" where
  "time_to_maint s = next_maintenance_time (bdb s) - head_block_time (bdb s)"

definition witness_request :: "budget_db \<Rightarrow> share_type" where
  "witness_request s =
     (let interval = block_interval (bclock s); blocks_to_maint = u64 (u64 (time_to_maint s) + interval - 1) div interval
      in s64 (u64 (witness_pay_per_block (bclock s) * blocks_to_maint)))"

definition worker_share :: "budget_db \<Rightarrow> share_type \<Rightarrow> share_type" where
  "worker_share s available =
     (let b = u128 (u128 (worker_budget_per_day s) * u64 (time_to_maint s)) div (60 * 60 * 24)
      in if u128 available \<le> b then available else s64 (u64 b))"

definition process_budget :: "fc_lib \<Rightarrow> budget_db \<Rightarrow> budget_db option" where
  "process_budget L s = do {
     let now = head_block_time (bdb s);
     fc_assert (block_interval (bclock s) \<noteq> 0);
     rec \<leftarrow> initialize_budget_record L now s;
     let requested = witness_request s;
     let wb = min requested (total_budget rec);
     available \<leftarrow> safe_sub L (total_budget rec) wb;
     let kb = worker_share s available;
     available \<leftarrow> safe_sub L available kb;
     (leftover, s1) \<leftarrow> pay_workers L kb s;
     _ \<leftarrow> safe_add L available leftover;
     delta \<leftarrow> safe_add L wb kb;
     delta \<leftarrow> safe_sub L delta leftover;
     delta \<leftarrow> safe_sub L delta (from_accumulated_fees rec);
     delta \<leftarrow> safe_sub L delta (from_unused_witness_budget rec);
     (i, dd) \<leftarrow> get_dynamic_data (bdb s1) 0;
     supply1 \<leftarrow> safe_add L (current_supply dd) delta;
     Some (s1\<lparr>bdb := (bdb s1)\<lparr>asset_dynamic_data :=
           tbl_modify i (\<lambda>x. x\<lparr>current_supply := supply1, accumulated_fees := 0\<rparr>) (asset_dynamic_data (bdb s1))\<rparr>,
       bclock := (bclock s1)\<lparr>witness_budget := wb\<rparr>, last_budget_time := now,
       budget_records := snd (tbl_create (now, rec\<lparr>requested_witness_budget := requested, rec_witness_budget := wb, worker_budget := kb,
         leftover_worker_funds := leftover, supply_delta := delta\<rparr>) (budget_records s1))\<rparr>)
   }"

section \<open>The next maintenance\<close>

text \<open>Of \<^verbatim>\<open>perform_chain_maintenance\<close>: \<open>head_time\<close> is that of the block, whose data were recorded before.\<close>

definition next_maintenance :: "fc_lib \<Rightarrow> uint32 \<Rightarrow> time_point_sec \<Rightarrow> uint32 \<Rightarrow> time_point_sec \<Rightarrow> time_point_sec" where
  "next_maintenance L num head_time interval t =
     (if t \<le> head_time then
        if num = 1 then tps_add L 0 (u32 (u32 (head_time div interval + 1) * interval))
        else tps_add L t (u32 ((tdiv (head_time - t) interval + 1) * interval))
      else t)"

section \<open>New workers\<close>

text \<open>A new worker changes nothing in the ledger, and its two votes are new.\<close>

lemma worker_create_apply_effect:
  assumes "db_wf (bdb s)" "\<forall>(i, w) \<in> set (rows (workers s)). vote_against w < next_available_vote_id s \<and> vote_for w < next_available_vote_id s"
    and "worker_create_apply o' s = (i, s')"
  shows "db_wf (bdb s')" "gap a (bdb s') = gap a (bdb s)"
    "\<forall>(i, w) \<in> set (rows (workers s')). vote_against w < next_available_vote_id s' \<and> vote_for w < next_available_vote_id s'"
proof -
  obtain k d where k: "worker_init (wc_owner o') (wc_initializer o') (bdb s) = (k, d)" by fastforce
  have s': "bdb s' = d" "next_available_vote_id s' = Suc (Suc (next_available_vote_id s))"
    "\<exists>w. rows (workers s') = rows (workers s) @ [(i, w)] \<and> vote_for w = next_available_vote_id s \<and> vote_against w = Suc (next_available_vote_id s)"
    using assms(3) k by (auto simp: worker_create_apply_def Let_def tbl_create_def)
  have "d = bdb s \<or> (\<exists>v. amount (vbo_balance v) = 0 \<and> d = (bdb s)\<lparr>vesting_balances := snd (tbl_create v (vesting_balances (bdb s)))\<rparr>)"
  proof (cases "wc_initializer o'")
    case (Vesting_initializer days)
    define v where "v = \<lparr>vbo_owner = wc_owner o', vbo_balance = mk_asset 0 0,
      vbo_policy = Cdd \<lparr>vesting_seconds = u32 (days * 86400), coin_seconds_earned = 0, start_claim = 0,
        coin_seconds_earned_last_update = head_block_time (bdb s)\<rparr>, vbo_balance_type = VB_worker\<rparr>"
    have "d = (bdb s)\<lparr>vesting_balances := snd (tbl_create v (vesting_balances (bdb s)))\<rparr>"
      using k Vesting_initializer by (auto simp: case_prod_unfold Let_def v_def)
    moreover have "amount (vbo_balance v) = 0" by (simp add: v_def)
    ultimately show ?thesis by blast
  qed (use k in auto)
  then show "db_wf (bdb s')" "gap a (bdb s') = gap a (bdb s)"
    using assms(1) by (auto simp: s' db_wf_upd db_wf_tables tbl_wf_ops gap_upd of_asset_def)
  show "\<forall>(i, w) \<in> set (rows (workers s')). vote_against w < next_available_vote_id s' \<and> vote_for w < next_available_vote_id s'"
    using assms(2) s'(2,3) by fastforce
qed

text \<open>A vesting period of more than 49710 days does not fit into the seconds of the policy: pay that should vest over 136 years vests within a day.\<close>

lemma worker_vesting_wraps:
  "\<exists>v. vesting_balances (snd (worker_init owner (Vesting_initializer 49711) d)) = snd (tbl_create v (vesting_balances d)) \<and>
     (case vbo_policy v of Cdd p \<Rightarrow> vesting_seconds p = 63104 | _ \<Rightarrow> False)"
  by (rule exI [of _ "\<lparr>vbo_owner = owner, vbo_balance = mk_asset 0 0, vbo_policy = Cdd \<lparr>vesting_seconds = u32 (49711 * 86400),
      coin_seconds_earned = 0, start_claim = 0, coin_seconds_earned_last_update = head_block_time d\<rparr>, vbo_balance_type = VB_worker\<rparr>"])
    (simp add: case_prod_unfold Let_def u32_def)

section \<open>What pay does to the ledger\<close>

definition burnt :: "worker_type \<Rightarrow> share_type \<Rightarrow> share_type" where
  "burnt k pay = (case k of Refund_worker _ \<Rightarrow> pay | _ \<Rightarrow> 0)"

definition less_supply :: "share_type \<Rightarrow> nat \<times> asset_dynamic_data_object \<Rightarrow> nat \<times> asset_dynamic_data_object" where
  "less_supply x r = (fst r, (snd r)\<lparr>current_supply := current_supply (snd r) - x\<rparr>)"

lemma less_supply: "less_supply 0 = id" "less_supply x (less_supply y r) = less_supply (x + y) r"
  by (auto simp: less_supply_def algebra_simps fun_eq_iff)

lemma map_less_supply [simp]: "map_option (less_supply 0) = id" "map_option (less_supply x) (map_option (less_supply y) r) = map_option (less_supply (x + y)) r"
  by (simp_all add: less_supply option.map_id0 option.map_comp comp_def)

context fc_safe
begin

lemma pay_worker_effect:
  assumes wf: "db_wf d" and run: "pay_worker L pay k d = Some (k', d')"
  shows "db_wf d' \<and> gap a d' = gap a d + (if a = 0 then pay else 0) \<and> head_block_time d' = head_block_time d \<and> assets d' = assets d \<and>
    get_dynamic_data d' 0 = map_option (less_supply (burnt k pay)) (get_dynamic_data d 0)"
proof (cases k)
  case (Refund_worker b)
  with run obtain i dd where dd: "get_dynamic_data d 0 = Some (i, dd)"
    and d': "d' = d\<lparr>asset_dynamic_data := tbl_modify i (\<lambda>x. x\<lparr>current_supply := current_supply dd - pay\<rparr>) (asset_dynamic_data d)\<rparr>"
    by (auto simp: opt_bind safe_Some)
  show ?thesis unfolding d'
    using dynamic_data_update(1-3) [OF wf dd, where f = "\<lambda>x. x\<lparr>current_supply := current_supply dd - pay\<rparr>"]
    by (simp add: Refund_worker burnt_def dd less_supply_def)
next
  case (Vesting_worker i)
  with run obtain v v' where v: "tbl_get i (vesting_balances d) = Some v" "vbo_deposit L v (head_block_time d) (mk_asset pay 0) = Some v'"
    and d': "d' = d\<lparr>vesting_balances := tbl_modify i (\<lambda>_. v') (vesting_balances d)\<rparr>"
    by (auto simp: opt_bind)
  show ?thesis
    using wf v(1) vbo_deposit_balance(1) [OF v(2), of a]
    by (simp add: d' Vesting_worker burnt_def gap_upd tbl_sum_modify db_wf_upd db_wf_tables tbl_wf_ops get_dynamic_data_def)
next
  case (Burn_worker b)
  with run have adj: "adjust_balance L GRAPHENE_NULL_ACCOUNT (mk_asset pay 0) d = Some d'" by (auto simp: opt_bind)
  show ?thesis
    using adjust_balance_effect(1,2) [OF wf adj] adjust_balance_keeps(1,5,11) [OF adj]
    by (auto simp: Burn_worker burnt_def)
qed

text \<open>The pay of all: what the budget loses the ledger gains, and the supply falls by what is burnt.\<close>

lemma pay_in_order_effect:
  "db_wf (bdb s) \<Longrightarrow> pay_in_order L passed ws budget s = Some (left, s') \<Longrightarrow>
   db_wf (bdb s') \<and> (\<forall>a. gap a (bdb s') = gap a (bdb s) + (if a = 0 then budget - left else 0)) \<and>
   head_block_time (bdb s') = head_block_time (bdb s) \<and> assets (bdb s') = assets (bdb s) \<and> bclock s' = bclock s \<and>
   (0 \<le> budget \<longrightarrow> 0 \<le> left) \<and>
   (\<exists>x. get_dynamic_data (bdb s') 0 = map_option (less_supply x) (get_dynamic_data (bdb s) 0) \<and>
     ((\<forall>(i, w) \<in> set ws. 0 \<le> requested_pay passed w) \<longrightarrow> 0 \<le> x))"
proof (induction ws arbitrary: budget s)
  case Nil
  then show ?case by (auto intro: exI [of _ 0])
next
  case (Cons iw ws)
  obtain i w where iw: "iw = (i, w)" by (cases iw)
  show ?case
  proof (cases "0 < budget")
    case False
    then show ?thesis using Cons.prems by (auto simp: iw intro: exI [of _ 0])
  next
    case True
    define pay where "pay = min budget (requested_pay passed w)"
    obtain k d where k: "pay_worker L pay (worker_kind w) (bdb s) = Some (k, d)"
      and rest: "pay_in_order L passed ws (budget - pay) (s\<lparr>bdb := d, workers := tbl_modify i (\<lambda>w. w\<lparr>worker_kind := k\<rparr>) (workers s)\<rparr>) = Some (left, s')"
      using Cons.prems(2) True by (auto simp: iw opt_bind safe_Some Let_def pay_def [symmetric])
    note e = pay_worker_effect [OF Cons.prems(1) k]
    have wf: "db_wf (bdb (s\<lparr>bdb := d, workers := tbl_modify i (\<lambda>w. w\<lparr>worker_kind := k\<rparr>) (workers s)\<rparr>))" using e by simp
    note ih = Cons.IH [OF wf rest, simplified]
    from ih obtain x where x: "get_dynamic_data (bdb s') 0 = map_option (less_supply x) (get_dynamic_data d 0)"
      "(\<forall>(i, w) \<in> set ws. 0 \<le> requested_pay passed w) \<longrightarrow> 0 \<le> x" by auto
    have "0 \<le> budget - pay" "0 \<le> requested_pay passed w \<longrightarrow> 0 \<le> burnt (worker_kind w) pay"
      using True by (auto simp: pay_def burnt_def split: worker_type.split)
    with ih e x show ?thesis
      by (auto simp: iw intro!: exI [of _ "x + burnt (worker_kind w) pay"])
  qed
qed

lemma process_budget_steps:
  assumes "process_budget L s = Some s'"
  obtains rec wb kb left s1 i dd delta where "initialize_budget_record L (head_block_time (bdb s)) s = Some rec"
    "wb \<le> total_budget rec" "0 \<le> kb" "kb \<le> total_budget rec - wb" "pay_workers L kb s = Some (left, s1)"
    "delta = wb + kb - left - from_accumulated_fees rec - from_unused_witness_budget rec" "get_dynamic_data (bdb s1) 0 = Some (i, dd)"
    "bdb s' = (bdb s1)\<lparr>asset_dynamic_data :=
       tbl_modify i (\<lambda>x. x\<lparr>current_supply := current_supply dd + delta, accumulated_fees := 0\<rparr>) (asset_dynamic_data (bdb s1))\<rparr>"
    "bclock s' = (bclock s1)\<lparr>witness_budget := wb\<rparr>" "last_budget_time s' = head_block_time (bdb s)"
proof -
  obtain rec left s1 i dd where rec: "initialize_budget_record L (head_block_time (bdb s)) s = Some rec"
    and av: "in_s64 (total_budget rec - min (witness_request s) (total_budget rec))"
    and pay: "pay_workers L (worker_share s (total_budget rec - min (witness_request s) (total_budget rec))) s = Some (left, s1)"
    and dd: "get_dynamic_data (bdb s1) 0 = Some (i, dd)"
    and s': "bdb s' = (bdb s1)\<lparr>asset_dynamic_data := tbl_modify i (\<lambda>x. x\<lparr>current_supply := current_supply dd +
          (min (witness_request s) (total_budget rec) + worker_share s (total_budget rec - min (witness_request s) (total_budget rec))
           - left - from_accumulated_fees rec - from_unused_witness_budget rec), accumulated_fees := 0\<rparr>) (asset_dynamic_data (bdb s1))\<rparr>"
       "bclock s' = (bclock s1)\<lparr>witness_budget := min (witness_request s) (total_budget rec)\<rparr>" "last_budget_time s' = head_block_time (bdb s)"
    using assms unfolding process_budget_def Let_def by (auto simp: opt_bind safe_Some)
  have "0 \<le> worker_share s x \<and> worker_share s x \<le> x" if "0 \<le> x" "in_s64 x" for x
  proof -
    have "0 \<le> u128 (u128 (worker_budget_per_day s) * u64 (time_to_maint s)) div (60 * 60 * 24)"
      by (subst pos_imp_zdiv_nonneg_iff) simp_all
    then show ?thesis using that by (auto simp: worker_share_def Let_def in_s64_def)
  qed
  from this [OF _ av] show ?thesis by (intro that [OF rec _ _ _ pay refl dd s']) simp_all
qed

lemma process_budget_effect:
  assumes wf: "db_wf (bdb s)" and run: "process_budget L s = Some s'"
  shows "db_wf (bdb s')" "gap a (bdb s') + (if a = 0 then witness_budget (bclock s') else 0) =
      gap a (bdb s) + (if a = 0 then witness_budget (bclock s) else 0)" "head_block_time (bdb s') = head_block_time (bdb s)"
proof -
  obtain rec wb kb left s1 i dd delta where rec: "initialize_budget_record L (head_block_time (bdb s)) s = Some rec"
    and pay: "pay_workers L kb s = Some (left, s1)"
    and delta: "delta = wb + kb - left - from_accumulated_fees rec - from_unused_witness_budget rec" and dd: "get_dynamic_data (bdb s1) 0 = Some (i, dd)"
    and s': "bdb s' = (bdb s1)\<lparr>asset_dynamic_data :=
       tbl_modify i (\<lambda>x. x\<lparr>current_supply := current_supply dd + delta, accumulated_fees := 0\<rparr>) (asset_dynamic_data (bdb s1))\<rparr>"
    "bclock s' = (bclock s1)\<lparr>witness_budget := wb\<rparr>"
    by (rule process_budget_steps [OF run])
  note p = pay_in_order_effect [OF wf pay [unfolded pay_workers_def]]
  obtain dd0 where dd0: "get_dynamic_data (bdb s) 0 = Some (i, dd0)" "accumulated_fees dd0 = accumulated_fees dd"
    using p dd by (cases "get_dynamic_data (bdb s) 0") (force simp: less_supply_def)+
  have r: "from_accumulated_fees rec = accumulated_fees dd" "from_unused_witness_budget rec = witness_budget (bclock s)"
    using rec dd0 by (auto simp: initialize_budget_record_def opt_bind Let_def empty_budget_record_def split: if_splits)
  note u = dynamic_data_update(1,2) [OF p [THEN conjunct1] dd, where f = "\<lambda>x. x\<lparr>current_supply := current_supply dd + delta, accumulated_fees := 0\<rparr>", folded s'(1)]
  show "db_wf (bdb s')" by (rule u(1))
  show "gap a (bdb s') + (if a = 0 then witness_budget (bclock s') else 0) = gap a (bdb s) + (if a = 0 then witness_budget (bclock s) else 0)"
    using u(2) [of a] p by (simp add: s'(2) delta r)
  show "head_block_time (bdb s') = head_block_time (bdb s)" using p by (simp add: s'(1))
qed

text \<open>Nothing is released beyond the reserve.\<close>

lemma releasable_le: "0 \<le> r \<Longrightarrow> in_s64 r \<Longrightarrow> releasable r dt \<le> r"
proof -
  assume r: "0 \<le> r" "in_s64 r"
  let ?b = "u128 (u128 (u128 (u128 r * u64 dt) * GRAPHENE_CORE_ASSET_CYCLE_RATE) + (2 ^ GRAPHENE_CORE_ASSET_CYCLE_RATE_BITS - 1))
    div 2 ^ GRAPHENE_CORE_ASSET_CYCLE_RATE_BITS"
  have "0 \<le> ?b" by (subst pos_imp_zdiv_nonneg_iff) simp_all
  then show ?thesis using r by (auto simp: releasable_def Let_def in_s64_def)
qed

lemma total_budget_le:
  assumes run: "initialize_budget_record L now s = Some rec" and core: "tbl_get 0 (assets (bdb s)) = Some a" "get_dynamic_data (bdb s) 0 = Some (i, dd)"
    and nn: "current_supply dd \<le> max_supply (ao_options a)" "0 \<le> accumulated_fees dd" "0 \<le> witness_budget (bclock s)"
  shows "total_budget rec \<le> max_supply (ao_options a) - current_supply dd + accumulated_fees dd + witness_budget (bclock s)"
    "from_accumulated_fees rec = accumulated_fees dd" "from_unused_witness_budget rec = witness_budget (bclock s)"
proof -
  let ?r = "max_supply (ao_options a) - current_supply dd + accumulated_fees dd + witness_budget (bclock s)"
  have "total_budget rec = 0 \<or> in_s64 ?r \<and> total_budget rec = releasable ?r (now - last_budget_time s)"
    and f: "from_accumulated_fees rec = accumulated_fees dd" "from_unused_witness_budget rec = witness_budget (bclock s)"
    using run core by (auto simp: initialize_budget_record_def reserved_def opt_bind Let_def empty_budget_record_def safe_Some split: if_splits)
  then show "total_budget rec \<le> ?r" using releasable_le [of ?r "now - last_budget_time s"] nn by auto
  show "from_accumulated_fees rec = accumulated_fees dd" "from_unused_witness_budget rec = witness_budget (bclock s)" by (fact f)+
qed

lemma process_budget_supply:
  assumes wf: "db_wf (bdb s)" and run: "process_budget L s = Some s'" and core: "tbl_get 0 (assets (bdb s)) = Some a" "get_dynamic_data (bdb s) 0 = Some (i, dd)"
    and nn: "current_supply dd \<le> max_supply (ao_options a)" "0 \<le> accumulated_fees dd" "0 \<le> witness_budget (bclock s)"
    and pays: "\<forall>(i, w) \<in> set (active_workers s). 0 \<le> requested_pay ((head_block_time (bdb s) - last_budget_time s) * 1000000) w"
  shows "supply_of 0 (bdb s') \<le> max_supply (ao_options a)"
proof -
  obtain rec wb kb left s1 j dd1 delta where rec: "initialize_budget_record L (head_block_time (bdb s)) s = Some rec"
    and b: "wb \<le> total_budget rec" "0 \<le> kb" "kb \<le> total_budget rec - wb" and pay: "pay_workers L kb s = Some (left, s1)"
    and delta: "delta = wb + kb - left - from_accumulated_fees rec - from_unused_witness_budget rec" and dd1: "get_dynamic_data (bdb s1) 0 = Some (j, dd1)"
    and s': "bdb s' = (bdb s1)\<lparr>asset_dynamic_data :=
       tbl_modify j (\<lambda>x. x\<lparr>current_supply := current_supply dd1 + delta, accumulated_fees := 0\<rparr>) (asset_dynamic_data (bdb s1))\<rparr>"
    by (rule process_budget_steps [OF run])
  note p = pay_in_order_effect [OF wf pay [unfolded pay_workers_def]] and t = total_budget_le [OF rec core nn]
  obtain x where x: "0 \<le> x" "Some (j, dd1) = map_option (less_supply x) (Some (i, dd))" using p pays dd1 core(2) by metis
  then have "current_supply dd1 \<le> current_supply dd" by (auto simp: less_supply_def)
  moreover have "0 \<le> left" using p b(2) by blast
  moreover have "supply_of 0 (bdb s') = current_supply dd1 + delta"
    using dynamic_data_update(3) [OF p [THEN conjunct1] dd1, where f = "\<lambda>x. x\<lparr>current_supply := current_supply dd1 + delta, accumulated_fees := 0\<rparr>", folded s']
    by (simp add: supply_of_def)
  ultimately show ?thesis using b t delta by linarith
qed

end

lemma requested_pay_exact:
  assumes "0 \<le> daily_pay w" "0 \<le> e" "daily_pay w * e < 2 ^ 63 * 86400"
  shows "requested_pay (e * 1000000) w = daily_pay w * e div 86400"
proof (cases "e = 0")
  case False
  then have "daily_pay w * 1 \<le> daily_pay w * e" using assms by (intro mult_left_mono) auto
  then have d: "u128 (daily_pay w) = daily_pay w" using assms by simp
  have "daily_pay w * (e * 1000000) div (86400 * 1000000) = daily_pay w * e div 86400"
    by (metis mult.assoc div_mult_mult2 zero_neq_numeral)
  moreover have "0 \<le> daily_pay w * e div 86400" using assms by (subst pos_imp_zdiv_nonneg_iff) simp_all
  moreover have "daily_pay w * e div 86400 < 2 ^ 63" using assms(3) by (simp add: div_less_iff_less_mult)
  moreover have "u128 (daily_pay w * (e * 1000000)) = daily_pay w * (e * 1000000)"
  proof -
    define m where "m = daily_pay w * e"
    have "0 \<le> m" "m < 2 ^ 63 * 86400" using assms by (simp_all add: m_def)
    then have "u128 (m * 1000000) = m * 1000000" by (intro u128_id) simp_all
    then show ?thesis by (simp add: m_def mult.assoc)
  qed
  ultimately show ?thesis by (simp add: requested_pay_def d)
qed (simp add: requested_pay_def)

section \<open>Properties\<close>

text \<open>
  (C9) The budget of a maintenance interval neither creates nor loses anything, and never releases more than there is in reserve: with what
  is set aside for the witnesses, what the workers are paid, what refund workers return and the fees that are taken in, the supply of
  the core asset differs from what is held and budgeted by as much as before, and it stays within the maximal supply.
\<close>

theorem process_budget_sound:
  assumes "fc_safe L" "db_wf (bdb s)" "process_budget L s = Some s'" "tbl_get 0 (assets (bdb s)) = Some a" "get_dynamic_data (bdb s) 0 = Some (i, dd)"
    and "current_supply dd \<le> max_supply (ao_options a)" "0 \<le> accumulated_fees dd" "0 \<le> witness_budget (bclock s)"
    and "last_budget_time s \<le> head_block_time (bdb s)"
    and "\<forall>(i, w) \<in> set (active_workers s). 0 \<le> daily_pay w \<and> daily_pay w * (head_block_time (bdb s) - last_budget_time s) < 2 ^ 63 * 86400"
  shows "db_wf (bdb s') \<and> gap 0 (bdb s') + witness_budget (bclock s') = gap 0 (bdb s) + witness_budget (bclock s) \<and>
    (\<forall>x. x \<noteq> 0 \<longrightarrow> gap x (bdb s') = gap x (bdb s)) \<and> supply_of 0 (bdb s') \<le> max_supply (ao_options a)"
proof -
  have "\<forall>(i, w) \<in> set (active_workers s). 0 \<le> requested_pay ((head_block_time (bdb s) - last_budget_time s) * 1000000) w"
  proof (intro ballI, clarify)
    fix i w
    assume "(i, w) \<in> set (active_workers s)"
    then have w: "0 \<le> daily_pay w" "daily_pay w * (head_block_time (bdb s) - last_budget_time s) < 2 ^ 63 * 86400" using assms(10) by auto
    show "0 \<le> requested_pay ((head_block_time (bdb s) - last_budget_time s) * 1000000) w"
      using w assms(9) by (subst requested_pay_exact) (auto simp: pos_imp_zdiv_nonneg_iff)
  qed
  note sup = fc_safe.process_budget_supply [OF assms(1-8) this]
  note e = fc_safe.process_budget_effect [OF assms(1-3)]
  have "gap x (bdb s') = gap x (bdb s)" if "x \<noteq> 0" for x using e(2) [of x] that by simp
  then show ?thesis using sup e(1) e(2) [of 0] by auto
qed

definition demo_worker :: "worker_type \<Rightarrow> share_type \<Rightarrow> uint64 \<Rightarrow> worker_object" where
  "demo_worker k pay votes = \<lparr>worker_account = 7, work_begin_date = 500, work_end_date = 900000, daily_pay = pay, worker_kind = k,
     worker_name = ''w'', worker_url = [], vote_for = 0, vote_against = 0, total_votes_for = votes, total_votes_against = 0\<rparr>"

definition demo_core :: asset_object where
  "demo_core = demo_fee_asset\<lparr>ao_options := (ao_options demo_fee_asset)\<lparr>max_supply := 1000000\<rparr>\<rparr>"

definition demo_budget :: budget_db where
  "demo_budget = \<lparr>bdb = demo_pending\<lparr>assets := \<lparr>rows = [(0, demo_core)], next_instance = 1\<rparr>,
       asset_dynamic_data := \<lparr>rows = [(0, \<lparr>current_supply = 900000, confidential_supply = 0, accumulated_fees = 250, fee_pool = 0\<rparr>)],
         next_instance = 1\<rparr>,
       vesting_balances := \<lparr>rows = [(0, \<lparr>vbo_owner = 7, vbo_balance = mk_asset 0 0,
         vbo_policy = Cdd \<lparr>vesting_seconds = 100, coin_seconds_earned = 0, start_claim = 0, coin_seconds_earned_last_update = 1000\<rparr>,
         vbo_balance_type = VB_worker\<rparr>)], next_instance = 1\<rparr>,
       head_block_time := 87400, next_maintenance_time := 87440\<rparr>,
     bclock = demo_clock\<lparr>witness_budget := 500, witness_pay_per_block := 1\<rparr>,
     workers = \<lparr>rows = [(0, demo_worker (Burn_worker 0) 8 50), (1, demo_worker (Refund_worker 0) 5 90), (2, demo_worker (Vesting_worker 0) 9 70)],
       next_instance = 3\<rparr>,
     budget_records = tbl_empty, last_budget_time = 1000, worker_budget_per_day = 43200, next_available_vote_id = 1\<rparr>"

lemma demo_budget_wf: "db_wf (bdb demo_budget)"
  using demo_pending_wf by (simp add: demo_budget_def db_wf_def assets_linked_def tbl_wf_def tbl_get_def demo_core_def demo_fee_asset_def)

theorem process_budget_sound_witness:
  "\<exists>s'. process_budget checked_lib demo_budget = Some s' \<and> supply_of 0 (bdb s') = 899273 \<and> witness_budget (bclock s') = 8 \<and>
     map (worker_kind \<circ> snd) (rows (workers s')) = [Burn_worker 6, Refund_worker 5, Vesting_worker 0] \<and>
     gap 0 (bdb s') + 8 = gap 0 (bdb demo_budget) + 500"
proof -
  have "case process_budget checked_lib demo_budget of None \<Rightarrow> False | Some s' \<Rightarrow> supply_of 0 (bdb s') = 899273 \<and> witness_budget (bclock s') = 8 \<and>
     map (worker_kind \<circ> snd) (rows (workers s')) = [Burn_worker 6, Refund_worker 5, Vesting_worker 0]" by code_simp
  then obtain s' where run: "process_budget checked_lib demo_budget = Some s'" and s': "supply_of 0 (bdb s') = 899273" "witness_budget (bclock s') = 8"
     "map (worker_kind \<circ> snd) (rows (workers s')) = [Burn_worker 6, Refund_worker 5, Vesting_worker 0]"
    by (auto split: option.splits)
  have core: "tbl_get 0 (assets (bdb demo_budget)) = Some demo_core"
    "get_dynamic_data (bdb demo_budget) 0 = Some (0, \<lparr>current_supply = 900000, confidential_supply = 0, accumulated_fees = 250, fee_pool = 0\<rparr>)"
    by (simp_all add: demo_budget_def tbl_get_def get_dynamic_data_def demo_core_def demo_fee_asset_def)
  have ws: "\<forall>(i, w) \<in> set (active_workers demo_budget).
      0 \<le> daily_pay w \<and> daily_pay w * (head_block_time (bdb demo_budget) - last_budget_time demo_budget) < 2 ^ 63 * 86400"
    by code_simp
  have "gap 0 (bdb s') + witness_budget (bclock s') = gap 0 (bdb demo_budget) + witness_budget (bclock demo_budget)"
    using process_budget_sound [OF checked_lib_safe demo_budget_wf run core _ _ _ _ ws] by (simp add: demo_core_def demo_budget_def)
  with run s' show ?thesis by (simp add: demo_budget_def)
qed

text \<open>
  Maintenance comes back on schedule: the next one is the first of the regular times that is later than the head block, a
  multiple of the interval after the first block and a whole number of intervals after the last one otherwise.
\<close>

theorem next_maintenance_first:
  assumes "fc_time L" "0 < interval" "0 \<le> t" "t \<le> now" "now + interval < 2 ^ 32"
  shows "now < next_maintenance L num now interval t \<and> next_maintenance L num now interval t \<le> now + interval \<and>
    (\<exists>k. next_maintenance L num now interval t = (if num = 1 then 0 else t) + k * interval)"
proof -
  define base where "base = (if num = 1 then 0 else t)"
  define y where "y = (now - base) div interval"
  define z where "z = (y + 1) * interval"
  have b: "base \<le> now" "0 \<le> base" using assms by (auto simp: base_def)
  have y0: "0 \<le> y" using b assms(2) by (simp add: y_def pos_imp_zdiv_nonneg_iff)
  have m: "now - base = y * interval + (now - base) mod interval" by (simp add: y_def)
  have z: "now < base + z" "base + z \<le> now + interval"
    using m pos_mod_bound [OF assms(2), of "now - base"] pos_mod_sign [OF assms(2), of "now - base"] by (simp_all add: z_def distrib_right)
  have yz: "0 \<le> z" "y + 1 \<le> z" using y0 assms(2) mult_left_mono [of 1 interval "y + 1"] by (simp_all add: z_def)
  have "u32 (y + 1) = y + 1" "u32 z = z" "u32 (base + z) = base + z" using b yz z assms(5) y0 by (auto intro!: u32_id)
  then have "next_maintenance L num now interval t = base + z"
    using assms fc_time.tps_add [OF assms(1)] by (auto simp: next_maintenance_def base_def z_def y_def)
  then show ?thesis using z by (auto simp: base_def z_def)
qed

theorem next_maintenance_first_witness:
  "next_maintenance checked_lib 2 10000 3600 1000 = 11800 \<and> 10000 < next_maintenance checked_lib 2 10000 3600 1000"
proof -
  have "next_maintenance checked_lib 2 10000 3600 1000 = 11800" by code_simp
  with next_maintenance_first [OF checked.fc_time_axioms, of 3600 1000 10000 2] show ?thesis by simp
qed

end
