(* ===== verification/Voting.thy ===== *)
theory Voting
  imports Authority External Tables "HOL-Library.Multiset"
begin

text \<open>
  The election of witnesses and committee members (\<^verbatim>\<open>db_maint.cpp\<close>: the vote tally of \<^verbatim>\<open>perform_chain_maintenance\<close>,
  \<^verbatim>\<open>sort_votable_objects\<close>, \<^verbatim>\<open>update_active_witnesses\<close>, \<^verbatim>\<open>update_active_committee_members\<close>; \<^verbatim>\<open>vote_count.hpp\<close>). Vote
  identifiers are their instance numbers, which are unique over the types. \<^verbatim>\<open>find_msb\<close>, the position of the highest bit of a
  number, is of \<^verbatim>\<open>boost\<close> and an argument of the model. Reading a vector out of range, which C++ leaves undefined, is \<open>None\<close>.
\<close>

section \<open>State\<close>

record account_options =
  voting_account :: account_id_type
  num_witness :: uint16
  num_committee :: uint16
  votes :: "nat list"

text \<open>The members of \<^verbatim>\<open>witness_object\<close> and \<^verbatim>\<open>committee_member_object\<close> that an election reads and writes.\<close>

record votable_object =
  vo_account :: account_id_type
  vo_vote_id :: nat
  vo_total_votes :: uint64

record vote_params =
  maximum_witness_count :: uint16
  maximum_committee_count :: uint16
  count_non_member_votes :: bool

record vote_tally =
  vote_tally_buffer :: "uint64 list"
  witness_count_histogram :: "uint64 list"
  committee_count_histogram :: "uint64 list"
  total_voting_stake :: uint64

record ('k, 'a) voting_db =
  vd_time :: time_point_sec
  witness_votables :: "votable_object tbl"
  committee_votables :: "votable_object tbl"
  active_auth :: "account_id_type \<rightharpoonup> ('k, 'a) authority"
  elected_witnesses :: "nat list"
  elected_committee :: "nat list"
  min_witness_count :: nat
  min_committee_member_count :: nat
  track_standby_votes :: bool

definition HARDFORK_533_TIME :: time_point_sec where [chain_consts]: "HARDFORK_533_TIME = 1456250400"
definition GRAPHENE_PROXY_TO_SELF_ACCOUNT :: account_id_type where [chain_consts]: "GRAPHENE_PROXY_TO_SELF_ACCOUNT = 5"

definition u16 :: "int \<Rightarrow> int" where "u16 x = x mod 2 ^ 16"

section \<open>The tally\<close>

text \<open>
  The buffers of a maintenance. The code resizes them, and new entries of a vector are zero; the old ones are gone because the
  last maintenance has cleared the buffers at its end.
\<close>

definition new_tally :: "vote_params \<Rightarrow> nat \<Rightarrow> vote_tally" where
  "new_tally P next_available_vote_id = \<lparr>vote_tally_buffer = replicate next_available_vote_id 0,
     witness_count_histogram = replicate (nat (maximum_witness_count P div 2 + 1)) 0,
     committee_count_histogram = replicate (nat (maximum_committee_count P div 2 + 1)) 0, total_voting_stake = 0\<rparr>"

definition is_voting :: "account_options \<Rightarrow> bool" where
  "is_voting ao \<longleftrightarrow> voting_account ao \<noteq> GRAPHENE_PROXY_TO_SELF_ACCOUNT \<or> votes ao \<noteq> []"

text \<open>The account that speaks for the stake: the account itself, or the one it names.\<close>

definition opinion_account :: "(account_id_type \<rightharpoonup> account_options) \<Rightarrow> account_options \<Rightarrow> account_options option" where
  "opinion_account get ao = (if voting_account ao = GRAPHENE_PROXY_TO_SELF_ACCOUNT then Some ao else get (voting_account ao))"

text \<open>The stake of an account: its core asset in orders, in its cashback balance and in its balance at the last maintenance.\<close>

definition voting_stake :: "share_type \<Rightarrow> share_type option \<Rightarrow> share_type \<Rightarrow> uint64" where
  "voting_stake in_orders cashback in_balance = u64 (in_orders + (case cashback of Some b \<Rightarrow> b | None \<Rightarrow> 0) + in_balance)"

definition add_at :: "nat \<Rightarrow> uint64 \<Rightarrow> uint64 list \<Rightarrow> uint64 list" where
  "add_at i x xs = (if i < length xs then xs[i := u64 (xs ! i + x)] else xs)"

definition add_count :: "uint16 \<Rightarrow> uint16 \<Rightarrow> uint64 \<Rightarrow> uint64 list \<Rightarrow> uint64 list" where
  "add_count wanted maximum stake hist =
     (if wanted \<le> maximum then add_at (min (nat (wanted div 2)) (length hist - 1)) stake hist else hist)"

text \<open>\<^verbatim>\<open>vote_tally_helper::operator()\<close> on an account with the stake that \<open>voting_stake\<close> gives; \<open>member\<close> tells whether it is a member.\<close>

definition tally_vote ::
  "vote_params \<Rightarrow> (account_id_type \<rightharpoonup> account_options) \<Rightarrow> bool \<Rightarrow> account_options \<Rightarrow> uint64 \<Rightarrow> vote_tally \<Rightarrow> vote_tally option" where
  "tally_vote P get member ao stake T =
     (if count_non_member_votes P \<or> member then do {
        op \<leftarrow> opinion_account get ao;
        Some (T\<lparr>vote_tally_buffer := fold (\<lambda>i. add_at i stake) (votes op) (vote_tally_buffer T),
          witness_count_histogram := add_count (num_witness op) (maximum_witness_count P) stake (witness_count_histogram T),
          committee_count_histogram := add_count (num_committee op) (maximum_committee_count P) stake (committee_count_histogram T),
          total_voting_stake := u64 (total_voting_stake T + stake)\<rparr>)
      }
      else Some T)"

text \<open>The tally of all accounts that vote, each with its options and stake.\<close>

fun tally_votes ::
  "vote_params \<Rightarrow> (account_id_type \<rightharpoonup> account_options) \<Rightarrow> (bool \<times> account_options \<times> uint64) list \<Rightarrow> vote_tally \<Rightarrow> vote_tally option" where
  "tally_votes P get [] T = Some T"
| "tally_votes P get ((member, ao, stake) # xs) T = do { T1 \<leftarrow> tally_vote P get member ao stake T; tally_votes P get xs T1 }"

section \<open>The number of seats\<close>

text \<open>The loop over the histogram, from its second entry on.\<close>

fun half_count :: "fc_lib \<Rightarrow> share_type \<Rightarrow> nat \<Rightarrow> share_type \<Rightarrow> uint64 list \<Rightarrow> nat option" where
  "half_count L target k stake_tally [] = Some k"
| "half_count L target k stake_tally (h # hs) =
     (if stake_tally \<le> target then do { t \<leftarrow> safe_add L stake_tally (s64 h); half_count L target (Suc k) t hs } else Some k)"

definition seats :: "fc_lib \<Rightarrow> nat \<Rightarrow> uint64 list \<Rightarrow> uint64 \<Rightarrow> nat option" where
  "seats L minimum hist total_stake =
     (let stake_target = u64 (total_stake - hist ! 0) div 2 in do {
        k \<leftarrow> (if 0 < stake_target then half_count L stake_target 0 0 (tl hist) else Some 0);
        Some (max (k * 2 + 1) minimum)
      })"

section \<open>The election\<close>

text \<open>
  Those with the most votes, of two with the same votes the one with the lower identifier first. The code compares the tallies
  as signed numbers, which for tallies below \<open>2 ^ 63\<close> is the order used here. On an index without objects the result is empty; the
  code evaluates \<^verbatim>\<open>refs.front()\<close> there, which C++ leaves undefined.
\<close>

definition sort_votable_objects :: "nat \<Rightarrow> uint64 list \<Rightarrow> votable_object tbl \<Rightarrow> (nat \<times> votable_object) list" where
  "sort_votable_objects n tally t =
     take (min n (length (rows t)))
       (sort_key (\<lambda>(i, x). - (tally ! vo_vote_id x)) (sort_key (\<lambda>(i, x). vo_vote_id x) (rows t)))"

definition set_total_votes :: "uint64 list \<Rightarrow> nat list \<Rightarrow> votable_object tbl \<Rightarrow> votable_object tbl" where
  "set_total_votes tally ids t =
     t\<lparr>rows := map (\<lambda>(i, x). (i, if i \<in> set ids then x\<lparr>vo_total_votes := tally ! vo_vote_id x\<rparr> else x)) (rows t)\<rparr>"

record ('k, 'a) vote_counter =
  vc_total_votes :: uint64
  vc_bitshift :: int
  vc_auth :: "('k, 'a) authority"

definition new_vote_counter :: "('k, 'a) vote_counter" where
  "new_vote_counter = \<lparr>vc_total_votes = 0, vc_bitshift = - 1,
     vc_auth = \<lparr>weight_threshold = 0, account_auths = [], key_auths = [], address_auths = []\<rparr>\<rparr>"

definition shift_of :: "(uint64 \<Rightarrow> nat) \<Rightarrow> uint64 \<Rightarrow> nat" where
  "shift_of find_msb v = find_msb v - 15"

definition vc_add :: "(uint64 \<Rightarrow> nat) \<Rightarrow> account_id_type \<Rightarrow> uint64 \<Rightarrow> ('k, 'a) vote_counter \<Rightarrow> ('k, 'a) vote_counter" where
  "vc_add find_msb who v c =
     (if v = 0 then c
      else let b = (if vc_bitshift c = - 1 then int (shift_of find_msb v) else vc_bitshift c); scaled = max (v div 2 ^ nat b) 1
        in c\<lparr>vc_bitshift := b, vc_total_votes := u64 (vc_total_votes c + scaled),
             vc_auth := (vc_auth c)\<lparr>account_auths := fm_put who (u16 scaled) (account_auths (vc_auth c))\<rparr>\<rparr>)"

definition vc_finish :: "('k, 'a) vote_counter \<Rightarrow> ('k, 'a) authority \<Rightarrow> ('k, 'a) authority" where
  "vc_finish c out = (if vc_total_votes c = 0 then out else (vc_auth c)\<lparr>weight_threshold := u32 (vc_total_votes c) div 2 + 1\<rparr>)"

definition counted_authority :: "(uint64 \<Rightarrow> nat) \<Rightarrow> (account_id_type \<times> uint64) list \<Rightarrow> ('k, 'a) authority \<Rightarrow> ('k, 'a) authority" where
  "counted_authority find_msb xs out = vc_finish (fold (\<lambda>(who, v). vc_add find_msb who v) xs new_vote_counter) out"

text \<open>The authority before hard fork 533; \<^verbatim>\<open>map::emplace\<close> keeps the first entry of an account.\<close>

definition scaled_authority :: "(uint64 \<Rightarrow> nat) \<Rightarrow> (account_id_type \<times> uint64) list \<Rightarrow> ('k, 'a) authority \<Rightarrow> ('k, 'a) authority" where
  "scaled_authority find_msb xs out =
     (let total_votes = fold (\<lambda>(who, v) t. u64 (t + v)) xs 0; drop_bits = shift_of find_msb total_votes;
          weights = fold (\<lambda>(who, v) m. if map_of m who = None then fm_put who v m else m) xs [];
          scaled = map (\<lambda>(who, v). (who, u16 (max (v div 2 ^ drop_bits) 1))) weights
      in out\<lparr>account_auths := scaled, key_auths := [], weight_threshold := fold (\<lambda>(who, v) t. u32 (t + v)) scaled 0 div 2 + 1\<rparr>)"

definition elected_authority ::
  "(uint64 \<Rightarrow> nat) \<Rightarrow> time_point_sec \<Rightarrow> uint64 list \<Rightarrow> (nat \<times> votable_object) list \<Rightarrow> ('k, 'a) authority \<Rightarrow> ('k, 'a) authority" where
  "elected_authority find_msb now tally es out =
     (let xs = map (\<lambda>(i, x). (vo_account x, tally ! vo_vote_id x)) es
      in if now < HARDFORK_533_TIME then scaled_authority find_msb xs out else counted_authority find_msb xs out)"

definition in_range :: "uint64 list \<Rightarrow> votable_object tbl \<Rightarrow> bool" where
  "in_range tally t \<longleftrightarrow> (\<forall>(i, x) \<in> set (rows t). vo_vote_id x < length tally)"

definition update_active_witnesses ::
  "fc_lib \<Rightarrow> (uint64 \<Rightarrow> nat) \<Rightarrow> vote_tally \<Rightarrow> ('k, 'a) voting_db \<Rightarrow> ('k, 'a) voting_db option" where
  "update_active_witnesses L find_msb T s =
     (let tally = vote_tally_buffer T; t = witness_votables s in do {
        n \<leftarrow> seats L (min_witness_count s) (witness_count_histogram T) (total_voting_stake T);
        fc_assert (in_range tally t);
        let wits = sort_votable_objects n tally t;
        au \<leftarrow> active_auth s GRAPHENE_WITNESS_ACCOUNT;
        Some (s\<lparr>witness_votables := set_total_votes tally (if track_standby_votes s then map fst (rows t) else map fst wits) t,
          active_auth := (active_auth s)(GRAPHENE_WITNESS_ACCOUNT \<mapsto> elected_authority find_msb (vd_time s) tally wits au),
          elected_witnesses := sort (map fst wits)\<rparr>)
      })"

definition update_active_committee_members ::
  "fc_lib \<Rightarrow> (uint64 \<Rightarrow> nat) \<Rightarrow> vote_tally \<Rightarrow> ('k, 'a) voting_db \<Rightarrow> ('k, 'a) voting_db option" where
  "update_active_committee_members L find_msb T s =
     (let tally = vote_tally_buffer T; t = committee_votables s in do {
        n \<leftarrow> seats L (min_committee_member_count s) (committee_count_histogram T) (total_voting_stake T);
        fc_assert (in_range tally t);
        let cms = sort_votable_objects n tally t;
        let s1 = s\<lparr>committee_votables := set_total_votes tally (if track_standby_votes s then map fst (rows t) else map fst cms) t\<rparr>;
        s2 \<leftarrow> (if cms = [] then Some s1 else do {
          au \<leftarrow> active_auth s1 GRAPHENE_COMMITTEE_ACCOUNT;
          _ \<leftarrow> active_auth s1 GRAPHENE_RELAXED_COMMITTEE_ACCOUNT;
          let au' = elected_authority find_msb (vd_time s) tally cms au;
          Some (s1\<lparr>active_auth := (active_auth s1)(GRAPHENE_COMMITTEE_ACCOUNT \<mapsto> au', GRAPHENE_RELAXED_COMMITTEE_ACCOUNT \<mapsto> au')\<rparr>)
        });
        Some (s2\<lparr>elected_committee := map fst cms\<rparr>)
      })"

section \<open>The weights of an elected authority\<close>

locale boost_msb =
  fixes find_msb :: "uint64 \<Rightarrow> nat"
  assumes msb: "0 < v \<Longrightarrow> v < 2 ^ 64 \<Longrightarrow> 2 ^ find_msb v \<le> v \<and> v < 2 ^ Suc (find_msb v)"
begin

lemma shifted_bound:
  assumes "0 < v" "v < 2 ^ 64"
  shows "v div 2 ^ shift_of find_msb v \<le> 65535"
proof -
  have "v < 2 ^ Suc (find_msb v)" using msb assms by blast
  also have "\<dots> \<le> 2 ^ (16 + shift_of find_msb v)" by (intro power_increasing) (simp_all add: shift_of_def)
  finally have "v < 65536 * 2 ^ shift_of find_msb v" by (simp add: power_add)
  moreover have "(v div 2 ^ shift_of find_msb v) * 2 ^ shift_of find_msb v \<le> v" by (simp add: minus_mod_eq_div_mult [symmetric])
  ultimately have "(v div 2 ^ shift_of find_msb v) * 2 ^ shift_of find_msb v < 65536 * 2 ^ shift_of find_msb v" by linarith
  then show ?thesis by (simp add: mult_less_cancel_right)
qed

end

definition weight_sum :: "(account_id_type \<times> uint16) list \<Rightarrow> int" where
  "weight_sum m = (\<Sum>x \<leftarrow> m. snd x)"

lemma weight_sum_put: "k \<notin> fst ` set m \<Longrightarrow> weight_sum (fm_put k v m) = weight_sum m + v"
  by (induction k v m rule: fm_put.induct) (auto simp: weight_sum_def)

lemma set_fm_put: "k \<notin> fst ` set m \<Longrightarrow> set (fm_put k v m) = insert (k, v) (set m)"
  by (induction k v m rule: fm_put.induct) auto

text \<open>What the counter holds once the shift is fixed.\<close>

definition counter_ok :: "nat \<Rightarrow> ('k, 'a) vote_counter \<Rightarrow> bool" where
  "counter_ok b c \<longleftrightarrow> vc_bitshift c = int b \<and> vc_total_votes c = weight_sum (account_auths (vc_auth c)) \<and> 0 \<le> vc_total_votes c \<and>
     (\<forall>x \<in> set (account_auths (vc_auth c)). 1 \<le> snd x \<and> snd x \<le> 65535)"

lemma vc_add_ok:
  assumes "counter_ok b c" "0 \<le> v" "v div 2 ^ b \<le> 65535" "who \<notin> fst ` set (account_auths (vc_auth c))" "vc_total_votes c + 65535 < 2 ^ 32"
  shows "counter_ok b (vc_add find_msb who v c) \<and> vc_total_votes (vc_add find_msb who v c) \<le> vc_total_votes c + 65535 \<and>
    fst ` set (account_auths (vc_auth (vc_add find_msb who v c))) = fst ` set (account_auths (vc_auth c)) \<union> (if v = 0 then {} else {who}) \<and>
    (v = 0 \<or> 0 < vc_total_votes (vc_add find_msb who v c))"
proof (cases "v = 0")
  case False
  define w where "w = max (v div 2 ^ b) 1"
  have w: "1 \<le> w" "w \<le> 65535" "u16 w = w" using assms(3) by (auto simp: w_def u16_def max_def)
  have "vc_add find_msb who v c = c\<lparr>vc_bitshift := int b, vc_total_votes := vc_total_votes c + w,
      vc_auth := (vc_auth c)\<lparr>account_auths := fm_put who w (account_auths (vc_auth c))\<rparr>\<rparr>"
    using assms(1,5) False w by (simp add: vc_add_def counter_ok_def Let_def w_def [symmetric])
  then show ?thesis using assms(1,4) w False by (auto simp: counter_ok_def weight_sum_put set_fm_put)
qed (use assms in \<open>simp add: vc_add_def\<close>)

lemma vc_fold_ok:
  "counter_ok b c \<Longrightarrow> \<forall>(who, v) \<in> set xs. 0 \<le> v \<and> v div 2 ^ b \<le> 65535 \<Longrightarrow> distinct (map fst xs) \<Longrightarrow>
   fst ` set xs \<inter> fst ` set (account_auths (vc_auth c)) = {} \<Longrightarrow> vc_total_votes c + 65535 * int (length xs) < 2 ^ 32 \<Longrightarrow>
   counter_ok b (fold (\<lambda>(who, v). vc_add find_msb who v) xs c) \<and>
   vc_total_votes (fold (\<lambda>(who, v). vc_add find_msb who v) xs c) \<le> vc_total_votes c + 65535 * int (length xs) \<and>
   fst ` set (account_auths (vc_auth (fold (\<lambda>(who, v). vc_add find_msb who v) xs c))) =
     fst ` set (account_auths (vc_auth c)) \<union> fst ` {x \<in> set xs. snd x \<noteq> 0}"
proof (induction xs arbitrary: c)
  case (Cons x xs)
  obtain who v where x: "x = (who, v)" by (cases x)
  have "vc_total_votes c + 65535 < 2 ^ 32" using Cons.prems(5) by simp
  then have a: "counter_ok b (vc_add find_msb who v c)" "vc_total_votes (vc_add find_msb who v c) \<le> vc_total_votes c + 65535"
    "fst ` set (account_auths (vc_auth (vc_add find_msb who v c))) = fst ` set (account_auths (vc_auth c)) \<union> (if v = 0 then {} else {who})"
    using vc_add_ok [of b c v who find_msb] Cons.prems(1-4) x by auto
  have d: "fst ` set xs \<inter> fst ` set (account_auths (vc_auth (vc_add find_msb who v c))) = {}"
    using Cons.prems(3,4) a(3) x by auto
  have t: "vc_total_votes (vc_add find_msb who v c) + 65535 * int (length xs) < 2 ^ 32" using a(2) Cons.prems(5) by simp
  have s: "{y \<in> set (x # xs). snd y \<noteq> 0} = (if v = 0 then {} else {(who, v)}) \<union> {y \<in> set xs. snd y \<noteq> 0}" by (auto simp: x)
  note ih = Cons.IH [OF a(1) _ _ d t]
  have "\<forall>(who, v) \<in> set xs. 0 \<le> v \<and> v div 2 ^ b \<le> 65535" "distinct (map fst xs)" using Cons.prems(2,3) by auto
  note ih = ih [OF this]
  show ?case unfolding s image_Un using ih a x by (auto simp: image_iff)
qed simp

context boost_msb
begin

lemma counted_authority_weights:
  fixes out :: "('k, 'a) authority"
  assumes ne: "xs \<noteq> []" "snd (hd xs) \<noteq> 0" and d: "distinct (map fst xs)" and v: "\<forall>x \<in> set xs. 0 \<le> snd x \<and> snd x < 2 ^ 64"
    and desc: "sorted_wrt (\<lambda>x y. snd y \<le> snd x) xs" and len: "length xs \<le> 65535"
  defines "A \<equiv> counted_authority find_msb xs out"
  shows "fst ` set (account_auths A) = fst ` {x \<in> set xs. snd x \<noteq> 0} \<and> (\<forall>x \<in> set (account_auths A). 1 \<le> snd x \<and> snd x \<le> 65535) \<and>
    weight_threshold A = weight_sum (account_auths A) div 2 + 1 \<and> 0 < weight_sum (account_auths A)"
proof -
  obtain who w ys where xs: "xs = (who, w) # ys" using ne(1) by (cases xs) auto
  define b where "b = shift_of find_msb w"
  have w: "0 < w" "w < 2 ^ 64" using ne(2) v xs by auto
  have bound: "\<forall>(who, x) \<in> set xs. 0 \<le> x \<and> x div 2 ^ b \<le> 65535"
  proof (intro ballI, clarify)
    fix a x
    assume x: "(a, x) \<in> set xs"
    then have "x \<le> w" "0 \<le> x" using desc v xs by auto
    then have "x div 2 ^ b \<le> w div 2 ^ b" by (intro zdiv_mono1) simp_all
    then show "0 \<le> x \<and> x div 2 ^ b \<le> 65535" using shifted_bound [OF w] \<open>0 \<le> x\<close> by (simp add: b_def)
  qed
  let ?c = "new_vote_counter\<lparr>vc_bitshift := int b\<rparr> :: ('k, 'a) vote_counter"
  have "vc_add find_msb who w (new_vote_counter :: ('k, 'a) vote_counter) = vc_add find_msb who w ?c"
    using w(1) by (simp add: vc_add_def new_vote_counter_def b_def Let_def)
  then have f: "fold (\<lambda>(who, v). vc_add find_msb who v) xs (new_vote_counter :: ('k, 'a) vote_counter) = fold (\<lambda>(who, v). vc_add find_msb who v) xs ?c"
    by (simp add: xs)
  have ok: "counter_ok b ?c" by (simp add: counter_ok_def new_vote_counter_def weight_sum_def)
  let ?r = "fold (\<lambda>(who, v). vc_add find_msb who v) xs ?c"
  have r: "counter_ok b ?r" "vc_total_votes ?r \<le> 65535 * int (length xs)" "fst ` set (account_auths (vc_auth ?r)) = fst ` {x \<in> set xs. snd x \<noteq> 0}"
    using vc_fold_ok [OF ok bound d, of find_msb] len by (simp_all add: new_vote_counter_def)
  have "(who, w) \<in> {x \<in> set xs. snd x \<noteq> 0}" using w xs by simp
  then have "account_auths (vc_auth ?r) \<noteq> []" using r(3) by force
  then obtain y zs where y: "account_auths (vc_auth ?r) = y # zs" by (cases "account_auths (vc_auth ?r)") auto
  have pos: "\<forall>x \<in> set (y # zs). 1 \<le> snd x" using r(1) by (simp add: counter_ok_def y)
  then have "0 \<le> (\<Sum>x \<leftarrow> zs. snd x)" by (intro sum_list_nonneg) force
  then have ws: "0 < weight_sum (account_auths (vc_auth ?r))" using pos by (simp add: y weight_sum_def)
  then have t: "0 < vc_total_votes ?r" using r(1) by (simp add: counter_ok_def)
  have "u32 (vc_total_votes ?r) = vc_total_votes ?r" using t r(2) len by (intro u32_id) simp_all
  then have "A = (vc_auth ?r)\<lparr>weight_threshold := weight_sum (account_auths (vc_auth ?r)) div 2 + 1\<rparr>"
    using t r(1) by (simp add: A_def counted_authority_def f vc_finish_def counter_ok_def)
  then show ?thesis using r(1,3) ws by (simp add: counter_ok_def)
qed

end

text \<open>What a group of accounts can bring together.\<close>

definition weight_of :: "(account_id_type \<times> uint16) list \<Rightarrow> account_id_type set \<Rightarrow> int" where
  "weight_of m B = weight_sum (filter (\<lambda>x. fst x \<in> B) m)"

lemma weight_of_split: "weight_of m B + weight_of m (- B) = weight_sum m"
  by (induction m) (auto simp: weight_of_def weight_sum_def)

lemma weight_of_all: "weight_of m UNIV = weight_sum m"
  by (simp add: weight_of_def)

section \<open>Sorting by votes\<close>

lemma sorted_insort_stable:
  "sorted_wrt (\<lambda>x y. f x < f y \<or> f x = f y \<and> R x y) ys \<Longrightarrow> \<forall>y \<in> set ys. R x y \<Longrightarrow>
   sorted_wrt (\<lambda>x y. f x < f y \<or> f x = f y \<and> R x y) (insort_key (f :: 'a \<Rightarrow> 'b::linorder) x ys)"
  by (induction ys) (auto simp: set_insort_key not_le)

lemma sort_key_stable:
  "sorted_wrt R xs \<Longrightarrow> sorted_wrt (\<lambda>x y. f x < f y \<or> f x = f y \<and> R x y) (sort_key (f :: 'a \<Rightarrow> 'b::linorder) xs)"
  by (induction xs) (auto intro: sorted_insort_stable)

lemma sort_votable_sorted:
  fixes tally :: "uint64 list"
  shows "sorted_wrt (\<lambda>x y. tally ! vo_vote_id (snd y) < tally ! vo_vote_id (snd x) \<or>
     tally ! vo_vote_id (snd y) = tally ! vo_vote_id (snd x) \<and> vo_vote_id (snd x) \<le> vo_vote_id (snd y))
   (sort_key (\<lambda>(i, x). - (tally ! vo_vote_id x)) (sort_key (\<lambda>(i, x). vo_vote_id x) rs))"
proof -
  have "sorted_wrt (\<lambda>x y. vo_vote_id (snd x) \<le> vo_vote_id (snd y)) (sort_key (\<lambda>(i, x). vo_vote_id x) rs)"
    using sorted_sort_key [of "\<lambda>(i, x). vo_vote_id x" rs] by (simp add: sorted_map case_prod_unfold)
  from sort_key_stable [OF this, of "\<lambda>(i, x). - (tally ! vo_vote_id x)"] show ?thesis
    by (rule sorted_wrt_mono_rel [rotated]) (auto simp: case_prod_unfold)
qed

lemma sort_votable_split:
  fixes n :: nat and tally :: "uint64 list"
  assumes "tbl_wf t"
  defines "es \<equiv> sort_votable_objects n tally t"
  shows "length es = min n (length (rows t))" "set es \<subseteq> set (rows t)" "distinct (map fst es)"
    "sorted_wrt (\<lambda>x y. tally ! vo_vote_id (snd y) \<le> tally ! vo_vote_id (snd x)) es"
    "\<forall>x \<in> set es. \<forall>y \<in> set (rows t) - set es. tally ! vo_vote_id (snd y) < tally ! vo_vote_id (snd x) \<or>
       tally ! vo_vote_id (snd y) = tally ! vo_vote_id (snd x) \<and> vo_vote_id (snd x) \<le> vo_vote_id (snd y)"
proof -
  define ys where "ys = sort_key (\<lambda>(i, x). - (tally ! vo_vote_id x)) (sort_key (\<lambda>(i, x). vo_vote_id x) (rows t))"
  define k where "k = min n (length (rows t))"
  have es: "es = take k ys" by (simp add: es_def sort_votable_objects_def ys_def k_def)
  have m: "mset ys = mset (rows t)" by (simp add: ys_def)
  then have set: "set ys = set (rows t)" "length ys = length (rows t)" by (metis set_mset_mset, metis size_mset)
  have d: "distinct (map fst ys)" using tbl_wf_distinct [OF assms(1)] m by (metis mset_map mset_eq_imp_distinct_iff)
  note so = sort_votable_sorted [of tally "rows t", folded ys_def]
  show "length es = min n (length (rows t))" using set by (simp add: es k_def)
  show "set es \<subseteq> set (rows t)" using set set_take_subset by (metis es)
  show "distinct (map fst es)" using d by (simp add: es take_map [symmetric])
  have "sorted_wrt (\<lambda>x y. tally ! vo_vote_id (snd y) \<le> tally ! vo_vote_id (snd x)) ys"
    by (rule sorted_wrt_mono_rel [OF _ so]) auto
  then show "sorted_wrt (\<lambda>x y. tally ! vo_vote_id (snd y) \<le> tally ! vo_vote_id (snd x)) es" by (simp add: es sorted_wrt_take)
  define Q where "Q = (\<lambda>(x :: nat \<times> votable_object) y. tally ! vo_vote_id (snd y) < tally ! vo_vote_id (snd x) \<or>
     tally ! vo_vote_id (snd y) = tally ! vo_vote_id (snd x) \<and> vo_vote_id (snd x) \<le> vo_vote_id (snd (y :: nat \<times> votable_object)))"
  have "\<forall>x \<in> set (take k ys). \<forall>y \<in> set (drop k ys). Q x y"
    using so sorted_wrt_append [of Q "take k ys" "drop k ys"] by (simp add: Q_def)
  moreover have "set ys = set (take k ys) \<union> set (drop k ys)" by (metis append_take_drop_id set_append)
  then have "set (rows t) - set es \<subseteq> set (drop k ys)" using set by (auto simp: es)
  ultimately show "\<forall>x \<in> set es. \<forall>y \<in> set (rows t) - set es. tally ! vo_vote_id (snd y) < tally ! vo_vote_id (snd x) \<or>
       tally ! vo_vote_id (snd y) = tally ! vo_vote_id (snd x) \<and> vo_vote_id (snd x) \<le> vo_vote_id (snd y)"
    unfolding es Q_def by blast
qed

section \<open>The number of seats\<close>

text \<open>The count stops at the first entry with which more than the target has spoken, or at the last one.\<close>

context fc_safe
begin

lemma half_count_first:
  "half_count L target k t hs = Some r \<Longrightarrow>
   k \<le> r \<and> r \<le> k + length hs \<and> (\<forall>j < r - k. t + (\<Sum>h \<leftarrow> take j hs. s64 h) \<le> target) \<and>
   (r = k + length hs \<or> target < t + (\<Sum>h \<leftarrow> take (r - k) hs. s64 h))"
proof (induction hs arbitrary: k t)
  case (Cons h hs)
  show ?case
  proof (cases "t \<le> target")
    case True
    with Cons.prems have "half_count L target (Suc k) (t + s64 h) hs = Some r" by (auto simp: opt_bind safe_Some)
    note ih = Cons.IH [OF this]
    have "t + (\<Sum>h \<leftarrow> take j (h # hs). s64 h) \<le> target" if "j < r - k" for j
      using that ih True by (cases j) (auto simp: add.assoc)
    moreover have "r - k = Suc (r - Suc k)" using ih [THEN conjunct1] by simp
    ultimately show ?thesis using ih by (auto simp: add.assoc)
  next
    case False
    then show ?thesis using Cons.prems by simp
  qed
qed simp

end

text \<open>
  What the voters ask for, read off a histogram: entry \<open>j\<close> is the stake that asks for \<open>2 j\<close> or \<open>2 j + 1\<close> seats, so that
  \<open>asks_up_to k\<close> is the stake that asks for at least two and at most \<open>2 k + 1\<close>; entry 0 is the stake of those who abstain.
  \<open>majority_at\<close> says that \<open>k\<close> is the first entry with which more than half of the stake that does not abstain asks for at most
  \<open>2 k + 1\<close> seats, the last entry if there is none, and 0 if half of that stake rounds to nothing.
\<close>

definition asks_up_to :: "nat \<Rightarrow> uint64 list \<Rightarrow> int" where
  "asks_up_to k hist = (\<Sum>h \<leftarrow> take k (tl hist). h)"

definition majority_at :: "nat \<Rightarrow> uint64 list \<Rightarrow> uint64 \<Rightarrow> bool" where
  "majority_at k hist total_stake \<longleftrightarrow>
     (let half = (total_stake - hd hist) div 2 in
        if half = 0 then k = 0
        else k < length hist \<and> (\<forall>j < k. asks_up_to j hist \<le> half) \<and> (Suc k = length hist \<or> half < asks_up_to k hist))"

context fc_safe
begin

lemma seats_majority:
  assumes hist: "hist \<noteq> []" "\<forall>h \<in> set hist. 0 \<le> h \<and> h < 2 ^ 63" and ts: "hd hist \<le> ts" "ts < 2 ^ 64"
    and run: "seats L minimum hist ts = Some n"
  shows "\<exists>k. n = max (2 * k + 1) minimum \<and> majority_at k hist ts"
proof -
  obtain h hs where h: "hist = h # hs" "0 \<le> h" using hist by (cases hist) auto
  have u: "u64 (ts - hist ! 0) = ts - h" using h ts by (simp add: u64_id)
  have s: "map s64 (take j hs) = take j hs" for j
    using hist(2) by (intro map_idI s64_id) (force simp: h(1) dest: in_set_takeD)+
  have nn: "0 \<le> (ts - h) div 2" using ts by (simp add: h(1))
  show ?thesis
  proof (cases "(ts - h) div 2 = 0")
    case True
    then show ?thesis using run u by (auto simp: seats_def Let_def majority_at_def h(1) intro!: exI [of _ 0])
  next
    case False
    then obtain k where k: "half_count L ((ts - h) div 2) 0 0 hs = Some k" "n = max (k * 2 + 1) minimum"
      using run u nn by (auto simp: seats_def Let_def h(1) opt_bind split: if_splits)
    have "majority_at k hist ts"
      using half_count_first [OF k(1)] False by (auto simp: majority_at_def asks_up_to_def h(1) s)
    then show ?thesis using k(2) by (auto simp: mult.commute)
  qed
qed

end

text \<open>A vote for more seats than the maximum is not counted at all, and an even maximum can be exceeded by one.\<close>

lemma too_many_ignored: "maximum < wanted \<Longrightarrow> add_count wanted maximum stake hist = hist"
  by (simp add: add_count_def)

lemma even_maximum_exceeded:
  assumes "fc_safe L"
  shows "seats L 1 (add_count 10 10 100 (replicate (nat (10 div 2 + 1)) 0)) 100 = Some 11"
proof -
  have h: "add_count 10 10 100 (replicate (nat (10 div 2 + 1)) 0) = [0, 0, 0, 0, 0, 100]" by code_simp
  show ?thesis unfolding h by (simp add: seats_def fc_safe.safe_add [OF assms] in_s64_def)
qed

section \<open>The exact tally\<close>

text \<open>The stake that counts, and the part of it that speaks for one identifier.\<close>

fun counted_stake :: "vote_params \<Rightarrow> bool \<times> account_options \<times> uint64 \<Rightarrow> int" where
  "counted_stake P (member, ao, stake) = (if count_non_member_votes P \<or> member then stake else 0)"

fun support :: "vote_params \<Rightarrow> (account_id_type \<rightharpoonup> account_options) \<Rightarrow> nat \<Rightarrow> bool \<times> account_options \<times> uint64 \<Rightarrow> int" where
  "support P get i (member, ao, stake) =
     (case opinion_account get ao of Some op \<Rightarrow> if i \<in> set (votes op) then counted_stake P (member, ao, stake) else 0 | None \<Rightarrow> 0)"

lemma add_at_fold:
  "length (fold (\<lambda>i. add_at i x) is xs) = length xs"
  "distinct is \<Longrightarrow> i < length xs \<Longrightarrow> fold (\<lambda>i. add_at i x) is xs ! i = (if i \<in> set is then u64 (xs ! i + x) else xs ! i)"
  by (induction "is" arbitrary: xs) (auto simp: add_at_def nth_list_update)

text \<open>No entry exceeds the stake counted so far.\<close>

definition tally_ok :: "vote_tally \<Rightarrow> bool" where
  "tally_ok T \<longleftrightarrow> 0 \<le> total_voting_stake T \<and> (\<forall>i < length (vote_tally_buffer T). 0 \<le> vote_tally_buffer T ! i \<and> vote_tally_buffer T ! i \<le> total_voting_stake T)"

lemma tally_vote_exact:
  assumes run: "tally_vote P get member ao stake T = Some T'" and ok: "tally_ok T" "0 \<le> stake" "total_voting_stake T + stake < 2 ^ 64"
    and d: "\<forall>op. opinion_account get ao = Some op \<longrightarrow> distinct (votes op)"
  shows "tally_ok T' \<and> length (vote_tally_buffer T') = length (vote_tally_buffer T) \<and>
    total_voting_stake T' = total_voting_stake T + counted_stake P (member, ao, stake) \<and>
    (\<forall>i < length (vote_tally_buffer T). vote_tally_buffer T' ! i = vote_tally_buffer T ! i + support P get i (member, ao, stake))"
proof (cases "count_non_member_votes P \<or> member")
  case True
  then obtain op where op: "opinion_account get ao = Some op"
    and T': "vote_tally_buffer T' = fold (\<lambda>i. add_at i stake) (votes op) (vote_tally_buffer T)" "total_voting_stake T' = u64 (total_voting_stake T + stake)"
    using run by (auto simp: tally_vote_def opt_bind)
  have t: "total_voting_stake T' = total_voting_stake T + stake" using ok by (simp add: T'(2) tally_ok_def)
  have "vote_tally_buffer T' ! i = vote_tally_buffer T ! i + (if i \<in> set (votes op) then stake else 0)" if "i < length (vote_tally_buffer T)" for i
  proof -
    have "0 \<le> vote_tally_buffer T ! i" "vote_tally_buffer T ! i \<le> total_voting_stake T" using ok(1) that by (simp_all add: tally_ok_def)
    then have "u64 (vote_tally_buffer T ! i + stake) = vote_tally_buffer T ! i + stake" using ok(2,3) by (intro u64_id) simp_all
    then show ?thesis using that d op by (simp add: T'(1) add_at_fold)
  qed
  then show ?thesis using ok t True op T'(1) by (auto simp: tally_ok_def add_at_fold)
next
  case False
  then show ?thesis using run ok by (auto simp: tally_vote_def split: option.split)
qed

lemma tally_votes_exact:
  "tally_votes P get xs T = Some T' \<Longrightarrow> tally_ok T \<Longrightarrow> \<forall>(m, ao, stake) \<in> set xs. 0 \<le> stake \<and> (\<forall>op. opinion_account get ao = Some op \<longrightarrow> distinct (votes op)) \<Longrightarrow>
   total_voting_stake T + (\<Sum>x \<leftarrow> xs. snd (snd x)) < 2 ^ 64 \<Longrightarrow>
   length (vote_tally_buffer T') = length (vote_tally_buffer T) \<and> total_voting_stake T' = total_voting_stake T + (\<Sum>x \<leftarrow> xs. counted_stake P x) \<and>
   (\<forall>i < length (vote_tally_buffer T). vote_tally_buffer T' ! i = vote_tally_buffer T ! i + (\<Sum>x \<leftarrow> xs. support P get i x))"
proof (induction xs arbitrary: T)
  case (Cons x xs)
  obtain m ao stake where x: "x = (m, ao, stake)" by (cases x)
  obtain T1 where T1: "tally_vote P get m ao stake T = Some T1" "tally_votes P get xs T1 = Some T'"
    using Cons.prems(1) by (auto simp: x opt_bind)
  have st: "0 \<le> stake" "\<forall>op. opinion_account get ao = Some op \<longrightarrow> distinct (votes op)"
    and xs: "\<forall>(m, ao, stake) \<in> set xs. 0 \<le> stake \<and> (\<forall>op. opinion_account get ao = Some op \<longrightarrow> distinct (votes op))"
    using Cons.prems(3) by (auto simp: x)
  then have nn: "0 \<le> (\<Sum>x \<leftarrow> xs. snd (snd x))" by (intro sum_list_nonneg) auto
  then have "total_voting_stake T + stake < 2 ^ 64" using Cons.prems(4) by (simp add: x)
  note e = tally_vote_exact [OF T1(1) Cons.prems(2) st(1) this st(2)]
  have "counted_stake P (m, ao, stake) \<le> stake" using st(1) by simp
  then have "total_voting_stake T1 + (\<Sum>x \<leftarrow> xs. snd (snd x)) < 2 ^ 64" using e Cons.prems(4) by (simp add: x)
  note ih = Cons.IH [OF T1(2) _ xs this]
  show ?case using ih e by (simp add: x add.assoc)
qed simp

section \<open>Properties\<close>


text \<open>
  (C10) No minority acts for the committee or the witnesses: of the members that an authority gives a weight to, one group of accounts can reach
  the threshold only if the others together cannot, and all of them together always can.
\<close>

theorem elected_authority_majority:
  assumes "boost_msb find_msb" "tbl_wf (witness_votables s)" "update_active_witnesses L find_msb T s = Some s'" "HARDFORK_533_TIME \<le> vd_time s"
    and "distinct (map (vo_account \<circ> snd) (rows (witness_votables s)))" "length (rows (witness_votables s)) \<le> 65535"
    and "\<forall>v \<in> set (vote_tally_buffer T). 0 \<le> v \<and> v < 2 ^ 64"
    and "\<exists>(i, x) \<in> set (rows (witness_votables s)). i \<in> set (elected_witnesses s') \<and> vote_tally_buffer T ! vo_vote_id x \<noteq> 0"
  shows "\<exists>A. active_auth s' GRAPHENE_WITNESS_ACCOUNT = Some A \<and> weight_threshold A \<le> weight_of (account_auths A) UNIV \<and>
    (\<forall>B. weight_threshold A \<le> weight_of (account_auths A) B \<longrightarrow> weight_of (account_auths A) (- B) < weight_threshold A)"
proof -
  obtain n au where wits: "elected_witnesses s' = sort (map fst (sort_votable_objects n (vote_tally_buffer T) (witness_votables s)))"
    and rng: "in_range (vote_tally_buffer T) (witness_votables s)"
    and au: "active_auth s' GRAPHENE_WITNESS_ACCOUNT =
      Some (elected_authority find_msb (vd_time s) (vote_tally_buffer T) (sort_votable_objects n (vote_tally_buffer T) (witness_votables s)) au)"
    using assms(3) by (auto simp: update_active_witnesses_def Let_def opt_bind)
  let ?es = "sort_votable_objects n (vote_tally_buffer T) (witness_votables s)"
  note sp = sort_votable_split [OF assms(2), where n = n and tally = "vote_tally_buffer T"]
  define xs where "xs = map (\<lambda>(i, x). (vo_account x, vote_tally_buffer T ! vo_vote_id x)) ?es"
  define A where "A = counted_authority find_msb xs au"
  have A: "active_auth s' GRAPHENE_WITNESS_ACCOUNT = Some A" using assms(4) by (simp add: au A_def elected_authority_def xs_def)
  obtain e where e: "e \<in> set ?es" "vote_tally_buffer T ! vo_vote_id (snd e) \<noteq> 0"
  proof -
    obtain i x where x: "(i, x) \<in> set (rows (witness_votables s))" "i \<in> fst ` set ?es" "vote_tally_buffer T ! vo_vote_id x \<noteq> 0"
      using assms(8) by (auto simp: wits)
    then obtain y where y: "(i, y) \<in> set ?es" by auto
    then have "y = x" using x(1) sp(2) tbl_wf_distinct [OF assms(2)] by (meson eq_key_imp_eq_value subsetD)
    with y x(3) show ?thesis by (intro that [of "(i, x)"]) simp_all
  qed
  have v: "\<forall>x \<in> set xs. 0 \<le> snd x \<and> snd x < 2 ^ 64"
    using sp(2) rng assms(7) by (fastforce simp: xs_def in_range_def)
  have desc: "sorted_wrt (\<lambda>x y. snd y \<le> snd x) xs" using sp(4) by (simp add: xs_def sorted_wrt_map case_prod_unfold)
  have ne: "xs \<noteq> []" using e by (auto simp: xs_def)
  have hd: "snd (hd xs) \<noteq> 0"
  proof
    assume h: "snd (hd xs) = 0"
    have "(vo_account (snd e), vote_tally_buffer T ! vo_vote_id (snd e)) \<in> set xs" using e(1) by (auto simp: xs_def case_prod_unfold intro!: image_eqI [of _ _ e])
    then have "vote_tally_buffer T ! vo_vote_id (snd e) \<le> snd (hd xs)" using desc by (cases xs) auto
    with h e v \<open>_ \<in> set xs\<close> show False by force
  qed
  have "inj_on (vo_account \<circ> snd) (set ?es)" using assms(5) sp(2) by (metis distinct_map inj_on_subset)
  then have d: "distinct (map fst xs)"
    using sp(3) by (simp add: xs_def comp_def case_prod_unfold distinct_map)
  have len: "length xs \<le> 65535" using sp(1) assms(6) by (simp add: xs_def)
  note W = boost_msb.counted_authority_weights [OF assms(1) ne hd d v desc len, of au, folded A_def]
  have "weight_of (account_auths A) (- B) < weight_threshold A" if "weight_threshold A \<le> weight_of (account_auths A) B" for B
    using that W [THEN conjunct2, THEN conjunct2] weight_of_split [of "account_auths A" B] by linarith
  moreover have "weight_threshold A \<le> weight_of (account_auths A) UNIV"
    using W [THEN conjunct2, THEN conjunct2] by (simp add: weight_of_all) linarith
  ultimately show ?thesis using A by blast
qed

text \<open>
  (C33) Every stake counts once for each identifier that its account, or the account it names, votes for: after the tally an entry is the
  sum of the stakes that speak for it, and the total is the sum of the stakes that count.
\<close>

theorem tally_exact:
  assumes "tally_votes P get xs (new_tally P n) = Some T" "(\<Sum>x \<leftarrow> xs. snd (snd x)) < 2 ^ 64"
    and "\<forall>(m, ao, stake) \<in> set xs. 0 \<le> stake \<and> (\<forall>op. opinion_account get ao = Some op \<longrightarrow> distinct (votes op))"
  shows "length (vote_tally_buffer T) = n \<and> total_voting_stake T = (\<Sum>x \<leftarrow> xs. counted_stake P x) \<and>
    (\<forall>i < n. vote_tally_buffer T ! i = (\<Sum>x \<leftarrow> xs. support P get i x))"
proof -
  have "tally_ok (new_tally P n)" by (simp add: tally_ok_def new_tally_def)
  from tally_votes_exact [OF assms(1) this assms(3)] assms(2) show ?thesis by (simp add: new_tally_def)
qed

text \<open>The position of the highest bit, by halving.\<close>

function msb_of :: "uint64 \<Rightarrow> nat" where
  "msb_of v = (if v \<le> 1 then 0 else Suc (msb_of (v div 2)))"
  by auto
termination by (relation "measure nat") auto

declare msb_of.simps [simp del]

interpretation bm: boost_msb msb_of
proof
  fix v :: uint64
  assume "0 < v"
  then show "2 ^ msb_of v \<le> v \<and> v < 2 ^ Suc (msb_of v)"
  proof (induction v rule: msb_of.induct)
    case (1 v)
    show ?case
    proof (cases "v \<le> 1")
      case False
      then have "2 ^ msb_of (v div 2) \<le> v div 2 \<and> v div 2 < 2 ^ Suc (msb_of (v div 2))" using 1(1) by simp
      moreover have "msb_of v = Suc (msb_of (v div 2))" using False by (simp add: msb_of.simps [of v])
      moreover have "2 * p \<le> v \<and> v < 4 * p" if "p \<le> v div 2 \<and> v div 2 < 2 * p" for p using that by linarith
      ultimately show ?thesis by simp
    qed (use 1(2) in \<open>simp add: msb_of.simps [of v]\<close>)
  qed
qed

definition demo_votes :: "nat list \<Rightarrow> uint16 \<Rightarrow> account_options" where
  "demo_votes vs k = \<lparr>voting_account = 5, num_witness = k, num_committee = 0, votes = vs\<rparr>"

definition demo_proxies :: "account_id_type \<rightharpoonup> account_options" where
  "demo_proxies a = (if a = 12 then Some (demo_votes [1] 2) else None)"

definition demo_vote_params :: vote_params where
  "demo_vote_params = \<lparr>maximum_witness_count = 11, maximum_committee_count = 11, count_non_member_votes = True\<rparr>"

text \<open>The second account has the account 12 speak for it.\<close>

definition demo_voters :: "(bool \<times> account_options \<times> uint64) list" where
  "demo_voters = [(True, demo_votes [0, 1] 2, 100000), (True, (demo_votes [3] 9)\<lparr>voting_account := 12\<rparr>, 50000), (False, demo_votes [2] 0, 20000)]"

definition demo_tally :: vote_tally where
  "demo_tally = \<lparr>vote_tally_buffer = [100000, 150000, 20000, 0], witness_count_histogram = [20000, 150000, 0, 0, 0, 0],
     committee_count_histogram = [170000, 0, 0, 0, 0, 0], total_voting_stake = 170000\<rparr>"

definition demo_votable :: "nat \<Rightarrow> nat \<Rightarrow> nat \<times> votable_object" where
  "demo_votable i v = (i, \<lparr>vo_account = i, vo_vote_id = v, vo_total_votes = 0\<rparr>)"

definition demo_election :: "(nat, nat) voting_db" where
  "demo_election = \<lparr>vd_time = 1500000000, witness_votables = \<lparr>rows = [demo_votable 4 0, demo_votable 7 1, demo_votable 9 2, demo_votable 10 3], next_instance = 11\<rparr>,
     committee_votables = tbl_empty, active_auth = (\<lambda>a. Some \<lparr>weight_threshold = 1, account_auths = [], key_auths = [], address_auths = []\<rparr>),
     elected_witnesses = [], elected_committee = [], min_witness_count = 1, min_committee_member_count = 1, track_standby_votes = True\<rparr>"

theorem tally_exact_witness:
  "tally_votes demo_vote_params demo_proxies demo_voters (new_tally demo_vote_params 4) = Some demo_tally \<and>
   vote_tally_buffer demo_tally ! 1 = (\<Sum>x \<leftarrow> demo_voters. support demo_vote_params demo_proxies 1 x)"
proof -
  have run: "tally_votes demo_vote_params demo_proxies demo_voters (new_tally demo_vote_params 4) = Some demo_tally" by code_simp
  have "(\<Sum>x \<leftarrow> demo_voters. snd (snd x)) < 2 ^ 64" by (simp add: demo_voters_def)
  moreover have "\<forall>(m, ao, stake) \<in> set demo_voters. 0 \<le> stake \<and> (\<forall>op. opinion_account demo_proxies ao = Some op \<longrightarrow> distinct (votes op))"
    by (auto simp: demo_voters_def demo_votes_def opinion_account_def demo_proxies_def chain_consts)
  ultimately show ?thesis using tally_exact [OF run] run by auto
qed

lemma demo_election_wf: "tbl_wf (witness_votables demo_election)"
  by (simp add: demo_election_def tbl_wf_def demo_votable_def)


theorem elected_authority_majority_witness:
  "\<exists>s' A. update_active_witnesses checked_lib msb_of demo_tally demo_election = Some s' \<and> active_auth s' GRAPHENE_WITNESS_ACCOUNT = Some A \<and>
     account_auths A = [(4, 25000), (7, 37500), (9, 5000)] \<and> weight_threshold A = 33751 \<and> weight_of (account_auths A) {4, 9} < weight_threshold A"
proof -
  define r where "r = update_active_witnesses checked_lib msb_of demo_tally demo_election"
  have "map_option (\<lambda>s. (elected_witnesses s, map_option (\<lambda>A. (account_auths A, weight_threshold A)) (active_auth s GRAPHENE_WITNESS_ACCOUNT))) r =
      Some ([4, 7, 9], Some ([(4, 25000), (7, 37500), (9, 5000)], 33751))" unfolding r_def by code_simp
  then obtain s' A where s': "r = Some s'" "elected_witnesses s' = [4, 7, 9]" "active_auth s' GRAPHENE_WITNESS_ACCOUNT = Some A"
    "account_auths A = [(4, 25000), (7, 37500), (9, 5000)]" "weight_threshold A = 33751" by auto
  have rs: "rows (witness_votables demo_election) = [demo_votable 4 0, demo_votable 7 1, demo_votable 9 2, demo_votable 10 3]"
    "HARDFORK_533_TIME \<le> vd_time demo_election" by (simp_all add: demo_election_def chain_consts)
  have "weight_threshold A \<le> weight_of (account_auths A) {7} \<longrightarrow> weight_of (account_auths A) (- {7}) < weight_threshold A"
    using elected_authority_majority [OF bm.boost_msb_axioms demo_election_wf s'(1) [unfolded r_def] rs(2)] s'(2,3)
    by (auto simp: rs(1) demo_votable_def demo_tally_def)
  moreover have "weight_threshold A \<le> weight_of (account_auths A) {7}" "weight_of (account_auths A) (- {7}) = weight_of (account_auths A) {4, 9}"
    by (simp_all add: s'(4,5) weight_of_def weight_sum_def)
  ultimately show ?thesis using s' by (auto simp: r_def)
qed

end
