(* ===== verification/Proposals.thy ===== *)
theory Proposals
  imports Transactions
begin

text \<open>
  Proposed transactions (\<^verbatim>\<open>protocol/proposal.cpp\<close>, \<^verbatim>\<open>chain/proposal_evaluator.cpp\<close>, \<^verbatim>\<open>proposal_object.cpp\<close>, \<^verbatim>\<open>push_proposal\<close> in \<^verbatim>\<open>db_block.cpp\<close> and
  \<^verbatim>\<open>clear_expired_proposals\<close> in \<^verbatim>\<open>db_update.cpp\<close>): a proposal collects approvals and is executed once they suffice, or at its expiration.
  Its operations may approve, and so execute, other proposals, so the execution is recursive.

  The code holds references to the proposals that are being executed. Removing one of them leaves a reference to freed memory, which the loop over its
  operations or the handler of its exception reads next; that is the outcome \<open>Undefined\<close>, also when a session is undone later, because the undo inserts a new object.
  An exception, which undoes the session it leaves, is \<open>Thrown\<close>. \<open>Plain\<close> holds the operations of \<open>Operations\<close>. The parameters of the chain, the
  authorities of the accounts and the fee schedule are the record \<open>gov_env\<close>; no operation here changes them. The reason of a failure is kept as a flag.
\<close>

section \<open>Operations and objects\<close>

record 'k proposal_update_operation =
  pu_fee_paying_account :: account_id_type
  pu_fee :: asset
  pu_proposal :: nat
  active_approvals_to_add :: "account_id_type list"
  active_approvals_to_remove :: "account_id_type list"
  owner_approvals_to_add :: "account_id_type list"
  owner_approvals_to_remove :: "account_id_type list"
  key_approvals_to_add :: "'k list"
  key_approvals_to_remove :: "'k list"

record proposal_delete_operation =
  pd_fee_paying_account :: account_id_type
  using_owner_authority :: bool
  pd_fee :: asset
  pd_proposal :: nat

datatype 'k proposable =
    Plain operation
  | Proposal_create (pc_fee: asset) (pc_fee_paying_account: account_id_type) (proposed_ops: "'k proposable list")
      (pc_expiration_time: time_point_sec) (review_period_seconds: "uint32 option")
  | Proposal_update "'k proposal_update_operation"
  | Proposal_delete proposal_delete_operation

record 'k proposal_object =
  po_expiration_time :: time_point_sec
  review_period_time :: "time_point_sec option"
  proposed_transaction :: "'k proposable list"
  required_active_approvals :: "account_id_type list"
  available_active_approvals :: "account_id_type list"
  required_owner_approvals :: "account_id_type list"
  available_owner_approvals :: "account_id_type list"
  available_key_approvals :: "'k list"
  proposer :: account_id_type
  has_fail_reason :: bool

text \<open>The state, and what is constant while operations run.\<close>

record 'k gov_db =
  gdb :: database
  proposals :: "'k proposal_object tbl"

record ('k, 'a) gov_env =
  gov_hashes :: hash_lib
  gov_interval :: int
  gov_fee :: "'k proposable \<Rightarrow> share_type option"
  gov_active :: "account_id_type \<Rightarrow> ('k, 'a) authority option"
  gov_owner :: "account_id_type \<Rightarrow> ('k, 'a) authority option"
  gov_addresses :: "'k \<Rightarrow> 'a list"
  gov_authority_depth :: nat
  maximum_proposal_lifetime :: uint32
  committee_proposal_review_period :: uint32
  active_witness_number :: nat

datatype 's exec = Done 's | Thrown | Undefined

definition of_option :: "'s option \<Rightarrow> 's exec" where
  "of_option r = (case r of None \<Rightarrow> Thrown | Some s \<Rightarrow> Done s)"

definition HARDFORK_CORE_1468_TIME :: time_point_sec where [chain_consts]: "HARDFORK_CORE_1468_TIME = 1556028120"
definition HARDFORK_CORE_214_TIME :: time_point_sec where [chain_consts]: "HARDFORK_CORE_214_TIME = 1532008920"
definition HARDFORK_CORE_1479_TIME :: time_point_sec where [chain_consts]: "HARDFORK_CORE_1479_TIME = 1545436800"

definition disjoint_lists :: "'x list \<Rightarrow> 'x list \<Rightarrow> bool" where
  "disjoint_lists xs ys \<longleftrightarrow> list_all (\<lambda>x. x \<notin> set ys) xs"

fun proposable_validate :: "'k proposable \<Rightarrow> bool" where
  "proposable_validate (Plain op) \<longleftrightarrow> operation_validate op \<noteq> None"
| "proposable_validate (Proposal_create fee payer ops expir review) \<longleftrightarrow> ops \<noteq> [] \<and> list_all proposable_validate ops"
| "proposable_validate (Proposal_update u) \<longleftrightarrow> amount (pu_fee u) \<ge> 0 \<and>
     \<not> (active_approvals_to_add u = [] \<and> active_approvals_to_remove u = [] \<and> owner_approvals_to_add u = [] \<and>
        owner_approvals_to_remove u = [] \<and> key_approvals_to_add u = [] \<and> key_approvals_to_remove u = []) \<and>
     disjoint_lists (active_approvals_to_add u) (active_approvals_to_remove u) \<and>
     disjoint_lists (owner_approvals_to_add u) (owner_approvals_to_remove u) \<and>
     disjoint_lists (key_approvals_to_add u) (key_approvals_to_remove u)"
| "proposable_validate (Proposal_delete v) \<longleftrightarrow> amount (pd_fee v) \<ge> 0"

text \<open>The authorities that the operations require.\<close>

definition update_required_keys :: "'k::linorder proposal_update_operation \<Rightarrow> ('k, 'a) authority list" where
  "update_required_keys u =
     (let keys = fold (\<lambda>k m. fm_put k 1 m) (key_approvals_to_add u @ key_approvals_to_remove u) []
      in if keys \<noteq> [] then [\<lparr>weight_threshold = u32 (int (length keys)), account_auths = [], key_auths = keys, address_auths = []\<rparr>] else [])"

primrec proposable_payer :: "'k proposable \<Rightarrow> account_id_type" where
  "proposable_payer (Plain op) = operation_payer op"
| "proposable_payer (Proposal_create fee payer ops expir review) = payer"
| "proposable_payer (Proposal_update u) = pu_fee_paying_account u"
| "proposable_payer (Proposal_delete v) = pd_fee_paying_account v"

definition proposable_iface :: "('k::linorder proposable, 'k, 'a) auth_interface" where
  "proposable_iface = \<lparr>op_fee_payer = proposable_payer,
     op_active = (\<lambda>op. case op of Proposal_update u \<Rightarrow> active_approvals_to_add u @ active_approvals_to_remove u | _ \<Rightarrow> []),
     op_owner = (\<lambda>op. case op of Proposal_update u \<Rightarrow> owner_approvals_to_add u @ owner_approvals_to_remove u | _ \<Rightarrow> []),
     op_other = (\<lambda>op. case op of Proposal_update u \<Rightarrow> update_required_keys u | _ \<Rightarrow> [])\<rparr>"

definition required_of_ops ::
  "'k::linorder proposable list \<Rightarrow> account_id_type list \<times> account_id_type list \<times> ('k, 'a) authority list" where
  "required_of_ops ops = fold (operation_get_required_authorities proposable_iface) ops ([], [], [])"

section \<open>The visitors\<close>

definition is_update :: "'k proposable \<Rightarrow> bool" where
  "is_update op = (case op of Proposal_update u \<Rightarrow> True | _ \<Rightarrow> False)"

definition plain_hardfork_ok :: "time_point_sec \<Rightarrow> operation \<Rightarrow> bool" where
  "plain_hardfork_ok t op = (case op of
       Htlc_create _ \<Rightarrow> t \<ge> HARDFORK_CORE_1468_TIME | Htlc_redeem _ \<Rightarrow> t \<ge> HARDFORK_CORE_1468_TIME
     | Htlc_extend _ \<Rightarrow> t \<ge> HARDFORK_CORE_1468_TIME | _ \<Rightarrow> True)"

fun hardfork_ok :: "time_point_sec \<Rightarrow> 'k proposable \<Rightarrow> bool" where
  "hardfork_ok t (Plain op) = plain_hardfork_ok t op"
| "hardfork_ok t (Proposal_create fee payer ops expir review) \<longleftrightarrow> list_all (hardfork_ok t) ops \<and> length (filter is_update ops) \<le> 1"
| "hardfork_ok t (Proposal_update u) = True"
| "hardfork_ok t (Proposal_delete v) = True"

text \<open>\<^verbatim>\<open>hardfork_visitor_1479\<close>: the number of updates and deletions at any depth, and the greatest proposal among them.\<close>

fun visit_1479 :: "'k proposable \<Rightarrow> nat \<times> nat \<Rightarrow> nat \<times> nat" where
  "visit_1479 (Plain op) v = v"
| "visit_1479 (Proposal_update u) (n, m) = (Suc n, if n = 0 \<or> pu_proposal u > m then pu_proposal u else m)"
| "visit_1479 (Proposal_delete w) (n, m) = (Suc n, if n = 0 \<or> pd_proposal w > m then pd_proposal w else m)"
| "visit_1479 (Proposal_create fee payer ops expir review) v = fold visit_1479 ops v"

section \<open>The evaluators\<close>

text \<open>The template of \<^verbatim>\<open>evaluator.hpp\<close> in two parts, around \<^verbatim>\<open>do_apply\<close>.\<close>

definition fee_begin ::
  "fc_lib \<Rightarrow> share_type option \<Rightarrow> account_id_type \<Rightarrow> asset \<Rightarrow> ('k gov_db \<Rightarrow> 'e option) \<Rightarrow> 'k gov_db \<Rightarrow> (fee_context \<times> 'e \<times> 'k gov_db) option" where
  "fee_begin L required payer fee do_evaluate s = do {
     (c, e) \<leftarrow> evaluator_evaluate required payer fee (\<lambda>_. do_evaluate s) (gdb s);
     d1 \<leftarrow> convert_fee L False c (gdb s);
     d2 \<leftarrow> evaluator_pay_fee L False c d1;
     Some (c, e, s\<lparr>gdb := d2\<rparr>)
   }"

definition fee_end :: "fc_lib \<Rightarrow> fee_context \<Rightarrow> 'k gov_db \<Rightarrow> 'k gov_db option" where
  "fee_end L c s = do {
     n \<leftarrow> asset_neg L (fee_from_account c);
     d \<leftarrow> adjust_balance L (fee_payer c) n (gdb s);
     Some (s\<lparr>gdb := d\<rparr>)
   }"

definition proposal_create_evaluate ::
  "fc_lib \<Rightarrow> ('k::linorder, 'a) gov_env \<Rightarrow> 'k proposable \<Rightarrow> 'k gov_db \<Rightarrow> (nat \<times> nat) option" where
  "proposal_create_evaluate L E o' s =
     (let now = head_block_time (gdb s); ops = proposed_ops o'; expir = pc_expiration_time o';
          (active, owner, other) = (required_of_ops ops :: _ \<times> _ \<times> ('k, 'a) authority list) in do {
        fc_assert (hardfork_ok now o');
        fc_assert (now < HARDFORK_CORE_214_TIME \<longrightarrow> list_all (\<lambda>op. \<not> is_update op) ops);
        fc_assert (expir > now);
        fc_assert (expir \<le> tps_add L now (maximum_proposal_lifetime E));
        fc_assert (case review_period_seconds o' of None \<Rightarrow> True | Some r \<Rightarrow> r < expir - now);
        fc_assert (other = []);
        fc_assert (GRAPHENE_COMMITTEE_ACCOUNT \<in> set active \<union> set owner \<longrightarrow>
          (case review_period_seconds o' of None \<Rightarrow> False | Some r \<Rightarrow> r \<ge> committee_proposal_review_period E));
        fc_assert (ops \<noteq> [] \<and> list_all proposable_validate ops);
        Some (visit_1479 o' (0, 0))
      })"

text \<open>Before the hard fork a proposal with a future target got an operation that always fails.\<close>

definition unpayable_transfer :: transfer_operation where
  "unpayable_transfer = \<lparr>tr_fee = mk_asset 0 0, tr_from = GRAPHENE_NULL_ACCOUNT, tr_to = GRAPHENE_RELAXED_COMMITTEE_ACCOUNT,
     tr_amount = mk_asset GRAPHENE_MAX_SHARE_SUPPLY 0\<rparr>"

definition proposal_create_apply :: "'k::linorder proposable \<Rightarrow> nat \<times> nat \<Rightarrow> 'k gov_db \<Rightarrow> 'k gov_db option" where
  "proposal_create_apply o' v s =
     (let now = head_block_time (gdb s); i = next_instance (proposals s); ops = proposed_ops o'; expir = pc_expiration_time o';
          (active, owner, other) = (required_of_ops ops :: _ \<times> _ \<times> ('k, unit) authority list);
          future = (fst v > 0 \<and> i \<le> snd v) in do {
        fc_assert (now > HARDFORK_CORE_1479_TIME \<longrightarrow> \<not> future);
        let p = \<lparr>po_expiration_time = expir, review_period_time = map_option (\<lambda>r. expir - r) (review_period_seconds o'),
          proposed_transaction = (if future then ops @ [Plain (Transfer unpayable_transfer)] else ops),
          required_active_approvals = filter (\<lambda>a. a \<notin> set owner) active, available_active_approvals = [],
          required_owner_approvals = owner, available_owner_approvals = [], available_key_approvals = [],
          proposer = pc_fee_paying_account o', has_fail_reason = False\<rparr>;
        Some (s\<lparr>proposals := snd (tbl_create p (proposals s))\<rparr>)
      })"

definition in_review :: "time_point_sec \<Rightarrow> 'k proposal_object \<Rightarrow> bool" where
  "in_review now p = (case review_period_time p of None \<Rightarrow> False | Some t \<Rightarrow> now \<ge> t)"

definition proposal_update_evaluate :: "'k proposal_update_operation \<Rightarrow> 'k gov_db \<Rightarrow> unit option" where
  "proposal_update_evaluate u s = do {
     p \<leftarrow> tbl_get (pu_proposal u) (proposals s);
     fc_assert (in_review (head_block_time (gdb s)) p \<longrightarrow> active_approvals_to_add u = [] \<and> owner_approvals_to_add u = []);
     fc_assert (list_all (\<lambda>a. a \<in> set (available_active_approvals p)) (active_approvals_to_remove u));
     fc_assert (list_all (\<lambda>a. a \<in> set (available_owner_approvals p)) (owner_approvals_to_remove u))
   }"

text \<open>\<^verbatim>\<open>insert\<close> of a range and \<^verbatim>\<open>erase\<close> of each element, on a \<^verbatim>\<open>flat_set\<close>.\<close>

definition fs_change :: "'x::linorder list \<Rightarrow> 'x list \<Rightarrow> 'x list \<Rightarrow> 'x list" where
  "fs_change to_add to_remove xs = filter (\<lambda>x. x \<notin> set to_remove) (fold insort_insert to_add xs)"

definition change_approvals :: "'k::linorder proposal_update_operation \<Rightarrow> 'k proposal_object \<Rightarrow> 'k proposal_object" where
  "change_approvals u p = p\<lparr>
     available_active_approvals := fs_change (active_approvals_to_add u) (active_approvals_to_remove u) (available_active_approvals p),
     available_owner_approvals := fs_change (owner_approvals_to_add u) (owner_approvals_to_remove u) (available_owner_approvals p),
     available_key_approvals := fs_change (key_approvals_to_add u) (key_approvals_to_remove u) (available_key_approvals p)\<rparr>"

definition modify_proposal :: "nat \<Rightarrow> ('k proposal_object \<Rightarrow> 'k proposal_object) \<Rightarrow> 'k gov_db \<Rightarrow> 'k gov_db" where
  "modify_proposal i f s = s\<lparr>proposals := tbl_modify i f (proposals s)\<rparr>"

definition proposal_delete_evaluate :: "proposal_delete_operation \<Rightarrow> 'k gov_db \<Rightarrow> unit option" where
  "proposal_delete_evaluate v s = do {
     p \<leftarrow> tbl_get (pd_proposal v) (proposals s);
     fc_assert (pd_fee_paying_account v \<in> set (if using_owner_authority v then required_owner_approvals p else required_active_approvals p))
   }"

text \<open>Removing an object to which a reference is held is undefined.\<close>

definition remove_proposal :: "nat list \<Rightarrow> nat \<Rightarrow> 'k gov_db \<Rightarrow> 'k gov_db exec" where
  "remove_proposal refs i s =
     (if i \<in> set refs \<or> tbl_get i (proposals s) = None then Undefined else Done (s\<lparr>proposals := tbl_remove i (proposals s)\<rparr>))"

definition gov_context :: "('k, 'a) gov_env \<Rightarrow> 'k gov_db \<Rightarrow> ('k, 'a) sign_context" where
  "gov_context E s = \<lparr>get_active = gov_active E, get_owner = gov_owner E,
     allow_non_immediate_owner = (head_block_time (gdb s) \<ge> HARDFORK_CORE_584_TIME), available_keys = [], addrs = gov_addresses E\<rparr>"

definition is_authorized_to_execute :: "('k::linorder, 'a) gov_env \<Rightarrow> 'k proposal_object \<Rightarrow> 'k gov_db \<Rightarrow> bool option" where
  "is_authorized_to_execute E p s = map_option (\<lambda>r. r = Inr ())
     (verify_authority proposable_iface (gov_context E s) (proposed_transaction p) (available_key_approvals p) (gov_authority_depth E) True
       (available_active_approvals p) (available_owner_approvals p))"

section \<open>Execution\<close>

text \<open>\<open>room\<close> is what the nesting depth is below its limit, \<open>refs\<close> are the proposals in execution, innermost first. The clause for an update has
  \<^verbatim>\<open>push_proposal\<close> within: the operations in a session of their own, then the removal; an exception is noted in the proposal.\<close>

fun run_op :: "fc_lib \<Rightarrow> ('k::linorder, 'a) gov_env \<Rightarrow> nat \<Rightarrow> nat list \<Rightarrow> 'k proposable \<Rightarrow> 'k gov_db \<Rightarrow> 'k gov_db exec"
  and run_ops :: "fc_lib \<Rightarrow> ('k, 'a) gov_env \<Rightarrow> nat \<Rightarrow> nat list \<Rightarrow> 'k proposable list \<Rightarrow> 'k gov_db \<Rightarrow> 'k gov_db exec" where
  "run_op L E room refs (Plain op) s = of_option
     (map_option (\<lambda>d. s\<lparr>gdb := d\<rparr>) (apply_operation L (gov_hashes E) (gov_interval E) (gov_fee E (Plain op)) op (gdb s)))"
| "run_op L E room refs (Proposal_create fee payer ops expir review) s =
     (let o' = Proposal_create fee payer ops expir review in of_option (do {
        (c, v, s1) \<leftarrow> fee_begin L (gov_fee E o') payer fee (proposal_create_evaluate L E o') s;
        s2 \<leftarrow> proposal_create_apply o' v s1;
        fee_end L c s2
      }))"
| "run_op L E room refs (Proposal_update u) s =
     (case fee_begin L (gov_fee E (Proposal_update u)) (pu_fee_paying_account u) (pu_fee u) (proposal_update_evaluate u) s of
        None \<Rightarrow> Thrown
      | Some (c, e, s1) \<Rightarrow>
          (let i = pu_proposal u; s2 = modify_proposal i (change_approvals u) s1; p = the (tbl_get i (proposals s2));
               failed = Done (modify_proposal i (\<lambda>p. p\<lparr>has_fail_reason := True\<rparr>) s2);
               r = (if review_period_time p \<noteq> None then Done s2
                 else (case is_authorized_to_execute E p s2 of
                    None \<Rightarrow> Undefined
                  | Some False \<Rightarrow> Done s2
                  | Some True \<Rightarrow> (case room of
                      0 \<Rightarrow> failed
                    | Suc m \<Rightarrow> (case run_ops L E m (i # refs) (proposed_transaction p) s2 of
                        Undefined \<Rightarrow> Undefined
                      | Thrown \<Rightarrow> failed
                      | Done s3 \<Rightarrow> remove_proposal refs i s3))))
           in case r of Undefined \<Rightarrow> Undefined | Thrown \<Rightarrow> Thrown | Done s4 \<Rightarrow> of_option (fee_end L c s4)))"
| "run_op L E room refs (Proposal_delete v) s =
     (case fee_begin L (gov_fee E (Proposal_delete v)) (pd_fee_paying_account v) (pd_fee v) (proposal_delete_evaluate v) s of
        None \<Rightarrow> Thrown
      | Some (c, e, s1) \<Rightarrow> (case remove_proposal refs (pd_proposal v) s1 of
          Undefined \<Rightarrow> Undefined | Thrown \<Rightarrow> Thrown | Done s2 \<Rightarrow> of_option (fee_end L c s2)))"
| "run_ops L E room refs [] s = Done s"
| "run_ops L E room refs (op # ops) s =
     (case run_op L E room refs op s of Undefined \<Rightarrow> Undefined | Thrown \<Rightarrow> Thrown | Done s1 \<Rightarrow> run_ops L E room refs ops s1)"

text \<open>\<^verbatim>\<open>push_proposal\<close> for the proposal \<open>i\<close>, from outside of any other execution.\<close>

definition nesting_limit :: "('k, 'a) gov_env \<Rightarrow> nat" where
  "nesting_limit E = active_witness_number E * 2"

definition push_proposal :: "fc_lib \<Rightarrow> ('k::linorder, 'a) gov_env \<Rightarrow> nat \<Rightarrow> 'k proposal_object \<Rightarrow> 'k gov_db \<Rightarrow> 'k gov_db exec" where
  "push_proposal L E i p s = (case nesting_limit E of
       0 \<Rightarrow> Thrown
     | Suc m \<Rightarrow> (case run_ops L E m [i] (proposed_transaction p) s of
         Undefined \<Rightarrow> Undefined | Thrown \<Rightarrow> Thrown | Done s1 \<Rightarrow> remove_proposal [] i s1))"

text \<open>The body of the loop of \<^verbatim>\<open>clear_expired_proposals\<close> for one proposal, and the loop; \<open>None\<close> would be a loop that does not end.\<close>

definition expire_proposal :: "fc_lib \<Rightarrow> ('k::linorder, 'a) gov_env \<Rightarrow> nat \<Rightarrow> 'k proposal_object \<Rightarrow> 'k gov_db \<Rightarrow> 'k gov_db exec" where
  "expire_proposal L E i p s = (case is_authorized_to_execute E p s of
       None \<Rightarrow> Undefined
     | Some False \<Rightarrow> remove_proposal [] i s
     | Some True \<Rightarrow> (case push_proposal L E i p s of Undefined \<Rightarrow> Undefined | Thrown \<Rightarrow> remove_proposal [] i s | Done s1 \<Rightarrow> Done s1))"

partial_function (option) clear_expired ::
  "fc_lib \<Rightarrow> ('k::linorder, 'a) gov_env \<Rightarrow> 'k gov_db \<Rightarrow> 'k gov_db exec option" where
  [code]: "clear_expired L E s = (case tbl_first_by po_expiration_time (proposals s) of
       None \<Rightarrow> Some (Done s)
     | Some (i, p) \<Rightarrow> if po_expiration_time p \<le> head_block_time (gdb s)
         then (case expire_proposal L E i p s of Undefined \<Rightarrow> Some Undefined | Thrown \<Rightarrow> Some Thrown | Done s1 \<Rightarrow> clear_expired L E s1)
         else Some (Done s))"

section \<open>The check of authorities returns\<close>

text \<open>Authorities that name no addresses; with an unknown address the check reads past the end of a map.\<close>

definition address_free :: "('k, 'a) authority option \<Rightarrow> bool" where
  "address_free au \<longleftrightarrow> (\<forall>x. au = Some x \<longrightarrow> address_auths x = [])"

definition authorities_address_free :: "('k, 'a) sign_context \<Rightarrow> bool" where
  "authorities_address_free C \<longleftrightarrow> (\<forall>a. address_free (get_active C a) \<and> address_free (get_owner C a))"

definition answers :: "('k::linorder, 'a) sign_context \<Rightarrow> nat \<Rightarrow> bool" where
  "answers C n \<longleftrightarrow> (\<forall>au s. address_free au \<longrightarrow> check_authority C n au s \<noteq> None)"

lemma bind_answers: "m \<noteq> None \<Longrightarrow> (\<And>r s. f (r, s) \<noteq> None) \<Longrightarrow> Option.bind m f \<noteq> None"
  by auto

lemma check_account_answers:
  assumes "authorities_address_free C" "a \<in> set (approved_by s) \<or> answers C n"
  shows "check_account C n a s \<noteq> None"
proof (cases "a \<in> set (approved_by s)")
  case False
  then have "answers C n" using assms(2) by simp
  moreover have "address_free (get_active C a)" "address_free (get_owner C a)" using assms(1) by (simp_all add: authorities_address_free_def)
  ultimately have "\<forall>s. check_authority C n (get_active C a) s \<noteq> None" "\<forall>s. check_authority C n (get_owner C a) s \<noteq> None"
    by (simp_all add: answers_def)
  then show ?thesis unfolding check_account_def if_not_P [OF False] by (intro bind_answers) auto
qed (simp add: check_account_def)

lemma check_accounts_answers:
  assumes C: "authorities_address_free C" and prev: "n = 0 \<or> answers C (n - 1)"
  shows "check_accounts C n t as w s \<noteq> None"
proof (induction as arbitrary: w s)
  case (Cons p as)
  obtain a x where p: "p = (a, x)" by fastforce
  show ?case
  proof (cases "a \<notin> set (approved_by s) \<and> n = 0")
    case True
    then show ?thesis using Cons by (simp add: p)
  next
    case False
    then have "check_account C (n - 1) a s \<noteq> None" using check_account_answers [OF C] prev by auto
    then show ?thesis unfolding p check_accounts_step if_not_P [OF False] using Cons by (auto simp: Let_def)
  qed
qed simp

lemma check_authority_answers:
  fixes C :: "('k::linorder, 'a) sign_context"
  assumes C: "authorities_address_free C"
  shows "answers C n"
proof (induction n)
  have step: "answers C n" if prev: "n = 0 \<or> answers C (n - 1)" for n
    unfolding answers_def
  proof (intro allI impI)
    fix auo :: "('k, 'a) authority option" and s
    assume af: "address_free auo"
    show "check_authority C n auo s \<noteq> None"
    proof (cases auo)
      case (Some au)
      obtain b w s1 where k: "check_keys C (weight_threshold au) (key_auths au) 0 s = (b, w, s1)" by (metis prod_cases3)
      then show ?thesis using Some af check_accounts_answers [OF C prev] by (cases b) (simp_all add: address_free_def)
    qed simp
  qed
  show "answers C 0" by (rule step) simp
  show "answers C (Suc n)" if "answers C n" for n by (rule step) (simp add: that)
qed

lemma assert_all_answers: "(\<And>x s. x \<in> set xs \<Longrightarrow> check x s \<noteq> None) \<Longrightarrow> assert_all e check xs s \<noteq> None"
proof (induction xs arbitrary: s)
  case (Cons x xs)
  obtain r s1 where "check x s = Some (r, s1)" using Cons.prems [of x s] by auto
  then show ?case using Cons by auto
qed simp

lemma bind_result_answers: "m \<noteq> None \<Longrightarrow> (\<And>s. f s \<noteq> None) \<Longrightarrow> bind_result m f \<noteq> None"
  by (auto simp: bind_result_def split: sum.split)

lemma verify_authority_answers:
  fixes C :: "('k::linorder, 'a) sign_context"
  assumes C: "authorities_address_free C" and other: "\<And>op. op \<in> set ops \<Longrightarrow> \<forall>au \<in> set (op_other I op). address_auths au = []"
  shows "verify_authority I C ops sigs n allow_committee act own \<noteq> None"
proof -
  obtain ra ro other where req: "fold (operation_get_required_authorities I) ops ([], [], []) = (ra, ro, other)" by (metis prod_cases3)
  let ?C = "C\<lparr>available_keys := []\<rparr>"
  have C': "authorities_address_free ?C" using C by (simp add: authorities_address_free_def)
  note ans = check_authority_answers [OF C', of n]
  have auth: "address_free au \<Longrightarrow> check_authority ?C n au s \<noteq> None" for au s using ans by (simp add: answers_def)
  have own: "check_authority ?C n (get_owner ?C i) s \<noteq> None" for i s
    by (rule auth) (use C in \<open>simp add: authorities_address_free_def\<close>)
  have acc: "check_account ?C n i s \<noteq> None" for i s by (rule check_account_answers [OF C']) (simp add: ans)
  have "address_free (Some au)" if "au \<in> set other" for au
    using that assms(2) required_of(3) [OF req] by (auto simp: address_free_def)
  moreover have "do { (r, s1) \<leftarrow> check_account ?C n i s; if r then Some (True, s1) else check_authority ?C n (get_owner ?C i) s1 } \<noteq> None" for i s
    by (rule bind_answers [OF acc]) (use own in auto)
  ultimately have "check_required ?C n own ra ro other s \<noteq> None" for own s
    unfolding check_required_def by (intro bind_result_answers assert_all_answers auth) (use own in auto)
  then have "bind_result (check_required ?C n own ra ro other s) (\<lambda>s. Some (g s)) \<noteq> None" for own s and g :: "_ \<Rightarrow> auth_error + unit"
    by (rule bind_result_answers) simp
  then show ?thesis unfolding verify_authority_def Let_def req prod.case by (metis option.distinct(1))
qed

lemma update_required_keys_free: "au \<in> set (update_required_keys u) \<Longrightarrow> address_auths au = []"
  by (auto simp: update_required_keys_def Let_def split: if_splits)

definition env_ok :: "('k, 'a) gov_env \<Rightarrow> bool" where
  "env_ok E \<longleftrightarrow> (\<forall>a. address_free (gov_active E a) \<and> address_free (gov_owner E a))"

lemma is_authorized_answers:
  fixes E :: "('k::linorder, 'a) gov_env"
  assumes "env_ok E"
  shows "is_authorized_to_execute E p s \<noteq> None"
proof -
  have "authorities_address_free (gov_context E s)" using assms by (simp add: env_ok_def authorities_address_free_def gov_context_def)
  moreover have "\<forall>au \<in> set (op_other (proposable_iface :: (_, 'k, 'a) auth_interface) op). address_auths au = []" for op :: "'k proposable"
    by (auto simp: proposable_iface_def dest: update_required_keys_free split: proposable.splits)
  ultimately show ?thesis unfolding is_authorized_to_execute_def option.map_disc_iff by (rule verify_authority_answers)
qed

section \<open>What an execution keeps\<close>

text \<open>The proposals that an operation updates or deletes, at any depth.\<close>

fun op_targets :: "'k proposable \<Rightarrow> nat list" where
  "op_targets (Plain op) = []"
| "op_targets (Proposal_create fee payer ops expir review) = concat (map op_targets ops)"
| "op_targets (Proposal_update u) = [pu_proposal u]"
| "op_targets (Proposal_delete v) = [pd_proposal v]"

abbreviation ops_targets :: "'k proposable list \<Rightarrow> nat set" where
  "ops_targets ops \<equiv> set (concat (map op_targets ops))"

text \<open>The visitor counts the targets and finds the greatest.\<close>

lemma visit_1479_targets:
  "fst (visit_1479 op v) = fst v + length (op_targets op)"
  "t \<in> set (op_targets op) \<or> fst v > 0 \<and> t \<le> snd v \<Longrightarrow> t \<le> snd (visit_1479 op v)"
proof -
  have "fst (visit_1479 op v) = fst v + length (op_targets op) \<and>
    (\<forall>t. t \<in> set (op_targets op) \<or> fst v > 0 \<and> t \<le> snd v \<longrightarrow> t \<le> snd (visit_1479 op v))"
  proof (induction op arbitrary: v)
    case (Proposal_create fee payer ops expir review)
    have "fst (fold visit_1479 ops v) = fst v + length (concat (map op_targets ops)) \<and>
      (\<forall>t. t \<in> ops_targets ops \<or> fst v > 0 \<and> t \<le> snd v \<longrightarrow> t \<le> snd (fold visit_1479 ops v))"
      using Proposal_create
    proof (induction ops arbitrary: v)
      case (Cons op ops)
      let ?v = "visit_1479 op v"
      have op: "fst ?v = fst v + length (op_targets op)" "\<And>t. t \<in> set (op_targets op) \<or> fst v > 0 \<and> t \<le> snd v \<Longrightarrow> t \<le> snd ?v"
        using Cons.prems [of op v] by auto
      have ops: "fst (fold visit_1479 ops ?v) = fst ?v + length (concat (map op_targets ops))"
        "\<And>t. t \<in> ops_targets ops \<or> fst ?v > 0 \<and> t \<le> snd ?v \<Longrightarrow> t \<le> snd (fold visit_1479 ops ?v)"
        using Cons.IH [of ?v] Cons.prems by auto
      have "t \<le> snd (fold visit_1479 ops ?v)" if "t \<in> ops_targets (op # ops) \<or> fst v > 0 \<and> t \<le> snd v" for t
      proof (cases "t \<in> ops_targets ops")
        case False
        then have t: "t \<in> set (op_targets op) \<or> fst v > 0 \<and> t \<le> snd v" using that by simp
        then have "fst ?v > 0" using op(1) by (auto simp: length_pos_if_in_set)
        with ops(2) op(2) [OF t] show ?thesis by blast
      qed (use ops(2) in blast)
      then show ?case using op(1) ops(1) by simp
    qed simp
    then show ?case by simp
  qed (cases v; auto)+
  then show "fst (visit_1479 op v) = fst v + length (op_targets op)"
    "t \<in> set (op_targets op) \<or> fst v > 0 \<and> t \<le> snd v \<Longrightarrow> t \<le> snd (visit_1479 op v)" by auto
qed

text \<open>The invariant: every proposal has valid operations and only targets older ones, which the check of the hard fork ensures.\<close>

definition proposal_ok :: "nat \<Rightarrow> 'k proposal_object \<Rightarrow> bool" where
  "proposal_ok i p \<longleftrightarrow> list_all proposable_validate (proposed_transaction p) \<and> (\<forall>t \<in> ops_targets (proposed_transaction p). t < i)"

definition gov_wf :: "'k gov_db \<Rightarrow> bool" where
  "gov_wf s \<longleftrightarrow> db_wf (gdb s) \<and> tbl_wf (proposals s) \<and> head_block_time (gdb s) > HARDFORK_CORE_1479_TIME \<and>
     (\<forall>i p. tbl_get i (proposals s) = Some p \<longrightarrow> proposal_ok i p)"

text \<open>How a proposal may change while it waits: in its review period the accounts can only withdraw approvals.\<close>

definition evolves :: "time_point_sec \<Rightarrow> 'k proposal_object \<Rightarrow> 'k proposal_object \<Rightarrow> bool" where
  "evolves now p p' \<longleftrightarrow> po_expiration_time p' = po_expiration_time p \<and> review_period_time p' = review_period_time p \<and>
     proposed_transaction p' = proposed_transaction p \<and> proposer p' = proposer p \<and>
     required_active_approvals p' = required_active_approvals p \<and> required_owner_approvals p' = required_owner_approvals p \<and>
     (in_review now p \<longrightarrow> set (available_active_approvals p') \<subseteq> set (available_active_approvals p) \<and>
        set (available_owner_approvals p') \<subseteq> set (available_owner_approvals p))"

text \<open>An execution with targets \<open>T\<close>: newer proposals are untouched, older ones evolve or go, new ones expire later.\<close>

definition gov_rel :: "nat set \<Rightarrow> 'k gov_db \<Rightarrow> 'k gov_db \<Rightarrow> bool" where
  "gov_rel T s s' \<longleftrightarrow> gov_wf s' \<and> (\<forall>b. gap b (gdb s') = gap b (gdb s)) \<and> head_block_time (gdb s') = head_block_time (gdb s) \<and>
     next_instance (proposals s) \<le> next_instance (proposals s') \<and>
     (\<forall>i p. tbl_get i (proposals s) = Some p \<longrightarrow> (\<forall>t \<in> T. t < i) \<longrightarrow> tbl_get i (proposals s') = Some p) \<and>
     (\<forall>i p'. tbl_get i (proposals s') = Some p' \<longrightarrow>
        (if i < next_instance (proposals s) then \<exists>p. tbl_get i (proposals s) = Some p \<and> evolves (head_block_time (gdb s)) p p'
         else po_expiration_time p' > head_block_time (gdb s)))"

lemma evolves_refl [simp]: "evolves now p p"
  by (simp add: evolves_def)

lemma evolves_trans:
  assumes "evolves now p q" "evolves now q r"
  shows "evolves now p r"
proof -
  have "in_review now q = in_review now p" using assms(1) by (simp add: evolves_def in_review_def)
  then show ?thesis using assms unfolding evolves_def by auto
qed

lemma tbl_get_less: "tbl_wf t \<Longrightarrow> tbl_get i t = Some p \<Longrightarrow> i < next_instance t"
  by (auto simp: tbl_wf_def tbl_get_def dest!: map_of_SomeD)

lemma gov_rel_refl: "gov_wf s \<Longrightarrow> gov_rel T s s"
  by (auto simp: gov_rel_def gov_wf_def dest: tbl_get_less)

lemma gov_rel_weaken: "gov_rel T s s' \<Longrightarrow> (\<And>t. t \<in> T \<Longrightarrow> \<exists>t' \<in> T'. t \<le> t') \<Longrightarrow> gov_rel T' s s'"
  unfolding gov_rel_def by (meson order.strict_trans1)

lemma gov_rel_old:
  assumes "gov_rel T s s'" "tbl_get i (proposals s') = Some p'" "i < next_instance (proposals s)"
  obtains p where "tbl_get i (proposals s) = Some p" "evolves (head_block_time (gdb s)) p p'"
  using assms unfolding gov_rel_def by meson

lemma gov_rel_new:
  assumes "gov_rel T s s'" "tbl_get i (proposals s') = Some p'" "\<not> i < next_instance (proposals s)"
  shows "po_expiration_time p' > head_block_time (gdb s)"
  using assms unfolding gov_rel_def by meson

lemma gov_rel_trans:
  assumes 1: "gov_rel T s s1" and 2: "gov_rel T s1 s2"
  shows "gov_rel T s s2"
proof -
  let ?now = "head_block_time (gdb s)"
  have keeps: "gov_wf s2" "\<forall>b. gap b (gdb s2) = gap b (gdb s)" "head_block_time (gdb s1) = ?now" "head_block_time (gdb s2) = ?now"
    "next_instance (proposals s) \<le> next_instance (proposals s1)" "next_instance (proposals s) \<le> next_instance (proposals s2)"
    "\<forall>i p. tbl_get i (proposals s) = Some p \<longrightarrow> (\<forall>t \<in> T. t < i) \<longrightarrow> tbl_get i (proposals s2) = Some p"
    using 1 2 by (auto simp: gov_rel_def)
  moreover have "if i < next_instance (proposals s) then \<exists>p. tbl_get i (proposals s) = Some p \<and> evolves ?now p p' else po_expiration_time p' > ?now"
    if p': "tbl_get i (proposals s2) = Some p'" for i p'
  proof (cases "i < next_instance (proposals s1)")
    case True
    then obtain q where q: "tbl_get i (proposals s1) = Some q" "evolves ?now q p'" using gov_rel_old [OF 2 p'] keeps(3) by metis
    show ?thesis
    proof (cases "i < next_instance (proposals s)")
      case True
      with gov_rel_old [OF 1 q(1)] evolves_trans q(2) show ?thesis by metis
    next
      case False
      with gov_rel_new [OF 1 q(1)] q(2) show ?thesis by (simp add: evolves_def)
    qed
  next
    case False
    then show ?thesis using gov_rel_new [OF 2 p'] keeps(3,5) by simp
  qed
  ultimately show ?thesis by (simp add: gov_rel_def)
qed

text \<open>The three changes of the table.\<close>

lemma gov_rel_modify:
  assumes wf: "gov_wf s" and i: "i \<in> T"
    and f: "\<And>p. tbl_get i (proposals s) = Some p \<Longrightarrow> evolves (head_block_time (gdb s)) p (f p)"
  shows "gov_rel T s (modify_proposal i f s)"
proof -
  have w: "tbl_wf (proposals s)" "tbl_wf (tbl_modify i f (proposals s))" using wf by (simp_all add: gov_wf_def tbl.modify_wf)
  have n: "next_instance (tbl_modify i f (proposals s)) = next_instance (proposals s)" by (simp add: tbl_modify_def)
  have ok: "proposal_ok j (f p)" if "j = i" "tbl_get j (proposals s) = Some p" for j p
    using f [of p] that wf by (auto simp: gov_wf_def proposal_ok_def evolves_def)
  show ?thesis
    using wf w n i f ok tbl_get_less [OF w(1)]
    by (auto simp: gov_rel_def gov_wf_def modify_proposal_def tbl.get_modify split: if_splits)
qed

lemma gov_rel_remove:
  assumes wf: "gov_wf s" and i: "i \<in> T"
  shows "gov_rel T s (s\<lparr>proposals := tbl_remove i (proposals s)\<rparr>)"
proof -
  have w: "tbl_wf (proposals s)" "tbl_wf (tbl_remove i (proposals s))" using wf by (simp_all add: gov_wf_def tbl.remove_wf)
  have n: "next_instance (tbl_remove i (proposals s)) = next_instance (proposals s)" by (simp add: tbl_remove_def)
  show ?thesis
    using wf w n i tbl_get_less [OF w(1)] by (auto simp: gov_rel_def gov_wf_def tbl.get_remove split: if_splits)
qed

lemma gov_rel_create:
  assumes wf: "gov_wf s" and p: "proposal_ok (next_instance (proposals s)) p" "po_expiration_time p > head_block_time (gdb s)"
  shows "gov_rel T s (s\<lparr>proposals := snd (tbl_create p (proposals s))\<rparr>)"
proof -
  have w: "tbl_wf (proposals s)" "tbl_wf (snd (tbl_create p (proposals s)))" using wf by (simp_all add: gov_wf_def tbl.create_wf)
  have n: "fst (tbl_create p (proposals s)) = next_instance (proposals s)"
    "next_instance (snd (tbl_create p (proposals s))) = Suc (next_instance (proposals s))" by (simp_all add: tbl_create_def)
  have less: "tbl_get j (proposals s) = Some q \<Longrightarrow> j < next_instance (proposals s)" for j q using tbl_get_less [OF w(1)] .
  have get: "tbl_get j (snd (tbl_create p (proposals s))) = (if j = next_instance (proposals s) then Some p else tbl_get j (proposals s))" for j
    using tbl.get_create [OF w(1), of j p] n(1) by simp
  have wf': "gov_wf (s\<lparr>proposals := snd (tbl_create p (proposals s))\<rparr>)"
    using wf w p(1) by (auto simp: gov_wf_def get)
  moreover have "tbl_get j (proposals s) = Some q \<Longrightarrow> tbl_get j (snd (tbl_create p (proposals s))) = Some q" for j q
    using less [of j q] by (simp add: get)
  moreover have "if j < next_instance (proposals s) then \<exists>r. tbl_get j (proposals s) = Some r \<and> evolves (head_block_time (gdb s)) r q
      else po_expiration_time q > head_block_time (gdb s)" if "tbl_get j (snd (tbl_create p (proposals s))) = Some q" for j q
    using that p(2) less [of j q] by (cases "j = next_instance (proposals s)") (simp_all add: get)
  ultimately show ?thesis by (simp add: gov_rel_def n)
qed

text \<open>The approvals change as the evaluation allows.\<close>

lemma set_fold_insort: "set (fold insort_insert xs ys) = set xs \<union> set ys"
  by (induction xs arbitrary: ys) (auto simp: set_insort_insert)

lemma set_fs_change: "set (fs_change add del xs) = (set add \<union> set xs) - set del"
  by (auto simp: fs_change_def set_fold_insort)

lemma change_approvals_evolves:
  assumes "proposal_update_evaluate u s = Some ()" "tbl_get (pu_proposal u) (proposals s) = Some p"
  shows "evolves (head_block_time (gdb s)) p (change_approvals u p)"
  using assms by (auto simp: proposal_update_evaluate_def evolves_def change_approvals_def set_fs_change)

section \<open>The fee around an operation\<close>

context fc_safe
begin

lemma fee_begin_effect:
  assumes wf: "gov_wf s" and run: "fee_begin L required payer fee ev s = Some (c, e, s1)"
  obtains d1 where "s1 = s\<lparr>gdb := d1\<rparr>" "ev s = Some e" "gov_wf s1" "head_block_time d1 = head_block_time (gdb s)"
    "\<And>b. gap b d1 = gap b (gdb s) + of_asset b fee" "fee_from_account c = fee"
proof -
  have w: "db_wf (gdb s)" using wf by (simp add: gov_wf_def)
  obtain d0 d1 where c: "prepare_fee payer fee (gdb s) = Some c" and e: "ev s = Some e"
    and d0: "convert_fee L False c (gdb s) = Some d0" and d1: "evaluator_pay_fee L False c d0 = Some d1" and s1: "s1 = s\<lparr>gdb := d1\<rparr>"
    using run by (auto simp: fee_begin_def evaluator_evaluate_def opt_bind)
  have fee: "fee_from_account c = fee" using prepare_fee_Some [OF c] by metis
  note e1 = convert_fee_effect [OF w c d0] and e2 = evaluator_pay_fee_effect [OF convert_fee_effect(1) [OF w c d0] d1]
  have t: "head_block_time d1 = head_block_time (gdb s)" using fee_frame_keeps(11) [OF fee_frame_trans [OF e1(2) e2(2)]] .
  have "gap b d1 = gap b (gdb s) + of_asset b fee" for b using e2(3) [of b] e1(4) [of b] by simp
  moreover have "gov_wf s1" using wf e2(1) t by (simp add: gov_wf_def s1)
  ultimately show ?thesis using that s1 e t fee by blast
qed

lemma fee_end_effect:
  assumes wf: "gov_wf s" and run: "fee_end L c s = Some s'" and fee: "fee_from_account c = fee"
  obtains d1 where "s' = s\<lparr>gdb := d1\<rparr>" "gov_wf s'" "head_block_time d1 = head_block_time (gdb s)"
    "\<And>b. gap b d1 = gap b (gdb s) - of_asset b fee"
proof -
  have w: "db_wf (gdb s)" using wf by (simp add: gov_wf_def)
  obtain d1 where d1: "adjust_balance L (fee_payer c) (mk_asset (- amount fee) (asset_id fee)) (gdb s) = Some d1" "s' = s\<lparr>gdb := d1\<rparr>"
    using run fee by (auto simp: fee_end_def asset_neg_def opt_bind safe_Some)
  note e = adjust_balance_effect(1,2) [OF w d1(1)]
  have t: "head_block_time d1 = head_block_time (gdb s)" using adjust_balance_keeps(11) [OF d1(1)] .
  have "gap b d1 = gap b (gdb s) - of_asset b fee" for b using e(2) [of b] by (simp add: of_asset_def)
  moreover have "gov_wf s'" using wf e(1) t by (simp add: gov_wf_def d1(2))
  ultimately show ?thesis using that d1(2) t by blast
qed

lemma gov_rel_fee:
  assumes wf: "gov_wf s" and b: "fee_begin L required payer fee ev s = Some (c, e, s1)" and rel: "gov_rel T s1 s2"
    and f: "fee_end L c s2 = Some s'"
  shows "gov_rel T s s'"
proof -
  obtain d1 where d1: "s1 = s\<lparr>gdb := d1\<rparr>" "gov_wf s1" "head_block_time d1 = head_block_time (gdb s)"
    "\<And>b. gap b d1 = gap b (gdb s) + of_asset b fee" "fee_from_account c = fee" using fee_begin_effect [OF wf b] by metis
  have wf2: "gov_wf s2" using rel by (simp add: gov_rel_def)
  obtain d2 where d2: "s' = s2\<lparr>gdb := d2\<rparr>" "gov_wf s'" "head_block_time d2 = head_block_time (gdb s2)"
    "\<And>b. gap b d2 = gap b (gdb s2) - of_asset b fee" using fee_end_effect [OF wf2 f d1(5)] by metis
  show ?thesis using rel d1 d2 by (simp add: gov_rel_def cong: if_cong)
qed

end

section \<open>Execution is safe\<close>

text \<open>The operations outside of the recursion.\<close>

definition exec_ok :: "nat set \<Rightarrow> 'k gov_db \<Rightarrow> 'k gov_db exec \<Rightarrow> bool" where
  "exec_ok T s r = (case r of Undefined \<Rightarrow> False | Thrown \<Rightarrow> True | Done s' \<Rightarrow> gov_rel T s s')"

lemma exec_ok_simps [simp]: "\<not> exec_ok T s Undefined" "exec_ok T s Thrown" "exec_ok T s (Done s') = gov_rel T s s'"
  by (simp_all add: exec_ok_def)

lemma exec_ok_of_option: "exec_ok T s (of_option r) \<longleftrightarrow> (\<forall>s'. r = Some s' \<longrightarrow> gov_rel T s s')"
  by (cases r) (simp_all add: of_option_def)

lemma remove_proposal_ok:
  assumes "gov_wf s" "i \<notin> set refs" "tbl_get i (proposals s) \<noteq> None" "i \<in> T"
  shows "exec_ok T s (remove_proposal refs i s)"
  using assms by (auto simp: remove_proposal_def gov_rel_remove)

lemma proposal_create_ok:
  assumes wf: "gov_wf s" and ev: "proposal_create_evaluate L E o' s0 = Some v" and t: "head_block_time (gdb s) = head_block_time (gdb s0)"
    and o': "o' = Proposal_create fee payer ops expir review" and run: "proposal_create_apply o' v s = Some s'"
  shows "gov_rel T s s'"
proof -
  let ?i = "next_instance (proposals s)"
  have v: "v = visit_1479 o' (0, 0)" and val: "list_all proposable_validate ops" and ex: "expir > head_block_time (gdb s)"
    using ev t o' by (auto simp: proposal_create_evaluate_def Let_def case_prod_unfold split: if_splits)
  have hf: "head_block_time (gdb s) > HARDFORK_CORE_1479_TIME" using wf by (simp add: gov_wf_def)
  with run o' obtain p where p: "s' = s\<lparr>proposals := snd (tbl_create p (proposals s))\<rparr>" "proposed_transaction p = ops" "po_expiration_time p = expir"
    and nf: "\<not> (fst v > 0 \<and> ?i \<le> snd v)"
    by (fastforce simp: proposal_create_apply_def Let_def case_prod_unfold split: if_splits)
  have "x < ?i" if x: "x \<in> ops_targets ops" for x
  proof -
    have x': "x \<in> set (op_targets o')" using x by (simp add: o')
    then have "0 < length (op_targets o')" by (rule length_pos_if_in_set)
    then have "fst v > 0" using visit_1479_targets(1) [of o' "(0, 0)"] by (simp add: v)
    moreover have "x \<le> snd v" using visit_1479_targets(2) [of x o' "(0, 0)"] x' by (simp add: v)
    ultimately show ?thesis using nf by simp
  qed
  then show ?thesis unfolding p(1) by (intro gov_rel_create [OF wf]) (simp_all add: p proposal_ok_def val ex)
qed

context fc_safe
begin

lemma plain_op_ok:
  assumes wf: "gov_wf s" and val: "operation_validate op \<noteq> None"
  shows "exec_ok T s (run_op L E room refs (Plain op) s)"
proof -
  have "gov_rel T s (s\<lparr>gdb := d\<rparr>)" if d: "apply_operation L (gov_hashes E) (gov_interval E) (gov_fee E (Plain op)) op (gdb s) = Some d" for d
  proof -
    have w: "db_wf (gdb s)" using wf by (simp add: gov_wf_def)
    have v: "operation_validate op = Some ()" using val by simp
    note l = apply_operation_ledger [OF w v d] and t = apply_operation_time [OF w d]
    have "gov_wf (s\<lparr>gdb := d\<rparr>)" using wf l t by (simp add: gov_wf_def)
    with l t gov_rel_refl [OF wf, of T] show ?thesis by (simp add: gov_rel_def)
  qed
  then show ?thesis by (auto simp: exec_ok_of_option map_option_eq_Some)
qed

lemma create_op_ok:
  assumes wf: "gov_wf s"
  shows "exec_ok T s (run_op L E room refs (Proposal_create fee payer ops expir review) s)"
proof -
  let ?o = "Proposal_create fee payer ops expir review"
  have "gov_rel T s s'" if b: "fee_begin L (gov_fee E ?o) payer fee (proposal_create_evaluate L E ?o) s = Some (c, v, s1)"
    and a: "proposal_create_apply ?o v s1 = Some s2" and f: "fee_end L c s2 = Some s'" for c v s1 s2 s'
  proof -
    obtain d1 where d1: "s1 = s\<lparr>gdb := d1\<rparr>" "proposal_create_evaluate L E ?o s = Some v" "gov_wf s1"
      "head_block_time d1 = head_block_time (gdb s)" using fee_begin_effect [OF wf b] by metis
    have "gov_rel T s1 s2" by (rule proposal_create_ok [OF d1(3,2) _ refl a]) (simp add: d1(1,4))
    then show ?thesis by (rule gov_rel_fee [OF wf b _ f])
  qed
  then show ?thesis by (auto simp: exec_ok_of_option opt_bind Let_def)
qed

lemma delete_op_ok:
  assumes wf: "gov_wf s" and refs: "pd_proposal v \<notin> set refs"
  shows "exec_ok {pd_proposal v} s (run_op L E room refs (Proposal_delete v) s)"
proof (cases "fee_begin L (gov_fee E (Proposal_delete v)) (pd_fee_paying_account v) (pd_fee v) (proposal_delete_evaluate v) s")
  case (Some q)
  obtain c e s1 where q: "q = (c, e, s1)" by (cases q)
  note b = Some [unfolded q]
  obtain d1 where d1: "s1 = s\<lparr>gdb := d1\<rparr>" "proposal_delete_evaluate v s = Some e" "gov_wf s1" using fee_begin_effect [OF wf b] by metis
  have "tbl_get (pd_proposal v) (proposals s1) \<noteq> None" using d1(1,2) by (auto simp: proposal_delete_evaluate_def opt_bind)
  then have r: "exec_ok {pd_proposal v} s1 (remove_proposal refs (pd_proposal v) s1)" by (intro remove_proposal_ok [OF d1(3) refs]) simp_all
  show ?thesis
    using b r gov_rel_fee [OF wf b] by (cases "remove_proposal refs (pd_proposal v) s1") (auto simp: exec_ok_of_option)
qed simp

text \<open>An update, given that the nested execution is safe.\<close>

lemma update_op_ok:
  assumes wf: "gov_wf s" and E: "env_ok E" and refs: "pu_proposal u \<notin> set refs"
    and nested: "\<And>m p s2. room = Suc m \<Longrightarrow> gov_wf s2 \<Longrightarrow> tbl_get (pu_proposal u) (proposals s2) = Some p \<Longrightarrow>
      exec_ok (ops_targets (proposed_transaction p)) s2 (run_ops L E m (pu_proposal u # refs) (proposed_transaction p) s2)"
  shows "exec_ok {pu_proposal u} s (run_op L E room refs (Proposal_update u) s)"
proof (cases "fee_begin L (gov_fee E (Proposal_update u)) (pu_fee_paying_account u) (pu_fee u) (proposal_update_evaluate u) s")
  case (Some q)
  obtain c e s1 where q: "q = (c, e, s1)" by (cases q)
  note b = Some [unfolded q]
  let ?i = "pu_proposal u"
  obtain d1 where d1: "s1 = s\<lparr>gdb := d1\<rparr>" "proposal_update_evaluate u s = Some e" "gov_wf s1" "head_block_time d1 = head_block_time (gdb s)"
    using fee_begin_effect [OF wf b] by metis
  obtain p0 where p0: "tbl_get ?i (proposals s1) = Some p0" using d1(1,2) by (auto simp: proposal_update_evaluate_def opt_bind)
  define s2 where "s2 = modify_proposal ?i (change_approvals u) s1"
  define p where "p = change_approvals u p0"
  have p: "tbl_get ?i (proposals s2) = Some p" using p0 by (simp add: s2_def modify_proposal_def tbl.get_modify p_def)
  have r2: "gov_rel {?i} s1 s2" unfolding s2_def
    by (rule gov_rel_modify [OF d1(3)]) (use change_approvals_evolves [of u s] d1(1,2,4) in auto)
  then have wf2: "gov_wf s2" by (simp add: gov_rel_def)
  define failed where "failed = modify_proposal ?i (\<lambda>p. p\<lparr>has_fail_reason := True\<rparr>) s2"
  have rf: "gov_rel {?i} s2 failed" unfolding failed_def by (rule gov_rel_modify [OF wf2]) (simp_all add: evolves_def)
  define r where "r = (if review_period_time p \<noteq> None then Done s2
     else (case is_authorized_to_execute E p s2 of
        None \<Rightarrow> Undefined | Some False \<Rightarrow> Done s2
      | Some True \<Rightarrow> (case room of 0 \<Rightarrow> Done failed
        | Suc m \<Rightarrow> (case run_ops L E m (?i # refs) (proposed_transaction p) s2 of
            Undefined \<Rightarrow> Undefined | Thrown \<Rightarrow> Done failed | Done s3 \<Rightarrow> remove_proposal refs ?i s3))))"
  have below: "\<forall>t \<in> ops_targets (proposed_transaction p). t < ?i" using wf2 p by (auto simp: gov_wf_def proposal_ok_def)
  have push: "exec_ok {?i} s2 (case run_ops L E m (?i # refs) (proposed_transaction p) s2 of
            Undefined \<Rightarrow> Undefined | Thrown \<Rightarrow> Done failed | Done s3 \<Rightarrow> remove_proposal refs ?i s3)" if m: "room = Suc m" for m
  proof (cases "run_ops L E m (?i # refs) (proposed_transaction p) s2")
    case (Done s3)
    with nested [OF m wf2 p] have r3: "gov_rel (ops_targets (proposed_transaction p)) s2 s3" by simp
    then have wf3: "gov_wf s3" and p3: "tbl_get ?i (proposals s3) = Some p" using p below by (auto simp: gov_rel_def)
    have r3': "gov_rel {?i} s2 s3" by (rule gov_rel_weaken [OF r3]) (use below less_imp_le in blast)
    have "exec_ok {?i} s3 (remove_proposal refs ?i s3)" by (rule remove_proposal_ok [OF wf3 refs]) (simp_all add: p3)
    with r3' gov_rel_trans show ?thesis unfolding Done by (cases "remove_proposal refs ?i s3") auto
  qed (use nested [OF m wf2 p] rf in simp_all)
  have auth: "is_authorized_to_execute E p s2 \<noteq> None" by (rule is_authorized_answers [OF E])
  have "exec_ok {?i} s2 r"
    unfolding r_def using auth push rf gov_rel_refl [OF wf2] by (auto split: nat.split bool.split option.split)
  with r2 gov_rel_trans have ok: "exec_ok {?i} s1 r" by (cases r) auto
  have "run_op L E room refs (Proposal_update u) s =
      (case r of Undefined \<Rightarrow> Undefined | Thrown \<Rightarrow> Thrown | Done s4 \<Rightarrow> of_option (fee_end L c s4))"
    unfolding run_op.simps(3) b option.case prod.case Let_def s2_def [symmetric] p option.sel failed_def [symmetric] r_def [symmetric] ..
  then show ?thesis using ok gov_rel_fee [OF wf b] by (cases r) (auto simp: exec_ok_of_option)
qed simp

lemma run_ops_step:
  fixes E :: "('k::linorder, 'a) gov_env"
  assumes op: "\<And>op s. gov_wf s \<Longrightarrow> proposable_validate op \<Longrightarrow> \<forall>t \<in> set (op_targets op). \<forall>r \<in> set refs. t < r \<Longrightarrow>
      exec_ok (set (op_targets op)) s (run_op L E room refs op s)"
  shows "gov_wf s \<Longrightarrow> list_all proposable_validate ops \<Longrightarrow> \<forall>t \<in> ops_targets ops. \<forall>r \<in> set refs. t < r \<Longrightarrow>
      exec_ok (ops_targets ops) s (run_ops L E room refs ops s)"
proof (induction ops arbitrary: s)
  case (Cons x xs)
  have x: "exec_ok (set (op_targets x)) s (run_op L E room refs x s)" by (rule op) (use Cons.prems in auto)
  show ?case
  proof (cases "run_op L E room refs x s")
    case (Done s1)
    with x have r: "gov_rel (set (op_targets x)) s s1" by simp
    then have wf1: "gov_wf s1" by (simp add: gov_rel_def)
    have r': "gov_rel (ops_targets (x # xs)) s s1" by (rule gov_rel_weaken [OF r]) auto
    have xs: "exec_ok (ops_targets xs) s1 (run_ops L E room refs xs s1)" by (rule Cons.IH [OF wf1]) (use Cons.prems in auto)
    show ?thesis
    proof (cases "run_ops L E room refs xs s1")
      case (Done s2)
      with xs have r2: "gov_rel (ops_targets xs) s1 s2" by simp
      have "gov_rel (ops_targets (x # xs)) s1 s2" by (rule gov_rel_weaken [OF r2]) auto
      then show ?thesis using gov_rel_trans [OF r'] Done \<open>run_op L E room refs x s = Done s1\<close> by simp
    qed (use xs \<open>run_op L E room refs x s = Done s1\<close> in auto)
  qed (use x in auto)
qed (simp add: gov_rel_refl)

lemma run_op_ok:
  fixes E :: "('k::linorder, 'a) gov_env"
  assumes E: "env_ok E"
  shows "gov_wf s \<Longrightarrow> proposable_validate op \<Longrightarrow> \<forall>t \<in> set (op_targets op). \<forall>r \<in> set refs. t < r \<Longrightarrow>
    exec_ok (set (op_targets op)) s (run_op L E room refs op s)"
proof (induction room arbitrary: op s refs)
  have step: "exec_ok (set (op_targets op)) s (run_op L E room refs op s)"
    if wf: "gov_wf s" and val: "proposable_validate op" and refs: "\<forall>t \<in> set (op_targets op). \<forall>r \<in> set refs. t < r"
      and prev: "\<And>m op s refs. room = Suc m \<Longrightarrow> gov_wf s \<Longrightarrow> proposable_validate op \<Longrightarrow> \<forall>t \<in> set (op_targets op). \<forall>r \<in> set refs. t < r \<Longrightarrow>
        exec_ok (set (op_targets op)) s (run_op L E m refs op s)" for op s refs room
  proof (cases op)
    case (Plain x)
    then show ?thesis using plain_op_ok [OF wf] val by (simp only: proposable_validate.simps op_targets.simps)
  next
    case (Proposal_create fee payer ops expir review)
    then show ?thesis using create_op_ok [OF wf] by (simp only:)
  next
    case (Proposal_update u)
    have "exec_ok {pu_proposal u} s (run_op L E room refs (Proposal_update u) s)"
    proof (rule update_op_ok [OF wf E])
      show "pu_proposal u \<notin> set refs" using refs Proposal_update by auto
      fix m s2 and p :: "'k proposal_object"
      assume m: "room = Suc m" and wf2: "gov_wf s2" and p: "tbl_get (pu_proposal u) (proposals s2) = Some p"
      then have ok: "proposal_ok (pu_proposal u) p" by (simp add: gov_wf_def)
      show "exec_ok (ops_targets (proposed_transaction p)) s2 (run_ops L E m (pu_proposal u # refs) (proposed_transaction p) s2)"
      proof (rule run_ops_step [OF prev [OF m] wf2])
        show "list_all proposable_validate (proposed_transaction p)" using ok by (simp add: proposal_ok_def)
        show "\<forall>t \<in> ops_targets (proposed_transaction p). \<forall>r \<in> set (pu_proposal u # refs). t < r"
          using ok refs Proposal_update by (fastforce simp: proposal_ok_def)
      qed
    qed
    then show ?thesis by (simp only: Proposal_update op_targets.simps list.set)
  next
    case (Proposal_delete v)
    then have "pd_proposal v \<notin> set refs" using refs by auto
    then show ?thesis using delete_op_ok [OF wf] Proposal_delete by (simp only: op_targets.simps list.set)
  qed
  show "exec_ok (set (op_targets op)) s (run_op L E 0 refs op s)"
    if "gov_wf s" "proposable_validate op" "\<forall>t \<in> set (op_targets op). \<forall>r \<in> set refs. t < r" for op s refs
    by (rule step [OF that]) simp
  show "exec_ok (set (op_targets op)) s (run_op L E (Suc room) refs op s)"
    if IH: "\<And>op s refs. gov_wf s \<Longrightarrow> proposable_validate op \<Longrightarrow> \<forall>t \<in> set (op_targets op). \<forall>r \<in> set refs. t < r \<Longrightarrow>
        exec_ok (set (op_targets op)) s (run_op L E room refs op s)"
      and "gov_wf s" "proposable_validate op" "\<forall>t \<in> set (op_targets op). \<forall>r \<in> set refs. t < r" for room op s refs
    by (rule step [OF that(2-4)]) (use IH in simp)
qed

lemmas run_ops_ok = run_ops_step [OF run_op_ok]

lemma push_proposal_ok:
  assumes E: "env_ok E" and wf: "gov_wf s" and p: "tbl_get i (proposals s) = Some p"
  shows "exec_ok {i} s (push_proposal L E i p s) \<and> (\<forall>s'. push_proposal L E i p s = Done s' \<longrightarrow> tbl_get i (proposals s') = None)"
proof (cases "nesting_limit E")
  case (Suc m)
  have ok: "proposal_ok i p" using wf p by (simp add: gov_wf_def)
  have r: "exec_ok (ops_targets (proposed_transaction p)) s (run_ops L E m [i] (proposed_transaction p) s)"
    by (rule run_ops_ok [OF E _ _ _ wf]) (use ok in \<open>auto simp: proposal_ok_def\<close>)
  show ?thesis
  proof (cases "run_ops L E m [i] (proposed_transaction p) s")
    case (Done s1)
    with r have r1: "gov_rel (ops_targets (proposed_transaction p)) s s1" by simp
    have p1: "tbl_get i (proposals s1) = Some p" "gov_wf s1" using r1 p ok by (auto simp: gov_rel_def proposal_ok_def)
    have r1': "gov_rel {i} s s1" by (rule gov_rel_weaken [OF r1]) (use ok less_imp_le in \<open>unfold proposal_ok_def, blast\<close>)
    have "tbl_wf (proposals s1)" using p1(2) by (simp add: gov_wf_def)
    then show ?thesis
      using gov_rel_trans [OF r1' gov_rel_remove [OF p1(2)]] Suc Done p1(1) by (simp add: push_proposal_def remove_proposal_def tbl.get_remove)
  qed (use r Suc in \<open>auto simp: push_proposal_def\<close>)
qed (simp add: push_proposal_def)

lemma expire_proposal_ok:
  assumes E: "env_ok E" and wf: "gov_wf s" and p: "tbl_get i (proposals s) = Some p"
  obtains s' where "expire_proposal L E i p s = Done s'" "gov_rel {i} s s'" "tbl_get i (proposals s') = None"
proof -
  let ?r = "s\<lparr>proposals := tbl_remove i (proposals s)\<rparr>"
  have w: "tbl_wf (proposals s)" using wf by (simp add: gov_wf_def)
  have rem: "remove_proposal [] i s = Done ?r" "gov_rel {i} s ?r" "tbl_get i (proposals ?r) = None"
    using p gov_rel_remove [OF wf, of i "{i}"] by (simp_all add: remove_proposal_def tbl.get_remove [OF w])
  note push = push_proposal_ok [OF E wf p]
  obtain a where a: "is_authorized_to_execute E p s = Some a" using is_authorized_answers [OF E] by auto
  show ?thesis
  proof (cases "a \<and> push_proposal L E i p s \<noteq> Thrown")
    case True
    then obtain s' where s': "push_proposal L E i p s = Done s'" using push by (cases "push_proposal L E i p s") auto
    with push a True that [of s'] show ?thesis by (simp add: expire_proposal_def)
  next
    case False
    then have "expire_proposal L E i p s = Done ?r" using a rem(1) by (cases a) (auto simp: expire_proposal_def)
    with rem(2,3) that show ?thesis by blast
  qed
qed

end

text \<open>The proposals that have expired.\<close>

definition expired :: "'k gov_db \<Rightarrow> nat set" where
  "expired s = {i. \<exists>p. tbl_get i (proposals s) = Some p \<and> po_expiration_time p \<le> head_block_time (gdb s)}"

lemma finite_expired: "finite (expired s)"
  by (rule finite_subset [of _ "dom (map_of (rows (proposals s)))"]) (auto simp: expired_def tbl_get_def finite_dom_map_of)

lemma expired_rel: "gov_rel T s s' \<Longrightarrow> expired s' \<subseteq> expired s"
proof
  fix i
  assume rel: "gov_rel T s s'" and "i \<in> expired s'"
  then obtain p' where p': "tbl_get i (proposals s') = Some p'" "po_expiration_time p' \<le> head_block_time (gdb s)"
    by (auto simp: expired_def gov_rel_def)
  then have "i < next_instance (proposals s)" using gov_rel_new [OF rel p'(1)] by (meson not_le)
  then obtain p where "tbl_get i (proposals s) = Some p" "evolves (head_block_time (gdb s)) p p'" using gov_rel_old [OF rel p'(1)] by metis
  with p'(2) show "i \<in> expired s" by (auto simp: expired_def evolves_def)
qed

context fc_safe
begin

lemma clear_expired_ok:
  fixes E :: "('k::linorder, 'a) gov_env"
  assumes E: "env_ok E"
  shows "gov_wf s \<Longrightarrow> \<exists>s'. clear_expired L E s = Some (Done s') \<and> gov_rel (expired s) s s' \<and> expired s' = {}"
proof (induction "card (expired s)" arbitrary: s rule: less_induct)
  case less
  have w: "tbl_wf (proposals s)" using less.prems by (simp add: gov_wf_def)
  show ?case
  proof (cases "tbl_first_by po_expiration_time (proposals s)")
    case None
    then have "expired s = {}" using tbl_first_by_None [OF None] by (auto simp: expired_def)
    then show ?thesis using None gov_rel_refl [OF less.prems] by (subst clear_expired.simps) simp
  next
    case (Some q)
    obtain i p where q: "q = (i, p)" by (cases q)
    note first = tbl_first_by_Some [OF w Some [unfolded q]]
    show ?thesis
    proof (cases "po_expiration_time p \<le> head_block_time (gdb s)")
      case True
      obtain s1 where s1: "expire_proposal L E i p s = Done s1" "gov_rel {i} s s1" "tbl_get i (proposals s1) = None"
        using expire_proposal_ok [OF E less.prems first(1)] by metis
      have i: "i \<in> expired s" "i \<notin> expired s1" using first(1) True s1(3) by (auto simp: expired_def)
      then have less1: "card (expired s1) < card (expired s)" using expired_rel [OF s1(2)] finite_expired by (metis psubsetI psubset_card_mono)
      have "gov_wf s1" using s1(2) by (simp add: gov_rel_def)
      then obtain s' where s': "clear_expired L E s1 = Some (Done s')" "gov_rel (expired s1) s1 s'" "expired s' = {}"
        using less.hyps [OF less1] by blast
      have "gov_rel (expired s) s s1" by (rule gov_rel_weaken [OF s1(2)]) (use i in blast)
      moreover have "gov_rel (expired s) s1 s'" by (rule gov_rel_weaken [OF s'(2)]) (use expired_rel [OF s1(2)] in blast)
      moreover have "clear_expired L E s = clear_expired L E s1" using Some q True s1(1) by (subst clear_expired.simps) simp
      ultimately show ?thesis using gov_rel_trans s' by metis
    next
      case False
      then have "expired s = {}" using first(2) by (auto simp: expired_def dest: order.trans)
      then show ?thesis using Some q False gov_rel_refl [OF less.prems] by (subst clear_expired.simps) simp
    qed
  qed
qed

end

section \<open>The index of the accounts\<close>

text \<open>\<^verbatim>\<open>required_approval_index\<close>: a secondary index that an interface server keeps, from accounts to the proposals that concern them. An account
  without an entry is \<open>None\<close>; the numbers of an entry are in ascending order.\<close>

type_synonym approval_index = "account_id_type \<rightharpoonup> nat list"

definition listed :: "approval_index \<Rightarrow> account_id_type \<Rightarrow> nat \<Rightarrow> bool" where
  "listed m a i = (case m a of None \<Rightarrow> False | Some ps \<Rightarrow> i \<in> set ps)"

definition idx_insert :: "nat \<Rightarrow> account_id_type \<Rightarrow> approval_index \<Rightarrow> approval_index" where
  "idx_insert i a m = m(a \<mapsto> insort_insert i (case m a of None \<Rightarrow> [] | Some ps \<Rightarrow> ps))"

definition idx_remove :: "nat \<Rightarrow> account_id_type \<Rightarrow> approval_index \<Rightarrow> approval_index" where
  "idx_remove i a m = (case m a of None \<Rightarrow> m | Some ps \<Rightarrow>
     (let rest = removeAll i ps in if rest = [] then m(a := None) else m(a \<mapsto> rest)))"

definition concerned :: "'k proposal_object \<Rightarrow> account_id_type list" where
  "concerned p = required_active_approvals p @ required_owner_approvals p @ available_active_approvals p @ available_owner_approvals p"

definition object_inserted :: "nat \<Rightarrow> 'k proposal_object \<Rightarrow> approval_index \<Rightarrow> approval_index" where
  "object_inserted i p m = fold (idx_insert i) (concerned p) m"

definition object_removed :: "nat \<Rightarrow> 'k proposal_object \<Rightarrow> approval_index \<Rightarrow> approval_index" where
  "object_removed i p m = fold (idx_remove i) (concerned p) m"

fun insert_or_remove_delta :: "nat \<Rightarrow> account_id_type list \<Rightarrow> account_id_type list \<Rightarrow> approval_index \<Rightarrow> approval_index" where
  "insert_or_remove_delta i [] [] m = m"
| "insert_or_remove_delta i (b # bs) [] m = insert_or_remove_delta i bs [] (idx_remove i b m)"
| "insert_or_remove_delta i [] (a # as) m = insert_or_remove_delta i [] as (idx_insert i a m)"
| "insert_or_remove_delta i (b # bs) (a # as) m =
     (if b < a then insert_or_remove_delta i bs (a # as) (idx_remove i b m)
      else if a < b then insert_or_remove_delta i (b # bs) as (idx_insert i a m)
      else insert_or_remove_delta i bs as m)"

text \<open>\<^verbatim>\<open>about_to_modify\<close> saves the approvals of \<open>p\<close>, \<^verbatim>\<open>object_modified\<close> compares them with those of \<open>p'\<close>.\<close>

definition object_modified :: "nat \<Rightarrow> 'k proposal_object \<Rightarrow> 'k proposal_object \<Rightarrow> approval_index \<Rightarrow> approval_index" where
  "object_modified i p p' m = insert_or_remove_delta i (available_owner_approvals p) (available_owner_approvals p')
     (insert_or_remove_delta i (available_active_approvals p) (available_active_approvals p') m)"

lemma listed_insert: "listed (idx_insert i a m) b j \<longleftrightarrow> (b = a \<and> j = i) \<or> listed m b j"
  by (auto simp: listed_def idx_insert_def set_insort_insert split: option.splits)

lemma listed_remove: "listed (idx_remove i a m) b j \<longleftrightarrow> listed m b j \<and> \<not> (b = a \<and> j = i)"
proof (cases "m a")
  case (Some ps)
  then show ?thesis by (cases "removeAll i ps = []") (auto simp: listed_def idx_remove_def Let_def simp flip: set_empty)
qed (auto simp: listed_def idx_remove_def)

lemma listed_inserted: "listed (object_inserted i p m) b j \<longleftrightarrow> (j = i \<and> b \<in> set (concerned p)) \<or> listed m b j"
proof -
  have "listed (fold (idx_insert i) xs m) b j \<longleftrightarrow> (j = i \<and> b \<in> set xs) \<or> listed m b j" for xs
    by (induction xs arbitrary: m) (auto simp: listed_insert)
  then show ?thesis by (simp add: object_inserted_def)
qed

lemma listed_removed: "listed (object_removed i p m) b j \<longleftrightarrow> listed m b j \<and> \<not> (j = i \<and> b \<in> set (concerned p))"
proof -
  have "listed (fold (idx_remove i) xs m) b j \<longleftrightarrow> listed m b j \<and> \<not> (j = i \<and> b \<in> set xs)" for xs
    by (induction xs arbitrary: m) (auto simp: listed_remove)
  then show ?thesis by (simp add: object_removed_def)
qed

text \<open>On two ascending lists the merge loop adds what is new and removes what is gone.\<close>

lemma listed_delta:
  assumes "sorted_wrt (<) bs" "sorted_wrt (<) as"
  shows "listed (insert_or_remove_delta i bs as m) b j \<longleftrightarrow>
    (if j = i \<and> b \<in> set as - set bs then True else if j = i \<and> b \<in> set bs - set as then False else listed m b j)"
  using assms
proof (induction i bs as m rule: insert_or_remove_delta.induct)
  case (4 i b' bs a as m)
  consider "b' < a" | "a < b'" | "a = b'" by fastforce
  then show ?case
  proof cases
    case 1
    then have "b' \<notin> set (a # as)" using 4(5) by auto
    then show ?thesis using 1 4(1) [OF 1] 4(4,5) by (auto simp: listed_remove)
  next
    case 2
    then have "a \<notin> set (b' # bs)" using 4(4) by auto
    then show ?thesis using 2 4(2) 4(4,5) by (auto simp: listed_insert)
  next
    case 3
    then show ?thesis using 4(3) 4(4,5) by (auto simp del: not_less)
  qed
qed (auto simp: listed_insert listed_remove)

text \<open>The index has no stale entries: what is listed exists and concerns the account.\<close>

definition index_sound :: "'k proposal_object tbl \<Rightarrow> approval_index \<Rightarrow> bool" where
  "index_sound t m \<longleftrightarrow> (\<forall>a i. listed m a i \<longrightarrow> (\<exists>p. tbl_get i t = Some p \<and> a \<in> set (concerned p)))"

lemma index_sound_steps:
  assumes wf: "tbl_wf t" and snd: "index_sound t m"
  shows "index_sound (snd (tbl_create p t)) (object_inserted (fst (tbl_create p t)) p m)"
    "tbl_get i t = Some q \<Longrightarrow> index_sound (tbl_remove i t) (object_removed i q m)"
proof -
  have "tbl_get (fst (tbl_create p t)) t = None" by (rule tbl.create_fresh [OF wf])
  then show "index_sound (snd (tbl_create p t)) (object_inserted (fst (tbl_create p t)) p m)"
    using snd by (fastforce simp: index_sound_def listed_inserted tbl.get_create [OF wf])
  show "index_sound (tbl_remove i t) (object_removed i q m)" if "tbl_get i t = Some q"
    using snd that by (fastforce simp: index_sound_def listed_removed tbl.get_remove [OF wf])
qed

lemma index_sound_modify:
  assumes snd: "index_sound t m" and p: "tbl_get i t = Some p" and f: "evolves now p (f p)"
    and asc: "sorted_wrt (<) (available_active_approvals p)" "sorted_wrt (<) (available_active_approvals (f p))"
      "sorted_wrt (<) (available_owner_approvals p)" "sorted_wrt (<) (available_owner_approvals (f p))"
  shows "index_sound (tbl_modify i f t) (object_modified i p (f p) m)"
  unfolding index_sound_def
proof (intro allI impI)
  fix a j
  assume l: "listed (object_modified i p (f p) m) a j"
  show "\<exists>q. tbl_get j (tbl_modify i f t) = Some q \<and> a \<in> set (concerned q)"
  proof (cases "j = i")
    case False
    then have "listed m a j" using l by (simp add: object_modified_def listed_delta asc)
    then show ?thesis using snd False by (auto simp: index_sound_def tbl.get_modify)
  next
    case True
    have same: "required_active_approvals (f p) = required_active_approvals p" "required_owner_approvals (f p) = required_owner_approvals p"
      using f by (simp_all add: evolves_def)
    have "a \<in> set (concerned p)" if "listed m a i" using snd that p unfolding index_sound_def by (metis option.inject)
    then have "a \<in> set (concerned (f p))" using l True
      by (auto simp: object_modified_def listed_delta asc concerned_def same split: if_splits)
    then show ?thesis using True p by (simp add: tbl.get_modify)
  qed
qed

text \<open>It is not complete: an account that takes its approval back is no longer listed, although the proposal still requires it.\<close>

lemma index_forgets_required:
  fixes p :: "nat proposal_object"
  assumes "7 \<in> set (required_active_approvals p)" "available_active_approvals p = []" "available_owner_approvals p = []"
    and "p1 = p\<lparr>available_active_approvals := [7]\<rparr>"
  shows "listed (object_modified 0 p p1 (object_inserted 0 p Map.empty)) 7 0 \<and>
    \<not> listed (object_modified 0 p1 p (object_modified 0 p p1 (object_inserted 0 p Map.empty))) 7 0"
  using assms by (simp add: object_modified_def listed_insert listed_remove)

section \<open>Properties\<close>

text \<open>
  (C6) Executing proposals is safe: a valid list of operations, whose approvals may set off the execution of proposals in proposals to any depth,
  never touches a proposal that is gone, which made nodes crash before the hard fork of issue 1479; when it succeeds, the invariant holds again,
  the ledger of every asset balances, and every proposal newer than all targets of the operations is untouched.
\<close>

theorem proposal_execution_safe:
  assumes "fc_safe L" "env_ok E" "gov_wf s" "list_all proposable_validate ops"
  shows "run_ops L E (nesting_limit E) [] ops s \<noteq> Undefined \<and>
    (\<forall>s'. run_ops L E (nesting_limit E) [] ops s = Done s' \<longrightarrow> gov_wf s' \<and> (\<forall>b. gap b (gdb s') = gap b (gdb s)) \<and>
      (\<forall>i p. tbl_get i (proposals s) = Some p \<longrightarrow> (\<forall>t \<in> ops_targets ops. t < i) \<longrightarrow> tbl_get i (proposals s') = Some p))"
proof -
  have "exec_ok (ops_targets ops) s (run_ops L E (nesting_limit E) [] ops s)"
    by (rule fc_safe.run_ops_ok [OF assms(1,2) _ _ _ assms(3,4)]) simp_all
  then show ?thesis by (cases "run_ops L E (nesting_limit E) [] ops s") (auto simp: gov_rel_def)
qed

text \<open>
  (C20) The loop over the expired proposals returns, although it executes them and they may create, approve and delete others: no expired
  proposal is left, the invariant holds, the ledger of every asset balances, and a proposal newer than all the expired ones is untouched.
\<close>

theorem expired_proposals_cleared:
  assumes "fc_safe L" "env_ok E" "gov_wf s"
  shows "\<exists>s'. clear_expired L E s = Some (Done s') \<and> gov_wf s' \<and> (\<forall>b. gap b (gdb s') = gap b (gdb s)) \<and>
    head_block_time (gdb s') = head_block_time (gdb s) \<and>
    (\<forall>i p. tbl_get i (proposals s') = Some p \<longrightarrow> po_expiration_time p > head_block_time (gdb s)) \<and>
    (\<forall>i p. tbl_get i (proposals s) = Some p \<longrightarrow> (\<forall>t \<in> expired s. t < i) \<longrightarrow> tbl_get i (proposals s') = Some p)"
proof -
  obtain s' where s': "clear_expired L E s = Some (Done s')" "gov_rel (expired s) s s'" "expired s' = {}"
    using fc_safe.clear_expired_ok [OF assms] by blast
  then have "\<forall>i p. tbl_get i (proposals s') = Some p \<longrightarrow> po_expiration_time p > head_block_time (gdb s)"
    by (auto simp: expired_def gov_rel_def not_le)
  with s' show ?thesis unfolding gov_rel_def by blast
qed

text \<open>
  (C28) In the review period of a proposal no account can approve it any more: whatever operations run, also through other proposals, its terms
  stay and the approvals of accounts only shrink, until it is deleted or expires.
\<close>

theorem review_period_respected:
  assumes "fc_safe L" "env_ok E" "gov_wf s" "list_all proposable_validate ops" "run_ops L E (nesting_limit E) [] ops s = Done s'"
    and "tbl_get i (proposals s) = Some p" "tbl_get i (proposals s') = Some p'" "in_review (head_block_time (gdb s)) p"
  shows "set (available_active_approvals p') \<subseteq> set (available_active_approvals p) \<and>
    set (available_owner_approvals p') \<subseteq> set (available_owner_approvals p) \<and>
    proposed_transaction p' = proposed_transaction p \<and> po_expiration_time p' = po_expiration_time p \<and> review_period_time p' = review_period_time p"
proof -
  have "exec_ok (ops_targets ops) s (run_ops L E (nesting_limit E) [] ops s)"
    by (rule fc_safe.run_ops_ok [OF assms(1,2) _ _ _ assms(3,4)]) simp_all
  then have rel: "gov_rel (ops_targets ops) s s'" using assms(5) by simp
  have "i < next_instance (proposals s)" using assms(3,6) by (auto simp: gov_wf_def dest: tbl_get_less)
  from gov_rel_old [OF rel assms(7) this] assms(6,8) show ?thesis by (auto simp: evolves_def)
qed

text \<open>An update takes a proposal off the table only by executing it.\<close>

lemma fee_end_proposals: "fee_end L c s = Some s' \<Longrightarrow> proposals s' = proposals s"
  by (auto simp: fee_end_def opt_bind)

lemma update_executes:
  assumes run: "run_op L E room refs (Proposal_update u) s = Done s'"
    and b: "fee_begin L (gov_fee E (Proposal_update u)) (pu_fee_paying_account u) (pu_fee u) (proposal_update_evaluate u) s = Some (c, e, s1)"
    and p: "tbl_get (pu_proposal u) (proposals s1) = Some p" and gone: "tbl_get (pu_proposal u) (proposals s') = None"
  shows "review_period_time p = None \<and>
    is_authorized_to_execute E (change_approvals u p) (modify_proposal (pu_proposal u) (change_approvals u) s1) = Some True"
proof (rule ccontr)
  assume no: "\<not> ?thesis"
  let ?i = "pu_proposal u"
  define s2 where "s2 = modify_proposal ?i (change_approvals u) s1"
  have p2: "tbl_get ?i (proposals s2) = Some (change_approvals u p)" using p by (simp add: s2_def modify_proposal_def tbl.get_modify)
  have rp: "review_period_time (change_approvals u p) = review_period_time p" by (simp add: change_approvals_def)
  have "is_authorized_to_execute E (change_approvals u p) s2 \<noteq> Some True \<or> review_period_time p \<noteq> None" using no by (auto simp: s2_def)
  then have "of_option (fee_end L c s2) = Done s'"
    using run unfolding run_op.simps(3) b option.case prod.case Let_def s2_def [symmetric] p2 option.sel rp
    by (auto split: if_splits option.splits bool.splits)
  then have "proposals s' = proposals s2" by (auto simp: of_option_def fee_end_proposals split: option.splits)
  with gone p2 show False by simp
qed

lemma update_required_keys_ok: "au \<in> set (update_required_keys u) \<Longrightarrow> authority_ok (Some au)"
proof -
  have put: "weights_ok (fm_put k 1 m)" if "weights_ok m" for k :: 'a and m :: "('a \<times> int) list"
    using that by (induction k "1 :: int" m rule: fm_put.induct) (auto simp: weights_ok_def split: if_splits)
  then have "weights_ok (fold (\<lambda>k m. fm_put k 1 m) ks m)" if "weights_ok m" for ks :: "'a list" and m :: "('a \<times> int) list"
    using that by (induction ks arbitrary: m) auto
  then show "au \<in> set (update_required_keys u) \<Longrightarrow> authority_ok (Some au)"
    by (auto simp: update_required_keys_def authority_ok_def Let_def split: if_splits)
qed

text \<open>
  (C14) A proposal is only executed with the authority of everyone it concerns: when an update takes it off the table, it has no review period,
  and for each of its operations the payer and every account whose active authority is required are granted by the keys and accounts that have approved
  it, or their owner authority is satisfied, and every account whose owner authority is required has approved as owner or has its owner authority satisfied.
\<close>

theorem proposal_runs_only_when_approved:
  assumes "fc_safe L" "gov_wf s" "context_ok (gov_context E s)" "run_op L E room refs (Proposal_update u) s = Done s'"
    and "tbl_get (pu_proposal u) (proposals s) = Some p" "tbl_get (pu_proposal u) (proposals s') = None" "p' = change_approvals u p"
    and "K = set (available_key_approvals p')" "C = gov_context E s" "op \<in> set (proposed_transaction p)"
    and "A = set (available_active_approvals p') \<union> set (available_owner_approvals p') \<union> {GRAPHENE_TEMP_ACCOUNT}"
  shows "review_period_time p = None \<and>
    (\<forall>i \<in> insert (proposable_payer op) (set (op_active proposable_iface op)). granted C K A i \<or> satisfied C K A (get_owner C i)) \<and>
    (\<forall>i \<in> set (op_owner proposable_iface op). i \<in> set (available_owner_approvals p') \<or> satisfied C K A (get_owner C i))"
proof -
  let ?b = "fee_begin L (gov_fee E (Proposal_update u)) (pu_fee_paying_account u) (pu_fee u) (proposal_update_evaluate u) s"
  obtain c e s1 where b: "?b = Some (c, e, s1)" using assms(4) by (cases ?b) auto
  obtain d1 where d1: "s1 = s\<lparr>gdb := d1\<rparr>" "head_block_time d1 = head_block_time (gdb s)"
    using fc_safe.fee_begin_effect [OF assms(1,2) b] by metis
  have p1: "tbl_get (pu_proposal u) (proposals s1) = Some p" using assms(5) d1(1) by simp
  note x = update_executes [OF assms(4) b p1 assms(6)]
  have C: "gov_context E (modify_proposal (pu_proposal u) (change_approvals u) s1) = C"
    using d1 by (simp add: gov_context_def modify_proposal_def assms(9))
  have ops: "proposed_transaction p' = proposed_transaction p" by (simp add: assms(7) change_approvals_def)
  have run: "verify_authority proposable_iface C (proposed_transaction p) (available_key_approvals p') (gov_authority_depth E) True
      (available_active_approvals p') (available_owner_approvals p') = Some (Inr ())"
    using x unfolding is_authorized_to_execute_def C assms(7) [symmetric] ops by auto
  have "\<forall>op \<in> set (proposed_transaction p). \<forall>au \<in> set (op_other proposable_iface op). authority_ok (Some (au :: ('a, 'b) authority))"
    by (auto simp: proposable_iface_def dest: update_required_keys_ok split: proposable.splits)
  from verify_authority_granted [OF assms(3) [folded assms(9)] this run assms(10,11)] x show ?thesis
    by (simp add: assms(8) proposable_iface_def)
qed

text \<open>Account 7 can pay; 8 has proposed a transfer from 7 to itself (proposal 0), a second proposal that approves the first for 7 and has all approvals
  it needs (1), and a third that is in its review period (2).\<close>

definition demo_gov_env :: "(nat, nat) gov_env" where
  "demo_gov_env = \<lparr>gov_hashes = demo_hash, gov_interval = 5, gov_fee = (\<lambda>_. None),
     gov_active = (\<lambda>i. if i = 7 then Some \<lparr>weight_threshold = 1, account_auths = [], key_auths = [(1, 1)], address_auths = []\<rparr>
       else if i = 8 then Some \<lparr>weight_threshold = 1, account_auths = [], key_auths = [(2, 1)], address_auths = []\<rparr> else None),
     gov_owner = (\<lambda>_. None), gov_addresses = (\<lambda>_. []), gov_authority_depth = 2, maximum_proposal_lifetime = 1000000,
     committee_proposal_review_period = 100, active_witness_number = 3\<rparr>"

definition demo_approve :: "nat \<Rightarrow> account_id_type list \<Rightarrow> nat list \<Rightarrow> nat proposable" where
  "demo_approve i accs keys = Proposal_update \<lparr>pu_fee_paying_account = 8, pu_fee = mk_asset 0 0, pu_proposal = i, active_approvals_to_add = accs,
     active_approvals_to_remove = [], owner_approvals_to_add = [], owner_approvals_to_remove = [],
     key_approvals_to_add = keys, key_approvals_to_remove = []\<rparr>"

definition demo_pay :: "nat proposable" where
  "demo_pay = Plain (Transfer \<lparr>tr_fee = mk_asset 0 0, tr_from = 7, tr_to = 8, tr_amount = mk_asset 5 0\<rparr>)"

definition demo_proposal :: "time_point_sec \<Rightarrow> time_point_sec option \<Rightarrow> nat proposable \<Rightarrow> account_id_type list \<Rightarrow> account_id_type list \<Rightarrow> nat proposal_object" where
  "demo_proposal expir review op req avail = \<lparr>po_expiration_time = expir, review_period_time = review, proposed_transaction = [op],
     required_active_approvals = req, available_active_approvals = avail, required_owner_approvals = [], available_owner_approvals = [],
     available_key_approvals = [], proposer = 8, has_fail_reason = False\<rparr>"

definition demo_gov :: "nat gov_db" where
  "demo_gov = \<lparr>gdb = demo_permits\<lparr>head_block_time := 1600000000\<rparr>,
     proposals = \<lparr>rows = [(0, demo_proposal 1600001000 None demo_pay [7] []), (1, demo_proposal 1600000000 None (demo_approve 0 [7] []) [7, 8] [7, 8]),
       (2, demo_proposal 1600000500 (Some 1599999000) demo_pay [7] [])], next_instance = 3\<rparr>\<rparr>"

definition demo_left :: "nat gov_db exec \<Rightarrow> (nat list \<times> share_type) option" where
  "demo_left r = (case r of Done s \<Rightarrow> Some (map fst (rows (proposals s)), amount (get_balance (gdb s) 7 0)) | Thrown \<Rightarrow> None | Undefined \<Rightarrow> None)"

lemma demo_gov_env_ok: "env_ok demo_gov_env" "context_ok (gov_context demo_gov_env demo_gov)" "nesting_limit demo_gov_env = 6"
  by (simp_all add: env_ok_def address_free_def context_ok_def authority_ok_def gov_context_def demo_gov_env_def nesting_limit_def)

lemma demo_gov_rows:
  "tbl_get i (proposals demo_gov) = Some p \<longleftrightarrow> i = 0 \<and> p = demo_proposal 1600001000 None demo_pay [7] [] \<or>
     i = 1 \<and> p = demo_proposal 1600000000 None (demo_approve 0 [7] []) [7, 8] [7, 8] \<or>
     i = 2 \<and> p = demo_proposal 1600000500 (Some 1599999000) demo_pay [7] []"
  by (auto simp: demo_gov_def tbl_get_def)

lemma demo_gov_wf: "gov_wf demo_gov"
proof -
  have "db_wf (gdb demo_gov)" using demo_permits_wf by (simp add: demo_gov_def db_wf_def assets_linked_def)
  moreover have "tbl_wf (proposals demo_gov)" by (simp add: demo_gov_def tbl_wf_def)
  moreover have "operation_validate (Transfer \<lparr>tr_fee = mk_asset 0 0, tr_from = 7, tr_to = 8, tr_amount = mk_asset 5 0\<rparr>) \<noteq> None" by code_simp
  then have "proposal_ok i p" if "tbl_get i (proposals demo_gov) = Some p" for i p
    using that by (auto simp: demo_gov_rows proposal_ok_def demo_proposal_def demo_pay_def demo_approve_def disjoint_lists_def)
  moreover have "head_block_time (gdb demo_gov) > HARDFORK_CORE_1479_TIME" by (simp add: demo_gov_def chain_consts)
  ultimately show ?thesis by (simp add: gov_wf_def)
qed

lemma demo_approve_valid: "list_all proposable_validate [demo_approve i (a # as) ks]" "list_all proposable_validate [demo_approve i [] (k # ks)]"
  by (simp_all add: demo_approve_def disjoint_lists_def list_all_iff)

theorem proposal_execution_safe_witness:
  "\<exists>s'. run_ops checked_lib demo_gov_env (nesting_limit demo_gov_env) [] [demo_approve 1 [8] []] demo_gov = Done s' \<and>
     map fst (rows (proposals s')) = [2] \<and> amount (get_balance (gdb s') 7 0) = 55 \<and> gap 0 (gdb s') = gap 0 (gdb demo_gov)"
proof -
  let ?r = "run_ops checked_lib demo_gov_env (nesting_limit demo_gov_env) [] [demo_approve 1 [8] []] demo_gov"
  have "demo_left ?r = Some ([2], 55)" by code_simp
  then obtain s' where s': "?r = Done s'" "map fst (rows (proposals s')) = [2]" "amount (get_balance (gdb s') 7 0) = 55"
    by (auto simp: demo_left_def split: exec.splits)
  from proposal_execution_safe [OF checked_lib_safe demo_gov_env_ok(1) demo_gov_wf demo_approve_valid(1), of 1 8 "[]" "[]"] s'
  show ?thesis by auto
qed

theorem expired_proposals_cleared_witness:
  "\<exists>s'. clear_expired checked_lib demo_gov_env demo_gov = Some (Done s') \<and> map fst (rows (proposals s')) = [2] \<and>
     amount (get_balance (gdb s') 7 0) = 55 \<and> gap 0 (gdb s') = gap 0 (gdb demo_gov)"
proof -
  have "map_option demo_left (clear_expired checked_lib demo_gov_env demo_gov) = Some (Some ([2], 55))" by code_simp
  with expired_proposals_cleared [OF checked_lib_safe demo_gov_env_ok(1) demo_gov_wf] show ?thesis by (auto simp: demo_left_def)
qed

text \<open>Keys are not part of the rule: a key approval is accepted in the review period, and here it authorizes the proposal.\<close>

theorem review_period_respected_witness:
  "\<exists>s' p p'. run_ops checked_lib demo_gov_env (nesting_limit demo_gov_env) [] [demo_approve 2 [] [1]] demo_gov = Done s' \<and>
     tbl_get 2 (proposals demo_gov) = Some p \<and> in_review 1600000000 p \<and> tbl_get 2 (proposals s') = Some p' \<and>
     set (available_active_approvals p') \<subseteq> set (available_active_approvals p) \<and>
     is_authorized_to_execute demo_gov_env p demo_gov = Some False \<and> is_authorized_to_execute demo_gov_env p' s' = Some True"
proof -
  let ?r = "run_ops checked_lib demo_gov_env (nesting_limit demo_gov_env) [] [demo_approve 2 [] [1]] demo_gov"
  let ?p = "demo_proposal 1600000500 (Some 1599999000) demo_pay [7] []"
  have "(case ?r of Done s' \<Rightarrow> (case tbl_get 2 (proposals s') of Some p' \<Rightarrow> is_authorized_to_execute demo_gov_env p' s' = Some True | None \<Rightarrow> False)
      | Thrown \<Rightarrow> False | Undefined \<Rightarrow> False)" by code_simp
  then obtain s' p' where s': "?r = Done s'" "tbl_get 2 (proposals s') = Some p'" "is_authorized_to_execute demo_gov_env p' s' = Some True"
    by (auto split: exec.splits option.splits)
  have p: "tbl_get 2 (proposals demo_gov) = Some ?p" by (simp add: demo_gov_rows)
  have rv: "in_review (head_block_time (gdb demo_gov)) ?p" "head_block_time (gdb demo_gov) = 1600000000"
    by (simp_all add: in_review_def demo_proposal_def demo_gov_def)
  have "is_authorized_to_execute demo_gov_env ?p demo_gov = Some False" by code_simp
  with review_period_respected [OF checked_lib_safe demo_gov_env_ok(1) demo_gov_wf demo_approve_valid(2) s'(1) p s'(2) rv(1)] s' p rv
  show ?thesis by auto
qed

theorem proposal_runs_only_when_approved_witness:
  "\<exists>s'. run_op checked_lib demo_gov_env 6 [] (demo_approve 0 [7] []) demo_gov = Done s' \<and> tbl_get 0 (proposals s') = None \<and>
     (granted (gov_context demo_gov_env demo_gov) {} {7, 4} 7 \<or>
      satisfied (gov_context demo_gov_env demo_gov) {} {7, 4} (get_owner (gov_context demo_gov_env demo_gov) 7))"
proof -
  let ?r = "run_op checked_lib demo_gov_env 6 [] (demo_approve 0 [7] []) demo_gov"
  let ?p = "demo_proposal 1600001000 None demo_pay [7] []"
  have "(case ?r of Done s' \<Rightarrow> tbl_get 0 (proposals s') = None | Thrown \<Rightarrow> False | Undefined \<Rightarrow> False)" by code_simp
  then obtain s' where s': "?r = Done s'" "tbl_get 0 (proposals s') = None" by (auto split: exec.splits)
  have p: "tbl_get 0 (proposals demo_gov) = Some ?p" by (simp add: demo_gov_rows)
  obtain u where u: "demo_approve 0 [7] [] = Proposal_update u" "pu_proposal u = 0" "available_active_approvals (change_approvals u ?p) = [7]"
      "available_owner_approvals (change_approvals u ?p) = []" "available_key_approvals (change_approvals u ?p) = []"
    by (simp add: demo_approve_def demo_proposal_def change_approvals_def fs_change_def insort_insert_key_def)
  have op: "demo_pay \<in> set (proposed_transaction ?p)" "proposable_payer demo_pay = 7" by (simp_all add: demo_proposal_def demo_pay_def)
  note run = s'(1) [unfolded u(1)] and t = p [folded u(2)] and t' = s'(2) [folded u(2)]
  from proposal_runs_only_when_approved [OF checked_lib_safe demo_gov_wf demo_gov_env_ok(2) run t t' refl refl refl op(1) refl]
  show ?thesis using s' op(2) by (auto simp: u GRAPHENE_TEMP_ACCOUNT_def insert_commute)
qed

text \<open>Without the invariant a proposal can delete itself while it is executed.\<close>

lemma self_deletion_undefined:
  "run_ops checked_lib demo_gov_env 6 [] [demo_approve 0 [7] []] (demo_gov\<lparr>proposals := \<lparr>rows = [(0, demo_proposal 1600001000 None
     (Proposal_delete \<lparr>pd_fee_paying_account = 7, using_owner_authority = False, pd_fee = mk_asset 0 0, pd_proposal = 0\<rparr>) [7] [])],
     next_instance = 1\<rparr>\<rparr>) = Undefined"
proof -
  have "(case run_ops checked_lib demo_gov_env 6 [] [demo_approve 0 [7] []] (demo_gov\<lparr>proposals := \<lparr>rows = [(0, demo_proposal 1600001000 None
     (Proposal_delete \<lparr>pd_fee_paying_account = 7, using_owner_authority = False, pd_fee = mk_asset 0 0, pd_proposal = 0\<rparr>) [7] [])],
     next_instance = 1\<rparr>\<rparr>) of Done _ \<Rightarrow> False | Thrown \<Rightarrow> False | Undefined \<Rightarrow> True)" by code_simp
  then show ?thesis by (simp split: exec.splits)
qed

end
