(* ===== verification/Spec2Isabelle.thy ===== *)
theory Spec2Isabelle
  imports Asset Object_Id Undo_Database Allocation Tables Vesting Chain_State Balances Property_Ops Market_Fees Liquidity_Pool Htlc Fees
    Vesting_Ops Limit_Orders Margin_Calls Market Settlement Blocks Fork_Database Authority Witness_Schedule Transfers Operations
    Transactions Block_Apply Chain_Switch Budget Voting Proposals
begin

text \<open>
  The META1 blockchain core, a fork of BitShares in C++, verified from its source under \<^verbatim>\<open>src/libraries\<close>.

  \<^bold>\<open>The program.\<close> A node keeps a database of typed objects (accounts, assets, balances, orders, \<^verbatim>\<open>...\<close>) and changes it only by applying
  blocks. A block has transactions, a transaction has operations, and each operation has an evaluator with a check (\<^verbatim>\<open>do_evaluate\<close>) and an effect
  (\<^verbatim>\<open>do_apply\<close>), run by a template that moves the fee. Around the operations stand the verification of signatures, the schedule of the block
  producers, the database of competing forks, and the undo history that takes blocks back. What META1 adds to its parent are
  properties that back an asset, allocated minute by minute, limits and published prices that follow from them, and the check that no order for META1 undercuts
  its backing.

  \<^bold>\<open>How the code is modelled.\<close> Every struct is a record, every variant a datatype, every function a definition with its name; an exception is
  \<open>None\<close>, or a value of an error type where callers distinguish it. 64-bit amounts are \<open>int\<close> with the checks of \<^verbatim>\<open>fc::safe\<close> or the
  wrap-around (\<open>u32\<close>, \<open>u64\<close>, \<open>s64\<close>, \<open>u128\<close>) written out; identifiers and bit operations are \<open>word\<close>s. The submodule \<^verbatim>\<open>fc\<close> and
  Boost are not under \<^verbatim>\<open>src\<close>: their functions are the record \<open>fc_lib\<close>, with what the code relies on as the locales \<open>fc_safe\<close>, \<open>fc_time\<close> and
  \<open>boost_rational\<close> of \<^verbatim>\<open>External\<close>, interpreted by \<open>checked_lib\<close>; hashes and signature recovery are arguments. Witnesses run the
  definitions on small databases (\<open>demo_\<dots>\<close>) inside the kernel.

  \<^bold>\<open>Theories, bottom up.\<close>
  \<^item> \<^verbatim>\<open>Prelude\<close>: assertions, machine integers, rounding division, the collection \<open>chain_consts\<close>. \<^verbatim>\<open>External\<close>: the libraries.
  \<^item> \<^verbatim>\<open>Asset\<close> (\<^verbatim>\<open>protocol/asset.cpp\<close>): amounts, prices as fractions and their exact order, the scaling of prices, collateral ratios.
    \<^verbatim>\<open>Object_Id\<close> (\<^verbatim>\<open>object_id.hpp\<close>): packing and unpacking of identifiers.
  \<^item> \<^verbatim>\<open>Undo_Database\<close> (\<^verbatim>\<open>db/undo_database.cpp\<close>): sessions of changes over an index of objects; undoing restores the state, merging composes.
  \<^item> \<^verbatim>\<open>Tables\<close> and \<^verbatim>\<open>Chain_State\<close>: the contract \<open>object_table\<close> of a typed index, the objects of \<^verbatim>\<open>chain/*_object.hpp\<close>, the record
    \<open>database\<close>, and the ledger: \<open>gap a d\<close> is what all tables hold of asset \<open>a\<close> less its supply. Conservation theorems say that it is constant.
  \<^item> \<^verbatim>\<open>Allocation\<close>, \<^verbatim>\<open>Property_Ops\<close> (\<^verbatim>\<open>property_evaluator.cpp\<close>, \<^verbatim>\<open>db_smooth_allocation.cpp\<close>, \<^verbatim>\<open>asset_limitation_evaluator.cpp\<close>, \<^verbatim>\<open>\<dots>\<close>):
    the plan of a property, its allocation per block in closed form, and that the sell limit is the backing.
  \<^item> \<^verbatim>\<open>Vesting\<close>, \<^verbatim>\<open>Vesting_Ops\<close>, \<^verbatim>\<open>Balances\<close>, \<^verbatim>\<open>Market_Fees\<close>, \<^verbatim>\<open>Fees\<close>: vesting policies under the contract \<open>vesting_contract\<close>, balances,
    cashback and rewards, the payment and the split of fees, and the contract \<open>op_evaluator\<close> of an evaluator.
  \<^item> \<^verbatim>\<open>Liquidity_Pool\<close>, \<^verbatim>\<open>Htlc\<close>, \<^verbatim>\<open>Transfers\<close>: pools and the value of their shares, hash time-locked contracts as a step relation, transfers, recurring
    withdrawals and the supply of assets.
  \<^item> \<^verbatim>\<open>Bitasset\<close>, \<^verbatim>\<open>Call_Order\<close>, \<^verbatim>\<open>Limit_Orders\<close>, \<^verbatim>\<open>Margin_Calls\<close>, \<^verbatim>\<open>Market\<close>, \<^verbatim>\<open>Settlement\<close> (\<^verbatim>\<open>market_object.cpp\<close>, \<^verbatim>\<open>db_market.cpp\<close>,
    \<^verbatim>\<open>market_evaluator.cpp\<close>): matching, the debt a margin call covers (\<open>margin_call\<close>, \<open>rounding\<close>), black swans and the fund they fill, the order book
    and the price-time priority with which a new order is matched, the creation of an order with all that it sets off, forced settlement.
  \<^item> \<^verbatim>\<open>Blocks\<close>, \<^verbatim>\<open>Fork_Database\<close>, \<^verbatim>\<open>Authority\<close>, \<^verbatim>\<open>Witness_Schedule\<close>: identifiers and Merkle roots, the tree of forks with its shared and
    weak pointers, the recursive check of authorities, slots, shuffling and irreversibility.
  \<^item> \<^verbatim>\<open>Operations\<close>, \<^verbatim>\<open>Transactions\<close>, \<^verbatim>\<open>Block_Apply\<close>, \<^verbatim>\<open>Chain_Switch\<close> (\<^verbatim>\<open>db_block.cpp\<close>): the operations under one contract, the checks of a transaction, and
    the application of a block with everything that follows its transactions, whose effect on the ledger is what the steps in \<open>chain_hooks\<close>
    make; pushing a block, with the switch to another fork and back and the state that each way out of it leaves.
  \<^item> \<^verbatim>\<open>Budget\<close>, \<^verbatim>\<open>Voting\<close> (\<^verbatim>\<open>db_maint.cpp\<close>, \<^verbatim>\<open>worker_evaluator.cpp\<close>, \<^verbatim>\<open>vote_count.hpp\<close>): workers, their pay and the budget of a
    maintenance interval; the tally of the votes, the election of witnesses and committee members and the weights of their authorities.
  \<^item> \<^verbatim>\<open>Proposals\<close> (\<^verbatim>\<open>proposal_evaluator.cpp\<close>, \<^verbatim>\<open>proposal_object.cpp\<close>, \<^verbatim>\<open>push_proposal\<close>, \<^verbatim>\<open>clear_expired_proposals\<close>): proposed transactions, their
    approvals and their nested execution, where removing a proposal that is in execution is the outcome \<open>Undefined\<close>; the index of the accounts a proposal concerns.

  \<^bold>\<open>Bounds and fuel.\<close> Loops are recursive functions with termination proofs, or \<open>partial_function (option)\<close> where a loop can run forever
  (the allocation of a property, the descent in the tree of forks, the matching of orders, the expiration of proposals), and then the theorems state that they return. Fuel is used in three places:
  the scaling of prices in \<open>Asset\<close> (\<open>rational_fuel\<close>, 128 halvings of a 128-bit fraction), the search for the debt to cover
  (\<open>cover_fuel\<close>, 128 steps that grow like the Fibonacci numbers), and \<open>MAX_FEE_STABILIZATION_ITERATION\<close> rounds, which the source itself bounds by 4.

  \<^bold>\<open>Not modelled.\<close> Account operations other than their effect on fees, and of maintenance the loop over the accounts, fee-backed assets, buybacks,
  collateral bids and one-time updates at hard forks; of the end of a block the expired orders and settlements (\<^verbatim>\<open>clear_expired_orders\<close>) and
  the updates of feeds and exchange rates (\<^verbatim>\<open>update_expired_feeds\<close>, \<^verbatim>\<open>update_core_exchange_rates\<close>);
  confidential transfers, which rest on secp256k1-zkp; the block log, replay, pending transactions and generation of blocks; and the network, the
  remote interface, the wallet and the plugins, which are input and output. The steps of \<open>apply_block\<close> among these are the
  fields of \<open>chain_hooks\<close>: the theorems assume that they keep the tables well-formed, the head block and the list of recent transactions, and nothing
  of what they do to balances and supplies. Maintenance and expired proposals are modelled apart from a block, in \<open>Budget\<close>, \<open>Voting\<close> and \<open>Proposals\<close>, since
  their tables are not part of \<open>chain_db\<close>.
\<close>

end
